(* ===== verification/Relay_Prelude.thy ===== *)
theory Relay_Prelude
  imports Main "HOL-Library.Word"
begin

section \<open>Shared vocabulary of the relay's model\<close>

text \<open>
  What every component theory shares: the relay's machine integers and their casts, byte
  strings (a Rust \<open>String\<close> is its UTF-8 bytes, so \<open>length\<close> is Rust's \<open>len\<close>), decimal text,
  trimming, JSON values, results of fallible calls, and the list lemmas the components use.
  The collections \<open>relay_simps\<close> (unfolding rules) and \<open>inv_intros\<close> (invariant preservation)
  are filled by the component theories.
\<close>

named_theorems relay_simps \<open>unfolding rules of the model's small operations\<close>
named_theorems inv_intros \<open>preservation of a component's invariant by one operation\<close>

subsection \<open>Machine integers\<close>

text \<open>
  A Rust \<open>u64\<close> or \<open>usize\<close> that is only counted, compared and stored is a \<open>nat\<close>; the casts the
  code writes are functions here. A \<open>u64\<close> whose bits matter is a \<open>64 word\<close> in its component.
\<close>

type_synonym u64 = nat
type_synonym i64 = int
type_synonym ms = nat
type_synonym http_status = nat

definition u64_max :: nat where
  "u64_max = 2 ^ 64 - 1"

definition i64_of_u64 :: "u64 \<Rightarrow> i64" where
  "i64_of_u64 n = (if n mod 2 ^ 64 < 2 ^ 63 then int (n mod 2 ^ 64) else int (n mod 2 ^ 64) - 2 ^ 64)"

definition u64_of_i64_clamped :: "i64 \<Rightarrow> u64" where
  "u64_of_i64_clamped i = nat (max i 0)"

definition saturating_add :: "u64 \<Rightarrow> u64 \<Rightarrow> u64" where
  "saturating_add a b = min (a + b) u64_max"

definition saturating_sub :: "u64 \<Rightarrow> u64 \<Rightarrow> u64" where
  "saturating_sub a b = a - b"

lemma i64_of_u64_small [simp]: "n < 2 ^ 63 \<Longrightarrow> i64_of_u64 n = int n"
  by (simp add: i64_of_u64_def)

text \<open>The same cast on integers, so that evaluation never counts up to a power of two.\<close>

lemma i64_of_u64_code [code]:
  "i64_of_u64 n = (let k = int n mod 2 ^ 64 in if k < 2 ^ 63 then k else k - 2 ^ 64)"
proof -
  have k: "int (n mod 2 ^ 64) = int n mod 2 ^ 64" by (simp add: zmod_int)
  have "n mod 2 ^ 64 < 2 ^ 63 \<longleftrightarrow> int (n mod 2 ^ 64) < 2 ^ 63"
    by (metis of_nat_less_iff of_nat_numeral of_nat_power)
  then show ?thesis by (simp only: i64_of_u64_def Let_def k)
qed

lemma u64_of_i64_clamped_int [simp]: "u64_of_i64_clamped (int n) = n"
  by (simp add: u64_of_i64_clamped_def)

lemma u64_of_i64_clamped_nonneg: "0 \<le> i \<Longrightarrow> int (u64_of_i64_clamped i) = i"
  by (simp add: u64_of_i64_clamped_def)

lemma saturating_add_le_iff: "b < u64_max \<Longrightarrow> saturating_add a c \<le> b \<longleftrightarrow> a + c \<le> b"
  by (auto simp: saturating_add_def)

subsection \<open>Results\<close>

text \<open>
  A fallible call on a state returns its result and the state it left: \<open>Inl\<close> the error,
  \<open>Inr\<close> the value. \<open>andThen\<close> is Rust's \<open>?\<close>: an error returns at once, with the state as the
  failing call left it.
\<close>

type_synonym ('e, 'a, 's) outcome = "('e + 'a) \<times> 's"

definition andThen ::
  "('e, 'a, 's) outcome \<Rightarrow> ('a \<Rightarrow> 's \<Rightarrow> ('e, 'b, 's) outcome) \<Rightarrow> ('e, 'b, 's) outcome" where
  "andThen r k = (case r of (Inl e, s) \<Rightarrow> (Inl e, s) | (Inr a, s) \<Rightarrow> k a s)"

lemma andThen_simps [simp]:
  "andThen (Inl e, s) k = (Inl e, s)"
  "andThen (Inr a, s) k = k a s"
  by (simp_all add: andThen_def)

lemma andThen_Inr_iff:
  "andThen r k = (Inr b, s') \<longleftrightarrow> (\<exists>a s. r = (Inr a, s) \<and> k a s = (Inr b, s'))"
  by (cases r; cases "fst r") (auto simp: andThen_def)

lemma andThen_Inl_iff:
  "andThen r k = (Inl e, s') \<longleftrightarrow>
     r = (Inl e, s') \<or> (\<exists>a s. r = (Inr a, s) \<and> k a s = (Inl e, s'))"
  by (cases r; cases "fst r") (auto simp: andThen_def)

lemma andThen_InrE:
  assumes "andThen r k = (Inr b, s')"
  obtains a s where "r = (Inr a, s)" and "k a s = (Inr b, s')"
  using assms by (auto simp: andThen_Inr_iff)

text \<open>The state after a call, whatever its result: every call keeps \<open>P\<close> if each part does.\<close>

lemma andThen_state:
  assumes "P (snd r)" and "\<And>a s. r = (Inr a, s) \<Longrightarrow> P s \<Longrightarrow> P (snd (k a s))"
  shows "P (snd (andThen r k))"
  using assms by (cases r; cases "fst r") (auto simp: andThen_def)

subsection \<open>Lists\<close>

text \<open>\<open>slice::chunks\<close>: consecutive runs of \<open>n\<close>, the last one shorter; \<open>n\<close> is never 0.\<close>

function chunks :: "nat \<Rightarrow> 'a list \<Rightarrow> 'a list list" where
  "chunks n xs = (if xs = [] \<or> n = 0 then [] else take n xs # chunks n (drop n xs))"
  by pat_completeness auto
termination
  by (relation "measure (\<lambda>(n, xs). length xs)") auto

declare chunks.simps [simp del]

lemma chunks_Nil [simp]: "chunks n [] = []"
  by (simp add: chunks.simps)

lemma concat_chunks [simp]: "0 < n \<Longrightarrow> concat (chunks n xs) = xs"
proof (induction n xs rule: chunks.induct)
  case (1 n xs)
  then show ?case by (subst chunks.simps) auto
qed

lemma chunks_sizes: "c \<in> set (chunks n xs) \<Longrightarrow> c \<noteq> [] \<and> length c \<le> n"
proof (induction n xs rule: chunks.induct)
  case (1 n xs)
  show ?case
  proof (cases "xs = [] \<or> n = 0")
    case True
    with "1.prems" show ?thesis by (simp add: chunks.simps [of n xs])
  next
    case False
    with "1.prems" have "c = take n xs \<or> c \<in> set (chunks n (drop n xs))"
      by (simp add: chunks.simps [of n xs])
    then show ?thesis
    proof
      assume "c = take n xs"
      with False show ?thesis by simp
    next
      assume "c \<in> set (chunks n (drop n xs))"
      with False show ?thesis by (intro "1.IH") auto
    qed
  qed
qed

lemma set_chunks: "0 < n \<Longrightarrow> (\<Union>c\<in>set (chunks n xs). set c) = set xs"
  by (metis concat_chunks set_concat)

text \<open>Running totals, as a window function \<open>SUM(..) OVER (ROWS UNBOUNDED PRECEDING)\<close> gives them.\<close>

primrec running :: "int \<Rightarrow> ('a \<Rightarrow> int) \<Rightarrow> 'a list \<Rightarrow> ('a \<times> int) list" where
  "running acc f [] = []"
| "running acc f (x # xs) = (x, acc + f x) # running (acc + f x) f xs"

lemma map_fst_running [simp]: "map fst (running acc f xs) = xs"
  by (induction xs arbitrary: acc) auto

lemma running_ge: "\<forall>x\<in>set xs. 0 \<le> f x \<Longrightarrow> (y, u) \<in> set (running acc f xs) \<Longrightarrow> acc \<le> u"
  by (induction xs arbitrary: acc) force+

text \<open>The rows whose running total fits a budget are a leading run, and they fit it together.\<close>

definition within_budget :: "int \<Rightarrow> ('a \<Rightarrow> int) \<Rightarrow> 'a list \<Rightarrow> 'a list" where
  "within_budget b f xs = map fst (filter (\<lambda>(x, u). u \<le> b) (running 0 f xs))"

lemma filter_running_none:
  "\<forall>x\<in>set xs. 0 \<le> f x \<Longrightarrow> b < acc \<Longrightarrow> filter (\<lambda>(x, u). u \<le> b) (running acc f xs) = []"
  by (auto simp: filter_empty_conv dest!: running_ge)

lemma running_budget:
  assumes "\<forall>x\<in>set xs. 0 \<le> f x" and "acc \<le> b"
  shows "\<exists>k. map fst (filter (\<lambda>(x, u). u \<le> b) (running acc f xs)) = take k xs \<and>
             acc + sum_list (map f (take k xs)) \<le> b \<and>
             (k < length xs \<longrightarrow> b < acc + sum_list (map f (take (Suc k) xs)))"
  using assms
proof (induction xs arbitrary: acc)
  case Nil
  then show ?case by simp
next
  case (Cons x xs)
  show ?case
  proof (cases "acc + f x \<le> b")
    case True
    obtain k where k: "map fst (filter (\<lambda>(x, u). u \<le> b) (running (acc + f x) f xs)) = take k xs"
      "acc + f x + sum_list (map f (take k xs)) \<le> b"
      "k < length xs \<longrightarrow> b < acc + f x + sum_list (map f (take (Suc k) xs))"
      using Cons.IH [of "acc + f x"] Cons.prems True by auto
    with True show ?thesis by (intro exI [of _ "Suc k"]) (auto simp: add.assoc)
  next
    case False
    with Cons.prems have "filter (\<lambda>(x, u). u \<le> b) (running (acc + f x) f xs) = []"
      by (intro filter_running_none) auto
    with False Cons.prems show ?thesis by (intro exI [of _ 0]) auto
  qed
qed

lemma within_budget_prefix:
  assumes "\<forall>x\<in>set xs. 0 \<le> f x" and "0 \<le> b"
  shows "\<exists>k. within_budget b f xs = take k xs \<and> sum_list (map f (take k xs)) \<le> b \<and>
             (k < length xs \<longrightarrow> b < sum_list (map f (take (Suc k) xs)))"
  using running_budget [OF assms] by (simp add: within_budget_def)

lemma set_within_budget: "set (within_budget b f xs) \<subseteq> set xs"
proof -
  have "set (map fst (filter (\<lambda>(x, u). u \<le> b) (running 0 f xs))) \<subseteq> set (map fst (running 0 f xs))"
    by (simp only: set_map) auto
  then show ?thesis by (simp add: within_budget_def)
qed

text \<open>SQL's \<open>LIMIT n\<close>: a negative bound is none.\<close>

definition sql_limit :: "int \<Rightarrow> 'a list \<Rightarrow> 'a list" where
  "sql_limit n xs = (if n < 0 then xs else take (nat n) xs)"

lemma sql_limit_int [simp]: "sql_limit (int n) xs = take n xs"
  by (simp add: sql_limit_def)

lemma set_sql_limit: "set (sql_limit n xs) \<subseteq> set xs"
  by (auto simp: sql_limit_def dest: in_set_takeD)

text \<open>Updating the rows that match a predicate, as \<open>UPDATE .. WHERE\<close> does.\<close>

definition update_where :: "('a \<Rightarrow> bool) \<Rightarrow> ('a \<Rightarrow> 'a) \<Rightarrow> 'a list \<Rightarrow> 'a list" where
  "update_where p f xs = map (\<lambda>x. if p x then f x else x) xs"

lemma update_where_simps [simp]:
  "update_where p f [] = []"
  "update_where p f (x # xs) = (if p x then f x else x) # update_where p f xs"
  "length (update_where p f xs) = length xs"
  by (simp_all add: update_where_def)

lemma set_update_where:
  "set (update_where p f xs) = f ` {x \<in> set xs. p x} \<union> {x \<in> set xs. \<not> p x}"
  by (auto simp: update_where_def)

lemma map_update_where:
  "(\<And>x. g (f x) = g x) \<Longrightarrow> map g (update_where p f xs) = map g xs"
  by (simp add: update_where_def)

lemma update_where_none: "(\<And>x. x \<in> set xs \<Longrightarrow> \<not> p x) \<Longrightarrow> update_where p f xs = xs"
  by (induction xs) auto

lemma sum_list_int_nonneg: "\<forall>x\<in>set xs. 0 \<le> (f x :: int) \<Longrightarrow> 0 \<le> sum_list (map f xs)"
  by (induction xs) auto

lemma find_Some_in: "find p xs = Some x \<Longrightarrow> x \<in> set xs \<and> p x"
  by (induction xs) (auto split: if_splits)

lemma find_None: "find p xs = None \<longleftrightarrow> (\<forall>x\<in>set xs. \<not> p x)"
  by (induction xs) auto

text \<open>With distinct keys, the row found under a key is the row under that key.\<close>

lemma distinct_key_unique:
  "distinct (map f xs) \<Longrightarrow> x \<in> set xs \<Longrightarrow> y \<in> set xs \<Longrightarrow> f x = f y \<Longrightarrow> x = y"
  by (induction xs) (auto simp: image_iff)

lemma find_key:
  assumes "distinct (map f xs)" and "x \<in> set xs" and "f x = k"
  shows "find (\<lambda>y. f y = k) xs = Some x"
proof (cases "find (\<lambda>y. f y = k) xs")
  case None
  with assms show ?thesis by (auto simp: find_None)
next
  case (Some y)
  then have "y \<in> set xs" and "f y = k" by (auto dest: find_Some_in)
  with assms Some show ?thesis using distinct_key_unique [of f xs x y] by simp
qed

subsection \<open>Decimal text\<close>

definition digit :: "nat \<Rightarrow> char" where
  "digit n = char_of (48 + n mod 10)"

definition is_digit :: "char \<Rightarrow> bool" where
  "is_digit c \<longleftrightarrow> 48 \<le> (of_char c :: nat) \<and> (of_char c :: nat) \<le> 57"

definition digit_val :: "char \<Rightarrow> nat" where
  "digit_val c = of_char c - 48"

text \<open>Rust's \<open>u64::to_string\<close>: no leading zeros, \<open>0\<close> for zero.\<close>

fun nat_text :: "nat \<Rightarrow> string" where
  "nat_text n = (if n < 10 then [digit n] else nat_text (n div 10) @ [digit n])"

declare nat_text.simps [simp del]

definition int_text :: "int \<Rightarrow> string" where
  "int_text i = (if i < 0 then CHR ''-'' # nat_text (nat (- i)) else nat_text (nat i))"

definition digits_val :: "string \<Rightarrow> nat" where
  "digits_val s = foldl (\<lambda>n c. n * 10 + digit_val c) 0 s"

text \<open>
  Rust's \<open>str::parse\<close> for an unsigned integer: an optional \<open>+\<close>, at least one decimal digit,
  nothing else, and the value inside the type.
\<close>

definition parse_unsigned :: "nat \<Rightarrow> string \<Rightarrow> nat option" where
  "parse_unsigned bound s =
     (let t = (case s of c # r \<Rightarrow> if c = CHR ''+'' then r else s | [] \<Rightarrow> s)
      in if t \<noteq> [] \<and> list_all is_digit t \<and> digits_val t < bound then Some (digits_val t) else None)"

definition parse_u64 :: "string \<Rightarrow> u64 option" where
  "parse_u64 = parse_unsigned (2 ^ 64)"

definition parse_u32 :: "string \<Rightarrow> nat option" where
  "parse_u32 = parse_unsigned (2 ^ 32)"

definition parse_i64 :: "string \<Rightarrow> i64 option" where
  "parse_i64 s =
     (case s of
        c # r \<Rightarrow>
          if c = CHR ''-'' then
            (if r \<noteq> [] \<and> list_all is_digit r \<and> digits_val r \<le> 2 ^ 63
             then Some (- int (digits_val r)) else None)
          else map_option int (parse_unsigned (2 ^ 63) s)
      | [] \<Rightarrow> None)"

lemma of_char_digit [simp]: "(of_char (digit n) :: nat) = 48 + n mod 10"
  by (simp add: digit_def of_char_of)

lemma is_digit_digit [simp]: "is_digit (digit n)"
  by (simp add: is_digit_def)

lemma digit_val_digit [simp]: "digit_val (digit n) = n mod 10"
  by (simp add: digit_val_def)

lemma nat_text_nonempty [simp]: "nat_text n \<noteq> []"
  by (subst nat_text.simps) simp

lemma nat_text_digits: "list_all is_digit (nat_text n)"
proof (induction n rule: nat_text.induct)
  case (1 n)
  then show ?case by (subst nat_text.simps) auto
qed

lemma digits_val_snoc [simp]: "digits_val (s @ [c]) = digits_val s * 10 + digit_val c"
  by (simp add: digits_val_def)

lemma digits_val_nat_text [simp]: "digits_val (nat_text n) = n"
proof (induction n rule: nat_text.induct)
  case (1 n)
  show ?case
  proof (cases "n < 10")
    case True
    then show ?thesis by (subst nat_text.simps) (simp add: digits_val_def)
  next
    case False
    with "1.IH" have "digits_val (nat_text (n div 10)) = n div 10" by simp
    with False show ?thesis by (subst nat_text.simps) simp
  qed
qed

lemma hd_nat_text_digit: "is_digit (hd (nat_text n))"
  using nat_text_digits [of n] by (cases "nat_text n") auto

lemma plus_not_digit [simp]: "\<not> is_digit (CHR ''+'')"
  by (simp add: is_digit_def)

lemma parse_unsigned_nat_text: "n < bound \<Longrightarrow> parse_unsigned bound (nat_text n) = Some n"
proof -
  assume n: "n < bound"
  obtain c r where cr: "nat_text n = c # r"
    using nat_text_nonempty by (cases "nat_text n") auto
  then have "c \<noteq> CHR ''+''" using hd_nat_text_digit [of n] by auto
  then have "(case nat_text n of c # r \<Rightarrow> if c = CHR ''+'' then r else nat_text n | [] \<Rightarrow> nat_text n)
             = nat_text n" by (simp add: cr)
  with n nat_text_digits [of n] show ?thesis
    by (simp add: parse_unsigned_def Let_def)
qed

lemma parse_u64_nat_text [simp]: "n < 2 ^ 64 \<Longrightarrow> parse_u64 (nat_text n) = Some n"
  by (simp add: parse_u64_def parse_unsigned_nat_text)

subsection \<open>Text\<close>

definition starts_with :: "string \<Rightarrow> string \<Rightarrow> bool" where
  "starts_with p s \<longleftrightarrow> take (length p) s = p"

lemma starts_with_append [simp]: "starts_with p (p @ s)"
  by (simp add: starts_with_def)

lemma starts_with_iff: "starts_with p s \<longleftrightarrow> (\<exists>t. s = p @ t)"
proof
  assume "starts_with p s"
  then have "s = p @ drop (length p) s"
    by (metis append_take_drop_id starts_with_def)
  then show "\<exists>t. s = p @ t" ..
qed auto

text \<open>\<open>str::contains\<close>.\<close>

fun contains :: "string \<Rightarrow> string \<Rightarrow> bool" where
  "contains p [] = (p = [])"
| "contains p (c # s) = (starts_with p (c # s) \<or> contains p s)"

text \<open>\<open>str::split\<close> on one character: always at least one piece.\<close>

fun split_on :: "char \<Rightarrow> string \<Rightarrow> string list" where
  "split_on d [] = [[]]"
| "split_on d (c # s) =
     (if c = d then [] # split_on d s
      else (case split_on d s of p # ps \<Rightarrow> (c # p) # ps | [] \<Rightarrow> [[c]]))"

lemma split_on_nonempty [simp]: "split_on d s \<noteq> []"
  by (induction s) (auto split: list.splits)

text \<open>\<open>str::to_ascii_lowercase\<close> and \<open>to_ascii_uppercase\<close>.\<close>

definition ascii_lower_char :: "char \<Rightarrow> char" where
  "ascii_lower_char c =
     (let n = (of_char c :: nat) in if 65 \<le> n \<and> n \<le> 90 then char_of (n + 32) else c)"

definition ascii_upper_char :: "char \<Rightarrow> char" where
  "ascii_upper_char c =
     (let n = (of_char c :: nat) in if 97 \<le> n \<and> n \<le> 122 then char_of (n - 32) else c)"

definition to_ascii_lowercase :: "string \<Rightarrow> string" where
  "to_ascii_lowercase = map ascii_lower_char"

definition to_ascii_uppercase :: "string \<Rightarrow> string" where
  "to_ascii_uppercase = map ascii_upper_char"

text \<open>
  \<open>str::trim\<close> drops Unicode white space at both ends; these are its code points as UTF-8.
\<close>

definition white_space :: "string list" where
  "white_space =
     map (\<lambda>n. [char_of n]) [9, 10, 11, 12, 13, 32 :: nat] @
     map (map char_of) [[194, 133], [194, 160 :: nat], [225, 154, 128], [226, 128, 168],
       [226, 128, 169], [226, 128, 175], [226, 129, 159], [227, 128, 128]] @
     map (\<lambda>n. [char_of (226 :: nat), char_of (128 :: nat), char_of n]) [128 ..< 139 :: nat]"

function strip_leading :: "string list \<Rightarrow> string \<Rightarrow> string" where
  "strip_leading ws s =
     (case find (\<lambda>w. w \<noteq> [] \<and> starts_with w s) ws of
        Some w \<Rightarrow> strip_leading ws (drop (length w) s)
      | None \<Rightarrow> s)"
  by pat_completeness auto
termination
proof (relation "measure (\<lambda>(ws, s). length s)")
  fix ws :: "string list" and s w :: string
  assume "find (\<lambda>w. w \<noteq> [] \<and> starts_with w s) ws = Some w"
  then have "w \<noteq> []" and "starts_with w s" by (auto dest: find_Some_in)
  then show "((ws, drop (length w) s), (ws, s)) \<in> measure (\<lambda>(ws, s). length s)"
    by (cases s) (auto simp: starts_with_def)
qed simp

declare strip_leading.simps [simp del]

definition trim :: "string \<Rightarrow> string" where
  "trim s = rev (strip_leading (map rev white_space) (rev (strip_leading white_space s)))"

text \<open>\<open>[T]::join\<close>.\<close>

fun join :: "'a list \<Rightarrow> 'a list list \<Rightarrow> 'a list" where
  "join sep [] = []"
| "join sep [x] = x"
| "join sep (x # y # ys) = x @ sep @ join sep (y # ys)"

text \<open>
  The first character of a UTF-8 text, as its bytes, and what follows it: the length of a
  character is in its leading byte.
\<close>

definition utf8_len :: "char \<Rightarrow> nat" where
  "utf8_len c =
     (let n = (of_char c :: nat)
      in if n < 192 then 1 else if n < 224 then 2 else if n < 240 then 3 else 4)"

definition first_char :: "string \<Rightarrow> (string \<times> string) option" where
  "first_char s = (case s of [] \<Rightarrow> None | c # r \<Rightarrow> Some (take (utf8_len c) s, drop (utf8_len c) s))"

lemma first_char_ascii: "(of_char c :: nat) < 192 \<Longrightarrow> first_char (c # r) = Some ([c], r)"
  by (simp add: first_char_def utf8_len_def)

subsection \<open>JSON values\<close>

text \<open>
  The values of \<open>serde_json::Value\<close>, its public enumeration: an integer number by its value,
  any other number by its text. Reading and writing JSON text is the library's: a component
  that does so takes the reader or the writer as a parameter. An object is the list of its
  members; \<open>get\<close> finds a member by its key.
\<close>

datatype json =
    JNull
  | JBool bool
  | JInt int
  | JFloat string
  | JStr string
  | JArr "json list"
  | JObj "(string \<times> json) list"

type_synonym answer = "json \<times> http_status"

fun get_member :: "string \<Rightarrow> json \<Rightarrow> json option" where
  "get_member k (JObj ms) = map_of ms k"
| "get_member k _ = None"

fun as_str :: "json \<Rightarrow> string option" where
  "as_str (JStr s) = Some s"
| "as_str _ = None"

fun as_array :: "json \<Rightarrow> json list option" where
  "as_array (JArr xs) = Some xs"
| "as_array _ = None"

fun is_object :: "json \<Rightarrow> bool" where
  "is_object (JObj _) = True"
| "is_object _ = False"

text \<open>The shape every refusal of the relay has: \<open>status\<close>, \<open>code\<close>, \<open>description\<close>.\<close>

definition error_json :: "string \<Rightarrow> string \<Rightarrow> json" where
  "error_json code description =
     JObj [(''status'', JStr ''error''), (''code'', JStr code), (''description'', JStr description)]"

definition error_answer :: "http_status \<Rightarrow> string \<Rightarrow> string \<Rightarrow> answer" where
  "error_answer status code description = (error_json code description, status)"

fun answer_code :: "answer \<Rightarrow> string option" where
  "answer_code (body, status) = Option.bind (get_member ''code'' body) as_str"

end
