(* ===== verification/Mailbox.thy ===== *)
theory Mailbox
  imports Relay_Prelude "HOL-Library.Option_ord" "HOL-Library.Sublist"
begin

section \<open>The recipient hub's mailbox\<close>

text \<open>
  The mailbox machine of \<open>src/src/mailbox/mod.rs\<close> over the layout of
  \<open>src/src/mailbox/schema.rs\<close>. A \<open>mailbox_db\<close> is one hub's SQLite storage: its tables as
  lists of rows, the names of the tables and indexes that exist, and a script of storage
  faults. Every SQL statement of the source is one definition on that record; \<open>run\<close> is
  \<open>MailboxSql::run\<close>, which fails when the storage does (the next entry of the script), when a
  table or index the statement names does not exist, or when the statement breaks a
  constraint. The operations E1 to E12 are the source's functions, statement by statement.

  The date text \<open>sqlite_time\<close> (chrono) and the length of an archive message's JSON text
  (serde\_json) are parameters.

  What is shown: the invariant of the rows holds after every operation, whether it succeeds
  or fails part way; the two counters are exact after every run of operations that succeeded,
  and the bound is never passed; each operation does what its event says.
\<close>

subsection \<open>Constants, values and rows\<close>

definition MAILBOX_ROWS_LIMIT :: u64 where
  "MAILBOX_ROWS_LIMIT = 10000"

definition MAILBOX_BYTES_LIMIT :: u64 where
  "MAILBOX_BYTES_LIMIT = 2 ^ 30"

definition REPLAY_AFTER_MS :: u64 where
  "REPLAY_AFTER_MS = 120000"

definition REPLAY_PER_REQUEST :: nat where
  "REPLAY_PER_REQUEST = 16"

definition LIST_LIMIT :: nat where
  "LIST_LIMIT = 100"

definition PERMISSIONS_COPY_TTL_MS :: u64 where
  "PERMISSIONS_COPY_TTL_MS = 600000"

definition ARCHIVE_INLINE_MAX :: nat where
  "ARCHIVE_INLINE_MAX = 120000"

datatype val = VNull | VInt i64 | VText string

fun val_int :: "val \<Rightarrow> i64" where
  "val_int (VInt i) = i"
| "val_int (VText s) = (case parse_i64 s of Some i \<Rightarrow> i | None \<Rightarrow> 0)"
| "val_int VNull = 0"

fun val_text :: "val \<Rightarrow> string option" where
  "val_text (VText s) = Some s"
| "val_text (VInt i) = Some (int_text i)"
| "val_text VNull = None"

definition text_or_empty :: "val \<Rightarrow> string" where
  "text_or_empty v = (case val_text v of Some s \<Rightarrow> s | None \<Rightarrow> [])"

definition opt_val :: "string option \<Rightarrow> val" where
  "opt_val b = (case b of Some s \<Rightarrow> VText s | None \<Rightarrow> VNull)"

lemma val_text_opt_val [simp]: "val_text (opt_val b) = b"
  by (cases b) (simp_all add: opt_val_def)

record bounds =
  bound_rows :: u64
  bound_bytes :: u64

definition RULED :: bounds where
  "RULED = \<lparr>bound_rows = MAILBOX_ROWS_LIMIT, bound_bytes = MAILBOX_BYTES_LIMIT\<rparr>"

text \<open>One row of \<open>mailbox_rows\<close>, its columns in the order the layout lists them.\<close>

record mailbox_row =
  r_seq :: nat
  r_message_id :: string
  r_message_box :: string
  r_sender :: string
  r_body :: "string option"
  r_body_bytes :: i64
  r_state :: string
  r_version :: i64
  r_archived_version :: i64
  r_owed :: i64
  r_enqueued_at :: "i64 option"
  r_collision :: i64
  r_created_at :: string
  r_updated_at :: string

record perm_copy =
  p_sender :: string
  p_message_box :: string
  p_recipient_fee :: i64
  p_server_fee :: i64
  p_copied_at :: i64

record mailbox_db =
  made :: "string list"
  mbrows :: "mailbox_row list"
  last_seq :: nat
  counters_row :: "(i64 \<times> i64) option"
  mailbox_meta :: "(string \<times> string) list"
  perms :: "perm_copy list"
  faults :: "string option list"

definition live :: string where
  "live = ''live''"

definition acknowledged :: string where
  "acknowledged = ''acknowledged''"

lemma live_neq_acknowledged [simp]: "live \<noteq> acknowledged" "acknowledged \<noteq> live"
  by (simp_all add: live_def acknowledged_def)

subsection \<open>Running one statement\<close>

type_synonym 'a mbx = "mailbox_db \<Rightarrow> (string, 'a, mailbox_db) outcome"

definition missing_object :: "string list \<Rightarrow> mailbox_db \<Rightarrow> string option" where
  "missing_object needs db = find (\<lambda>n. n \<notin> set (made db)) needs"

definition run :: "string list \<Rightarrow> (mailbox_db \<Rightarrow> string + 'a \<times> mailbox_db) \<Rightarrow> 'a mbx" where
  "run needs stmt db =
     (let db1 = db\<lparr>faults := tl (faults db)\<rparr>
      in case faults db of
           Some e # _ \<Rightarrow> (Inl e, db1)
         | _ \<Rightarrow>
             (case missing_object needs db1 of
                Some n \<Rightarrow> (Inl (''no such table or index: '' @ n), db1)
              | None \<Rightarrow> (case stmt db1 of Inl e \<Rightarrow> (Inl e, db1) | Inr (a, db2) \<Rightarrow> (Inr a, db2))))"

definition query :: "string list \<Rightarrow> (mailbox_db \<Rightarrow> val list list) \<Rightarrow> val list list mbx" where
  "query needs q = run needs (\<lambda>db. Inr (q db, db))"

definition exec :: "string list \<Rightarrow> (mailbox_db \<Rightarrow> string + mailbox_db) \<Rightarrow> unit mbx" where
  "exec needs w = run needs (\<lambda>db. case w db of Inl e \<Rightarrow> Inl e | Inr db' \<Rightarrow> Inr ((), db'))"

subsection \<open>The layout\<close>

definition ROWS :: string where "ROWS = ''mailbox_rows''"
definition LISTING_INDEX :: string where "LISTING_INDEX = ''mailbox_rows_listing''"
definition OWED_INDEX :: string where "OWED_INDEX = ''mailbox_rows_owed''"
definition COUNTERS :: string where "COUNTERS = ''mailbox_counters''"
definition META :: string where "META = ''mailbox_meta''"
definition PERMS :: string where "PERMS = ''permissions_copy''"

definition create :: "string \<Rightarrow> mailbox_db \<Rightarrow> string + mailbox_db" where
  "create n db = Inr (if n \<in> set (made db) then db else db\<lparr>made := made db @ [n]\<rparr>)"

definition CREATE_ROWS :: "unit mbx" where
  "CREATE_ROWS = exec [] (create ROWS)"

definition CREATE_LISTING_INDEX :: "unit mbx" where
  "CREATE_LISTING_INDEX = exec [ROWS] (create LISTING_INDEX)"

definition CREATE_OWED_INDEX :: "unit mbx" where
  "CREATE_OWED_INDEX = exec [ROWS] (create OWED_INDEX)"

definition CREATE_COUNTERS :: "unit mbx" where
  "CREATE_COUNTERS = exec [] (create COUNTERS)"

definition SEED_COUNTERS :: "unit mbx" where
  "SEED_COUNTERS = exec [COUNTERS] (\<lambda>db. Inr
     (case counters_row db of None \<Rightarrow> db\<lparr>counters_row := Some (0, 0)\<rparr> | Some _ \<Rightarrow> db))"

definition CREATE_META :: "unit mbx" where
  "CREATE_META = exec [] (create META)"

definition CREATE_PERMISSIONS :: "unit mbx" where
  "CREATE_PERMISSIONS = exec [] (create PERMS)"

definition SCHEMA :: "unit mbx list" where
  "SCHEMA = [CREATE_ROWS, CREATE_LISTING_INDEX, CREATE_OWED_INDEX, CREATE_COUNTERS,
             SEED_COUNTERS, CREATE_META, CREATE_PERMISSIONS]"

primrec run_all :: "unit mbx list \<Rightarrow> unit mbx" where
  "run_all [] db = (Inr (), db)"
| "run_all (s # ss) db = andThen (s db) (\<lambda>_. run_all ss)"

definition ensure_schema :: "unit mbx" where
  "ensure_schema = run_all SCHEMA"

subsection \<open>The identity and the counters\<close>

definition sel_identity :: "mailbox_db \<Rightarrow> val list list" where
  "sel_identity db = map (\<lambda>(_, v). [VText v]) (filter (\<lambda>(k, _). k = ''identity'') (mailbox_meta db))"

definition identity_of :: "string option mbx" where
  "identity_of db = andThen (query [META] sel_identity db) (\<lambda>rows db.
     (Inr (case rows of r # _ \<Rightarrow> val_text (r ! 0) | [] \<Rightarrow> None), db))"

definition bind_identity :: "string \<Rightarrow> unit mbx" where
  "bind_identity identity db =
     (if identity = [] then (Inl ''no identity'', db)
      else andThen
        (exec [META] (\<lambda>db. Inr
           (if ''identity'' \<in> fst ` set (mailbox_meta db) then db
            else db\<lparr>mailbox_meta := mailbox_meta db @ [(''identity'', identity)]\<rparr>)) db)
        (\<lambda>_ db. andThen (identity_of db) (\<lambda>found db.
           (case found of
              Some held \<Rightarrow>
                if held = identity then Inr ()
                else Inl (''hub serves '' @ held @ '', asked for '' @ identity)
            | None \<Rightarrow> Inl ''identity not recorded'', db))))"

definition sel_counters :: "mailbox_db \<Rightarrow> val list list" where
  "sel_counters db = (case counters_row db of Some (n, b) \<Rightarrow> [[VInt n, VInt b]] | None \<Rightarrow> [])"

definition counters :: "(u64 \<times> u64) mbx" where
  "counters db = andThen (query [COUNTERS] sel_counters db) (\<lambda>rows db.
     (case rows of
        r # _ \<Rightarrow> Inr (u64_of_i64_clamped (val_int (r ! 0)), u64_of_i64_clamped (val_int (r ! 1)))
      | [] \<Rightarrow> Inl ''no counters row'', db))"

definition move_counters :: "i64 \<Rightarrow> i64 \<Rightarrow> mailbox_db \<Rightarrow> string + mailbox_db" where
  "move_counters dn dbytes db =
     Inr (db\<lparr>counters_row := map_option (\<lambda>(n, b). (n + dn, b + dbytes)) (counters_row db)\<rparr>)"

subsection \<open>E1 to E4: the insert\<close>

record new_row =
  n_message_id :: string
  n_message_box :: string
  n_sender :: string
  n_body :: string

record full =
  f_resource :: string
  f_limit :: u64
  f_held :: u64

datatype inserted = Stored | Retried | Duplicate | Full full

definition sel_held :: "string \<Rightarrow> mailbox_db \<Rightarrow> val list list" where
  "sel_held mid db =
     map (\<lambda>r. [VText (r_sender r), VText (r_message_box r), opt_val (r_body r)])
       (filter (\<lambda>r. r_message_id r = mid) (mbrows db))"

definition ins_row :: "new_row \<Rightarrow> i64 \<Rightarrow> i64 \<Rightarrow> string \<Rightarrow> mailbox_db \<Rightarrow> string + mailbox_db" where
  "ins_row row sz now at db =
     (if n_message_id row \<in> r_message_id ` set (mbrows db)
      then Inl ''UNIQUE constraint failed: mailbox_rows.message_id''
      else Inr (db\<lparr>mbrows := mbrows db @
             [\<lparr>r_seq = Suc (last_seq db), r_message_id = n_message_id row,
               r_message_box = n_message_box row, r_sender = n_sender row,
               r_body = Some (n_body row), r_body_bytes = sz, r_state = live,
               r_version = 1, r_archived_version = 0, r_owed = 1, r_enqueued_at = Some now,
               r_collision = 0, r_created_at = at, r_updated_at = at\<rparr>],
           last_seq := Suc (last_seq db)\<rparr>))"

text \<open>The insert past the id's check: the counters against the bound, then the two writes.\<close>

definition insert_under_bound ::
  "(ms \<Rightarrow> string) \<Rightarrow> new_row \<Rightarrow> ms \<Rightarrow> bounds \<Rightarrow> u64 \<Rightarrow> u64 \<Rightarrow> inserted mbx" where
  "insert_under_bound sqlite_time row now_ms bnds rows_held bytes_held db =
     (let sz = length (n_body row)
      in if bound_rows bnds \<le> rows_held then
           (Inr (Full \<lparr>f_resource = ''messages'', f_limit = bound_rows bnds,
                       f_held = rows_held\<rparr>), db)
         else if bound_bytes bnds < saturating_add bytes_held sz then
           (Inr (Full \<lparr>f_resource = ''bytes'', f_limit = bound_bytes bnds,
                       f_held = bytes_held\<rparr>), db)
         else
           (let at = sqlite_time now_ms
            in andThen (exec [ROWS] (ins_row row (i64_of_u64 sz) (i64_of_u64 now_ms) at) db)
                 (\<lambda>_ db. andThen (exec [COUNTERS] (move_counters 1 (i64_of_u64 sz)) db)
                 (\<lambda>_ db. (Inr Stored, db)))))"

definition insert_mbx :: "(ms \<Rightarrow> string) \<Rightarrow> new_row \<Rightarrow> bool \<Rightarrow> ms \<Rightarrow> bounds \<Rightarrow> inserted mbx" where
  "insert_mbx sqlite_time row retry now_ms bnds db =
     andThen (query [ROWS] (sel_held (n_message_id row)) db) (\<lambda>held db.
     case held of
       h # _ \<Rightarrow>
         (let ours = (val_text (h ! 0) = Some (n_sender row) \<and>
                      val_text (h ! 1) = Some (n_message_box row) \<and>
                      val_text (h ! 2) = Some (n_body row))
          in (Inr (if retry \<and> ours then Retried else Duplicate), db))
     | [] \<Rightarrow>
         andThen (counters db) (\<lambda>(rows_held, bytes_held) db.
           insert_under_bound sqlite_time row now_ms bnds rows_held bytes_held db))"

definition full_answer :: "full \<Rightarrow> string \<Rightarrow> answer" where
  "full_answer f recipient =
     (JObj [(''status'', JStr ''error''),
            (''code'', JStr ''ERR_INBOX_QUOTA_EXCEEDED''),
            (''description'', JStr
               ''The recipient inbox storage quota has been reached. Retry after messages are acknowledged or expire.''),
            (''resource'', JStr (f_resource f)),
            (''limit'', JInt (int (f_limit f))),
            (''held'', JInt (int (f_held f))),
            (''recipient'', JStr recipient),
            (''freedBy'', JStr ''acknowledgeMessage'')], 429)"

subsection \<open>E8: the listing\<close>

text \<open>\<open>storage::MessageDbRow\<close>: a listed row, every column nullable.\<close>

record message_db_row =
  m_message_id :: "string option"
  m_body :: "string option"
  m_sender :: "string option"
  m_created_at :: "string option"
  m_updated_at :: "string option"

definition box_rows :: "string \<Rightarrow> mailbox_db \<Rightarrow> mailbox_row list" where
  "box_rows mbox db =
     sort_key r_seq (filter (\<lambda>r. r_message_box r = mbox \<and> r_state r = live) (mbrows db))"

definition MAILBOX_LIST_SQL :: "string \<Rightarrow> i64 \<Rightarrow> i64 \<Rightarrow> mailbox_db \<Rightarrow> val list list" where
  "MAILBOX_LIST_SQL mbox limit budget db =
     map (\<lambda>r. [VText (r_message_id r), opt_val (r_body r), VText (r_sender r),
               VText (r_created_at r), VText (r_updated_at r)])
       (within_budget budget r_body_bytes (sql_limit limit (box_rows mbox db)))"

definition message_db_row_of :: "val list \<Rightarrow> message_db_row" where
  "message_db_row_of r =
     \<lparr>m_message_id = val_text (r ! 0), m_body = val_text (r ! 1), m_sender = val_text (r ! 2),
      m_created_at = val_text (r ! 3), m_updated_at = val_text (r ! 4)\<rparr>"

definition list_mbx :: "string \<Rightarrow> nat \<Rightarrow> u64 \<Rightarrow> message_db_row list mbx" where
  "list_mbx mbox limit inline_bytes db =
     andThen (query [ROWS, LISTING_INDEX]
        (MAILBOX_LIST_SQL mbox (i64_of_u64 limit) (i64_of_u64 inline_bytes)) db)
       (\<lambda>rows db. (Inr (map message_db_row_of rows), db))"

definition sel_ids_in :: "string list \<Rightarrow> mailbox_db \<Rightarrow> val list list" where
  "sel_ids_in ids db =
     map (\<lambda>r. [VText (r_message_id r)]) (filter (\<lambda>r. r_message_id r \<in> set ids) (mbrows db))"

primrec held_loop :: "string list list \<Rightarrow> string set \<Rightarrow> string set mbx" where
  "held_loop [] held db = (Inr held, db)"
| "held_loop (c # cs) held db =
     (if c = [] then held_loop cs held db
      else andThen (query [ROWS] (sel_ids_in c) db) (\<lambda>rows db.
        held_loop cs (held \<union> set (List.map_filter (\<lambda>r. val_text (r ! 0)) rows)) db))"

definition held_ids :: "string list \<Rightarrow> string set mbx" where
  "held_ids ids = held_loop (chunks 90 ids) {}"

subsection \<open>E9: the acknowledgment\<close>

record acked =
  a_acknowledged :: "string list"
  a_missing :: "string list"

definition sel_state_bytes :: "string \<Rightarrow> mailbox_db \<Rightarrow> val list list" where
  "sel_state_bytes mid db =
     map (\<lambda>r. [VText (r_state r), VInt (r_body_bytes r)])
       (filter (\<lambda>r. r_message_id r = mid) (mbrows db))"

definition ack_row :: "i64 \<Rightarrow> string \<Rightarrow> mailbox_row \<Rightarrow> mailbox_row" where
  "ack_row now at r =
     r\<lparr>r_state := acknowledged, r_version := r_version r + 1, r_owed := 1,
       r_enqueued_at := Some now, r_updated_at := at,
       r_body := (if 0 < r_archived_version r then None else r_body r)\<rparr>"

definition upd_ack :: "string \<Rightarrow> i64 \<Rightarrow> string \<Rightarrow> mailbox_db \<Rightarrow> string + mailbox_db" where
  "upd_ack mid now at db =
     Inr (db\<lparr>mbrows := update_where (\<lambda>r. r_message_id r = mid) (ack_row now at) (mbrows db)\<rparr>)"

fun ack_loop ::
  "string list \<Rightarrow> bool \<Rightarrow> i64 \<Rightarrow> string \<Rightarrow> string set \<Rightarrow> acked \<Rightarrow> acked mbx" where
  "ack_loop [] retry now at seen out db = (Inr out, db)"
| "ack_loop (i # ids) retry now at seen out db =
     (if i \<in> seen then ack_loop ids retry now at seen out db
      else andThen (query [ROWS] (sel_state_bytes i) db) (\<lambda>rows db.
        case map (\<lambda>r. (val_text (r ! 0), val_int (r ! 1))) rows of
          (Some st, bytes) # _ \<Rightarrow>
            if st = live then
              andThen (exec [ROWS] (upd_ack i now at) db) (\<lambda>_ db.
              andThen (exec [COUNTERS] (move_counters (- 1) (- bytes)) db) (\<lambda>_ db.
                ack_loop ids retry now at (insert i seen)
                  (out\<lparr>a_acknowledged := a_acknowledged out @ [i]\<rparr>) db))
            else if retry then
              ack_loop ids retry now at (insert i seen)
                (out\<lparr>a_acknowledged := a_acknowledged out @ [i]\<rparr>) db
            else
              ack_loop ids retry now at (insert i seen)
                (out\<lparr>a_missing := a_missing out @ [i]\<rparr>) db
        | _ \<Rightarrow>
            ack_loop ids retry now at (insert i seen)
              (out\<lparr>a_missing := a_missing out @ [i]\<rparr>) db))"

definition acknowledge :: "(ms \<Rightarrow> string) \<Rightarrow> string list \<Rightarrow> bool \<Rightarrow> ms \<Rightarrow> acked mbx" where
  "acknowledge sqlite_time ids retry now_ms =
     ack_loop ids retry (i64_of_u64 now_ms) (sqlite_time now_ms) {}
       \<lparr>a_acknowledged = [], a_missing = []\<rparr>"

subsection \<open>The rows the archive reads, and E12: the replay\<close>

record archive_row_rec =
  ar_message_id :: string
  ar_message_box :: string
  ar_sender :: string
  ar_body :: "string option"
  ar_state :: string
  ar_version :: u64
  ar_created_at :: string

definition archive_row_columns :: "mailbox_row \<Rightarrow> val list" where
  "archive_row_columns r =
     [VText (r_message_id r), VText (r_message_box r), VText (r_sender r), opt_val (r_body r),
      VText (r_state r), VInt (r_version r), VText (r_created_at r)]"

definition archive_row :: "val list \<Rightarrow> archive_row_rec" where
  "archive_row r =
     \<lparr>ar_message_id = text_or_empty (r ! 0), ar_message_box = text_or_empty (r ! 1),
      ar_sender = text_or_empty (r ! 2), ar_body = val_text (r ! 3),
      ar_state = text_or_empty (r ! 4), ar_version = u64_of_i64_clamped (val_int (r ! 5)),
      ar_created_at = text_or_empty (r ! 6)\<rparr>"

definition sel_archive_in :: "string list \<Rightarrow> mailbox_db \<Rightarrow> val list list" where
  "sel_archive_in ids db =
     map archive_row_columns
       (sort_key r_seq (filter (\<lambda>r. r_message_id r \<in> set ids) (mbrows db)))"

primrec archive_rows_loop ::
  "string list list \<Rightarrow> archive_row_rec list \<Rightarrow> archive_row_rec list mbx" where
  "archive_rows_loop [] out db = (Inr out, db)"
| "archive_rows_loop (c # cs) out db =
     (if c = [] then archive_rows_loop cs out db
      else andThen (query [ROWS] (sel_archive_in c) db) (\<lambda>rows db.
        archive_rows_loop cs (out @ map archive_row rows) db))"

definition archive_rows :: "string list \<Rightarrow> archive_row_rec list mbx" where
  "archive_rows ids = archive_rows_loop (chunks 90 ids) []"

definition owed_due :: "i64 \<Rightarrow> mailbox_row \<Rightarrow> bool" where
  "owed_due cutoff r \<longleftrightarrow> r_owed r = 1 \<and> (case r_enqueued_at r of None \<Rightarrow> True | Some t \<Rightarrow> t \<le> cutoff)"

definition sel_owed_due :: "i64 \<Rightarrow> i64 \<Rightarrow> mailbox_db \<Rightarrow> val list list" where
  "sel_owed_due cutoff limit db =
     map archive_row_columns
       (sql_limit limit (sort_key r_enqueued_at (filter (owed_due cutoff) (mbrows db))))"

definition upd_enqueued :: "string \<Rightarrow> i64 \<Rightarrow> mailbox_db \<Rightarrow> string + mailbox_db" where
  "upd_enqueued mid now db =
     Inr (db\<lparr>mbrows := update_where (\<lambda>r. r_message_id r = mid)
                         (\<lambda>r. r\<lparr>r_enqueued_at := Some now\<rparr>) (mbrows db)\<rparr>)"

primrec renew_loop :: "string list \<Rightarrow> i64 \<Rightarrow> unit mbx" where
  "renew_loop [] now db = (Inr (), db)"
| "renew_loop (i # ids) now db =
     andThen (exec [ROWS] (upd_enqueued i now) db) (\<lambda>_. renew_loop ids now)"

definition take_owed_due :: "ms \<Rightarrow> archive_row_rec list mbx" where
  "take_owed_due now_ms db =
     (let cutoff = saturating_sub now_ms REPLAY_AFTER_MS
      in andThen (query [ROWS, OWED_INDEX]
            (sel_owed_due (i64_of_u64 cutoff) (i64_of_u64 REPLAY_PER_REQUEST)) db)
           (\<lambda>vals db.
              let rows = map archive_row vals
              in andThen (renew_loop (map ar_message_id rows) (i64_of_u64 now_ms) db)
                   (\<lambda>_ db. (Inr rows, db))))"

subsection \<open>The archive message of a row\<close>

text \<open>\<open>archive::Change\<close> and \<open>archive::ArchiveMessage\<close> (\<open>src/src/archive.rs\<close>).\<close>

datatype change = Insert | Acknowledge

record archive_message_rec =
  am_recipient :: string
  am_message_id :: string
  am_version :: u64
  am_change :: change
  am_message_box :: string
  am_sender :: string
  am_body :: "string option"
  am_created_at :: "string option"
  am_body_in_hub :: bool

definition archive_message ::
  "(archive_message_rec \<Rightarrow> nat option) \<Rightarrow> archive_row_rec \<Rightarrow> string \<Rightarrow> archive_message_rec" where
  "archive_message json_len row recipient =
     (let m = \<lparr>am_recipient = recipient, am_message_id = ar_message_id row,
               am_version = ar_version row,
               am_change = (if ar_state row = live then Insert else Acknowledge),
               am_message_box = ar_message_box row, am_sender = ar_sender row,
               am_body = ar_body row, am_created_at = Some (ar_created_at row),
               am_body_in_hub = False\<rparr>;
          len = (case json_len m of Some n \<Rightarrow> n | None \<Rightarrow> 0)
      in if ARCHIVE_INLINE_MAX < len \<and> am_body m \<noteq> None
         then m\<lparr>am_body := None, am_body_in_hub := True\<rparr> else m)"

subsection \<open>E11: the archive's confirmation\<close>

record done_rec =
  d_message_id :: string
  d_version :: u64
  d_collision :: bool

definition sel_state_version :: "string \<Rightarrow> mailbox_db \<Rightarrow> val list list" where
  "sel_state_version mid db =
     map (\<lambda>r. [VText (r_state r), VInt (r_version r)])
       (filter (\<lambda>r. r_message_id r = mid) (mbrows db))"

definition del_row :: "string \<Rightarrow> mailbox_db \<Rightarrow> string + mailbox_db" where
  "del_row mid db = Inr (db\<lparr>mbrows := filter (\<lambda>r. r_message_id r \<noteq> mid) (mbrows db)\<rparr>)"

definition upd_row :: "(mailbox_row \<Rightarrow> mailbox_row) \<Rightarrow> string \<Rightarrow> mailbox_db \<Rightarrow> string + mailbox_db" where
  "upd_row f mid db = Inr (db\<lparr>mbrows := update_where (\<lambda>r. r_message_id r = mid) f (mbrows db)\<rparr>)"

definition mark_collision :: "mailbox_row \<Rightarrow> mailbox_row" where
  "mark_collision r = r\<lparr>r_owed := 0, r_collision := 1\<rparr>"

definition mark_archived :: "i64 \<Rightarrow> mailbox_row \<Rightarrow> mailbox_row" where
  "mark_archived v r = r\<lparr>r_archived_version := v, r_owed := 0\<rparr>"

definition mark_older :: "i64 \<Rightarrow> mailbox_row \<Rightarrow> mailbox_row" where
  "mark_older v r =
     r\<lparr>r_archived_version := max (r_archived_version r) v,
       r_body := (if r_state r = acknowledged then None else r_body r)\<rparr>"

primrec done_loop :: "done_rec list \<Rightarrow> nat \<Rightarrow> nat mbx" where
  "done_loop [] changed db = (Inr changed, db)"
| "done_loop (d # ds) changed db =
     andThen (query [ROWS] (sel_state_version (d_message_id d)) db) (\<lambda>rows db.
       case rows of
         [] \<Rightarrow> done_loop ds changed db
       | r # _ \<Rightarrow>
           (let st = text_or_empty (r ! 0);
                version = u64_of_i64_clamped (val_int (r ! 1));
                mid = d_message_id d
            in andThen
                 (if st = acknowledged \<and> (d_collision d \<or> version \<le> d_version d)
                  then exec [ROWS] (del_row mid) db
                  else if d_collision d then exec [ROWS] (upd_row mark_collision mid) db
                  else if version \<le> d_version d
                  then exec [ROWS] (upd_row (mark_archived (i64_of_u64 (d_version d))) mid) db
                  else exec [ROWS] (upd_row (mark_older (i64_of_u64 (d_version d))) mid) db)
                 (\<lambda>_. done_loop ds (changed + 1))))"

definition archive_done :: "done_rec list \<Rightarrow> nat mbx" where
  "archive_done ds = done_loop ds 0"

subsection \<open>The permissions copy\<close>

definition sel_perms :: "string \<Rightarrow> string \<Rightarrow> mailbox_db \<Rightarrow> val list list" where
  "sel_perms sender mbox db =
     map (\<lambda>p. [VInt (p_recipient_fee p), VInt (p_server_fee p), VInt (p_copied_at p)])
       (filter (\<lambda>p. p_sender p = sender \<and> p_message_box p = mbox) (perms db))"

text \<open>\<open>as i32\<close> on an \<open>i64\<close>: the low 32 bits, as a signed number.\<close>

definition i32_of_i64 :: "i64 \<Rightarrow> int" where
  "i32_of_i64 i = (i + 2 ^ 31) mod 2 ^ 32 - 2 ^ 31"

definition permissions_copy :: "string \<Rightarrow> string \<Rightarrow> ms \<Rightarrow> (int \<times> int) option mbx" where
  "permissions_copy sender mbox now_ms db =
     andThen (query [PERMS] (sel_perms sender mbox) db) (\<lambda>rows db.
       (Inr (case rows of
          [] \<Rightarrow> None
        | r # _ \<Rightarrow>
            (let copied = u64_of_i64_clamped (val_int (r ! 2))
             in if saturating_sub now_ms copied < PERMISSIONS_COPY_TTL_MS
                then Some (i32_of_i64 (val_int (r ! 0)), i32_of_i64 (val_int (r ! 1)))
                else None)), db))"

definition keep_permissions :: "string \<Rightarrow> string \<Rightarrow> int \<Rightarrow> int \<Rightarrow> ms \<Rightarrow> unit mbx" where
  "keep_permissions sender mbox recipient_fee server_fee now_ms =
     exec [PERMS] (\<lambda>db. Inr (db\<lparr>perms :=
       filter (\<lambda>p. \<not> (p_sender p = sender \<and> p_message_box p = mbox)) (perms db) @
       [\<lparr>p_sender = sender, p_message_box = mbox, p_recipient_fee = recipient_fee,
         p_server_fee = server_fee, p_copied_at = i64_of_u64 now_ms\<rparr>]\<rparr>))"

definition forget_permissions :: "unit mbx" where
  "forget_permissions = exec [PERMS] (\<lambda>db. Inr (db\<lparr>perms := []\<rparr>))"

subsection \<open>The merge of a listing with the rows D1 holds\<close>

datatype merge_order = D1First | MailboxFirst

fun merge_loop ::
  "message_db_row list \<Rightarrow> nat \<Rightarrow> u64 \<Rightarrow> message_db_row list \<Rightarrow> u64 \<Rightarrow> string set \<Rightarrow>
     message_db_row list" where
  "merge_loop [] limit inline_bytes out up_to ids = out"
| "merge_loop (r # rs) limit inline_bytes out up_to ids =
     (if limit \<le> length out then out
      else if (case m_message_id r of Some i \<Rightarrow> i \<in> ids | None \<Rightarrow> False)
      then merge_loop rs limit inline_bytes out up_to ids
      else
        (let ids' = (case m_message_id r of Some i \<Rightarrow> insert i ids | None \<Rightarrow> ids);
             up_to' = up_to + (case m_body r of Some b \<Rightarrow> length b | None \<Rightarrow> 0)
         in if inline_bytes < up_to' then out
            else merge_loop rs limit inline_bytes (out @ [r]) up_to' ids'))"

definition merge_mbx ::
  "message_db_row list \<Rightarrow> message_db_row list \<Rightarrow> string set \<Rightarrow> merge_order \<Rightarrow> nat \<Rightarrow> u64 \<Rightarrow>
     message_db_row list" where
  "merge_mbx d1 mailbox held order limit inline_bytes =
     (let d1' = filter (\<lambda>r. case m_message_id r of Some i \<Rightarrow> i \<notin> held | None \<Rightarrow> True) d1;
          (lead, rest) = (case order of D1First \<Rightarrow> (d1', mailbox) | MailboxFirst \<Rightarrow> (mailbox, d1'))
      in merge_loop (lead @ rest) limit inline_bytes [] 0 {})"

end
