(* ===== verification/Mailbox_Props.thy ===== *)
theory Mailbox_Props
  imports Mailbox
begin

section \<open>The mailbox: invariants and the behaviour of each operation\<close>

text \<open>
  The proofs about \<open>Mailbox\<close>: one lemma per statement, the invariant of the rows and of the
  counters, and the contract of each operation.
\<close>

subsection \<open>One statement\<close>

text \<open>Only the fault script distinguishes a database from the one a read leaves behind.\<close>

definition spend_fault :: "mailbox_db \<Rightarrow> mailbox_db" where
  "spend_fault db = db\<lparr>faults := tl (faults db)\<rparr>"

lemma spend_fault_simps [simp]:
  "made (spend_fault db) = made db"
  "mbrows (spend_fault db) = mbrows db"
  "last_seq (spend_fault db) = last_seq db"
  "counters_row (spend_fault db) = counters_row db"
  "mailbox_meta (spend_fault db) = mailbox_meta db"
  "perms (spend_fault db) = perms db"
  by (simp_all add: spend_fault_def)

lemma run_cases:
  obtains (failed) e where "run needs stmt db = (Inl e, spend_fault db)"
  | (ran) a db' where "stmt (spend_fault db) = Inr (a, db')" and "run needs stmt db = (Inr a, db')"
proof -
  have "(\<exists>e. run needs stmt db = (Inl e, spend_fault db)) \<or>
        (\<exists>a db'. stmt (spend_fault db) = Inr (a, db') \<and> run needs stmt db = (Inr a, db'))"
    unfolding run_def Let_def spend_fault_def
    by (auto split: list.split option.split sum.split)
  then show thesis using that by blast
qed

lemma query_cases:
  obtains (failed) e where "query needs q db = (Inl e, spend_fault db)"
  | (ran) "query needs q db = (Inr (q (spend_fault db)), spend_fault db)"
  unfolding query_def by (rule run_cases [of needs "\<lambda>db. Inr (q db, db)" db]) auto

lemma query_state [simp]: "snd (query needs q db) = spend_fault db"
  by (cases rule: query_cases [of needs q db]) simp_all

lemma query_Inr:
  "query needs q db = (Inr v, db') \<Longrightarrow> v = q (spend_fault db) \<and> db' = spend_fault db"
  by (cases rule: query_cases [of needs q db]) auto

lemma exec_cases:
  obtains (failed) e where "exec needs w db = (Inl e, spend_fault db)"
  | (ran) db' where "w (spend_fault db) = Inr db'" and "exec needs w db = (Inr (), db')"
  unfolding exec_def
  by (rule run_cases [of needs "\<lambda>db. case w db of Inl e \<Rightarrow> Inl e | Inr db' \<Rightarrow> Inr ((), db')" db])
     (auto split: sum.splits)

lemma exec_Inr: "exec needs w db = (Inr u, db') \<Longrightarrow> w (spend_fault db) = Inr db'"
  by (cases rule: exec_cases [of needs w db]) auto

text \<open>A write keeps a property of the database if the statement does, whatever its outcome.\<close>

lemma exec_state:
  assumes "\<And>db'. w (spend_fault db) = Inr db' \<Longrightarrow> P db'" and "P (spend_fault db)"
  shows "P (snd (exec needs w db))"
  using assms by (cases rule: exec_cases [of needs w db]) auto

text \<open>On a ready database without a fault, a statement runs.\<close>

definition ready :: "mailbox_db \<Rightarrow> bool" where
  "ready db \<longleftrightarrow> faults db = [] \<and>
     {ROWS, LISTING_INDEX, OWED_INDEX, COUNTERS, META, PERMS} \<subseteq> set (made db)"

lemma spend_fault_ready: "ready db \<Longrightarrow> spend_fault db = db"
  by (simp add: ready_def spend_fault_def)

lemma run_ready:
  assumes "ready db" and "set needs \<subseteq> {ROWS, LISTING_INDEX, OWED_INDEX, COUNTERS, META, PERMS}"
  shows "run needs stmt db = (case stmt db of Inl e \<Rightarrow> (Inl e, db) | Inr (a, db') \<Rightarrow> (Inr a, db'))"
proof -
  have "missing_object needs db = None"
    using assms by (auto simp: missing_object_def find_None ready_def)
  moreover have eq: "db\<lparr>faults := []\<rparr> = db" using assms by (simp add: ready_def)
  ultimately show ?thesis using assms by (simp add: run_def ready_def Let_def eq)
qed

lemma query_ready [simp]:
  assumes "ready db" and "set needs \<subseteq> {ROWS, LISTING_INDEX, OWED_INDEX, COUNTERS, META, PERMS}"
  shows "query needs q db = (Inr (q db), db)"
  using assms by (simp add: query_def run_ready)

lemma exec_ready [simp]:
  assumes "ready db" and "set needs \<subseteq> {ROWS, LISTING_INDEX, OWED_INDEX, COUNTERS, META, PERMS}"
  shows "exec needs w db = (case w db of Inl e \<Rightarrow> (Inl e, db) | Inr db' \<Rightarrow> (Inr (), db'))"
  using assms by (simp add: exec_def run_ready split: sum.splits)

subsection \<open>The invariant of the rows\<close>

text \<open>
  A live row is at version 1 and holds its body, whose length it records. An acknowledged row
  is at version 2 and is owed to the archive; it has dropped its body only if some version of
  it is archived. A row that is not owed is archived at its version or collides in D1.
\<close>

definition row_ok :: "mailbox_row \<Rightarrow> bool" where
  "row_ok r \<longleftrightarrow>
     (r_state r = live \<and> r_version r = 1 \<and>
        (case r_body r of Some b \<Rightarrow> r_body_bytes r = int (length b) | None \<Rightarrow> False) \<or>
      r_state r = acknowledged \<and> r_version r = 2 \<and> r_owed r = 1 \<and>
        (r_body r = None \<longrightarrow> 0 < r_archived_version r)) \<and>
     0 \<le> r_body_bytes r \<and> 0 \<le> r_archived_version r \<and> r_owed r \<in> {0, 1} \<and>
     r_enqueued_at r \<noteq> None \<and>
     (r_owed r = 0 \<longrightarrow> r_version r \<le> r_archived_version r \<or> r_collision r = 1)"

definition rows_ok :: "mailbox_row list \<Rightarrow> nat \<Rightarrow> bool" where
  "rows_ok rs n \<longleftrightarrow>
     distinct (map r_message_id rs) \<and> sorted_wrt (<) (map r_seq rs) \<and>
     (\<forall>r\<in>set rs. r_seq r \<le> n \<and> row_ok r)"

abbreviation mailbox_inv :: "mailbox_db \<Rightarrow> bool" where
  "mailbox_inv db \<equiv> rows_ok (mbrows db) (last_seq db)"

definition live_rows :: "mailbox_row list \<Rightarrow> mailbox_row list" where
  "live_rows rs = filter (\<lambda>r. r_state r = live) rs"

definition held_bytes :: "mailbox_row list \<Rightarrow> i64" where
  "held_bytes rs = sum_list (map r_body_bytes (live_rows rs))"

text \<open>The counters count the live rows and their bytes, and the bound holds.\<close>

definition counted :: "bounds \<Rightarrow> mailbox_db \<Rightarrow> bool" where
  "counted b db \<longleftrightarrow>
     counters_row db = Some (int (length (live_rows (mbrows db))), held_bytes (mbrows db)) \<and>
     length (live_rows (mbrows db)) \<le> bound_rows b \<and>
     held_bytes (mbrows db) \<le> int (bound_bytes b)"

lemma rows_okD:
  assumes "rows_ok rs n"
  shows "distinct (map r_message_id rs)" and "sorted_wrt (<) (map r_seq rs)"
    and "r \<in> set rs \<Longrightarrow> row_ok r" and "r \<in> set rs \<Longrightarrow> r_seq r \<le> n"
  using assms by (auto simp: rows_ok_def)

lemma row_ok_bytes: "row_ok r \<Longrightarrow> 0 \<le> r_body_bytes r"
  by (simp add: row_ok_def)

lemma held_bytes_nonneg: "rows_ok rs n \<Longrightarrow> 0 \<le> held_bytes rs"
  unfolding held_bytes_def
  by (rule sum_list_int_nonneg) (auto simp: live_rows_def dest!: rows_okD(3) row_ok_bytes)

text \<open>Updating the rows under one id by a function that keeps key, order and \<open>row_ok\<close>.\<close>

lemma rows_ok_update:
  assumes "rows_ok rs n" and "\<And>r. r_message_id (f r) = r_message_id r"
    and "\<And>r. r_seq (f r) = r_seq r"
    and "\<And>r. r \<in> set rs \<Longrightarrow> p r \<Longrightarrow> row_ok r \<Longrightarrow> row_ok (f r)"
  shows "rows_ok (update_where p f rs) n"
  using assms by (auto simp: rows_ok_def map_update_where set_update_where)

lemma rows_ok_filter: "rows_ok rs n \<Longrightarrow> rows_ok (filter p rs) n"
proof -
  assume ok: "rows_ok rs n"
  have "sorted_wrt (<) (map r_seq (filter p rs))"
    using rows_okD(2) [OF ok] by (simp add: sorted_wrt_map sorted_wrt_filter)
  with ok show ?thesis by (auto simp: rows_ok_def distinct_map_filter)
qed

lemma rows_ok_append:
  assumes "rows_ok rs n" and "row_ok r" and "r_message_id r \<notin> r_message_id ` set rs"
    and "r_seq r = Suc n"
  shows "rows_ok (rs @ [r]) (Suc n)"
  using assms by (auto simp: rows_ok_def sorted_wrt_append le_less_Suc_eq le_imp_less_Suc le_SucI)

text \<open>Under a unique id there is at most one row, and the update touches it alone.\<close>

lemma filter_id_cases:
  assumes "distinct (map r_message_id rs)"
  obtains (absent) "filter (\<lambda>r. r_message_id r = i) rs = []" and "i \<notin> r_message_id ` set rs"
  | (held) r where "filter (\<lambda>r. r_message_id r = i) rs = [r]" and "r \<in> set rs" and "r_message_id r = i"
proof (cases "i \<in> r_message_id ` set rs")
  case False
  then have "filter (\<lambda>r. r_message_id r = i) rs = []" by (auto simp: filter_empty_conv)
  with False show thesis by (intro absent)
next
  case True
  then obtain r where r: "r \<in> set rs" "r_message_id r = i" by auto
  from assms r have "filter (\<lambda>r. r_message_id r = i) rs = [r]"
    by (induction rs) (auto simp: filter_empty_conv image_iff)
  with r show thesis by (intro held)
qed

text \<open>How the live rows move when one row under an id changes.\<close>

lemma live_rows_update_same:
  assumes "\<And>r. r \<in> set rs \<Longrightarrow> p r \<Longrightarrow> r_state (f r) = r_state r \<and> r_body_bytes (f r) = r_body_bytes r"
  shows "length (live_rows (update_where p f rs)) = length (live_rows rs)"
    and "held_bytes (update_where p f rs) = held_bytes rs"
  using assms by (induction rs) (auto simp: live_rows_def held_bytes_def)

lemma live_rows_ack:
  assumes "distinct (map r_message_id rs)" and "r \<in> set rs" and "r_message_id r = i"
    and "r_state r = live" and "\<And>x. r_state (f x) \<noteq> live"
  shows "int (length (live_rows (update_where (\<lambda>x. r_message_id x = i) f rs)))
           = int (length (live_rows rs)) - 1"
    and "held_bytes (update_where (\<lambda>x. r_message_id x = i) f rs) = held_bytes rs - r_body_bytes r"
proof -
  have none: "update_where (\<lambda>x. r_message_id x = r_message_id r) f xs = xs"
    if "\<forall>x\<in>set xs. r_message_id r \<noteq> r_message_id x" for xs
    using that by (intro update_where_none) auto
  show "int (length (live_rows (update_where (\<lambda>x. r_message_id x = i) f rs)))
           = int (length (live_rows rs)) - 1"
    and "held_bytes (update_where (\<lambda>x. r_message_id x = i) f rs) = held_bytes rs - r_body_bytes r"
    using assms(1-4)
    by (induction rs) (auto simp: live_rows_def held_bytes_def assms(5) none image_iff)
qed

lemma live_rows_delete:
  assumes "\<And>r. r \<in> set rs \<Longrightarrow> r_message_id r = i \<Longrightarrow> r_state r \<noteq> live"
  shows "length (live_rows (filter (\<lambda>r. r_message_id r \<noteq> i) rs)) = length (live_rows rs)"
    and "held_bytes (filter (\<lambda>r. r_message_id r \<noteq> i) rs) = held_bytes rs"
proof -
  have "live_rows (filter (\<lambda>r. r_message_id r \<noteq> i) rs) = live_rows rs"
    using assms by (induction rs) (auto simp: live_rows_def)
  then show "length (live_rows (filter (\<lambda>r. r_message_id r \<noteq> i) rs)) = length (live_rows rs)"
    and "held_bytes (filter (\<lambda>r. r_message_id r \<noteq> i) rs) = held_bytes rs"
    by (simp_all add: held_bytes_def)
qed

subsection \<open>The insert\<close>

text \<open>Two databases that differ in their fault script only.\<close>

definition same_store :: "mailbox_db \<Rightarrow> mailbox_db \<Rightarrow> bool" where
  "same_store db db' \<longleftrightarrow> db'\<lparr>faults := []\<rparr> = db\<lparr>faults := []\<rparr>"

lemma same_store_refl [simp]: "same_store db db"
  by (simp add: same_store_def)

lemma same_store_spend [simp]: "same_store db (spend_fault db)"
  by (simp add: same_store_def spend_fault_def)

lemma same_store_spend2 [simp]: "same_store db (spend_fault (spend_fault db))"
  by (simp add: same_store_def spend_fault_def)

lemma same_store_trans: "same_store a b \<Longrightarrow> same_store b c \<Longrightarrow> same_store a c"
  by (simp add: same_store_def)

lemma same_storeD:
  assumes "same_store db db'"
  shows "made db' = made db" "mbrows db' = mbrows db" "last_seq db' = last_seq db"
    "counters_row db' = counters_row db" "mailbox_meta db' = mailbox_meta db" "perms db' = perms db"
  using assms by (cases db; cases db'; simp add: same_store_def)+

lemma counters_Inr:
  assumes "counters db = (Inr nb, db')"
  shows "\<exists>n b. counters_row db = Some (n, b) \<and> nb = (u64_of_i64_clamped n, u64_of_i64_clamped b) \<and>
               db' = spend_fault db"
  using assms
  by (auto simp: counters_def andThen_Inr_iff sel_counters_def dest!: query_Inr
      split: option.splits)

lemma counters_state [simp]: "snd (counters db) = spend_fault db"
  by (cases rule: query_cases [of "[COUNTERS]" sel_counters db])
     (auto simp: counters_def split: list.splits)

text \<open>The row an insert writes.\<close>

definition fresh_row :: "new_row \<Rightarrow> i64 \<Rightarrow> string \<Rightarrow> nat \<Rightarrow> mailbox_row" where
  "fresh_row row now at s =
     \<lparr>r_seq = s, r_message_id = n_message_id row, r_message_box = n_message_box row,
      r_sender = n_sender row, r_body = Some (n_body row),
      r_body_bytes = i64_of_u64 (length (n_body row)), r_state = live, r_version = 1,
      r_archived_version = 0, r_owed = 1, r_enqueued_at = Some now, r_collision = 0,
      r_created_at = at, r_updated_at = at\<rparr>"

lemma fresh_row_ok: "length (n_body row) < 2 ^ 63 \<Longrightarrow> row_ok (fresh_row row now at s)"
  by (simp add: row_ok_def fresh_row_def)

lemma insert_under_bound_Inr:
  assumes "insert_under_bound st row now b nr nb db = (Inr r, db')"
    and "n_message_id row \<notin> r_message_id ` set (mbrows db)"
  shows "(\<exists>f. r = Full f \<and> db' = db) \<or>
         (r = Stored \<and> nr < bound_rows b \<and>
          saturating_add nb (length (n_body row)) \<le> bound_bytes b \<and>
          mbrows db' = mbrows db @ [fresh_row row (i64_of_u64 now) (st now) (Suc (last_seq db))] \<and>
          last_seq db' = Suc (last_seq db) \<and>
          counters_row db' = map_option (\<lambda>(n, c). (n + 1, c + i64_of_u64 (length (n_body row))))
                               (counters_row db) \<and>
          made db' = made db \<and> mailbox_meta db' = mailbox_meta db \<and> perms db' = perms db)"
  using assms
  by (auto simp: insert_under_bound_def Let_def andThen_Inr_iff ins_row_def move_counters_def
      fresh_row_def dest!: exec_Inr split: if_splits)

lemma insert_Inr_cases:
  assumes "insert_mbx st row retry now b db = (Inr r, db')"
  obtains
    (held) h where "h \<in> set (mbrows db)" "r_message_id h = n_message_id row"
      "r = Retried \<or> r = Duplicate" "same_store db db'"
  | (full) f where "n_message_id row \<notin> r_message_id ` set (mbrows db)" "r = Full f" "same_store db db'"
  | (stored) n bts where
      "n_message_id row \<notin> r_message_id ` set (mbrows db)" "r = Stored"
      "counters_row db = Some (n, bts)"
      "u64_of_i64_clamped n < bound_rows b"
      "saturating_add (u64_of_i64_clamped bts) (length (n_body row)) \<le> bound_bytes b"
      "mbrows db' = mbrows db @ [fresh_row row (i64_of_u64 now) (st now) (Suc (last_seq db))]"
      "last_seq db' = Suc (last_seq db)"
      "counters_row db' = Some (n + 1, bts + i64_of_u64 (length (n_body row)))"
      "made db' = made db" "mailbox_meta db' = mailbox_meta db" "perms db' = perms db"
proof -
  from assms obtain held db1 where q: "query [ROWS] (sel_held (n_message_id row)) db = (Inr held, db1)"
    by (auto simp: insert_mbx_def andThen_Inr_iff)
  then have q': "held = sel_held (n_message_id row) db" "db1 = spend_fault db"
    by (auto dest!: query_Inr simp: sel_held_def)
  show thesis
  proof (cases "filter (\<lambda>r. r_message_id r = n_message_id row) (mbrows db)")
    case (Cons h hs)
    then have "h \<in> set (filter (\<lambda>r. r_message_id r = n_message_id row) (mbrows db))" by simp
    then have h: "h \<in> set (mbrows db)" "r_message_id h = n_message_id row" by simp_all
    from Cons assms q q' have "r = Retried \<or> r = Duplicate" and "db' = spend_fault db"
      by (auto simp: insert_mbx_def sel_held_def Let_def split: if_splits)
    with h that(1) show thesis by auto
  next
    case Nil
    then have absent: "n_message_id row \<notin> r_message_id ` set (mbrows db)"
      by (auto simp: filter_empty_conv)
    from Nil assms q q' obtain nb db2 where
      c: "counters db1 = (Inr nb, db2)" and
      rest: "insert_under_bound st row now b (fst nb) (snd nb) db2 = (Inr r, db')"
      by (auto simp: insert_mbx_def sel_held_def andThen_Inr_iff)
    from counters_Inr [OF c] q' obtain n bts where
      nb: "counters_row db = Some (n, bts)" "nb = (u64_of_i64_clamped n, u64_of_i64_clamped bts)"
      "db2 = spend_fault (spend_fault db)" by auto
    from insert_under_bound_Inr [OF rest] absent nb
    consider f where "r = Full f" "db' = db2" | (st) "r = Stored" by auto
    then show thesis
    proof cases
      case 1
      with absent nb show thesis by (intro that(2)) (auto intro: same_store_trans)
    next
      case st
      with insert_under_bound_Inr [OF rest] absent nb show thesis by (intro that(3)) auto
    qed
  qed
qed

text \<open>Whatever happens, an insert keeps the rows well-formed.\<close>

lemma ins_row_inv:
  assumes "ins_row row (i64_of_u64 (length (n_body row))) now at db = Inr db'"
    and "mailbox_inv db" and "length (n_body row) < 2 ^ 63"
  shows "mailbox_inv db'"
proof -
  from assms(1) have db': "mbrows db' = mbrows db @ [fresh_row row now at (Suc (last_seq db))]"
    "last_seq db' = Suc (last_seq db)" "n_message_id row \<notin> r_message_id ` set (mbrows db)"
    by (auto simp: ins_row_def fresh_row_def split: if_splits)
  moreover have "rows_ok (mbrows db @ [fresh_row row now at (Suc (last_seq db))]) (Suc (last_seq db))"
    using assms(2) fresh_row_ok [OF assms(3)]
    by (rule rows_ok_append) (simp_all add: fresh_row_def db'(3))
  ultimately show ?thesis by simp
qed

lemma move_counters_inv [simp]: "move_counters a c db = Inr db' \<Longrightarrow> mailbox_inv db' = mailbox_inv db"
  by (auto simp: move_counters_def)

text \<open>The rows stay well-formed through a sequence of statements if each keeps them.\<close>

lemma andThen_rows_ok:
  assumes "mailbox_inv (snd r)"
    and "\<And>a s. r = (Inr a, s) \<Longrightarrow> mailbox_inv s \<Longrightarrow> mailbox_inv (snd (k a s))"
  shows "mailbox_inv (snd (andThen r k))"
  using assms by (rule andThen_state)

lemma exec_rows_ok:
  assumes "mailbox_inv db" and "\<And>db'. w (spend_fault db) = Inr db' \<Longrightarrow> mailbox_inv db'"
  shows "mailbox_inv (snd (exec needs w db))"
  using assms by (cases rule: exec_cases [of needs w db]) auto

lemma query_rows_ok: "mailbox_inv db \<Longrightarrow> mailbox_inv (snd (query needs q db))"
  by simp

lemma insert_under_bound_inv:
  assumes "mailbox_inv db" and "bound_bytes b < 2 ^ 63"
  shows "mailbox_inv (snd (insert_under_bound st row now b nr nb db))"
proof (cases "bound_bytes b < saturating_add nb (length (n_body row))")
  case True
  with assms show ?thesis by (simp add: insert_under_bound_def Let_def)
next
  case False
  then have small: "length (n_body row) < 2 ^ 63"
    using assms(2) by (auto simp: saturating_add_def u64_max_def min_def split: if_splits)
  have "mailbox_inv (snd (andThen (exec [ROWS] (ins_row row (i64_of_u64 (length (n_body row)))
            (i64_of_u64 now) (st now)) db)
          (\<lambda>_ db. andThen (exec [COUNTERS] (move_counters 1 (i64_of_u64 (length (n_body row)))) db)
            (\<lambda>_ db. (Inr Stored, db)))))"
    by (intro andThen_rows_ok exec_rows_ok; (simp add: assms(1))?)
       (use assms(1) small ins_row_inv [of row _ _ "spend_fault db"] in \<open>auto simp: move_counters_def\<close>)
  with False assms(1) show ?thesis by (simp add: insert_under_bound_def Let_def)
qed

lemma insert_inv [inv_intros]:
  assumes "mailbox_inv db" and "bound_bytes b < 2 ^ 63"
  shows "mailbox_inv (snd (insert_mbx st row retry now b db))"
  unfolding insert_mbx_def
proof (rule andThen_rows_ok)
  fix held s assume s: "mailbox_inv s"
  have "mailbox_inv (snd (andThen (counters s) (\<lambda>(rows_held, bytes_held) db.
          insert_under_bound st row now b rows_held bytes_held db)))"
    by (rule andThen_rows_ok) (use s assms(2) in \<open>auto intro: insert_under_bound_inv\<close>)
  with s show "mailbox_inv (snd (case held of
      h # _ \<Rightarrow>
         (let ours = (val_text (h ! 0) = Some (n_sender row) \<and>
                      val_text (h ! 1) = Some (n_message_box row) \<and>
                      val_text (h ! 2) = Some (n_body row))
          in (Inr (if retry \<and> ours then Retried else Duplicate), s))
     | [] \<Rightarrow> andThen (counters s) (\<lambda>(rows_held, bytes_held) db.
           insert_under_bound st row now b rows_held bytes_held db)))"
    by (simp split: list.split)
qed (simp add: assms(1))

lemma saturating_add_bound:
  "saturating_add a c \<le> b \<Longrightarrow> b < u64_max \<Longrightarrow> a + c \<le> b"
  by (simp add: saturating_add_def min_def split: if_splits)

text \<open>An insert that answered keeps the counters exact and the bound.\<close>

lemma insert_counted [inv_intros]:
  assumes "insert_mbx st row retry now b db = (Inr r, db')"
    and inv: "mailbox_inv db" and "counted b db" and small: "bound_bytes b < 2 ^ 63"
  shows "counted b db'"
  using assms(1)
proof (cases rule: insert_Inr_cases)
  case (stored n bts)
  have n: "n = int (length (live_rows (mbrows db)))" and bts: "bts = held_bytes (mbrows db)"
    using assms(3) stored(3) by (auto simp: counted_def)
  have "0 \<le> bts" using held_bytes_nonneg [OF inv] bts by simp
  have b: "u64_of_i64_clamped bts + length (n_body row) \<le> bound_bytes b"
    by (rule saturating_add_bound [OF stored(5)]) (use small in \<open>simp add: u64_max_def\<close>)
  with \<open>0 \<le> bts\<close> have "bts + int (length (n_body row)) \<le> int (bound_bytes b)"
    using u64_of_i64_clamped_nonneg [of bts] by linarith
  moreover have "length (n_body row) < 2 ^ 63" using b small by simp
  moreover have "live_rows (mbrows db') =
      live_rows (mbrows db) @ [fresh_row row (i64_of_u64 now) (st now) (Suc (last_seq db))]"
    by (simp add: stored(6) live_rows_def fresh_row_def)
  ultimately show ?thesis
    using stored(4,8) by (simp add: counted_def held_bytes_def n bts fresh_row_def)
qed (use assms(3) in \<open>auto simp: counted_def same_storeD\<close>)

end
