(* ===== verification/Mailbox_Events.thy ===== *)
theory Mailbox_Events
  imports Mailbox_Props
begin

section \<open>The mailbox: acknowledgment, replay, confirmation, listing\<close>

text \<open>
  The contracts of the events after the insert: what an acknowledgment, a replay, an archive's
  confirmation and a listing do to the rows and what they answer, that each keeps the rows
  well-formed whether it succeeds or fails part way, and that each one that answered keeps the
  counters exact.
\<close>

subsection \<open>The row under an id\<close>

definition held_id :: "string \<Rightarrow> mailbox_row list \<Rightarrow> bool" where
  "held_id i rs \<longleftrightarrow> i \<in> r_message_id ` set rs"

definition live_id :: "string \<Rightarrow> mailbox_row list \<Rightarrow> bool" where
  "live_id i rs \<longleftrightarrow> (\<exists>r\<in>set rs. r_message_id r = i \<and> r_state r = live)"

lemma live_id_held: "live_id i rs \<Longrightarrow> held_id i rs"
  by (auto simp: live_id_def held_id_def)

lemma live_id_unique:
  "distinct (map r_message_id rs) \<Longrightarrow> r \<in> set rs \<Longrightarrow> live_id (r_message_id r) rs \<longleftrightarrow> r_state r = live"
  by (auto simp: live_id_def dest: distinct_key_unique)

lemma held_id_update:
  "(\<And>r. r_message_id (f r) = r_message_id r) \<Longrightarrow> held_id i (update_where p f rs) = held_id i rs"
  by (metis held_id_def map_update_where set_map)

lemma live_id_update_other:
  assumes "\<And>r. r_message_id (f r) = r_message_id r" and "\<And>r. p r \<Longrightarrow> r_message_id r \<noteq> i"
  shows "live_id i (update_where p f rs) = live_id i rs"
  using assms by (induction rs) (auto simp: live_id_def)

lemma live_id_delete_other:
  "i \<noteq> j \<Longrightarrow> live_id i (filter (\<lambda>r. r_message_id r \<noteq> j) rs) = live_id i rs"
  by (auto simp: live_id_def)

lemma row_ok_state: "row_ok r \<Longrightarrow> r_state r \<noteq> live \<Longrightarrow> r_state r = acknowledged"
  by (auto simp: row_ok_def)

subsection \<open>E9: the acknowledgment\<close>

lemma ack_row_simps [simp]:
  "r_message_id (ack_row now at r) = r_message_id r"
  "r_seq (ack_row now at r) = r_seq r"
  "r_state (ack_row now at r) = acknowledged"
  "r_body_bytes (ack_row now at r) = r_body_bytes r"
  by (simp_all add: ack_row_def)

lemma ack_row_ok: "row_ok r \<Longrightarrow> r_state r = live \<Longrightarrow> row_ok (ack_row now at r)"
  by (auto simp: row_ok_def ack_row_def live_def acknowledged_def split: option.splits)

text \<open>The rows after the acknowledgments of a list of ids, and what the call answers.\<close>

definition ack_rows :: "(string \<Rightarrow> bool) \<Rightarrow> i64 \<Rightarrow> string \<Rightarrow> mailbox_row list \<Rightarrow> mailbox_row list" where
  "ack_rows wanted now at rs =
     update_where (\<lambda>r. wanted (r_message_id r) \<and> r_state r = live) (ack_row now at) rs"

lemma ack_rows_ok: "rows_ok rs n \<Longrightarrow> rows_ok (ack_rows w now at rs) n"
  unfolding ack_rows_def by (erule rows_ok_update) (auto intro: ack_row_ok)

lemma ack_rows_none: "ack_rows (\<lambda>_. False) now at rs = rs"
  by (simp add: ack_rows_def update_where_def)

lemma ack_rows_not_live:
  "(\<And>i. w i \<Longrightarrow> \<not> live_id i rs) \<Longrightarrow> ack_rows w now at rs = rs"
  unfolding ack_rows_def by (rule update_where_none) (auto simp: live_id_def)

lemma ack_rows_ack_rows:
  "ack_rows w now at (ack_rows v now at rs) = ack_rows (\<lambda>i. v i \<or> w i) now at rs"
  by (auto simp: ack_rows_def update_where_def)

lemma ack_rows_cong:
  "(\<And>i. live_id i rs \<Longrightarrow> v i = w i) \<Longrightarrow> ack_rows v now at rs = ack_rows w now at rs"
  by (auto simp: ack_rows_def update_where_def live_id_def)

lemma live_id_ack_rows: "live_id i (ack_rows w now at rs) \<longleftrightarrow> live_id i rs \<and> \<not> w i"
  by (auto simp: live_id_def ack_rows_def set_update_where)

lemma held_id_ack_rows [simp]: "held_id i (ack_rows w now at rs) = held_id i rs"
  by (simp add: ack_rows_def held_id_update)

lemma upd_ack_eq:
  assumes "distinct (map r_message_id (mbrows db))" and "live_id i (mbrows db)"
  shows "upd_ack i now at db = Inr (db\<lparr>mbrows := ack_rows (\<lambda>j. j = i) now at (mbrows db)\<rparr>)"
proof -
  have "\<And>r. r \<in> set (mbrows db) \<Longrightarrow> r_message_id r = i \<Longrightarrow> r_state r = live"
    using assms live_id_unique by fastforce
  then show ?thesis by (simp add: upd_ack_def ack_rows_def update_where_def cong: map_cong)
qed

text \<open>What the loop reads for one id.\<close>

lemma sel_state_bytes_cases:
  assumes "distinct (map r_message_id (mbrows db))"
  obtains (absent) "sel_state_bytes i db = []" and "\<not> held_id i (mbrows db)"
  | (held) r where "sel_state_bytes i db = [[VText (r_state r), VInt (r_body_bytes r)]]"
      and "r \<in> set (mbrows db)" and "r_message_id r = i" and "held_id i (mbrows db)"
      and "live_id i (mbrows db) \<longleftrightarrow> r_state r = live"
proof (rule filter_id_cases [OF assms, of i])
  assume "filter (\<lambda>r. r_message_id r = i) (mbrows db) = []" "i \<notin> r_message_id ` set (mbrows db)"
  then show thesis by (intro absent) (simp_all add: sel_state_bytes_def held_id_def)
next
  fix r assume r: "filter (\<lambda>r. r_message_id r = i) (mbrows db) = [r]" "r \<in> set (mbrows db)"
    "r_message_id r = i"
  then show thesis using live_id_unique [OF assms r(2)]
    by (intro held [of r]) (auto simp: sel_state_bytes_def held_id_def)
qed

text \<open>The ids of a list, each at its earliest place, without those already seen.\<close>

fun dedup :: "string set \<Rightarrow> string list \<Rightarrow> string list" where
  "dedup seen [] = []"
| "dedup seen (i # is) = (if i \<in> seen then dedup seen is else i # dedup (insert i seen) is)"

lemma set_dedup: "set (dedup seen is) = set is - seen"
  by (induction "is" arbitrary: seen) auto

lemma distinct_dedup: "distinct (dedup seen is)"
  by (induction "is" arbitrary: seen) (auto simp: set_dedup)

lemma dedup_distinct: "distinct is \<Longrightarrow> set is \<inter> seen = {} \<Longrightarrow> dedup seen is = is"
  by (induction "is" arbitrary: seen) auto

definition ack_counts :: "bool \<Rightarrow> mailbox_row list \<Rightarrow> string \<Rightarrow> bool" where
  "ack_counts retry rs i \<longleftrightarrow> live_id i rs \<or> retry \<and> held_id i rs"

text \<open>One turn of the loop, on a database whose ids are unique.\<close>

lemma ack_loop_step:
  assumes inv: "mailbox_inv db" and new: "i \<notin> seen"
  obtains (failed) e db' where "mailbox_inv db'"
      and "ack_loop (i # ids) retry now at seen out db = (Inl e, db')"
  | (acks) r db' where "r \<in> set (mbrows db)" and "r_message_id r = i" and "r_state r = live"
      and "live_id i (mbrows db)"
      and "mbrows db' = ack_rows (\<lambda>j. j = i) now at (mbrows db)" and "last_seq db' = last_seq db"
      and "counters_row db' = map_option (\<lambda>(n, b). (n - 1, b - r_body_bytes r)) (counters_row db)"
      and "ack_loop (i # ids) retry now at seen out db =
           ack_loop ids retry now at (insert i seen)
             (out\<lparr>a_acknowledged := a_acknowledged out @ [i]\<rparr>) db'"
  | (keeps) db' where "\<not> live_id i (mbrows db)" and "same_store db db'"
      and "ack_loop (i # ids) retry now at seen out db =
           ack_loop ids retry now at (insert i seen)
             (if retry \<and> held_id i (mbrows db)
              then out\<lparr>a_acknowledged := a_acknowledged out @ [i]\<rparr>
              else out\<lparr>a_missing := a_missing out @ [i]\<rparr>) db'"
proof (cases rule: query_cases [of "[ROWS]" "sel_state_bytes i" db])
  case (failed e)
  with new inv show thesis by (intro that(1) [of "spend_fault db" e]) simp_all
next
  case ran
  have dist: "distinct (map r_message_id (mbrows db))" using inv by (rule rows_okD)
  have dist': "distinct (map r_message_id (mbrows (spend_fault db)))" using dist by simp
  from dist' show thesis
  proof (cases rule: sel_state_bytes_cases [where i = i])
    case absent
    with ran new show thesis
      by (intro that(3) [of "spend_fault db"]) (auto dest: live_id_held)
  next
    case (held r)
    show thesis
    proof (cases "r_state r = live")
      case False
      with held ran new show thesis by (intro that(3) [of "spend_fault db"]) auto
    next
      case True
      let ?db1 = "spend_fault db"
      have upd: "upd_ack i now at (spend_fault ?db1) =
          Inr ((spend_fault ?db1)\<lparr>mbrows := ack_rows (\<lambda>j. j = i) now at (mbrows db)\<rparr>)"
        using held True dist by (subst upd_ack_eq) auto
      have unfold: "ack_loop (i # ids) retry now at seen out db =
          andThen (exec [ROWS] (upd_ack i now at) ?db1) (\<lambda>_ db.
          andThen (exec [COUNTERS] (move_counters (- 1) (- r_body_bytes r)) db) (\<lambda>_ db.
            ack_loop ids retry now at (insert i seen)
              (out\<lparr>a_acknowledged := a_acknowledged out @ [i]\<rparr>) db))"
        using ran held True new by simp
      show thesis
      proof (cases rule: exec_cases [of "[ROWS]" "upd_ack i now at" ?db1])
        case (failed e)
        with unfold inv show thesis by (intro that(1) [of "spend_fault ?db1" e]) simp_all
      next
        case (ran db2)
        then have db2: "mbrows db2 = ack_rows (\<lambda>j. j = i) now at (mbrows db)"
          "last_seq db2 = last_seq db" "counters_row db2 = counters_row db" using upd by auto
        show thesis
        proof (cases rule: exec_cases [of "[COUNTERS]" "move_counters (- 1) (- r_body_bytes r)" db2])
          case (failed e)
          with unfold ran db2 inv show thesis
            by (intro that(1) [of "spend_fault db2" e]) (simp_all add: ack_rows_ok)
        next
          case (ran db3)
          with unfold \<open>exec [ROWS] _ ?db1 = _\<close> db2 held True show thesis
            by (intro that(2) [of r db3]) (auto simp: move_counters_def)
        qed
      qed
    qed
  qed
qed

lemma ack_loop_inv:
  "mailbox_inv db \<Longrightarrow> mailbox_inv (snd (ack_loop ids retry now at seen out db))"
proof (induction ids arbitrary: seen out db)
  case Nil
  then show ?case by simp
next
  case (Cons i ids)
  show ?case
  proof (cases "i \<in> seen")
    case True
    with Cons show ?thesis by simp
  next
    case False
    with Cons.prems show ?thesis
      by (cases rule: ack_loop_step [of db i seen ids retry now at out])
         (use Cons.prems in \<open>auto simp: Cons.IH ack_rows_ok same_storeD simp del: ack_loop.simps\<close>)
  qed
qed

lemma acknowledge_inv [inv_intros]:
  "mailbox_inv db \<Longrightarrow> mailbox_inv (snd (acknowledge st ids retry now db))"
  by (simp add: acknowledge_def ack_loop_inv)

lemma ack_loop_effect:
  assumes "ack_loop ids retry now at seen out db = (Inr out', db')" and "mailbox_inv db"
  shows "mbrows db' = ack_rows (\<lambda>i. i \<in> set ids - seen) now at (mbrows db) \<and>
         last_seq db' = last_seq db \<and>
         a_acknowledged out' =
           a_acknowledged out @ filter (ack_counts retry (mbrows db)) (dedup seen ids) \<and>
         a_missing out' =
           a_missing out @ filter (\<lambda>i. \<not> ack_counts retry (mbrows db) i) (dedup seen ids)"
  using assms
proof (induction ids arbitrary: seen out db)
  case Nil
  then show ?case by (simp add: ack_rows_none)
next
  case (Cons i ids)
  show ?case
  proof (cases "i \<in> seen")
    case True
    have "set (i # ids) - seen = set ids - seen" using True by auto
    with Cons.IH [of seen out db] Cons.prems True show ?thesis by simp
  next
    case False
    from Cons.prems(2) False show ?thesis
    proof (cases rule: ack_loop_step [of db i seen ids retry now at out])
      case (failed e db1)
      with Cons.prems(1) show ?thesis by simp
    next
      case (acks r db1)
      have inv1: "mailbox_inv db1" using acks Cons.prems(2) by (simp add: ack_rows_ok)
      have counts: "filter p (dedup (insert i seen) ids) = filter q (dedup (insert i seen) ids)"
        if "\<And>j. j \<noteq> i \<Longrightarrow> p j = q j" for p q
        using that by (intro filter_cong) (auto simp: set_dedup)
      have same: "ack_counts retry (mbrows db1) j = ack_counts retry (mbrows db) j" if "j \<noteq> i" for j
        using that acks(5) by (simp add: ack_counts_def live_id_ack_rows)
      have rows: "ack_rows (\<lambda>j. j \<in> set ids - insert i seen) now at (mbrows db1) =
            ack_rows (\<lambda>j. j \<in> set (i # ids) - seen) now at (mbrows db)"
        using False by (auto simp: acks(5) ack_rows_ack_rows intro!: ack_rows_cong)
      have "ack_counts retry (mbrows db) i" using acks(4) by (simp add: ack_counts_def)
      with Cons.IH [OF _ inv1] Cons.prems(1) acks(6,8) False rows show ?thesis
        using counts [OF same] counts [of "\<lambda>j. \<not> ack_counts retry (mbrows db1) j"
            "\<lambda>j. \<not> ack_counts retry (mbrows db) j"] same
        by (fastforce simp del: ack_loop.simps)
    next
      case (keeps db1)
      have inv1: "mailbox_inv db1" using keeps Cons.prems(2) by (simp add: same_storeD)
      have rows: "ack_rows (\<lambda>j. j \<in> set ids - insert i seen) now at (mbrows db1) =
            ack_rows (\<lambda>j. j \<in> set (i # ids) - seen) now at (mbrows db)"
        using keeps(1,2) by (auto simp: same_storeD intro!: ack_rows_cong)
      have counts: "ack_counts retry (mbrows db) i \<longleftrightarrow> retry \<and> held_id i (mbrows db)"
        using keeps(1) by (simp add: ack_counts_def)
      show ?thesis
        using Cons.IH [OF Cons.prems(1) [unfolded keeps(3)] inv1] False rows keeps(2) counts
        by (auto simp: same_storeD simp del: ack_loop.simps)
    qed
  qed
qed

lemma ack_loop_counted:
  assumes "ack_loop ids retry now at seen out db = (Inr out', db')" and "mailbox_inv db"
    and "counted b db"
  shows "counted b db'"
  using assms
proof (induction ids arbitrary: seen out db)
  case Nil
  then show ?case by simp
next
  case (Cons i ids)
  show ?case
  proof (cases "i \<in> seen")
    case True
    with Cons show ?thesis by simp
  next
    case False
    from Cons.prems(2) False show ?thesis
    proof (cases rule: ack_loop_step [of db i seen ids retry now at out])
      case (failed e db1)
      with Cons.prems(1) show ?thesis by simp
    next
      case (acks r db1)
      have rows: "mbrows db1 = update_where (\<lambda>x. r_message_id x = i) (ack_row now at) (mbrows db)"
        using upd_ack_eq [OF rows_okD(1) [OF Cons.prems(2)] acks(4)] acks(5)
        by (simp add: upd_ack_def) (metis mailbox_db.select_convs(2) mailbox_db.surjective
            mailbox_db.update_convs(2))
      have "counted b db1"
        using Cons.prems(3) live_rows_ack [OF rows_okD(1) [OF Cons.prems(2)] acks(1-3),
            of "ack_row now at"] rows_okD(3) [OF Cons.prems(2) acks(1)] acks(7)
        by (auto simp: counted_def rows row_ok_def)
      moreover have "mailbox_inv db1" using acks Cons.prems(2) by (simp add: ack_rows_ok)
      ultimately show ?thesis using Cons.IH Cons.prems(1) acks(8) by metis
    next
      case (keeps db1)
      then have "counted b db1" "mailbox_inv db1"
        using Cons.prems by (simp_all add: counted_def same_storeD)
      then show ?thesis using Cons.IH Cons.prems(1) keeps(3) by metis
    qed
  qed
qed

lemma acknowledge_counted [inv_intros]:
  "acknowledge st ids retry now db = (Inr out, db') \<Longrightarrow> mailbox_inv db \<Longrightarrow> counted b db \<Longrightarrow>
   counted b db'"
  by (auto simp: acknowledge_def intro: ack_loop_counted)

lemma acknowledge_effect:
  assumes "acknowledge st ids retry now db = (Inr out, db')" and "mailbox_inv db"
  shows "mbrows db' = ack_rows (\<lambda>i. i \<in> set ids) (i64_of_u64 now) (st now) (mbrows db)"
    and "a_acknowledged out = filter (ack_counts retry (mbrows db)) (dedup {} ids)"
    and "a_missing out = filter (\<lambda>i. \<not> ack_counts retry (mbrows db) i) (dedup {} ids)"
  using ack_loop_effect [OF assms(1) [unfolded acknowledge_def] assms(2)] by simp_all

subsection \<open>E12: the replay\<close>

lemma sorted_sort_key_filter:
  "x \<in> set (sort_key f (filter p xs)) \<longleftrightarrow> x \<in> set xs \<and> p x"
  by auto

text \<open>Renewing a list of ids marks their rows and nothing else.\<close>

definition renew_rows :: "string set \<Rightarrow> i64 \<Rightarrow> mailbox_row list \<Rightarrow> mailbox_row list" where
  "renew_rows is now rs =
     update_where (\<lambda>r. r_message_id r \<in> is) (\<lambda>r. r\<lparr>r_enqueued_at := Some now\<rparr>) rs"

lemma renew_row_ok: "row_ok r \<Longrightarrow> row_ok (r\<lparr>r_enqueued_at := Some now\<rparr>)"
  by (simp add: row_ok_def split: option.splits)

lemma renew_rows_ok: "rows_ok rs n \<Longrightarrow> rows_ok (renew_rows is now rs) n"
  unfolding renew_rows_def by (erule rows_ok_update) (auto intro: renew_row_ok)

lemma renew_rows_live:
  "length (live_rows (renew_rows is now rs)) = length (live_rows rs)"
  "held_bytes (renew_rows is now rs) = held_bytes rs"
  unfolding renew_rows_def by (rule live_rows_update_same; simp)+

lemma renew_rows_renew_rows:
  "renew_rows B now (renew_rows A now rs) = renew_rows (A \<union> B) now rs"
  by (auto simp: renew_rows_def update_where_def)

lemma upd_enqueued_eq:
  "upd_enqueued i now db = Inr (db\<lparr>mbrows := renew_rows {i} now (mbrows db)\<rparr>)"
  by (simp add: upd_enqueued_def renew_rows_def)

lemma renew_loop_effect:
  "renew_loop is now db = (Inr u, db') \<Longrightarrow>
   mbrows db' = renew_rows (set is) now (mbrows db) \<and> last_seq db' = last_seq db \<and>
   counters_row db' = counters_row db"
proof (induction "is" arbitrary: db)
  case Nil
  then show ?case by (simp add: renew_rows_def update_where_def)
next
  case (Cons i "is")
  from Cons.prems obtain db1 where step: "exec [ROWS] (upd_enqueued i now) db = (Inr (), db1)"
    and rest: "renew_loop is now db1 = (Inr u, db')"
    by (auto elim: andThen_InrE)
  from exec_Inr [OF step] Cons.IH [OF rest] show ?case
    by (auto simp: upd_enqueued_eq renew_rows_renew_rows)
qed

lemma renew_loop_inv: "mailbox_inv db \<Longrightarrow> mailbox_inv (snd (renew_loop is now db))"
proof (induction "is" arbitrary: db)
  case (Cons i "is")
  have "mailbox_inv (snd (andThen (exec [ROWS] (upd_enqueued i now) db) (\<lambda>_. renew_loop is now)))"
    by (intro andThen_rows_ok exec_rows_ok Cons.IH)
       (use Cons.prems in \<open>auto simp: upd_enqueued_eq renew_rows_ok\<close>)
  then show ?case by simp
qed simp

text \<open>The rows a replay takes.\<close>

definition due_rows :: "ms \<Rightarrow> mailbox_row list \<Rightarrow> mailbox_row list" where
  "due_rows now rs =
     take REPLAY_PER_REQUEST
       (sort_key r_enqueued_at (filter (owed_due (i64_of_u64 (saturating_sub now REPLAY_AFTER_MS))) rs))"

lemma ar_message_id_of [simp]:
  "ar_message_id (archive_row (archive_row_columns r)) = r_message_id r"
  by (simp add: archive_row_def archive_row_columns_def text_or_empty_def)

lemma take_owed_due_effect:
  assumes "take_owed_due now db = (Inr out, db')"
  shows "out = map (\<lambda>r. archive_row (archive_row_columns r)) (due_rows now (mbrows db)) \<and>
         mbrows db' = renew_rows (r_message_id ` set (due_rows now (mbrows db))) (i64_of_u64 now)
                        (mbrows db) \<and>
         last_seq db' = last_seq db \<and> counters_row db' = counters_row db"
proof -
  have lim: "i64_of_u64 REPLAY_PER_REQUEST = int REPLAY_PER_REQUEST"
    by (simp add: REPLAY_PER_REQUEST_def)
  show ?thesis
    using assms
    by (auto simp: take_owed_due_def Let_def sel_owed_due_def lim due_rows_def image_image
        o_def dest!: query_Inr renew_loop_effect elim!: andThen_InrE)
qed

lemma take_owed_due_inv [inv_intros]: "mailbox_inv db \<Longrightarrow> mailbox_inv (snd (take_owed_due now db))"
  unfolding take_owed_due_def Let_def by (intro andThen_rows_ok renew_loop_inv) simp_all

lemma take_owed_due_counted [inv_intros]:
  "take_owed_due now db = (Inr out, db') \<Longrightarrow> counted b db \<Longrightarrow> counted b db'"
  by (drule take_owed_due_effect) (simp add: counted_def renew_rows_live)

lemma due_rows_due:
  "r \<in> set (due_rows now rs) \<Longrightarrow>
   r \<in> set rs \<and> owed_due (i64_of_u64 (saturating_sub now REPLAY_AFTER_MS)) r"
  by (auto simp: due_rows_def dest!: in_set_takeD)

subsection \<open>E11: the archive's confirmation\<close>

text \<open>A confirmation names a version the archive has written: 1 or 2 in practice.\<close>

definition done_ok :: "done_rec \<Rightarrow> bool" where
  "done_ok d \<longleftrightarrow> 1 \<le> d_version d \<and> d_version d < 2 ^ 63"

text \<open>What one confirmation does to the rows.\<close>

definition done_row :: "done_rec \<Rightarrow> mailbox_row \<Rightarrow> mailbox_row" where
  "done_row d r =
     (if d_collision d then mark_collision r
      else if r_version r \<le> int (d_version d) then mark_archived (int (d_version d)) r
      else mark_older (int (d_version d)) r)"

definition done_deletes :: "done_rec \<Rightarrow> mailbox_row \<Rightarrow> bool" where
  "done_deletes d r \<longleftrightarrow>
     r_message_id r = d_message_id d \<and> r_state r = acknowledged \<and>
     (d_collision d \<or> r_version r \<le> int (d_version d))"

definition done_rows :: "done_rec \<Rightarrow> mailbox_row list \<Rightarrow> mailbox_row list" where
  "done_rows d rs =
     update_where (\<lambda>r. r_message_id r = d_message_id d) (done_row d)
       (filter (\<lambda>r. \<not> done_deletes d r) rs)"

lemma done_row_keeps [simp]:
  "r_message_id (done_row d r) = r_message_id r" "r_seq (done_row d r) = r_seq r"
  "r_state (done_row d r) = r_state r" "r_body_bytes (done_row d r) = r_body_bytes r"
  by (auto simp: done_row_def mark_collision_def mark_archived_def mark_older_def)

lemma done_row_ok:
  assumes "row_ok r" and "done_ok d" and "r_message_id r = d_message_id d" and "\<not> done_deletes d r"
  shows "row_ok (done_row d r)"
  using assms
  by (auto simp: row_ok_def done_ok_def done_deletes_def done_row_def mark_collision_def
      mark_archived_def mark_older_def split: option.splits)

lemma done_rows_ok: "rows_ok rs n \<Longrightarrow> done_ok d \<Longrightarrow> rows_ok (done_rows d rs) n"
  unfolding done_rows_def
  by (rule rows_ok_update [OF rows_ok_filter]) (auto intro: done_row_ok)

lemma done_rows_live:
  "length (live_rows (done_rows d rs)) = length (live_rows rs)"
  "held_bytes (done_rows d rs) = held_bytes rs"
proof -
  have "live_rows (filter (\<lambda>r. \<not> done_deletes d r) rs) = live_rows rs"
    by (induction rs) (auto simp: live_rows_def done_deletes_def)
  then show "length (live_rows (done_rows d rs)) = length (live_rows rs)"
    and "held_bytes (done_rows d rs) = held_bytes rs"
    using live_rows_update_same [of "filter (\<lambda>r. \<not> done_deletes d r) rs"
        "\<lambda>r. r_message_id r = d_message_id d" "done_row d"]
    by (simp_all add: done_rows_def held_bytes_def)
qed

lemma done_rows_absent:
  "d_message_id d \<notin> r_message_id ` set rs \<Longrightarrow> done_rows d rs = rs"
  unfolding done_rows_def
  by (subst filter_True) (force simp: done_deletes_def, rule update_where_none, force)

text \<open>A list whose only row under an id is known: the statements the loop may run on it.\<close>

lemma done_rows_cases:
  assumes dist: "distinct (map r_message_id rs)" and r: "r \<in> set rs" "r_message_id r = d_message_id d"
  shows "done_deletes d r \<Longrightarrow> done_rows d rs = filter (\<lambda>r. r_message_id r \<noteq> d_message_id d) rs"
    and "\<not> done_deletes d r \<Longrightarrow> f r = done_row d r \<Longrightarrow>
         done_rows d rs = update_where (\<lambda>r. r_message_id r = d_message_id d) f rs"
proof -
  have uniq: "x = r" if "x \<in> set rs" "r_message_id x = d_message_id d" for x
    using distinct_key_unique [OF dist] that r by simp
  show "done_rows d rs = filter (\<lambda>r. r_message_id r \<noteq> d_message_id d) rs" if "done_deletes d r"
  proof -
    have "filter (\<lambda>r. \<not> done_deletes d r) rs = filter (\<lambda>r. r_message_id r \<noteq> d_message_id d) rs"
      using that uniq by (intro filter_cong) (auto simp: done_deletes_def)
    then show ?thesis unfolding done_rows_def by (simp, intro update_where_none) simp
  qed
  show "done_rows d rs = update_where (\<lambda>r. r_message_id r = d_message_id d) f rs"
    if "\<not> done_deletes d r" and f: "f r = done_row d r"
  proof -
    have "filter (\<lambda>r. \<not> done_deletes d r) rs = rs"
      using that uniq by (intro filter_True) (auto simp: done_deletes_def)
    moreover have "update_where (\<lambda>r. r_message_id r = d_message_id d) (done_row d) rs =
        update_where (\<lambda>r. r_message_id r = d_message_id d) f rs"
      unfolding update_where_def
    proof (rule map_cong)
      fix x assume "x \<in> set rs"
      with uniq [of x] f show "(if r_message_id x = d_message_id d then done_row d x else x) =
          (if r_message_id x = d_message_id d then f x else x)" by auto
    qed simp
    ultimately show ?thesis by (simp add: done_rows_def)
  qed
qed

lemma sel_state_version_cases:
  assumes "distinct (map r_message_id (mbrows db))"
  obtains (absent) "sel_state_version i db = []" and "i \<notin> r_message_id ` set (mbrows db)"
  | (held) r where "sel_state_version i db = [[VText (r_state r), VInt (r_version r)]]"
      and "r \<in> set (mbrows db)" and "r_message_id r = i"
  using assms by (rule filter_id_cases [of _ i]) (auto simp: sel_state_version_def intro: that)

text \<open>One turn of the loop: it fails, or the rows become \<open>done_rows\<close> and it goes on.\<close>

lemma done_loop_step:
  assumes inv: "mailbox_inv db" and ok: "done_ok d"
  obtains (failed) e db' where "same_store db db'" and "done_loop (d # ds) n db = (Inl e, db')"
  | (goes) m db' where "mbrows db' = done_rows d (mbrows db)" and "last_seq db' = last_seq db"
      and "counters_row db' = counters_row db" and "done_loop (d # ds) n db = done_loop ds m db'"
proof (cases rule: query_cases [of "[ROWS]" "sel_state_version (d_message_id d)" db])
  case (failed e)
  then show thesis by (intro that(1) [of "spend_fault db" e]) simp_all
next
  case ran
  let ?db1 = "spend_fault db" and ?i = "d_message_id d"
  have dist: "distinct (map r_message_id (mbrows db))" using inv by (rule rows_okD)
  then have "distinct (map r_message_id (mbrows ?db1))" by simp
  then show thesis
  proof (cases rule: sel_state_version_cases [where i = ?i])
    case absent
    with ran show thesis by (intro that(2) [of ?db1 n]) (simp_all add: done_rows_absent)
  next
    case (held r)
    then have r: "r \<in> set (mbrows db)" "r_message_id r = ?i" by simp_all
    have v: "i64_of_u64 (d_version d) = int (d_version d)" using ok by (simp add: done_ok_def)
    have le: "u64_of_i64_clamped (r_version r) \<le> d_version d \<longleftrightarrow> r_version r \<le> int (d_version d)"
      by (auto simp: u64_of_i64_clamped_def)
    define w where "w =
       (if r_state r = acknowledged \<and> (d_collision d \<or> r_version r \<le> int (d_version d))
        then del_row ?i else if d_collision d then upd_row mark_collision ?i
        else if r_version r \<le> int (d_version d) then upd_row (mark_archived (int (d_version d))) ?i
        else upd_row (mark_older (int (d_version d))) ?i)"
    have w: "w (spend_fault ?db1) = Inr ((spend_fault ?db1)\<lparr>mbrows := done_rows d (mbrows db)\<rparr>)"
      using done_rows_cases(1) [where d = d, OF dist r]
        done_rows_cases(2) [where d = d and f = mark_collision, OF dist r]
        done_rows_cases(2) [where d = d and f = "mark_archived (int (d_version d))", OF dist r]
        done_rows_cases(2) [where d = d and f = "mark_older (int (d_version d))", OF dist r] r
      by (simp add: w_def del_row_def upd_row_def done_deletes_def done_row_def)
    have unfold: "done_loop (d # ds) n db =
        andThen (exec [ROWS] w ?db1) (\<lambda>_. done_loop ds (n + 1))"
      using ran held(1) by (simp add: w_def v le text_or_empty_def Let_def cong: if_cong)
    show thesis
    proof (cases rule: exec_cases [of "[ROWS]" w ?db1])
      case (failed e)
      with unfold show thesis by (intro that(1) [of "spend_fault ?db1" e]) simp_all
    next
      case (ran db2)
      with unfold w show thesis by (intro that(2) [of db2 "n + 1"]) auto
    qed
  qed
qed

text \<open>The rows after a list of confirmations.\<close>

lemma done_loop_inv:
  "mailbox_inv db \<Longrightarrow> list_all done_ok ds \<Longrightarrow> mailbox_inv (snd (done_loop ds n db))"
proof (induction ds arbitrary: n db)
  case (Cons d ds)
  from Cons.prems(1) Cons.prems(2) have "done_ok d" by simp
  with Cons.prems(1) show ?case
  proof (cases rule: done_loop_step [where ds = ds and n = n])
    case (failed e db')
    with Cons.prems show ?thesis by (simp add: same_storeD del: done_loop.simps)
  next
    case (goes m db')
    with Cons.prems show ?thesis by (simp add: Cons.IH done_rows_ok del: done_loop.simps)
  qed
qed simp

lemma archive_done_inv [inv_intros]:
  "mailbox_inv db \<Longrightarrow> list_all done_ok ds \<Longrightarrow> mailbox_inv (snd (archive_done ds db))"
  by (simp add: archive_done_def done_loop_inv)

lemma done_loop_effect:
  assumes "done_loop ds n db = (Inr m, db')" and "mailbox_inv db" and "list_all done_ok ds"
  shows "mbrows db' = fold done_rows ds (mbrows db) \<and> last_seq db' = last_seq db \<and>
         counters_row db' = counters_row db"
  using assms
proof (induction ds arbitrary: n db)
  case (Cons d ds)
  from Cons.prems(3) have "done_ok d" by simp
  with Cons.prems(2) show ?case
  proof (cases rule: done_loop_step [where ds = ds and n = n])
    case (failed e db1)
    with Cons.prems(1) show ?thesis by simp
  next
    case (goes k db1)
    have "mailbox_inv db1" using goes Cons.prems by (simp add: done_rows_ok)
    with Cons.IH [of k db1] Cons.prems goes show ?thesis by simp
  qed
qed simp

lemma archive_done_effect:
  assumes "archive_done ds db = (Inr m, db')" and "mailbox_inv db" and "list_all done_ok ds"
  shows "mbrows db' = fold done_rows ds (mbrows db)" and "counters_row db' = counters_row db"
    and "last_seq db' = last_seq db"
  using done_loop_effect [OF assms(1) [unfolded archive_done_def] assms(2,3)] by simp_all

lemma fold_done_rows_live:
  "length (live_rows (fold done_rows ds rs)) = length (live_rows rs)"
  "held_bytes (fold done_rows ds rs) = held_bytes rs"
  by (induction ds arbitrary: rs) (simp_all add: done_rows_live)

lemma archive_done_counted [inv_intros]:
  "archive_done ds db = (Inr m, db') \<Longrightarrow> mailbox_inv db \<Longrightarrow> list_all done_ok ds \<Longrightarrow> counted b db \<Longrightarrow>
   counted b db'"
  by (simp add: archive_done_effect counted_def fold_done_rows_live)

text \<open>A confirmation, whatever it says, leaves every live row listed as it was.\<close>

definition listed_columns :: "mailbox_row \<Rightarrow> string \<times> string \<times> string option \<times> string \<times> string" where
  "listed_columns r = (r_message_id r, r_sender r, r_body r, r_created_at r, r_updated_at r)"

lemma done_rows_live_columns:
  "map listed_columns (live_rows (done_rows d rs)) = map listed_columns (live_rows rs)"
  by (induction rs)
     (auto simp: done_rows_def live_rows_def done_deletes_def done_row_def listed_columns_def
        mark_collision_def mark_archived_def mark_older_def)

end
