(* ===== verification/Mailbox_Reads.thy ===== *)
theory Mailbox_Reads
  imports Mailbox_Events
begin

section \<open>The mailbox: listing, merge, layout, permissions\<close>

text \<open>
  The reads of the mailbox and their contracts: the listing is a leading run of the box's live
  rows, the held ids and the archive's rows are exactly those stored, the merge with D1's rows
  never lists an id twice and never an id the mailbox holds from D1. Then the layout (making it
  is idempotent), the identity and the permissions copy.
\<close>

subsection \<open>E8: the listing\<close>

definition listed :: "mailbox_row \<Rightarrow> message_db_row" where
  "listed r = \<lparr>m_message_id = Some (r_message_id r), m_body = r_body r, m_sender = Some (r_sender r),
               m_created_at = Some (r_created_at r), m_updated_at = Some (r_updated_at r)\<rparr>"

definition live_in_box :: "string \<Rightarrow> mailbox_row list \<Rightarrow> mailbox_row list" where
  "live_in_box mbox rs = filter (\<lambda>r. r_message_box r = mbox \<and> r_state r = live) rs"

lemma message_db_row_of_listed:
  "message_db_row_of [VText (r_message_id r), opt_val (r_body r), VText (r_sender r),
                      VText (r_created_at r), VText (r_updated_at r)] = listed r"
  by (simp add: message_db_row_of_def listed_def)

lemma rows_ok_sorted: "rows_ok rs n \<Longrightarrow> sorted (map r_seq rs)"
  using rows_okD(2) strict_sorted_imp_sorted by blast

lemma box_rows_eq:
  assumes "mailbox_inv db"
  shows "box_rows mbox db = live_in_box mbox (mbrows db)"
proof -
  have "sorted (map r_seq (live_in_box mbox (mbrows db)))"
    unfolding live_in_box_def using rows_ok_filter [OF assms] by (rule rows_ok_sorted)
  then show ?thesis by (simp add: box_rows_def live_in_box_def sort_key_id_if_sorted)
qed

lemma list_Inr:
  assumes "list_mbx mbox limit inline_bytes db = (Inr out, db')" and "mailbox_inv db"
    and "limit < 2 ^ 63" and "inline_bytes < 2 ^ 63"
  shows "out = map listed (within_budget (int inline_bytes) r_body_bytes
                 (take limit (live_in_box mbox (mbrows db))))"
    and "db' = spend_fault db"
proof -
  have "list_mbx mbox limit inline_bytes db =
      andThen (query [ROWS, LISTING_INDEX] (MAILBOX_LIST_SQL mbox (int limit) (int inline_bytes)) db)
       (\<lambda>rows db. (Inr (map message_db_row_of rows), db))"
    using assms(3,4) by (simp add: list_mbx_def)
  with assms(1) have "out = map message_db_row_of
        (MAILBOX_LIST_SQL mbox (int limit) (int inline_bytes) (spend_fault db)) \<and> db' = spend_fault db"
    by (auto elim!: andThen_InrE dest!: query_Inr)
  moreover have "box_rows mbox (spend_fault db) = live_in_box mbox (mbrows db)"
    using box_rows_eq [of "spend_fault db" mbox] assms(2) by simp
  ultimately show "out = map listed (within_budget (int inline_bytes) r_body_bytes
                 (take limit (live_in_box mbox (mbrows db))))" and "db' = spend_fault db"
    by (simp_all add: MAILBOX_LIST_SQL_def message_db_row_of_listed o_def)
qed

lemma list_state [simp]: "snd (list_mbx mbox limit inline_bytes db) = spend_fault db"
  by (cases rule: query_cases [of "[ROWS, LISTING_INDEX]"
        "MAILBOX_LIST_SQL mbox (i64_of_u64 limit) (i64_of_u64 inline_bytes)" db])
     (simp_all add: list_mbx_def)

text \<open>A live row's body is what it counts, so the budget bounds the text listed.\<close>

definition body_len :: "message_db_row \<Rightarrow> nat" where
  "body_len m = (case m_body m of Some b \<Rightarrow> length b | None \<Rightarrow> 0)"

lemma live_row_body:
  "row_ok r \<Longrightarrow> r_state r = live \<Longrightarrow> r_body_bytes r = int (body_len (listed r))"
  by (auto simp: row_ok_def body_len_def listed_def split: option.splits)

lemma sum_body_len:
  assumes "\<And>r. r \<in> set rs \<Longrightarrow> row_ok r \<and> r_state r = live"
  shows "sum_list (map r_body_bytes rs) = int (sum_list (map (body_len \<circ> listed) rs))"
  using assms by (induction rs) (auto simp: live_row_body)

lemma list_prefix:
  assumes "list_mbx mbox limit inline_bytes db = (Inr out, db')" and inv: "mailbox_inv db"
    and "limit < 2 ^ 63" and "inline_bytes < 2 ^ 63"
  obtains k where "out = map listed (take k (live_in_box mbox (mbrows db)))" and "k \<le> limit"
    and "sum_list (map body_len out) \<le> inline_bytes"
    and "k < limit \<Longrightarrow> k < length (live_in_box mbox (mbrows db)) \<Longrightarrow>
         inline_bytes < sum_list (map (body_len \<circ> listed) (take (Suc k) (live_in_box mbox (mbrows db))))"
proof -
  let ?rs = "live_in_box mbox (mbrows db)"
  let ?ts = "take limit ?rs"
  have ok: "row_ok r \<and> r_state r = live" if "r \<in> set ?rs" for r
    using that rows_okD(3) [OF inv] by (auto simp: live_in_box_def)
  have "\<forall>r\<in>set ?ts. 0 \<le> r_body_bytes r"
    using ok by (auto dest!: in_set_takeD row_ok_bytes)
  from within_budget_prefix [OF this, of "int inline_bytes"] obtain k where
    k: "within_budget (int inline_bytes) r_body_bytes ?ts = take k ?ts"
    "sum_list (map r_body_bytes (take k ?ts)) \<le> int inline_bytes"
    "k < length ?ts \<longrightarrow> int inline_bytes < sum_list (map r_body_bytes (take (Suc k) ?ts))"
    by auto
  let ?k = "min k limit"
  have t: "take k ?ts = take ?k ?rs" by (simp add: min.commute)
  have out: "out = map listed (take ?k ?rs)" using list_Inr(1) [OF assms] k(1) t by simp
  have sums: "sum_list (map r_body_bytes (take j ?rs)) = int (sum_list (map (body_len \<circ> listed) (take j ?rs)))" for j
    by (rule sum_body_len) (use ok in \<open>auto dest: in_set_takeD\<close>)
  have "sum_list (map body_len out) \<le> inline_bytes"
    using k(2) sums [of ?k] by (simp add: out t o_def)
  moreover have "inline_bytes < sum_list (map (body_len \<circ> listed) (take (Suc ?k) ?rs))"
    if "?k < limit" "?k < length ?rs"
    using k(3) that sums [of "Suc k"] by (auto simp: min_def split: if_splits)
  ultimately show thesis using out by (intro that [of ?k]) auto
qed

subsection \<open>The ids held and the archive's rows\<close>

lemma sel_ids_in_ids:
  "set (List.map_filter (\<lambda>r. val_text (r ! 0)) (sel_ids_in ids db)) =
   set ids \<inter> r_message_id ` set (mbrows db)"
  by (force simp: sel_ids_in_def List.map_filter_def)

lemma held_loop_state: "same_store db (snd (held_loop cs held db))"
proof (induction cs arbitrary: held db)
  case (Cons c cs)
  show ?case
  proof (cases "c = []")
    case False
    then show ?thesis
      by (cases rule: query_cases [of "[ROWS]" "sel_ids_in c" db])
         (auto intro: same_store_trans [OF same_store_spend Cons.IH])
  qed (simp add: Cons.IH)
qed simp

lemma held_loop_Inr:
  "held_loop cs held db = (Inr out, db') \<Longrightarrow>
   out = held \<union> (\<Union>c\<in>set cs. set c) \<inter> r_message_id ` set (mbrows db)"
proof (induction cs arbitrary: held db)
  case (Cons c cs)
  show ?case
  proof (cases "c = []")
    case True
    with Cons show ?thesis by simp
  next
    case False
    with Cons.prems obtain rows db1 where q: "query [ROWS] (sel_ids_in c) db = (Inr rows, db1)"
      and rest: "held_loop cs (held \<union> set (List.map_filter (\<lambda>r. val_text (r ! 0)) rows)) db1 = (Inr out, db')"
      by (auto elim: andThen_InrE)
    from query_Inr [OF q] have "mbrows db1 = mbrows db" "rows = sel_ids_in c (spend_fault db)" by auto
    then show ?thesis using Cons.IH [OF rest] by (auto simp: sel_ids_in_ids)
  qed
qed simp

lemma held_ids_Inr:
  assumes "held_ids ids db = (Inr out, db')"
  shows "out = {i \<in> set ids. held_id i (mbrows db)}" and "same_store db db'"
  using held_loop_Inr [OF assms [unfolded held_ids_def]] held_loop_state [of db "chunks 90 ids" "{}"]
    assms set_chunks [of 90 ids]
  by (auto simp: held_id_def held_ids_def)

lemma held_ids_state: "same_store db (snd (held_ids ids db))"
  by (simp add: held_ids_def held_loop_state)

definition archived_view :: "mailbox_row \<Rightarrow> archive_row_rec" where
  "archived_view r = archive_row (archive_row_columns r)"

lemma archive_rows_loop_state: "same_store db (snd (archive_rows_loop cs out db))"
proof (induction cs arbitrary: out db)
  case (Cons c cs)
  show ?case
  proof (cases "c = []")
    case False
    then show ?thesis
      by (cases rule: query_cases [of "[ROWS]" "sel_archive_in c" db])
         (auto intro: same_store_trans [OF same_store_spend Cons.IH])
  qed (simp add: Cons.IH)
qed simp

lemma archive_rows_loop_Inr:
  "archive_rows_loop cs out db = (Inr out', db') \<Longrightarrow>
   set out' = set out \<union> archived_view ` {r \<in> set (mbrows db). r_message_id r \<in> (\<Union>c\<in>set cs. set c)}"
proof (induction cs arbitrary: out db)
  case (Cons c cs)
  show ?case
  proof (cases "c = []")
    case True
    with Cons show ?thesis by simp
  next
    case False
    with Cons.prems obtain rows db1 where q: "query [ROWS] (sel_archive_in c) db = (Inr rows, db1)"
      and rest: "archive_rows_loop cs (out @ map archive_row rows) db1 = (Inr out', db')"
      by (auto elim: andThen_InrE)
    from query_Inr [OF q] have db1: "mbrows db1 = mbrows db" "rows = sel_archive_in c (spend_fault db)"
      by auto
    then have "set (map archive_row rows) = archived_view ` {r \<in> set (mbrows db). r_message_id r \<in> set c}"
      by (auto simp: sel_archive_in_def archived_view_def image_image)
    then show ?thesis using Cons.IH [OF rest] db1 by auto
  qed
qed simp

lemma archive_rows_Inr:
  assumes "archive_rows ids db = (Inr out, db')"
  shows "set out = archived_view ` {r \<in> set (mbrows db). r_message_id r \<in> set ids}"
    and "same_store db db'"
  using archive_rows_loop_Inr [OF assms [unfolded archive_rows_def]]
    archive_rows_loop_state [of db "chunks 90 ids" "[]"] assms set_chunks [of 90 ids]
  by (auto simp: archive_rows_def)

lemma archive_rows_state: "same_store db (snd (archive_rows ids db))"
  by (simp add: archive_rows_def archive_rows_loop_state)

lemma archived_view_simps [simp]:
  "ar_message_id (archived_view r) = r_message_id r"
  "ar_message_box (archived_view r) = r_message_box r"
  "ar_sender (archived_view r) = r_sender r"
  "ar_body (archived_view r) = r_body r"
  "ar_state (archived_view r) = r_state r"
  "ar_version (archived_view r) = u64_of_i64_clamped (r_version r)"
  "ar_created_at (archived_view r) = r_created_at r"
  by (simp_all add: archived_view_def archive_row_def archive_row_columns_def text_or_empty_def)

subsection \<open>The merge\<close>

text \<open>The rows of a list, each id at its earliest place; a row without an id is kept.\<close>

fun uniq_rows :: "string set \<Rightarrow> message_db_row list \<Rightarrow> message_db_row list" where
  "uniq_rows ids [] = []"
| "uniq_rows ids (r # rs) =
     (case m_message_id r of
        None \<Rightarrow> r # uniq_rows ids rs
      | Some i \<Rightarrow> if i \<in> ids then uniq_rows ids rs else r # uniq_rows (insert i ids) rs)"

definition row_ids :: "message_db_row list \<Rightarrow> string list" where
  "row_ids rs = List.map_filter m_message_id rs"

lemma row_ids_simps [simp]:
  "row_ids [] = []"
  "row_ids (r # rs) = (case m_message_id r of Some i \<Rightarrow> i # row_ids rs | None \<Rightarrow> row_ids rs)"
  "row_ids (xs @ ys) = row_ids xs @ row_ids ys"
  by (simp_all add: row_ids_def List.map_filter_def split: option.split)

lemma set_row_ids: "i \<in> set (row_ids rs) \<longleftrightarrow> (\<exists>r\<in>set rs. m_message_id r = Some i)"
  by (induction rs) (auto split: option.splits)

lemma uniq_rows_ids: "set (row_ids (uniq_rows ids rs)) = set (row_ids rs) - ids"
  by (induction rs arbitrary: ids) (auto split: option.splits)

lemma distinct_uniq_rows: "distinct (row_ids (uniq_rows ids rs))"
  by (induction rs arbitrary: ids) (auto simp: uniq_rows_ids split: option.splits)

lemma uniq_rows_subset: "set (uniq_rows ids rs) \<subseteq> set rs"
  by (induction rs arbitrary: ids) (auto split: option.splits if_splits)

lemma uniq_rows_id: "distinct (row_ids rs) \<Longrightarrow> set (row_ids rs) \<inter> ids = {} \<Longrightarrow> uniq_rows ids rs = rs"
  by (induction rs arbitrary: ids) (auto split: option.splits)

lemma merge_loop_prefix:
  assumes "length out \<le> limit" and "used \<le> inline_bytes"
  shows "\<exists>k. merge_loop rs limit inline_bytes out used ids = out @ take k (uniq_rows ids rs) \<and>
             length out + length (take k (uniq_rows ids rs)) \<le> limit \<and>
             used + sum_list (map body_len (take k (uniq_rows ids rs))) \<le> inline_bytes \<and>
             (k < length (uniq_rows ids rs) \<longrightarrow> length out + k < limit \<longrightarrow>
               inline_bytes < used + sum_list (map body_len (take (Suc k) (uniq_rows ids rs))))"
  using assms
proof (induction rs arbitrary: out used ids)
  case (Cons r rs)
  let ?ids' = "case m_message_id r of Some i \<Rightarrow> insert i ids | None \<Rightarrow> ids"
  show ?case
  proof (cases "limit \<le> length out")
    case True
    with Cons.prems show ?thesis by (intro exI [of _ 0]) simp
  next
    case room: False
    show ?thesis
    proof (cases "case m_message_id r of Some i \<Rightarrow> i \<in> ids | None \<Rightarrow> False")
      case True
      then have u: "uniq_rows ids (r # rs) = uniq_rows ids rs"
        and "merge_loop (r # rs) limit inline_bytes out used ids = merge_loop rs limit inline_bytes out used ids"
        using room by (auto split: option.splits)
      with Cons.IH [OF Cons.prems, of ids] show ?thesis by simp
    next
      case fresh: False
      then have u: "uniq_rows ids (r # rs) = r # uniq_rows ?ids' rs" by (auto split: option.splits)
      show ?thesis
      proof (cases "inline_bytes < used + body_len r")
        case True
        with room fresh u Cons.prems show ?thesis
          by (intro exI [of _ 0]) (simp add: body_len_def Let_def)
      next
        case False
        then have "merge_loop (r # rs) limit inline_bytes out used ids =
            merge_loop rs limit inline_bytes (out @ [r]) (used + body_len r) ?ids'"
          using room fresh by (simp add: body_len_def Let_def)
        moreover obtain k where
          "merge_loop rs limit inline_bytes (out @ [r]) (used + body_len r) ?ids' =
             (out @ [r]) @ take k (uniq_rows ?ids' rs)"
          "length (out @ [r]) + length (take k (uniq_rows ?ids' rs)) \<le> limit"
          "used + body_len r + sum_list (map body_len (take k (uniq_rows ?ids' rs))) \<le> inline_bytes"
          "k < length (uniq_rows ?ids' rs) \<longrightarrow> length (out @ [r]) + k < limit \<longrightarrow>
             inline_bytes < used + body_len r + sum_list (map body_len (take (Suc k) (uniq_rows ?ids' rs)))"
          using Cons.IH [of "out @ [r]" "used + body_len r" ?ids'] room False by auto
        ultimately show ?thesis by (intro exI [of _ "Suc k"])
            (simp add: u add.assoc del: uniq_rows.simps merge_loop.simps)
      qed
    qed
  qed
qed simp

definition not_held :: "string set \<Rightarrow> message_db_row list \<Rightarrow> message_db_row list" where
  "not_held held d1 = filter (\<lambda>r. case m_message_id r of Some i \<Rightarrow> i \<notin> held | None \<Rightarrow> True) d1"

definition merge_candidates ::
  "message_db_row list \<Rightarrow> message_db_row list \<Rightarrow> string set \<Rightarrow> merge_order \<Rightarrow> message_db_row list" where
  "merge_candidates d1 mailbox held order =
     uniq_rows {} (case order of D1First \<Rightarrow> not_held held d1 @ mailbox
                   | MailboxFirst \<Rightarrow> mailbox @ not_held held d1)"

lemma merge_prefix:
  "\<exists>k. merge_mbx d1 mailbox held order limit inline_bytes =
         take k (merge_candidates d1 mailbox held order) \<and>
       length (take k (merge_candidates d1 mailbox held order)) \<le> limit \<and>
       sum_list (map body_len (take k (merge_candidates d1 mailbox held order))) \<le> inline_bytes \<and>
       (k < length (merge_candidates d1 mailbox held order) \<longrightarrow> k < limit \<longrightarrow>
         inline_bytes < sum_list (map body_len (take (Suc k) (merge_candidates d1 mailbox held order))))"
  using merge_loop_prefix [of "[]" limit 0 inline_bytes
      "case order of D1First \<Rightarrow> not_held held d1 @ mailbox | MailboxFirst \<Rightarrow> mailbox @ not_held held d1" "{}"]
  by (cases order) (simp_all add: merge_mbx_def merge_candidates_def not_held_def Let_def)

lemma row_ids_take_distinct: "distinct (row_ids rs) \<Longrightarrow> distinct (row_ids (take k rs))"
  using append_take_drop_id [of k rs] by (metis distinct_append row_ids_simps(3))

subsection \<open>The layout\<close>

definition all_made :: "mailbox_db \<Rightarrow> bool" where
  "all_made db \<longleftrightarrow> {ROWS, LISTING_INDEX, OWED_INDEX, COUNTERS, META, PERMS} \<subseteq> set (made db) \<and>
                  counters_row db \<noteq> None"

lemmas layout_defs = ensure_schema_def SCHEMA_def CREATE_ROWS_def CREATE_LISTING_INDEX_def
  CREATE_OWED_INDEX_def CREATE_COUNTERS_def SEED_COUNTERS_def CREATE_META_def CREATE_PERMISSIONS_def

lemma run_all_Inr_Cons:
  "run_all (s # ss) db = (Inr u, db') \<longleftrightarrow> (\<exists>db1. s db = (Inr (), db1) \<and> run_all ss db1 = (Inr u, db'))"
  by (auto simp: andThen_Inr_iff)

lemma create_Inr:
  assumes "exec needs (create n) db = (Inr u, db')"
  shows "set (made db') = insert n (set (made db))" "mbrows db' = mbrows db"
    "last_seq db' = last_seq db" "counters_row db' = counters_row db"
    "mailbox_meta db' = mailbox_meta db" "perms db' = perms db"
  using exec_Inr [OF assms] by (auto simp: create_def split: if_splits)

lemma seed_Inr:
  assumes "SEED_COUNTERS db = (Inr u, db')"
  shows "made db' = made db" "mbrows db' = mbrows db" "last_seq db' = last_seq db"
    "counters_row db' = Some (case counters_row db of Some c \<Rightarrow> c | None \<Rightarrow> (0, 0))"
    "mailbox_meta db' = mailbox_meta db" "perms db' = perms db"
  using exec_Inr [OF assms [unfolded SEED_COUNTERS_def]] by (auto split: option.splits)

lemma ensure_schema_Inr:
  assumes "ensure_schema db = (Inr u, db')"
  shows "all_made db'" and "mbrows db' = mbrows db" and "last_seq db' = last_seq db"
    and "counters_row db' = Some (case counters_row db of Some c \<Rightarrow> c | None \<Rightarrow> (0, 0))"
    and "mailbox_meta db' = mailbox_meta db" and "perms db' = perms db"
proof -
  obtain d1 d2 d3 d4 d5 d6 where steps:
    "exec [] (create ROWS) db = (Inr (), d1)" "exec [ROWS] (create LISTING_INDEX) d1 = (Inr (), d2)"
    "exec [ROWS] (create OWED_INDEX) d2 = (Inr (), d3)" "exec [] (create COUNTERS) d3 = (Inr (), d4)"
    "SEED_COUNTERS d4 = (Inr (), d5)" "exec [] (create META) d5 = (Inr (), d6)"
    "exec [] (create PERMS) d6 = (Inr (), db')"
    using assms
    by (auto simp only: ensure_schema_def SCHEMA_def run_all_Inr_Cons run_all.simps(1) prod.inject
        sum.inject CREATE_ROWS_def CREATE_LISTING_INDEX_def CREATE_OWED_INDEX_def
        CREATE_COUNTERS_def CREATE_META_def CREATE_PERMISSIONS_def)
  note eqs = steps(1-4,6-7) [THEN create_Inr(1)] steps(1-4,6-7) [THEN create_Inr(2)]
    steps(1-4,6-7) [THEN create_Inr(3)] steps(1-4,6-7) [THEN create_Inr(4)]
    steps(1-4,6-7) [THEN create_Inr(5)] steps(1-4,6-7) [THEN create_Inr(6)] seed_Inr [OF steps(5)]
  show "all_made db'" by (simp add: all_made_def eqs split: option.split)
  show "mbrows db' = mbrows db" "last_seq db' = last_seq db"
    "counters_row db' = Some (case counters_row db of Some c \<Rightarrow> c | None \<Rightarrow> (0, 0))"
    "mailbox_meta db' = mailbox_meta db" "perms db' = perms db"
    by (simp_all add: eqs)
qed

lemma run_all_inv:
  assumes "\<And>s db. s \<in> set ss \<Longrightarrow> mailbox_inv db \<Longrightarrow> mailbox_inv (snd (s db))"
  shows "mailbox_inv db \<Longrightarrow> mailbox_inv (snd (run_all ss db))"
  using assms
proof (induction ss arbitrary: db)
  case (Cons s ss)
  have "mailbox_inv (snd (andThen (s db) (\<lambda>_. run_all ss)))"
    by (rule andThen_rows_ok) (use Cons in auto)
  then show ?case by simp
qed simp

lemma create_state_inv: "mailbox_inv db \<Longrightarrow> mailbox_inv (snd (exec needs (create n) db))"
  by (rule exec_rows_ok) (auto simp: create_def)

lemma seed_state_inv: "mailbox_inv db \<Longrightarrow> mailbox_inv (snd (SEED_COUNTERS db))"
  unfolding SEED_COUNTERS_def by (rule exec_rows_ok) (auto split: option.splits)

lemma ensure_schema_inv [inv_intros]: "mailbox_inv db \<Longrightarrow> mailbox_inv (snd (ensure_schema db))"
  unfolding ensure_schema_def
  by (rule run_all_inv)
     (auto simp: SCHEMA_def CREATE_ROWS_def CREATE_LISTING_INDEX_def CREATE_OWED_INDEX_def
       CREATE_COUNTERS_def CREATE_META_def CREATE_PERMISSIONS_def create_state_inv seed_state_inv)

text \<open>On an empty hub the layout starts with exact counters.\<close>

lemma ensure_schema_counted [inv_intros]:
  assumes "ensure_schema db = (Inr u, db')" and "mbrows db = []" and "counters_row db = None"
  shows "counted b db'"
  using assms by (simp add: counted_def ensure_schema_Inr live_rows_def held_bytes_def)

lemma ensure_schema_keeps_counted:
  assumes "ensure_schema db = (Inr u, db')" and "counted b db"
  shows "counted b db'"
  using assms by (auto simp: counted_def ensure_schema_Inr)

subsection \<open>The identity and the permissions copy\<close>

lemma identity_of_Inr:
  assumes "identity_of db = (Inr found, db')"
  shows "found = map_of (mailbox_meta db) ''identity''" and "db' = spend_fault db"
proof -
  have "map_of ms ''identity'' =
      (case map (\<lambda>(_, v). [VText v]) (filter (\<lambda>(k, _). k = ''identity'') ms) of
         r # _ \<Rightarrow> val_text (r ! 0) | [] \<Rightarrow> None)" for ms
    by (induction ms) auto
  with assms show "found = map_of (mailbox_meta db) ''identity''" and "db' = spend_fault db"
    by (auto simp: identity_of_def sel_identity_def elim!: andThen_InrE dest!: query_Inr)
qed

lemma bind_identity_Inr:
  assumes "bind_identity identity db = (Inr u, db')"
  shows "identity \<noteq> []" and "map_of (mailbox_meta db') ''identity'' = Some identity"
    and "map_of (mailbox_meta db) ''identity'' \<in> {None, Some identity}"
    and "mbrows db' = mbrows db" and "counters_row db' = counters_row db"
    and "last_seq db' = last_seq db" and "made db' = made db"
proof -
  have none: "map_of ms ''identity'' = None \<longleftrightarrow> ''identity'' \<notin> fst ` set ms"
    for ms :: "(string \<times> string) list" by (simp add: map_of_eq_None_iff)
  from assms show ne: "identity \<noteq> []" by (auto simp: bind_identity_def split: if_splits)
  with assms obtain db1 found where
    e: "exec [META] (\<lambda>db. Inr
           (if ''identity'' \<in> fst ` set (mailbox_meta db) then db
            else db\<lparr>mailbox_meta := mailbox_meta db @ [(''identity'', identity)]\<rparr>)) db = (Inr (), db1)"
    and i: "identity_of db1 = (Inr found, db')" and f: "found = Some identity"
    by (auto simp: bind_identity_def elim!: andThen_InrE split: option.splits if_splits)
  note i' = identity_of_Inr [OF i]
  show "map_of (mailbox_meta db') ''identity'' = Some identity" using i' f by simp
  show "map_of (mailbox_meta db) ''identity'' \<in> {None, Some identity}"
    using exec_Inr [OF e] i' f none [of "mailbox_meta db"]
    by (cases "map_of (mailbox_meta db) ''identity''") (auto split: if_splits)
  show "mbrows db' = mbrows db" "counters_row db' = counters_row db" "last_seq db' = last_seq db"
    "made db' = made db" using exec_Inr [OF e] i' by (auto split: if_splits)
qed

lemma identity_of_state [simp]: "snd (identity_of db) = spend_fault db"
  by (cases rule: query_cases [of "[META]" sel_identity db]) (simp_all add: identity_of_def)

lemma bind_identity_state:
  "mbrows (snd (bind_identity identity db)) = mbrows db \<and>
   last_seq (snd (bind_identity identity db)) = last_seq db \<and>
   counters_row (snd (bind_identity identity db)) = counters_row db"
proof (cases "identity = []")
  case False
  let ?w = "\<lambda>db. Inr (if ''identity'' \<in> fst ` set (mailbox_meta db) then db
            else db\<lparr>mailbox_meta := mailbox_meta db @ [(''identity'', identity)]\<rparr>)"
  show ?thesis
  proof (cases rule: exec_cases [of "[META]" ?w db])
    case (failed e)
    with False show ?thesis by (simp add: bind_identity_def)
  next
    case (ran db1)
    obtain x where x: "identity_of db1 = (x, spend_fault db1)"
      by (metis identity_of_state prod.collapse)
    from ran(1) have "mbrows db1 = mbrows db" "last_seq db1 = last_seq db"
      "counters_row db1 = counters_row db" by (auto split: if_splits)
    with ran(2) False x show ?thesis by (cases x) (simp_all add: bind_identity_def)
  qed
qed (simp add: bind_identity_def)

lemmas bind_identity_rows [simp] =
  bind_identity_state [THEN conjunct1] bind_identity_state [THEN conjunct2, THEN conjunct1]
  bind_identity_state [THEN conjunct2, THEN conjunct2]

lemma keep_permissions_rows [simp]:
  "mbrows (snd (keep_permissions s m f g now db)) = mbrows db"
  "last_seq (snd (keep_permissions s m f g now db)) = last_seq db"
  "counters_row (snd (keep_permissions s m f g now db)) = counters_row db"
  unfolding keep_permissions_def by (rule exec_state; simp; fail)+

lemma forget_permissions_rows [simp]:
  "mbrows (snd (forget_permissions db)) = mbrows db"
  "last_seq (snd (forget_permissions db)) = last_seq db"
  "counters_row (snd (forget_permissions db)) = counters_row db"
  unfolding forget_permissions_def by (rule exec_state; simp; fail)+

lemma permissions_copy_state [simp]: "snd (permissions_copy s m now db) = spend_fault db"
  by (cases rule: query_cases [of "[PERMS]" "sel_perms s m" db]) (simp_all add: permissions_copy_def)

text \<open>A fee that fits an \<open>i32\<close> comes back from the copy as it was kept.\<close>

lemma i32_of_i64_id: "- (2 ^ 31) \<le> i \<Longrightarrow> i < 2 ^ 31 \<Longrightarrow> i32_of_i64 i = i"
  by (simp add: i32_of_i64_def)

lemma sel_perms_keep:
  "sel_perms s m (db\<lparr>perms := filter (\<lambda>p. \<not> (p_sender p = s \<and> p_message_box p = m)) ps @
      [\<lparr>p_sender = s, p_message_box = m, p_recipient_fee = f, p_server_fee = g, p_copied_at = c\<rparr>]\<rparr>)
   = [[VInt f, VInt g, VInt c]]"
  by (simp add: sel_perms_def)

end
