(* ===== verification/Machine.thy ===== *)
theory Machine
  imports Relay_Prelude
begin

section \<open>Machines and what they implement\<close>

text \<open>
  The interface the stateful components share. A machine takes a call in a state and returns an
  error or a reply with the state it left. \<open>reaches\<close> is reachability by calls of any outcome;
  \<open>serves\<close> is a run in which every call was answered, with its calls and replies.

  The locale \<open>kept\<close> is the contract "every call keeps the invariant, even one that fails part
  way"; \<open>refined\<close> extends it with an abstract state and the effect each answered call has on it.
  The lemmas carry the contract of one call to whole runs.
\<close>

inductive reaches ::
  "('c \<Rightarrow> 's \<Rightarrow> ('e, 'r, 's) outcome) \<Rightarrow> ('c \<Rightarrow> bool) \<Rightarrow> 's \<Rightarrow> 's \<Rightarrow> bool"
  for step :: "'c \<Rightarrow> 's \<Rightarrow> ('e, 'r, 's) outcome" and ok :: "'c \<Rightarrow> bool" where
  reaches_refl: "reaches step ok s s"
| reaches_step: "reaches step ok s t \<Longrightarrow> ok c \<Longrightarrow> reaches step ok s (snd (step c t))"

inductive serves ::
  "('c \<Rightarrow> 's \<Rightarrow> ('e, 'r, 's) outcome) \<Rightarrow> ('c \<Rightarrow> bool) \<Rightarrow> 's \<Rightarrow> ('c \<times> 'r) list \<Rightarrow> 's \<Rightarrow> bool"
  for step :: "'c \<Rightarrow> 's \<Rightarrow> ('e, 'r, 's) outcome" and ok :: "'c \<Rightarrow> bool" where
  serves_nil: "serves step ok s [] s"
| serves_snoc: "serves step ok s tr t \<Longrightarrow> ok c \<Longrightarrow> step c t = (Inr r, u) \<Longrightarrow>
    serves step ok s (tr @ [(c, r)]) u"

inductive_cases serves_nilE: "serves step ok s [] t"

lemma serves_reaches: "serves step ok s tr t \<Longrightarrow> reaches step ok s t"
proof (induction rule: serves.induct)
  case (serves_snoc s tr t c r u)
  then show ?case using reaches_step [of step ok s t c] by simp
qed (rule reaches_refl)

lemma reaches_trans: "reaches step ok s t \<Longrightarrow> reaches step ok t u \<Longrightarrow> reaches step ok s u"
  by (rotate_tac, induction rule: reaches.induct) (auto intro: reaches_step)

locale kept =
  fixes step :: "'c \<Rightarrow> 's \<Rightarrow> ('e, 'r, 's) outcome" and ok :: "'c \<Rightarrow> bool" and inv :: "'s \<Rightarrow> bool"
  assumes step_inv: "inv s \<Longrightarrow> ok c \<Longrightarrow> inv (snd (step c s))"
begin

lemma reaches_inv: "reaches step ok s t \<Longrightarrow> inv s \<Longrightarrow> inv t"
  by (induction rule: reaches.induct) (auto intro: step_inv)

lemma serves_inv: "serves step ok s tr t \<Longrightarrow> inv s \<Longrightarrow> inv t"
  by (rule reaches_inv [OF serves_reaches])

end

text \<open>A property only answered calls keep, on top of the invariant.\<close>

locale kept_if_served = kept step ok inv
  for step :: "'c \<Rightarrow> 's \<Rightarrow> ('e, 'r, 's) outcome" and ok and inv +
  fixes good :: "'s \<Rightarrow> bool"
  assumes step_good: "inv s \<Longrightarrow> good s \<Longrightarrow> ok c \<Longrightarrow> step c s = (Inr r, s') \<Longrightarrow> good s'"
begin

lemma serves_good: "serves step ok s tr t \<Longrightarrow> inv s \<Longrightarrow> good s \<Longrightarrow> good t"
proof (induction rule: serves.induct)
  case (serves_snoc s tr t c r u)
  then show ?case using serves_inv step_good by blast
qed

end

locale refined = kept step ok inv
  for step :: "'c \<Rightarrow> 's \<Rightarrow> ('e, 'r, 's) outcome" and ok and inv +
  fixes abs :: "'s \<Rightarrow> 'a" and effect :: "'c \<Rightarrow> 'r \<Rightarrow> 'a \<Rightarrow> 'a"
  assumes step_abs: "inv s \<Longrightarrow> ok c \<Longrightarrow> step c s = (Inr r, s') \<Longrightarrow> abs s' = effect c r (abs s)"
begin

lemma serves_abs:
  "serves step ok s tr t \<Longrightarrow> inv s \<Longrightarrow> abs t = fold (\<lambda>(c, r). effect c r) tr (abs s)"
proof (induction rule: serves.induct)
  case (serves_snoc s tr t c r u)
  then show ?case using serves_inv step_abs [of t c r u] by simp
qed simp

end

end
