(* ===== verification/Mailbox_Correct.thy ===== *)
theory Mailbox_Correct
  imports Mailbox_Reads Machine
begin

section \<open>The mailbox as a machine: what it promises\<close>

text \<open>
  The calls the hub makes on its mailbox as one machine, the abstract inbox it implements (the
  live messages, in order of arrival), and the mailbox's theorems.
\<close>

subsection \<open>The machine\<close>

datatype mailbox_call =
    MakeLayout
  | BindIdentity string
  | InsertRow new_row bool ms
  | AcknowledgeIds "string list" bool ms
  | ReplayOwed ms
  | Confirm "done_rec list"
  | ListBox string nat u64
  | HeldIds "string list"
  | ReadRows "string list"
  | ReadPermissions string string ms
  | KeepPermissions string string int int ms
  | ForgetPermissions

datatype mailbox_reply =
    Nothing
  | RInserted inserted
  | RAcked acked
  | RRows "archive_row_rec list"
  | RChanged nat
  | RListed "message_db_row list"
  | RHeld "string set"
  | RFees "(int \<times> int) option"

definition reply :: "('a \<Rightarrow> mailbox_reply) \<Rightarrow> (string, 'a, mailbox_db) outcome \<Rightarrow>
    (string, mailbox_reply, mailbox_db) outcome" where
  "reply f r = andThen r (\<lambda>a db. (Inr (f a), db))"

fun mailbox_do :: "(ms \<Rightarrow> string) \<Rightarrow> bounds \<Rightarrow> mailbox_call \<Rightarrow> mailbox_reply mbx" where
  "mailbox_do st b MakeLayout db = reply (\<lambda>_. Nothing) (ensure_schema db)"
| "mailbox_do st b (BindIdentity i) db = reply (\<lambda>_. Nothing) (bind_identity i db)"
| "mailbox_do st b (InsertRow row retry now) db = reply RInserted (insert_mbx st row retry now b db)"
| "mailbox_do st b (AcknowledgeIds ids retry now) db = reply RAcked (acknowledge st ids retry now db)"
| "mailbox_do st b (ReplayOwed now) db = reply RRows (take_owed_due now db)"
| "mailbox_do st b (Confirm ds) db = reply RChanged (archive_done ds db)"
| "mailbox_do st b (ListBox mbox limit bytes) db = reply RListed (list_mbx mbox limit bytes db)"
| "mailbox_do st b (HeldIds ids) db = reply RHeld (held_ids ids db)"
| "mailbox_do st b (ReadRows ids) db = reply RRows (archive_rows ids db)"
| "mailbox_do st b (ReadPermissions s m now) db = reply RFees (permissions_copy s m now db)"
| "mailbox_do st b (KeepPermissions s m f g now) db = reply (\<lambda>_. Nothing) (keep_permissions s m f g now db)"
| "mailbox_do st b ForgetPermissions db = reply (\<lambda>_. Nothing) (forget_permissions db)"

fun call_ok :: "mailbox_call \<Rightarrow> bool" where
  "call_ok (Confirm ds) = list_all done_ok ds"
| "call_ok _ = True"

definition fresh_hub :: "string option list \<Rightarrow> mailbox_db" where
  "fresh_hub script =
     \<lparr>made = [], mbrows = [], last_seq = 0, counters_row = None, mailbox_meta = [], perms = [],
      faults = script\<rparr>"

lemma reply_state [simp]: "snd (reply f r) = snd r"
  by (cases r; cases "fst r") (auto simp: reply_def)

lemma reply_Inr: "reply f r = (Inr y, db') \<longleftrightarrow> (\<exists>a. r = (Inr a, db') \<and> y = f a)"
  by (auto simp: reply_def andThen_Inr_iff)

lemma list_spends: "list_mbx mbox limit bytes db = (r, db') \<Longrightarrow> db' = spend_fault db"
  by (metis list_state snd_conv)

lemma copy_spends: "permissions_copy s m now db = (r, db') \<Longrightarrow> db' = spend_fault db"
  by (metis permissions_copy_state snd_conv)

lemma rows_kept:
  "bind_identity i db = (x, db') \<Longrightarrow> mbrows db' = mbrows db \<and> counters_row db' = counters_row db"
  "keep_permissions s m f g now db = (x, db') \<Longrightarrow> mbrows db' = mbrows db \<and> counters_row db' = counters_row db"
  "forget_permissions db = (x, db') \<Longrightarrow> mbrows db' = mbrows db \<and> counters_row db' = counters_row db"
  by (metis bind_identity_rows(1,3) snd_conv, metis keep_permissions_rows(1,3) snd_conv,
      metis forget_permissions_rows(1,3) snd_conv)

lemma mailbox_do_inv:
  assumes "mailbox_inv db" and "call_ok c" and "bound_bytes b < 2 ^ 63"
  shows "mailbox_inv (snd (mailbox_do st b c db))"
  using assms same_storeD(2,3) [OF held_ids_state [of db]] same_storeD(2,3) [OF archive_rows_state [of db]]
  by (cases c) (simp_all add: inv_intros)

lemma mailbox_do_counted:
  assumes "mailbox_inv db" and "counted b db" and "call_ok c" and "bound_bytes b < 2 ^ 63"
    and "mailbox_do st b c db = (Inr r, db')"
  shows "counted b db'"
proof (cases c)
  case MakeLayout
  with assms show ?thesis by (auto simp: reply_Inr intro: ensure_schema_keeps_counted)
next
  case (InsertRow row retry now)
  with assms show ?thesis by (auto simp: reply_Inr intro: insert_counted)
next
  case (AcknowledgeIds ids retry now)
  with assms show ?thesis by (auto simp: reply_Inr intro: acknowledge_counted)
next
  case (ReplayOwed now)
  with assms show ?thesis by (auto simp: reply_Inr intro: take_owed_due_counted)
next
  case (Confirm ds)
  with assms show ?thesis by (auto simp: reply_Inr intro: archive_done_counted)
next
  case (HeldIds ids)
  with assms same_storeD(2,4) [OF held_ids_state [of db ids]] show ?thesis
    by (auto simp: reply_Inr counted_def)
next
  case (ReadRows ids)
  with assms same_storeD(2,4) [OF archive_rows_state [of db ids]] show ?thesis
    by (auto simp: reply_Inr counted_def)
next
  case (BindIdentity i)
  with assms show ?thesis by (auto simp: reply_Inr counted_def dest!: rows_kept)
next
  case (ListBox mbox limit bytes)
  with assms show ?thesis by (auto simp: reply_Inr counted_def dest!: list_spends)
next
  case (ReadPermissions s m now)
  with assms show ?thesis by (auto simp: reply_Inr counted_def dest!: copy_spends)
next
  case (KeepPermissions s m f g now)
  with assms show ?thesis by (auto simp: reply_Inr counted_def dest!: rows_kept)
next
  case ForgetPermissions
  with assms show ?thesis by (auto simp: reply_Inr counted_def dest!: rows_kept)
qed

subsection \<open>The abstract inbox\<close>

type_synonym message = "string \<times> string \<times> string \<times> string option"

definition message_of :: "mailbox_row \<Rightarrow> message" where
  "message_of r = (r_message_id r, r_message_box r, r_sender r, r_body r)"

definition inbox :: "mailbox_db \<Rightarrow> message list" where
  "inbox db = map message_of (live_rows (mbrows db))"

fun inbox_effect :: "mailbox_call \<Rightarrow> mailbox_reply \<Rightarrow> message list \<Rightarrow> message list" where
  "inbox_effect (InsertRow row retry now) (RInserted Stored) q =
     q @ [(n_message_id row, n_message_box row, n_sender row, Some (n_body row))]"
| "inbox_effect (AcknowledgeIds ids retry now) r q = filter (\<lambda>m. fst m \<notin> set ids) q"
| "inbox_effect c r q = q"

lemma inbox_same_store: "same_store db db' \<Longrightarrow> inbox db' = inbox db"
  by (simp add: inbox_def same_storeD)

lemma inbox_insert:
  assumes "insert_mbx st row retry now b db = (Inr r, db')"
  shows "inbox db' = inbox_effect (InsertRow row retry now) (RInserted r) (inbox db)"
  using assms
proof (cases rule: insert_Inr_cases)
  case (held h)
  then show ?thesis by (auto simp: inbox_same_store)
next
  case (full f)
  then show ?thesis by (simp add: inbox_same_store)
next
  case (stored n bts)
  then show ?thesis
    by (simp add: inbox_def live_rows_def message_of_def fresh_row_def)
qed

lemma live_ack_rows:
  "live_rows (ack_rows w now at rs) = filter (\<lambda>r. \<not> w (r_message_id r)) (live_rows rs)"
  by (induction rs) (auto simp: ack_rows_def live_rows_def)

lemma inbox_acknowledge:
  assumes "acknowledge st ids retry now db = (Inr r, db')" and "mailbox_inv db"
  shows "inbox db' = filter (\<lambda>m. fst m \<notin> set ids) (inbox db)"
  using acknowledge_effect(1) [OF assms]
  by (simp add: inbox_def live_ack_rows filter_map o_def message_of_def)

lemma message_renew: "map message_of (live_rows (renew_rows is now rs)) = map message_of (live_rows rs)"
  by (induction rs) (auto simp: renew_rows_def live_rows_def message_of_def)

lemma message_done: "map message_of (live_rows (done_rows d rs)) = map message_of (live_rows rs)"
  by (induction rs)
     (auto simp: done_rows_def live_rows_def done_deletes_def done_row_def message_of_def
        mark_collision_def mark_archived_def mark_older_def)

lemma message_dones: "map message_of (live_rows (fold done_rows ds rs)) = map message_of (live_rows rs)"
  by (induction ds arbitrary: rs) (simp_all add: message_done)

lemma mailbox_do_inbox:
  assumes "mailbox_inv db" and "call_ok c" and "mailbox_do st b c db = (Inr r, db')"
  shows "inbox db' = inbox_effect c r (inbox db)"
proof (cases c)
  case (InsertRow row retry now)
  with assms show ?thesis by (auto simp: reply_Inr inbox_insert simp del: inbox_effect.simps)
next
  case (AcknowledgeIds ids retry now)
  with assms show ?thesis by (auto simp: reply_Inr inbox_acknowledge)
next
  case (ReplayOwed now)
  with assms show ?thesis
    by (auto simp: reply_Inr inbox_def message_renew dest!: take_owed_due_effect)
next
  case (Confirm ds)
  with assms archive_done_effect(1) [of ds db] show ?thesis
    by (fastforce simp: reply_Inr inbox_def message_dones)
next
  case MakeLayout
  with assms show ?thesis by (auto simp: reply_Inr inbox_def ensure_schema_Inr)
next
  case (HeldIds ids)
  with assms held_ids_state [of db ids] show ?thesis by (auto simp: reply_Inr inbox_same_store)
next
  case (ReadRows ids)
  with assms archive_rows_state [of db ids] show ?thesis by (auto simp: reply_Inr inbox_same_store)
next
  case (BindIdentity i)
  with assms show ?thesis by (auto simp: reply_Inr inbox_def dest!: rows_kept)
next
  case (ListBox mbox limit bytes)
  with assms show ?thesis by (auto simp: reply_Inr inbox_def dest!: list_spends)
next
  case (ReadPermissions s m now)
  with assms show ?thesis by (auto simp: reply_Inr inbox_def dest!: copy_spends)
next
  case (KeepPermissions s m f g now)
  with assms show ?thesis by (auto simp: reply_Inr inbox_def dest!: rows_kept)
next
  case ForgetPermissions
  with assms show ?thesis by (auto simp: reply_Inr inbox_def dest!: rows_kept)
qed

text \<open>The mailbox under the ruled bound is such a machine.\<close>

lemma RULED_small: "bound_bytes RULED < 2 ^ 63"
  by (simp add: RULED_def MAILBOX_BYTES_LIMIT_def)

interpretation mailbox: kept_if_served "mailbox_do st RULED" call_ok mailbox_inv "counted RULED"
  for st
  by unfold_locales (use RULED_small in \<open>auto intro: mailbox_do_inv mailbox_do_counted\<close>)

interpretation mailbox: refined "mailbox_do st RULED" call_ok mailbox_inv inbox inbox_effect
  for st
  by unfold_locales (auto intro: mailbox_do_inbox)

end
