(* ===== verification/Mailbox_Theorems.thy ===== *)
theory Mailbox_Theorems
  imports Mailbox_Correct
begin

section \<open>The mailbox's theorems\<close>

text \<open>
  The properties of the mailbox: the invariant under every outcome, the exact counters, the
  refinement of the abstract inbox, and each event's behaviour on a database that answers.
\<close>

subsection \<open>Whole runs\<close>

lemma fresh_hub_inv [simp]: "mailbox_inv (fresh_hub script)"
  by (simp add: fresh_hub_def rows_ok_def)

lemma laid_out_counted:
  assumes "ensure_schema (fresh_hub script) = (Inr (), db)"
  shows "counted RULED db"
  using assms by (rule ensure_schema_counted) (simp_all add: fresh_hub_def)

lemma laid_out_inv:
  assumes "ensure_schema (fresh_hub script) = (Inr (), db)"
  shows "mailbox_inv db" and "inbox db = []"
  using ensure_schema_inv [OF fresh_hub_inv [of script]] ensure_schema_Inr(2) [OF assms] assms
  by (simp_all add: fresh_hub_def inbox_def live_rows_def)

text \<open>C1 (mailbox_rows_always_ok). Whatever the hub asks of its mailbox, in any order, and whichever
  statements the storage fails, the rows stay well-formed: message ids are unique, the sequence
  numbers increase, a live row is at version 1 with its body and its length, an acknowledged row
  is at version 2, is owed to the archive, and has dropped its body only if the archive holds a
  version of it, and a row that is not owed is archived at its version or collides in D1.\<close>

theorem mailbox_rows_always_ok:
  assumes "reaches (mailbox_do st RULED) call_ok (fresh_hub script) db"
  shows "mailbox_inv db"
  using mailbox.reaches_inv [OF assms] by simp

text \<open>C2 (mailbox_counters_exact). From a laid-out hub, after every run of calls that were answered,
  the two counters are the number of live rows and the sum of their body lengths, and neither
  passes the ruled bound.\<close>

theorem mailbox_counters_exact:
  assumes "ensure_schema (fresh_hub script) = (Inr (), db0)"
    and "serves (mailbox_do st RULED) call_ok db0 tr db"
  shows "counted RULED db"
  using mailbox.serves_good [OF assms(2) laid_out_inv(1) laid_out_counted] assms(1) by simp

text \<open>C3 (mailbox_implements_inbox). From a laid-out hub, after every run of answered calls the live
  messages are, in order of arrival, those whose insert was answered \<open>Stored\<close> and that no later
  acknowledgment named; no other call adds, drops, alters or reorders one.\<close>

theorem mailbox_implements_inbox:
  assumes "ensure_schema (fresh_hub script) = (Inr (), db0)"
    and "serves (mailbox_do st RULED) call_ok db0 tr db"
  shows "inbox db = fold (\<lambda>(c, r). inbox_effect c r) tr []"
  using mailbox.serves_abs [OF assms(2) laid_out_inv(1)] laid_out_inv(2) assms(1) by simp

subsection \<open>Each call on a database that answers\<close>

lemma ready_simps [simp]:
  "ready (db\<lparr>mbrows := rs\<rparr>) = ready db" "ready (db\<lparr>last_seq := n\<rparr>) = ready db"
  "ready (db\<lparr>counters_row := c\<rparr>) = ready db" "ready (db\<lparr>perms := ps\<rparr>) = ready db"
  by (simp_all add: ready_def)

lemma ack_loop_ready:
  "ready db \<Longrightarrow> \<exists>out' db'. ack_loop ids retry now at seen out db = (Inr out', db') \<and> ready db'"
proof (induction ids arbitrary: seen out db)
  case (Cons i ids)
  then show ?case
    by (auto simp: upd_ack_def move_counters_def split: list.split option.split)
qed simp

lemma acknowledge_ready:
  "ready db \<Longrightarrow> \<exists>out db'. acknowledge st ids retry now db = (Inr out, db') \<and> ready db'"
  by (simp add: acknowledge_def ack_loop_ready)

lemma renew_loop_ready: "ready db \<Longrightarrow> \<exists>db'. renew_loop is now db = (Inr (), db') \<and> ready db'"
  by (induction "is" arbitrary: db) (auto simp: upd_enqueued_def)

lemma take_owed_due_ready:
  assumes "ready db"
  shows "\<exists>out db'. take_owed_due now db = (Inr out, db') \<and> ready db'"
proof -
  let ?rows = "map archive_row (sel_owed_due (i64_of_u64 (saturating_sub now REPLAY_AFTER_MS))
                 (i64_of_u64 REPLAY_PER_REQUEST) db)"
  obtain db' where "renew_loop (map ar_message_id ?rows) (i64_of_u64 now) db = (Inr (), db')" "ready db'"
    using renew_loop_ready [OF assms] by blast
  with assms show ?thesis by (simp add: take_owed_due_def Let_def)
qed

lemma done_loop_ready: "ready db \<Longrightarrow> \<exists>m db'. done_loop ds n db = (Inr m, db') \<and> ready db'"
proof (induction ds arbitrary: n db)
  case (Cons d ds)
  then show ?case by (auto simp: del_row_def upd_row_def Let_def split: list.split)
qed simp

lemma archive_done_ready: "ready db \<Longrightarrow> \<exists>m db'. archive_done ds db = (Inr m, db') \<and> ready db'"
  by (simp add: archive_done_def done_loop_ready)

text \<open>The insert as its four events say it, over the live rows instead of the counters.\<close>

definition insert_spec ::
  "(ms \<Rightarrow> string) \<Rightarrow> new_row \<Rightarrow> bool \<Rightarrow> ms \<Rightarrow> bounds \<Rightarrow> mailbox_row list \<Rightarrow> nat \<Rightarrow>
     inserted \<times> mailbox_row list" where
  "insert_spec st row retry now b rs n =
     (case find (\<lambda>r. r_message_id r = n_message_id row) rs of
        Some h \<Rightarrow>
          (if retry \<and> r_sender h = n_sender row \<and> r_message_box h = n_message_box row \<and>
              r_body h = Some (n_body row) then Retried else Duplicate, rs)
      | None \<Rightarrow>
          if bound_rows b \<le> length (live_rows rs)
          then (Full \<lparr>f_resource = ''messages'', f_limit = bound_rows b,
                      f_held = length (live_rows rs)\<rparr>, rs)
          else if int (bound_bytes b) < held_bytes rs + int (length (n_body row))
          then (Full \<lparr>f_resource = ''bytes'', f_limit = bound_bytes b,
                      f_held = nat (held_bytes rs)\<rparr>, rs)
          else (Stored, rs @ [fresh_row row (i64_of_u64 now) (st now) (Suc n)]))"

lemma find_filter: "find p xs = (case filter p xs of [] \<Rightarrow> None | x # _ \<Rightarrow> Some x)"
  by (induction xs) auto

lemma insert_under_bound_ready:
  assumes "ready db" and "n_message_id row \<notin> r_message_id ` set (mbrows db)"
  shows "insert_under_bound st row now b nr nb db =
     (if bound_rows b \<le> nr
      then (Inr (Full \<lparr>f_resource = ''messages'', f_limit = bound_rows b, f_held = nr\<rparr>), db)
      else if bound_bytes b < saturating_add nb (length (n_body row))
      then (Inr (Full \<lparr>f_resource = ''bytes'', f_limit = bound_bytes b, f_held = nb\<rparr>), db)
      else (Inr Stored, db\<lparr>mbrows := mbrows db @ [fresh_row row (i64_of_u64 now) (st now) (Suc (last_seq db))],
              last_seq := Suc (last_seq db),
              counters_row := map_option (\<lambda>(n, c). (n + 1, c + i64_of_u64 (length (n_body row))))
                                (counters_row db)\<rparr>))"
  using assms by (simp add: insert_under_bound_def Let_def ins_row_def move_counters_def fresh_row_def)

lemma insert_meets_spec:
  assumes ready: "ready db" and inv: "mailbox_inv db" and cnt: "counted b db"
    and small: "bound_bytes b < 2 ^ 63"
  shows "\<exists>db'. insert_mbx st row retry now b db =
                (Inr (fst (insert_spec st row retry now b (mbrows db) (last_seq db))), db') \<and>
              mbrows db' = snd (insert_spec st row retry now b (mbrows db) (last_seq db)) \<and> ready db'"
proof (cases "filter (\<lambda>r. r_message_id r = n_message_id row) (mbrows db)")
  case (Cons h hs)
  with ready show ?thesis
    by (simp add: insert_mbx_def sel_held_def insert_spec_def find_filter Let_def)
next
  case Nil
  then have absent: "n_message_id row \<notin> r_message_id ` set (mbrows db)"
    by (auto simp: filter_empty_conv)
  have nn: "0 \<le> held_bytes (mbrows db)" using inv by (rule held_bytes_nonneg)
  have c: "counters db = (Inr (length (live_rows (mbrows db)), nat (held_bytes (mbrows db))), db)"
    using ready cnt nn
    by (simp add: counters_def sel_counters_def counted_def u64_of_i64_clamped_def max_def)
  have full: "bound_bytes b < saturating_add (nat (held_bytes (mbrows db))) (length (n_body row)) \<longleftrightarrow>
      int (bound_bytes b) < held_bytes (mbrows db) + int (length (n_body row))"
    using small nn by (auto simp: saturating_add_def u64_max_def min_def)
  show ?thesis
    using ready Nil insert_under_bound_ready [OF ready absent] c full
    by (simp add: insert_mbx_def sel_held_def insert_spec_def find_filter)
qed

text \<open>C26 (mailbox_insert_events). On a storage that answers, an insert does what its four events say, the
  counters standing for the live rows: an id already held is \<open>Retried\<close> when a retried hop finds its
  own sender, box and body and \<open>Duplicate\<close> otherwise; a full mailbox refuses, naming the resource,
  the limit and what is held; otherwise the row is stored live at version 1, owed to the archive,
  at the end. Nothing else changes in the rows.\<close>

theorem mailbox_insert_events:
  assumes "ready db" and "mailbox_inv db" and "counted RULED db"
  shows "\<exists>db'. insert_mbx st row retry now RULED db =
                (Inr (fst (insert_spec st row retry now RULED (mbrows db) (last_seq db))), db') \<and>
              mbrows db' = snd (insert_spec st row retry now RULED (mbrows db) (last_seq db))"
  using insert_meets_spec [OF assms RULED_small] by blast

text \<open>A send whose stored answer was lost and that is repeated as a retry finds
  its own row: it is answered \<open>Retried\<close> and nothing is written, so a retried send is stored once.
  Repeated without the retry mark it is a \<open>Duplicate\<close>, and again nothing is written.\<close>

lemma mailbox_insert_retry:
  assumes "ready db" and "mailbox_inv db" and "insert_mbx st row first now b db = (Inr Stored, db')"
    and "ready db'"
  shows "insert_mbx st row retry later b db' = (Inr (if retry then Retried else Duplicate), db')"
  using assms(3)
proof (cases rule: insert_Inr_cases)
  case (stored n bts)
  let ?new = "fresh_row row (i64_of_u64 now) (st now) (Suc (last_seq db))"
  have "filter (\<lambda>r. r_message_id r = n_message_id row) (mbrows db) = []"
    using stored(1) by (force simp: filter_empty_conv)
  then have "sel_held (n_message_id row) db' =
      [[VText (n_sender row), VText (n_message_box row), VText (n_body row)]]"
    using stored(6) by (simp add: sel_held_def fresh_row_def opt_val_def)
  with assms(4) show ?thesis by (simp add: insert_mbx_def Let_def)
qed auto

text \<open>C27 (mailbox_acknowledge_events). On a storage that answers, an acknowledgment moves exactly the live
  rows it names to \<open>acknowledged\<close> at the next version, answers each named id once, in the order
  named, and counts an id already acknowledged only on a retried hop.\<close>

theorem mailbox_acknowledge_events:
  assumes "ready db" and "mailbox_inv db"
  shows "\<exists>out db'. acknowledge st ids retry now db = (Inr out, db') \<and>
     mbrows db' = update_where (\<lambda>r. r_message_id r \<in> set ids \<and> r_state r = live)
                    (ack_row (i64_of_u64 now) (st now)) (mbrows db) \<and>
     a_acknowledged out = filter (ack_counts retry (mbrows db)) (dedup {} ids) \<and>
     a_missing out = filter (\<lambda>i. \<not> ack_counts retry (mbrows db) i) (dedup {} ids)"
proof -
  obtain out db' where a: "acknowledge st ids retry now db = (Inr out, db')"
    using acknowledge_ready [OF assms(1)] by blast
  show ?thesis using acknowledge_effect [OF a assms(2)] a unfolding ack_rows_def by blast
qed

text \<open>An acknowledgment repeated as a retry changes no row and no counter,
  and answers as acknowledged every id the first attempt moved.\<close>

lemma mailbox_acknowledge_retry:
  assumes "ready db" and "mailbox_inv db" and "acknowledge st ids retry now db = (Inr out, db')"
  shows "\<exists>again db''. acknowledge st ids True later db' = (Inr again, db'') \<and>
     mbrows db'' = mbrows db' \<and> set (a_acknowledged out) \<subseteq> set (a_acknowledged again) \<and>
     (\<forall>i. i \<in> set ids \<longrightarrow> \<not> live_id i (mbrows db''))"
proof -
  have rdy: "ready db'" and inv: "mailbox_inv db'"
    using acknowledge_ready [OF assms(1), of st ids retry now]
      acknowledge_inv [OF assms(2), of st ids retry now] assms(3) by auto
  obtain again db'' where a: "acknowledge st ids True later db' = (Inr again, db'')"
    using acknowledge_ready [OF rdy] by blast
  note e1 = acknowledge_effect [OF assms(3,2)] and e2 = acknowledge_effect [OF a inv]
  have none: "\<not> live_id i (mbrows db')" if "i \<in> set ids" for i
    using that by (simp add: e1(1) live_id_ack_rows)
  then have rows: "mbrows db'' = mbrows db'" unfolding e2(1) by (rule ack_rows_not_live)
  have "set (a_acknowledged out) \<subseteq> set (a_acknowledged again)"
    using e1(1) by (auto simp: e1(2) e2(2) ack_counts_def dest: live_id_held)
  with a rows none show ?thesis by auto
qed

text \<open>On a storage that answers, a listing changes nothing and returns the leading
  live rows of the box in order of arrival: at most the limit, their bodies together within the
  budget, and it stops short of the limit only at the end of the box or at the row that would
  pass the budget.\<close>

lemma mailbox_listing:
  assumes "ready db" and "mailbox_inv db" and "limit < 2 ^ 63" and "inline_bytes < 2 ^ 63"
  shows "\<exists>k. list_mbx mbox limit inline_bytes db =
              (Inr (map listed (take k (live_in_box mbox (mbrows db)))), db) \<and> k \<le> limit \<and>
            sum_list (map (body_len \<circ> listed) (take k (live_in_box mbox (mbrows db)))) \<le> inline_bytes \<and>
            (k < limit \<longrightarrow> k < length (live_in_box mbox (mbrows db)) \<longrightarrow>
              inline_bytes <
                sum_list (map (body_len \<circ> listed) (take (Suc k) (live_in_box mbox (mbrows db)))))"
proof -
  obtain out where l: "list_mbx mbox limit inline_bytes db = (Inr out, db)"
    using assms(1) by (simp add: list_mbx_def)
  from list_prefix [OF l assms(2-4)] obtain k where
    "out = map listed (take k (live_in_box mbox (mbrows db)))" "k \<le> limit"
    "sum_list (map body_len out) \<le> inline_bytes"
    "k < limit \<Longrightarrow> k < length (live_in_box mbox (mbrows db)) \<Longrightarrow>
         inline_bytes < sum_list (map (body_len \<circ> listed) (take (Suc k) (live_in_box mbox (mbrows db))))"
    by blast
  with l show ?thesis by (intro exI [of _ k]) simp
qed

text \<open>The rows a replay takes and the rows it leaves.\<close>

lemma due_rows_oldest:
  assumes "r \<in> set rs" and "owed_due (i64_of_u64 (saturating_sub now REPLAY_AFTER_MS)) r"
    and "r \<notin> set (due_rows now rs)" and "t \<in> set (due_rows now rs)"
  shows "r_enqueued_at t \<le> r_enqueued_at r"
proof -
  let ?ds = "sort_key r_enqueued_at
    (filter (owed_due (i64_of_u64 (saturating_sub now REPLAY_AFTER_MS))) rs)"
  have "r \<in> set ?ds" using assms(1,2) by simp
  with assms(3) have r: "r \<in> set (drop REPLAY_PER_REQUEST ?ds)"
    by (metis Un_iff append_take_drop_id due_rows_def set_append)
  have "sorted (map r_enqueued_at (take REPLAY_PER_REQUEST ?ds @ drop REPLAY_PER_REQUEST ?ds))"
    by simp
  then have "\<forall>x\<in>set (take REPLAY_PER_REQUEST ?ds). \<forall>y\<in>set (drop REPLAY_PER_REQUEST ?ds).
      r_enqueued_at x \<le> r_enqueued_at y"
    unfolding map_append sorted_append by auto
  with r assms(4) show ?thesis by (auto simp: due_rows_def)
qed

lemma renewed_not_due:
  assumes "r \<in> set (renew_rows is now rs)" and "r_message_id r \<in> is" and "cutoff < now"
  shows "\<not> owed_due cutoff r"
  using assms by (auto simp: renew_rows_def set_update_where owed_due_def)

lemma replay_cutoff: "n < 2 ^ 63 \<Longrightarrow> i64_of_u64 (saturating_sub n REPLAY_AFTER_MS) = int (n - 120000)"
  by (simp add: saturating_sub_def REPLAY_AFTER_MS_def)

lemma due_rows_after_replay:
  assumes r: "r \<in> set (due_rows later (renew_rows (r_message_id ` set taken) (i64_of_u64 now) rs))"
    and l: "later < now + 120000" "0 < now" "now < 2 ^ 62"
  shows "r_message_id r \<notin> r_message_id ` set taken"
proof
  assume m: "r_message_id r \<in> r_message_id ` set taken"
  have "later < 2 ^ 63" using l by simp
  with due_rows_due [OF r] have mem: "r \<in> set (renew_rows (r_message_id ` set taken) (i64_of_u64 now) rs)"
    and "owed_due (int (later - 120000)) r"
    by (simp_all add: replay_cutoff)
  moreover have "int (later - 120000) < i64_of_u64 now" using l by simp
  ultimately show False using renewed_not_due [OF mem m] by blast
qed

lemma image_disjointI: "(\<And>x. x \<in> B \<Longrightarrow> f x \<notin> f ` A) \<Longrightarrow> f ` A \<inter> f ` B = {}"
proof (rule equals0I)
  fix y assume sep: "\<And>x. x \<in> B \<Longrightarrow> f x \<notin> f ` A" and y: "y \<in> f ` A \<inter> f ` B"
  from y obtain x where "x \<in> B" "y = f x" by (elim IntE imageE)
  with sep [of x] y show False by simp
qed

text \<open>C28 (mailbox_replay). On a storage that answers, a replay takes at most sixteen owed rows, each last
  enqueued 120 s ago or longer (or never), none of them enqueued after a due row it leaves, and
  marks them enqueued now: no replay in the next 120 s takes one of them again.\<close>

theorem mailbox_replay:
  assumes "ready db" and "mailbox_inv db" and "0 < now" and "now < 2 ^ 62"
  shows "\<exists>taken db'. take_owed_due now db = (Inr (map archived_view taken), db') \<and>
     length taken \<le> 16 \<and> set taken \<subseteq> {r \<in> set (mbrows db). owed_due (int (now - 120000)) r} \<and>
     (\<forall>r t. r \<in> set (mbrows db) \<longrightarrow> owed_due (int (now - 120000)) r \<longrightarrow> r \<notin> set taken \<longrightarrow>
        t \<in> set taken \<longrightarrow> r_enqueued_at t \<le> r_enqueued_at r) \<and>
     (\<forall>later again db''. later < now + 120000 \<longrightarrow> take_owed_due later db' = (Inr again, db'') \<longrightarrow>
        r_message_id ` set taken \<inter> ar_message_id ` set again = {})"
proof -
  obtain out db' where t: "take_owed_due now db = (Inr out, db')"
    using take_owed_due_ready [OF assms(1)] by blast
  let ?taken = "due_rows now (mbrows db)"
  note e = take_owed_due_effect [OF t]
  have rows': "mbrows db' = renew_rows (r_message_id ` set ?taken) (i64_of_u64 now) (mbrows db)"
    using e by blast
  have cut: "i64_of_u64 (saturating_sub now REPLAY_AFTER_MS) = int (now - 120000)"
    using assms(4) by (simp add: replay_cutoff)
  have "r_message_id ` set ?taken \<inter> ar_message_id ` set again = {}"
    if l: "later < now + 120000" "take_owed_due later db' = (Inr again, db'')" for later again db''
  proof -
    have "ar_message_id ` set again = r_message_id ` set (due_rows later (mbrows db'))"
      using take_owed_due_effect [OF l(2)] by (simp add: image_image)
    moreover have "r_message_id r \<notin> r_message_id ` set ?taken"
      if "r \<in> set (due_rows later (mbrows db'))" for r
      by (rule due_rows_after_replay [OF that [unfolded rows'] l(1) assms(3,4)])
    then have "r_message_id ` set ?taken \<inter> r_message_id ` set (due_rows later (mbrows db')) = {}"
      by (rule image_disjointI)
    ultimately show ?thesis by simp
  qed
  moreover have "take_owed_due now db = (Inr (map archived_view ?taken), db')"
    using t e by (simp add: archived_view_def)
  moreover have "length ?taken \<le> 16" by (simp add: due_rows_def REPLAY_PER_REQUEST_def)
  moreover have "set ?taken \<subseteq> {r \<in> set (mbrows db). owed_due (int (now - 120000)) r}"
    using due_rows_due [of _ now "mbrows db"] cut by auto
  moreover have "r_enqueued_at t \<le> r_enqueued_at r" if "r \<in> set (mbrows db)"
    "owed_due (int (now - 120000)) r" "r \<notin> set ?taken" "t \<in> set ?taken" for r t
    using due_rows_oldest [of r "mbrows db" now t] that cut by simp
  ultimately show ?thesis by (intro exI [of _ ?taken] exI [of _ db'] conjI allI impI)
qed

text \<open>What a run of confirmations keeps.\<close>

lemma done_rows_keep:
  assumes "r \<in> set rs" and "\<not> done_deletes d r"
  shows "\<exists>r'\<in>set (done_rows d rs). r_message_id r' = r_message_id r \<and> r_state r' = r_state r \<and>
                                   r_version r' = r_version r"
proof -
  let ?r' = "if r_message_id r = d_message_id d then done_row d r else r"
  have "?r' \<in> set (done_rows d rs)" using assms by (auto simp: done_rows_def set_update_where)
  then show ?thesis
    by (rule bexI [rotated]) (simp add: done_row_def mark_collision_def mark_archived_def mark_older_def)
qed

lemma fold_done_rows_keep:
  assumes "r \<in> set rs" and "\<And>d. d \<in> set ds \<Longrightarrow> \<not> done_deletes d r"
  shows "held_id (r_message_id r) (fold done_rows ds rs)"
  using assms
proof (induction ds arbitrary: r rs)
  case Nil
  then show ?case by (auto simp: held_id_def)
next
  case (Cons d ds)
  from done_rows_keep [of r rs d] Cons.prems obtain r' where
    r': "r' \<in> set (done_rows d rs)" "r_message_id r' = r_message_id r" "r_state r' = r_state r"
    "r_version r' = r_version r" by auto
  have "\<not> done_deletes c r'" if "c \<in> set ds" for c
    using Cons.prems(2) [of c] that r' by (simp add: done_deletes_def)
  with Cons.IH [OF r'(1)] r'(2) show ?case by simp
qed

lemma fold_done_rows_columns:
  "map listed_columns (live_rows (fold done_rows ds rs)) = map listed_columns (live_rows rs)"
  by (induction ds arbitrary: rs) (simp_all add: done_rows_live_columns)

text \<open>On a storage that answers, a list of the archive's confirmations leaves the
  live rows and everything a listing shows of them untouched, and drops a row only when it is
  acknowledged and one of the confirmations names it at its version or newer, or as a collision.\<close>

lemma mailbox_confirmation:
  assumes "ready db" and "mailbox_inv db" and "list_all done_ok ds"
  shows "\<exists>m db'. archive_done ds db = (Inr m, db') \<and>
     map listed_columns (live_rows (mbrows db')) = map listed_columns (live_rows (mbrows db)) \<and>
     (\<forall>r. r \<in> set (mbrows db) \<longrightarrow> \<not> held_id (r_message_id r) (mbrows db') \<longrightarrow>
        r_state r = acknowledged \<and>
        (\<exists>d. d \<in> set ds \<and> d_message_id d = r_message_id r \<and>
             (d_collision d \<or> r_version r \<le> int (d_version d))))"
proof -
  obtain m db' where a: "archive_done ds db = (Inr m, db')"
    using archive_done_ready [OF assms(1)] by blast
  note rows = archive_done_effect(1) [OF a assms(2,3)]
  have "r_state r = acknowledged \<and> (\<exists>d. d \<in> set ds \<and> d_message_id d = r_message_id r \<and>
      (d_collision d \<or> r_version r \<le> int (d_version d)))"
    if "r \<in> set (mbrows db)" "\<not> held_id (r_message_id r) (mbrows db')" for r
    using fold_done_rows_keep [OF that(1), of ds] that(2) unfolding rows done_deletes_def by metis
  moreover have "map listed_columns (live_rows (mbrows db')) = map listed_columns (live_rows (mbrows db))"
    unfolding rows by (rule fold_done_rows_columns)
  ultimately show ?thesis using a by (intro exI [of _ m] exI [of _ db']) blast
qed

lemma merge_candidates_held:
  assumes "r \<in> set (merge_candidates d1 mailbox held order)" and "m_message_id r = Some i"
    and "i \<in> held"
  shows "r \<in> set mailbox"
proof -
  have "r \<in> set (not_held held d1) \<union> set mailbox"
    using assms(1) uniq_rows_subset [of "{}" "not_held held d1 @ mailbox"]
      uniq_rows_subset [of "{}" "mailbox @ not_held held d1"]
    by (cases order) (auto simp: merge_candidates_def)
  with assms(2,3) show ?thesis by (auto simp: not_held_def)
qed

text \<open>The merged listing is a leading run of its candidates (the two sides in their
  order, the leading side first, without D1's rows under an id the mailbox holds, and each id at
  its earliest place): no id twice, at most the limit, the bodies within the budget, and it stops
  early only at the row that would pass the budget. So an acknowledged row never comes back from
  D1: an id the mailbox holds is listed only from the mailbox's own live rows.\<close>

lemma mailbox_merge:
  shows "\<exists>k. merge_mbx d1 mailbox held order limit inline_bytes =
              take k (merge_candidates d1 mailbox held order) \<and>
       length (merge_mbx d1 mailbox held order limit inline_bytes) \<le> limit \<and>
       sum_list (map body_len (merge_mbx d1 mailbox held order limit inline_bytes)) \<le> inline_bytes \<and>
       (k < length (merge_candidates d1 mailbox held order) \<longrightarrow> k < limit \<longrightarrow>
         inline_bytes < sum_list (map body_len (take (Suc k) (merge_candidates d1 mailbox held order)))) \<and>
       distinct (row_ids (merge_mbx d1 mailbox held order limit inline_bytes)) \<and>
       set (row_ids (merge_mbx d1 mailbox held order limit inline_bytes)) \<inter> held
         \<subseteq> set (row_ids mailbox)"
proof -
  from merge_prefix [of d1 mailbox held order limit inline_bytes] obtain k where
    k: "merge_mbx d1 mailbox held order limit inline_bytes = take k (merge_candidates d1 mailbox held order)"
    "length (take k (merge_candidates d1 mailbox held order)) \<le> limit"
    "sum_list (map body_len (take k (merge_candidates d1 mailbox held order))) \<le> inline_bytes"
    "k < length (merge_candidates d1 mailbox held order) \<longrightarrow> k < limit \<longrightarrow>
         inline_bytes < sum_list (map body_len (take (Suc k) (merge_candidates d1 mailbox held order)))"
    by blast
  have "distinct (row_ids (take k (merge_candidates d1 mailbox held order)))"
    by (intro row_ids_take_distinct) (simp add: merge_candidates_def distinct_uniq_rows)
  moreover have "set (row_ids (take k (merge_candidates d1 mailbox held order))) \<inter> held
      \<subseteq> set (row_ids mailbox)"
    using merge_candidates_held [of _ d1 mailbox held order] by (fastforce simp: set_row_ids dest: in_set_takeD)
  ultimately show ?thesis using k by (intro exI [of _ k]) simp
qed

subsection \<open>The theorems at work\<close>

text \<open>A hub just laid out, and the same hub holding one message.\<close>

definition demo_time :: "ms \<Rightarrow> string" where
  "demo_time _ = ''2026-01-01 00:00:00''"

definition demo_laid :: mailbox_db where
  "demo_laid =
     \<lparr>made = [ROWS, LISTING_INDEX, OWED_INDEX, COUNTERS, META, PERMS], mbrows = [], last_seq = 0,
      counters_row = Some (0, 0), mailbox_meta = [], perms = [], faults = []\<rparr>"

definition demo_new :: new_row where
  "demo_new = \<lparr>n_message_id = ''m1'', n_message_box = ''inbox'', n_sender = ''alice'',
               n_body = ''hello''\<rparr>"

definition demo_db :: mailbox_db where
  "demo_db = demo_laid\<lparr>mbrows := [fresh_row demo_new 1000 (demo_time 1000) 1], last_seq := 1,
                       counters_row := Some (1, 5)\<rparr>"

lemmas object_names = ROWS_def LISTING_INDEX_def OWED_INDEX_def COUNTERS_def META_def PERMS_def

lemma demo_layout: "ensure_schema (fresh_hub []) = (Inr (), demo_laid)"
  by code_simp

lemma demo_ready: "ready demo_laid" "ready demo_db"
  by (simp_all add: ready_def demo_laid_def demo_db_def)

lemma demo_insert: "insert_mbx demo_time demo_new False 1000 RULED demo_laid = (Inr Stored, demo_db)"
proof -
  have "mbrows demo_laid = []" "counters_row demo_laid = Some (0, 0)" "last_seq demo_laid = 0"
    by (simp_all add: demo_laid_def)
  then show ?thesis
    by (simp add: insert_mbx_def demo_ready(1) sel_held_def counters_def sel_counters_def
        insert_under_bound_ready u64_of_i64_clamped_def saturating_add_def u64_max_def RULED_def
        MAILBOX_ROWS_LIMIT_def MAILBOX_BYTES_LIMIT_def demo_db_def)
       (simp add: demo_new_def)
qed

lemma demo_inv: "mailbox_inv demo_laid" "mailbox_inv demo_db"
  using laid_out_inv(1) [OF demo_layout]
    insert_inv [OF laid_out_inv(1) [OF demo_layout] RULED_small, of demo_time demo_new False 1000]
  by (simp_all add: demo_insert)

lemma demo_serves:
  "serves (mailbox_do demo_time RULED) call_ok demo_laid
     [(InsertRow demo_new False 1000, RInserted Stored)] demo_db"
proof -
  have "mailbox_do demo_time RULED (InsertRow demo_new False 1000) demo_laid =
      (Inr (RInserted Stored), demo_db)"
    by (simp add: demo_insert reply_def)
  from serves_snoc [OF serves_nil [of "mailbox_do demo_time RULED" call_ok demo_laid] _ this]
  show ?thesis by simp
qed

theorem mailbox_rows_always_ok_witness:
  "mailbox_inv (snd (mailbox_do demo_time RULED MakeLayout (fresh_hub [None, Some ''disk error''])))"
  by (rule mailbox_rows_always_ok [OF reaches_step [OF reaches_refl]]) simp

theorem mailbox_counters_exact_witness: "counted RULED demo_db"
  by (rule mailbox_counters_exact [OF demo_layout demo_serves])

theorem mailbox_implements_inbox_witness:
  "inbox demo_db = [(''m1'', ''inbox'', ''alice'', Some ''hello'')]"
  using mailbox_implements_inbox [OF demo_layout demo_serves] by (simp add: demo_new_def)

theorem mailbox_insert_events_witness:
  "\<exists>db'. insert_mbx demo_time demo_new False 2000 RULED demo_db = (Inr Duplicate, db') \<and>
         mbrows db' = mbrows demo_db"
proof -
  have "counted RULED demo_db"
    using insert_counted [OF demo_insert demo_inv(1) laid_out_counted [OF demo_layout] RULED_small] .
  from mailbox_insert_events [OF demo_ready(2) demo_inv(2) this, of demo_time demo_new False 2000]
  show ?thesis by (simp add: insert_spec_def demo_db_def fresh_row_def)
qed

lemma mailbox_insert_retry_example:
  "insert_mbx demo_time demo_new True 2000 RULED demo_db = (Inr Retried, demo_db)"
  using mailbox_insert_retry [OF demo_ready(1) demo_inv(1) demo_insert demo_ready(2), of True 2000]
  by simp

theorem mailbox_acknowledge_events_witness:
  "\<exists>out db'. acknowledge demo_time [''m1'', ''m2'', ''m1''] False 5000 demo_db = (Inr out, db') \<and>
     a_acknowledged out = [''m1''] \<and> a_missing out = [''m2'']"
  using mailbox_acknowledge_events [OF demo_ready(2) demo_inv(2), of demo_time "[''m1'', ''m2'', ''m1'']" False 5000]
  by (auto simp: ack_counts_def live_id_def demo_db_def fresh_row_def demo_new_def)

definition demo_acked :: mailbox_db where
  "demo_acked = demo_db\<lparr>mbrows := map (ack_row 5000 (demo_time 5000)) (mbrows demo_db),
                         counters_row := Some (0, 0)\<rparr>"

lemma mailbox_acknowledge_retry_example:
  "\<exists>again db''. acknowledge demo_time [''m1''] True 6000 demo_acked = (Inr again, db'') \<and>
     mbrows db'' = mbrows demo_acked \<and> ''m1'' \<in> set (a_acknowledged again)"
proof -
  have "acknowledge demo_time [''m1''] False 5000 demo_db =
      (Inr \<lparr>a_acknowledged = [''m1''], a_missing = []\<rparr>, demo_acked)"
    using demo_ready(2)
    by (simp add: acknowledge_def sel_state_bytes_def upd_ack_def move_counters_def demo_acked_def
        demo_db_def fresh_row_def demo_new_def)
  from mailbox_acknowledge_retry [OF demo_ready(2) demo_inv(2) this, of 6000] show ?thesis by auto
qed

lemma mailbox_listing_example:
  "\<exists>k. list_mbx ''inbox'' 100 1000 demo_db =
         (Inr (map listed (take k (live_in_box ''inbox'' (mbrows demo_db)))), demo_db) \<and> 0 < k"
proof -
  have b: "live_in_box ''inbox'' (mbrows demo_db) = [fresh_row demo_new 1000 (demo_time 1000) 1]"
    "body_len (listed (fresh_row demo_new 1000 (demo_time 1000) 1)) = 5"
    by (simp_all add: live_in_box_def demo_db_def fresh_row_def demo_new_def body_len_def listed_def)
  from mailbox_listing [OF demo_ready(2) demo_inv(2), of 100 1000 "''inbox''"] b
  show ?thesis by (fastforce simp: take_Cons')
qed

theorem mailbox_replay_witness:
  "\<exists>taken db'. take_owed_due 200000 demo_db = (Inr (map archived_view taken), db') \<and> length taken \<le> 16"
  using mailbox_replay [OF demo_ready(2) demo_inv(2), of 200000] by auto

lemma mailbox_confirmation_example:
  "\<exists>m db'. archive_done [\<lparr>d_message_id = ''m1'', d_version = 1, d_collision = False\<rparr>] demo_db = (Inr m, db') \<and>
     map listed_columns (live_rows (mbrows db')) = map listed_columns (live_rows (mbrows demo_db))"
  using mailbox_confirmation [OF demo_ready(2) demo_inv(2),
      of "[\<lparr>d_message_id = ''m1'', d_version = 1, d_collision = False\<rparr>]"]
  by (auto simp: done_ok_def)

lemma mailbox_merge_example:
  "''m1'' \<notin> set (row_ids (merge_mbx [listed (fresh_row demo_new 1 [] 1)] [] {''m1''} D1First 100 1000))"
  using mailbox_merge [of "[listed (fresh_row demo_new 1 [] 1)]" "[]" "{''m1''}" D1First 100 1000] by auto

end
