(* ===== verification/D1_Tables.thy ===== *)
theory D1_Tables
  imports Mailbox "HOL-Library.Log_Nat"
begin

section \<open>D1: its tables, one round trip, the retries\<close>

text \<open>
  The Worker's D1 database as \<open>src/src/storage.rs\<close> uses it. A \<open>d1_db\<close> holds the tables of
  \<open>migrations/\<close> that the modelled statements read and write (rows in rowid order), the text of
  \<open>datetime('now')\<close>, and a script of what each round trip to the platform meets: it is served,
  it is refused before it is applied, or it is applied and its answer is lost (the write that
  timed out and landed, which the retry's comments in \<open>storage.rs\<close> reason about).

  A statement is one definition on this record; \<open>d1_run\<close> sends it, and refuses one that binds
  more than D1's 100 parameters. \<open>with_d1_write_retry\<close> and \<open>with_d1_read_retry\<close> are the bounded
  loops of the source, with their classification of errors. Time is not modelled: an operation
  that exceeds its bound is a round trip whose error is the timeout's text.
\<close>

subsection \<open>Rows and tables\<close>

record d1_message =
  dm_message_id :: string
  dm_box :: nat
  dm_sender :: string
  dm_recipient :: string
  dm_body :: string
  dm_created_at :: string
  dm_updated_at :: string
  dm_acknowledged_at :: "string option"
  dm_beef_key :: "string option"
  dm_version :: i64

record d1_box =
  bx_id :: nat
  bx_type :: string
  bx_identity :: string

record d1_perm =
  pm_recipient :: string
  pm_sender :: "string option"
  pm_box :: string
  pm_fee :: i64
  pm_created_at :: string
  pm_updated_at :: string

text \<open>\<open>worker::Error\<close>: a D1 failure with its text and its cause's, or any other by its text.\<close>

datatype d1_error = D1Error string string | OtherError string

datatype round_trip = Served | Refused d1_error | LandedUnanswered d1_error

record d1_db =
  d_messages :: "d1_message list"
  d_boxes :: "d1_box list"
  d_last_box :: nat
  d_perms :: "d1_perm list"
  d_server_fees :: "(string \<times> i64) list"
  d_now :: string
  d_script :: "round_trip list"

type_synonym 'a d1 = "d1_db \<Rightarrow> (d1_error, 'a, d1_db) outcome"
type_synonym 'a d1_stmt = "d1_db \<Rightarrow> d1_error + 'a \<times> d1_db"

fun error_text :: "d1_error \<Rightarrow> string" where
  "error_text (D1Error t c) = t"
| "error_text (OtherError t) = t"

subsection \<open>One round trip\<close>

definition D1_MAX_BOUND_PARAMS :: nat where
  "D1_MAX_BOUND_PARAMS = 100"

definition too_many_variables :: d1_error where
  "too_many_variables = D1Error ''D1_ERROR: too many SQL variables'' ''too many SQL variables''"

definition bounded_stmt :: "nat \<Rightarrow> 'a d1_stmt \<Rightarrow> 'a d1_stmt" where
  "bounded_stmt n stmt db = (if D1_MAX_BOUND_PARAMS < n then Inl too_many_variables else stmt db)"

definition applied :: "'a d1_stmt \<Rightarrow> d1_db \<Rightarrow> d1_db" where
  "applied stmt db = (case stmt db of Inl _ \<Rightarrow> db | Inr (_, db') \<Rightarrow> db')"

definition d1_run :: "nat \<Rightarrow> 'a d1_stmt \<Rightarrow> 'a d1" where
  "d1_run n stmt db =
     (let db1 = db\<lparr>d_script := tl (d_script db)\<rparr>
      in case d_script db of
           Refused e # _ \<Rightarrow> (Inl e, db1)
         | LandedUnanswered e # _ \<Rightarrow> (Inl e, applied (bounded_stmt n stmt) db1)
         | _ \<Rightarrow> (case bounded_stmt n stmt db1 of
                  Inl e \<Rightarrow> (Inl e, db1)
                | Inr (a, db2) \<Rightarrow> (Inr a, db2)))"

definition d1_read :: "nat \<Rightarrow> (d1_db \<Rightarrow> 'a) \<Rightarrow> 'a d1" where
  "d1_read n q = d1_run n (\<lambda>db. Inr (q db, db))"

text \<open>\<open>D1Database::batch\<close>: the statements of one round trip in order, all or none.\<close>

primrec batch_stmt :: "(nat \<times> 'a d1_stmt) list \<Rightarrow> 'a list d1_stmt" where
  "batch_stmt [] db = Inr ([], db)"
| "batch_stmt (s # ss) db =
     (case bounded_stmt (fst s) (snd s) db of
        Inl e \<Rightarrow> Inl e
      | Inr (a, db1) \<Rightarrow> (case batch_stmt ss db1 of Inl e \<Rightarrow> Inl e | Inr (r, db2) \<Rightarrow> Inr (a # r, db2)))"

definition d1_batch :: "(nat \<times> 'a d1_stmt) list \<Rightarrow> 'a list d1" where
  "d1_batch ss = d1_run 0 (batch_stmt ss)"

subsection \<open>Numbers through JavaScript\<close>

text \<open>
  \<open>QVal::to_js\<close> and the \<open>f64\<close> columns: an integer crosses as a double, the nearest one, ties to
  the even significand. Up to \<open>2 ^ 53\<close> it is exact.
\<close>

definition round_even :: "nat \<Rightarrow> int \<Rightarrow> int" where
  "round_even e a =
     (let q = a div 2 ^ e; r = a mod 2 ^ e; half = 2 ^ (e - 1)
      in (if half < r \<or> (r = half \<and> odd q) then q + 1 else q) * 2 ^ e)"

definition js_number :: "int \<Rightarrow> int" where
  "js_number n =
     (if \<bar>n\<bar> \<le> 2 ^ 53 then n else sgn n * round_even (nat (bitlen \<bar>n\<bar> - 53)) \<bar>n\<bar>)"

lemma js_number_exact [simp]: "\<bar>n\<bar> \<le> 2 ^ 53 \<Longrightarrow> js_number n = n"
  by (simp add: js_number_def)

subsection \<open>The retry policy\<close>

definition TRANSIENT_MARKERS :: "string list" where
  "TRANSIENT_MARKERS = [''d1_error'', ''network connection lost'', ''storage'', ''reset'',
     ''internal error'', ''connection'', ''timed out'', ''please try again'']"

definition past_limit :: "string \<Rightarrow> bool" where
  "past_limit s = contains ''too many sql variables'' (to_ascii_lowercase s)"

fun is_transient_d1_error :: "d1_error \<Rightarrow> bool" where
  "is_transient_d1_error (D1Error t cause) = (\<not> past_limit t \<and> \<not> past_limit cause)"
| "is_transient_d1_error (OtherError t) =
     (\<not> past_limit t \<and> list_ex (\<lambda>m. contains m (to_ascii_lowercase t)) TRANSIENT_MARKERS)"

definition D1_READ_ATTEMPTS :: nat where
  "D1_READ_ATTEMPTS = 3"

definition D1_WRITE_ATTEMPTS :: nat where
  "D1_WRITE_ATTEMPTS = 3"

definition d1_retry_backoff_bounded :: "nat \<Rightarrow> nat \<Rightarrow> d1_error \<Rightarrow> ms option" where
  "d1_retry_backoff_bounded attempt max_attempts err =
     (if max_attempts \<le> attempt + 1 then None
      else if \<not> is_transient_d1_error err then None
      else Some (50 * 2 ^ attempt))"

definition d1_retry_backoff :: "nat \<Rightarrow> d1_error \<Rightarrow> ms option" where
  "d1_retry_backoff attempt err = d1_retry_backoff_bounded attempt D1_READ_ATTEMPTS err"

text \<open>The loops, over the state of any store whose round trips fail as D1's do.\<close>

type_synonym ('a, 's) tries = "'s \<Rightarrow> (d1_error, 'a, 's) outcome"

function write_loop :: "nat \<Rightarrow> bool \<Rightarrow> ('a, 's) tries \<Rightarrow> ('a \<times> bool, 's) tries" where
  "write_loop attempt retried op db =
     (case op db of
        (Inr v, db') \<Rightarrow> (Inr (v, retried), db')
      | (Inl e, db') \<Rightarrow>
          (case d1_retry_backoff_bounded attempt D1_WRITE_ATTEMPTS e of
             Some _ \<Rightarrow> write_loop (attempt + 1) True op db'
           | None \<Rightarrow> (Inl e, db')))"
  by pat_completeness auto
termination
  by (relation "measure (\<lambda>(attempt, _). D1_WRITE_ATTEMPTS - attempt)")
     (auto simp: d1_retry_backoff_bounded_def split: if_splits)

declare write_loop.simps [simp del]

definition with_d1_write_retry :: "('a, 's) tries \<Rightarrow> ('a \<times> bool, 's) tries" where
  "with_d1_write_retry op = write_loop 0 False op"

function read_loop :: "nat \<Rightarrow> ('a, 's) tries \<Rightarrow> ('a, 's) tries" where
  "read_loop attempt op db =
     (case op db of
        (Inr v, db') \<Rightarrow> (Inr v, db')
      | (Inl e, db') \<Rightarrow>
          (case d1_retry_backoff attempt e of
             Some _ \<Rightarrow> read_loop (attempt + 1) op db'
           | None \<Rightarrow> (Inl e, db')))"
  by pat_completeness auto
termination
  by (relation "measure (\<lambda>(attempt, _). D1_READ_ATTEMPTS - attempt)")
     (auto simp: d1_retry_backoff_def d1_retry_backoff_bounded_def split: if_splits)

declare read_loop.simps [simp del]

definition with_d1_read_retry :: "('a, 's) tries \<Rightarrow> ('a, 's) tries" where
  "with_d1_read_retry op = read_loop 0 op"

text \<open>The same loop around an operation bounded in time (\<open>with_d1_op_timeout\<close>).\<close>

definition with_d1_bounded_read :: "('a, 's) tries \<Rightarrow> ('a, 's) tries" where
  "with_d1_bounded_read op = with_d1_read_retry op"

subsection \<open>What the loops keep\<close>

text \<open>
  The state past every field but the script: what a read may not change. The laws below are
  the interface the storage operations use: a read leaves the tables, and a retried write
  leaves them as they were, or as some number of applications left them.
\<close>

definition tables :: "d1_db \<Rightarrow> d1_db" where
  "tables db = db\<lparr>d_script := []\<rparr>"

lemma tables_script [simp]: "tables (db\<lparr>d_script := s\<rparr>) = tables db"
  by (simp add: tables_def)

lemma tables_eqD:
  assumes "tables db = tables db'"
  shows "db' = db\<lparr>d_script := d_script db'\<rparr>"
  using assms by (cases db, cases db') (simp add: tables_def)

lemma tables_fields:
  assumes "tables db = tables db'"
  shows "d_messages db = d_messages db'" "d_boxes db = d_boxes db'"
    "d_last_box db = d_last_box db'" "d_perms db = d_perms db'"
    "d_server_fees db = d_server_fees db'" "d_now db = d_now db'"
  using assms by (cases db, cases db', simp add: tables_def)+

text \<open>One round trip: nothing happened, or the statement was applied, answered or not.\<close>

lemma d1_run_cases [consumes 1, case_names kept landed served]:
  assumes run: "d1_run n stmt db = (r, db')"
  obtains
    (kept) e where "r = Inl e" and "db' = db\<lparr>d_script := tl (d_script db)\<rparr>"
  | (landed) e a where "r = Inl e" and "n \<le> D1_MAX_BOUND_PARAMS"
      and "stmt (db\<lparr>d_script := tl (d_script db)\<rparr>) = Inr (a, db')"
  | (served) a where "r = Inr a" and "n \<le> D1_MAX_BOUND_PARAMS"
      and "stmt (db\<lparr>d_script := tl (d_script db)\<rparr>) = Inr (a, db')"
  using run
  by (auto simp: d1_run_def Let_def applied_def bounded_stmt_def
      split: list.splits round_trip.splits if_splits sum.splits)

lemma d1_run_served:
  assumes "d_script db = []" and "n \<le> D1_MAX_BOUND_PARAMS"
  shows "d1_run n stmt db =
    (case stmt db of Inl e \<Rightarrow> (Inl e, db) | Inr (a, db') \<Rightarrow> (Inr a, db'))"
  using assms by (cases db, hypsubst_thin) (simp add: d1_run_def bounded_stmt_def Let_def)

lemma d1_read_cases [consumes 1, case_names failed answered]:
  assumes "d1_read n q db = (r, db')"
  obtains (failed) e where "r = Inl e" and "tables db' = tables db"
  | (answered) "r = Inr (q db')" and "tables db' = tables db"
  using assms unfolding d1_read_def
  by (cases rule: d1_run_cases) auto

text \<open>
  The rule for the retried write: \<open>R False\<close> holds before it, a failed attempt leaves \<open>R True\<close>,
  and an answered attempt gives the conclusion for the value it returned.
\<close>

lemma write_loop_rule:
  assumes "R b db"
    and "\<And>b db e db'. R b db \<Longrightarrow> op db = (Inl e, db') \<Longrightarrow> R True db'"
    and "\<And>b db v db'. R b db \<Longrightarrow> op db = (Inr v, db') \<Longrightarrow> Q v b db'"
  shows "case write_loop attempt b op db of
    (Inr (v, b'), db') \<Rightarrow> Q v b' db' | (Inl e, db') \<Rightarrow> R True db'"
  using assms
proof (induction attempt b op db rule: write_loop.induct)
  case (1 attempt b op db)
  obtain r db1 where op: "op db = (r, db1)" by (cases "op db")
  show ?case
  proof (cases r)
    case (Inl e)
    then have R: "R True db1" using "1.prems" op by blast
    show ?thesis
    proof (cases "d1_retry_backoff_bounded attempt D1_WRITE_ATTEMPTS e")
      case None
      with op Inl R show ?thesis by (subst write_loop.simps) simp
    next
      case (Some w)
      have "case write_loop (attempt + 1) True op db1 of
        (Inr (v, b'), db') \<Rightarrow> Q v b' db' | (Inl e, db') \<Rightarrow> R True db'"
        by (rule "1.IH" [OF op [symmetric] Inl Some R "1.prems"(2,3)])
      with op Inl Some show ?thesis by (subst write_loop.simps) simp
    qed
  next
    case (Inr v)
    with op "1.prems" have "Q v b db1" by blast
    with op Inr show ?thesis by (subst write_loop.simps) simp
  qed
qed

lemma write_retry_rule:
  assumes "R False db"
    and "\<And>b db e db'. R b db \<Longrightarrow> op db = (Inl e, db') \<Longrightarrow> R True db'"
    and "\<And>b db v db'. R b db \<Longrightarrow> op db = (Inr v, db') \<Longrightarrow> Q v b db'"
    and "with_d1_write_retry op db = (r, db')"
  shows "case r of Inr (v, b) \<Rightarrow> Q v b db' | Inl e \<Rightarrow> R True db'"
  using write_loop_rule [of R False db op Q 0] assms
  by (auto simp: with_d1_write_retry_def split: sum.splits prod.splits)

lemma write_retry_answered:
  assumes "with_d1_write_retry op db = (Inr v, db')" and "R False db"
    and "\<And>b db e db'. R b db \<Longrightarrow> op db = (Inl e, db') \<Longrightarrow> R True db'"
    and "\<And>b db v db'. R b db \<Longrightarrow> op db = (Inr v, db') \<Longrightarrow> Q v b db'"
  shows "Q (fst v) (snd v) db'"
  using write_retry_rule [of R db op Q "Inr v" db'] assms by (auto split: prod.splits)

lemma write_retry_clean: "op db = (Inr v, db') \<Longrightarrow> with_d1_write_retry op db = (Inr (v, False), db')"
  by (simp add: with_d1_write_retry_def write_loop.simps)

text \<open>A retried read answers what the tables hold, and leaves them.\<close>

lemma read_loop_tables:
  assumes "read_loop attempt (d1_read n q) db = (r, db')"
  shows "tables db' = tables db \<and> (case r of Inr v \<Rightarrow> v = q db' | Inl e \<Rightarrow> True)"
  using assms
proof (induction attempt "d1_read n q" db rule: read_loop.induct)
  case (1 attempt db)
  obtain r1 db1 where op: "d1_read n q db = (r1, db1)" by (cases "d1_read n q db")
  then show ?case
  proof (cases rule: d1_read_cases)
    case (failed e)
    with op "1.prems" "1.hyps" [OF op [symmetric] failed(1)] show ?thesis
      by (subst (asm) (1) read_loop.simps) (auto split: option.splits)
  next
    case answered
    with op "1.prems" show ?thesis by (subst (asm) read_loop.simps) auto
  qed
qed

lemma read_retry_tables:
  assumes "with_d1_read_retry (d1_read n q) db = (r, db')"
  shows "tables db' = tables db" and "r = Inr v \<Longrightarrow> v = q db'"
  using read_loop_tables [of 0 n q db r db'] assms by (simp_all add: with_d1_read_retry_def)

lemma bounded_read_tables:
  assumes "with_d1_bounded_read (d1_read n q) db = (r, db')"
  shows "tables db' = tables db" and "r = Inr v \<Longrightarrow> v = q db'"
  using read_retry_tables [of n q db r db'] assms by (simp_all add: with_d1_bounded_read_def)

lemma bounded_read_clean:
  assumes "d_script db = []" and "n \<le> D1_MAX_BOUND_PARAMS"
  shows "with_d1_bounded_read (d1_read n q) db = (Inr (q db), db)"
  using assms
  by (simp add: with_d1_bounded_read_def with_d1_read_retry_def read_loop.simps d1_read_def
      d1_run_served)

lemma write_clean:
  assumes "d_script db = []" and "n \<le> D1_MAX_BOUND_PARAMS" and "stmt db = Inr (a, db')"
  shows "with_d1_write_retry (d1_run n stmt) db = (Inr (a, False), db')"
  using assms by (intro write_retry_clean) (simp add: d1_run_served)

end
