(* ===== verification/D1_Store.thy ===== *)
theory D1_Store
  imports D1_Tables "HOL-Library.List_Lexorder" "HOL-Library.Char_ord" "HOL-Library.Product_Lexorder"
begin

section \<open>The storage operations on D1\<close>

text \<open>
  The statements and operations of \<open>src/src/storage.rs\<close> on message boxes, messages, fees and
  permissions, and of \<open>src/src/retention.rs\<close> the retention predicate and the statements of an
  acknowledgment. Each SQL text of the source is a definition on the tables, taking the values
  it binds in their order; each \<open>async fn\<close> is a function over \<open>d1_db\<close> with every round trip and
  retry it makes.

  A read without \<open>ORDER BY\<close> answers in rowid order, as SQLite's scan of the index does.
\<close>

subsection \<open>Message boxes\<close>

definition SELECT_BOX_SQL :: "string \<Rightarrow> string \<Rightarrow> d1_db \<Rightarrow> nat list" where
  "SELECT_BOX_SQL identity_key box_type db =
     map bx_id (filter (\<lambda>b. bx_identity b = identity_key \<and> bx_type b = box_type) (d_boxes db))"

definition first_row :: "'a list \<Rightarrow> 'a option" where
  "first_row xs = (case xs of x # _ \<Rightarrow> Some x | [] \<Rightarrow> None)"

definition INSERT_BOX_SQL :: "string \<Rightarrow> string \<Rightarrow> nat d1_stmt" where
  "INSERT_BOX_SQL identity_key box_type db =
     (if SELECT_BOX_SQL identity_key box_type db \<noteq> [] then Inr (0, db)
      else Inr (1, db\<lparr>d_boxes := d_boxes db @
             [\<lparr>bx_id = Suc (d_last_box db), bx_type = box_type, bx_identity = identity_key\<rparr>],
             d_last_box := Suc (d_last_box db)\<rparr>))"

definition find_message_box :: "string \<Rightarrow> string \<Rightarrow> nat option d1" where
  "find_message_box identity_key box_type =
     with_d1_bounded_read (d1_read 2 (\<lambda>db. first_row (SELECT_BOX_SQL identity_key box_type db)))"

definition get_or_create_message_box :: "string \<Rightarrow> string \<Rightarrow> nat d1" where
  "get_or_create_message_box identity_key box_type db =
     andThen (find_message_box identity_key box_type db) (\<lambda>found db.
       case found of
         Some i \<Rightarrow> (Inr i, db)
       | None \<Rightarrow>
           andThen (with_d1_write_retry (d1_run 2 (INSERT_BOX_SQL identity_key box_type)) db)
             (\<lambda>_ db. andThen (find_message_box identity_key box_type db) (\<lambda>found db.
               (case found of
                  Some i \<Rightarrow> Inr i
                | None \<Rightarrow> Inl (OtherError ''Failed to create message box''), db))))"

subsection \<open>The insert of a message\<close>

definition foreign_key_failed :: d1_error where
  "foreign_key_failed =
     D1Error ''D1_ERROR: FOREIGN KEY constraint failed'' ''FOREIGN KEY constraint failed''"

definition message_row ::
  "string \<Rightarrow> nat \<Rightarrow> string \<Rightarrow> string \<Rightarrow> string \<Rightarrow> string option \<Rightarrow> string \<Rightarrow> d1_message" where
  "message_row mid bx sender recipient body beef_key now =
     \<lparr>dm_message_id = mid, dm_box = bx, dm_sender = sender, dm_recipient = recipient,
      dm_body = body, dm_created_at = now, dm_updated_at = now, dm_acknowledged_at = None,
      dm_beef_key = beef_key, dm_version = 0\<rparr>"

definition INSERT_MESSAGE_SQL ::
  "string \<Rightarrow> nat \<Rightarrow> string \<Rightarrow> string \<Rightarrow> string \<Rightarrow> string option \<Rightarrow> nat d1_stmt" where
  "INSERT_MESSAGE_SQL mid bx sender recipient body beef_key db =
     (if mid \<in> dm_message_id ` set (d_messages db) then Inr (0, db)
      else if bx \<notin> bx_id ` set (d_boxes db) then Inl foreign_key_failed
      else Inr (1, db\<lparr>d_messages := d_messages db @
             [message_row mid bx sender recipient body beef_key (d_now db)]\<rparr>))"

datatype insert_count = CountStored | CountDuplicate | ReadBack

definition insert_count_verdict :: "nat \<Rightarrow> bool \<Rightarrow> insert_count" where
  "insert_count_verdict changes retried =
     (if 0 < changes then CountStored else if retried then ReadBack else CountDuplicate)"

record stored_identity =
  si_sender :: "string option"
  si_recipient :: "string option"
  si_body :: "string option"

definition identity_of_row :: "d1_message \<Rightarrow> stored_identity" where
  "identity_of_row m =
     \<lparr>si_sender = Some (dm_sender m), si_recipient = Some (dm_recipient m), si_body = Some (dm_body m)\<rparr>"

definition retried_row_is_ours ::
  "stored_identity option \<Rightarrow> string \<Rightarrow> string \<Rightarrow> string \<Rightarrow> bool" where
  "retried_row_is_ours found sender recipient body =
     (case found of
        Some row \<Rightarrow> si_sender row = Some sender \<and> si_recipient row = Some recipient \<and>
                    si_body row = Some body
      | None \<Rightarrow> False)"

definition message_identity :: "string \<Rightarrow> stored_identity option d1" where
  "message_identity mid =
     with_d1_read_retry (d1_read 1 (\<lambda>db. map_option identity_of_row
       (first_row (filter (\<lambda>m. dm_message_id m = mid) (d_messages db)))))"

definition insert_message ::
  "string \<Rightarrow> nat \<Rightarrow> string \<Rightarrow> string \<Rightarrow> string \<Rightarrow> string option \<Rightarrow> bool d1" where
  "insert_message mid bx sender recipient body beef_key db =
     andThen (with_d1_write_retry
         (d1_run 6 (INSERT_MESSAGE_SQL mid bx sender recipient body beef_key)) db)
       (\<lambda>(changes, retried) db.
          case insert_count_verdict changes retried of
            CountStored \<Rightarrow> (Inr True, db)
          | CountDuplicate \<Rightarrow> (Inr False, db)
          | ReadBack \<Rightarrow> andThen (message_identity mid db) (\<lambda>found db.
              (Inr (retried_row_is_ours found sender recipient body), db)))"

subsection \<open>The reads of messages\<close>

definition live_message_ids_sql :: "string \<Rightarrow> string list \<Rightarrow> d1_db \<Rightarrow> string list" where
  "live_message_ids_sql recipient ids db =
     map dm_message_id (filter (\<lambda>m. dm_recipient m = recipient \<and> dm_acknowledged_at m = None \<and>
       dm_message_id m \<in> set ids) (d_messages db))"

primrec live_loop :: "string \<Rightarrow> string list list \<Rightarrow> string list \<Rightarrow> string list d1" where
  "live_loop recipient [] found db = (Inr found, db)"
| "live_loop recipient (c # cs) found db =
     (if c = [] then live_loop recipient cs found db
      else andThen (with_d1_bounded_read
          (d1_read (1 + length c) (live_message_ids_sql recipient c)) db)
        (\<lambda>rows. live_loop recipient cs (found @ rows)))"

definition live_message_ids :: "string \<Rightarrow> string list \<Rightarrow> string list d1" where
  "live_message_ids recipient ids = live_loop recipient (chunks 90 ids) []"

definition message_body :: "string \<Rightarrow> string \<Rightarrow> string option d1" where
  "message_body recipient mid =
     with_d1_read_retry (d1_read 2 (\<lambda>db. map_option dm_body (first_row
       (filter (\<lambda>m. dm_message_id m = mid \<and> dm_recipient m = recipient) (d_messages db)))))"

definition LIST_MESSAGES_LIMIT :: nat where
  "LIST_MESSAGES_LIMIT = 100"

definition LIST_INLINE_BYTES :: u64 where
  "LIST_INLINE_BYTES = 16 * 1024 * 1024"

definition listed_row :: "d1_message \<Rightarrow> message_db_row" where
  "listed_row m =
     \<lparr>m_message_id = Some (dm_message_id m), m_body = Some (dm_body m),
      m_sender = Some (dm_sender m), m_created_at = Some (dm_created_at m),
      m_updated_at = Some (dm_updated_at m)\<rparr>"

definition LIST_MESSAGES_SQL :: "string \<Rightarrow> nat \<Rightarrow> int \<Rightarrow> int \<Rightarrow> d1_db \<Rightarrow> message_db_row list" where
  "LIST_MESSAGES_SQL recipient bx limit budget db =
     map listed_row (within_budget budget (\<lambda>m. int (length (dm_body m)))
       (sql_limit limit (filter (\<lambda>m. dm_recipient m = recipient \<and> dm_box m = bx \<and>
          dm_acknowledged_at m = None) (d_messages db))))"

definition list_messages :: "string \<Rightarrow> string \<Rightarrow> message_db_row list d1" where
  "list_messages identity_key box_type db =
     andThen (find_message_box identity_key box_type db) (\<lambda>found db.
       case found of
         None \<Rightarrow> (Inr [], db)
       | Some bx \<Rightarrow> with_d1_bounded_read (d1_read 4
           (LIST_MESSAGES_SQL identity_key bx (int LIST_MESSAGES_LIMIT) (int LIST_INLINE_BYTES))) db)"

subsection \<open>Retention: which boxes keep their acknowledged messages\<close>

record retention_config =
  rc_prefixes :: "string list"

definition retention_parse :: "string option \<Rightarrow> retention_config" where
  "retention_parse raw =
     \<lparr>rc_prefixes = filter (\<lambda>s. s \<noteq> [])
        (map trim (split_on (CHR '','') (case raw of Some s \<Rightarrow> s | None \<Rightarrow> [])))\<rparr>"

definition retention_is_empty :: "retention_config \<Rightarrow> bool" where
  "retention_is_empty c = (rc_prefixes c = [])"

definition retains :: "retention_config \<Rightarrow> string \<Rightarrow> bool" where
  "retains c box_type = list_ex (\<lambda>p. starts_with p box_type) (rc_prefixes c)"

definition BACKSLASH :: char where
  "BACKSLASH = CHR 0x5C"

fun escape_like_prefix :: "string \<Rightarrow> string" where
  "escape_like_prefix [] = []"
| "escape_like_prefix (c # s) =
     (if c = BACKSLASH \<or> c = CHR ''%'' \<or> c = CHR ''_'' then BACKSLASH # c # escape_like_prefix s
      else c # escape_like_prefix s)"

definition like_patterns :: "retention_config \<Rightarrow> string list" where
  "like_patterns c = map (\<lambda>p. escape_like_prefix p @ ''%'') (rc_prefixes c)"

text \<open>
  SQLite's \<open>text LIKE pattern ESCAPE '\\'\<close>: ASCII letters match without regard to case, \<open>%\<close> any
  run, \<open>_\<close> one character, and the escape character makes the next one literal.
\<close>

function sql_like :: "string \<Rightarrow> string \<Rightarrow> bool" where
  "sql_like [] t = (t = [])"
| "sql_like (c # p) t =
     (if c = CHR ''%'' then list_ex (\<lambda>k. sql_like p (drop k t)) [0..<Suc (length t)]
      else if c = CHR ''_'' then
        (case first_char t of None \<Rightarrow> False | Some (_, r) \<Rightarrow> sql_like p r)
      else if c = BACKSLASH then
        (case p of [] \<Rightarrow> False
         | d # q \<Rightarrow> (case t of [] \<Rightarrow> False
                    | x # r \<Rightarrow> ascii_lower_char x = ascii_lower_char d \<and> sql_like q r))
      else (case t of [] \<Rightarrow> False
            | x # r \<Rightarrow> ascii_lower_char x = ascii_lower_char c \<and> sql_like p r))"
  by pat_completeness auto
termination
  by (relation "measure (\<lambda>(p, t). length p)") auto

subsection \<open>The statements of an acknowledgment\<close>

definition retained_box_exists :: "string list \<Rightarrow> d1_db \<Rightarrow> d1_message \<Rightarrow> bool" where
  "retained_box_exists patterns db m =
     list_ex (\<lambda>b. bx_id b = dm_box m \<and> list_ex (\<lambda>p. sql_like p (bx_type b)) patterns) (d_boxes db)"

text \<open>The values a statement binds: the identity key, the ids, the patterns.\<close>

definition bound_ids :: "nat \<Rightarrow> string list \<Rightarrow> string list" where
  "bound_ids n_ids binds = take n_ids (drop 1 binds)"

definition bound_patterns :: "nat \<Rightarrow> nat \<Rightarrow> string list \<Rightarrow> string list" where
  "bound_patterns n_ids n_prefixes binds = take n_prefixes (drop (1 + n_ids) binds)"

definition ack_mark :: "string \<Rightarrow> d1_message \<Rightarrow> d1_message" where
  "ack_mark now m = m\<lparr>dm_acknowledged_at := Some now, dm_updated_at := now\<rparr>"

definition ack_update_sql :: "nat \<Rightarrow> nat \<Rightarrow> string list \<Rightarrow> nat d1_stmt" where
  "ack_update_sql n_ids n_prefixes binds db =
     (let hit = (\<lambda>m. dm_recipient m = binds ! 0 \<and> dm_acknowledged_at m = None \<and>
                     dm_message_id m \<in> set (bound_ids n_ids binds) \<and>
                     retained_box_exists (bound_patterns n_ids n_prefixes binds) db m)
      in Inr (length (filter hit (d_messages db)),
              db\<lparr>d_messages := update_where hit (ack_mark (d_now db)) (d_messages db)\<rparr>))"

definition ack_delete_sql :: "nat \<Rightarrow> nat \<Rightarrow> string list \<Rightarrow> nat d1_stmt" where
  "ack_delete_sql n_ids n_prefixes binds db =
     (let hit = (\<lambda>m. dm_recipient m = binds ! 0 \<and>
                     dm_message_id m \<in> set (bound_ids n_ids binds) \<and>
                     (n_prefixes = 0 \<or>
                      \<not> retained_box_exists (bound_patterns n_ids n_prefixes binds) db m))
      in Inr (length (filter hit (d_messages db)),
              db\<lparr>d_messages := filter (\<lambda>m. \<not> hit m) (d_messages db)\<rparr>))"

definition ack_ids_per_statement :: "nat \<Rightarrow> nat" where
  "ack_ids_per_statement n_prefixes = max (saturating_sub D1_MAX_BOUND_PARAMS (1 + n_prefixes)) 1"

record ack_statement =
  ack_sql :: "string list \<Rightarrow> nat d1_stmt"
  ack_binds :: "string list"

definition ack_statements :: "string \<Rightarrow> string list \<Rightarrow> string list \<Rightarrow> ack_statement list" where
  "ack_statements identity_key ids patterns =
     (let n_prefixes = length patterns;
          per = ack_ids_per_statement n_prefixes;
          statement = (\<lambda>sql chunk. \<lparr>ack_sql = sql, ack_binds = identity_key # chunk @ patterns\<rparr>)
      in (if 0 < n_prefixes
          then map (\<lambda>c. statement (ack_update_sql (length c) n_prefixes) c) (chunks per ids) else [])
         @ map (\<lambda>c. statement (ack_delete_sql (length c) n_prefixes) c) (chunks per ids))"

definition prepared :: "ack_statement \<Rightarrow> nat \<times> nat d1_stmt" where
  "prepared s = (length (ack_binds s), ack_sql s (ack_binds s))"

definition acknowledge_messages :: "string \<Rightarrow> string list \<Rightarrow> retention_config \<Rightarrow> nat d1" where
  "acknowledge_messages identity_key message_ids retention db =
     andThen (with_d1_write_retry
         (d1_batch (map prepared (ack_statements identity_key message_ids (like_patterns retention)))) db)
       (\<lambda>(changes, any_retried) db.
          (Inr (if 0 < sum_list changes then sum_list changes
                else if any_retried then length message_ids else 0), db))"

subsection \<open>Fees\<close>

text \<open>\<open>v as i32\<close> on the \<open>f64\<close> of a column: saturating at both ends.\<close>

definition i32_of_f64 :: "i64 \<Rightarrow> int" where
  "i32_of_f64 v = max (- (2 ^ 31)) (min (2 ^ 31 - 1) (js_number v))"

definition smart_default_fee :: "string \<Rightarrow> int" where
  "smart_default_fee box_type = (if box_type = ''notifications'' then 10 else 0)"

definition SELECT_SERVER_FEE_SQL :: "string \<Rightarrow> d1_db \<Rightarrow> i64 list" where
  "SELECT_SERVER_FEE_SQL box_type db =
     map snd (filter (\<lambda>(b, _). b = box_type) (d_server_fees db))"

definition get_server_delivery_fee :: "string \<Rightarrow> int d1" where
  "get_server_delivery_fee box_type db =
     andThen (d1_read 1 (\<lambda>db. first_row (SELECT_SERVER_FEE_SQL box_type db)) db) (\<lambda>row db.
       (Inr (case row of Some v \<Rightarrow> i32_of_f64 v | None \<Rightarrow> 0), db))"

definition perm_rows :: "string \<Rightarrow> string option \<Rightarrow> string \<Rightarrow> d1_db \<Rightarrow> d1_perm list" where
  "perm_rows recipient sender mbox db =
     filter (\<lambda>p. pm_recipient p = recipient \<and> pm_sender p = sender \<and> pm_box p = mbox) (d_perms db)"

text \<open>A conflict on \<open>UNIQUE(recipient, sender, message_box)\<close>: two NULL senders are distinct.\<close>

definition perm_conflict :: "string \<Rightarrow> string option \<Rightarrow> string \<Rightarrow> d1_perm \<Rightarrow> bool" where
  "perm_conflict recipient sender mbox p \<longleftrightarrow>
     pm_recipient p = recipient \<and> sender \<noteq> None \<and> pm_sender p = sender \<and> pm_box p = mbox"

definition new_perm :: "string \<Rightarrow> string option \<Rightarrow> string \<Rightarrow> int \<Rightarrow> string \<Rightarrow> d1_perm" where
  "new_perm recipient sender mbox fee now =
     \<lparr>pm_recipient = recipient, pm_sender = sender, pm_box = mbox, pm_fee = fee,
      pm_created_at = now, pm_updated_at = now\<rparr>"

definition INSERT_DEFAULT_PERM_SQL :: "string \<Rightarrow> string \<Rightarrow> int \<Rightarrow> nat d1_stmt" where
  "INSERT_DEFAULT_PERM_SQL recipient mbox fee db =
     (if list_ex (perm_conflict recipient None mbox) (d_perms db) then Inr (0, db)
      else Inr (1, db\<lparr>d_perms := d_perms db @ [new_perm recipient None mbox fee (d_now db)]\<rparr>))"

definition get_recipient_fee :: "string \<Rightarrow> string \<Rightarrow> string \<Rightarrow> int d1" where
  "get_recipient_fee recipient sender box_type db =
     andThen (d1_read 3 (\<lambda>db. first_row (perm_rows recipient (Some sender) box_type db)) db)
       (\<lambda>specific db. case specific of
          Some row \<Rightarrow> (Inr (i32_of_f64 (pm_fee row)), db)
        | None \<Rightarrow>
            andThen (d1_read 2 (\<lambda>db. first_row (perm_rows recipient None box_type db)) db)
              (\<lambda>box_wide db. case box_wide of
                 Some row \<Rightarrow> (Inr (i32_of_f64 (pm_fee row)), db)
               | None \<Rightarrow>
                   (let default_fee = smart_default_fee box_type
                    in andThen (with_d1_write_retry
                         (d1_run 3 (INSERT_DEFAULT_PERM_SQL recipient box_type default_fee)) db)
                         (\<lambda>_ db. (Inr default_fee, db)))))"

record send_context =
  sc_recipient_fee :: int
  sc_server_fee :: int
  sc_box_id :: "nat option"

definition SELECT_FEE_SQL :: "string \<Rightarrow> string \<Rightarrow> string \<Rightarrow> d1_db \<Rightarrow> i64 list" where
  "SELECT_FEE_SQL recipient mbox sender db =
     map pm_fee (take 1 (sort_key (\<lambda>p. pm_sender p = None)
       (filter (\<lambda>p. pm_recipient p = recipient \<and> pm_box p = mbox \<and>
          (pm_sender p = Some sender \<or> pm_sender p = None)) (d_perms db))))"

definition send_context_of :: "string \<Rightarrow> string \<Rightarrow> string \<Rightarrow> d1_db \<Rightarrow> send_context" where
  "send_context_of recipient sender box_type db =
     \<lparr>sc_recipient_fee =
        (case first_row (SELECT_FEE_SQL recipient box_type sender db) of
           Some v \<Rightarrow> i32_of_f64 v | None \<Rightarrow> smart_default_fee box_type),
      sc_server_fee =
        (case first_row (SELECT_SERVER_FEE_SQL box_type db) of Some v \<Rightarrow> i32_of_f64 v | None \<Rightarrow> 0),
      sc_box_id = first_row (SELECT_BOX_SQL recipient box_type db)\<rparr>"

text \<open>The loop retries on any error; the last one is returned.\<close>

primrec context_loop :: "nat \<Rightarrow> send_context d1 \<Rightarrow> d1_error option \<Rightarrow> send_context d1" where
  "context_loop 0 op last_err db =
     (Inl (case last_err of Some e \<Rightarrow> e | None \<Rightarrow> OtherError ''panicked''), db)"
| "context_loop (Suc n) op last_err db =
     (case op db of
        (Inr c, db') \<Rightarrow> (Inr c, db')
      | (Inl e, db') \<Rightarrow> context_loop n op (Some e) db')"

definition read_send_context :: "string \<Rightarrow> string \<Rightarrow> string \<Rightarrow> send_context d1" where
  "read_send_context recipient sender box_type =
     context_loop 3 (d1_read 3 (send_context_of recipient sender box_type)) None"

subsection \<open>Permissions\<close>

definition UPSERT_PERM_SQL :: "string \<Rightarrow> string option \<Rightarrow> string \<Rightarrow> int \<Rightarrow> nat d1_stmt" where
  "UPSERT_PERM_SQL recipient sender mbox fee db =
     (if list_ex (perm_conflict recipient sender mbox) (d_perms db)
      then Inr (1, db\<lparr>d_perms := update_where (perm_conflict recipient sender mbox)
                      (\<lambda>p. p\<lparr>pm_fee := fee, pm_updated_at := d_now db\<rparr>) (d_perms db)\<rparr>)
      else Inr (1, db\<lparr>d_perms := d_perms db @ [new_perm recipient sender mbox fee (d_now db)]\<rparr>))"

definition set_permission :: "string \<Rightarrow> string option \<Rightarrow> string \<Rightarrow> int \<Rightarrow> bool d1" where
  "set_permission recipient sender message_box recipient_fee db =
     andThen (with_d1_write_retry
         (d1_run (case sender of Some _ \<Rightarrow> 5 | None \<Rightarrow> 4)
            (UPSERT_PERM_SQL recipient sender message_box recipient_fee)) db)
       (\<lambda>(changes, retried) db. (Inr (0 < changes \<or> retried), db))"

record permission_db_row =
  pr_sender :: "string option"
  pr_message_box :: "string option"
  pr_recipient_fee :: "int option"
  pr_created_at :: "string option"
  pr_updated_at :: "string option"

definition permission_row :: "d1_perm \<Rightarrow> permission_db_row" where
  "permission_row p =
     \<lparr>pr_sender = pm_sender p, pr_message_box = Some (pm_box p),
      pr_recipient_fee = Some (js_number (pm_fee p)), pr_created_at = Some (pm_created_at p),
      pr_updated_at = Some (pm_updated_at p)\<rparr>"

definition get_permission :: "string \<Rightarrow> string option \<Rightarrow> string \<Rightarrow> permission_db_row option d1" where
  "get_permission recipient sender message_box =
     d1_read (case sender of Some _ \<Rightarrow> 3 | None \<Rightarrow> 2)
       (\<lambda>db. map_option permission_row (first_row (perm_rows recipient sender message_box db)))"

text \<open>The listing's order: the box, the box-wide row, the sender, then the time either way.\<close>

definition perm_order :: "bool \<Rightarrow> d1_perm list \<Rightarrow> d1_perm list" where
  "perm_order ascending ps =
     sort_key (\<lambda>p. (pm_box p, pm_sender p))
       (if ascending then sort_key pm_created_at ps else rev (sort_key pm_created_at (rev ps)))"

definition listed_perms :: "string \<Rightarrow> string option \<Rightarrow> d1_db \<Rightarrow> d1_perm list" where
  "listed_perms recipient message_box db =
     filter (\<lambda>p. pm_recipient p = recipient \<and>
        (case message_box of Some mb \<Rightarrow> pm_box p = mb | None \<Rightarrow> True)) (d_perms db)"

definition list_permissions ::
  "string \<Rightarrow> string option \<Rightarrow> nat \<Rightarrow> nat \<Rightarrow> bool \<Rightarrow> (permission_db_row list \<times> u64) d1" where
  "list_permissions recipient message_box limit offset ascending db =
     andThen (d1_read (case message_box of Some _ \<Rightarrow> 2 | None \<Rightarrow> 1)
         (\<lambda>db. length (listed_perms recipient message_box db)) db)
       (\<lambda>total db.
          andThen (d1_read (case message_box of Some _ \<Rightarrow> 4 | None \<Rightarrow> 3)
              (\<lambda>db. map permission_row (take limit (drop offset
                 (perm_order ascending (listed_perms recipient message_box db))))) db)
            (\<lambda>rows db. (Inr (rows, total), db)))"

end
