(* ===== verification/Archive.thy ===== *)
theory Archive
  imports D1_Store
begin

section \<open>The archive consumer\<close>

text \<open>
  \<open>src/src/archive.rs\<close>: the queue's consumer that copies every change of a mailbox row into D1
  and tells the recipients' hubs what D1 holds. The message type is \<open>archive_message_rec\<close> of the
  theory \<open>Mailbox\<close>, which writes it; the rows and statements are on \<open>d1_db\<close>.

  Parameters: reading a JSON value into the message (serde), the answer of a recipient's hub to
  \<open>/internal/archive-read\<close>, and whether the database is bound. A version crosses to D1 and
  back as a JavaScript number (\<open>js_number\<close>).
\<close>

subsection \<open>Reading one queue message\<close>

definition parse_message ::
  "(json \<Rightarrow> string + archive_message_rec) \<Rightarrow> json \<Rightarrow> string + archive_message_rec" where
  "parse_message from_value v =
     (case from_value v of
        Inl e \<Rightarrow> Inl (''not an archive message: '' @ e)
      | Inr m \<Rightarrow>
          if am_version m = 0 then Inl ''version 0''
          else if am_recipient m = [] then Inl ''empty recipient''
          else if am_message_id m = [] then Inl ''empty messageId''
          else if am_message_box m = [] then Inl ''empty messageBox''
          else if am_sender m = [] then Inl ''empty sender''
          else if am_change m = Insert \<and> am_body m = None \<and> \<not> am_body_in_hub m
          then Inl ''an insert without its body''
          else Inr m)"

subsection \<open>What D1 holds, and the plan\<close>

record held =
  h_recipient :: string
  h_version :: u64

record held_row =
  hr_message_id :: "string option"
  hr_recipient :: "string option"
  hr_archive_version :: "int option"

definition archive_held_sql :: "string list \<Rightarrow> d1_db \<Rightarrow> held_row list" where
  "archive_held_sql ids db =
     map (\<lambda>m. \<lparr>hr_message_id = Some (dm_message_id m), hr_recipient = Some (dm_recipient m),
               hr_archive_version = Some (js_number (dm_version m))\<rparr>)
       (filter (\<lambda>m. dm_message_id m \<in> set ids) (d_messages db))"

definition held_entry :: "held_row \<Rightarrow> (string \<times> held) option" where
  "held_entry r =
     (case (hr_message_id r, hr_recipient r) of
        (Some i, Some w) \<Rightarrow>
          Some (i, \<lparr>h_recipient = w,
                    h_version = u64_of_i64_clamped (case hr_archive_version r of Some v \<Rightarrow> v | None \<Rightarrow> 0)\<rparr>)
      | _ \<Rightarrow> None)"

definition held_map :: "held_row list \<Rightarrow> string \<rightharpoonup> held" where
  "held_map rows = map_of (rev (List.map_filter held_entry rows))"

datatype verdict = Apply | Repeat | Superseded | Collision

fun verdict_as_str :: "verdict \<Rightarrow> string" where
  "verdict_as_str Apply = ''archive.done''"
| "verdict_as_str Repeat = ''archive.repeat''"
| "verdict_as_str Superseded = ''archive.superseded''"
| "verdict_as_str Collision = ''archive.collision''"

definition note_best ::
  "archive_message_rec list \<Rightarrow> (string \<rightharpoonup> nat) \<Rightarrow> nat \<Rightarrow> (string \<rightharpoonup> nat)" where
  "note_best batch best i =
     (let m = batch ! i
      in case best (am_message_id m) of
           Some b \<Rightarrow> if am_version (batch ! b) < am_version m then best(am_message_id m \<mapsto> i) else best
         | None \<Rightarrow> best(am_message_id m \<mapsto> i))"

definition best_of :: "archive_message_rec list \<Rightarrow> (string \<rightharpoonup> nat)" where
  "best_of batch = foldl (note_best batch) Map.empty [0..<length batch]"

definition verdict_of ::
  "archive_message_rec list \<Rightarrow> (string \<rightharpoonup> held) \<Rightarrow> (string \<rightharpoonup> nat) \<Rightarrow> nat \<Rightarrow> verdict" where
  "verdict_of batch held best i =
     (let m = batch ! i;
          bi = the (best (am_message_id m));
          owner = (case held (am_message_id m) of Some h \<Rightarrow> h_recipient h
                   | None \<Rightarrow> am_recipient (batch ! bi))
      in if am_recipient m \<noteq> owner then Collision
         else if bi \<noteq> i then Superseded
         else (case held (am_message_id m) of
                 Some h \<Rightarrow> if am_version m \<le> h_version h then Repeat else Apply
               | None \<Rightarrow> Apply))"

definition plan :: "archive_message_rec list \<Rightarrow> (string \<rightharpoonup> held) \<Rightarrow> verdict list" where
  "plan batch held = map (verdict_of batch held (best_of batch)) [0..<length batch]"

subsection \<open>The statements of one applied message\<close>

definition ARCHIVE_BOX_SQL :: "string \<Rightarrow> string \<Rightarrow> nat d1_stmt" where
  "ARCHIVE_BOX_SQL recipient mbox = INSERT_BOX_SQL recipient mbox"

definition upsert_update :: "d1_message \<Rightarrow> string \<Rightarrow> d1_message \<Rightarrow> d1_message" where
  "upsert_update ex now m =
     m\<lparr>dm_body := (if dm_body ex \<noteq> [] then dm_body ex else dm_body m),
       dm_acknowledged_at := (case dm_acknowledged_at m of Some t \<Rightarrow> Some t
                              | None \<Rightarrow> dm_acknowledged_at ex),
       dm_version := dm_version ex, dm_updated_at := now\<rparr>"

definition excluded_row ::
  "string \<Rightarrow> nat \<Rightarrow> string \<Rightarrow> string \<Rightarrow> string option \<Rightarrow> string option \<Rightarrow> int \<Rightarrow> int \<Rightarrow> string \<Rightarrow>
     d1_message" where
  "excluded_row mid bx sender recipient body created_at acked version now =
     \<lparr>dm_message_id = mid, dm_box = bx, dm_sender = sender, dm_recipient = recipient,
      dm_body = (case body of Some b \<Rightarrow> b | None \<Rightarrow> []),
      dm_created_at = (case created_at of Some t \<Rightarrow> t | None \<Rightarrow> now),
      dm_updated_at = now, dm_acknowledged_at = (if acked = 1 then Some now else None),
      dm_beef_key = None, dm_version = version\<rparr>"

definition ARCHIVE_UPSERT_SQL ::
  "string \<Rightarrow> string \<Rightarrow> string \<Rightarrow> string option \<Rightarrow> string option \<Rightarrow> int \<Rightarrow> int \<Rightarrow> string \<Rightarrow> string \<Rightarrow>
     nat d1_stmt" where
  "ARCHIVE_UPSERT_SQL mid sender recipient body created_at acked version owner mbox db =
     (case SELECT_BOX_SQL owner mbox db of
        [] \<Rightarrow> Inr (0, db)
      | bx # _ \<Rightarrow>
          (let ex = excluded_row mid bx sender recipient body created_at acked version (d_now db)
           in case find (\<lambda>m. dm_message_id m = mid) (d_messages db) of
                None \<Rightarrow> Inr (1, db\<lparr>d_messages := d_messages db @ [ex]\<rparr>)
              | Some m \<Rightarrow>
                  if dm_version m < dm_version ex \<and> dm_recipient m = dm_recipient ex
                  then Inr (1, db\<lparr>d_messages := update_where (\<lambda>m. dm_message_id m = mid)
                                   (upsert_update ex (d_now db)) (d_messages db)\<rparr>)
                  else Inr (0, db)))"

definition acknowledged_bind :: "archive_message_rec \<Rightarrow> int" where
  "acknowledged_bind m = (if am_change m = Acknowledge then 1 else 0)"

definition version_bind :: "archive_message_rec \<Rightarrow> int" where
  "version_bind m = js_number (i64_of_u64 (am_version m))"

definition statements :: "archive_message_rec \<Rightarrow> (nat \<times> nat d1_stmt) list" where
  "statements m =
     [(2, ARCHIVE_BOX_SQL (am_recipient m) (am_message_box m)),
      (9, ARCHIVE_UPSERT_SQL (am_message_id m) (am_sender m) (am_recipient m) (am_body m)
            (am_created_at m) (acknowledged_bind m) (version_bind m)
            (am_recipient m) (am_message_box m))]"

subsection \<open>One batch\<close>

definition ARCHIVE_READ_CHUNK :: nat where
  "ARCHIVE_READ_CHUNK = 100"

primrec held_rows_loop :: "string list list \<Rightarrow> held_row list \<Rightarrow> held_row list d1" where
  "held_rows_loop [] rows db = (Inr rows, db)"
| "held_rows_loop (c # cs) rows db =
     andThen (with_d1_bounded_read (d1_read (length c) (archive_held_sql c)) db)
       (\<lambda>more. held_rows_loop cs (rows @ more))"

definition applied_messages ::
  "archive_message_rec list \<Rightarrow> verdict list \<Rightarrow> archive_message_rec list" where
  "applied_messages batch verdicts = map fst (filter (\<lambda>(_, v). v = Apply) (zip batch verdicts))"

definition archive_batch :: "archive_message_rec list \<Rightarrow> verdict list d1" where
  "archive_batch batch db =
     (let ids = remdups_adj (sort (map am_message_id batch))
      in andThen (held_rows_loop (chunks ARCHIVE_READ_CHUNK ids) [] db) (\<lambda>rows db.
           let verdicts = plan batch (held_map rows);
               applied = applied_messages batch verdicts
           in if applied = [] then (Inr verdicts, db)
              else andThen (with_d1_write_retry (d1_batch (concat (map statements applied))) db)
                     (\<lambda>_ db. (Inr verdicts, db))))"

subsection \<open>What the hubs are told, and the bodies they keep\<close>

primrec push_for :: "string \<Rightarrow> 'a \<Rightarrow> (string \<times> 'a list) list \<Rightarrow> (string \<times> 'a list) list" where
  "push_for r x [] = [(r, [x])]"
| "push_for r x (e # es) = (if fst e = r then (fst e, snd e @ [x]) # es else e # push_for r x es)"

definition done_of :: "archive_message_rec \<Rightarrow> verdict \<Rightarrow> done_rec" where
  "done_of m v =
     \<lparr>d_message_id = am_message_id m, d_version = am_version m, d_collision = (v = Collision)\<rparr>"

definition done_by_recipient ::
  "archive_message_rec list \<Rightarrow> verdict list \<Rightarrow> (string \<times> done_rec list) list" where
  "done_by_recipient batch verdicts =
     foldl (\<lambda>out (m, v). push_for (am_recipient m) (done_of m v) out) [] (zip batch verdicts)"

definition bodies_in_hub :: "archive_message_rec list \<Rightarrow> (string \<times> nat list) list" where
  "bodies_in_hub batch =
     foldl (\<lambda>out i. let m = batch ! i in
              if am_body_in_hub m \<and> am_body m = None then push_for (am_recipient m) i out else out)
       [] [0..<length batch]"

definition body_from_hub :: "archive_message_rec \<Rightarrow> archive_row_rec list \<Rightarrow> string option" where
  "body_from_hub m rows =
     Option.bind (find (\<lambda>r. ar_message_id r = am_message_id m) rows) ar_body"

subsection \<open>The queue's handler\<close>

text \<open>
  What the handler does with a raw message of the queue, by its position in the batch, in the
  order it is done; the hubs it tells; and D1 after it.
\<close>

datatype disposition = MarkAck | MarkRetry

record consumed =
  c_marks :: "(nat \<times> disposition) list"
  c_told :: "(string \<times> done_rec list) list"

primrec parse_all ::
  "(json \<Rightarrow> string + archive_message_rec) \<Rightarrow> nat \<Rightarrow> (string + json) list \<Rightarrow>
     (nat \<times> archive_message_rec) list \<times> (nat \<times> disposition) list" where
  "parse_all from_value i [] = ([], [])"
| "parse_all from_value i (raw # raws) =
     (let (good, marks) = parse_all from_value (Suc i) raws
      in case (case raw of Inl e \<Rightarrow> Inl (''not JSON: '' @ e) | Inr v \<Rightarrow> parse_message from_value v) of
           Inr m \<Rightarrow> ((i, m) # good, marks)
         | Inl why \<Rightarrow> (good, (i, MarkAck) # marks))"

record fill_state =
  fs_msgs :: "archive_message_rec list"
  fs_keep :: "bool list"
  fs_marks :: "(nat \<times> disposition) list"

definition fill_one :: "nat list \<Rightarrow> archive_row_rec list \<Rightarrow> fill_state \<Rightarrow> nat \<Rightarrow> fill_state" where
  "fill_one raws rows st i =
     (case body_from_hub (fs_msgs st ! i) rows of
        Some body \<Rightarrow> st\<lparr>fs_msgs := (fs_msgs st)[i := (fs_msgs st ! i)\<lparr>am_body := Some body\<rparr>]\<rparr>
      | None \<Rightarrow> st\<lparr>fs_marks := fs_marks st @ [(raws ! i, MarkAck)], fs_keep := (fs_keep st)[i := False]\<rparr>)"

definition retry_one :: "nat list \<Rightarrow> fill_state \<Rightarrow> nat \<Rightarrow> fill_state" where
  "retry_one raws st i =
     st\<lparr>fs_marks := fs_marks st @ [(raws ! i, MarkRetry)], fs_keep := (fs_keep st)[i := False]\<rparr>"

definition fill_group ::
  "(string \<Rightarrow> string list \<Rightarrow> string + archive_row_rec list) \<Rightarrow> nat list \<Rightarrow> fill_state \<Rightarrow>
     string \<times> nat list \<Rightarrow> fill_state" where
  "fill_group read_hub_rows raws st g =
     (let (recipient, idxs) = g;
          ids = map (\<lambda>i. am_message_id (fs_msgs st ! i)) idxs
      in case read_hub_rows recipient ids of
           Inr rows \<Rightarrow> foldl (fill_one raws rows) st idxs
         | Inl e \<Rightarrow> foldl (retry_one raws) st idxs)"

definition fill_bodies ::
  "(string \<Rightarrow> string list \<Rightarrow> string + archive_row_rec list) \<Rightarrow> nat list \<Rightarrow>
     archive_message_rec list \<Rightarrow> fill_state" where
  "fill_bodies read_hub_rows raws msgs =
     foldl (fill_group read_hub_rows raws)
       \<lparr>fs_msgs = msgs, fs_keep = replicate (length msgs) True, fs_marks = []\<rparr> (bodies_in_hub msgs)"

definition kept_pairs :: "nat list \<Rightarrow> fill_state \<Rightarrow> (nat \<times> archive_message_rec) list" where
  "kept_pairs raws st =
     map fst (filter snd (zip (zip raws (fs_msgs st)) (fs_keep st)))"

definition consume ::
  "(json \<Rightarrow> string + archive_message_rec) \<Rightarrow> (string \<Rightarrow> string list \<Rightarrow> string + archive_row_rec list) \<Rightarrow>
     d1_error option \<Rightarrow> (string + json) list \<Rightarrow> d1_db \<Rightarrow> consumed \<times> d1_db" where
  "consume from_value read_hub_rows unbound batch db =
     (let (good, malformed) = parse_all from_value 0 batch
      in if good = [] then (\<lparr>c_marks = malformed, c_told = []\<rparr>, db)
         else
           (let st = fill_bodies read_hub_rows (map fst good) (map snd good);
                kept = kept_pairs (map fst good) st;
                marks = malformed @ fs_marks st;
                raws = map fst kept;
                msgs = map snd kept
            in if kept = [] then (\<lparr>c_marks = marks, c_told = []\<rparr>, db)
               else
                 (case (case unbound of Some e \<Rightarrow> (Inl e, db) | None \<Rightarrow> archive_batch msgs db) of
                    (Inr verdicts, db') \<Rightarrow>
                      (\<lparr>c_marks = marks @ map (\<lambda>i. (i, MarkAck)) raws,
                        c_told = done_by_recipient msgs verdicts\<rparr>, db')
                  | (Inl e, db') \<Rightarrow>
                      (\<lparr>c_marks = marks @ map (\<lambda>i. (i, MarkRetry)) raws, c_told = []\<rparr>, db'))))"

end
