(* ===== verification/D1_Store_Props.thy ===== *)
theory D1_Store_Props
  imports D1_Store
begin

section \<open>What the storage operations do, whatever the platform does to their round trips\<close>

text \<open>
  Every lemma here quantifies over the script of round trips: answers lost after the write
  landed, refusals, retries. The insert of a message is exact about whose row holds the id; an
  acknowledgment, chunked to D1's parameter limit and retried, is the one reference update; the
  one-batch fee read agrees with the step-by-step one; a permission set for a sender is read
  back, and a box-wide one set twice is not.
\<close>

subsection \<open>Reads and rows\<close>

lemma first_row_filter_None: "first_row (filter p xs) = None \<longleftrightarrow> (\<forall>x\<in>set xs. \<not> p x)"
  by (induction xs) (auto simp: first_row_def)

lemma first_row_SomeD: "first_row xs = Some x \<Longrightarrow> x \<in> set xs"
  by (cases xs) (auto simp: first_row_def)

lemma first_row_filter_SomeD: "first_row (filter p xs) = Some x \<Longrightarrow> x \<in> set xs \<and> p x"
  by (auto dest: first_row_SomeD)

lemma first_row_simps [simp]: "first_row [] = None" "first_row (x # xs) = Some x"
  by (simp_all add: first_row_def)

lemma first_row_append [simp]:
  "first_row (xs @ ys) = (case first_row xs of Some x \<Rightarrow> Some x | None \<Rightarrow> first_row ys)"
  by (cases xs) auto

lemma first_row_map [simp]: "first_row (map f xs) = map_option f (first_row xs)"
  by (cases xs) auto

subsection \<open>The insert\<close>

definition message_ids :: "d1_db \<Rightarrow> string set" where
  "message_ids db = dm_message_id ` set (d_messages db)"

lemma insert_stmt_cases:
  assumes "INSERT_MESSAGE_SQL mid bx sender recipient body key db = Inr (n, db')"
  shows "(n = 0 \<and> mid \<in> message_ids db \<and> db' = db) \<or>
    (n = 1 \<and> mid \<notin> message_ids db \<and>
     db' = db\<lparr>d_messages := d_messages db @ [message_row mid bx sender recipient body key (d_now db)]\<rparr>)"
  using assms by (auto simp: INSERT_MESSAGE_SQL_def message_ids_def split: if_splits)

text \<open>What the attempts of one insert leave: the table as it was, or with this insert's row.\<close>

definition inserting ::
  "string \<Rightarrow> d1_message \<Rightarrow> d1_db \<Rightarrow> bool \<Rightarrow> d1_db \<Rightarrow> bool" where
  "inserting mid row db0 retried db \<longleftrightarrow>
     d_now db = d_now db0 \<and>
     (d_messages db = d_messages db0 \<or>
      retried \<and> mid \<notin> message_ids db0 \<and> d_messages db = d_messages db0 @ [row])"

definition insert_answer ::
  "string \<Rightarrow> d1_message \<Rightarrow> d1_db \<Rightarrow> nat \<Rightarrow> bool \<Rightarrow> d1_db \<Rightarrow> bool" where
  "insert_answer mid row db0 n retried db \<longleftrightarrow>
     (if 0 < n then mid \<notin> message_ids db0 \<and> d_messages db = d_messages db0 @ [row]
      else mid \<in> message_ids db0 \<and> d_messages db = d_messages db0 \<or>
           retried \<and> mid \<notin> message_ids db0 \<and> d_messages db = d_messages db0 @ [row])"

lemma insert_attempt:
  assumes before: "inserting mid (message_row mid bx sender recipient body key (d_now db0)) db0 b db"
    and run: "d1_run 6 (INSERT_MESSAGE_SQL mid bx sender recipient body key) db = (r, db')"
  shows "case r of
      Inl e \<Rightarrow> inserting mid (message_row mid bx sender recipient body key (d_now db0)) db0 True db'
    | Inr n \<Rightarrow> insert_answer mid (message_row mid bx sender recipient body key (d_now db0)) db0 n b db'"
  using run
proof (cases rule: d1_run_cases)
  case (kept e)
  with before show ?thesis by (auto simp: inserting_def)
next
  case (landed e a)
  from insert_stmt_cases [OF landed(3)] before landed(1) show ?thesis
    by (auto simp: inserting_def message_ids_def message_row_def)
next
  case (served a)
  from insert_stmt_cases [OF served(3)] before served(1) show ?thesis
    by (auto simp: inserting_def insert_answer_def message_ids_def message_row_def)
qed

lemma insert_retry:
  assumes "with_d1_write_retry (d1_run 6 (INSERT_MESSAGE_SQL mid bx sender recipient body key)) db
    = (r, db')"
  shows "case r of
      Inr (n, b) \<Rightarrow> insert_answer mid (message_row mid bx sender recipient body key (d_now db)) db n b db'
    | Inl e \<Rightarrow> inserting mid (message_row mid bx sender recipient body key (d_now db)) db True db'"
proof (rule write_retry_rule [OF _ _ _ assms])
  show "inserting mid (message_row mid bx sender recipient body key (d_now db)) db False db"
    by (simp add: inserting_def)
qed (use insert_attempt in fastforce)+

lemma message_identity_reads:
  assumes "message_identity mid db = (r, db')"
  shows "tables db' = tables db"
    and "r = Inr found \<Longrightarrow> found = map_option identity_of_row
      (first_row (filter (\<lambda>m. dm_message_id m = mid) (d_messages db)))"
  using read_retry_tables [OF assms [unfolded message_identity_def]]
    tables_fields(1) [OF read_retry_tables(1) [OF assms [unfolded message_identity_def]]]
  by simp_all

definition held_as :: "string \<Rightarrow> string \<Rightarrow> string \<Rightarrow> string \<Rightarrow> d1_db \<Rightarrow> bool" where
  "held_as mid sender recipient body db \<longleftrightarrow>
     (\<exists>m\<in>set (d_messages db). dm_message_id m = mid \<and> dm_sender m = sender \<and>
        dm_recipient m = recipient \<and> dm_body m = body)"

lemma held_as_new_row:
  "d_messages db = ms @ [message_row mid bx sender recipient body key now] \<Longrightarrow>
     held_as mid sender recipient body db"
  by (auto simp: held_as_def message_row_def)

lemma ours_is_held:
  assumes "retried_row_is_ours (map_option identity_of_row
      (first_row (filter (\<lambda>m. dm_message_id m = mid) (d_messages db)))) sender recipient body"
  shows "held_as mid sender recipient body db"
proof -
  obtain m where "first_row (filter (\<lambda>m. dm_message_id m = mid) (d_messages db)) = Some m"
    and "dm_sender m = sender" "dm_recipient m = recipient" "dm_body m = body"
    using assms by (auto simp: retried_row_is_ours_def identity_of_row_def split: option.splits)
  then show ?thesis by (auto simp: held_as_def dest: first_row_filter_SomeD)
qed

lemma new_row_is_ours:
  assumes "mid \<notin> dm_message_id ` set ms"
  shows "retried_row_is_ours (map_option identity_of_row (first_row (filter (\<lambda>m. dm_message_id m = mid)
      (ms @ [message_row mid bx sender recipient body key now])))) sender recipient body"
proof -
  have "filter (\<lambda>m. dm_message_id m = mid) ms = []" using assms by (auto simp: filter_empty_conv)
  then show ?thesis by (simp add: message_row_def retried_row_is_ours_def identity_of_row_def)
qed

text \<open>The read back after a retried zero: true for this insert's own row, false for another's.\<close>

lemma read_back_outcome:
  assumes i: "message_identity mid db1 = (r, db2)"
    and answer: "insert_answer mid (message_row mid bx sender recipient body key now) db 0 True db1"
  shows "d_messages db2 = d_messages db1"
    and "r = Inr found \<Longrightarrow> retried_row_is_ours found sender recipient body \<Longrightarrow>
      held_as mid sender recipient body db2"
    and "r = Inr found \<Longrightarrow> \<not> retried_row_is_ours found sender recipient body \<Longrightarrow>
      mid \<in> message_ids db \<and> d_messages db2 = d_messages db"
proof -
  show same: "d_messages db2 = d_messages db1"
    using tables_fields(1) [OF message_identity_reads(1) [OF i]] .
  note found = message_identity_reads(2) [OF i, folded same]
  show "held_as mid sender recipient body db2"
    if "r = Inr found" "retried_row_is_ours found sender recipient body"
    using ours_is_held [of mid db2] found [OF that(1)] that(2) by simp
  show "mid \<in> message_ids db \<and> d_messages db2 = d_messages db"
    if r: "r = Inr found" and no: "\<not> retried_row_is_ours found sender recipient body"
  proof (rule ccontr)
    assume "\<not> (mid \<in> message_ids db \<and> d_messages db2 = d_messages db)"
    with answer same have "mid \<notin> dm_message_id ` set (d_messages db)"
      and "d_messages db2 = d_messages db @ [message_row mid bx sender recipient body key now]"
      by (auto simp: insert_answer_def message_ids_def)
    with new_row_is_ours [of mid "d_messages db"] found [OF r] no show False
      by (simp del: filter_append)
  qed
qed

text \<open>The insert's outcome: what it leaves in the table, and what each answer means.\<close>

lemma insert_message_outcome:
  assumes ins: "insert_message mid bx sender recipient body key db = (r, db')"
  defines "row \<equiv> message_row mid bx sender recipient body key (d_now db)"
  shows "(d_messages db' = d_messages db \<or>
      mid \<notin> message_ids db \<and> d_messages db' = d_messages db @ [row]) \<and>
    (r = Inr True \<longrightarrow> held_as mid sender recipient body db') \<and>
    (r = Inr False \<longrightarrow> mid \<in> message_ids db \<and> d_messages db' = d_messages db)"
proof -
  obtain r1 db1 where w: "with_d1_write_retry
      (d1_run 6 (INSERT_MESSAGE_SQL mid bx sender recipient body key)) db = (r1, db1)"
    by (cases "with_d1_write_retry (d1_run 6 (INSERT_MESSAGE_SQL mid bx sender recipient body key)) db")
  note post = insert_retry [OF w]
  show ?thesis
  proof (cases r1)
    case (Inl e)
    with post ins w show ?thesis by (auto simp: insert_message_def inserting_def row_def)
  next
    case (Inr v)
    obtain n b where v: "v = (n, b)" by (cases v)
    have answer: "insert_answer mid row db n b db1" using post Inr v by (simp add: row_def)
    show ?thesis
    proof (cases "0 < n \<or> \<not> b")
      case True
      with answer ins w Inr v show ?thesis
        by (auto simp: insert_message_def insert_count_verdict_def insert_answer_def row_def
            split: if_splits intro: held_as_new_row)
    next
      case False
      obtain r2 db2 where i: "message_identity mid db1 = (r2, db2)" by (cases "message_identity mid db1")
      from False answer have answer': "insert_answer mid row db 0 True db1" by simp
      note rb = read_back_outcome [OF i answer' [unfolded row_def]]
      from False ins w Inr v i have "db' = db2" and
        "r = (case r2 of Inl e \<Rightarrow> Inl e | Inr f \<Rightarrow> Inr (retried_row_is_ours f sender recipient body))"
        by (auto simp: insert_message_def insert_count_verdict_def andThen_def split: sum.splits)
      with rb answer' show ?thesis by (auto simp: insert_answer_def split: sum.splits)
    qed
  qed
qed

subsection \<open>Retention: the escaped pattern is the prefix, without regard to case\<close>

lemma sql_like_any: "sql_like [CHR ''%''] t"
proof -
  have "length t \<in> set [0..<Suc (length t)]" by simp
  then show ?thesis by (auto simp: list_ex_iff simp del: upt_Suc intro!: bexI [of _ "length t"])
qed

lemma like_prefix:
  "sql_like (escape_like_prefix p @ ''%'') t \<longleftrightarrow>
     starts_with (to_ascii_lowercase p) (to_ascii_lowercase t)"
proof (induction p arbitrary: t)
  case Nil
  show ?case using sql_like_any [of t] by (simp add: starts_with_def to_ascii_lowercase_def del: sql_like.simps)
next
  case (Cons c p)
  show ?case
  proof (cases t)
    case Nil
    then show ?thesis
      by (auto simp: starts_with_def to_ascii_lowercase_def BACKSLASH_def first_char_def)
  next
    case (Cons x r)
    have "ascii_lower_char x = ascii_lower_char c \<longleftrightarrow> ascii_lower_char c = ascii_lower_char x"
      by (rule eq_commute)
    with Cons.IH [of r] \<open>t = x # r\<close> show ?thesis
      by (auto simp: starts_with_def to_ascii_lowercase_def BACKSLASH_def)
  qed
qed

definition retains_any_case :: "retention_config \<Rightarrow> string \<Rightarrow> bool" where
  "retains_any_case c box_type =
     list_ex (\<lambda>p. starts_with (to_ascii_lowercase p) (to_ascii_lowercase box_type)) (rc_prefixes c)"

lemma retained_patterns:
  "list_ex (\<lambda>p. sql_like p t) (like_patterns c) \<longleftrightarrow> retains_any_case c t"
  by (simp add: like_patterns_def retains_any_case_def list_ex_iff like_prefix)

lemma retains_retained: "retains c t \<Longrightarrow> retains_any_case c t"
  by (force simp: retains_def retains_any_case_def list_ex_iff starts_with_iff to_ascii_lowercase_def)

subsection \<open>The acknowledgment\<close>

definition in_retained_box :: "retention_config \<Rightarrow> d1_db \<Rightarrow> d1_message \<Rightarrow> bool" where
  "in_retained_box c db m \<longleftrightarrow>
     (\<exists>b\<in>set (d_boxes db). bx_id b = dm_box m \<and> retains_any_case c (bx_type b))"

lemma retained_box_exists_patterns:
  "retained_box_exists (like_patterns c) db m \<longleftrightarrow> in_retained_box c db m"
  by (simp add: retained_box_exists_def retained_patterns in_retained_box_def list_ex_iff [of _ "d_boxes db"])

lemma in_retained_box_messages [simp]:
  "in_retained_box c (db\<lparr>d_messages := ms\<rparr>) m = in_retained_box c db m"
  "in_retained_box c (db\<lparr>d_script := s\<rparr>) m = in_retained_box c db m"
  by (simp_all add: in_retained_box_def)

text \<open>The rows an acknowledgment marks and the rows it deletes: one reference update.\<close>

definition ack_marks :: "string \<Rightarrow> string set \<Rightarrow> retention_config \<Rightarrow> d1_db \<Rightarrow> d1_message \<Rightarrow> bool" where
  "ack_marks who ids c db m \<longleftrightarrow> dm_recipient m = who \<and> dm_acknowledged_at m = None \<and>
     dm_message_id m \<in> ids \<and> in_retained_box c db m"

definition ack_deletes :: "string \<Rightarrow> string set \<Rightarrow> retention_config \<Rightarrow> d1_db \<Rightarrow> d1_message \<Rightarrow> bool" where
  "ack_deletes who ids c db m \<longleftrightarrow> dm_recipient m = who \<and> dm_message_id m \<in> ids \<and>
     \<not> in_retained_box c db m"

definition acked_messages :: "string \<Rightarrow> string set \<Rightarrow> retention_config \<Rightarrow> d1_db \<Rightarrow> d1_message list" where
  "acked_messages who ids c db =
     filter (\<lambda>m. \<not> ack_deletes who ids c db m)
       (update_where (ack_marks who ids c db) (ack_mark (d_now db)) (d_messages db))"

lemma ack_update_stmt:
  "ack_update_sql (length ids) (length (like_patterns c)) (who # ids @ like_patterns c) db =
     Inr (length (filter (ack_marks who (set ids) c db) (d_messages db)),
          db\<lparr>d_messages := update_where (ack_marks who (set ids) c db) (ack_mark (d_now db)) (d_messages db)\<rparr>)"
  by (simp add: ack_update_sql_def bound_ids_def bound_patterns_def retained_box_exists_patterns
      ack_marks_def [abs_def] Let_def)

lemma not_in_retained_box: "like_patterns c = [] \<Longrightarrow> \<not> in_retained_box c db m"
  by (simp add: like_patterns_def in_retained_box_def retains_any_case_def)

lemma ack_delete_stmt:
  "ack_delete_sql (length ids) (length (like_patterns c)) (who # ids @ like_patterns c) db =
     Inr (length (filter (ack_deletes who (set ids) c db) (d_messages db)),
          db\<lparr>d_messages := filter (\<lambda>m. \<not> ack_deletes who (set ids) c db m) (d_messages db)\<rparr>)"
proof -
  have "(like_patterns c = [] \<or> \<not> in_retained_box c db m) = (\<not> in_retained_box c db m)" for m
    using not_in_retained_box [of c db m] by blast
  then show ?thesis
    by (simp add: ack_delete_sql_def bound_ids_def bound_patterns_def retained_box_exists_patterns
        ack_deletes_def [abs_def] Let_def del: de_Morgan_conj)
qed

text \<open>The chunks of an acknowledgment, one after another, are the update of all its ids.\<close>

lemma batch_append:
  "batch_stmt (xs @ ys) db = (case batch_stmt xs db of
     Inl e \<Rightarrow> Inl e
   | Inr (r, db1) \<Rightarrow> (case batch_stmt ys db1 of Inl e \<Rightarrow> Inl e | Inr (r', db2) \<Rightarrow> Inr (r @ r', db2)))"
  by (induction xs arbitrary: db) (auto split: sum.splits)

lemma length_filter_update_where:
  assumes "\<And>m. p m \<Longrightarrow> \<not> q (f m)"
  shows "length (filter p ms) + length (filter q (update_where p f ms)) =
    length (filter (\<lambda>m. p m \<or> q m) ms)"
  by (induction ms) (auto simp: assms)

lemma length_filter_filter_not:
  "length (filter p ms) + length (filter q (filter (\<lambda>m. \<not> p m) ms)) =
     length (filter (\<lambda>m. p m \<or> q m) ms)"
  by (induction ms) auto

lemma update_where_twice:
  assumes "\<And>m. p m \<Longrightarrow> \<not> q (f m)"
  shows "update_where q f (update_where p f ms) = update_where (\<lambda>m. p m \<or> q m) f ms"
  by (induction ms) (auto simp: assms)

lemma ack_marks_mark [simp]: "\<not> ack_marks who ids c db (ack_mark now m)"
  by (simp add: ack_marks_def ack_mark_def)

lemma ack_marks_Un:
  "(\<lambda>m. ack_marks who A c db m \<or> ack_marks who B c db m) = ack_marks who (A \<union> B) c db"
  by (auto simp: ack_marks_def)

lemma ack_deletes_Un:
  "(\<lambda>m. ack_deletes who A c db m \<or> ack_deletes who B c db m) = ack_deletes who (A \<union> B) c db"
  by (auto simp: ack_deletes_def)

lemma ack_rows_messages [simp]:
  "ack_marks who ids c (db\<lparr>d_messages := ms\<rparr>) = ack_marks who ids c db"
  "ack_deletes who ids c (db\<lparr>d_messages := ms\<rparr>) = ack_deletes who ids c db"
  by (auto simp: ack_marks_def ack_deletes_def)

definition mark_chunk :: "string \<Rightarrow> retention_config \<Rightarrow> string list \<Rightarrow> ack_statement" where
  "mark_chunk who c ids =
     \<lparr>ack_sql = ack_update_sql (length ids) (length (like_patterns c)),
      ack_binds = who # ids @ like_patterns c\<rparr>"

definition delete_chunk :: "string \<Rightarrow> retention_config \<Rightarrow> string list \<Rightarrow> ack_statement" where
  "delete_chunk who c ids =
     \<lparr>ack_sql = ack_delete_sql (length ids) (length (like_patterns c)),
      ack_binds = who # ids @ like_patterns c\<rparr>"

definition fits :: "retention_config \<Rightarrow> string list \<Rightarrow> bool" where
  "fits c ids \<longleftrightarrow> 1 + length ids + length (like_patterns c) \<le> D1_MAX_BOUND_PARAMS"

lemma mark_chunks:
  assumes "\<forall>x\<in>set cs. fits c x"
  shows "\<exists>ns. batch_stmt (map (\<lambda>i. prepared (mark_chunk who c i)) cs) db =
      Inr (ns, db\<lparr>d_messages := update_where (ack_marks who (set (concat cs)) c db)
                              (ack_mark (d_now db)) (d_messages db)\<rparr>) \<and>
    sum_list ns = length (filter (ack_marks who (set (concat cs)) c db) (d_messages db))"
  using assms
proof (induction cs arbitrary: db)
  case Nil
  have "update_where (ack_marks who {} c db) f ms = ms" for f ms
    by (rule update_where_none) (simp add: ack_marks_def)
  moreover have "filter (ack_marks who {} c db) ms = []" for ms
    by (simp add: filter_empty_conv ack_marks_def)
  ultimately show ?case by simp
next
  case (Cons x cs)
  define db1 where "db1 = db\<lparr>d_messages := update_where (ack_marks who (set x) c db)
    (ack_mark (d_now db)) (d_messages db)\<rparr>"
  have step: "bounded_stmt (length (who # x @ like_patterns c))
      (ack_update_sql (length x) (length (like_patterns c)) (who # x @ like_patterns c)) db =
      Inr (length (filter (ack_marks who (set x) c db) (d_messages db)), db1)"
    using Cons.prems ack_update_stmt [of x c who db]
    by (simp add: bounded_stmt_def fits_def db1_def)
  obtain ns where ns: "batch_stmt (map (\<lambda>i. prepared (mark_chunk who c i)) cs) db1 =
      Inr (ns, db1\<lparr>d_messages := update_where (ack_marks who (set (concat cs)) c db)
                              (ack_mark (d_now db)) (d_messages db1)\<rparr>)"
    "sum_list ns = length (filter (ack_marks who (set (concat cs)) c db) (d_messages db1))"
    using Cons.IH [of db1] Cons.prems by (auto simp: db1_def)
  show ?case
    using step ns length_filter_update_where [of "ack_marks who (set x) c db"
        "ack_marks who (set (concat cs)) c db" "ack_mark (d_now db)" "d_messages db"]
    by (simp add: prepared_def mark_chunk_def db1_def update_where_twice ack_marks_Un)
qed

lemma delete_chunks:
  assumes "\<forall>x\<in>set cs. fits c x"
  shows "\<exists>ns. batch_stmt (map (\<lambda>i. prepared (delete_chunk who c i)) cs) db =
      Inr (ns, db\<lparr>d_messages := filter (\<lambda>m. \<not> ack_deletes who (set (concat cs)) c db m)
                              (d_messages db)\<rparr>) \<and>
    sum_list ns = length (filter (ack_deletes who (set (concat cs)) c db) (d_messages db))"
  using assms
proof (induction cs arbitrary: db)
  case Nil
  show ?case by (simp add: ack_deletes_def)
next
  case (Cons x cs)
  define db1 where "db1 = db\<lparr>d_messages := filter (\<lambda>m. \<not> ack_deletes who (set x) c db m) (d_messages db)\<rparr>"
  have step: "bounded_stmt (length (who # x @ like_patterns c))
      (ack_delete_sql (length x) (length (like_patterns c)) (who # x @ like_patterns c)) db =
      Inr (length (filter (ack_deletes who (set x) c db) (d_messages db)), db1)"
    using Cons.prems ack_delete_stmt [of x c who db]
    by (simp add: bounded_stmt_def fits_def db1_def)
  obtain ns where ns: "batch_stmt (map (\<lambda>i. prepared (delete_chunk who c i)) cs) db1 =
      Inr (ns, db1\<lparr>d_messages := filter (\<lambda>m. \<not> ack_deletes who (set (concat cs)) c db m) (d_messages db1)\<rparr>)"
    "sum_list ns = length (filter (ack_deletes who (set (concat cs)) c db) (d_messages db1))"
    using Cons.IH [of db1] Cons.prems by (auto simp: db1_def)
  have both: "(\<not> ack_deletes who (set x) c db m \<and> \<not> ack_deletes who (set (concat cs)) c db m) \<longleftrightarrow>
      \<not> ack_deletes who (set x \<union> set (concat cs)) c db m" for m
    by (auto simp: ack_deletes_def)
  show ?case
    using step ns length_filter_filter_not [of "ack_deletes who (set x) c db" "d_messages db"
        "ack_deletes who (set (concat cs)) c db"]
    by (simp add: prepared_def delete_chunk_def db1_def both [simplified] ack_deletes_Un)
qed

lemma chunks_fit:
  assumes "length (rc_prefixes c) \<le> 98"
  shows "\<forall>x\<in>set (chunks (ack_ids_per_statement (length (like_patterns c))) ids). fits c x"
  using assms chunks_sizes [of _ "ack_ids_per_statement (length (like_patterns c))" ids]
  by (fastforce simp: fits_def ack_ids_per_statement_def saturating_sub_def D1_MAX_BOUND_PARAMS_def
      like_patterns_def)

lemma ack_statements_alt:
  "ack_statements who ids (like_patterns c) =
     (let cs = chunks (ack_ids_per_statement (length (like_patterns c))) ids
      in (if like_patterns c = [] then [] else map (mark_chunk who c) cs) @ map (delete_chunk who c) cs)"
  by (auto simp: ack_statements_def Let_def mark_chunk_def delete_chunk_def)

lemma ack_per_pos: "0 < ack_ids_per_statement n"
  by (simp add: ack_ids_per_statement_def)

lemma no_marks: "like_patterns c = [] \<Longrightarrow> \<not> ack_marks who ids c db m"
  by (simp add: ack_marks_def not_in_retained_box)

lemma marked_not_deleted:
  "filter (ack_deletes who ids c db) (update_where (ack_marks who ids c db) f ms) =
     filter (ack_deletes who ids c db) ms"
  if "\<And>m. dm_box (f m) = dm_box m" for f
proof (induction ms)
  case (Cons m ms)
  have "ack_marks who ids c db m \<Longrightarrow> \<not> ack_deletes who ids c db m \<and> \<not> ack_deletes who ids c db (f m)"
    using that [of m] by (auto simp: ack_marks_def ack_deletes_def in_retained_box_def)
  with Cons show ?case by auto
qed simp

lemma ack_batch:
  assumes "length (rc_prefixes c) \<le> 98"
  shows "\<exists>ns. batch_stmt (map prepared (ack_statements who ids (like_patterns c))) db =
      Inr (ns, db\<lparr>d_messages := acked_messages who (set ids) c db\<rparr>) \<and>
    sum_list ns = length (filter (ack_marks who (set ids) c db) (d_messages db)) +
                  length (filter (ack_deletes who (set ids) c db) (d_messages db))"
proof -
  define cs where "cs = chunks (ack_ids_per_statement (length (like_patterns c))) ids"
  have all: "concat cs = ids" by (simp add: cs_def ack_per_pos)
  have fit: "\<forall>x\<in>set cs. fits c x" unfolding cs_def by (rule chunks_fit [OF assms])
  define db1 where "db1 = db\<lparr>d_messages := update_where (ack_marks who (set ids) c db)
    (ack_mark (d_now db)) (d_messages db)\<rparr>"
  obtain ms where m: "batch_stmt (map (\<lambda>i. prepared (mark_chunk who c i)) cs) db = Inr (ms, db1)"
    "sum_list ms = length (filter (ack_marks who (set ids) c db) (d_messages db))"
    using mark_chunks [OF fit, of who db] by (auto simp: db1_def all)
  obtain ds where d: "batch_stmt (map (\<lambda>i. prepared (delete_chunk who c i)) cs) db1 =
      Inr (ds, db\<lparr>d_messages := acked_messages who (set ids) c db\<rparr>)"
    "sum_list ds = length (filter (ack_deletes who (set ids) c db) (d_messages db))"
    using delete_chunks [OF fit, of who db1]
    by (auto simp: db1_def all acked_messages_def marked_not_deleted ack_mark_def)
  show ?thesis
  proof (cases "like_patterns c = []")
    case True
    then have "db1 = db" unfolding db1_def
      by (subst update_where_none) (simp_all add: no_marks)
    with True d show ?thesis unfolding ack_statements_alt Let_def cs_def [symmetric]
      by (simp add: comp_def no_marks)
  next
    case False
    with m d show ?thesis unfolding ack_statements_alt Let_def cs_def [symmetric]
      by (simp add: comp_def batch_append)
  qed
qed

lemma ack_rows_script [simp]:
  "ack_marks who ids c (db\<lparr>d_script := s\<rparr>) = ack_marks who ids c db"
  "ack_deletes who ids c (db\<lparr>d_script := s\<rparr>) = ack_deletes who ids c db"
  by (auto simp: ack_marks_def ack_deletes_def)

lemma acked_messages_script [simp]:
  "acked_messages who ids c (db\<lparr>d_script := s\<rparr>) = acked_messages who ids c db"
  by (simp add: acked_messages_def)

text \<open>A second application finds nothing left to do.\<close>

lemma acked_none_left:
  assumes "m \<in> set (acked_messages who ids c db)"
  shows "\<not> ack_marks who ids c db m" and "\<not> ack_deletes who ids c db m"
proof -
  from assms show "\<not> ack_deletes who ids c db m" by (simp add: acked_messages_def)
  from assms obtain m0 where "m = (if ack_marks who ids c db m0 then ack_mark (d_now db) m0 else m0)"
    by (auto simp only: acked_messages_def update_where_def set_filter set_map)
  then show "\<not> ack_marks who ids c db m" by (simp split: if_splits)
qed

lemma acked_again: "acked_messages who ids c (db\<lparr>d_messages := acked_messages who ids c db\<rparr>) =
    acked_messages who ids c db"
  by (subst (1) acked_messages_def) (simp add: update_where_none acked_none_left filter_id_conv)

text \<open>What the attempts of one acknowledgment leave: nothing done yet, or all of it.\<close>

definition acking ::
  "string \<Rightarrow> string set \<Rightarrow> retention_config \<Rightarrow> d1_db \<Rightarrow> bool \<Rightarrow> d1_db \<Rightarrow> bool" where
  "acking who ids c db0 retried db \<longleftrightarrow>
     tables db = tables db0 \<or>
     retried \<and> tables db = tables (db0\<lparr>d_messages := acked_messages who ids c db0\<rparr>)"

definition ack_answer ::
  "string \<Rightarrow> string set \<Rightarrow> retention_config \<Rightarrow> d1_db \<Rightarrow> nat list \<Rightarrow> bool \<Rightarrow> d1_db \<Rightarrow> bool" where
  "ack_answer who ids c db0 ns retried db \<longleftrightarrow>
     tables db = tables (db0\<lparr>d_messages := acked_messages who ids c db0\<rparr>) \<and>
     (\<not> retried \<longrightarrow> sum_list ns = length (filter (ack_marks who ids c db0) (d_messages db0)) +
                                length (filter (ack_deletes who ids c db0) (d_messages db0)))"

lemma tables_messages: "tables (db\<lparr>d_messages := ms\<rparr>) = (tables db)\<lparr>d_messages := ms\<rparr>"
  by (simp add: tables_def)

lemma acked_messages_tables:
  "tables db = tables db' \<Longrightarrow> acked_messages who ids c db = acked_messages who ids c db'"
  by (metis acked_messages_script tables_def)

lemma acked_tables:
  assumes "acking who ids c db0 b db"
  shows "tables (db\<lparr>d_messages := acked_messages who ids c db\<rparr>) =
    tables (db0\<lparr>d_messages := acked_messages who ids c db0\<rparr>)"
  using assms unfolding acking_def
proof (elim disjE conjE)
  assume "tables db = tables db0"
  then show ?thesis using acked_messages_tables [of db db0] by (simp add: tables_messages)
next
  assume t: "tables db = tables (db0\<lparr>d_messages := acked_messages who ids c db0\<rparr>)"
  then have "acked_messages who ids c db = acked_messages who ids c db0"
    using acked_messages_tables [OF t] acked_again by simp
  with t show ?thesis by (simp add: tables_messages)
qed

lemma ack_attempt:
  assumes few: "length (rc_prefixes c) \<le> 98" and before: "acking who (set ids) c db0 b db"
    and run: "d1_batch (map prepared (ack_statements who ids (like_patterns c))) db = (r, db')"
  shows "case r of Inl e \<Rightarrow> acking who (set ids) c db0 True db'
    | Inr ns \<Rightarrow> ack_answer who (set ids) c db0 ns b db'"
proof -
  let ?db = "db\<lparr>d_script := tl (d_script db)\<rparr>"
  have before': "acking who (set ids) c db0 b ?db" using before by (simp add: acking_def)
  obtain ns where ns: "batch_stmt (map prepared (ack_statements who ids (like_patterns c))) ?db =
      Inr (ns, ?db\<lparr>d_messages := acked_messages who (set ids) c ?db\<rparr>)"
    "sum_list ns = length (filter (ack_marks who (set ids) c ?db) (d_messages ?db)) +
                  length (filter (ack_deletes who (set ids) c ?db) (d_messages ?db))"
    using ack_batch [OF few] by blast
  note after = acked_tables [OF before']
  from run show ?thesis unfolding d1_batch_def
  proof (cases rule: d1_run_cases)
    case (kept e)
    with before show ?thesis by (auto simp: acking_def)
  next
    case (landed e a)
    with ns(1) after show ?thesis by (simp add: acking_def)
  next
    case (served a)
    have "sum_list ns = length (filter (ack_marks who (set ids) c db0) (d_messages db0)) +
        length (filter (ack_deletes who (set ids) c db0) (d_messages db0))" if "\<not> b"
    proof -
      from before' that have "tables db0 = tables ?db" by (simp add: acking_def)
      from tables_eqD [OF this] ns(2) show ?thesis
        by (metis ack_rows_script d1_db.select_convs(1) tables_fields(1) tables_script)
    qed
    with served ns(1) after show ?thesis by (auto simp: ack_answer_def)
  qed
qed

lemma acknowledge_messages_outcome:
  assumes few: "length (rc_prefixes c) \<le> 98"
    and ack: "acknowledge_messages who ids c db = (r, db')"
  shows "case r of
      Inr n \<Rightarrow> tables db' = tables (db\<lparr>d_messages := acked_messages who (set ids) c db\<rparr>) \<and>
        (n = 0 \<longrightarrow> acked_messages who (set ids) c db = d_messages db)
    | Inl e \<Rightarrow> acking who (set ids) c db True db'"
proof -
  obtain r1 db1 where w: "with_d1_write_retry
      (d1_batch (map prepared (ack_statements who ids (like_patterns c)))) db = (r1, db1)"
    by (cases "with_d1_write_retry
      (d1_batch (map prepared (ack_statements who ids (like_patterns c)))) db")
  have "case r1 of Inr (ns, b) \<Rightarrow> ack_answer who (set ids) c db ns b db1
    | Inl e \<Rightarrow> acking who (set ids) c db True db1"
  proof (rule write_retry_rule [OF _ _ _ w])
    show "acking who (set ids) c db False db" by (simp add: acking_def)
  qed (use ack_attempt [OF few] in fastforce)+
  moreover have "acked_messages who (set ids) c db = d_messages db"
    if "length (filter (ack_marks who (set ids) c db) (d_messages db)) +
      length (filter (ack_deletes who (set ids) c db) (d_messages db)) = 0"
    using that by (simp add: acked_messages_def update_where_none filter_id_conv filter_empty_conv)
  moreover have "acked_messages who (set []) c db = d_messages db"
    by (simp add: acked_messages_def update_where_none ack_marks_def ack_deletes_def)
  ultimately show ?thesis
    using ack w by (auto simp: acknowledge_messages_def ack_answer_def split: sum.splits if_splits)
qed

subsection \<open>Fees: the one-batch read and the step-by-step one\<close>

lemma insort_key_bool:
  assumes "\<forall>x\<in>set xs. \<not> f x" and "\<forall>y\<in>set ys. f y"
  shows "insort_key f z (xs @ ys) = (if f z then xs @ z # ys else z # xs @ ys)"
  using assms
proof (induction xs)
  case Nil
  then show ?case by (cases ys) auto
qed auto

lemma sort_key_bool: "sort_key f xs = filter (\<lambda>x. \<not> f x) xs @ filter f xs"
  by (induction xs) (simp_all add: insort_key_bool)

lemma first_row_take_one [simp]: "first_row (take (Suc 0) xs) = first_row xs"
  by (cases xs) auto

lemma SELECT_FEE_specific_first:
  "first_row (SELECT_FEE_SQL recipient mbox sender db) =
     (case first_row (perm_rows recipient (Some sender) mbox db) of
        Some p \<Rightarrow> Some (pm_fee p)
      | None \<Rightarrow> map_option pm_fee (first_row (perm_rows recipient None mbox db)))"
proof -
  have "filter (\<lambda>p. \<not> (pm_sender p = None)) (filter (\<lambda>p. pm_recipient p = recipient \<and> pm_box p = mbox \<and>
      (pm_sender p = Some sender \<or> pm_sender p = None)) (d_perms db)) =
      perm_rows recipient (Some sender) mbox db"
    by (auto simp: perm_rows_def intro!: filter_cong)
  moreover have "filter (\<lambda>p. pm_sender p = None) (filter (\<lambda>p. pm_recipient p = recipient \<and>
      pm_box p = mbox \<and> (pm_sender p = Some sender \<or> pm_sender p = None)) (d_perms db)) =
      perm_rows recipient None mbox db"
    by (auto simp: perm_rows_def intro!: filter_cong)
  ultimately show ?thesis
    unfolding SELECT_FEE_SQL_def sort_key_bool by (simp del: take_append filter_filter split: option.splits)
qed

lemma d1_read_Inr:
  assumes "d1_read n q db = (Inr v, db')"
  shows "v = q db'" and "tables db' = tables db"
  using assms by (cases rule: d1_read_cases; simp)+

lemma perm_rows_tables:
  "tables db = tables db' \<Longrightarrow> perm_rows r s mb db = perm_rows r s mb db'"
  using tables_fields(4) [of db db'] by (simp add: perm_rows_def)

definition fee_of :: "string \<Rightarrow> string \<Rightarrow> string \<Rightarrow> d1_db \<Rightarrow> int" where
  "fee_of recipient sender mbox db =
     (case first_row (perm_rows recipient (Some sender) mbox db) of
        Some p \<Rightarrow> i32_of_f64 (pm_fee p)
      | None \<Rightarrow> (case first_row (perm_rows recipient None mbox db) of
                  Some p \<Rightarrow> i32_of_f64 (pm_fee p) | None \<Rightarrow> smart_default_fee mbox))"

lemma get_recipient_fee_reads:
  assumes "get_recipient_fee recipient sender mbox db = (Inr f, db')"
  shows "f = fee_of recipient sender mbox db"
proof -
  from assms obtain specific db1 where
    one: "d1_read 3 (\<lambda>db. first_row (perm_rows recipient (Some sender) mbox db)) db = (Inr specific, db1)"
    unfolding get_recipient_fee_def by (elim andThen_InrE)
  note t1 = d1_read_Inr(2) [OF one]
  have specific: "specific = first_row (perm_rows recipient (Some sender) mbox db)"
    using d1_read_Inr(1) [OF one] perm_rows_tables [OF t1] by simp
  show ?thesis
  proof (cases specific)
    case (Some p)
    from assms one Some have "f = i32_of_f64 (pm_fee p)" by (simp add: get_recipient_fee_def)
    with specific [symmetric] Some show ?thesis by (simp add: fee_of_def)
  next
    case None
    with assms one obtain bw db2 where
      two: "d1_read 2 (\<lambda>db. first_row (perm_rows recipient None mbox db)) db1 = (Inr bw, db2)"
      unfolding get_recipient_fee_def by (auto elim: andThen_InrE)
    have bw: "bw = first_row (perm_rows recipient None mbox db)"
      using d1_read_Inr [OF two] perm_rows_tables [of db2 db] t1 by simp
    from assms one two None
    have "f = (case bw of Some p \<Rightarrow> i32_of_f64 (pm_fee p) | None \<Rightarrow> smart_default_fee mbox)"
      by (auto simp: get_recipient_fee_def Let_def andThen_Inr_iff split: option.splits)
    with specific [symmetric] None bw show ?thesis by (simp add: fee_of_def)
  qed
qed

lemma context_loop_reads:
  assumes "context_loop n (d1_read k q) e db = (Inr c, db')"
  shows "c = q db'" and "tables db' = tables db"
proof -
  have "c = q db' \<and> tables db' = tables db" using assms
  proof (induction n arbitrary: e db)
    case (Suc n)
    obtain r1 db1 where one: "d1_read k q db = (r1, db1)" by (cases "d1_read k q db")
    then show ?case
    proof (cases rule: d1_read_cases)
      case (failed err)
      with Suc one show ?thesis by simp
    next
      case answered
      with Suc.prems one show ?thesis by auto
    qed
  qed simp
  then show "c = q db'" and "tables db' = tables db" by simp_all
qed

lemma read_send_context_reads:
  assumes "read_send_context recipient sender mbox db = (Inr c, db')"
  shows "c = send_context_of recipient sender mbox db" and "tables db' = tables db"
proof -
  note reads = context_loop_reads [OF assms [unfolded read_send_context_def]]
  then show "tables db' = tables db" by simp
  show "c = send_context_of recipient sender mbox db"
    using reads tables_fields [OF reads(2)]
    by (simp add: send_context_of_def SELECT_FEE_SQL_def SELECT_SERVER_FEE_SQL_def SELECT_BOX_SQL_def)
qed

lemma send_context_fee: "sc_recipient_fee (send_context_of recipient sender mbox db) =
    fee_of recipient sender mbox db"
  by (simp add: send_context_of_def SELECT_FEE_specific_first fee_of_def split: option.splits)

subsection \<open>Permissions\<close>

definition others_kept :: "string \<Rightarrow> string option \<Rightarrow> string \<Rightarrow> d1_db \<Rightarrow> d1_db \<Rightarrow> bool" where
  "others_kept r s mb db db' \<longleftrightarrow>
     (\<forall>r' s' mb'. (r', s', mb') \<noteq> (r, s, mb) \<longrightarrow> perm_rows r' s' mb' db' = perm_rows r' s' mb' db)"

lemma others_kept_refl [simp]: "others_kept r s mb db db"
  by (simp add: others_kept_def)

lemma others_kept_trans: "others_kept r s mb a b \<Longrightarrow> others_kept r s mb b c \<Longrightarrow> others_kept r s mb a c"
  by (simp add: others_kept_def)

lemma others_kept_script [simp]:
  "others_kept r s mb db (db'\<lparr>d_script := x\<rparr>) = others_kept r s mb db db'"
  "others_kept r s mb (db\<lparr>d_script := x\<rparr>) db' = others_kept r s mb db db'"
  by (simp_all add: others_kept_def perm_rows_def)

lemma perm_conflict_iff:
  "perm_conflict r (Some s) mb p \<longleftrightarrow> pm_recipient p = r \<and> pm_sender p = Some s \<and> pm_box p = mb"
  by (simp add: perm_conflict_def)

lemma filter_update_where_kept:
  assumes "\<And>x. p x \<Longrightarrow> q (f x) = q x"
  shows "filter q (update_where p f xs) = update_where p f (filter q xs)"
  by (induction xs) (auto simp: assms)

lemma upsert_sender:
  assumes "UPSERT_PERM_SQL r (Some s) mb fee db = Inr (n, db')"
  shows "n = 1" and "others_kept r (Some s) mb db db'"
    and "map_option pm_fee (first_row (perm_rows r (Some s) mb db')) = Some fee"
proof -
  let ?hit = "perm_conflict r (Some s) mb"
  let ?upd = "\<lambda>p. p\<lparr>pm_fee := fee, pm_updated_at := d_now db\<rparr>"
  from assms show "n = 1" by (auto simp: UPSERT_PERM_SQL_def split: if_splits)
  have upd: "perm_rows r' s' mb' (db\<lparr>d_perms := update_where ?hit ?upd (d_perms db)\<rparr>) =
      update_where ?hit ?upd (perm_rows r' s' mb' db)" for r' s' mb'
    by (simp add: perm_rows_def filter_update_where_kept)
  show "others_kept r (Some s) mb db db'"
  proof (cases "list_ex ?hit (d_perms db)")
    case True
    have "update_where ?hit ?upd (perm_rows r' s' mb' db) = perm_rows r' s' mb' db"
      if "(r', s', mb') \<noteq> (r, Some s, mb)" for r' s' mb'
      using that by (intro update_where_none) (auto simp: perm_rows_def perm_conflict_iff)
    with True assms upd show ?thesis by (auto simp: UPSERT_PERM_SQL_def others_kept_def)
  next
    case False
    with assms show ?thesis
      by (auto simp: UPSERT_PERM_SQL_def others_kept_def perm_rows_def new_perm_def)
  qed
  show "map_option pm_fee (first_row (perm_rows r (Some s) mb db')) = Some fee"
  proof (cases "list_ex ?hit (d_perms db)")
    case True
    then obtain p ps where ps: "perm_rows r (Some s) mb db = p # ps"
      by (cases "perm_rows r (Some s) mb db")
         (auto simp: perm_rows_def list_ex_iff perm_conflict_iff filter_empty_conv)
    then have "p \<in> set (perm_rows r (Some s) mb db)" by simp
    then have "?hit p" by (simp add: perm_rows_def perm_conflict_iff)
    with True assms upd ps show ?thesis by (auto simp: UPSERT_PERM_SQL_def)
  next
    case False
    then have "perm_rows r (Some s) mb db = []"
      by (auto simp: perm_rows_def list_ex_iff perm_conflict_iff filter_empty_conv)
    with False assms show ?thesis by (auto simp: UPSERT_PERM_SQL_def perm_rows_def new_perm_def)
  qed
qed

lemma set_sender_permission:
  assumes set: "set_permission r (Some s) mb fee db = (Inr b, db')"
  shows "b" and "others_kept r (Some s) mb db db'"
    and "map_option pm_fee (first_row (perm_rows r (Some s) mb db')) = Some fee"
proof -
  let ?op = "d1_run 5 (UPSERT_PERM_SQL r (Some s) mb fee)"
  let ?Q = "\<lambda>n (b::bool) db1. n = Suc 0 \<and> others_kept r (Some s) mb db db1 \<and>
    map_option pm_fee (first_row (perm_rows r (Some s) mb db1)) = Some fee"
  obtain v db1 where w: "with_d1_write_retry ?op db = (Inr v, db1)" and
    out: "db' = db1" "b = (0 < fst v \<or> snd v)"
    using set unfolding set_permission_def by (elim andThen_InrE) (simp add: case_prod_beta)
  from w have "?Q (fst v) (snd v) db1"
  proof (rule write_retry_answered [where R = "\<lambda>_. others_kept r (Some s) mb db"])
    fix b db1 e db2
    assume "others_kept r (Some s) mb db db1" and run: "?op db1 = (Inl e, db2)"
    with run show "others_kept r (Some s) mb db db2"
      by (cases rule: d1_run_cases) (auto dest!: upsert_sender(2) intro: others_kept_trans)
  next
    fix b db1 n db2
    assume "others_kept r (Some s) mb db db1" and run: "?op db1 = (Inr n, db2)"
    with run show "?Q n b db2"
    proof (cases rule: d1_run_cases)
      case (served m)
      note u = upsert_sender [OF served(3)]
      with served \<open>others_kept r (Some s) mb db db1\<close> show ?thesis
        using others_kept_trans [of r "Some s" mb db db1 db2] by simp
    qed simp_all
  qed simp
  with out show "b" and "others_kept r (Some s) mb db db'"
    and "map_option pm_fee (first_row (perm_rows r (Some s) mb db')) = Some fee"
    by (auto split: prod.splits)
qed

text \<open>A box-wide row, once there, is the one every later read finds.\<close>

lemma upsert_box_wide:
  "UPSERT_PERM_SQL r None mb fee db =
     Inr (1, db\<lparr>d_perms := d_perms db @ [new_perm r None mb fee (d_now db)]\<rparr>)"
  by (simp add: UPSERT_PERM_SQL_def perm_conflict_def list_ex_iff)

lemma set_box_wide_permission:
  assumes set: "set_permission r None mb fee db = (Inr b, db')"
    and held: "first_row (perm_rows r None mb db) = Some p"
  shows "first_row (perm_rows r None mb db') = Some p"
proof -
  let ?op = "d1_run 4 (UPSERT_PERM_SQL r None mb fee)"
  let ?R = "\<lambda>db1. first_row (perm_rows r None mb db1) = Some p"
  obtain v db1 where w: "with_d1_write_retry ?op db = (Inr v, db1)" and out: "db' = db1"
    using set by (auto simp: set_permission_def andThen_Inr_iff)
  have step: "?R db2" if "?R db1" "?op db1 = (x, db2)" for db1 x db2
    using that(2,1) by (cases rule: d1_run_cases) (auto simp: upsert_box_wide perm_rows_def)
  have "?R db1"
    by (rule write_retry_answered [OF w, where R = "\<lambda>_. ?R"]) (use held step in blast)+
  with out show ?thesis by simp
qed

end
