(* ===== verification/Archive_Props.thy ===== *)
theory Archive_Props
  imports Archive D1_Store_Props Machine
begin

section \<open>The archive never moves a row back\<close>

text \<open>
  The lemmas on the consumer. A row of D1 only advances: its recipient stays, its version never
  falls, its acknowledgment is never cleared, whatever the batches, their order, their repeats
  and the faults of the round trips. After a batch was written, every message that was applied,
  or was a repeat, is held by D1 for its recipient at its version or a newer one.
\<close>

subsection \<open>One row\<close>

definition row_of :: "string \<Rightarrow> d1_db \<Rightarrow> d1_message option" where
  "row_of mid db = find (\<lambda>m. dm_message_id m = mid) (d_messages db)"

lemma row_of_script [simp]: "row_of mid (db\<lparr>d_script := s\<rparr>) = row_of mid db"
  by (simp add: row_of_def)

lemma row_of_tables: "tables db = tables db' \<Longrightarrow> row_of mid db = row_of mid db'"
  using tables_fields(1) [of db db'] by (simp add: row_of_def)

lemma row_of_id: "row_of mid db = Some m \<Longrightarrow> dm_message_id m = mid \<and> m \<in> set (d_messages db)"
  by (auto simp: row_of_def dest: find_Some_in)

definition row_advances :: "d1_message \<Rightarrow> d1_message \<Rightarrow> bool" where
  "row_advances m m' \<longleftrightarrow>
     dm_message_id m' = dm_message_id m \<and> dm_recipient m' = dm_recipient m \<and>
     dm_sender m' = dm_sender m \<and> dm_box m' = dm_box m \<and> dm_created_at m' = dm_created_at m \<and>
     dm_version m \<le> dm_version m' \<and> (dm_version m' = dm_version m \<longrightarrow> m' = m) \<and>
     (dm_acknowledged_at m \<noteq> None \<longrightarrow> dm_acknowledged_at m' = dm_acknowledged_at m) \<and>
     (dm_body m \<noteq> [] \<longrightarrow> dm_body m' \<noteq> [])"

lemma row_advances_refl [simp]: "row_advances m m"
  by (simp add: row_advances_def)

lemma row_advances_trans: "row_advances a b \<Longrightarrow> row_advances b c \<Longrightarrow> row_advances a c"
  unfolding row_advances_def by (elim conjE) (intro conjI impI; force)

definition advanced :: "d1_db \<Rightarrow> d1_db \<Rightarrow> bool" where
  "advanced db db' \<longleftrightarrow>
     (\<forall>mid m. row_of mid db = Some m \<longrightarrow> (\<exists>m'. row_of mid db' = Some m' \<and> row_advances m m'))"

lemma advanced_refl [simp]: "advanced db db"
  by (simp add: advanced_def)

lemma advanced_trans: "advanced a b \<Longrightarrow> advanced b c \<Longrightarrow> advanced a c"
  unfolding advanced_def by (meson row_advances_trans)

lemma advanced_tables: "tables b = tables c \<Longrightarrow> advanced a b \<Longrightarrow> advanced a c"
  using row_of_tables [of b c] by (simp add: advanced_def)

lemma advanced_script [simp]:
  "advanced (db\<lparr>d_script := s\<rparr>) db' = advanced db db'"
  "advanced db (db'\<lparr>d_script := s\<rparr>) = advanced db db'"
  by (simp_all add: advanced_def)

lemma advancedD:
  "advanced db db' \<Longrightarrow> row_of mid db = Some m \<Longrightarrow> \<exists>m'. row_of mid db' = Some m' \<and> row_advances m m'"
  by (simp add: advanced_def)

subsection \<open>The upsert\<close>

lemma upsert_update_simps [simp]:
  "dm_message_id (upsert_update ex now m) = dm_message_id m"
  "dm_recipient (upsert_update ex now m) = dm_recipient m"
  "dm_version (upsert_update ex now m) = dm_version ex"
  by (simp_all add: upsert_update_def)

lemma find_upsert_update:
  "find (\<lambda>m. dm_message_id m = i) (update_where (\<lambda>m. dm_message_id m = mid) (upsert_update ex now) ms) =
     (if i = mid then map_option (upsert_update ex now) (find (\<lambda>m. dm_message_id m = mid) ms)
      else find (\<lambda>m. dm_message_id m = i) ms)"
  by (induction ms) auto

lemma find_append_one:
  "find q (xs @ [x]) = (case find q xs of Some y \<Rightarrow> Some y | None \<Rightarrow> if q x then Some x else None)"
  by (induction xs) auto

lemma upsert_update_advances:
  "dm_version m < dm_version ex \<Longrightarrow> row_advances m (upsert_update ex now m)"
  by (auto simp: row_advances_def upsert_update_def)

definition upserted :: "d1_message \<Rightarrow> string \<Rightarrow> d1_message option \<Rightarrow> d1_message" where
  "upserted ex now r =
     (case r of
        None \<Rightarrow> ex
      | Some m \<Rightarrow> if dm_version m < dm_version ex \<and> dm_recipient m = dm_recipient ex
                  then upsert_update ex now m else m)"

lemma upsert_row_of:
  assumes "ARCHIVE_UPSERT_SQL mid sender recipient body created acked v owner mbox db = Inr (n, db')"
    and "SELECT_BOX_SQL owner mbox db = bx # bxs"
  shows "row_of i db' =
    (if i = mid then Some (upserted (excluded_row mid bx sender recipient body created acked v (d_now db))
                             (d_now db) (row_of mid db))
     else row_of i db)"
proof -
  define ex where "ex = excluded_row mid bx sender recipient body created acked v (d_now db)"
  have ex: "dm_message_id ex = mid" by (simp add: ex_def excluded_row_def)
  show ?thesis using assms unfolding ARCHIVE_UPSERT_SQL_def ex_def [symmetric]
    by (auto simp: Let_def row_of_def find_append_one upserted_def find_upsert_update ex
        ex_def [symmetric] split: option.splits if_splits)
qed

lemma INSERT_BOX_row_of: "INSERT_BOX_SQL w mb db = Inr (n, db') \<Longrightarrow> row_of i db' = row_of i db"
  by (auto simp: INSERT_BOX_SQL_def row_of_def split: if_splits)

lemma INSERT_BOX_makes: "INSERT_BOX_SQL w mb db = Inr (n, db') \<Longrightarrow> SELECT_BOX_SQL w mb db' \<noteq> []"
  by (auto simp: INSERT_BOX_SQL_def SELECT_BOX_SQL_def split: if_splits)

text \<open>The two statements of one message: what they leave under each id.\<close>

definition message_ex :: "archive_message_rec \<Rightarrow> nat \<Rightarrow> string \<Rightarrow> d1_message" where
  "message_ex m bx now =
     excluded_row (am_message_id m) bx (am_sender m) (am_recipient m) (am_body m) (am_created_at m)
       (acknowledged_bind m) (version_bind m) now"

lemma message_ex_simps [simp]:
  "dm_message_id (message_ex m bx now) = am_message_id m"
  "dm_recipient (message_ex m bx now) = am_recipient m"
  "dm_version (message_ex m bx now) = version_bind m"
  by (simp_all add: message_ex_def excluded_row_def)

lemma statements_run:
  assumes "batch_stmt (statements m) db = Inr (ns, db')"
  obtains bx where "\<And>i. row_of i db' =
    (if i = am_message_id m then Some (upserted (message_ex m bx (d_now db)) (d_now db) (row_of i db))
     else row_of i db)"
proof -
  obtain n1 db1 where one: "INSERT_BOX_SQL (am_recipient m) (am_message_box m) db = Inr (n1, db1)"
    by (cases "SELECT_BOX_SQL (am_recipient m) (am_message_box m) db") (auto simp: INSERT_BOX_SQL_def)
  obtain n2 where two: "ARCHIVE_UPSERT_SQL (am_message_id m) (am_sender m) (am_recipient m) (am_body m)
      (am_created_at m) (acknowledged_bind m) (version_bind m) (am_recipient m) (am_message_box m) db1
      = Inr (n2, db')"
    using assms one by (auto simp: statements_def ARCHIVE_BOX_SQL_def bounded_stmt_def
        D1_MAX_BOUND_PARAMS_def split: sum.splits)
  obtain bx bxs where bx: "SELECT_BOX_SQL (am_recipient m) (am_message_box m) db1 = bx # bxs"
    using INSERT_BOX_makes [OF one] by (auto simp: neq_Nil_conv)
  have "d_now db1 = d_now db" using one by (auto simp: INSERT_BOX_SQL_def split: if_splits)
  with upsert_row_of [OF two bx] INSERT_BOX_row_of [OF one] show thesis
    by (intro that [of bx]) (auto simp: message_ex_def)
qed

subsection \<open>A batch's writes\<close>

definition held_for :: "archive_message_rec \<Rightarrow> d1_db \<Rightarrow> bool" where
  "held_for m db \<longleftrightarrow>
     (\<exists>row. row_of (am_message_id m) db = Some row \<and> dm_recipient row = am_recipient m \<and>
        version_bind m \<le> dm_version row)"

lemma held_for_advanced: "held_for m db \<Longrightarrow> advanced db db' \<Longrightarrow> held_for m db'"
  unfolding held_for_def by (fastforce dest: advancedD simp: row_advances_def)

definition owned :: "archive_message_rec set \<Rightarrow> d1_db \<Rightarrow> bool" where
  "owned ms db \<longleftrightarrow>
     (\<forall>m\<in>ms. \<forall>row. row_of (am_message_id m) db = Some row \<longrightarrow> dm_recipient row = am_recipient m)"

definition one_owner :: "archive_message_rec set \<Rightarrow> bool" where
  "one_owner ms \<longleftrightarrow>
     (\<forall>m\<in>ms. \<forall>m'\<in>ms. am_message_id m = am_message_id m' \<longrightarrow> am_recipient m = am_recipient m')"

lemma statements_advance:
  assumes "batch_stmt (statements m) db = Inr (ns, db')"
  shows "advanced db db'"
  using assms
proof (rule statements_run)
  fix bx
  assume "\<And>i. row_of i db' =
    (if i = am_message_id m then Some (upserted (message_ex m bx (d_now db)) (d_now db) (row_of i db))
     else row_of i db)"
  then show ?thesis
    by (auto simp: advanced_def upserted_def intro: upsert_update_advances)
qed

lemma statements_hold:
  assumes "batch_stmt (statements m) db = Inr (ns, db')" and "owned ms db" and "one_owner ms" and "m \<in> ms"
  shows "held_for m db'" and "owned ms db'"
proof -
  obtain bx where row: "\<And>i. row_of i db' =
    (if i = am_message_id m then Some (upserted (message_ex m bx (d_now db)) (d_now db) (row_of i db))
     else row_of i db)"
    using statements_run [OF assms(1)] by blast
  show "held_for m db'"
  proof (cases "row_of (am_message_id m) db")
    case None
    with row [of "am_message_id m"] show ?thesis by (simp add: held_for_def upserted_def)
  next
    case (Some r)
    then have "dm_recipient r = am_recipient m" using assms(2,4) by (simp add: owned_def)
    with Some row [of "am_message_id m"] show ?thesis by (simp add: held_for_def upserted_def)
  qed
  show "owned ms db'"
    unfolding owned_def
  proof (intro ballI allI impI)
    fix m' r
    assume m': "m' \<in> ms" and r: "row_of (am_message_id m') db' = Some r"
    show "dm_recipient r = am_recipient m'"
    proof (cases "am_message_id m' = am_message_id m")
      case True
      with assms(3,4) m' have "am_recipient m' = am_recipient m" unfolding one_owner_def by blast
      moreover have "\<And>r0. row_of (am_message_id m) db = Some r0 \<Longrightarrow> dm_recipient r0 = am_recipient m"
        using assms(2,4) by (simp add: owned_def)
      moreover have "Some r = Some (upserted (message_ex m bx (d_now db)) (d_now db)
          (row_of (am_message_id m) db))"
        using True r row [of "am_message_id m"] by simp
      ultimately show ?thesis
        by (cases "row_of (am_message_id m) db") (simp_all add: upserted_def)
    next
      case False
      with r row assms(2) m' show ?thesis by (simp add: owned_def)
    qed
  qed
qed

lemma batch_append_Inr:
  assumes "batch_stmt (xs @ ys) db = Inr (ns, db')"
  obtains n1 db1 n2 where "batch_stmt xs db = Inr (n1, db1)" and "batch_stmt ys db1 = Inr (n2, db')"
  using assms by (auto simp: batch_append split: sum.splits)

lemma batch_advances: "batch_stmt (concat (map statements ms)) db = Inr (ns, db') \<Longrightarrow> advanced db db'"
proof (induction ms arbitrary: db ns)
  case (Cons m ms)
  from Cons.prems have "batch_stmt (statements m @ concat (map statements ms)) db = Inr (ns, db')" by simp
  then show ?case
    by (rule batch_append_Inr) (blast intro: advanced_trans statements_advance Cons.IH)
qed simp

lemma batch_holds:
  assumes "batch_stmt (concat (map statements ms)) db = Inr (ns, db')"
    and "owned A db" and "one_owner A" and "set ms \<subseteq> A"
  shows "(\<forall>m\<in>set ms. held_for m db') \<and> owned A db'"
  using assms
proof (induction ms arbitrary: db ns)
  case (Cons m ms)
  from Cons.prems have "batch_stmt (statements m @ concat (map statements ms)) db = Inr (ns, db')" by simp
  then obtain n1 db1 n2 where one: "batch_stmt (statements m) db = Inr (n1, db1)"
    and rest: "batch_stmt (concat (map statements ms)) db1 = Inr (n2, db')"
    by (rule batch_append_Inr)
  have "held_for m db1" and owned: "owned A db1"
    using statements_hold [OF one, of A] Cons.prems by auto
  with Cons.IH [OF rest owned] Cons.prems batch_advances [OF rest] show ?case
    by (auto intro: held_for_advanced)
qed simp

subsection \<open>The held read\<close>

definition ids_distinct :: "d1_db \<Rightarrow> bool" where
  "ids_distinct db \<longleftrightarrow> distinct (map dm_message_id (d_messages db))"

definition held_of :: "d1_message \<Rightarrow> held" where
  "held_of m = \<lparr>h_recipient = dm_recipient m, h_version = u64_of_i64_clamped (js_number (dm_version m))\<rparr>"

lemma row_of_distinct:
  assumes "ids_distinct db" and "m \<in> set (d_messages db)"
  shows "row_of (dm_message_id m) db = Some m"
  using find_key [of dm_message_id "d_messages db" m] assms
  by (simp add: row_of_def ids_distinct_def)

lemma held_rows_loop_reads:
  assumes "held_rows_loop cs rows db = (Inr out, db')"
  shows "tables db' = tables db" and "out = rows @ concat (map (\<lambda>c. archive_held_sql c db) cs)"
proof -
  have "tables db' = tables db \<and> out = rows @ concat (map (\<lambda>c. archive_held_sql c db) cs)"
    using assms
  proof (induction cs arbitrary: rows db)
    case (Cons c cs)
    from Cons.prems obtain more db1 where
      one: "with_d1_bounded_read (d1_read (length c) (archive_held_sql c)) db = (Inr more, db1)"
      and rest: "held_rows_loop cs (rows @ more) db1 = (Inr out, db')"
      by (auto elim: andThen_InrE)
    have t: "tables db1 = tables db" and "more = archive_held_sql c db1"
      using bounded_read_tables [OF one] by simp_all
    moreover have "archive_held_sql c' db1 = archive_held_sql c' db" for c'
      using tables_fields(1) [OF t] by (simp add: archive_held_sql_def)
    ultimately show ?case using Cons.IH [OF rest] by simp
  qed simp
  then show "tables db' = tables db" and "out = rows @ concat (map (\<lambda>c. archive_held_sql c db) cs)"
    by simp_all
qed

lemma held_entries:
  "List.map_filter held_entry (archive_held_sql c db) =
     map (\<lambda>m. (dm_message_id m, held_of m)) (filter (\<lambda>m. dm_message_id m \<in> set c) (d_messages db))"
  by (simp add: archive_held_sql_def List.map_filter_def held_entry_def held_of_def comp_def)

lemma map_filter_append: "List.map_filter f (xs @ ys) = List.map_filter f xs @ List.map_filter f ys"
  by (simp add: List.map_filter_def)

lemma map_filter_concat: "List.map_filter f (concat xss) = concat (map (List.map_filter f) xss)"
  by (induction xss) (simp_all add: List.map_filter_def)

lemma held_map_reads:
  assumes "ids_distinct db" and "mid \<in> set (concat cs)"
  shows "held_map (concat (map (\<lambda>c. archive_held_sql c db) cs)) mid = map_option held_of (row_of mid db)"
proof -
  define es where "es = List.map_filter held_entry (concat (map (\<lambda>c. archive_held_sql c db) cs))"
  have es: "set es = {(dm_message_id m, held_of m) | m. m \<in> set (d_messages db) \<and>
      dm_message_id m \<in> set (concat cs)}"
    by (auto simp: es_def map_filter_concat comp_def held_entries)
  show ?thesis
  proof (cases "row_of mid db")
    case None
    then have "mid \<notin> fst ` set es"
      by (auto simp: es row_of_def find_None)
    then have "map_of (rev es) mid = None" by (simp add: map_of_eq_None_iff)
    with None show ?thesis by (simp add: held_map_def es_def)
  next
    case (Some m)
    then have m: "m \<in> set (d_messages db)" "dm_message_id m = mid" by (auto dest: row_of_id)
    with assms(2) have "(mid, held_of m) \<in> set es" by (auto simp: es)
    then obtain h where h: "map_of (rev es) mid = Some h"
      by (cases "map_of (rev es) mid") (force simp: map_of_eq_None_iff)+
    then have "(mid, h) \<in> set es" by (auto dest: map_of_SomeD)
    then obtain m' where "m' \<in> set (d_messages db)" "dm_message_id m' = mid" "h = held_of m'"
      by (auto simp: es)
    with row_of_distinct [OF assms(1)] Some have "h = held_of m" by fastforce
    with Some h show ?thesis by (simp add: held_map_def es_def)
  qed
qed

subsection \<open>The plan\<close>

lemma best_of_upto:
  assumes "n \<le> length batch"
  defines "best \<equiv> foldl (note_best batch) Map.empty [0..<n]"
  shows "(\<forall>k b. best k = Some b \<longrightarrow> b < n \<and> am_message_id (batch ! b) = k) \<and>
    (\<forall>i<n. \<exists>b. best (am_message_id (batch ! i)) = Some b \<and> am_version (batch ! i) \<le> am_version (batch ! b))"
  using assms(1) unfolding best_def
proof (induction n)
  case (Suc n)
  define prev where "prev = foldl (note_best batch) Map.empty [0..<n]"
  have step: "foldl (note_best batch) Map.empty [0..<Suc n] = note_best batch prev n"
    by (simp add: prev_def)
  have known: "prev k = Some b \<Longrightarrow> b < n \<and> am_message_id (batch ! b) = k" for k b
    using Suc by (simp add: prev_def)
  have covers: "i < n \<Longrightarrow> \<exists>b. prev (am_message_id (batch ! i)) = Some b \<and>
      am_version (batch ! i) \<le> am_version (batch ! b)" for i
    using Suc by (simp add: prev_def)
  show ?case unfolding step
  proof (intro conjI allI impI)
    fix k b assume "note_best batch prev n k = Some b"
    then show "b < Suc n" and "am_message_id (batch ! b) = k"
      using known [of k b] by (auto simp: note_best_def Let_def split: option.splits if_splits)
  next
    fix i assume "i < Suc n"
    then consider "i = n" | "i < n" by linarith
    then show "\<exists>b. note_best batch prev n (am_message_id (batch ! i)) = Some b \<and>
        am_version (batch ! i) \<le> am_version (batch ! b)"
    proof cases
      case 1
      then show ?thesis by (auto simp: note_best_def Let_def split: option.splits)
    next
      case 2
      then show ?thesis using covers [of i]
        by (auto simp: note_best_def Let_def split: option.splits)
    qed
  qed
qed simp

lemma best_of_spec:
  assumes "i < length batch"
  obtains b where "best_of batch (am_message_id (batch ! i)) = Some b" and "b < length batch"
    and "am_message_id (batch ! b) = am_message_id (batch ! i)"
    and "am_version (batch ! i) \<le> am_version (batch ! b)"
  using best_of_upto [of "length batch" batch] assms unfolding best_of_def by blast

lemma plan_nth: "i < length batch \<Longrightarrow> plan batch h ! i = verdict_of batch h (best_of batch) i"
  by (simp add: plan_def)

lemma length_plan [simp]: "length (plan batch h) = length batch"
  by (simp add: plan_def)

text \<open>The rules of the plan, for the message at one place of the batch.\<close>

lemma verdict_cases:
  assumes i: "i < length batch"
    and held: "\<And>j. j < length batch \<Longrightarrow> h (am_message_id (batch ! j)) =
      map_option held_of (row_of (am_message_id (batch ! j)) db)"
    and b: "best_of batch (am_message_id (batch ! i)) = Some b"
  defines "owner \<equiv> (case row_of (am_message_id (batch ! i)) db of Some r \<Rightarrow> dm_recipient r
                     | None \<Rightarrow> am_recipient (batch ! b))"
  shows "plan batch h ! i =
    (if am_recipient (batch ! i) \<noteq> owner then Collision
     else if b \<noteq> i then Superseded
     else case row_of (am_message_id (batch ! i)) db of
       Some r \<Rightarrow> if am_version (batch ! i) \<le> u64_of_i64_clamped (js_number (dm_version r)) then Repeat else Apply
     | None \<Rightarrow> Apply)"
  using b held [OF i]
  by (cases "row_of (am_message_id (batch ! i)) db")
     (simp_all add: plan_nth [OF i] verdict_of_def Let_def owner_def held_of_def)

lemma set_applied:
  assumes "length vs = length batch"
  shows "set (applied_messages batch vs) = {batch ! i | i. i < length batch \<and> vs ! i = Apply}"
  using assms by (force simp: applied_messages_def set_zip)

text \<open>The applied messages: one per id, and each for the recipient D1 already holds it for.\<close>

lemma applied_owned:
  assumes held: "\<And>j. j < length batch \<Longrightarrow> h (am_message_id (batch ! j)) =
      map_option held_of (row_of (am_message_id (batch ! j)) db)"
  defines "A \<equiv> set (applied_messages batch (plan batch h))"
  shows "owned A db" and "one_owner A"
proof -
  have A: "A = {batch ! i | i. i < length batch \<and> plan batch h ! i = Apply}"
    by (simp add: A_def set_applied)
  have rule: "best_of batch (am_message_id (batch ! i)) = Some i \<and>
      (\<forall>r. row_of (am_message_id (batch ! i)) db = Some r \<longrightarrow> dm_recipient r = am_recipient (batch ! i))"
    if i: "i < length batch" and ap: "plan batch h ! i = Apply" for i
  proof -
    obtain b where b: "best_of batch (am_message_id (batch ! i)) = Some b" using best_of_spec [OF i] .
    with verdict_cases [of i batch h db b] i ap held show ?thesis
      by (auto split: if_splits option.splits)
  qed
  show "owned A db" unfolding owned_def A using rule by blast
  have one: "i = j" if "i < length batch" "plan batch h ! i = Apply" "j < length batch"
    "plan batch h ! j = Apply" "am_message_id (batch ! i) = am_message_id (batch ! j)" for i j
  proof -
    have "Some i = best_of batch (am_message_id (batch ! i))" using rule [OF that(1,2)] by simp
    also have "\<dots> = best_of batch (am_message_id (batch ! j))" by (simp only: that(5))
    also have "\<dots> = Some j" using rule [OF that(3,4)] by simp
    finally show ?thesis by simp
  qed
  show "one_owner A" unfolding one_owner_def A
  proof (intro ballI impI)
    fix m m'
    assume "m \<in> {batch ! i | i. i < length batch \<and> plan batch h ! i = Apply}"
      and "m' \<in> {batch ! i | i. i < length batch \<and> plan batch h ! i = Apply}"
      and same: "am_message_id m = am_message_id m'"
    then obtain i j where "i < length batch" "plan batch h ! i = Apply" "m = batch ! i"
      "j < length batch" "plan batch h ! j = Apply" "m' = batch ! j" by blast
    with one [of i j] same show "am_recipient m = am_recipient m'" by simp
  qed
qed

subsection \<open>The write of a batch\<close>

lemma write_batch_attempt:
  assumes "advanced db0 db" and "owned A db" and "one_owner A" and "set ms \<subseteq> A"
    and run: "d1_batch (concat (map statements ms)) db = (r, db')"
  shows "advanced db0 db'" and "owned A db'" and "r = Inr ns \<Longrightarrow> \<forall>m\<in>set ms. held_for m db'"
proof -
  let ?db = "db\<lparr>d_script := tl (d_script db)\<rparr>"
  have before: "advanced db0 ?db" "owned A ?db" using assms(1,2) by (simp_all add: owned_def)
  have all: "advanced db0 db' \<and> owned A db' \<and> (\<forall>ns. r = Inr ns \<longrightarrow> (\<forall>m\<in>set ms. held_for m db'))"
    using run unfolding d1_batch_def
  proof (cases rule: d1_run_cases)
    case (kept e)
    with before show ?thesis by simp
  next
    case (landed e a)
    from batch_advances [OF landed(3)] batch_holds [OF landed(3) before(2) assms(3,4)] before landed(1)
    show ?thesis by (auto intro: advanced_trans)
  next
    case (served a)
    from batch_advances [OF served(3)] batch_holds [OF served(3) before(2) assms(3,4)] before served(1)
    show ?thesis by (auto intro: advanced_trans)
  qed
  then show "advanced db0 db'" and "owned A db'" and "r = Inr ns \<Longrightarrow> \<forall>m\<in>set ms. held_for m db'"
    by simp_all
qed

lemma write_batch:
  assumes "owned (set ms) db" and "one_owner (set ms)"
    and "with_d1_write_retry (d1_batch (concat (map statements ms))) db = (r, db')"
  shows "advanced db db'" and "r = Inr v \<Longrightarrow> \<forall>m\<in>set ms. held_for m db'"
proof -
  let ?R = "\<lambda>_ db1. advanced db db1 \<and> owned (set ms) db1"
  let ?Q = "\<lambda>_ _ db1. advanced db db1 \<and> (\<forall>m\<in>set ms. held_for m db1)"
  have "case r of Inr (v, b) \<Rightarrow> ?Q v b db' | Inl e \<Rightarrow> ?R True db'"
  proof (rule write_retry_rule [OF _ _ _ assms(3), where R = ?R and Q = ?Q])
    show "?R False db" using assms(1) by simp
    fix b db1 e db2
    assume R: "?R b db1" and run: "d1_batch (concat (map statements ms)) db1 = (Inl e, db2)"
    from write_batch_attempt(1,2) [OF conjunct1 [OF R] conjunct2 [OF R] assms(2) subset_refl run]
    show "?R True db2" by simp
  next
    fix b db1 v db2
    assume R: "?R b db1" and run: "d1_batch (concat (map statements ms)) db1 = (Inr v, db2)"
    from write_batch_attempt(1,3) [OF conjunct1 [OF R] conjunct2 [OF R] assms(2) subset_refl run]
    show "?Q v b db2" by simp
  qed
  then show "advanced db db'" and "r = Inr v \<Longrightarrow> \<forall>m\<in>set ms. held_for m db'"
    by (auto split: sum.splits prod.splits)
qed

text \<open>What the table promises the consumer: one row per id, and versions a double holds exactly.\<close>

definition table_ok :: "d1_db \<Rightarrow> bool" where
  "table_ok db \<longleftrightarrow> ids_distinct db \<and> (\<forall>m\<in>set (d_messages db). 0 \<le> dm_version m \<and> dm_version m \<le> 2 ^ 53)"

definition versions_ok :: "archive_message_rec list \<Rightarrow> bool" where
  "versions_ok batch \<longleftrightarrow> (\<forall>m\<in>set batch. am_version m \<le> 2 ^ 53)"

lemma version_bind_small:
  assumes "am_version m \<le> 2 ^ 53"
  shows "version_bind m = int (am_version m)"
proof -
  from assms have "int (am_version m) \<le> 2 ^ 53"
    by (metis of_nat_le_iff of_nat_numeral of_nat_power)
  moreover from assms have "am_version m < 2 ^ 63" by (rule le_less_trans) simp
  ultimately show ?thesis by (simp add: version_bind_def)
qed

lemma version_bind_bounds:
  assumes "am_version m \<le> 2 ^ 53"
  shows "0 \<le> version_bind m \<and> version_bind m \<le> 2 ^ 53"
  using assms unfolding version_bind_small [OF assms]
  by (metis of_nat_0_le_iff of_nat_le_iff of_nat_numeral of_nat_power)

lemma table_ok_script [simp]: "table_ok (db\<lparr>d_script := s\<rparr>) = table_ok db"
  by (simp add: table_ok_def ids_distinct_def)

lemma table_ok_tables: "tables db = tables db' \<Longrightarrow> table_ok db = table_ok db'"
  using tables_fields(1) [of db db'] by (simp add: table_ok_def ids_distinct_def)

lemma upsert_table_ok:
  assumes "ARCHIVE_UPSERT_SQL mid sender recipient body created acked v owner mbox db = Inr (n, db')"
    and "table_ok db" and "0 \<le> v \<and> v \<le> 2 ^ 53"
  shows "table_ok db'"
proof -
  have keeps: "table_ok (db\<lparr>d_messages := update_where (\<lambda>m. dm_message_id m = mid) (upsert_update ex now)
      (d_messages db)\<rparr>)" if "0 \<le> dm_version ex \<and> dm_version ex \<le> 2 ^ 53" for ex now
  proof -
    have "map dm_message_id (update_where (\<lambda>m. dm_message_id m = mid) (upsert_update ex now) (d_messages db))
        = map dm_message_id (d_messages db)"
      by (simp add: update_where_def)
    moreover have "0 \<le> dm_version m \<and> dm_version m \<le> 2 ^ 53"
      if "m \<in> set (update_where (\<lambda>m. dm_message_id m = mid) (upsert_update ex now) (d_messages db))" for m
      using that \<open>0 \<le> dm_version ex \<and> dm_version ex \<le> 2 ^ 53\<close> assms(2)
      by (auto simp: table_ok_def update_where_def)
    ultimately show ?thesis using assms(2) by (simp add: table_ok_def ids_distinct_def)
  qed
  have adds: "table_ok (db\<lparr>d_messages := d_messages db @ [ex]\<rparr>)"
    if "0 \<le> dm_version ex \<and> dm_version ex \<le> 2 ^ 53" "dm_message_id ex = mid"
      "find (\<lambda>m. dm_message_id m = mid) (d_messages db) = None" for ex
    using that assms(2) by (auto simp: table_ok_def ids_distinct_def find_None)
  have ex: "dm_version (excluded_row mid bx sender recipient body created acked v now) = v"
    "dm_message_id (excluded_row mid bx sender recipient body created acked v now) = mid" for bx now
    by (simp_all add: excluded_row_def)
  show ?thesis
    using assms(1,2) keeps [of "excluded_row mid _ sender recipient body created acked v (d_now db)" "d_now db"]
      adds [of "excluded_row mid _ sender recipient body created acked v (d_now db)"] assms(3) ex
    by (auto simp: ARCHIVE_UPSERT_SQL_def Let_def split: list.splits option.splits if_splits)
qed

lemma INSERT_BOX_table_ok: "INSERT_BOX_SQL w mb db = Inr (n, db') \<Longrightarrow> table_ok db \<Longrightarrow> table_ok db'"
  by (auto simp: INSERT_BOX_SQL_def table_ok_def ids_distinct_def split: if_splits)

lemma batch_table_ok:
  assumes "batch_stmt (concat (map statements ms)) db = Inr (ns, db')"
    and "table_ok db" and "versions_ok ms"
  shows "table_ok db'"
  using assms
proof (induction ms arbitrary: db ns)
  case (Cons m ms)
  from Cons.prems have "batch_stmt (statements m @ concat (map statements ms)) db = Inr (ns, db')" by simp
  then obtain n1 db1 n2 where one: "batch_stmt (statements m) db = Inr (n1, db1)"
    and rest: "batch_stmt (concat (map statements ms)) db1 = Inr (n2, db')"
    by (rule batch_append_Inr)
  have "0 \<le> version_bind m \<and> version_bind m \<le> 2 ^ 53"
    using Cons.prems(3) version_bind_bounds [of m] by (simp add: versions_ok_def)
  with one Cons.prems(2) have "table_ok db1"
    by (auto simp: statements_def ARCHIVE_BOX_SQL_def bounded_stmt_def D1_MAX_BOUND_PARAMS_def
        split: sum.splits dest!: INSERT_BOX_table_ok upsert_table_ok)
  with Cons.IH [OF rest] Cons.prems(3) show ?case by (simp add: versions_ok_def)
qed simp

lemma write_batch_table_ok:
  assumes "table_ok db" and "versions_ok ms"
    and "with_d1_write_retry (d1_batch (concat (map statements ms))) db = (r, db')"
  shows "table_ok db'"
proof -
  have step: "table_ok db2" if "table_ok db1" "d1_batch (concat (map statements ms)) db1 = (x, db2)" for db1 x db2
    using that(2,1) unfolding d1_batch_def
    by (cases rule: d1_run_cases) (auto dest!: batch_table_ok simp: assms(2))
  have "case r of Inr (v, b) \<Rightarrow> table_ok db' | Inl e \<Rightarrow> table_ok db'"
    by (rule write_retry_rule [OF _ _ _ assms(3), where R = "\<lambda>_. table_ok" and Q = "\<lambda>_ _. table_ok"])
       (use assms(1) step in blast)+
  then show ?thesis by (simp split: sum.splits prod.splits)
qed

lemma versions_ok_applied: "versions_ok batch \<Longrightarrow> versions_ok (applied_messages batch vs)"
  by (auto simp: versions_ok_def applied_messages_def dest: set_zip_leftD)

subsection \<open>An applied acknowledgment marks the row\<close>

text \<open>Before the write the row is older than the message or already marked; after it, marked.\<close>

definition pending_ack :: "archive_message_rec \<Rightarrow> d1_db \<Rightarrow> bool" where
  "pending_ack m db \<longleftrightarrow> (\<forall>row. row_of (am_message_id m) db = Some row \<longrightarrow>
     dm_recipient row = am_recipient m \<and>
     (dm_version row < version_bind m \<or> dm_acknowledged_at row \<noteq> None))"

definition marked_ack :: "archive_message_rec \<Rightarrow> d1_db \<Rightarrow> bool" where
  "marked_ack m db \<longleftrightarrow>
     (\<exists>row. row_of (am_message_id m) db = Some row \<and> dm_recipient row = am_recipient m \<and>
        dm_acknowledged_at row \<noteq> None)"

lemma marked_pending: "marked_ack m db \<Longrightarrow> pending_ack m db"
  by (auto simp: marked_ack_def pending_ack_def)

lemma marked_advanced: "marked_ack m db \<Longrightarrow> advanced db db' \<Longrightarrow> marked_ack m db'"
  unfolding marked_ack_def by (fastforce dest: advancedD simp: row_advances_def)

lemma upserted_ack:
  assumes "dm_acknowledged_at ex \<noteq> None"
    and "\<And>row. r = Some row \<Longrightarrow> dm_recipient row = dm_recipient ex \<and>
      (dm_version row < dm_version ex \<or> dm_acknowledged_at row \<noteq> None)"
  shows "dm_acknowledged_at (upserted ex now r) \<noteq> None \<and> dm_recipient (upserted ex now r) = dm_recipient ex"
  using assms by (cases r) (auto simp: upserted_def upsert_update_def split: option.splits)

lemma statements_mark:
  assumes run: "batch_stmt (statements m) db = Inr (ns, db')" and "am_change m = Acknowledge"
    and "pending_ack m db"
  shows "marked_ack m db'"
proof -
  obtain bx where row: "\<And>i. row_of i db' =
    (if i = am_message_id m then Some (upserted (message_ex m bx (d_now db)) (d_now db) (row_of i db))
     else row_of i db)"
    using statements_run [OF run] by blast
  have ex: "dm_acknowledged_at (message_ex m bx (d_now db)) \<noteq> None"
    using assms(2) by (simp add: message_ex_def excluded_row_def acknowledged_bind_def)
  from upserted_ack [OF ex, of "row_of (am_message_id m) db" "d_now db"] assms(3) row [of "am_message_id m"]
  show ?thesis by (auto simp: marked_ack_def pending_ack_def)
qed

lemma statements_other:
  assumes run: "batch_stmt (statements m') db = Inr (ns, db')" and "am_message_id m' \<noteq> am_message_id m"
  shows "row_of (am_message_id m) db' = row_of (am_message_id m) db"
  using assms by (auto elim: statements_run)

lemma batch_marks:
  assumes "batch_stmt (concat (map statements ms)) db = Inr (ns, db')"
    and "distinct (map am_message_id ms)" and "am_change m = Acknowledge" and "pending_ack m db"
    and "m \<in> set ms"
  shows "marked_ack m db'"
  using assms
proof (induction ms arbitrary: db ns)
  case (Cons m' ms)
  from Cons.prems have "batch_stmt (statements m' @ concat (map statements ms)) db = Inr (ns, db')" by simp
  then obtain n1 db1 n2 where one: "batch_stmt (statements m') db = Inr (n1, db1)"
    and rest: "batch_stmt (concat (map statements ms)) db1 = Inr (n2, db')"
    by (rule batch_append_Inr)
  show ?case
  proof (cases "m' = m")
    case True
    then have "marked_ack m db1" using statements_mark [OF one] Cons.prems by simp
    then show ?thesis using batch_advances [OF rest] by (rule marked_advanced)
  next
    case False
    with Cons.prems(2,5) have "m \<in> set ms" and "am_message_id m' \<noteq> am_message_id m"
      by (auto simp: image_iff)
    then have "row_of (am_message_id m) db1 = row_of (am_message_id m) db"
      using statements_other [OF one] by blast
    then have "pending_ack m db1" using Cons.prems(4) by (simp add: pending_ack_def)
    with Cons.IH [OF rest] Cons.prems \<open>m \<in> set ms\<close> show ?thesis by simp
  qed
qed simp

lemma pending_ack_script [simp]: "pending_ack m (db\<lparr>d_script := s\<rparr>) = pending_ack m db"
  by (simp add: pending_ack_def)

lemma batch_attempt_marks:
  assumes run: "d1_batch (concat (map statements ms)) db = (r, db')"
    and ms: "distinct (map am_message_id ms)" "am_change m = Acknowledge" "m \<in> set ms"
    and p: "pending_ack m db"
  shows "pending_ack m db'" and "r = Inr n \<Longrightarrow> marked_ack m db'"
proof -
  note marks = batch_marks [OF _ ms(1,2) _ ms(3), of "db\<lparr>d_script := tl (d_script db)\<rparr>"]
  have "pending_ack m db' \<and> (\<forall>n. r = Inr n \<longrightarrow> marked_ack m db')"
    using run unfolding d1_batch_def
  proof (cases rule: d1_run_cases)
    case (kept e)
    with p show ?thesis by simp
  next
    case (landed e a)
    from marks [OF landed(3)] p landed(1) show ?thesis by (simp add: marked_pending)
  next
    case (served a)
    from marks [OF served(3)] p show ?thesis by (simp add: marked_pending)
  qed
  then show "pending_ack m db'" and "r = Inr n \<Longrightarrow> marked_ack m db'" by blast+
qed

lemma write_batch_marks:
  assumes w: "with_d1_write_retry (d1_batch (concat (map statements ms))) db = (Inr v, db')"
    and ms: "distinct (map am_message_id ms)" "am_change m = Acknowledge" "m \<in> set ms"
    and p: "pending_ack m db"
  shows "marked_ack m db'"
  using w p
proof (rule write_retry_answered [where R = "\<lambda>_. pending_ack m"])
  fix b db1 e db2
  assume "pending_ack m db1" and "d1_batch (concat (map statements ms)) db1 = (Inl e, db2)"
  then show "pending_ack m db2" using batch_attempt_marks(1) [OF _ ms] by blast
next
  fix b db1 n db2
  assume "pending_ack m db1" and "d1_batch (concat (map statements ms)) db1 = (Inr n, db2)"
  then show "marked_ack m db2" using batch_attempt_marks(2) [OF _ ms] by blast
qed

text \<open>The applied messages name distinct ids: each is the batch's choice for its id.\<close>

lemma applied_alt: "applied_messages batch (plan batch h) =
    map (nth batch) (filter (\<lambda>i. plan batch h ! i = Apply) [0..<length batch])"
proof -
  have "zip batch (plan batch h) = map (\<lambda>i. (batch ! i, plan batch h ! i)) [0..<length batch]"
    by (rule nth_equalityI) simp_all
  then show ?thesis by (simp add: applied_messages_def filter_map comp_def)
qed

lemma applied_best:
  assumes "i < length batch" and "plan batch h ! i = Apply"
  shows "best_of batch (am_message_id (batch ! i)) = Some i"
proof -
  obtain b where "best_of batch (am_message_id (batch ! i)) = Some b" using best_of_spec [OF assms(1)] .
  with assms show ?thesis
    by (auto simp: plan_nth verdict_of_def Let_def split: if_splits option.splits)
qed

lemma applied_distinct: "distinct (map am_message_id (applied_messages batch (plan batch h)))"
proof -
  let ?is = "filter (\<lambda>i. plan batch h ! i = Apply) [0..<length batch]"
  have "inj_on (\<lambda>i. am_message_id (batch ! i)) (set ?is)"
  proof (rule inj_onI)
    fix i j
    assume i: "i \<in> set ?is" and j: "j \<in> set ?is"
      and same: "am_message_id (batch ! i) = am_message_id (batch ! j)"
    from i have "Some i = best_of batch (am_message_id (batch ! i))"
      using applied_best [of i batch h] by simp
    also have "\<dots> = best_of batch (am_message_id (batch ! j))" by (simp only: same)
    also from j have "\<dots> = Some j" using applied_best [of j batch h] by simp
    finally show "i = j" by simp
  qed
  moreover have "distinct ?is" by simp
  ultimately have "distinct (map (\<lambda>i. am_message_id (batch ! i)) ?is)" by (simp only: distinct_map)
  then show ?thesis by (simp add: applied_alt comp_def)
qed

lemma applied_pending:
  assumes ok: "table_ok db" and vers: "versions_ok batch"
    and held: "\<And>j. j < length batch \<Longrightarrow> h (am_message_id (batch ! j)) =
      map_option held_of (row_of (am_message_id (batch ! j)) db)"
    and m: "m \<in> set (applied_messages batch (plan batch h))"
  shows "pending_ack m db"
  unfolding pending_ack_def
proof (intro allI impI)
  fix row
  assume row: "row_of (am_message_id m) db = Some row"
  obtain i where i: "i < length batch" "plan batch h ! i = Apply" "m = batch ! i"
    using m by (auto simp: set_applied)
  note best = applied_best [OF i(1,2)]
  have "0 \<le> dm_version row" "dm_version row \<le> 2 ^ 53"
    using ok row_of_id [OF row] by (auto simp: table_ok_def)
  then have "int (u64_of_i64_clamped (js_number (dm_version row))) = dm_version row"
    by (simp add: u64_of_i64_clamped_nonneg)
  moreover have "version_bind m = int (am_version m)"
    using vers i by (intro version_bind_small) (simp add: versions_ok_def)
  moreover have "dm_recipient row = am_recipient m"
    "u64_of_i64_clamped (js_number (dm_version row)) < am_version m"
    using verdict_cases [of i batch h db i, OF i(1) held best] i row
    by (auto split: if_splits)
  ultimately show "dm_recipient row = am_recipient m \<and>
      (dm_version row < version_bind m \<or> dm_acknowledged_at row \<noteq> None)" by linarith
qed

subsection \<open>The outcome of one batch\<close>

text \<open>
  A batch, as its reads and its write leave it: the verdicts are the plan against the rows D1
  held, the rows only advanced, and an answered batch holds every applied message.
\<close>

lemma archive_batch_reads:
  assumes ok: "table_ok db" and read: "held_rows_loop
      (chunks ARCHIVE_READ_CHUNK (remdups_adj (sort (map am_message_id batch)))) [] db = (Inr rows, db1)"
    and j: "j < length batch"
  shows "held_map rows (am_message_id (batch ! j)) =
    map_option held_of (row_of (am_message_id (batch ! j)) db)"
proof -
  let ?cs = "chunks ARCHIVE_READ_CHUNK (remdups_adj (sort (map am_message_id batch)))"
  have "concat ?cs = remdups_adj (sort (map am_message_id batch))"
    by (rule concat_chunks) (simp add: ARCHIVE_READ_CHUNK_def)
  with j have "am_message_id (batch ! j) \<in> set (concat ?cs)" by simp
  moreover have "rows = concat (map (\<lambda>c. archive_held_sql c db) ?cs)"
    using held_rows_loop_reads(2) [OF read] by simp
  ultimately show ?thesis using held_map_reads [of db _ ?cs] ok by (simp add: table_ok_def)
qed

lemma held_rows_loop_tables: "held_rows_loop cs rows db = (r, db') \<Longrightarrow> tables db' = tables db"
proof (induction cs arbitrary: rows db)
  case (Cons c cs)
  obtain x db1 where one: "with_d1_bounded_read (d1_read (length c) (archive_held_sql c)) db = (x, db1)"
    by (cases "with_d1_bounded_read (d1_read (length c) (archive_held_sql c)) db")
  with bounded_read_tables(1) [OF one] Cons show ?case by (cases x) auto
qed simp

definition answered_batch :: "archive_message_rec list \<Rightarrow> d1_db \<Rightarrow> verdict list \<Rightarrow> d1_db \<Rightarrow> bool" where
  "answered_batch batch db vs db' \<longleftrightarrow> (\<exists>h. vs = plan batch h \<and>
     (\<forall>j<length batch. h (am_message_id (batch ! j)) =
        map_option held_of (row_of (am_message_id (batch ! j)) db)) \<and>
     (\<forall>m\<in>set (applied_messages batch vs). held_for m db' \<and>
        (am_change m = Acknowledge \<longrightarrow> marked_ack m db')) \<and>
     (applied_messages batch vs = [] \<longrightarrow> tables db' = tables db))"

lemma archive_batch_outcome:
  assumes ok: "table_ok db" and vers: "versions_ok batch"
    and run: "archive_batch batch db = (r, db')"
  shows "advanced db db'" and "table_ok db'"
    and "r = Inr vs \<Longrightarrow> answered_batch batch db vs db'"
proof -
  let ?loop = "held_rows_loop (chunks ARCHIVE_READ_CHUNK (remdups_adj (sort (map am_message_id batch)))) [] db"
  obtain x db1 where read: "?loop = (x, db1)" by (cases ?loop)
  note t1 = held_rows_loop_tables [OF read]
  have adv1: "advanced db db1" and ok1: "table_ok db1"
    using advanced_tables [OF t1 [symmetric]] table_ok_tables [OF t1] ok by simp_all
  have "advanced db db' \<and> table_ok db' \<and> (\<forall>vs. r = Inr vs \<longrightarrow> answered_batch batch db vs db')"
  proof (cases x)
    case (Inl e)
    with run read adv1 ok1 show ?thesis by (auto simp: archive_batch_def Let_def)
  next
    case (Inr rows)
    define h where "h = held_map rows"
    define ap where "ap = applied_messages batch (plan batch h)"
    have h: "\<And>j. j < length batch \<Longrightarrow> h (am_message_id (batch ! j)) =
        map_option held_of (row_of (am_message_id (batch ! j)) db)"
      using archive_batch_reads [OF ok] read Inr by (simp add: h_def)
    note own = applied_owned [of batch h db, OF h, folded ap_def]
    have own1: "owned (set ap) db1" using own(1) row_of_tables [OF t1] by (simp add: owned_def)
    show ?thesis
    proof (cases "ap = []")
      case True
      with run read Inr have "r = Inr (plan batch h)" "db' = db1"
        by (simp_all add: archive_batch_def Let_def h_def ap_def)
      with adv1 ok1 t1 True h show ?thesis by (auto simp: ap_def answered_batch_def)
    next
      case False
      obtain y db2 where w: "with_d1_write_retry (d1_batch (concat (map statements ap))) db1 = (y, db2)"
        by (cases "with_d1_write_retry (d1_batch (concat (map statements ap))) db1")
      from run read Inr False w have out: "db' = db2"
        "r = (case y of Inl e \<Rightarrow> Inl e | Inr _ \<Rightarrow> Inr (plan batch h))"
        by (auto simp: archive_batch_def Let_def h_def ap_def andThen_def split: sum.splits)
      have "advanced db db2" using write_batch(1) [OF own1 own(2) w] adv1 by (blast intro: advanced_trans)
      moreover have "table_ok db2"
        using write_batch_table_ok [OF ok1 _ w] versions_ok_applied [OF vers] by (simp add: ap_def)
      moreover have "\<forall>m\<in>set ap. held_for m db2" if "y = Inr v" for v
        using write_batch(2) [OF own1 own(2) w that] .
      moreover have "marked_ack m db2" if "y = Inr v" "m \<in> set ap" "am_change m = Acknowledge" for v m
      proof -
        have "pending_ack m db1"
          using applied_pending [OF ok vers h] that(2) row_of_tables [OF t1]
          by (simp add: ap_def pending_ack_def)
        with write_batch_marks [of ap db1 v db2 m] w that show ?thesis
          by (simp add: ap_def applied_distinct)
      qed
      ultimately show ?thesis using out h False
        by (auto simp: ap_def answered_batch_def split: sum.splits)
    qed
  qed
  then show "advanced db db'" and "table_ok db'"
    and "r = Inr vs \<Longrightarrow> answered_batch batch db vs db'"
    by blast+
qed

subsection \<open>What a verdict says of D1 after the batch\<close>

definition held_by_other :: "archive_message_rec \<Rightarrow> d1_db \<Rightarrow> bool" where
  "held_by_other m db \<longleftrightarrow>
     (\<exists>row. row_of (am_message_id m) db = Some row \<and> dm_recipient row \<noteq> am_recipient m)"

lemma held_by_other_advanced: "held_by_other m db \<Longrightarrow> advanced db db' \<Longrightarrow> held_by_other m db'"
  unfolding held_by_other_def by (fastforce dest: advancedD simp: row_advances_def)

lemma repeat_held:
  assumes ok: "table_ok db" and "am_version m \<le> 2 ^ 53"
    and row: "row_of (am_message_id m) db = Some r" and "dm_recipient r = am_recipient m"
    and "am_version m \<le> u64_of_i64_clamped (js_number (dm_version r))"
  shows "held_for m db"
proof -
  have r: "0 \<le> dm_version r" "dm_version r \<le> 2 ^ 53"
    using ok row_of_id [OF row] by (auto simp: table_ok_def)
  then have "int (u64_of_i64_clamped (js_number (dm_version r))) = dm_version r"
    by (simp add: u64_of_i64_clamped_nonneg)
  with assms version_bind_small [of m] show ?thesis unfolding held_for_def by force
qed

text \<open>An answered batch on a table that keeps its promise; its rows then only advance.\<close>

definition settled :: "archive_message_rec list \<Rightarrow> d1_db \<Rightarrow> verdict list \<Rightarrow> d1_db \<Rightarrow> bool" where
  "settled batch db vs db' \<longleftrightarrow>
     table_ok db \<and> versions_ok batch \<and> advanced db db' \<and> answered_batch batch db vs db'"

lemma archive_batch_settled:
  assumes "table_ok db" and "versions_ok batch" and "archive_batch batch db = (Inr vs, db')"
  shows "settled batch db vs db'"
  using archive_batch_outcome(1) [OF assms] archive_batch_outcome(3) [OF assms refl] assms(1,2)
  by (simp add: settled_def)

lemma settled_length: "settled batch db vs db' \<Longrightarrow> length vs = length batch"
  by (auto simp: settled_def answered_batch_def)

definition owner_at :: "archive_message_rec list \<Rightarrow> d1_db \<Rightarrow> nat \<Rightarrow> nat \<Rightarrow> string" where
  "owner_at batch db i b =
     (case row_of (am_message_id (batch ! i)) db of Some r \<Rightarrow> dm_recipient r
      | None \<Rightarrow> am_recipient (batch ! b))"

lemma settled_verdict:
  assumes "settled batch db vs db'" and "i < length batch"
    and "best_of batch (am_message_id (batch ! i)) = Some b"
  shows "vs ! i =
    (if am_recipient (batch ! i) \<noteq> owner_at batch db i b then Collision
     else if b \<noteq> i then Superseded
     else case row_of (am_message_id (batch ! i)) db of
       Some r \<Rightarrow> if am_version (batch ! i) \<le> u64_of_i64_clamped (js_number (dm_version r)) then Repeat else Apply
     | None \<Rightarrow> Apply)"
proof -
  obtain h where vs: "vs = plan batch h" and h: "\<And>j. j < length batch \<Longrightarrow>
      h (am_message_id (batch ! j)) = map_option held_of (row_of (am_message_id (batch ! j)) db)"
    using assms(1) by (auto simp: settled_def answered_batch_def)
  from verdict_cases [of i batch h db b, OF assms(2) h assms(3)] vs show ?thesis by (simp add: owner_at_def)
qed

lemma apply_held:
  assumes "settled batch db vs db'" and "i < length batch" and "vs ! i = Apply"
  shows "held_for (batch ! i) db'"
proof -
  have "batch ! i \<in> set (applied_messages batch vs)"
    using assms set_applied [OF settled_length [OF assms(1)]] by blast
  then show ?thesis using assms(1) by (auto simp: settled_def answered_batch_def)
qed

lemma repeat_held_after:
  assumes s: "settled batch db vs db'" and i: "i < length batch" and rep: "vs ! i = Repeat"
  shows "held_for (batch ! i) db'"
proof -
  obtain b where b: "best_of batch (am_message_id (batch ! i)) = Some b" using best_of_spec [OF i] .
  have "am_version (batch ! i) \<le> 2 ^ 53" using s i by (simp add: settled_def versions_ok_def)
  moreover obtain r where "row_of (am_message_id (batch ! i)) db = Some r"
    "dm_recipient r = am_recipient (batch ! i)"
    "am_version (batch ! i) \<le> u64_of_i64_clamped (js_number (dm_version r))"
    using settled_verdict [OF s i b] rep by (auto simp: owner_at_def split: if_splits option.splits)
  ultimately have "held_for (batch ! i) db" using repeat_held s by (auto simp: settled_def)
  then show ?thesis using s by (auto simp: settled_def intro: held_for_advanced)
qed

text \<open>The message the batch chose for an id is applied, a repeat, or another recipient's id.\<close>

lemma best_verdict:
  assumes "settled batch db vs db'" and "i < length batch"
    and "best_of batch (am_message_id (batch ! i)) = Some i"
    and "am_recipient (batch ! i) = owner_at batch db i i"
  shows "vs ! i = Apply \<or> vs ! i = Repeat"
  using settled_verdict [OF assms(1,2,3)] assms(4) by (auto split: option.splits if_splits)

lemma collision_other:
  assumes s: "settled batch db vs db'" and i: "i < length batch" and coll: "vs ! i = Collision"
  shows "held_by_other (batch ! i) db'"
proof -
  obtain b where b: "best_of batch (am_message_id (batch ! i)) = Some b" "b < length batch"
    "am_message_id (batch ! b) = am_message_id (batch ! i)"
    using best_of_spec [OF i] .
  have other: "am_recipient (batch ! i) \<noteq> owner_at batch db i b"
    using settled_verdict [OF s i b(1)] coll by (auto split: if_splits option.splits)
  show ?thesis
  proof (cases "row_of (am_message_id (batch ! i)) db")
    case (Some r)
    with other have "held_by_other (batch ! i) db" by (auto simp: held_by_other_def owner_at_def)
    then show ?thesis using s by (auto simp: settled_def intro: held_by_other_advanced)
  next
    case None
    have "best_of batch (am_message_id (batch ! b)) = Some b" using b by simp
    from settled_verdict [OF s b(2) this] None b(3) have "vs ! b = Apply" by (simp add: owner_at_def)
    with apply_held [OF s b(2)] have "held_for (batch ! b) db'" by simp
    with None other b(3) show ?thesis by (auto simp: held_for_def held_by_other_def owner_at_def)
  qed
qed

text \<open>A superseded message is held once no other recipient's message names its id.\<close>

lemma superseded_held:
  assumes s: "settled batch db vs db'" and i: "i < length batch" and sup: "vs ! i = Superseded"
    and one: "\<And>m. m \<in> set batch \<Longrightarrow> am_message_id m = am_message_id (batch ! i) \<Longrightarrow> am_recipient m = am_recipient (batch ! i)"
  shows "held_for (batch ! i) db'"
proof -
  obtain b where b: "best_of batch (am_message_id (batch ! i)) = Some b" "b < length batch"
    "am_message_id (batch ! b) = am_message_id (batch ! i)" "am_version (batch ! i) \<le> am_version (batch ! b)"
    using best_of_spec [OF i] .
  have same: "am_recipient (batch ! b) = am_recipient (batch ! i)"
    using one [OF nth_mem [OF b(2)] b(3)] .
  have best: "best_of batch (am_message_id (batch ! b)) = Some b" using b by simp
  have "am_recipient (batch ! i) = owner_at batch db i b"
    using settled_verdict [OF s i b(1)] sup by (auto split: if_splits option.splits)
  with same b(3) have "am_recipient (batch ! b) = owner_at batch db b b" by (simp add: owner_at_def)
  with best_verdict [OF s b(2) best] have "held_for (batch ! b) db'"
    using apply_held [OF s b(2)] repeat_held_after [OF s b(2)] by blast
  moreover have "version_bind (batch ! i) \<le> version_bind (batch ! b)"
    using s i b(2,4) version_bind_small by (simp add: settled_def versions_ok_def)
  ultimately show ?thesis using same b(3) by (auto simp: held_for_def)
qed
end
