(* ===== verification/Archive_Consume.thy ===== *)
theory Archive_Consume
  imports Archive_Props "HOL-Library.Multiset"
begin

section \<open>The queue's handler settles every message once\<close>

text \<open>
  Lemmas on \<open>consume\<close>: the positions of a queue batch are split, without loss or repetition,
  into the malformed ones, the ones whose body could not be read, and the ones handed to the
  batch; and what the recipients' hubs are told is one confirmation per archived message.
\<close>

subsection \<open>Groups\<close>

lemma push_for_members:
  "mset (concat (map snd (push_for r x out))) = add_mset x (mset (concat (map snd out)))"
  by (induction out) auto

lemma push_for_keys:
  "(r', ys) \<in> set (push_for r x out) \<Longrightarrow> y \<in> set ys \<Longrightarrow>
     (r' = r \<and> y = x) \<or> (\<exists>zs. (r', zs) \<in> set out \<and> y \<in> set zs)"
  by (induction out) (auto split: if_splits)

lemma push_for_has: "\<exists>ys. (r, ys) \<in> set (push_for r x out) \<and> x \<in> set ys"
  by (induction out) (auto split: if_splits)

lemma push_for_keeps:
  "(r', zs) \<in> set out \<Longrightarrow> y \<in> set zs \<Longrightarrow> \<exists>ys. (r', ys) \<in> set (push_for r x out) \<and> y \<in> set ys"
  by (induction out) (fastforce split: if_splits)+

lemma bodies_in_hub_members:
  "mset (concat (map snd (bodies_in_hub batch))) =
     mset (filter (\<lambda>i. am_body_in_hub (batch ! i) \<and> am_body (batch ! i) = None) [0..<length batch])"
proof -
  let ?f = "\<lambda>out i. let m = batch ! i in
      if am_body_in_hub m \<and> am_body m = None then push_for (am_recipient m) i out else out"
  have "mset (concat (map snd (foldl ?f out is))) = mset (concat (map snd out)) +
      mset (filter (\<lambda>i. am_body_in_hub (batch ! i) \<and> am_body (batch ! i) = None) is)" for out "is"
    by (induction "is" arbitrary: out) (auto simp: Let_def push_for_members)
  from this [of "[]"] show ?thesis by (simp add: bodies_in_hub_def)
qed

lemma bodies_in_hub_places:
  "distinct (concat (map snd (bodies_in_hub batch)))"
  "set (concat (map snd (bodies_in_hub batch))) \<subseteq> {..<length batch}"
proof -
  let ?l = "concat (map snd (bodies_in_hub batch))"
  let ?r = "filter (\<lambda>i. am_body_in_hub (batch ! i) \<and> am_body (batch ! i) = None) [0..<length batch]"
  have same: "mset ?l = mset ?r" by (rule bodies_in_hub_members)
  have "distinct ?r" by simp
  with mset_eq_imp_distinct_iff [OF same] show "distinct ?l" by blast
  from mset_eq_setD [OF same] show "set ?l \<subseteq> {..<length batch}" by auto
qed

subsection \<open>The places of a batch\<close>

lemma parse_all_places:
  "parse_all from_value i raws = (good, marks) \<Longrightarrow>
     mset (map fst good) + mset (map fst marks) = mset [i..<i + length raws]"
proof (induction raws arbitrary: i good marks)
  case (Cons raw raws)
  obtain g ms where rest: "parse_all from_value (Suc i) raws = (g, ms)"
    by (cases "parse_all from_value (Suc i) raws")
  have "mset [i..<i + length (raw # raws)] = add_mset i (mset [Suc i..<Suc i + length raws])"
    by (simp add: upt_rec)
  with Cons.IH [OF rest] Cons.prems rest show ?case
    by (auto split: sum.splits)
qed simp

definition places :: "nat list \<Rightarrow> fill_state \<Rightarrow> nat multiset" where
  "places raws st = image_mset (nth raws) (mset_set {i. i < length raws \<and> \<not> fs_keep st ! i})"

text \<open>The filling so far: the marks are the places given up, and the places to do are kept.\<close>

definition filling :: "nat list \<Rightarrow> nat list \<Rightarrow> fill_state \<Rightarrow> bool" where
  "filling raws todo st \<longleftrightarrow>
     length (fs_msgs st) = length raws \<and> length (fs_keep st) = length raws \<and>
     mset (map fst (fs_marks st)) = places raws st \<and>
     distinct todo \<and> (\<forall>i\<in>set todo. i < length raws \<and> fs_keep st ! i)"

lemma give_up:
  assumes "i < length ks" and "ks ! i"
  shows "mset_set {j. j < length ks \<and> \<not> ks[i := False] ! j} =
    add_mset i (mset_set {j. j < length ks \<and> \<not> ks ! j})"
proof -
  have "{j. j < length ks \<and> \<not> ks[i := False] ! j} = insert i {j. j < length ks \<and> \<not> ks ! j}"
    using assms by (auto simp: nth_list_update)
  with assms show ?thesis by simp
qed

lemma filling_step:
  assumes f: "filling raws (i # todo) st"
    and keep: "fs_keep st' = fs_keep st \<and> fs_marks st' = fs_marks st \<or>
      (\<exists>d. fs_keep st' = (fs_keep st)[i := False] \<and> fs_marks st' = fs_marks st @ [(raws ! i, d)])"
    and len: "length (fs_msgs st') = length (fs_msgs st)"
  shows "filling raws todo st'"
  using keep
proof (elim disjE exE conjE)
  assume "fs_keep st' = fs_keep st" and "fs_marks st' = fs_marks st"
  with f len show ?thesis by (simp add: filling_def places_def)
next
  fix d
  assume k: "fs_keep st' = (fs_keep st)[i := False]" and m: "fs_marks st' = fs_marks st @ [(raws ! i, d)]"
  have "i < length (fs_keep st)" "fs_keep st ! i" using f by (auto simp: filling_def)
  from give_up [OF this] have "places raws st' = add_mset (raws ! i) (places raws st)"
    using f k by (simp add: filling_def places_def)
  moreover have "\<forall>j\<in>set todo. fs_keep st' ! j"
  proof
    fix j assume "j \<in> set todo"
    with f have "j \<noteq> i" and "fs_keep st ! j" by (auto simp: filling_def)
    with k show "fs_keep st' ! j" by simp
  qed
  ultimately show ?thesis using f k m len by (simp add: filling_def)
qed

lemma fill_one_step: "filling raws (i # todo) st \<Longrightarrow> filling raws todo (fill_one raws rows st i)"
  by (rule filling_step [of raws i todo st]) (auto simp: fill_one_def split: option.splits)

lemma retry_one_step: "filling raws (i # todo) st \<Longrightarrow> filling raws todo (retry_one raws st i)"
  by (rule filling_step [of raws i todo st]) (auto simp: retry_one_def)

lemma fill_group_step:
  assumes "filling raws (snd g @ todo) st"
  shows "filling raws todo (fill_group read raws st g)"
proof -
  have one: "filling raws (is @ todo) st \<Longrightarrow> filling raws todo (foldl (fill_one raws rows) st is)" for "is" rows st
    by (induction "is" arbitrary: st) (auto intro: fill_one_step)
  have two: "filling raws (is @ todo) st \<Longrightarrow> filling raws todo (foldl (retry_one raws) st is)" for "is" st
    by (induction "is" arbitrary: st) (auto intro: retry_one_step)
  show ?thesis using assms one two
    by (auto simp: fill_group_def Let_def split: prod.splits sum.splits)
qed

lemma fill_bodies_filling:
  assumes "length raws = length msgs"
  shows "filling raws [] (fill_bodies read raws msgs)"
proof -
  have groups: "filling raws (concat (map snd gs)) st \<Longrightarrow>
      filling raws [] (foldl (fill_group read raws) st gs)" for gs st
    by (induction gs arbitrary: st) (auto intro: fill_group_step)
  have "filling raws (concat (map snd (bodies_in_hub msgs)))
      \<lparr>fs_msgs = msgs, fs_keep = replicate (length msgs) True, fs_marks = []\<rparr>"
  proof -
    have "{i. i < length raws \<and> \<not> replicate (length msgs) True ! i} = {}" using assms by auto
    then have "places raws \<lparr>fs_msgs = msgs, fs_keep = replicate (length msgs) True, fs_marks = []\<rparr> = {#}"
      by (simp only: places_def fill_state.simps mset_set.empty image_mset_empty)
    then show ?thesis using bodies_in_hub_places [of msgs] assms by (auto simp: filling_def)
  qed
  then show ?thesis unfolding fill_bodies_def by (rule groups)
qed

lemma kept_places:
  assumes "length ms = length raws" and "length ks = length raws"
  shows "mset (map fst (map fst (filter snd (zip (zip raws ms) ks)))) =
    image_mset (nth raws) (mset_set {i. i < length raws \<and> ks ! i})"
proof -
  have "zip (zip raws ms) ks = map (\<lambda>i. ((raws ! i, ms ! i), ks ! i)) [0..<length raws]"
    using assms by (intro nth_equalityI) simp_all
  then show ?thesis by (simp add: filter_map comp_def)
qed

lemma consume_places:
  assumes "consume from_value read unbound batch db = (c, db')"
  shows "mset (map fst (c_marks c)) = mset [0..<length batch]"
proof -
  obtain good malformed where parsed: "parse_all from_value 0 batch = (good, malformed)"
    by (cases "parse_all from_value 0 batch")
  define raws where "raws = map fst good"
  define st where "st = fill_bodies read raws (map snd good)"
  have fill: "filling raws [] st" unfolding st_def by (rule fill_bodies_filling) (simp add: raws_def)
  let ?n = "length raws"
  have kept: "mset (map fst (kept_pairs raws st)) =
      image_mset (nth raws) (mset_set {i. i < ?n \<and> fs_keep st ! i})"
    using fill kept_places [of "fs_msgs st" raws "fs_keep st"] by (simp add: filling_def kept_pairs_def)
  have "{i. i < ?n \<and> \<not> fs_keep st ! i} \<union> {i. i < ?n \<and> fs_keep st ! i} = {0..<?n}" by auto
  moreover have "mset_set ({i. i < ?n \<and> \<not> fs_keep st ! i} \<union> {i. i < ?n \<and> fs_keep st ! i}) =
      mset_set {i. i < ?n \<and> \<not> fs_keep st ! i} + mset_set {i. i < ?n \<and> fs_keep st ! i}"
    by (rule mset_set_Union) auto
  ultimately have "mset_set {0..<?n} =
      mset_set {i. i < ?n \<and> \<not> fs_keep st ! i} + mset_set {i. i < ?n \<and> fs_keep st ! i}" by metis
  moreover have "mset raws = image_mset (nth raws) (mset_set {0..<?n})"
    by (metis map_nth mset_map mset_upt)
  ultimately have raws: "mset (map fst (fs_marks st)) + mset (map fst (kept_pairs raws st)) = mset raws"
    using fill kept by (simp add: filling_def places_def)
  have split: "mset raws + mset (map fst malformed) = mset [0..<length batch]"
    using parse_all_places [OF parsed] by (simp add: raws_def)
  have "map fst (c_marks c) = map fst malformed @
      (if good = [] then [] else map fst (fs_marks st) @ map fst (kept_pairs raws st))"
    using assms
    by (auto simp: consume_def parsed Let_def raws_def [symmetric] st_def [symmetric] comp_def
        split: if_splits option.splits sum.splits prod.splits)
  moreover have "mset raws = {#}" if "good = []" using that by (simp add: raws_def)
  ultimately have "mset (map fst (c_marks c)) = mset (map fst malformed) + mset raws"
    using raws by (simp del: mset_map)
  with split show ?thesis by (simp only: add.commute)
qed

subsection \<open>What the hubs are told\<close>

lemma done_fold:
  "(r, ds) \<in> set (foldl (\<lambda>out (m, v). push_for (am_recipient m) (done_of m v) out) out ps) \<Longrightarrow> d \<in> set ds \<Longrightarrow>
     (\<exists>es. (r, es) \<in> set out \<and> d \<in> set es) \<or>
     (\<exists>m v. (m, v) \<in> set ps \<and> r = am_recipient m \<and> d = done_of m v)"
proof (induction ps arbitrary: out)
  case (Cons p ps)
  obtain m v where p: "p = (m, v)" by (cases p)
  from Cons.IH [OF _ Cons.prems(2)] Cons.prems(1) p show ?case
    by (auto dest!: push_for_keys)
qed auto

lemma done_by_recipient_sound:
  assumes "(r, ds) \<in> set (done_by_recipient batch vs)" and "d \<in> set ds"
  obtains i where "i < length batch" and "i < length vs" and "r = am_recipient (batch ! i)"
    and "d = done_of (batch ! i) (vs ! i)"
  using done_fold [OF assms [unfolded done_by_recipient_def]] by (auto simp: set_zip)

lemma done_fold_complete:
  "(\<exists>es. (r, es) \<in> set out \<and> d \<in> set es) \<or> (\<exists>m v. (m, v) \<in> set ps \<and> r = am_recipient m \<and> d = done_of m v) \<Longrightarrow>
   \<exists>ds. (r, ds) \<in> set (foldl (\<lambda>out (m, v). push_for (am_recipient m) (done_of m v) out) out ps) \<and> d \<in> set ds"
proof (induction ps arbitrary: out)
  case (Cons p ps)
  obtain m v where p: "p = (m, v)" by (cases p)
  have "(\<exists>es. (r, es) \<in> set (push_for (am_recipient m) (done_of m v) out) \<and> d \<in> set es) \<or>
      (\<exists>m v. (m, v) \<in> set ps \<and> r = am_recipient m \<and> d = done_of m v)"
    using Cons.prems p push_for_has push_for_keeps by fastforce
  from Cons.IH [OF this] p show ?case by simp
qed auto

lemma done_by_recipient_complete:
  assumes "i < length batch" and "length vs = length batch"
  shows "\<exists>ds. (am_recipient (batch ! i), ds) \<in> set (done_by_recipient batch vs) \<and>
    done_of (batch ! i) (vs ! i) \<in> set ds"
proof -
  have "(batch ! i, vs ! i) \<in> set (zip batch vs)" using assms by (auto simp: set_zip)
  then show ?thesis unfolding done_by_recipient_def by (intro done_fold_complete) blast
qed

end
