(* ===== verification/D1_Theorems.thy ===== *)
theory D1_Theorems
  imports D1_Store_Props
begin

section \<open>The storage operations: the properties\<close>

text \<open>
  The properties of the D1 operations, each over every script of round trips, with the small
  databases their witnesses run on.
\<close>

definition landed :: round_trip where
  "landed = LandedUnanswered (OtherError ''D1_ERROR: write op exceeded 2000ms bound (transient; retrying)'')"

definition box_db :: "round_trip list \<Rightarrow> d1_message list \<Rightarrow> d1_db" where
  "box_db script ms =
     \<lparr>d_messages = ms,
      d_boxes = [\<lparr>bx_id = 1, bx_type = ''inbox'', bx_identity = ''alice''\<rparr>,
                 \<lparr>bx_id = 2, bx_type = ''low_game_7'', bx_identity = ''alice''\<rparr>],
      d_last_box = 2, d_perms = [new_perm ''alice'' (Some ''bob'') ''inbox'' 7 ''t0''],
      d_server_fees = [(''notifications'', 100)], d_now = ''t1'', d_script = script\<rparr>"

definition game_retention :: retention_config where
  "game_retention = \<lparr>rc_prefixes = [''low_game_'']\<rparr>"

text \<open>
  C16 (insert_message_exact). Whatever happens to the round trips of \<open>insert_message\<close>, the table is
  left as it was or with exactly this message added under an id nobody held. The answer true
  means D1 holds this id with this sender, recipient and body; the answer false means the id
  was held before the call and nothing was written.
\<close>

theorem insert_message_exact:
  assumes "insert_message mid bx sender recipient body key db = (r, db')"
  shows "(d_messages db' = d_messages db \<or>
      mid \<notin> message_ids db \<and>
      d_messages db' = d_messages db @ [message_row mid bx sender recipient body key (d_now db)]) \<and>
    (r = Inr True \<longrightarrow> held_as mid sender recipient body db') \<and>
    (r = Inr False \<longrightarrow> mid \<in> message_ids db \<and> d_messages db' = d_messages db)"
  by (rule insert_message_outcome [OF assms])

theorem insert_message_exact_witness:
  "held_as ''m1'' ''bob'' ''alice'' ''hi''
     (snd (insert_message ''m1'' 1 ''bob'' ''alice'' ''hi'' None (box_db [landed, Served] [])))"
proof -
  let ?run = "insert_message ''m1'' 1 ''bob'' ''alice'' ''hi'' None (box_db [landed, Served] [])"
  have "fst ?run = Inr True" by code_simp
  with insert_message_exact [OF surjective_pairing [of ?run]] show ?thesis by blast
qed

text \<open>
  C17 (acknowledge_messages_exact). An acknowledgment, cut into statements of at most 100 bound
  parameters and retried, is one reference update: of the caller's rows named by the ids, those
  in a retained box are marked (once, never deleted), all others are deleted, and no other row
  is touched. On an error nothing or all of it has been done. The answer 0 means nothing matched.
\<close>

theorem acknowledge_messages_exact:
  assumes "length (rc_prefixes c) \<le> 98"
    and "acknowledge_messages who ids c db = (r, db')"
  shows "case r of
      Inr n \<Rightarrow> tables db' = tables (db\<lparr>d_messages := acked_messages who (set ids) c db\<rparr>) \<and>
        (n = 0 \<longrightarrow> acked_messages who (set ids) c db = d_messages db)
    | Inl e \<Rightarrow> tables db' = tables db \<or>
        tables db' = tables (db\<lparr>d_messages := acked_messages who (set ids) c db\<rparr>)"
  using acknowledge_messages_outcome [OF assms]
  by (cases r) (simp_all add: acking_def)

definition two_rows :: "d1_message list" where
  "two_rows = [message_row ''m1'' 1 ''bob'' ''alice'' ''hi'' None ''t0'',
               message_row ''m2'' 2 ''bob'' ''alice'' ''move'' None ''t0'']"

theorem acknowledge_messages_exact_witness:
  "d_messages (snd (acknowledge_messages ''alice'' [''m1'', ''m2''] game_retention (box_db [landed] two_rows)))
     = [ack_mark ''t1'' (message_row ''m2'' 2 ''bob'' ''alice'' ''move'' None ''t0'')]"
proof -
  let ?run = "acknowledge_messages ''alice'' [''m1'', ''m2''] game_retention (box_db [landed] two_rows)"
  have ok: "fst ?run = Inr 2" by code_simp
  have "length (rc_prefixes game_retention) \<le> 98" by (simp add: game_retention_def)
  from acknowledge_messages_exact [OF this surjective_pairing [of ?run]] ok
  have "tables (snd ?run) = tables ((box_db [landed] two_rows)\<lparr>d_messages :=
      acked_messages ''alice'' {''m1'', ''m2''} game_retention (box_db [landed] two_rows)\<rparr>)"
    by simp
  from tables_fields(1) [OF this]
  have "d_messages (snd ?run) = acked_messages ''alice'' {''m1'', ''m2''} game_retention (box_db [landed] two_rows)"
    by simp
  also have "\<dots> = [ack_mark ''t1'' (message_row ''m2'' 2 ''bob'' ''alice'' ''move'' None ''t0'')]"
    by code_simp
  finally show ?thesis .
qed

text \<open>
  C31 (fee_reads_agree). The one-batch read of a send's context answers the same recipient fee as
  the step-by-step reader \<open>get_recipient_fee\<close> would: the sender's own permission, then the
  box-wide one, then the computed default; the server fee and the box agree with their readers.
  It writes nothing, whatever its retries meet.
\<close>

theorem fee_reads_agree:
  assumes "read_send_context recipient sender mbox db = (Inr c, db1)"
    and "get_recipient_fee recipient sender mbox db = (Inr f, db2)"
    and "get_server_delivery_fee mbox db = (Inr s, db3)"
    and "find_message_box recipient mbox db = (Inr b, db4)"
  shows "sc_recipient_fee c = f \<and> sc_server_fee c = s \<and> sc_box_id c = b \<and> tables db1 = tables db"
proof (intro conjI)
  note ctx = read_send_context_reads [OF assms(1)]
  show "sc_recipient_fee c = f"
    using ctx(1) get_recipient_fee_reads [OF assms(2)] by (simp add: send_context_fee)
  show "tables db1 = tables db" by (rule ctx(2))
  obtain row db5 where
    fee: "d1_read 1 (\<lambda>db. first_row (SELECT_SERVER_FEE_SQL mbox db)) db = (Inr row, db5)"
    "s = (case row of Some v \<Rightarrow> i32_of_f64 v | None \<Rightarrow> 0)"
    using assms(3) unfolding get_server_delivery_fee_def by (elim andThen_InrE) simp
  have "row = first_row (SELECT_SERVER_FEE_SQL mbox db)"
    using d1_read_Inr(1) [OF fee(1)] tables_fields(5) [OF d1_read_Inr(2) [OF fee(1)]]
    by (simp add: SELECT_SERVER_FEE_SQL_def)
  with fee(2) ctx(1) show "sc_server_fee c = s" by (simp add: send_context_of_def)
  have "b = first_row (SELECT_BOX_SQL recipient mbox db)"
    using bounded_read_tables(2) [OF assms(4) [unfolded find_message_box_def] refl]
      tables_fields(2) [OF bounded_read_tables(1) [OF assms(4) [unfolded find_message_box_def]]]
    by (simp add: SELECT_BOX_SQL_def)
  with ctx(1) show "sc_box_id c = b" by (simp add: send_context_of_def)
qed

theorem fee_reads_agree_witness:
  "sc_recipient_fee (send_context_of ''alice'' ''bob'' ''inbox'' (box_db [] [])) = 7"
proof -
  let ?db = "box_db [] []"
  have c: "read_send_context ''alice'' ''bob'' ''inbox'' ?db =
      (Inr (send_context_of ''alice'' ''bob'' ''inbox'' ?db), snd (read_send_context ''alice'' ''bob'' ''inbox'' ?db))"
    by code_simp
  have f: "get_recipient_fee ''alice'' ''bob'' ''inbox'' ?db =
      (Inr 7, snd (get_recipient_fee ''alice'' ''bob'' ''inbox'' ?db))" by code_simp
  have s: "get_server_delivery_fee ''inbox'' ?db =
      (Inr 0, snd (get_server_delivery_fee ''inbox'' ?db))" by code_simp
  have b: "find_message_box ''alice'' ''inbox'' ?db =
      (Inr (Some 1), snd (find_message_box ''alice'' ''inbox'' ?db))" by code_simp
  show ?thesis using fee_reads_agree [OF c f s b] by blast
qed

text \<open>A permission set for a sender, whatever its retries meet, is
  answered as set, is the fee every later send of that sender finds, and changes no other
  permission.
\<close>

lemma sender_permission_roundtrip:
  assumes "set_permission recipient (Some sender) mbox fee db = (Inr b, db')"
    and "- (2 ^ 31) \<le> fee" and "fee < 2 ^ 31"
    and "get_recipient_fee recipient sender mbox db' = (Inr f, db'')"
  shows "b \<and> f = fee \<and> others_kept recipient (Some sender) mbox db db'"
proof -
  note set = set_sender_permission [OF assms(1)]
  then obtain p where "first_row (perm_rows recipient (Some sender) mbox db') = Some p" "pm_fee p = fee"
    by auto
  then have "fee_of recipient sender mbox db' = i32_of_f64 fee" by (simp add: fee_of_def)
  moreover have "\<bar>fee\<bar> \<le> 2 ^ 53" using assms(2,3) by simp
  then have "i32_of_f64 fee = fee" using assms(2,3) by (simp add: i32_of_f64_def)
  ultimately show ?thesis using set get_recipient_fee_reads [OF assms(4)] by simp
qed

lemma sender_permission_roundtrip_example:
  "fst (get_recipient_fee ''alice'' ''bob'' ''inbox''
     (snd (set_permission ''alice'' (Some ''bob'') ''inbox'' 25 (box_db [landed, Served] [])))) = Inr 25"
proof -
  let ?set = "set_permission ''alice'' (Some ''bob'') ''inbox'' 25 (box_db [landed, Served] [])"
  let ?get = "get_recipient_fee ''alice'' ''bob'' ''inbox'' (snd ?set)"
  have s: "?set = (Inr True, snd ?set)" by code_simp
  have g: "?get = (Inr (case fst ?get of Inr f \<Rightarrow> f | Inl _ \<Rightarrow> 0), snd ?get)" by code_simp
  have "(case fst ?get of Inr f \<Rightarrow> f | Inl _ \<Rightarrow> 0) = 25"
    using sender_permission_roundtrip [OF s _ _ g] by simp
  with g show ?thesis by (metis fst_conv)
qed

text \<open>
  C33 (box_wide_permission_frozen). A box-wide permission (no sender) that already exists is never
  changed by setting it again: \<open>ON CONFLICT\<close> does not fire on a NULL sender, a second row is
  added, and \<open>get_permission\<close> keeps answering the first one, whatever fee was set.
\<close>

theorem box_wide_permission_frozen:
  assumes "get_permission recipient None mbox db = (Inr (Some row), db1)"
    and "set_permission recipient None mbox fee db = (Inr b, db2)"
    and "get_permission recipient None mbox db2 = (Inr row', db3)"
  shows "row' = Some row"
proof -
  have reads: "x = map_option permission_row (first_row (perm_rows recipient None mbox d))"
    if "get_permission recipient None mbox d = (Inr x, d')" for x d d'
    using d1_read_Inr [OF that [unfolded get_permission_def]] perm_rows_tables by metis
  obtain p where p: "first_row (perm_rows recipient None mbox db) = Some p" "row = permission_row p"
    using reads [OF assms(1)] by (cases "first_row (perm_rows recipient None mbox db)") simp_all
  with set_box_wide_permission [OF assms(2) p(1)] reads [OF assms(3)] show ?thesis by simp
qed

definition wide_db :: d1_db where
  "wide_db = (box_db [] [])\<lparr>d_perms := [new_perm ''alice'' None ''inbox'' 10 ''t0'']\<rparr>"

theorem box_wide_permission_frozen_witness:
  "\<exists>row. fst (get_permission ''alice'' None ''inbox'' wide_db) = Inr (Some row) \<and>
     fst (get_permission ''alice'' None ''inbox''
       (snd (set_permission ''alice'' None ''inbox'' (- 1) wide_db))) = Inr (Some row)"
proof -
  let ?row = "permission_row (new_perm ''alice'' None ''inbox'' 10 ''t0'')"
  let ?g = "get_permission ''alice'' None ''inbox'' wide_db"
  let ?s = "set_permission ''alice'' None ''inbox'' (- 1) wide_db"
  let ?h = "get_permission ''alice'' None ''inbox'' (snd ?s)"
  have g: "?g = (Inr (Some ?row), snd ?g)" by code_simp
  have s: "?s = (Inr True, snd ?s)" by code_simp
  have h: "?h = (Inr (case fst ?h of Inr x \<Rightarrow> x | Inl _ \<Rightarrow> None), snd ?h)" by code_simp
  from box_wide_permission_frozen [OF g s h] g h show ?thesis by (metis fst_conv)
qed

end
