(* ===== verification/Archive_Theorems.thy ===== *)
theory Archive_Theorems
  imports Archive_Consume D1_Theorems
begin

section \<open>The archive: the properties\<close>

text \<open>
  The archive as a machine: batches of the consumer, interleaved with the sends that insert into
  the same table, each meeting its own clock and its own script of round trips. The invariant
  and "rows only advance" are one interpretation of the interface \<open>kept\<close>; the properties are
  over every run of it.
\<close>

datatype archive_call =
    ArchiveBatch string "round_trip list" "archive_message_rec list"
  | SendInsert string "round_trip list" string nat string string string "string option"

fun archive_step :: "archive_call \<Rightarrow> d1_db \<Rightarrow> (d1_error, verdict list, d1_db) outcome" where
  "archive_step (ArchiveBatch now script batch) db =
     archive_batch batch (db\<lparr>d_now := now, d_script := script\<rparr>)"
| "archive_step (SendInsert now script mid bx sender recipient body key) db =
     andThen (insert_message mid bx sender recipient body key (db\<lparr>d_now := now, d_script := script\<rparr>))
       (\<lambda>_ db. (Inr [], db))"

fun archive_call_ok :: "archive_call \<Rightarrow> bool" where
  "archive_call_ok (ArchiveBatch now script batch) = versions_ok batch"
| "archive_call_ok (SendInsert now script mid bx sender recipient body key) = True"

lemma clock_kept [simp]:
  "table_ok (db\<lparr>d_now := t\<rparr>) = table_ok db"
  "row_of i (db\<lparr>d_now := t\<rparr>) = row_of i db"
  by (simp_all add: table_ok_def ids_distinct_def row_of_def)

lemma advanced_clock [simp]: "advanced db0 (db\<lparr>d_now := t\<rparr>) = advanced db0 db"
  by (simp add: advanced_def)

lemma insert_advances:
  assumes "insert_message mid bx sender recipient body key db = (r, db')" and "table_ok db"
  shows "table_ok db'" and "advanced db db'"
proof -
  let ?row = "message_row mid bx sender recipient body key (d_now db)"
  from insert_message_outcome [OF assms(1)] consider
      "d_messages db' = d_messages db"
    | "mid \<notin> message_ids db" "d_messages db' = d_messages db @ [?row]" by blast
  then have "table_ok db' \<and> advanced db db'"
  proof cases
    case 1
    with assms(2) show ?thesis
      by (simp add: table_ok_def ids_distinct_def advanced_def row_of_def)
  next
    case 2
    with assms(2) show ?thesis
      by (auto simp: table_ok_def ids_distinct_def advanced_def row_of_def message_ids_def
          message_row_def find_append_one)
  qed
  then show "table_ok db'" and "advanced db db'" by simp_all
qed

lemma archive_step_keeps:
  assumes "table_ok db" and "archive_call_ok c"
  shows "table_ok (snd (archive_step c db))" and "advanced db (snd (archive_step c db))"
proof -
  have "table_ok (snd (archive_step c db)) \<and> advanced db (snd (archive_step c db))"
  proof (cases c)
    case (ArchiveBatch now script batch)
    let ?db = "db\<lparr>d_now := now, d_script := script\<rparr>"
    have "table_ok ?db" and v: "versions_ok batch" using assms ArchiveBatch by simp_all
    from archive_batch_outcome(1,2) [OF this surjective_pairing] ArchiveBatch show ?thesis
      by (simp add: advanced_def)
  next
    case (SendInsert now script mid bx sender recipient body key)
    let ?db = "db\<lparr>d_now := now, d_script := script\<rparr>"
    obtain r db' where run: "insert_message mid bx sender recipient body key ?db = (r, db')"
      by (cases "insert_message mid bx sender recipient body key ?db")
    have "table_ok ?db" using assms by simp
    from insert_advances [OF run this] run SendInsert show ?thesis
      by (cases r) (simp_all add: advanced_def)
  qed
  then show "table_ok (snd (archive_step c db))" and "advanced db (snd (archive_step c db))" by simp_all
qed

interpretation archived: kept archive_step archive_call_ok "\<lambda>db. table_ok db \<and> advanced db0 db" for db0
  by unfold_locales (blast intro: archive_step_keeps advanced_trans)

lemma archive_reaches:
  assumes "reaches archive_step archive_call_ok db db'" and "table_ok db"
  shows "table_ok db'" and "advanced db db'"
  using archived.reaches_inv [OF assms(1), of db] assms(2) by simp_all

subsection \<open>Rows only advance\<close>

definition alice_ack :: archive_message_rec where
  "alice_ack = \<lparr>am_recipient = ''alice'', am_message_id = ''m1'', am_version = 2, am_change = Acknowledge,
     am_message_box = ''inbox'', am_sender = ''bob'', am_body = None, am_created_at = None,
     am_body_in_hub = False\<rparr>"

definition alice_insert :: archive_message_rec where
  "alice_insert = alice_ack\<lparr>am_version := 1, am_change := Insert, am_body := Some ''hi''\<rparr>"

definition bob_ack :: archive_message_rec where
  "bob_ack = alice_ack\<lparr>am_recipient := ''bob''\<rparr>"

definition held_db :: d1_db where
  "held_db = box_db [] [(message_row ''m1'' 1 ''bob'' ''alice'' ''hi'' None ''t0'')\<lparr>dm_version := 1\<rparr>]"

lemma held_db_ok: "table_ok held_db"
  by (simp add: table_ok_def ids_distinct_def held_db_def box_db_def message_row_def)

text \<open>
  C13 (archive_only_advances). Over any run of archive batches and sends, in any order, with any
  repeats and any faults of the round trips, a row D1 holds stays under its id for its recipient:
  its version never falls, a row at the same version is unchanged, its acknowledgment and a body
  are never cleared; and message ids stay unique.
\<close>

theorem archive_only_advances:
  assumes "reaches archive_step archive_call_ok db db'" and "table_ok db"
    and "row_of mid db = Some m"
  shows "\<exists>m'. row_of mid db' = Some m' \<and> row_advances m m' \<and> table_ok db'"
  using archive_reaches [OF assms(1,2)] assms(3) by (auto dest: advancedD)

theorem archive_only_advances_witness:
  "\<exists>m'. row_of ''m1'' (snd (archive_step (ArchiveBatch ''t2'' [landed] [alice_ack]) held_db)) = Some m' \<and>
     1 \<le> dm_version m' \<and> dm_recipient m' = ''alice''"
proof -
  let ?c = "ArchiveBatch ''t2'' [landed] [alice_ack]"
  have "reaches archive_step archive_call_ok held_db (snd (archive_step ?c held_db))"
    by (rule reaches_step [OF reaches_refl]) (simp add: versions_ok_def alice_ack_def)
  moreover have "row_of ''m1'' held_db =
      Some ((message_row ''m1'' 1 ''bob'' ''alice'' ''hi'' None ''t0'')\<lparr>dm_version := 1\<rparr>)" by code_simp
  ultimately show ?thesis
    using archive_only_advances [OF _ held_db_ok]
    by (fastforce simp: row_advances_def message_row_def)
qed

text \<open>
  C14 (archived_ack_is_final). Once a batch was written in which an acknowledgment was applied, the
  row is acknowledged, and no later batch or send, in whichever order the row's other changes
  arrive, brings it back: no listing of any box returns the id again.
\<close>

lemma listing_unacknowledged:
  assumes "list_messages who mbox db = (Inr rows, db')" and "r \<in> set rows"
  shows "\<exists>m\<in>set (d_messages db). m_message_id r = Some (dm_message_id m) \<and> dm_acknowledged_at m = None"
proof -
  obtain found db1 where f: "find_message_box who mbox db = (Inr found, db1)"
    and rest: "(case found of None \<Rightarrow> (Inr [], db1) | Some bx \<Rightarrow> with_d1_bounded_read (d1_read 4
        (LIST_MESSAGES_SQL who bx (int LIST_MESSAGES_LIMIT) (int LIST_INLINE_BYTES))) db1) = (Inr rows, db')"
    using assms(1) unfolding list_messages_def by (elim andThen_InrE) simp
  note t1 = bounded_read_tables(1) [OF f [unfolded find_message_box_def]]
  from rest assms(2) obtain bx where
    l: "with_d1_bounded_read (d1_read 4
        (LIST_MESSAGES_SQL who bx (int LIST_MESSAGES_LIMIT) (int LIST_INLINE_BYTES))) db1 = (Inr rows, db')"
    by (cases found) auto
  have "d_messages db' = d_messages db"
    using tables_fields(1) [OF bounded_read_tables(1) [OF l]] tables_fields(1) [OF t1] by simp
  with bounded_read_tables(2) [OF l refl] assms(2)
  have "r \<in> listed_row ` set (within_budget (int LIST_INLINE_BYTES) (\<lambda>m. int (length (dm_body m)))
      (take LIST_MESSAGES_LIMIT (filter (\<lambda>m. dm_recipient m = who \<and> dm_box m = bx \<and>
         dm_acknowledged_at m = None) (d_messages db))))"
    by (simp add: LIST_MESSAGES_SQL_def)
  then show ?thesis
    using set_within_budget by (fastforce simp: listed_row_def dest: in_set_takeD)
qed

lemma marked_not_listed:
  assumes "table_ok db" and "marked_ack m db" and "list_messages who mbox db = (Inr rows, db')"
  shows "Some (am_message_id m) \<notin> m_message_id ` set rows"
proof
  assume "Some (am_message_id m) \<in> m_message_id ` set rows"
  then obtain r where "r \<in> set rows" "m_message_id r = Some (am_message_id m)" by auto
  with listing_unacknowledged [OF assms(3)] obtain x where
    "x \<in> set (d_messages db)" "dm_message_id x = am_message_id m" "dm_acknowledged_at x = None" by fastforce
  with row_of_distinct [of db x] assms(1,2) show False by (auto simp: table_ok_def marked_ack_def)
qed

lemma list_messages_clean:
  assumes "d_script db = []"
  shows "\<exists>rows. list_messages who mbox db = (Inr rows, db)"
proof -
  have "with_d1_bounded_read (d1_read 2 q) db = (Inr (q db), db)" for q :: "d1_db \<Rightarrow> nat option"
    using assms by (intro bounded_read_clean) (simp_all add: D1_MAX_BOUND_PARAMS_def)
  moreover have "with_d1_bounded_read (d1_read 4 q) db = (Inr (q db), db)"
    for q :: "d1_db \<Rightarrow> message_db_row list"
    using assms by (intro bounded_read_clean) (simp_all add: D1_MAX_BOUND_PARAMS_def)
  ultimately show ?thesis
    by (simp add: list_messages_def find_message_box_def split: option.splits)
qed

theorem archived_ack_is_final:
  assumes "table_ok db" and "versions_ok batch" and "archive_batch batch db = (Inr vs, db1)"
    and "i < length batch" and "vs ! i = Apply" and "am_change (batch ! i) = Acknowledge"
    and "reaches archive_step archive_call_ok db1 db2"
    and "list_messages who mbox db2 = (Inr rows, db3)"
  shows "Some (am_message_id (batch ! i)) \<notin> m_message_id ` set rows"
proof -
  note s = archive_batch_settled [OF assms(1-3)]
  have "batch ! i \<in> set (applied_messages batch vs)"
    using assms(4,5) set_applied [OF settled_length [OF s]] by blast
  with s assms(6) have "marked_ack (batch ! i) db1" by (auto simp: settled_def answered_batch_def)
  moreover have "table_ok db1" by (rule archive_batch_outcome(2) [OF assms(1-3)])
  note later = archive_reaches [OF assms(7) this]
  ultimately have "marked_ack (batch ! i) db2" by (blast intro: marked_advanced)
  from marked_not_listed [OF later(1) this assms(8)] show ?thesis .
qed

theorem archived_ack_is_final_witness:
  "\<exists>rows. fst (list_messages ''alice'' ''inbox''
       (snd (archive_step (ArchiveBatch ''t9'' [] [alice_insert])
         (snd (archive_batch [alice_ack] (box_db [] [])))))) = Inr rows \<and>
     Some ''m1'' \<notin> m_message_id ` set rows"
proof -
  let ?db = "box_db [] []"
  let ?one = "archive_batch [alice_ack] ?db"
  let ?late = "ArchiveBatch ''t9'' [] [alice_insert]"
  let ?db2 = "snd (archive_step ?late (snd ?one))"
  have ok: "table_ok ?db" by (simp add: table_ok_def ids_distinct_def box_db_def)
  have v: "versions_ok [alice_ack]" "archive_call_ok ?late"
    by (simp_all add: versions_ok_def alice_insert_def alice_ack_def)
  have one: "?one = (Inr [Apply], snd ?one)" by code_simp
  have "d_script ?db2 = []" by code_simp
  then obtain rows where l: "list_messages ''alice'' ''inbox'' ?db2 = (Inr rows, ?db2)"
    using list_messages_clean by blast
  have run: "reaches archive_step archive_call_ok (snd ?one) ?db2"
    by (rule reaches_step [OF reaches_refl]) (rule v(2))
  have "Some (am_message_id ([alice_ack] ! 0)) \<notin> m_message_id ` set rows"
    by (rule archived_ack_is_final [OF ok v(1) one _ _ _ run l]) (simp_all add: alice_ack_def)
  then show ?thesis using l by (intro exI [of _ rows]) (simp add: alice_ack_def)
qed

subsection \<open>What the hubs are told is what D1 holds\<close>

lemma told_is_held:
  assumes "table_ok db" and "versions_ok batch" and "archive_batch batch db = (Inr vs, db')"
    and one: "\<And>m. m \<in> set batch \<Longrightarrow> am_message_id m = d_message_id d \<Longrightarrow> am_recipient m = r"
    and "(r, ds) \<in> set (done_by_recipient batch vs)" and "d \<in> set ds"
  shows "\<exists>row. row_of (d_message_id d) db' = Some row \<and>
      (if d_collision d then dm_recipient row \<noteq> r
       else dm_recipient row = r \<and> int (d_version d) \<le> dm_version row)"
proof -
  note s = archive_batch_settled [OF assms(1-3)]
  obtain i where i: "i < length batch" "r = am_recipient (batch ! i)" "d = done_of (batch ! i) (vs ! i)"
    using done_by_recipient_sound [OF assms(5,6)] by blast
  have v: "version_bind (batch ! i) = int (am_version (batch ! i))"
    using assms(2) i(1) by (intro version_bind_small) (simp add: versions_ok_def)
  show ?thesis
  proof (cases "vs ! i = Collision")
    case True
    with collision_other [OF s i(1)] i show ?thesis by (auto simp: held_by_other_def done_of_def)
  next
    case False
    have one': "am_recipient m = am_recipient (batch ! i)"
      if "m \<in> set batch" "am_message_id m = am_message_id (batch ! i)" for m
      using one [OF that(1)] that(2) i(2,3) by (simp add: done_of_def)
    from False consider "vs ! i = Apply" | "vs ! i = Repeat" | "vs ! i = Superseded" by (cases "vs ! i") auto
    then have "held_for (batch ! i) db'"
      by cases (auto intro: apply_held [OF s i(1)] repeat_held_after [OF s i(1)]
          superseded_held [OF s i(1) _ one'])
    with False v i show ?thesis by (auto simp: held_for_def done_of_def)
  qed
qed

text \<open>
  C15 (archive_confirmations_hold). After a written batch in which each id belongs to one recipient,
  every message is confirmed to its recipient's hub exactly as D1 holds it: a confirmation that is
  no collision names a row D1 holds for that recipient at that version or a newer one (so the hub
  may stop owing it and drop an acknowledged row), and a collision names an id D1 holds for
  somebody else.
\<close>

theorem archive_confirmations_hold:
  assumes "table_ok db" and "versions_ok batch" and "archive_batch batch db = (Inr vs, db')"
    and "one_owner (set batch)"
  shows "(\<forall>r ds d. (r, ds) \<in> set (done_by_recipient batch vs) \<and> d \<in> set ds \<longrightarrow>
      (\<exists>row. row_of (d_message_id d) db' = Some row \<and>
         (if d_collision d then dm_recipient row \<noteq> r
          else dm_recipient row = r \<and> int (d_version d) \<le> dm_version row))) \<and>
    (\<forall>i<length batch. \<exists>ds. (am_recipient (batch ! i), ds) \<in> set (done_by_recipient batch vs) \<and>
      done_of (batch ! i) (vs ! i) \<in> set ds)"
proof -
  have one: "am_recipient m = r" if told: "(r, ds) \<in> set (done_by_recipient batch vs)" "d \<in> set ds"
    and m: "m \<in> set batch" "am_message_id m = d_message_id d" for r ds d m
  proof -
    obtain i where i: "i < length batch" "r = am_recipient (batch ! i)" "d = done_of (batch ! i) (vs ! i)"
      using done_by_recipient_sound [OF told] by blast
    then have "am_message_id m = am_message_id (batch ! i)" using m(2) by (simp add: done_of_def)
    with assms(4) m(1) nth_mem [OF i(1)] show ?thesis unfolding one_owner_def i(2) by blast
  qed
  have "\<exists>row. row_of (d_message_id d) db' = Some row \<and>
      (if d_collision d then dm_recipient row \<noteq> r else dm_recipient row = r \<and> int (d_version d) \<le> dm_version row)"
    if "(r, ds) \<in> set (done_by_recipient batch vs)" "d \<in> set ds" for r ds d
    using told_is_held [OF assms(1-3) one [OF that] that] .
  then show ?thesis
    using done_by_recipient_complete settled_length [OF archive_batch_settled [OF assms(1-3)]] by blast
qed

theorem archive_confirmations_hold_witness:
  "\<exists>row. row_of ''m1'' (snd (archive_batch [alice_insert, alice_ack] (box_db [landed] []))) = Some row \<and>
     dm_recipient row = ''alice'' \<and> 2 \<le> dm_version row"
proof -
  let ?db = "box_db [landed] []"
  let ?run = "archive_batch [alice_insert, alice_ack] ?db"
  have ok: "table_ok ?db" by (simp add: table_ok_def ids_distinct_def box_db_def)
  have v: "versions_ok [alice_insert, alice_ack]"
    by (simp add: versions_ok_def alice_insert_def alice_ack_def)
  have run: "?run = (Inr [Superseded, Apply], snd ?run)" by code_simp
  have one: "one_owner (set [alice_insert, alice_ack])"
    by (simp add: one_owner_def alice_insert_def alice_ack_def)
  have told: "(''alice'', [done_of alice_insert Superseded, done_of alice_ack Apply]) \<in>
      set (done_by_recipient [alice_insert, alice_ack] [Superseded, Apply])" by code_simp
  from archive_confirmations_hold [OF ok v run one] told show ?thesis
    by (fastforce simp: done_of_def alice_ack_def)
qed

text \<open>Delivering a written batch again, at any later time and under any
  faults, applies nothing: no verdict of the second pass is a write and D1's tables stay as they are.
\<close>

lemma redelivery_repeats:
  assumes s: "settled batch db vs db1" and later: "advanced db1 db2" and t: "settled batch db2 us db3"
    and i: "i < length batch"
  shows "us ! i \<noteq> Apply"
proof
  assume ap: "us ! i = Apply"
  obtain b where b: "best_of batch (am_message_id (batch ! i)) = Some b" using best_of_spec [OF i] .
  note again = settled_verdict [OF t i b]
  from again ap have bi: "b = i" and own: "am_recipient (batch ! i) = owner_at batch db2 i b"
    by (auto split: if_splits)
  have vers: "am_version (batch ! i) \<le> 2 ^ 53" using s i by (simp add: settled_def versions_ok_def)
  show False
  proof (cases "vs ! i = Collision")
    case True
    from held_by_other_advanced [OF collision_other [OF s i this] later] own show False
      by (auto simp: held_by_other_def owner_at_def)
  next
    case False
    have "vs ! i = Apply \<or> vs ! i = Repeat"
      using settled_verdict [OF s i b] False bi by (auto split: if_splits option.splits)
    then have "held_for (batch ! i) db1" using apply_held [OF s i] repeat_held_after [OF s i] by blast
    from held_for_advanced [OF this later] obtain row where
      row: "row_of (am_message_id (batch ! i)) db2 = Some row" and v: "version_bind (batch ! i) \<le> dm_version row"
      by (auto simp: held_for_def)
    have "0 \<le> dm_version row" "dm_version row \<le> 2 ^ 53"
      using t row_of_id [OF row] by (auto simp: settled_def table_ok_def)
    then have "int (u64_of_i64_clamped (js_number (dm_version row))) = dm_version row"
      by (simp add: u64_of_i64_clamped_nonneg)
    with v version_bind_small [OF vers]
    have "am_version (batch ! i) \<le> u64_of_i64_clamped (js_number (dm_version row))" by linarith
    with again ap row show False by (auto split: if_splits)
  qed
qed

lemma archive_redelivery_is_noop:
  assumes "table_ok db" and "versions_ok batch" and "archive_batch batch db = (Inr vs, db1)"
    and "reaches archive_step archive_call_ok db1 db2" and "archive_batch batch db2 = (Inr us, db3)"
  shows "Apply \<notin> set us \<and> tables db3 = tables db2"
proof -
  note s = archive_batch_settled [OF assms(1-3)]
  have "table_ok db1" by (rule archive_batch_outcome(2) [OF assms(1-3)])
  note later = archive_reaches [OF assms(4) this]
  note t = archive_batch_settled [OF later(1) assms(2,5)]
  have none: "Apply \<notin> set us"
    using redelivery_repeats [OF s later(2) t] settled_length [OF t] by (auto simp: in_set_conv_nth)
  then have "applied_messages batch us = []"
    by (auto simp: applied_messages_def filter_empty_conv dest: set_zip_rightD)
  with t none show ?thesis by (auto simp: settled_def answered_batch_def)
qed

lemma archive_redelivery_is_noop_example:
  "d_messages (snd (archive_batch [alice_ack] (snd (archive_batch [alice_ack] held_db)))) =
     d_messages (snd (archive_batch [alice_ack] held_db))"
proof -
  let ?one = "archive_batch [alice_ack] held_db"
  let ?two = "archive_batch [alice_ack] (snd ?one)"
  have v: "versions_ok [alice_ack]" by (simp add: versions_ok_def alice_ack_def)
  have one: "?one = (Inr [Apply], snd ?one)" by code_simp
  have two: "?two = (Inr [Repeat], snd ?two)" by code_simp
  from archive_redelivery_is_noop [OF held_db_ok v one reaches_refl two] show ?thesis
    using tables_fields(1) [of "snd ?two" "snd ?one"] by simp
qed

subsection \<open>The queue\<close>

text \<open>
  C29 (queue_settled_once). The handler settles every message of a queue batch exactly once, by an
  acknowledgment or a retry, whatever is malformed, gone from its hub, unreadable, or refused by D1:
  none is lost and none is settled twice.
\<close>

theorem queue_settled_once:
  assumes "consume from_value read_hub_rows unbound batch db = (c, db')"
  shows "mset (map fst (c_marks c)) = mset [0..<length batch]"
  by (rule consume_places [OF assms])

definition hub_row :: archive_row_rec where
  "hub_row = \<lparr>ar_message_id = ''m1'', ar_message_box = ''inbox'', ar_sender = ''bob'', ar_body = None,
     ar_state = acknowledged, ar_version = 2, ar_created_at = ''t0''\<rparr>"

definition queue_batch :: "(string + json) list" where
  "queue_batch = [Inl ''bad'', Inr (JInt 1), Inr (JInt 2)]"

definition queue_message :: "json \<Rightarrow> string + archive_message_rec" where
  "queue_message v = (if v = JInt 1 then Inr (alice_ack\<lparr>am_body_in_hub := True\<rparr>) else Inr alice_insert)"

theorem queue_settled_once_witness:
  "mset (map fst (c_marks (fst (consume queue_message (\<lambda>_ _. Inr [hub_row]) None queue_batch (box_db [] [])))))
     = mset [0..<3]"
proof -
  let ?run = "consume queue_message (\<lambda>_ _. Inr [hub_row]) None queue_batch (box_db [] [])"
  have "length queue_batch = 3" by (simp add: queue_batch_def)
  with queue_settled_once [OF surjective_pairing [of ?run]] show ?thesis by simp
qed

subsection \<open>A batch that names one id for two recipients\<close>

text \<open>
  C30 (cross_recipient_superseded). The premise that an id belongs to one recipient is needed, and the
  code does not see to it. Let D1 hold an id for one recipient, and let a batch bring a message of
  another recipient under that id before one of the holder's own of the same or a lower version.
  However the batch is answered, it writes nothing: the other's message is a collision, the holder's
  is taken as superseded by it. Yet the holder's hub is told its version is archived, whatever
  version D1's row still has.
\<close>

theorem cross_recipient_superseded:
  assumes "table_ok db" and "versions_ok [other, own]" and "row_of (am_message_id own) db = Some row"
    and "am_message_id other = am_message_id own" and "am_version own \<le> am_version other"
    and "am_recipient own = dm_recipient row" and "am_recipient other \<noteq> dm_recipient row"
    and "archive_batch [other, own] db = (Inr vs, db')"
  shows "vs = [Collision, Superseded] \<and> row_of (am_message_id own) db' = Some row \<and>
     done_by_recipient [other, own] vs =
       [(am_recipient other,
           [\<lparr>d_message_id = am_message_id own, d_version = am_version other, d_collision = True\<rparr>]),
        (dm_recipient row,
           [\<lparr>d_message_id = am_message_id own, d_version = am_version own, d_collision = False\<rparr>])]"
proof -
  let ?batch = "[other, own]"
  note s = archive_batch_settled [OF assms(1,2,8)]
  have best: "best_of ?batch (am_message_id own) = Some 0"
    using assms(4,5) by (simp add: best_of_def note_best_def)
  have "vs ! 0 = Collision" using settled_verdict [OF s, of 0 0] best assms(3,4,7) by (simp add: owner_at_def)
  moreover have "vs ! 1 = Superseded"
    using settled_verdict [OF s, of 1 0] best assms(3) by (simp add: owner_at_def assms(6))
  moreover have "length vs = 2" using settled_length [OF s] by simp
  ultimately have vs: "vs = [Collision, Superseded]" by (auto simp: length_Suc_conv numeral_2_eq_2)
  then have "applied_messages ?batch vs = []" by (simp add: applied_messages_def)
  then have "tables db' = tables db" using s by (auto simp: settled_def answered_batch_def)
  then have "d_messages db' = d_messages db" by (rule tables_fields(1))
  then have kept: "row_of (am_message_id own) db' = Some row" using assms(3) by (simp add: row_of_def)
  have "am_recipient other \<noteq> am_recipient own" using assms(6,7) by simp
  then have "done_by_recipient ?batch vs = [(am_recipient other, [done_of other Collision]), (am_recipient own, [done_of own Superseded])]"
    by (simp add: vs done_by_recipient_def)
  then show ?thesis using kept vs by (simp add: done_of_def assms(4,6))
qed

theorem cross_recipient_superseded_witness:
  "done_by_recipient [bob_ack, alice_ack] [Collision, Superseded] =
     [(''bob'', [\<lparr>d_message_id = ''m1'', d_version = 2, d_collision = True\<rparr>]),
      (''alice'', [\<lparr>d_message_id = ''m1'', d_version = 2, d_collision = False\<rparr>])] \<and>
   map dm_acknowledged_at (d_messages held_db) = [None]"
proof -
  let ?run = "archive_batch [bob_ack, alice_ack] held_db"
  let ?row = "(message_row ''m1'' 1 ''bob'' ''alice'' ''hi'' None ''t0'')\<lparr>dm_version := 1\<rparr>"
  have run: "?run = (Inr [Collision, Superseded], snd ?run)" by code_simp
  have v: "versions_ok [bob_ack, alice_ack]" by (simp add: versions_ok_def bob_ack_def alice_ack_def)
  have row: "row_of (am_message_id alice_ack) held_db = Some ?row"
    by (simp add: row_of_def held_db_def box_db_def message_row_def alice_ack_def)
  have m: "am_message_id alice_ack = ''m1''" "am_recipient alice_ack = ''alice''" "am_version alice_ack = 2"
    "am_message_id bob_ack = ''m1''" "am_recipient bob_ack = ''bob''" "am_version bob_ack = 2" "dm_recipient ?row = ''alice''"
    by (simp_all add: alice_ack_def bob_ack_def message_row_def)
  have "map dm_acknowledged_at (d_messages held_db) = [None]"
    by (simp add: held_db_def box_db_def message_row_def)
  moreover have to: "am_recipient alice_ack = dm_recipient ?row" by (simp only: m)
  ultimately show ?thesis
    using cross_recipient_superseded [OF held_db_ok v row _ _ to _ run] by (simp add: m(1-6) m(7) [simplified])
qed

end
