(* ===== verification/Mailbox_Hub.thy ===== *)
theory Mailbox_Hub
  imports Archive
begin

section \<open>The mailbox hub and the Worker's hops to it\<close>

text \<open>
  \<open>src/src/message_hub_sql.rs\<close>: the Durable Object that serves one identity's mailbox, and the
  Worker's calls to it. The state \<open>relay\<close> holds every hub by the name it is found under
  (\<open>id_from_name\<close>), D1, the archive queue and the requests in flight; \<open>self\<close> is the name of the
  object a handler runs on. The clock is the Workers clock, which stands still inside a request.

  A body that reached a handler is its typed value, or the reader's error. A handler returns an
  answer, or the error it propagates to the runtime (a missing binding). A hop meets one of four
  fates: it is served, it is lost before the hub, the hub serves it and the answer is lost, or it
  is given up on and may still land later (\<open>with_do_op_timeout\<close> drops the call, which may land).
  Handing a row to the queue is after the answer (\<open>wait_until\<close>); it reads nothing a later
  statement writes, so it is one step with the handler. The routes the class passes on to
  \<open>MessageHub\<close>, its sockets and \<open>/internal/session-verify\<close> are not of the mailbox.
\<close>

subsection \<open>Bodies, requests, state\<close>

record context_body =
  cb_identity :: string
  cb_sender :: string
  cb_message_box :: string

record insert_body =
  ib_identity :: string
  ib_row :: new_row
  ib_retry :: bool

record list_body =
  lb_identity :: string
  lb_message_box :: string
  lb_legacy :: bool
  lb_against :: "string list"

record ack_body =
  ab_identity :: string
  ab_message_ids :: "string list"
  ab_legacy :: bool
  ab_retry :: bool

record done_body =
  db_identity :: string
  db_done :: "done_rec list"

datatype hub_request =
    PostContext "string + context_body"
  | PostInsert "string + insert_body"
  | PostList "string + list_body"
  | PostAck "string + ack_body"
  | PostPermissionsForget "string + string"
  | GetArchiveRead "(string \<times> string) list"
  | PostArchiveDone "string + done_body"

fun request_path :: "hub_request \<Rightarrow> string" where
  "request_path (PostContext _) = ''/internal/mailbox/context''"
| "request_path (PostInsert _) = ''/internal/mailbox/insert''"
| "request_path (PostList _) = ''/internal/mailbox/list''"
| "request_path (PostAck _) = ''/internal/mailbox/ack''"
| "request_path (PostPermissionsForget _) = ''/internal/mailbox/permissions-forget''"
| "request_path (GetArchiveRead _) = ''/internal/archive-read''"
| "request_path (PostArchiveDone _) = ''/internal/archive-done''"

record hub =
  hub_db :: mailbox_db
  schema_ready :: bool

datatype hop = HopServed | HopLost string | HopUnanswered string | HopLate string

record relay =
  rl_hubs :: "string \<Rightarrow> hub"
  rl_d1 :: d1_db
  rl_queue :: "json list"
  rl_sends :: "string option list"
  rl_hops :: "hop list"
  rl_inflight :: "(string \<times> hub_request) list"
  rl_now :: ms

text \<open>
  What the handlers take from outside: the bindings (an error where one is missing), the
  retention setting, SQLite's time of a clock value, serde's readings and writings of an archive
  message and of a value that does not decode, and the order a hash set is walked in.
\<close>

record relay_env =
  re_d1_unbound :: "string option"
  re_queue_unbound :: "string option"
  re_hub_unbound :: "string option"
  re_retention :: retention_config
  re_time :: "ms \<Rightarrow> string"
  re_json_len :: "archive_message_rec \<Rightarrow> nat option"
  re_to_value :: "archive_message_rec \<Rightarrow> string + json"
  re_from_value :: "json \<Rightarrow> string + archive_message_rec"
  re_decode_error :: "json \<Rightarrow> string"
  re_hash_order :: "string set \<Rightarrow> string list"

definition on_hub :: "string \<Rightarrow> 'a mbx \<Rightarrow> relay \<Rightarrow> (string, 'a, relay) outcome" where
  "on_hub self op rl =
     (let h = rl_hubs rl self; (r, db') = op (hub_db h)
      in (r, rl\<lparr>rl_hubs := (rl_hubs rl)(self := h\<lparr>hub_db := db'\<rparr>)\<rparr>))"

definition on_d1 :: "'a d1 \<Rightarrow> relay \<Rightarrow> (d1_error, 'a, relay) outcome" where
  "on_d1 op rl = (let (r, db') = op (rl_d1 rl) in (r, rl\<lparr>rl_d1 := db'\<rparr>))"

definition set_ready :: "string \<Rightarrow> relay \<Rightarrow> relay" where
  "set_ready self rl = rl\<lparr>rl_hubs := (rl_hubs rl)(self := (rl_hubs rl self)\<lparr>schema_ready := True\<rparr>)\<rparr>"

subsection \<open>Answers\<close>

type_synonym hub_result = "(string, answer, relay) outcome"

definition answer :: "json \<Rightarrow> answer" where
  "answer v = (v, 200)"

definition refuse :: "http_status \<Rightarrow> string \<Rightarrow> answer" where
  "refuse status why = (JObj [(''error'', JStr why)], status)"

text \<open>\<open>match call { Ok(a) => ..., Err(e) => return answer }\<close>.\<close>

definition or_answer ::
  "('e, 'a, relay) outcome \<Rightarrow> ('e \<Rightarrow> answer) \<Rightarrow> ('a \<Rightarrow> relay \<Rightarrow> hub_result) \<Rightarrow> hub_result" where
  "or_answer r f k = (case r of (Inl e, rl) \<Rightarrow> (Inr (f e), rl) | (Inr a, rl) \<Rightarrow> k a rl)"

text \<open>\<open>env.d1("DB")?\<close>: an unbound database is the runtime's error.\<close>

definition with_d1 :: "relay_env \<Rightarrow> (relay \<Rightarrow> hub_result) \<Rightarrow> relay \<Rightarrow> hub_result" where
  "with_d1 env k rl = (case re_d1_unbound env of Some e \<Rightarrow> (Inl e, rl) | None \<Rightarrow> k rl)"

text \<open>\<open>MessageDbRow\<close> and \<open>ArchiveRow\<close> as serde writes and reads them.\<close>

definition opt_json :: "string option \<Rightarrow> json" where
  "opt_json x = (case x of Some s \<Rightarrow> JStr s | None \<Rightarrow> JNull)"

fun json_opt :: "json option \<Rightarrow> string option option" where
  "json_opt None = Some None"
| "json_opt (Some JNull) = Some None"
| "json_opt (Some (JStr s)) = Some (Some s)"
| "json_opt (Some _) = None"

definition message_json :: "message_db_row \<Rightarrow> json" where
  "message_json r =
     JObj [(''messageId'', opt_json (m_message_id r)), (''body'', opt_json (m_body r)),
           (''sender'', opt_json (m_sender r)), (''created_at'', opt_json (m_created_at r)),
           (''updated_at'', opt_json (m_updated_at r))]"

definition message_of_json :: "json \<Rightarrow> message_db_row option" where
  "message_of_json v =
     (if \<not> is_object v then None
      else case (json_opt (get_member ''messageId'' v), json_opt (get_member ''body'' v),
                 json_opt (get_member ''sender'' v), json_opt (get_member ''created_at'' v),
                 json_opt (get_member ''updated_at'' v)) of
             (Some i, Some b, Some s, Some c, Some u) \<Rightarrow>
               Some \<lparr>m_message_id = i, m_body = b, m_sender = s, m_created_at = c, m_updated_at = u\<rparr>
           | _ \<Rightarrow> None)"

definition archive_row_json :: "archive_row_rec \<Rightarrow> json" where
  "archive_row_json r =
     JObj [(''messageId'', JStr (ar_message_id r)), (''messageBox'', JStr (ar_message_box r)),
           (''sender'', JStr (ar_sender r)), (''body'', opt_json (ar_body r)),
           (''state'', JStr (ar_state r)), (''version'', JInt (int (ar_version r))),
           (''createdAt'', JStr (ar_created_at r))]"

fun as_u64 :: "json \<Rightarrow> u64 option" where
  "as_u64 (JInt n) = (if 0 \<le> n \<and> n < 2 ^ 64 then Some (nat n) else None)"
| "as_u64 _ = None"

definition archive_row_of_json :: "json \<Rightarrow> archive_row_rec option" where
  "archive_row_of_json v =
     (case (Option.bind (get_member ''messageId'' v) as_str, Option.bind (get_member ''messageBox'' v) as_str,
            Option.bind (get_member ''sender'' v) as_str, json_opt (get_member ''body'' v),
            Option.bind (get_member ''state'' v) as_str, Option.bind (get_member ''version'' v) as_u64,
            Option.bind (get_member ''createdAt'' v) as_str) of
        (Some i, Some mb, Some s, Some b, Some st, Some n, Some c) \<Rightarrow>
          Some \<lparr>ar_message_id = i, ar_message_box = mb, ar_sender = s, ar_body = b, ar_state = st,
                ar_version = n, ar_created_at = c\<rparr>
      | _ \<Rightarrow> None)"

text \<open>\<open>ArchiveMessage\<close> and \<open>Change\<close> as their derived serde writes and reads them.\<close>

definition archive_message_json :: "archive_message_rec \<Rightarrow> json" where
  "archive_message_json m =
     JObj ([(''recipient'', JStr (am_recipient m)), (''messageId'', JStr (am_message_id m)),
            (''version'', JInt (int (am_version m))),
            (''change'', JStr (case am_change m of Insert \<Rightarrow> ''insert'' | Acknowledge \<Rightarrow> ''acknowledge'')),
            (''messageBox'', JStr (am_message_box m)), (''sender'', JStr (am_sender m)),
            (''body'', opt_json (am_body m)), (''createdAt'', opt_json (am_created_at m))] @
           (if am_body_in_hub m then [(''bodyInHub'', JBool True)] else []))"

definition change_of :: "string \<Rightarrow> change option" where
  "change_of s = (if s = ''insert'' then Some Insert else if s = ''acknowledge'' then Some Acknowledge else None)"

fun json_bool :: "json option \<Rightarrow> bool option" where
  "json_bool None = Some False"
| "json_bool (Some (JBool b)) = Some b"
| "json_bool (Some _) = None"

definition archive_message_of_json :: "json \<Rightarrow> archive_message_rec option" where
  "archive_message_of_json v =
     (case (Option.bind (get_member ''recipient'' v) as_str, Option.bind (get_member ''messageId'' v) as_str,
            Option.bind (get_member ''version'' v) as_u64,
            Option.bind (Option.bind (get_member ''change'' v) as_str) change_of,
            Option.bind (get_member ''messageBox'' v) as_str, Option.bind (get_member ''sender'' v) as_str,
            json_opt (get_member ''body'' v), json_opt (get_member ''createdAt'' v),
            json_bool (get_member ''bodyInHub'' v)) of
        (Some r, Some i, Some n, Some ch, Some mb, Some s, Some b, Some c, Some h) \<Rightarrow>
          Some \<lparr>am_recipient = r, am_message_id = i, am_version = n, am_change = ch, am_message_box = mb,
                am_sender = s, am_body = b, am_created_at = c, am_body_in_hub = h\<rparr>
      | _ \<Rightarrow> None)"

text \<open>\<open>serde_json::from_value::<Vec<T>>\<close> and \<open>v[key]\<close>, null where the member is absent.\<close>

definition decode_all :: "(json \<Rightarrow> 'a option) \<Rightarrow> json \<Rightarrow> 'a list option" where
  "decode_all f v =
     (case v of JArr xs \<Rightarrow> (let ys = map f xs in if None \<in> set ys then None else Some (map the ys))
      | _ \<Rightarrow> None)"

definition member :: "string \<Rightarrow> json \<Rightarrow> json" where
  "member k v = (case get_member k v of Some x \<Rightarrow> x | None \<Rightarrow> JNull)"

subsection \<open>The hub: the layout, the queue, the replay\<close>

definition ready_hub :: "string \<Rightarrow> string \<Rightarrow> relay \<Rightarrow> (string, unit, relay) outcome" where
  "ready_hub self identity rl =
     andThen (if schema_ready (rl_hubs rl self) then (Inr (), rl)
              else andThen (on_hub self ensure_schema rl) (\<lambda>_ rl. (Inr (), set_ready self rl)))
       (\<lambda>_. on_hub self (bind_identity identity))"

definition sel_master :: "mailbox_db \<Rightarrow> val list list" where
  "sel_master db = (if ROWS \<in> set (made db) then [[VInt 1]] else [])"

definition has_mailbox :: "string \<Rightarrow> relay \<Rightarrow> bool \<times> relay" where
  "has_mailbox self rl =
     (if schema_ready (rl_hubs rl self) then (True, rl)
      else (case on_hub self (query [] sel_master) rl of
              (Inr rows, rl') \<Rightarrow> (rows \<noteq> [], rl')
            | (Inl _, rl') \<Rightarrow> (False, rl')))"

definition enqueue_one :: "relay_env \<Rightarrow> archive_message_rec \<Rightarrow> relay \<Rightarrow> relay" where
  "enqueue_one env m rl =
     (case re_to_value env m of
        Inl _ \<Rightarrow> rl
      | Inr js \<Rightarrow>
          (let rl1 = rl\<lparr>rl_sends := tl (rl_sends rl)\<rparr>
           in case rl_sends rl of
                Some e # _ \<Rightarrow> rl1
              | _ \<Rightarrow> rl1\<lparr>rl_queue := rl_queue rl1 @ [js]\<rparr>))"

definition enqueue :: "relay_env \<Rightarrow> archive_message_rec list \<Rightarrow> relay \<Rightarrow> relay" where
  "enqueue env msgs rl =
     (case re_queue_unbound env of Some _ \<Rightarrow> rl | None \<Rightarrow> fold (enqueue_one env) msgs rl)"

definition enqueue_after :: "relay_env \<Rightarrow> string \<Rightarrow> archive_row_rec list \<Rightarrow> relay \<Rightarrow> relay" where
  "enqueue_after env identity rows rl =
     (if rows = [] then rl
      else enqueue env (map (\<lambda>r. archive_message (re_json_len env) r identity) rows) rl)"

definition replay :: "relay_env \<Rightarrow> string \<Rightarrow> string \<Rightarrow> relay \<Rightarrow> relay" where
  "replay env self identity rl =
     (case on_hub self (take_owed_due (rl_now rl)) rl of
        (Inr rows, rl') \<Rightarrow> enqueue_after env identity rows rl'
      | (Inl _, rl') \<Rightarrow> rl')"

text \<open>The rows of the ids an answered change named, handed to the queue; a failed read logs.\<close>

definition enqueue_ids :: "relay_env \<Rightarrow> string \<Rightarrow> string \<Rightarrow> string list \<Rightarrow> relay \<Rightarrow> relay" where
  "enqueue_ids env self identity ids rl =
     (case on_hub self (archive_rows ids) rl of
        (Inr rows, rl') \<Rightarrow> enqueue_after env identity rows rl'
      | (Inl _, rl') \<Rightarrow> rl')"

subsection \<open>The hub's handlers\<close>

definition fees_json :: "int \<Rightarrow> int \<Rightarrow> json" where
  "fees_json recipient_fee server_fee =
     JObj [(''recipientFee'', JInt recipient_fee), (''serverFee'', JInt server_fee)]"

definition handle_context :: "relay_env \<Rightarrow> string \<Rightarrow> string + context_body \<Rightarrow> relay \<Rightarrow> hub_result" where
  "handle_context env self req rl =
     (case req of
        Inl e \<Rightarrow> (Inr (refuse 400 (''context body: '' @ e)), rl)
      | Inr b \<Rightarrow>
          or_answer (ready_hub self (cb_identity b) rl) (refuse 500) (\<lambda>_ rl.
          or_answer (on_hub self (permissions_copy (cb_sender b) (cb_message_box b) (rl_now rl)) rl)
            (refuse 500) (\<lambda>copy rl.
          case copy of
            Some (recipient_fee, server_fee) \<Rightarrow> (Inr (answer (fees_json recipient_fee server_fee)), rl)
          | None \<Rightarrow>
              with_d1 env (\<lambda>rl.
                or_answer (on_d1 (read_send_context (cb_identity b) (cb_sender b) (cb_message_box b)) rl)
                  (\<lambda>e. refuse 503 (''permissions read from D1: '' @ error_text e)) (\<lambda>ctx rl.
                  (Inr (answer (fees_json (sc_recipient_fee ctx) (sc_server_fee ctx))),
                   snd (on_hub self (keep_permissions (cb_sender b) (cb_message_box b)
                          (sc_recipient_fee ctx) (sc_server_fee ctx) (rl_now rl)) rl)))) rl)))"

definition result_json :: "string \<Rightarrow> json" where
  "result_json r = JObj [(''result'', JStr r)]"

text \<open>What each outcome of the insert answers; a stored row is handed to the queue.\<close>

definition insert_answers :: "relay_env \<Rightarrow> string \<Rightarrow> insert_body \<Rightarrow> inserted \<Rightarrow> relay \<Rightarrow> hub_result" where
  "insert_answers env self b inserted rl =
     (case inserted of
        Stored \<Rightarrow>
          (Inr (answer (result_json ''stored'')),
           enqueue_ids env self (ib_identity b) [n_message_id (ib_row b)] rl)
      | Retried \<Rightarrow> (Inr (answer (JObj [(''result'', JStr ''stored''), (''retried'', JBool True)])), rl)
      | Duplicate \<Rightarrow> (Inr (answer (result_json ''duplicate'')), rl)
      | Full f \<Rightarrow>
          (Inr (answer (JObj [(''result'', JStr ''full''),
                              (''answer'', fst (full_answer f (ib_identity b)))])), rl))"

definition handle_insert :: "relay_env \<Rightarrow> string \<Rightarrow> string + insert_body \<Rightarrow> relay \<Rightarrow> hub_result" where
  "handle_insert env self req rl =
     (case req of
        Inl e \<Rightarrow> (Inr (refuse 400 (''insert body: '' @ e)), rl)
      | Inr b \<Rightarrow>
          or_answer (ready_hub self (ib_identity b) rl) (refuse 500) (\<lambda>_ rl.
          let rl = replay env self (ib_identity b) rl in
          or_answer (on_hub self (insert_mbx (re_time env) (ib_row b) (ib_retry b) (rl_now rl) RULED) rl)
            (\<lambda>e. refuse 500 (''mailbox insert: '' @ e)) (insert_answers env self b)))"

definition legacy_refusal :: "string \<Rightarrow> d1_error \<Rightarrow> answer" where
  "legacy_refusal op e =
     refuse (if is_transient_d1_error e then 503 else 500) (''legacy '' @ op @ '' on D1: '' @ error_text e)"

definition messages_json :: "message_db_row list \<Rightarrow> json" where
  "messages_json rows = JArr (map message_json rows)"

definition strings_json :: "string list \<Rightarrow> json" where
  "strings_json xs = JArr (map JStr xs)"

text \<open>The listing past the mailbox's own rows: the caller's merge, or the hub's with D1.\<close>

definition list_against :: "relay_env \<Rightarrow> string \<Rightarrow> list_body \<Rightarrow> message_db_row list \<Rightarrow> relay \<Rightarrow> hub_result" where
  "list_against env self b rows rl =
     or_answer (on_hub self (held_ids (lb_against b)) rl) (\<lambda>e. refuse 500 (''mailbox held: '' @ e))
       (\<lambda>held rl. (Inr (answer (JObj [(''messages'', messages_json rows),
                                      (''held'', strings_json (re_hash_order env held))])), rl))"

definition list_merged :: "relay_env \<Rightarrow> string \<Rightarrow> list_body \<Rightarrow> message_db_row list \<Rightarrow> relay \<Rightarrow> hub_result" where
  "list_merged env self b rows =
     with_d1 env (\<lambda>rl.
       or_answer (on_d1 (list_messages (lb_identity b) (lb_message_box b)) rl) (legacy_refusal ''list'') (\<lambda>d1 rl.
       or_answer (on_hub self (held_ids (List.map_filter m_message_id d1)) rl)
         (\<lambda>e. refuse 500 (''mailbox held: '' @ e)) (\<lambda>held rl.
       (Inr (answer (JObj [(''messages'', messages_json
          (merge_mbx d1 rows held D1First LIST_LIMIT LIST_INLINE_BYTES))])), rl))))"

definition handle_list :: "relay_env \<Rightarrow> string \<Rightarrow> string + list_body \<Rightarrow> relay \<Rightarrow> hub_result" where
  "handle_list env self req rl =
     (case req of
        Inl e \<Rightarrow> (Inr (refuse 400 (''list body: '' @ e)), rl)
      | Inr b \<Rightarrow>
          (let (has, rl) = (if lb_legacy b then (True, rl) else has_mailbox self rl)
           in if \<not> has then
                (Inr (answer (JObj [(''messages'', JArr []), (''held'', JArr [])])), rl)
              else
                or_answer (ready_hub self (lb_identity b) rl) (refuse 500) (\<lambda>_ rl.
                let rl = replay env self (lb_identity b) rl in
                or_answer (on_hub self (list_mbx (lb_message_box b) LIST_LIMIT LIST_INLINE_BYTES) rl)
                  (\<lambda>e. refuse 500 (''mailbox list: '' @ e)) (\<lambda>rows rl.
                if lb_legacy b then list_merged env self b rows rl
                else list_against env self b rows rl))))"

definition legacy_acknowledge :: "string \<Rightarrow> string list \<Rightarrow> retention_config \<Rightarrow> nat d1" where
  "legacy_acknowledge identity ids retention db =
     andThen (live_message_ids identity ids db) (\<lambda>lids db.
       if lids = [] then (Inr 0, db) else acknowledge_messages identity lids retention db)"

definition acked_json :: "nat \<Rightarrow> string list \<Rightarrow> json" where
  "acked_json n missing = JObj [(''acknowledged'', JInt (int n)), (''missing'', strings_json missing)]"

text \<open>The acknowledgment past the mailbox's own rows: the queue, then D1 for the ids it lacks.\<close>

definition ack_rest :: "relay_env \<Rightarrow> string \<Rightarrow> ack_body \<Rightarrow> acked \<Rightarrow> relay \<Rightarrow> hub_result" where
  "ack_rest env self b acked rl =
     (let rl = enqueue_ids env self (ab_identity b) (a_acknowledged acked) rl;
          n = length (a_acknowledged acked)
      in if \<not> ab_legacy b \<or> a_missing acked = []
         then (Inr (answer (acked_json n (a_missing acked))), rl)
         else with_d1 env (\<lambda>rl.
           or_answer (on_d1 (legacy_acknowledge (ab_identity b) (a_missing acked) (re_retention env)) rl)
             (legacy_refusal ''acknowledge'') (\<lambda>m rl.
             (Inr (answer (acked_json (n + m) [])), rl))) rl)"

definition handle_ack :: "relay_env \<Rightarrow> string \<Rightarrow> string + ack_body \<Rightarrow> relay \<Rightarrow> hub_result" where
  "handle_ack env self req rl =
     (case req of
        Inl e \<Rightarrow> (Inr (refuse 400 (''ack body: '' @ e)), rl)
      | Inr b \<Rightarrow>
          (let (has, rl) = (if ab_legacy b then (True, rl) else has_mailbox self rl)
           in if \<not> has then (Inr (answer (acked_json 0 (ab_message_ids b))), rl)
              else
                or_answer (ready_hub self (ab_identity b) rl) (refuse 500) (\<lambda>_ rl.
                let rl = replay env self (ab_identity b) rl in
                or_answer (on_hub self (acknowledge (re_time env) (ab_message_ids b) (ab_retry b) (rl_now rl)) rl)
                  (\<lambda>e. refuse 500 (''mailbox acknowledge: '' @ e)) (ack_rest env self b))))"

definition handle_permissions_forget :: "string \<Rightarrow> string + string \<Rightarrow> relay \<Rightarrow> hub_result" where
  "handle_permissions_forget self req rl =
     (case req of
        Inl e \<Rightarrow> (Inr (refuse 400 (''forget body: '' @ e)), rl)
      | Inr identity \<Rightarrow>
          or_answer (ready_hub self identity rl) (refuse 500) (\<lambda>_ rl.
          or_answer (on_hub self Mailbox.forget_permissions rl) (refuse 500) (\<lambda>_ rl.
          (Inr (answer (JObj [(''forgot'', JBool True)])), rl))))"

definition query_identity :: "(string \<times> string) list \<Rightarrow> string" where
  "query_identity pairs = foldl (\<lambda>acc (k, v). if k = ''identity'' then v else acc) [] pairs"

definition query_ids :: "(string \<times> string) list \<Rightarrow> string list" where
  "query_ids pairs = map snd (filter (\<lambda>(k, v). k = ''id'') pairs)"

definition handle_archive_read :: "string \<Rightarrow> (string \<times> string) list \<Rightarrow> relay \<Rightarrow> hub_result" where
  "handle_archive_read self pairs rl =
     (let (has, rl) = has_mailbox self rl
      in if \<not> has then (Inr (answer (JObj [(''rows'', JArr [])])), rl)
         else
           or_answer (ready_hub self (query_identity pairs) rl) (refuse 500) (\<lambda>_ rl.
           or_answer (on_hub self (archive_rows (query_ids pairs)) rl) (refuse 500) (\<lambda>rows rl.
           (Inr (answer (JObj [(''rows'', JArr (map archive_row_json rows))])), rl))))"

definition handle_archive_done :: "string \<Rightarrow> string + done_body \<Rightarrow> relay \<Rightarrow> hub_result" where
  "handle_archive_done self req rl =
     (case req of
        Inl e \<Rightarrow> (Inr (refuse 400 (''archive-done body: '' @ e)), rl)
      | Inr b \<Rightarrow>
          (let (has, rl) = has_mailbox self rl
           in if \<not> has then (Inr (answer (JObj [(''changed'', JInt 0)])), rl)
              else
                or_answer (ready_hub self (db_identity b) rl) (refuse 500) (\<lambda>_ rl.
                or_answer (on_hub self (archive_done (db_done b)) rl) (refuse 500) (\<lambda>n rl.
                (Inr (answer (JObj [(''changed'', JInt (int n))])), rl)))))"

fun hub_fetch :: "relay_env \<Rightarrow> string \<Rightarrow> hub_request \<Rightarrow> relay \<Rightarrow> hub_result" where
  "hub_fetch env self (PostContext b) = handle_context env self b"
| "hub_fetch env self (PostInsert b) = handle_insert env self b"
| "hub_fetch env self (PostList b) = handle_list env self b"
| "hub_fetch env self (PostAck b) = handle_ack env self b"
| "hub_fetch env self (PostPermissionsForget b) = handle_permissions_forget self b"
| "hub_fetch env self (GetArchiveRead pairs) = handle_archive_read self pairs"
| "hub_fetch env self (PostArchiveDone b) = handle_archive_done self b"

subsection \<open>The Worker's hops\<close>

definition hub_answered :: "http_status \<Rightarrow> string \<Rightarrow> json \<Rightarrow> string" where
  "hub_answered status path v =
     ''mailbox hub answered '' @ nat_text status @ '' on '' @ path @ '': '' @
     (case as_str (member ''error'' v) of Some e \<Rightarrow> e | None \<Rightarrow> [])"

definition hop_fetch ::
  "relay_env \<Rightarrow> string \<Rightarrow> hub_request \<Rightarrow> relay \<Rightarrow> (string, answer, relay) outcome" where
  "hop_fetch env name req rl =
     (let rl1 = rl\<lparr>rl_hops := tl (rl_hops rl)\<rparr>
      in case (case rl_hops rl of [] \<Rightarrow> HopServed | h # _ \<Rightarrow> h) of
           HopServed \<Rightarrow> hub_fetch env name req rl1
         | HopLost e \<Rightarrow> (Inl e, rl1)
         | HopUnanswered e \<Rightarrow> (Inl e, snd (hub_fetch env name req rl1))
         | HopLate e \<Rightarrow> (Inl e, rl1\<lparr>rl_inflight := rl_inflight rl1 @ [(name, req)]\<rparr>))"

definition post_json :: "relay_env \<Rightarrow> string \<Rightarrow> hub_request \<Rightarrow> relay \<Rightarrow> (string, json, relay) outcome" where
  "post_json env name req rl =
     andThen (hop_fetch env name req rl) (\<lambda>(v, status) rl.
       (if 200 \<le> status \<and> status < 300 then Inr v
        else Inl (hub_answered status (request_path req) v), rl))"

definition hop_error :: "string \<Rightarrow> d1_error" where
  "hop_error s =
     (if contains ''mailbox hub answered 5'' s \<and> \<not> contains ''answered 503'' s then OtherError s
      else OtherError (''mailbox hub connection: '' @ s))"

text \<open>\<open>body["retry"] = true\<close>: read by the two bodies that have the member.\<close>

fun set_retry :: "hub_request \<Rightarrow> hub_request" where
  "set_retry (PostInsert (Inr b)) = PostInsert (Inr (b\<lparr>ib_retry := True\<rparr>))"
| "set_retry (PostAck (Inr b)) = PostAck (Inr (b\<lparr>ab_retry := True\<rparr>))"
| "set_retry r = r"

definition post_with_retry ::
  "relay_env \<Rightarrow> string \<Rightarrow> hub_request \<Rightarrow> relay \<Rightarrow> (d1_error, json, relay) outcome" where
  "post_with_retry env identity req rl =
     (case re_hub_unbound env of
        Some e \<Rightarrow> (Inl (OtherError e), rl)
      | None \<Rightarrow>
          (case post_json env identity req rl of
             (Inr v, rl) \<Rightarrow> (Inr v, rl)
           | (Inl _, rl) \<Rightarrow>
               (case post_json env identity (set_retry req) rl of
                  (Inr v, rl) \<Rightarrow> (Inr v, rl)
                | (Inl e, rl) \<Rightarrow> (Inl (hop_error e), rl))))"

definition decoded :: "relay_env \<Rightarrow> (json \<Rightarrow> 'a option) \<Rightarrow> json \<Rightarrow> d1_error + 'a list" where
  "decoded env f v =
     (case decode_all f v of Some xs \<Rightarrow> Inr xs | None \<Rightarrow> Inl (OtherError (re_decode_error env v)))"

definition list_on_hub ::
  "relay_env \<Rightarrow> string \<Rightarrow> string \<Rightarrow> relay \<Rightarrow> (d1_error, message_db_row list, relay) outcome" where
  "list_on_hub env identity message_box rl =
     andThen (post_with_retry env identity
         (PostList (Inr \<lparr>lb_identity = identity, lb_message_box = message_box, lb_legacy = True,
                         lb_against = []\<rparr>)) rl)
       (\<lambda>v rl. (decoded env message_of_json (member ''messages'' v), rl))"

definition drain_list ::
  "relay_env \<Rightarrow> string \<Rightarrow> string \<Rightarrow> message_db_row list \<Rightarrow> relay \<Rightarrow>
     (d1_error, message_db_row list, relay) outcome" where
  "drain_list env identity message_box d1 rl =
     andThen (post_with_retry env identity
         (PostList (Inr \<lparr>lb_identity = identity, lb_message_box = message_box, lb_legacy = False,
                         lb_against = List.map_filter m_message_id d1\<rparr>)) rl)
       (\<lambda>v rl.
          andThen (decoded env message_of_json (member ''messages'' v), rl) (\<lambda>mailbox rl.
          andThen (decoded env as_str (member ''held'' v), rl) (\<lambda>held rl.
          (Inr (merge_mbx d1 mailbox (set held) MailboxFirst LIST_LIMIT LIST_INLINE_BYTES), rl))))"

definition ack_on_hub ::
  "relay_env \<Rightarrow> string \<Rightarrow> string list \<Rightarrow> bool \<Rightarrow> relay \<Rightarrow> (d1_error, nat \<times> string list, relay) outcome" where
  "ack_on_hub env identity ids legacy rl =
     andThen (post_with_retry env identity
         (PostAck (Inr \<lparr>ab_identity = identity, ab_message_ids = ids, ab_legacy = legacy,
                        ab_retry = False\<rparr>)) rl)
       (\<lambda>v rl.
          (Inr (case as_u64 (member ''acknowledged'' v) of Some n \<Rightarrow> n | None \<Rightarrow> 0,
                case decode_all as_str (member ''missing'' v) of Some m \<Rightarrow> m | None \<Rightarrow> []), rl))"

definition forget_permissions_on_hub :: "relay_env \<Rightarrow> string \<Rightarrow> relay \<Rightarrow> relay" where
  "forget_permissions_on_hub env identity rl =
     (case re_hub_unbound env of
        Some _ \<Rightarrow> rl
      | None \<Rightarrow> snd (post_json env identity (PostPermissionsForget (Inr identity)) rl))"

subsection \<open>The send's store: \<open>MailboxSendStore\<close>\<close>

fun as_i64 :: "json \<Rightarrow> i64 option" where
  "as_i64 (JInt n) = (if - (2 ^ 63) \<le> n \<and> n < 2 ^ 63 then Some n else None)"
| "as_i64 _ = None"

definition context_fee :: "string \<Rightarrow> json \<Rightarrow> int" where
  "context_fee k v = i32_of_i64 (case as_i64 (member k v) of Some n \<Rightarrow> n | None \<Rightarrow> 0)"

definition read_send_context_on_hub ::
  "relay_env \<Rightarrow> string \<Rightarrow> string \<Rightarrow> string \<Rightarrow> relay \<Rightarrow> (d1_error, send_context, relay) outcome" where
  "read_send_context_on_hub env recipient sender message_box rl =
     andThen (post_with_retry env recipient
         (PostContext (Inr \<lparr>cb_identity = recipient, cb_sender = sender, cb_message_box = message_box\<rparr>)) rl)
       (\<lambda>v rl. (Inr \<lparr>sc_recipient_fee = context_fee ''recipientFee'' v, sc_server_fee = context_fee ''serverFee'' v,
                      sc_box_id = Some 0\<rparr>, rl))"

text \<open>\<open>send_message::Insert\<close>, and what \<open>WorkerStore::insert_message\<close> makes of D1's answer.\<close>

datatype send_insert = SendStored | SendDuplicate | SendFull json

definition worker_insert_message ::
  "string \<Rightarrow> nat \<Rightarrow> string \<Rightarrow> string \<Rightarrow> string \<Rightarrow> string option \<Rightarrow> send_insert d1" where
  "worker_insert_message mid box_id sender recipient body beef_key db =
     andThen (insert_message mid box_id sender recipient body beef_key db) (\<lambda>new db.
       (Inr (if new then SendStored else SendDuplicate), db))"

definition inserted_answer :: "json \<Rightarrow> d1_error + send_insert" where
  "inserted_answer v =
     (case as_str (member ''result'' v) of
        Some r \<Rightarrow>
          if r = ''stored'' then Inr SendStored
          else if r = ''duplicate'' then Inr SendDuplicate
          else if r = ''full'' then Inr (SendFull (member ''answer'' v))
          else Inl (OtherError (''mailbox insert answered Some('' @ [CHR 0x22] @ r @ [CHR 0x22] @ '')''))
      | None \<Rightarrow> Inl (OtherError ''mailbox insert answered None''))"

definition insert_message_on_hub ::
  "relay_env \<Rightarrow> string \<Rightarrow> string \<Rightarrow> string \<Rightarrow> string \<Rightarrow> string \<Rightarrow> string option \<Rightarrow> relay \<Rightarrow>
     (d1_error, send_insert, relay) outcome" where
  "insert_message_on_hub env message_box message_id sender recipient body beef_key rl =
     (case beef_key of
        Some _ \<Rightarrow>
          andThen (on_d1 (get_or_create_message_box recipient message_box) rl) (\<lambda>box_id.
            on_d1 (worker_insert_message message_id box_id sender recipient body beef_key))
      | None \<Rightarrow>
          andThen (post_with_retry env recipient
              (PostInsert (Inr \<lparr>ib_identity = recipient,
                 ib_row = \<lparr>n_message_id = message_id, n_message_box = message_box, n_sender = sender,
                           n_body = body\<rparr>, ib_retry = False\<rparr>)) rl)
            (\<lambda>v rl. (inserted_answer v, rl)))"

subsection \<open>The archive consumer's hops\<close>

definition hub_rows_of :: "relay_env \<Rightarrow> answer \<Rightarrow> string + archive_row_rec list" where
  "hub_rows_of env a =
     (let (v, status) = a
      in if status \<noteq> 200 then Inl (''archive-read answered '' @ nat_text status)
         else (case decode_all archive_row_of_json (member ''rows'' v) of
                 Some rows \<Rightarrow> Inr rows | None \<Rightarrow> Inl (re_decode_error env v)))"

definition read_hub_rows ::
  "relay_env \<Rightarrow> string \<Rightarrow> string list \<Rightarrow> relay \<Rightarrow> (string, archive_row_rec list, relay) outcome" where
  "read_hub_rows env recipient ids rl =
     (case re_hub_unbound env of
        Some e \<Rightarrow> (Inl e, rl)
      | None \<Rightarrow>
          andThen (hop_fetch env recipient
              (GetArchiveRead ((''identity'', recipient) # map (\<lambda>i. (''id'', i)) ids)) rl)
            (\<lambda>a rl. (hub_rows_of env a, rl)))"

definition tell_hub :: "relay_env \<Rightarrow> string \<Rightarrow> done_rec list \<Rightarrow> relay \<Rightarrow> (string, unit, relay) outcome" where
  "tell_hub env recipient ds rl =
     (case re_hub_unbound env of
        Some e \<Rightarrow> (Inl e, rl)
      | None \<Rightarrow>
          andThen (post_json env recipient
              (PostArchiveDone (Inr \<lparr>db_identity = recipient, db_done = ds\<rparr>)) rl)
            (\<lambda>_ rl. (Inr (), rl)))"

end
