(* ===== verification/Mailbox_Changes.thy ===== *)
theory Mailbox_Changes
  imports Mailbox_Theorems
begin

section \<open>What a call may do to the mailbox's rows\<close>

text \<open>
  The changes of the rows as a step relation: every call on the mailbox, answered or failed part
  way, is a sequence of these. \<open>wanted\<close> says which rows may be inserted, \<open>acks\<close> which ids
  may be acknowledged and \<open>told\<close> which confirmations may come. The hub's proofs are by induction over the sequence, so each is done
  once for all the calls.
\<close>

inductive row_change ::
  "(new_row \<Rightarrow> bool) \<Rightarrow> (string \<Rightarrow> bool) \<Rightarrow> (done_rec \<Rightarrow> bool) \<Rightarrow> mailbox_db \<Rightarrow> mailbox_db \<Rightarrow> bool"
  for wanted :: "new_row \<Rightarrow> bool" and acks :: "string \<Rightarrow> bool" and told :: "done_rec \<Rightarrow> bool" where
  rows_same: "mbrows db' = mbrows db \<Longrightarrow> last_seq db' = last_seq db \<Longrightarrow> row_change wanted acks told db db'"
| rows_renewed: "mbrows db' = renew_rows is now (mbrows db) \<Longrightarrow> last_seq db' = last_seq db \<Longrightarrow>
    row_change wanted acks told db db'"
| rows_acked: "\<forall>i. w i \<longrightarrow> acks i \<Longrightarrow> mbrows db' = ack_rows w now at (mbrows db) \<Longrightarrow>
    last_seq db' = last_seq db \<Longrightarrow>
    row_change wanted acks told db db'"
| row_fresh: "wanted row \<Longrightarrow> \<not> held_id (n_message_id row) (mbrows db) \<Longrightarrow>
    length (n_body row) < 2 ^ 63 \<Longrightarrow>
    mbrows db' = mbrows db @ [fresh_row row now at (Suc (last_seq db))] \<Longrightarrow>
    last_seq db' = Suc (last_seq db) \<Longrightarrow> row_change wanted acks told db db'"
| row_confirmed: "told d \<Longrightarrow> done_ok d \<Longrightarrow> mbrows db' = done_rows d (mbrows db) \<Longrightarrow>
    last_seq db' = last_seq db \<Longrightarrow> row_change wanted acks told db db'"

abbreviation row_changes ::
  "(new_row \<Rightarrow> bool) \<Rightarrow> (string \<Rightarrow> bool) \<Rightarrow> (done_rec \<Rightarrow> bool) \<Rightarrow> mailbox_db \<Rightarrow> mailbox_db \<Rightarrow> bool" where
  "row_changes wanted acks told \<equiv> (row_change wanted acks told)\<^sup>*\<^sup>*"

named_theorems changes_intros

lemma row_change_inv: "row_change wanted acks told db db' \<Longrightarrow> mailbox_inv db \<Longrightarrow> mailbox_inv db'"
proof (induction rule: row_change.induct)
  case (row_fresh row db db' now at)
  then show ?case using fresh_row_ok [of row now at "Suc (last_seq db)"]
    by (auto simp: fresh_row_def held_id_def intro!: rows_ok_append)
qed (simp_all add: renew_rows_ok ack_rows_ok done_rows_ok)

lemma row_changes_inv: "row_changes wanted acks told db db' \<Longrightarrow> mailbox_inv db \<Longrightarrow> mailbox_inv db'"
  by (induction rule: rtranclp_induct) (auto intro: row_change_inv)

lemma changes_same:
  "mbrows db' = mbrows db \<Longrightarrow> last_seq db' = last_seq db \<Longrightarrow> row_changes wanted acks told db db'"
  by (intro r_into_rtranclp rows_same)

lemma changes_spend [simp]: "row_changes wanted acks told db (spend_fault db)"
  by (rule changes_same) simp_all

lemma changes_same_store: "same_store db db' \<Longrightarrow> row_changes wanted acks told db db'"
  by (rule changes_same) (simp_all add: same_storeD)

text \<open>A statement changes the rows as its effect says, or fails and leaves them.\<close>

lemma exec_changes:
  assumes "\<And>db'. w (spend_fault db) = Inr db' \<Longrightarrow> row_changes wanted acks told (spend_fault db) db'"
  shows "row_changes wanted acks told db (snd (exec needs w db))"
proof (cases rule: exec_cases [of needs w db])
  case (failed e)
  then show ?thesis by simp
next
  case (ran db')
  then show ?thesis using rtranclp_trans [OF changes_spend assms] by simp
qed

lemma andThen_changes:
  assumes "row_changes wanted acks told db (snd r)"
    and "\<And>a s. r = (Inr a, s) \<Longrightarrow> row_changes wanted acks told s (snd (k a s))"
  shows "row_changes wanted acks told db (snd (andThen r k))"
  using assms by (cases r; cases "fst r") (auto intro: rtranclp_trans)

subsection \<open>Each call as a sequence of changes\<close>

lemma create_changes: "row_changes wanted acks told db (snd (exec needs (create n) db))"
  by (rule exec_changes) (auto simp: create_def intro: changes_same split: if_splits)

lemma seed_changes: "row_changes wanted acks told db (snd (SEED_COUNTERS db))"
  unfolding SEED_COUNTERS_def by (rule exec_changes) (auto intro!: changes_same split: option.splits)

lemma run_all_changes:
  assumes "\<And>s db. s \<in> set ss \<Longrightarrow> row_changes wanted acks told db (snd (s db))"
  shows "row_changes wanted acks told db (snd (run_all ss db))"
  using assms
proof (induction ss arbitrary: db)
  case (Cons s ss)
  have "row_changes wanted acks told db (snd (andThen (s db) (\<lambda>_. run_all ss)))"
    by (rule andThen_changes) (use Cons in auto)
  then show ?case by simp
qed simp

lemma ensure_schema_changes [changes_intros]: "row_changes wanted acks told db (snd (ensure_schema db))"
  unfolding ensure_schema_def
  by (rule run_all_changes)
     (auto simp: SCHEMA_def CREATE_ROWS_def CREATE_LISTING_INDEX_def CREATE_OWED_INDEX_def
       CREATE_COUNTERS_def CREATE_META_def CREATE_PERMISSIONS_def create_changes seed_changes)

lemma read_changes [changes_intros]:
  "row_changes wanted acks told db (snd (query needs q db))"
  "row_changes wanted acks told db (snd (bind_identity i db))"
  "row_changes wanted acks told db (snd (permissions_copy s m now db))"
  "row_changes wanted acks told db (snd (keep_permissions s m f g now db))"
  "row_changes wanted acks told db (snd (forget_permissions db))"
  "row_changes wanted acks told db (snd (list_mbx m limit bytes db))"
  "row_changes wanted acks told db (snd (held_ids ids db))"
  "row_changes wanted acks told db (snd (archive_rows ids db))"
  by (auto intro: changes_same changes_same_store held_ids_state archive_rows_state)

lemma renew_loop_changes: "row_changes wanted acks told db (snd (renew_loop is now db))"
proof (induction "is" arbitrary: db)
  case (Cons i "is")
  have "row_changes wanted acks told db (snd (andThen (exec [ROWS] (upd_enqueued i now) db) (\<lambda>_. renew_loop is now)))"
    by (intro andThen_changes exec_changes Cons.IH)
       (auto simp: upd_enqueued_eq intro!: r_into_rtranclp intro: rows_renewed)
  then show ?case by simp
qed simp

lemma take_owed_due_changes [changes_intros]: "row_changes wanted acks told db (snd (take_owed_due now db))"
  unfolding take_owed_due_def Let_def
  by (intro andThen_changes renew_loop_changes read_changes) simp

text \<open>One id of an acknowledgment: its row is read, and marked with the counters when it is live.\<close>

lemma mark_changes:
  assumes "mailbox_inv db" and "r \<in> set (mbrows db)" and "r_message_id r = i" and "r_state r = live"
    and "acks i" and "\<And>db'. mailbox_inv db' \<Longrightarrow> row_changes wanted acks told db' (snd (k db'))"
  shows "row_changes wanted acks told db (snd (andThen (exec [ROWS] (upd_ack i now at) db) (\<lambda>_ db.
      andThen (exec [COUNTERS] (move_counters a c) db) (\<lambda>_ db. k db))))"
proof (rule andThen_changes)
  have d: "distinct (map r_message_id (mbrows (spend_fault db)))" using rows_okD(1) [OF assms(1)] by simp
  have "live_id i (mbrows (spend_fault db))" using assms(2-4) by (auto simp: live_id_def)
  note upd = upd_ack_eq [OF d this, of now at]
  show marked: "row_changes wanted acks told db (snd (exec [ROWS] (upd_ack i now at) db))"
  proof (rule exec_changes)
    fix db' assume "upd_ack i now at (spend_fault db) = Inr db'"
    with upd assms(5) have "row_change wanted acks told (spend_fault db) db'"
      by (intro rows_acked [where w = "\<lambda>j. j = i" and now = now and at = at]) auto
    then show "row_changes wanted acks told (spend_fault db) db'" by (rule r_into_rtranclp)
  qed
  fix u db1 assume "exec [ROWS] (upd_ack i now at) db = (Inr u, db1)"
  with row_changes_inv [OF marked assms(1)] have inv1: "mailbox_inv db1" by simp
  show "row_changes wanted acks told db1
      (snd (andThen (exec [COUNTERS] (move_counters a c) db1) (\<lambda>_ db. k db)))"
  proof (rule andThen_changes)
    show moved: "row_changes wanted acks told db1 (snd (exec [COUNTERS] (move_counters a c) db1))"
      by (rule exec_changes) (auto simp: move_counters_def intro: changes_same)
    fix v db2 assume "exec [COUNTERS] (move_counters a c) db1 = (Inr v, db2)"
    with row_changes_inv [OF moved inv1] show "row_changes wanted acks told db2 (snd (k db2))"
      by (simp add: assms(6))
  qed
qed

lemma ack_loop_changes:
  "mailbox_inv db \<Longrightarrow> list_all acks ids \<Longrightarrow> row_changes wanted acks told db (snd (ack_loop ids retry now at seen out db))"
proof (induction ids arbitrary: retry seen out db)
  case (Cons i ids)
  show ?case
  proof (cases "i \<in> seen")
    case True
    with Cons show ?thesis by simp
  next
    case new: False
    show ?thesis
    proof (cases rule: query_cases [of "[ROWS]" "sel_state_bytes i" db])
      case (failed e)
      with new show ?thesis by simp
    next
      case ran
      have inv1: "mailbox_inv (spend_fault db)" and i: "acks i" and rest: "list_all acks ids"
        using Cons.prems by simp_all
      from inv1 have "distinct (map r_message_id (mbrows (spend_fault db)))" by (rule rows_okD)
      then show ?thesis
      proof (cases rule: sel_state_bytes_cases [where i = i])
        case absent
        with ran new show ?thesis by (simp add: rtranclp_trans [OF changes_spend Cons.IH [OF inv1 rest]])
      next
        case (held r)
        have "row_changes wanted acks told (spend_fault db) (snd (ack_loop (i # ids) retry now at seen out db))"
        proof (cases "r_state r = live")
          case True
          with held ran new show ?thesis
            by (simp add: mark_changes [OF inv1 held(2,3) True i Cons.IH [OF _ rest]])
        next
          case False
          with held ran new show ?thesis by (simp add: Cons.IH [OF inv1 rest])
        qed
        then show ?thesis by (rule rtranclp_trans [OF changes_spend])
      qed
    qed
  qed
qed simp

lemma acknowledge_changes [changes_intros]:
  "mailbox_inv db \<Longrightarrow> list_all acks ids \<Longrightarrow> row_changes wanted acks told db (snd (acknowledge st ids retry now db))"
  by (simp add: acknowledge_def ack_loop_changes)

lemma done_loop_changes:
  "mailbox_inv db \<Longrightarrow> list_all done_ok ds \<Longrightarrow> list_all told ds \<Longrightarrow>
   row_changes wanted acks told db (snd (done_loop ds n db))"
proof (induction ds arbitrary: n db)
  case (Cons d ds)
  from Cons.prems(2) have "done_ok d" by simp
  with Cons.prems(1) show ?case
  proof (cases rule: done_loop_step [where ds = ds and n = n])
    case (failed e db')
    then show ?thesis by (simp add: changes_same_store del: done_loop.simps)
  next
    case (goes m db')
    have step: "row_change wanted acks told db db'"
      using goes Cons.prems by (intro row_confirmed [where d = d]) simp_all
    have "row_changes wanted acks told db' (snd (done_loop ds m db'))"
      using Cons.prems row_change_inv [OF step] by (intro Cons.IH) simp_all
    with step goes(4) show ?thesis by (simp add: converse_rtranclp_into_rtranclp del: done_loop.simps)
  qed
qed simp

lemma archive_done_changes [changes_intros]:
  "mailbox_inv db \<Longrightarrow> list_all done_ok ds \<Longrightarrow> list_all told ds \<Longrightarrow>
   row_changes wanted acks told db (snd (archive_done ds db))"
  by (simp add: archive_done_def done_loop_changes)

lemma insert_under_bound_changes:
  assumes "bound_bytes b < 2 ^ 63" and "wanted row"
  shows "row_changes wanted acks told db (snd (insert_under_bound st row now b nr nb db))"
proof (cases "bound_rows b \<le> nr \<or> bound_bytes b < saturating_add nb (length (n_body row))")
  case True
  then show ?thesis by (auto simp: insert_under_bound_def Let_def)
next
  case False
  then have small: "length (n_body row) < 2 ^ 63"
    using assms(1) by (auto simp: saturating_add_def u64_max_def min_def split: if_splits)
  have ins: "row_changes wanted acks told (spend_fault s) s'"
    if "ins_row row (i64_of_u64 (length (n_body row))) (i64_of_u64 now) (st now) (spend_fault s) = Inr s'" for s s'
    using that small assms(2)
    by (intro r_into_rtranclp row_fresh [where row = row and now = "i64_of_u64 now" and at = "st now"])
       (auto simp: ins_row_def fresh_row_def held_id_def split: if_splits)
  have "row_changes wanted acks told db (snd (andThen (exec [ROWS] (ins_row row (i64_of_u64 (length (n_body row)))
            (i64_of_u64 now) (st now)) db)
          (\<lambda>_ db. andThen (exec [COUNTERS] (move_counters 1 (i64_of_u64 (length (n_body row)))) db)
            (\<lambda>_ db. (Inr Stored, db)))))"
    by (intro andThen_changes exec_changes)
       (auto simp: move_counters_def intro: changes_same dest: ins)
  with False show ?thesis by (simp add: insert_under_bound_def Let_def)
qed

lemma insert_changes [changes_intros]:
  assumes "bound_bytes b < 2 ^ 63" and "wanted row"
  shows "row_changes wanted acks told db (snd (insert_mbx st row retry now b db))"
  unfolding insert_mbx_def
proof (rule andThen_changes)
  fix held s
  have "row_changes wanted acks told s (snd (andThen (counters s) (\<lambda>(rows_held, bytes_held) db.
          insert_under_bound st row now b rows_held bytes_held db)))"
    by (rule andThen_changes) (use assms in \<open>auto intro: insert_under_bound_changes\<close>)
  then show "row_changes wanted acks told s (snd (case held of
      h # _ \<Rightarrow>
         (let ours = (val_text (h ! 0) = Some (n_sender row) \<and>
                      val_text (h ! 1) = Some (n_message_box row) \<and>
                      val_text (h ! 2) = Some (n_body row))
          in (Inr (if retry \<and> ours then Retried else Duplicate), s))
     | [] \<Rightarrow> andThen (counters s) (\<lambda>(rows_held, bytes_held) db.
           insert_under_bound st row now b rows_held bytes_held db)))"
    by (simp split: list.split)
qed simp

end
