(* ===== verification/Mailbox_Hub_Props.thy ===== *)
theory Mailbox_Hub_Props
  imports Mailbox_Hub Mailbox_Changes Archive_Theorems
begin

section \<open>The hub: what every request keeps\<close>

text \<open>
  The interface \<open>hub_parts\<close> says what a property of the relay must survive, one assumption for each
  kind of thing a handler does: a change of its own rows, a message handed to the queue, a read
  of D1, the legacy acknowledgment. Its theorem is that every request of the hub, whatever fails
  in it, keeps such a property. The frame (a hub touches no other hub) and the relay's invariant
  are its interpretations.
\<close>

subsection \<open>D1 as the hub uses it\<close>

lemma context_loop_tables:
  "context_loop n (d1_read k q) e db = (r, db') \<Longrightarrow> tables db' = tables db"
proof (induction n arbitrary: e db)
  case (Suc n)
  obtain r1 db1 where one: "d1_read k q db = (r1, db1)" by (cases "d1_read k q db")
  then show ?case by (cases rule: d1_read_cases) (use Suc one in auto)
qed simp

lemma read_send_context_tables: "read_send_context w s m db = (r, db') \<Longrightarrow> tables db' = tables db"
  by (simp add: read_send_context_def context_loop_tables)

lemma find_box_tables: "find_message_box w m db = (r, db') \<Longrightarrow> tables db' = tables db"
  unfolding find_message_box_def by (rule bounded_read_tables)

lemma list_messages_tables:
  assumes "list_messages w m db = (r, db')"
  shows "tables db' = tables db"
proof -
  obtain found db1 where f: "find_message_box w m db = (found, db1)" by (cases "find_message_box w m db")
  note t = find_box_tables [OF f]
  with assms f show ?thesis
    by (auto simp: list_messages_def andThen_def split: sum.splits option.splits
        dest!: bounded_read_tables(1))
qed

lemma live_loop_reads:
  "live_loop w cs found db = (r, db') \<Longrightarrow> tables db' = tables db \<and>
   (case r of Inr lids \<Rightarrow> set lids = set found \<union> {i \<in> (\<Union>c\<in>set cs. set c).
       \<exists>m\<in>set (d_messages db). dm_message_id m = i \<and> dm_recipient m = w \<and> dm_acknowledged_at m = None}
    | Inl e \<Rightarrow> True)"
proof (induction cs arbitrary: found db)
  case Nil
  then show ?case by auto
next
  case (Cons c cs)
  show ?case
  proof (cases "c = []")
    case True
    with Cons.IH [of found db] Cons.prems show ?thesis by (simp split: sum.splits)
  next
    case False
    obtain r1 db1 where one: "with_d1_bounded_read (d1_read (1 + length c) (live_message_ids_sql w c)) db = (r1, db1)"
      by (cases "with_d1_bounded_read (d1_read (1 + length c) (live_message_ids_sql w c)) db")
    note reads = bounded_read_tables [OF one]
    show ?thesis
    proof (cases r1)
      case (Inl e)
      with Cons.prems False one reads show ?thesis by auto
    next
      case (Inr rows)
      with Cons.prems False one have rest: "live_loop w cs (found @ rows) db1 = (r, db')" by simp
      from Cons.IH [OF rest] reads(1) tables_fields(1) [OF reads(1)] reads(2) [OF Inr]
      show ?thesis by (auto simp: live_message_ids_sql_def split: sum.splits)
    qed
  qed
qed

lemma live_message_ids_reads:
  assumes "live_message_ids w ids db = (r, db')"
  shows "tables db' = tables db"
    and "r = Inr lids \<Longrightarrow> set lids = {i \<in> set ids.
       \<exists>m\<in>set (d_messages db). dm_message_id m = i \<and> dm_recipient m = w \<and> dm_acknowledged_at m = None}"
  using live_loop_reads [OF assms [unfolded live_message_ids_def]] set_chunks [of 90 ids] by auto

subsection \<open>One hub's database in the relay\<close>

definition put_hub :: "string \<Rightarrow> mailbox_db \<Rightarrow> relay \<Rightarrow> relay" where
  "put_hub self db rl = rl\<lparr>rl_hubs := (rl_hubs rl)(self := (rl_hubs rl self)\<lparr>hub_db := db\<rparr>)\<rparr>"

abbreviation db_of :: "string \<Rightarrow> relay \<Rightarrow> mailbox_db" where
  "db_of self rl \<equiv> hub_db (rl_hubs rl self)"

lemma put_hub_simps [simp]:
  "db_of self (put_hub self db rl) = db" "put_hub self db' (put_hub self db rl) = put_hub self db' rl"
  "put_hub self (db_of self rl) rl = rl"
  "m \<noteq> self \<Longrightarrow> rl_hubs (put_hub self db rl) m = rl_hubs rl m"
  "rl_d1 (put_hub self db rl) = rl_d1 rl" "rl_queue (put_hub self db rl) = rl_queue rl"
  "rl_sends (put_hub self db rl) = rl_sends rl" "rl_hops (put_hub self db rl) = rl_hops rl"
  "rl_inflight (put_hub self db rl) = rl_inflight rl" "rl_now (put_hub self db rl) = rl_now rl"
  by (simp_all add: put_hub_def)

lemma on_hub_eq: "on_hub self op rl = (fst (op (db_of self rl)), put_hub self (snd (op (db_of self rl))) rl)"
  by (simp add: on_hub_def put_hub_def Let_def split: prod.split)

lemma on_hub_Inr: "on_hub self op rl = (Inr a, rl') \<longleftrightarrow>
    (\<exists>db'. op (db_of self rl) = (Inr a, db') \<and> rl' = put_hub self db' rl)"
  by (cases "op (db_of self rl)") (auto simp: on_hub_eq)

lemma set_ready_simps [simp]:
  "db_of m (set_ready self rl) = db_of m rl" "rl_d1 (set_ready self rl) = rl_d1 rl"
  "rl_queue (set_ready self rl) = rl_queue rl" "rl_inflight (set_ready self rl) = rl_inflight rl"
  "rl_hops (set_ready self rl) = rl_hops rl" "rl_now (set_ready self rl) = rl_now rl"
  "m \<noteq> self \<Longrightarrow> rl_hubs (set_ready self rl) m = rl_hubs rl m"
  by (simp_all add: set_ready_def)

lemma or_answer_simps [simp]:
  "or_answer (Inl e, rl) f k = (Inr (f e), rl)" "or_answer (Inr a, rl) f k = k a rl"
  by (simp_all add: or_answer_def)

lemma or_answer_state:
  assumes "P (snd r)" and "\<And>a s. r = (Inr a, s) \<Longrightarrow> P s \<Longrightarrow> P (snd (k a s))"
  shows "P (snd (or_answer r f k))"
  using assms by (cases r; cases "fst r") auto

lemma archived_view_renew: "archived_view ` set (renew_rows is now rs) = archived_view ` set rs"
proof -
  have "map archived_view (renew_rows is now rs) = map archived_view rs"
    by (simp add: renew_rows_def update_where_def archived_view_def archive_row_columns_def)
  then show ?thesis by (metis set_map)
qed

subsection \<open>The requests a hub may be asked\<close>

fun fits ::
  "(new_row \<Rightarrow> bool) \<Rightarrow> (string \<Rightarrow> bool) \<Rightarrow> (done_rec \<Rightarrow> bool) \<Rightarrow> (string \<Rightarrow> bool) \<Rightarrow> hub_request \<Rightarrow> bool" where
  "fits wanted acks told named (PostInsert (Inr b)) = (wanted (ib_row b) \<and> named (ib_identity b))"
| "fits wanted acks told named (PostAck (Inr b)) =
     (named (ab_identity b) \<and> list_all acks (ab_message_ids b))"
| "fits wanted acks told named (PostList (Inr b)) = named (lb_identity b)"
| "fits wanted acks told named (PostArchiveDone (Inr b)) = list_all (\<lambda>d. done_ok d \<and> told d) (db_done b)"
| "fits wanted acks told named _ = True"

text \<open>The laws of every request but an acknowledgment.\<close>

locale hub_seat =
  fixes env :: relay_env and self :: string and P :: "relay \<Rightarrow> bool"
    and wanted :: "new_row \<Rightarrow> bool" and acks :: "string \<Rightarrow> bool" and told :: "done_rec \<Rightarrow> bool" and named :: "string \<Rightarrow> bool"
  assumes P_inv: "P rl \<Longrightarrow> mailbox_inv (db_of self rl)"
    and P_row: "P rl \<Longrightarrow> row_change wanted acks told (db_of self rl) db \<Longrightarrow> P (put_hub self db rl)"
    and P_ready: "P rl \<Longrightarrow> P (set_ready self rl)"
    and P_sends: "P rl \<Longrightarrow> P (rl\<lparr>rl_sends := ss\<rparr>)"
    and P_queue: "P rl \<Longrightarrow> named i \<Longrightarrow> r \<in> archived_view ` set (mbrows (db_of self rl)) \<Longrightarrow>
      re_to_value env (archive_message (re_json_len env) r i) = Inr js \<Longrightarrow>
      P (rl\<lparr>rl_queue := rl_queue rl @ [js]\<rparr>)"
    and P_read: "P rl \<Longrightarrow> tables d = tables (rl_d1 rl) \<Longrightarrow> P (rl\<lparr>rl_d1 := d\<rparr>)"
begin

lemma rows_P:
  assumes "row_changes wanted acks told (db_of self rl) db" and "P rl"
  shows "P (put_hub self db rl)"
  using assms by (induction rule: rtranclp_induct) (auto dest: P_row)

lemma on_hub_P:
  assumes "P rl" and "row_changes wanted acks told (db_of self rl) (snd (op (db_of self rl)))"
  shows "P (snd (on_hub self op rl))"
  using rows_P [OF assms(2,1)] by (simp add: on_hub_eq)

lemma on_d1_read_P:
  assumes "P rl" and "\<And>r db'. op (rl_d1 rl) = (r, db') \<Longrightarrow> tables db' = tables (rl_d1 rl)"
  shows "P (snd (on_d1 op rl))"
  using assms by (auto simp: on_d1_def Let_def split: prod.split intro: P_read)

lemma enqueue_one_P:
  assumes "P rl" and "named i" and "r \<in> archived_view ` set (mbrows (db_of self rl))"
  shows "P (enqueue_one env (archive_message (re_json_len env) r i) rl)"
proof (cases "re_to_value env (archive_message (re_json_len env) r i)")
  case (Inr js)
  have "P (rl\<lparr>rl_sends := tl (rl_sends rl)\<rparr>)" by (rule P_sends [OF assms(1)])
  from this P_queue [OF this assms(2) _ Inr] assms(3) Inr show ?thesis
    by (auto simp: enqueue_one_def Let_def split: list.split option.split)
qed (simp add: enqueue_one_def assms(1))

lemma enqueue_one_hubs [simp]: "rl_hubs (enqueue_one env m rl) = rl_hubs rl"
  by (auto simp: enqueue_one_def Let_def split: sum.split list.split option.split)

lemma enqueue_fold_P:
  assumes "P rl" and "named i" and "set rows \<subseteq> archived_view ` set (mbrows (db_of self rl))"
  shows "P (fold (enqueue_one env) (map (\<lambda>r. archive_message (re_json_len env) r i) rows) rl)"
  using assms(1,3)
proof (induction rows arbitrary: rl)
  case (Cons r rows)
  then show ?case using enqueue_one_P [OF _ assms(2), of rl r] by simp
qed simp

lemma enqueue_after_P:
  assumes "P rl" and "named i" and "set rows \<subseteq> archived_view ` set (mbrows (db_of self rl))"
  shows "P (enqueue_after env i rows rl)"
  using enqueue_fold_P [OF assms] assms(1)
  by (auto simp: enqueue_after_def enqueue_def split: option.split)

lemma replay_P:
  assumes "P rl" and "named i"
  shows "P (replay env self i rl)"
proof -
  have taken: "P (put_hub self (snd (take_owed_due (rl_now rl) (db_of self rl))) rl)"
    by (rule rows_P [OF take_owed_due_changes assms(1)])
  show ?thesis
  proof (cases "take_owed_due (rl_now rl) (db_of self rl)")
    case (Pair r db')
    with taken assms(2) show ?thesis
    proof (cases r)
      case (Inr rows)
      have "set rows \<subseteq> archived_view ` set (mbrows db')"
        using take_owed_due_effect [OF Pair [unfolded Inr]] due_rows_due
        by (auto simp: archived_view_renew archived_view_def [symmetric])
      with taken Pair Inr assms(2) show ?thesis by (simp add: replay_def on_hub_eq enqueue_after_P)
    qed (simp add: replay_def on_hub_eq)
  qed
qed

lemma enqueue_ids_P:
  assumes "P rl" and "named i"
  shows "P (enqueue_ids env self i ids rl)"
proof (cases "archive_rows ids (db_of self rl)")
  case (Pair r db')
  have read: "P (put_hub self db' rl)"
    using rows_P [OF read_changes(8) assms(1), of ids] Pair by simp
  show ?thesis
  proof (cases r)
    case (Inr rows)
    have "set rows \<subseteq> archived_view ` set (mbrows db')"
      using archive_rows_Inr [OF Pair [unfolded Inr]] by (auto simp: same_storeD)
    with read Pair Inr assms(2) show ?thesis by (simp add: enqueue_ids_def on_hub_eq enqueue_after_P)
  qed (use read Pair in \<open>simp add: enqueue_ids_def on_hub_eq\<close>)
qed

lemma ready_hub_P:
  assumes "P rl"
  shows "P (snd (ready_hub self i rl))"
proof -
  have "P (snd (if schema_ready (rl_hubs rl self) then (Inr (), rl)
      else andThen (on_hub self ensure_schema rl) (\<lambda>_ rl. (Inr (), set_ready self rl))))"
    using assms by (auto intro!: andThen_state [where P = P] on_hub_P ensure_schema_changes P_ready)
  then show ?thesis unfolding ready_hub_def
    by (rule andThen_state [where P = P]) (intro on_hub_P read_changes)
qed

lemma has_mailbox_P: "P rl \<Longrightarrow> P (snd (has_mailbox self rl))"
  using on_hub_P [of rl "query [] sel_master"] read_changes(1)
  by (auto simp: has_mailbox_def split: prod.split sum.split)

lemma with_d1_P: "P rl \<Longrightarrow> (P rl \<Longrightarrow> P (snd (k rl))) \<Longrightarrow> P (snd (with_d1 env k rl))"
  by (simp add: with_d1_def split: option.split)

lemma handle_context_P: "P rl \<Longrightarrow> P (snd (handle_context env self req rl))"
  unfolding handle_context_def
  by (cases req)
     (auto intro!: or_answer_state [where P = P] ready_hub_P on_hub_P read_changes with_d1_P
       on_d1_read_P read_send_context_tables split: option.split)

lemma handle_insert_P:
  assumes "P rl" and "fits wanted acks told named (PostInsert req)"
  shows "P (snd (handle_insert env self req rl))"
proof (cases req)
  case (Inr b)
  then have b: "wanted (ib_row b)" "named (ib_identity b)" using assms(2) by simp_all
  have ins: "P (snd (on_hub self (insert_mbx (re_time env) (ib_row b) (ib_retry b) now RULED) s))"
    if "P s" for s now
    using that b(1) by (intro on_hub_P insert_changes RULED_small)
  show ?thesis unfolding handle_insert_def Inr sum.case Let_def
    by (intro or_answer_state [where P = P] ready_hub_P assms(1) ins replay_P b(2))
       (auto simp: insert_answers_def intro: enqueue_ids_P b(2) split: inserted.split)
qed (simp add: handle_insert_def assms(1))

lemma list_against_P: "P rl \<Longrightarrow> P (snd (list_against env self b rows rl))"
  unfolding list_against_def by (intro or_answer_state [where P = P] on_hub_P read_changes) simp_all

lemma list_merged_P: "P rl \<Longrightarrow> P (snd (list_merged env self b rows rl))"
  unfolding list_merged_def
  by (intro with_d1_P or_answer_state [where P = P] on_hub_P read_changes on_d1_read_P list_messages_tables)
     simp_all

lemma when_has_P:
  assumes "P (snd x)" and "\<And>s. P s \<Longrightarrow> P (snd (yes s))" and "\<And>s. P s \<Longrightarrow> P (snd (no s))"
  shows "P (snd (let (has, s) = x in if \<not> has then no s else yes s))"
  using assms by (auto split: prod.split)

lemma legacy_or_has_P: "P rl \<Longrightarrow> P (snd (if legacy then (True, rl) else has_mailbox self rl))"
  using has_mailbox_P by auto

lemma handle_list_P:
  assumes "P rl" and "fits wanted acks told named (PostList req)"
  shows "P (snd (handle_list env self req rl))"
proof (cases req)
  case (Inr b)
  then have b: "named (lb_identity b)" using assms(2) by simp
  show ?thesis unfolding handle_list_def Inr sum.case
    by (intro when_has_P legacy_or_has_P assms(1) or_answer_state [where P = P] ready_hub_P)
       (auto simp: Let_def intro!: or_answer_state [where P = P] on_hub_P read_changes replay_P b
          list_against_P list_merged_P)
qed (simp add: handle_list_def assms(1))

lemma handle_forget_P: "P rl \<Longrightarrow> P (snd (handle_permissions_forget self req rl))"
  unfolding handle_permissions_forget_def
  by (cases req) (auto intro!: or_answer_state [where P = P] ready_hub_P on_hub_P read_changes)

lemma handle_archive_read_P: "P rl \<Longrightarrow> P (snd (handle_archive_read self pairs rl))"
  unfolding handle_archive_read_def
  by (rule when_has_P [OF has_mailbox_P])
     (auto intro!: or_answer_state [where P = P] ready_hub_P on_hub_P read_changes)

lemma handle_archive_done_P:
  assumes "P rl" and "fits wanted acks told named (PostArchiveDone req)"
  shows "P (snd (handle_archive_done self req rl))"
proof (cases req)
  case (Inr b)
  have tell: "P (snd (on_hub self (archive_done (db_done b)) s))" if "P s" for s
    using that assms(2) P_inv [OF that] unfolding Inr
    by (intro on_hub_P archive_done_changes) (auto simp: list_all_iff)
  show ?thesis unfolding handle_archive_done_def Inr sum.case
    by (rule when_has_P [OF has_mailbox_P])
       (auto intro!: or_answer_state [where P = P] ready_hub_P tell assms(1))
qed (simp add: handle_archive_done_def assms(1))

lemma hub_fetch_quiet_P:
  assumes "P rl" and "fits wanted acks told named req" and "\<And>b. req \<noteq> PostAck b"
  shows "P (snd (hub_fetch env self req rl))"
  using assms
  by (cases req) (auto intro: handle_context_P handle_insert_P handle_list_P handle_forget_P
    handle_archive_read_P handle_archive_done_P)

end

text \<open>An acknowledgment may delete rows of D1.\<close>

locale hub_parts = hub_seat +
  assumes P_legacy: "P rl \<Longrightarrow> named i \<Longrightarrow>
      legacy_acknowledge i ids (re_retention env) (rl_d1 rl) = (r', d) \<Longrightarrow> P (rl\<lparr>rl_d1 := d\<rparr>)"
begin

lemma handle_ack_P:
  assumes "P rl" and "fits wanted acks told named (PostAck req)"
  shows "P (snd (handle_ack env self req rl))"
proof (cases req)
  case (Inr b)
  then have b: "named (ab_identity b)" and ids: "list_all acks (ab_message_ids b)" using assms(2) by simp_all
  have ack: "P (snd (on_hub self (acknowledge (re_time env) (ab_message_ids b) retry now) s))" if "P s" for s retry now
    using that ids by (intro on_hub_P acknowledge_changes P_inv)
  have legacy: "P (snd (on_d1 (legacy_acknowledge (ab_identity b) ids (re_retention env)) s))"
    if "P s" for s ids
    using that b by (auto simp: on_d1_def Let_def split: prod.split intro: P_legacy)
  have past: "P (snd (ack_rest env self b a s))" if "P s" for s a
    using enqueue_ids_P [OF that b, of "a_acknowledged a"]
    by (auto simp: ack_rest_def Let_def intro!: with_d1_P or_answer_state [where P = P] legacy)
  show ?thesis unfolding handle_ack_def Inr sum.case
    by (intro when_has_P legacy_or_has_P assms(1) or_answer_state [where P = P] ready_hub_P)
       (auto simp: Let_def intro!: or_answer_state [where P = P] ack replay_P b past)
qed (simp add: handle_ack_def assms(1))

theorem hub_fetch_P:
  assumes "P rl" and "fits wanted acks told named req"
  shows "P (snd (hub_fetch env self req rl))"
proof (cases "\<exists>b. req = PostAck b")
  case True
  with assms handle_ack_P show ?thesis by auto
next
  case False
  with assms show ?thesis by (intro hub_fetch_quiet_P) auto
qed

end

end
