(* ===== verification/Relay_D1.thy ===== *)
theory Relay_D1
  imports Mailbox_Hub_Props
begin

section \<open>D1 under the relay: whose a row is, and when it is closed\<close>

text \<open>
  What the relay's D1 keeps through every statement the mailbox's paths run: each id belongs to
  one recipient, a row at an acknowledged version is marked acknowledged, and a row once marked
  stays marked. The legacy acknowledgment, which deletes rows, deletes live ones only.
\<close>

definition row_closed :: "string \<Rightarrow> d1_db \<Rightarrow> bool" where
  "row_closed i db \<longleftrightarrow> (\<exists>m. row_of i db = Some m \<and> dm_acknowledged_at m \<noteq> None)"

text \<open>
  \<open>owner\<close> names the one recipient of some ids; an id it leaves out may go to anybody.
\<close>

definition belongs :: "(string \<rightharpoonup> string) \<Rightarrow> string \<Rightarrow> string \<Rightarrow> bool" where
  "belongs owner i n \<longleftrightarrow> owner i = None \<or> owner i = Some n"

lemma belongs_empty [simp]: "belongs Map.empty i n"
  by (simp add: belongs_def)

definition row_fits :: "(string \<rightharpoonup> string) \<Rightarrow> d1_message \<Rightarrow> bool" where
  "row_fits owner m \<longleftrightarrow>
     belongs owner (dm_message_id m) (dm_recipient m) \<and> (2 \<le> dm_version m \<longrightarrow> dm_acknowledged_at m \<noteq> None)"

definition d1_ok :: "(string \<rightharpoonup> string) \<Rightarrow> d1_db \<Rightarrow> bool" where
  "d1_ok owner db \<longleftrightarrow> table_ok db \<and> (\<forall>i m. row_of i db = Some m \<longrightarrow> row_fits owner m)"

definition still_closed :: "d1_db \<Rightarrow> d1_db \<Rightarrow> bool" where
  "still_closed db db' \<longleftrightarrow> (\<forall>i. row_closed i db \<longrightarrow> row_closed i db')"

lemma still_closed_refl [simp]: "still_closed db db"
  by (simp add: still_closed_def)

lemma still_closed_trans: "still_closed a b \<Longrightarrow> still_closed b c \<Longrightarrow> still_closed a c"
  by (simp add: still_closed_def)

lemma advanced_closed: "advanced db db' \<Longrightarrow> still_closed db db'"
  unfolding still_closed_def row_closed_def by (fastforce dest: advancedD simp: row_advances_def)

lemma same_rows_kept:
  assumes "d_messages db' = d_messages db"
  shows "row_closed i db' = row_closed i db" and "d1_ok owner db' = d1_ok owner db"
    and "still_closed db db'"
  using assms
  by (simp_all add: row_closed_def row_of_def d1_ok_def table_ok_def ids_distinct_def still_closed_def)

lemmas tables_kept = same_rows_kept [OF tables_fields(1)]

lemma d1_ok_append:
  assumes "d1_ok owner db" and "dm_message_id row \<notin> dm_message_id ` set (d_messages db)"
    and "d_messages db' = d_messages db @ [row]" and "row_fits owner row"
    and "0 \<le> dm_version row" and "dm_version row \<le> 2 ^ 53"
  shows "d1_ok owner db'" and "still_closed db db'"
  using assms
  by (auto simp: d1_ok_def table_ok_def ids_distinct_def row_of_def find_append_one still_closed_def
      row_closed_def split: option.splits if_splits)

subsection \<open>The sends that write D1\<close>

lemma insert_message_keeps:
  assumes "insert_message mid bx sender w body key db = (r, db')" and "d1_ok owner db" and "belongs owner mid w"
  shows "d1_ok owner db' \<and> still_closed db db'"
proof -
  let ?row = "message_row mid bx sender w body key (d_now db)"
  from insert_message_outcome [OF assms(1)] consider
      "d_messages db' = d_messages db"
    | "mid \<notin> message_ids db" "d_messages db' = d_messages db @ [?row]" by blast
  then show ?thesis
  proof cases
    case 1
    from same_rows_kept(2,3) [OF 1] assms(2) show ?thesis by blast
  next
    case 2
    have "row_fits owner ?row" "0 \<le> dm_version ?row" "dm_version ?row \<le> 2 ^ 53"
      "dm_message_id ?row \<notin> dm_message_id ` set (d_messages db)"
      using 2(1) assms(3) by (simp_all add: message_ids_def message_row_def row_fits_def)
    with d1_ok_append [OF assms(2) _ 2(2)] show ?thesis by blast
  qed
qed

lemma get_or_create_keeps:
  assumes "get_or_create_message_box w m db = (r, db')"
  shows "d_messages db' = d_messages db"
proof -
  have find: "d_messages s' = d_messages s" if "find_message_box w m s = (x, s')" for s x s'
    using tables_fields(1) [OF find_box_tables [OF that]] .
  have box: "d_messages s' = d_messages s" if "d1_run 2 (INSERT_BOX_SQL w m) s = (x, s')" for s x s'
    using that by (cases rule: d1_run_cases) (auto simp: INSERT_BOX_SQL_def split: if_splits)
  have made: "d_messages s' = d_messages s"
    if "with_d1_write_retry (d1_run 2 (INSERT_BOX_SQL w m)) s = (x, s')" for s x s'
  proof -
    have "case x of Inr (v, b) \<Rightarrow> d_messages s' = d_messages s | Inl e \<Rightarrow> d_messages s' = d_messages s"
      by (rule write_retry_rule [OF _ _ _ that, where R = "\<lambda>_ z. d_messages z = d_messages s"
            and Q = "\<lambda>_ _ z. d_messages z = d_messages s"])
         (use box in \<open>metis+\<close>)
    then show ?thesis by (simp split: sum.splits prod.splits)
  qed
  obtain x s where one: "find_message_box w m db = (x, s)" by (cases "find_message_box w m db")
  obtain y t where two: "with_d1_write_retry (d1_run 2 (INSERT_BOX_SQL w m)) s = (y, t)"
    by (cases "with_d1_write_retry (d1_run 2 (INSERT_BOX_SQL w m)) s")
  obtain z u where three: "find_message_box w m t = (z, u)" by (cases "find_message_box w m t")
  from assms one two three find [OF one] made [OF two] find [OF three] show ?thesis
    by (auto simp: get_or_create_message_box_def andThen_def split: sum.splits option.splits)
qed

subsection \<open>The archive's batches\<close>

definition message_fits :: "(string \<rightharpoonup> string) \<Rightarrow> archive_message_rec \<Rightarrow> bool" where
  "message_fits owner m \<longleftrightarrow> belongs owner (am_message_id m) (am_recipient m) \<and>
     (am_version m = 1 \<and> am_change m = Insert \<or> am_version m = 2 \<and> am_change m = Acknowledge)"

lemma message_fits_versions: "\<forall>m\<in>set batch. message_fits owner m \<Longrightarrow> versions_ok batch"
  by (fastforce simp: versions_ok_def message_fits_def)

lemma message_fits_one: "message_fits owner m \<Longrightarrow> owner (am_message_id m) = Some n \<Longrightarrow> am_recipient m = n"
  by (auto simp: message_fits_def belongs_def)

lemma upserted_fits:
  assumes "message_fits owner m" and "\<And>row. old = Some row \<Longrightarrow> row_fits owner row"
  shows "row_fits owner (upserted (message_ex m bx now) now old)"
proof -
  have v: "version_bind m = int (am_version m)"
    using assms(1) by (intro version_bind_small) (auto simp: message_fits_def)
  have ex: "row_fits owner (message_ex m bx now)"
    using assms(1) v
    by (auto simp: row_fits_def message_fits_def message_ex_def excluded_row_def acknowledged_bind_def)
  show ?thesis
  proof (cases old)
    case None
    with ex show ?thesis by (simp add: upserted_def)
  next
    case (Some row)
    with assms(2) have "row_fits owner row" by simp
    moreover have "row_fits owner (upsert_update (message_ex m bx now) now row)" if "row_fits owner row"
      using ex that by (cases "dm_acknowledged_at row") (simp_all add: row_fits_def upsert_update_def)
    ultimately show ?thesis using Some by (simp add: upserted_def)
  qed
qed

definition rows_fit :: "(string \<rightharpoonup> string) \<Rightarrow> d1_db \<Rightarrow> bool" where
  "rows_fit owner db \<longleftrightarrow> (\<forall>i m. row_of i db = Some m \<longrightarrow> row_fits owner m)"

lemma rows_fit_tables: "tables db = tables db' \<Longrightarrow> rows_fit owner db = rows_fit owner db'"
  using row_of_tables [of db db'] by (simp add: rows_fit_def)

lemma batch_rows_fit:
  "batch_stmt (concat (map statements ms)) db = Inr (ns, db') \<Longrightarrow> rows_fit owner db \<Longrightarrow>
   \<forall>m\<in>set ms. message_fits owner m \<Longrightarrow> rows_fit owner db'"
proof (induction ms arbitrary: db ns)
  case (Cons m ms)
  from Cons.prems have "batch_stmt (statements m @ concat (map statements ms)) db = Inr (ns, db')" by simp
  then obtain n1 db1 n2 where one: "batch_stmt (statements m) db = Inr (n1, db1)"
    and rest: "batch_stmt (concat (map statements ms)) db1 = Inr (n2, db')"
    by (rule batch_append_Inr)
  from one have "rows_fit owner db1"
  proof (rule statements_run)
    fix bx
    assume rows: "\<And>i. row_of i db1 =
      (if i = am_message_id m then Some (upserted (message_ex m bx (d_now db)) (d_now db) (row_of i db))
       else row_of i db)"
    show ?thesis unfolding rows_fit_def
    proof (intro allI impI)
      fix i row assume "row_of i db1 = Some row"
      then show "row_fits owner row"
        using Cons.prems(2,3) upserted_fits [of owner m "row_of i db" bx "d_now db"]
        by (auto simp: rows rows_fit_def split: if_splits)
    qed
  qed
  with Cons.IH [OF rest] Cons.prems(3) show ?case by simp
qed simp

lemma write_batch_rows_fit:
  assumes "rows_fit owner db" and fits: "\<forall>m\<in>set ms. message_fits owner m"
    and "with_d1_write_retry (d1_batch (concat (map statements ms))) db = (r, db')"
  shows "rows_fit owner db'"
proof -
  have step: "rows_fit owner db2"
    if "rows_fit owner db1" "d1_batch (concat (map statements ms)) db1 = (x, db2)" for db1 x db2
  proof -
    have "rows_fit owner (db1\<lparr>d_script := tl (d_script db1)\<rparr>)"
      using that(1) by (simp add: rows_fit_def)
    with that(2) fits show ?thesis unfolding d1_batch_def
      by (cases rule: d1_run_cases) (auto dest: batch_rows_fit)
  qed
  have "case r of Inr (v, b) \<Rightarrow> rows_fit owner db' | Inl e \<Rightarrow> rows_fit owner db'"
    by (rule write_retry_rule [OF _ _ _ assms(3), where R = "\<lambda>_. rows_fit owner" and Q = "\<lambda>_ _. rows_fit owner"])
       (use assms(1) step in blast)+
  then show ?thesis by (simp split: sum.splits prod.splits)
qed

lemma set_applied_subset: "set (applied_messages batch vs) \<subseteq> set batch"
  by (auto simp: applied_messages_def dest: set_zip_leftD)

lemma archive_batch_rows_fit:
  assumes "rows_fit owner db" and fits: "\<forall>m\<in>set batch. message_fits owner m"
    and run: "archive_batch batch db = (r, db')"
  shows "rows_fit owner db'"
proof -
  let ?loop = "held_rows_loop (chunks ARCHIVE_READ_CHUNK (remdups_adj (sort (map am_message_id batch)))) [] db"
  obtain x db1 where read: "?loop = (x, db1)" by (cases ?loop)
  have fit1: "rows_fit owner db1"
    using rows_fit_tables [OF held_rows_loop_tables [OF read]] assms(1) by simp
  show ?thesis
  proof (cases x)
    case (Inl e)
    with run read fit1 show ?thesis by (auto simp: archive_batch_def Let_def)
  next
    case (Inr rows)
    define ap where "ap = applied_messages batch (plan batch (held_map rows))"
    have fits': "\<forall>m\<in>set ap. message_fits owner m"
      using fits set_applied_subset unfolding ap_def by blast
    obtain y db2 where w: "with_d1_write_retry (d1_batch (concat (map statements ap))) db1 = (y, db2)"
      by (cases "with_d1_write_retry (d1_batch (concat (map statements ap))) db1")
    from run read Inr w fit1 write_batch_rows_fit [OF fit1 fits' w] show ?thesis
      by (cases y) (auto simp: archive_batch_def Let_def ap_def split: if_splits)
  qed
qed

lemma archive_batch_keeps:
  assumes "d1_ok owner db" and "\<forall>m\<in>set batch. message_fits owner m"
    and "archive_batch batch db = (r, db')"
  shows "d1_ok owner db'" and "still_closed db db'"
proof -
  have ok: "table_ok db" and fit: "rows_fit owner db" using assms(1) by (simp_all add: d1_ok_def rows_fit_def)
  note out = archive_batch_outcome [OF ok message_fits_versions [OF assms(2)] assms(3)]
  show "d1_ok owner db'" using out(2) archive_batch_rows_fit [OF fit assms(2,3)]
    by (simp add: d1_ok_def rows_fit_def)
  show "still_closed db db'" by (rule advanced_closed [OF out(1)])
qed

text \<open>
  A confirmation of an id with one recipient is no collision, and one of its acknowledgment names a
  closed row.
\<close>

lemma told_closed:
  assumes "d1_ok owner db" and fits: "\<forall>m\<in>set batch. message_fits owner m"
    and "archive_batch batch db = (Inr vs, db')"
    and "(w, ds) \<in> set (done_by_recipient batch vs)" and "d \<in> set ds"
  shows "done_ok d" and "owner (d_message_id d) = Some n \<Longrightarrow> \<not> d_collision d"
    and "owner (d_message_id d) = Some n \<Longrightarrow> 2 \<le> d_version d \<Longrightarrow> row_closed (d_message_id d) db'"
proof -
  have ok: "table_ok db" using assms(1) by (simp add: d1_ok_def)
  note ok' = archive_batch_keeps(1) [OF assms(1-3)]
  obtain i where i: "i < length batch" "w = am_recipient (batch ! i)" "d = done_of (batch ! i) (vs ! i)"
    using done_by_recipient_sound [OF assms(4,5)] by blast
  from i(1) fits have fit: "message_fits owner (batch ! i)" by simp
  show "done_ok d" using fit i(3) by (auto simp: done_ok_def done_of_def message_fits_def)
  have "\<not> d_collision d \<and> (2 \<le> d_version d \<longrightarrow> row_closed (d_message_id d) db')"
    if own: "owner (d_message_id d) = Some n"
  proof -
    have w: "am_recipient m = w" if "m \<in> set batch" "am_message_id m = d_message_id d" for m
      using message_fits_one [of owner m n] message_fits_one [OF fit, of n] fits that own i(2,3)
      by (auto simp: done_of_def)
    obtain row where row: "row_of (d_message_id d) db' = Some row"
      "if d_collision d then dm_recipient row \<noteq> w else dm_recipient row = w \<and> int (d_version d) \<le> dm_version row"
      using told_is_held [OF ok message_fits_versions [OF fits] assms(3) w assms(4,5)] by blast
    have rf: "row_fits owner row" "dm_message_id row = d_message_id d"
      using ok' row(1) row_of_id [OF row(1)] by (auto simp: d1_ok_def)
    then have "dm_recipient row = w"
      using own message_fits_one [OF fit, of n] i(2,3) by (auto simp: row_fits_def belongs_def done_of_def)
    with row(2) have "\<not> d_collision d" "int (d_version d) \<le> dm_version row" by (auto split: if_splits)
    with row(1) rf(1) show ?thesis by (auto simp: row_closed_def row_fits_def)
  qed
  then show "owner (d_message_id d) = Some n \<Longrightarrow> \<not> d_collision d"
    and "owner (d_message_id d) = Some n \<Longrightarrow> 2 \<le> d_version d \<Longrightarrow> row_closed (d_message_id d) db'" by blast+
qed

subsection \<open>The legacy acknowledgment\<close>

lemma find_update_where_other:
  assumes "\<And>m. dm_message_id (f m) = dm_message_id m"
  shows "find (\<lambda>m. dm_message_id m = i) (update_where p f ms) =
    map_option (\<lambda>m. if p m then f m else m) (find (\<lambda>m. dm_message_id m = i) ms)"
  using assms by (induction ms) auto

lemma acked_messages_row:
  assumes "distinct (map dm_message_id (d_messages db))"
  shows "find (\<lambda>m. dm_message_id m = i) (acked_messages w ids c db) =
    (case row_of i db of
       None \<Rightarrow> None
     | Some m \<Rightarrow> if ack_deletes w ids c db m then None
                 else Some (if ack_marks w ids c db m then ack_mark (d_now db) m else m))"
proof -
  have del: "ack_deletes w ids c db (if ack_marks w ids c db m then ack_mark (d_now db) m else m) =
      ack_deletes w ids c db m" for m
    by (auto simp: ack_deletes_def ack_marks_def ack_mark_def in_retained_box_def)
  have "find (\<lambda>m. dm_message_id m = i) (filter (\<lambda>m. \<not> ack_deletes w ids c db m)
        (update_where (ack_marks w ids c db) (ack_mark (d_now db)) ms)) =
      (case find (\<lambda>m. dm_message_id m = i) ms of
         None \<Rightarrow> None
       | Some m \<Rightarrow> if ack_deletes w ids c db m then None
                   else Some (if ack_marks w ids c db m then ack_mark (d_now db) m else m))"
    if "distinct (map dm_message_id ms)" for ms
    using that
  proof (induction ms)
    case (Cons m ms)
    have "find (\<lambda>m. dm_message_id m = i) ms = None" if "dm_message_id m = i"
      using that Cons.prems by (auto simp: find_None image_iff)
    with Cons del [of m] show ?case
      by (auto simp: ack_mark_def split: option.splits if_splits)
  qed simp
  from this [OF assms] show ?thesis by (simp add: acked_messages_def row_of_def)
qed

lemma acked_live_closed:
  assumes ok: "d1_ok owner db" and ids: "\<forall>i\<in>ids. \<forall>m. row_of i db = Some m \<longrightarrow> dm_acknowledged_at m = None"
    and msgs: "d_messages db' = acked_messages w ids c db"
  shows "d1_ok owner db'" and "still_closed db db'"
proof -
  have dist: "distinct (map dm_message_id (d_messages db))"
    using ok by (simp add: d1_ok_def table_ok_def ids_distinct_def)
  have row: "row_of i db' = (case row_of i db of None \<Rightarrow> None
      | Some m \<Rightarrow> if ack_deletes w ids c db m then None
                  else Some (if ack_marks w ids c db m then ack_mark (d_now db) m else m))" for i
    using acked_messages_row [OF dist] msgs by (simp add: row_of_def)
  have "distinct (map dm_message_id (acked_messages w ids c db))"
    unfolding acked_messages_def
    by (rule distinct_map_filter) (simp add: dist map_update_where ack_mark_def)
  moreover have "0 \<le> dm_version m \<and> dm_version m \<le> 2 ^ 53" if "m \<in> set (acked_messages w ids c db)" for m
    using that ok by (auto simp: acked_messages_def update_where_def ack_mark_def d1_ok_def table_ok_def)
  moreover have "row_fits owner m" if r: "row_of i db' = Some m" for i m
  proof -
    obtain m0 where m0: "row_of i db = Some m0"
      "m = (if ack_marks w ids c db m0 then ack_mark (d_now db) m0 else m0)"
      using r by (auto simp: row split: option.splits if_splits)
    then have "row_fits owner m0" using ok by (simp add: d1_ok_def)
    with m0(2) show ?thesis by (simp add: row_fits_def ack_mark_def)
  qed
  ultimately show "d1_ok owner db'" using msgs by (simp add: d1_ok_def table_ok_def ids_distinct_def)
  show "still_closed db db'" unfolding still_closed_def row_closed_def
  proof (intro allI impI)
    fix i assume "\<exists>m. row_of i db = Some m \<and> dm_acknowledged_at m \<noteq> None"
    then obtain m where m: "row_of i db = Some m" "dm_acknowledged_at m \<noteq> None" by blast
    with ids row_of_id [OF m(1)] have "i \<notin> ids" "dm_message_id m = i" by auto
    then have "\<not> ack_deletes w ids c db m" "\<not> ack_marks w ids c db m"
      by (simp_all add: ack_deletes_def ack_marks_def)
    with m row [of i] show "\<exists>m. row_of i db' = Some m \<and> dm_acknowledged_at m \<noteq> None" by simp
  qed
qed

lemma legacy_acknowledge_keeps:
  assumes few: "length (rc_prefixes c) \<le> 98" and ok: "d1_ok owner db"
    and run: "legacy_acknowledge w ids c db = (r, db')"
  shows "d1_ok owner db' \<and> still_closed db db'"
proof -
  obtain x s where one: "live_message_ids w ids db = (x, s)" by (cases "live_message_ids w ids db")
  note t = live_message_ids_reads(1) [OF one]
  have ok1: "d1_ok owner s" "still_closed db s" using tables_kept(2) [OF t] tables_kept(3) [OF t] ok by auto
  have kept: "d1_ok owner db' \<and> still_closed s db'"
    if l: "x = Inr lids" and ack: "acknowledge_messages w lids c s = (r, db')" for lids
  proof -
    have dist: "ids_distinct s" using ok1(1) by (simp add: d1_ok_def table_ok_def)
    have lids: "dm_acknowledged_at m = None" if i: "i \<in> set lids" and row: "row_of i s = Some m" for i m
    proof -
      obtain m' where m': "m' \<in> set (d_messages s)" "dm_message_id m' = i" "dm_acknowledged_at m' = None"
        using live_message_ids_reads(2) [OF one l] i tables_fields(1) [OF t] by auto
      with row_of_distinct [OF dist m'(1)] row show ?thesis by simp
    qed
    from acknowledge_messages_outcome [OF few ack] have
      "d_messages db' = d_messages s \<or> d_messages db' = acked_messages w (set lids) c s"
      by (cases r) (auto simp: acking_def dest!: tables_fields(1))
    then show ?thesis
    proof
      assume "d_messages db' = d_messages s"
      from same_rows_kept(2,3) [OF this] ok1(1) show ?thesis by blast
    next
      assume "d_messages db' = acked_messages w (set lids) c s"
      with lids show ?thesis by (blast intro: acked_live_closed [OF ok1(1)])
    qed
  qed
  show ?thesis
  proof (cases x)
    case (Inl e)
    with run one ok1 show ?thesis by (auto simp: legacy_acknowledge_def)
  next
    case (Inr lids)
    with run one ok1 kept [OF Inr] show ?thesis
      by (auto simp: legacy_acknowledge_def split: if_splits intro: still_closed_trans)
  qed
qed

end
