(* ===== verification/Relay_System.thy ===== *)
theory Relay_System
  imports Relay_D1
begin

section \<open>The relay as one machine: hubs, queue, consumer, D1\<close>

text \<open>
  The components composed: the Worker's calls of the mailbox path (\<open>message_hub_sql.rs\<close>), the
  queue's handler with its hops to the hubs (\<open>archive.rs\<close>), and the world they meet. A call of
  the machine is one of the Worker's operations, a delivery of the queue, a request that was
  given up on and lands late, an eviction of a hub's instance, or new fates: the clocks, and
  the scripts of what fails. Operations are serialised; each is the code's own sequence of steps.

  The queue delivers at least once and in any order: a delivery is any list of messages that
  were ever handed to it, and what the handler marks does not remove one.
\<close>

subsection \<open>The queue's handler, with its hops\<close>

definition fill_group_on ::
  "relay_env \<Rightarrow> nat list \<Rightarrow> fill_state \<times> relay \<Rightarrow> string \<times> nat list \<Rightarrow> fill_state \<times> relay" where
  "fill_group_on env raws s g =
     (let (st, rl) = s; (recipient, idxs) = g;
          ids = map (\<lambda>i. am_message_id (fs_msgs st ! i)) idxs
      in case read_hub_rows env recipient ids rl of
           (Inr rows, rl') \<Rightarrow> (foldl (fill_one raws rows) st idxs, rl')
         | (Inl _, rl') \<Rightarrow> (foldl (retry_one raws) st idxs, rl'))"

definition tell_all :: "relay_env \<Rightarrow> (string \<times> done_rec list) list \<Rightarrow> relay \<Rightarrow> relay" where
  "tell_all env told rl = fold (\<lambda>(recipient, ds) rl. snd (tell_hub env recipient ds rl)) told rl"

definition consume_on ::
  "relay_env \<Rightarrow> (string + json) list \<Rightarrow> relay \<Rightarrow> (nat \<times> disposition) list \<times> relay" where
  "consume_on env batch rl =
     (let (good, malformed) = parse_all (re_from_value env) 0 batch
      in if good = [] then (malformed, rl)
         else
           (let msgs = map snd good;
                (st, rl) = foldl (fill_group_on env (map fst good))
                   (\<lparr>fs_msgs = msgs, fs_keep = replicate (length msgs) True, fs_marks = []\<rparr>, rl)
                   (bodies_in_hub msgs);
                kept = kept_pairs (map fst good) st;
                marks = malformed @ fs_marks st;
                raws = map fst kept;
                msgs = map snd kept
            in if kept = [] then (marks, rl)
               else
                 (case (case re_d1_unbound env of
                          Some e \<Rightarrow> (Inl (OtherError e), rl) | None \<Rightarrow> on_d1 (archive_batch msgs) rl) of
                    (Inr verdicts, rl) \<Rightarrow>
                      (marks @ map (\<lambda>i. (i, MarkAck)) raws,
                       tell_all env (done_by_recipient msgs verdicts) rl)
                  | (Inl e, rl) \<Rightarrow> (marks @ map (\<lambda>i. (i, MarkRetry)) raws, rl))))"

subsection \<open>The machine\<close>

datatype relay_call =
    CallInsert string string string string string "string option"
  | CallContext string string string
  | CallList string string
  | CallDrain string string
  | CallAck string "string list" bool
  | CallLegacyAck string "string list"
  | CallForget string
  | CallConsume "(string + json) list"
  | CallLand string hub_request
  | CallEvict string
  | CallFates ms string "round_trip list" "hop list" "string option list" "string \<Rightarrow> string option list"

datatype relay_reply =
    NoReply
  | RepInserted send_insert
  | RepContext send_context
  | RepListed "message_db_row list"
  | RepAcked nat "string list"
  | RepMarks "(nat \<times> disposition) list"

definition replied ::
  "('a \<Rightarrow> relay_reply) \<Rightarrow> (d1_error, 'a, relay) outcome \<Rightarrow> (d1_error, relay_reply, relay) outcome" where
  "replied f r = andThen r (\<lambda>a rl. (Inr (f a), rl))"

definition delivered :: "(string + json) list \<Rightarrow> relay \<Rightarrow> bool" where
  "delivered batch rl =
     list_all (\<lambda>x. case x of Inl _ \<Rightarrow> True | Inr js \<Rightarrow> js \<in> set (rl_queue rl)) batch"

fun relay_do :: "relay_env \<Rightarrow> relay_call \<Rightarrow> relay \<Rightarrow> (d1_error, relay_reply, relay) outcome" where
  "relay_do env (CallInsert mbox mid sender recipient body key) rl =
     replied RepInserted (insert_message_on_hub env mbox mid sender recipient body key rl)"
| "relay_do env (CallContext recipient sender mbox) rl =
     replied RepContext (read_send_context_on_hub env recipient sender mbox rl)"
| "relay_do env (CallList identity mbox) rl = replied RepListed (list_on_hub env identity mbox rl)"
| "relay_do env (CallDrain identity mbox) rl =
     replied RepListed (andThen (on_d1 (list_messages identity mbox) rl) (drain_list env identity mbox))"
| "relay_do env (CallAck identity ids legacy) rl =
     replied (\<lambda>(n, missing). RepAcked n missing) (ack_on_hub env identity ids legacy rl)"
| "relay_do env (CallLegacyAck identity ids) rl =
     replied (\<lambda>n. RepAcked n []) (on_d1 (legacy_acknowledge identity ids (re_retention env)) rl)"
| "relay_do env (CallForget identity) rl = (Inr NoReply, forget_permissions_on_hub env identity rl)"
| "relay_do env (CallConsume batch) rl =
     (if delivered batch rl
      then (let (marks, rl') = consume_on env batch rl in (Inr (RepMarks marks), rl'))
      else (Inr NoReply, rl))"
| "relay_do env (CallLand name req) rl =
     (if (name, req) \<in> set (rl_inflight rl) then (Inr NoReply, snd (hub_fetch env name req rl))
      else (Inr NoReply, rl))"
| "relay_do env (CallEvict name) rl =
     (Inr NoReply, rl\<lparr>rl_hubs := (rl_hubs rl)(name := (rl_hubs rl name)\<lparr>schema_ready := False\<rparr>)\<rparr>)"
| "relay_do env (CallFates now d1_now script hops sends sql_faults) rl =
     (Inr NoReply, rl\<lparr>rl_now := now, rl_d1 := (rl_d1 rl)\<lparr>d_now := d1_now, d_script := script\<rparr>,
        rl_hops := hops, rl_sends := sends,
        rl_hubs := (\<lambda>n. (rl_hubs rl n)\<lparr>hub_db := (db_of n rl)\<lparr>faults := sql_faults n\<rparr>\<rparr>)\<rparr>)"

subsection \<open>The invariant\<close>

text \<open>
  \<open>owner\<close> names the one recipient of the ids it knows. \<open>C\<close> holds such ids a recipient has acknowledged
  (and that no later insert reopened): such an id is live in no hub, and either its hub still
  holds it, so that a listing hides D1's row, or D1's own row is marked. \<open>K\<close> holds the messages
  a hub was given and nobody acknowledged: each is in its hub's inbox.
\<close>

definition shut :: "d1_db \<Rightarrow> mailbox_db \<Rightarrow> string \<Rightarrow> bool" where
  "shut d1 db i \<longleftrightarrow> \<not> live_id i (mbrows db) \<and> (held_id i (mbrows db) \<or> row_closed i d1)"

definition hub_ok ::
  "(string \<rightharpoonup> string) \<Rightarrow> (string \<times> string) set \<Rightarrow> (string \<times> message) set \<Rightarrow> d1_db \<Rightarrow> string \<Rightarrow>
     mailbox_db \<Rightarrow> bool" where
  "hub_ok owner C K d1 n db \<longleftrightarrow>
     mailbox_inv db \<and> (\<forall>i. held_id i (mbrows db) \<longrightarrow> belongs owner i n) \<and>
     (\<forall>i. (n, i) \<in> C \<longrightarrow> owner i \<noteq> None \<and> shut d1 db i) \<and>
     (\<forall>msg. (n, msg) \<in> K \<longrightarrow> msg \<in> set (inbox db))"

definition told_ok :: "(string \<rightharpoonup> string) \<Rightarrow> d1_db \<Rightarrow> done_rec \<Rightarrow> bool" where
  "told_ok owner d1 d \<longleftrightarrow> owner (d_message_id d) \<noteq> None \<longrightarrow>
     \<not> d_collision d \<and> (2 \<le> d_version d \<longrightarrow> row_closed (d_message_id d) d1)"

definition request_ok :: "(string \<rightharpoonup> string) \<Rightarrow> d1_db \<Rightarrow> string \<Rightarrow> hub_request \<Rightarrow> bool" where
  "request_ok owner d1 n = fits (\<lambda>row. belongs owner (n_message_id row) n) (\<lambda>_. True) (told_ok owner d1) (\<lambda>i. i = n)"

definition relay_inv ::
  "(string \<rightharpoonup> string) \<Rightarrow> (string \<times> string) set \<Rightarrow> (string \<times> message) set \<Rightarrow> relay_env \<Rightarrow> relay \<Rightarrow> bool" where
  "relay_inv owner C K env rl \<longleftrightarrow>
     (\<forall>n. hub_ok owner C K (rl_d1 rl) n (db_of n rl)) \<and> d1_ok owner (rl_d1 rl) \<and>
     (\<forall>js\<in>set (rl_queue rl). \<forall>m. re_from_value env js = Inr m \<longrightarrow> message_fits owner m) \<and>
     (\<forall>(n, req)\<in>set (rl_inflight rl). request_ok owner (rl_d1 rl) n req)"

text \<open>
  What is asked of the calls: an id that \<open>owner\<close> knows goes to its one recipient, a closed id is not
  inserted again, and a kept message is not acknowledged. The first is a restriction the code does
  not make: a client chooses the ids it sends. With \<open>owner\<close> empty there is none.
\<close>

definition spares :: "(string \<times> message) set \<Rightarrow> string \<Rightarrow> string \<Rightarrow> bool" where
  "spares K n i \<longleftrightarrow> (\<forall>msg. (n, msg) \<in> K \<longrightarrow> fst msg \<noteq> i)"

fun relay_call_ok ::
  "(string \<rightharpoonup> string) \<Rightarrow> (string \<times> string) set \<Rightarrow> (string \<times> message) set \<Rightarrow> relay_call \<Rightarrow> bool" where
  "relay_call_ok owner C K (CallInsert mbox mid sender recipient body key) =
     (belongs owner mid recipient \<and> (key = None \<longrightarrow> (recipient, mid) \<notin> C))"
| "relay_call_ok owner C K (CallAck n ids legacy) = list_all (spares K n) ids"
| "relay_call_ok owner C K (CallLand n (PostInsert (Inr b))) = ((n, n_message_id (ib_row b)) \<notin> C)"
| "relay_call_ok owner C K (CallLand n (PostAck (Inr b))) = list_all (spares K n) (ab_message_ids b)"
| "relay_call_ok owner C K _ = True"

text \<open>
  What is asked of the environment: what serde wrote it reads back, and the retention setting
  fits the statements' bound parameters.
\<close>

definition env_ok :: "relay_env \<Rightarrow> bool" where
  "env_ok env \<longleftrightarrow> (\<forall>m js. re_to_value env m = Inr js \<longrightarrow> re_from_value env js = Inr m) \<and>
     length (rc_prefixes (re_retention env)) \<le> 98"

end
