(* ===== verification/Relay_Keeps.thy ===== *)
theory Relay_Keeps
  imports Relay_System
begin

section \<open>Every call of the relay keeps its invariant\<close>

text \<open>
  The relay's invariant through every call: one change of a hub's rows, the handlers (the locale
  \<open>hub_parts\<close> interpreted as \<open>keeping\<close>), the queue consumer with its hops, and then the machine as a
  whole (\<open>kept\<close> interpreted as \<open>relay\<close>). The map \<open>owner\<close> says which ids have one recipient; an id
  outside it may be sent to anybody.
\<close>

subsection \<open>One change of a hub's rows\<close>

lemma live_id_update_same:
  assumes "\<And>r. r_message_id (f r) = r_message_id r" and "\<And>r. r_state (f r) = r_state r"
  shows "live_id i (update_where p f rs) = live_id i rs"
  using assms by (induction rs) (auto simp: live_id_def)

lemma live_held_renew [simp]:
  "live_id i (renew_rows is now rs) = live_id i rs" "held_id i (renew_rows is now rs) = held_id i rs"
  unfolding renew_rows_def by (simp_all add: live_id_update_same held_id_update)

lemma live_held_fresh:
  "live_id i (rs @ [fresh_row row now ts s]) \<longleftrightarrow> live_id i rs \<or> i = n_message_id row"
  "held_id i (rs @ [fresh_row row now ts s]) \<longleftrightarrow> held_id i rs \<or> i = n_message_id row"
  by (auto simp: live_id_def held_id_def fresh_row_def)

lemma live_done_rows: "live_id i (done_rows d rs) = live_id i rs"
proof -
  have "live_id i (done_rows d rs) = live_id i (filter (\<lambda>r. \<not> done_deletes d r) rs)"
    unfolding done_rows_def by (rule live_id_update_same) simp_all
  then show ?thesis by (auto simp: live_id_def done_deletes_def)
qed

lemma held_done_rows:
  assumes "rows_ok rs n" and "held_id i rs" and "\<not> held_id i (done_rows d rs)"
  shows "d_message_id d = i \<and> (d_collision d \<or> 2 \<le> d_version d)"
proof -
  obtain r where r: "r \<in> set rs" "r_message_id r = i" using assms(2) by (auto simp: held_id_def)
  have "done_deletes d r"
  proof (rule ccontr)
    assume "\<not> done_deletes d r"
    with r have "(if r_message_id r = d_message_id d then done_row d r else r) \<in> set (done_rows d rs)"
      by (auto simp: done_rows_def update_where_def)
    with r(2) have "held_id i (done_rows d rs)" unfolding held_id_def by (metis done_row_keeps(1) image_eqI)
    with assms(3) show False by simp
  qed
  moreover have "row_ok r" using assms(1) r(1) by (simp add: rows_okD)
  ultimately show ?thesis using r(2) by (auto simp: done_deletes_def row_ok_def)
qed

lemma held_done_subset: "held_id i (done_rows d rs) \<Longrightarrow> held_id i rs"
  unfolding done_rows_def by (simp add: held_id_update) (auto simp: held_id_def)

text \<open>A message stays in the inbox through every change but its own acknowledgment.\<close>

lemma kept_message:
  assumes "row_change wanted acks told db db'" and "msg \<in> set (inbox db)" and "\<not> acks (fst msg)"
  shows "msg \<in> set (inbox db')"
  using assms(1)
proof cases
  case rows_same
  with assms(2) show ?thesis by (simp add: inbox_def)
next
  case rows_renewed
  with assms(2) show ?thesis by (simp only: inbox_def message_renew)
next
  case (rows_acked w now ts)
  with assms(3) have "\<not> w (fst msg)" by blast
  with assms(2) rows_acked show ?thesis
    by (auto simp: inbox_def live_ack_rows message_of_def)
next
  case (row_fresh row now ts)
  with assms(2) show ?thesis by (auto simp: inbox_def live_rows_def)
next
  case row_confirmed
  with assms(2) show ?thesis by (simp only: inbox_def message_done)
qed

lemma hub_ok_change:
  assumes "row_change wanted acks told db db'" and "hub_ok owner C K d1 n db"
    and "\<And>row. wanted row \<Longrightarrow> belongs owner (n_message_id row) n \<and> (n, n_message_id row) \<notin> C"
    and "\<And>d. told d \<Longrightarrow> told_ok owner d1 d" and "\<And>i. acks i \<Longrightarrow> spares K n i"
  shows "hub_ok owner C K d1 n db'"
proof -
  have inv: "mailbox_inv db" using assms(2) by (simp add: hub_ok_def)
  have "mailbox_inv db'" by (rule row_change_inv [OF assms(1) inv])
  moreover have "(\<forall>i. held_id i (mbrows db') \<longrightarrow> belongs owner i n) \<and> (\<forall>i. (n, i) \<in> C \<longrightarrow> owner i \<noteq> None \<and> shut d1 db' i)"
    using assms(1)
  proof cases
    case (row_confirmed d)
    have "owner i \<noteq> None \<and> shut d1 db' i" if "(n, i) \<in> C" for i
    proof (cases "held_id i (mbrows db')")
      case True
      with that assms(2) row_confirmed show ?thesis by (simp add: hub_ok_def shut_def live_done_rows)
    next
      case False
      have "owner i \<noteq> None" using that assms(2) by (simp add: hub_ok_def)
      then have "row_closed i d1" if "held_id i (mbrows db)"
        using held_done_rows [OF inv that, of d] False row_confirmed assms(4) [of d] by (auto simp: told_ok_def)
      with that assms(2) row_confirmed show ?thesis by (auto simp: hub_ok_def shut_def live_done_rows)
    qed
    with assms(2) row_confirmed show ?thesis by (auto simp: hub_ok_def dest: held_done_subset)
  next
    case (row_fresh row now ts)
    with assms(2) assms(3) [of row] show ?thesis by (auto simp: hub_ok_def shut_def live_held_fresh)
  qed (use assms(2) in \<open>auto simp: hub_ok_def shut_def live_id_ack_rows\<close>)
  moreover have "msg \<in> set (inbox db')" if "(n, msg) \<in> K" for msg
  proof (rule kept_message [OF assms(1)])
    show "msg \<in> set (inbox db)" using that assms(2) unfolding hub_ok_def by blast
    show "\<not> acks (fst msg)" using that assms(5) unfolding spares_def by blast
  qed
  ultimately show ?thesis by (simp add: hub_ok_def)
qed

lemma hub_ok_closed: "hub_ok owner C K d n db \<Longrightarrow> still_closed d d' \<Longrightarrow> hub_ok owner C K d' n db"
  by (auto simp: hub_ok_def shut_def still_closed_def)

lemma told_ok_closed: "told_ok owner d x \<Longrightarrow> still_closed d d' \<Longrightarrow> told_ok owner d' x"
  by (auto simp: told_ok_def still_closed_def)

lemma fits_mono:
  assumes "fits wanted acks told named req"
    and "\<And>row. wanted row \<Longrightarrow> wanted' row" and "\<And>i. acks i \<Longrightarrow> acks' i" and "\<And>d. told d \<Longrightarrow> told' d" and "\<And>i. named i \<Longrightarrow> named' i"
  shows "fits wanted' acks' told' named' req"
  using assms by (cases "(wanted, acks, told, named, req)" rule: fits.cases) (auto simp: list_all_iff)

lemma request_ok_closed: "request_ok owner d n req \<Longrightarrow> still_closed d d' \<Longrightarrow> request_ok owner d' n req"
  unfolding request_ok_def by (erule fits_mono) (auto intro: told_ok_closed)

subsection \<open>The relay's invariant under each part of a handler\<close>

lemma relay_inv_put:
  assumes "relay_inv owner C K env rl" and "hub_ok owner C K (rl_d1 rl) n db"
  shows "relay_inv owner C K env (put_hub n db rl)"
proof -
  have "hub_ok owner C K (rl_d1 rl) m (db_of m (put_hub n db rl))" for m
    using assms by (cases "m = n") (simp_all add: relay_inv_def)
  with assms(1) show ?thesis by (simp add: relay_inv_def)
qed

lemma relay_inv_d1:
  assumes "relay_inv owner C K env rl" and "d1_ok owner d" and "still_closed (rl_d1 rl) d"
  shows "relay_inv owner C K env (rl\<lparr>rl_d1 := d\<rparr>)"
  using assms by (auto simp: relay_inv_def intro: hub_ok_closed request_ok_closed)

lemma relay_inv_hubs:
  assumes "\<And>n. db_of n rl' = db_of n rl" and "rl_d1 rl' = rl_d1 rl" and "rl_queue rl' = rl_queue rl"
    and "rl_inflight rl' = rl_inflight rl"
  shows "relay_inv owner C K env rl' = relay_inv owner C K env rl"
  using assms by (simp add: relay_inv_def)

lemma archive_message_fits:
  assumes "row_ok r" and "belongs owner (r_message_id r) i"
  shows "message_fits owner (archive_message json_len (archived_view r) i)"
  using assms
  by (auto simp: message_fits_def archive_message_def Let_def row_ok_def u64_of_i64_clamped_def)

definition keeps_all ::
  "(string \<rightharpoonup> string) \<Rightarrow> (string \<times> string) set \<Rightarrow> (string \<times> message) set \<Rightarrow> relay_env \<Rightarrow> d1_db \<Rightarrow> relay \<Rightarrow> bool" where
  "keeps_all owner C K env d0 rl \<longleftrightarrow> env_ok env \<and> relay_inv owner C K env rl \<and> still_closed d0 (rl_d1 rl)"

lemma queue_keeps:
  assumes "keeps_all owner C K env d0 rl" and "r \<in> archived_view ` set (mbrows (db_of n rl))"
    and "re_to_value env (archive_message (re_json_len env) r n) = Inr js"
  shows "keeps_all owner C K env d0 (rl\<lparr>rl_queue := rl_queue rl @ [js]\<rparr>)"
proof -
  obtain x where x: "x \<in> set (mbrows (db_of n rl))" "r = archived_view x" using assms(2) by blast
  have "hub_ok owner C K (rl_d1 rl) n (db_of n rl)" using assms(1) by (simp add: keeps_all_def relay_inv_def)
  with x(1) have "row_ok x" "belongs owner (r_message_id x) n"
    by (auto simp: hub_ok_def held_id_def dest: rows_okD(3))
  from archive_message_fits [of _ owner, OF this] x(2) assms(1,3) show ?thesis
    by (auto simp: keeps_all_def relay_inv_def env_ok_def)
qed

interpretation keeping: hub_parts env self "keeps_all owner C K env d0"
  "\<lambda>row. belongs owner (n_message_id row) self \<and> (self, n_message_id row) \<notin> C" "spares K self" "told_ok owner d0"
  "\<lambda>i. i = self"
  for env self owner C K d0
proof
  fix rl db
  assume "keeps_all owner C K env d0 rl"
  then show "mailbox_inv (db_of self rl)" by (simp add: keeps_all_def relay_inv_def hub_ok_def)
next
  fix rl db
  assume k: "keeps_all owner C K env d0 rl" and change: "row_change
    (\<lambda>row. belongs owner (n_message_id row) self \<and> (self, n_message_id row) \<notin> C) (spares K self) (told_ok owner d0) (db_of self rl) db"
  have hub: "hub_ok owner C K (rl_d1 rl) self (db_of self rl)" using k by (simp add: keeps_all_def relay_inv_def)
  have "hub_ok owner C K (rl_d1 rl) self db"
    by (rule hub_ok_change [OF change hub]) (use k in \<open>auto simp: keeps_all_def intro: told_ok_closed\<close>)
  with k show "keeps_all owner C K env d0 (put_hub self db rl)" by (simp add: keeps_all_def relay_inv_put)
next
  fix rl i r js
  assume "keeps_all owner C K env d0 rl" "i = self" "r \<in> archived_view ` set (mbrows (db_of self rl))"
    "re_to_value env (archive_message (re_json_len env) r i) = Inr js"
  then show "keeps_all owner C K env d0 (rl\<lparr>rl_queue := rl_queue rl @ [js]\<rparr>)" by (blast intro: queue_keeps)
next
  fix rl d
  assume k: "keeps_all owner C K env d0 rl" and t: "tables d = tables (rl_d1 rl)"
  have "d1_ok owner (rl_d1 rl)" using k by (simp add: keeps_all_def relay_inv_def)
  with k tables_kept(2,3) [OF t] show "keeps_all owner C K env d0 (rl\<lparr>rl_d1 := d\<rparr>)"
    by (auto simp: keeps_all_def intro: relay_inv_d1 still_closed_trans)
next
  fix rl i ids r d
  assume k: "keeps_all owner C K env d0 rl"
    and "legacy_acknowledge i ids (re_retention env) (rl_d1 rl) = (r, d)"
  with legacy_acknowledge_keeps [of "re_retention env" owner "rl_d1 rl" i ids r d]
  show "keeps_all owner C K env d0 (rl\<lparr>rl_d1 := d\<rparr>)"
    by (auto simp: keeps_all_def relay_inv_def [of owner C K env rl] env_ok_def intro: relay_inv_d1 still_closed_trans)
qed (auto simp: keeps_all_def relay_inv_hubs [of "set_ready _ _"] relay_inv_hubs [of "_\<lparr>rl_sends := _\<rparr>"])

subsection \<open>Hops\<close>

text \<open>
  A request that may be made of hub \<open>n\<close> now: one in flight may be, but for a closed id's insert
  and a kept message's acknowledgment.
\<close>

definition asked ::
  "(string \<rightharpoonup> string) \<Rightarrow> (string \<times> string) set \<Rightarrow> (string \<times> message) set \<Rightarrow> d1_db \<Rightarrow> string \<Rightarrow> hub_request \<Rightarrow> bool" where
  "asked owner C K d n =
     fits (\<lambda>row. belongs owner (n_message_id row) n \<and> (n, n_message_id row) \<notin> C) (spares K n) (told_ok owner d)
       (\<lambda>i. i = n)"

lemma asked_request: "asked owner C K d n req \<Longrightarrow> request_ok owner d n req"
  unfolding asked_def request_ok_def by (erule fits_mono) auto

lemma set_retry_fits [simp]: "fits wanted acks told named (set_retry req) = fits wanted acks told named req"
  by (cases "(wanted, acks, told, named, req)" rule: fits.cases) simp_all

lemma asked_set_retry [simp]: "asked owner C K d n (set_retry req) = asked owner C K d n req"
  by (simp add: asked_def)

lemma hops_keep [simp]:
  "keeps_all owner C K env d0 (rl\<lparr>rl_hops := hs\<rparr>) = keeps_all owner C K env d0 rl"
  by (simp add: keeps_all_def relay_inv_hubs [of "rl\<lparr>rl_hops := hs\<rparr>" rl])

lemma late_keeps:
  assumes "keeps_all owner C K env d0 rl" and "request_ok owner (rl_d1 rl) n req"
  shows "keeps_all owner C K env d0 (rl\<lparr>rl_inflight := rl_inflight rl @ [(n, req)]\<rparr>)"
  using assms by (auto simp: keeps_all_def relay_inv_def)

lemma hub_fetch_keeps:
  "keeps_all owner C K env d0 rl \<Longrightarrow> asked owner C K d0 n req \<Longrightarrow> keeps_all owner C K env d0 (snd (hub_fetch env n req rl))"
  unfolding asked_def by (rule keeping.hub_fetch_P)

lemma hop_fetch_keeps:
  assumes "keeps_all owner C K env d0 rl" and "asked owner C K d0 n req"
  shows "keeps_all owner C K env d0 (snd (hop_fetch env n req rl))"
proof -
  have "request_ok owner (rl_d1 rl) n req"
    using request_ok_closed [OF asked_request [OF assms(2)]] assms(1) by (simp add: keeps_all_def)
  then show ?thesis using assms hub_fetch_keeps [OF _ assms(2), of env "rl\<lparr>rl_hops := tl (rl_hops rl)\<rparr>"]
      late_keeps [of owner C K env d0 "rl\<lparr>rl_hops := tl (rl_hops rl)\<rparr>" n req]
    by (auto simp: hop_fetch_def Let_def split: list.split hop.split)
qed

lemma post_json_keeps:
  "keeps_all owner C K env d0 rl \<Longrightarrow> asked owner C K d0 n req \<Longrightarrow> keeps_all owner C K env d0 (snd (post_json env n req rl))"
  unfolding post_json_def
  by (rule andThen_state [where P = "keeps_all owner C K env d0"]) (auto intro: hop_fetch_keeps)

lemma post_with_retry_keeps:
  assumes "keeps_all owner C K env d0 rl" and "asked owner C K d0 n req"
  shows "keeps_all owner C K env d0 (snd (post_with_retry env n req rl))"
proof -
  obtain r1 rl1 where one: "post_json env n req rl = (r1, rl1)" by (cases "post_json env n req rl")
  with post_json_keeps [OF assms] have k1: "keeps_all owner C K env d0 rl1" by simp
  obtain r2 rl2 where two: "post_json env n (set_retry req) rl1 = (r2, rl2)"
    by (cases "post_json env n (set_retry req) rl1")
  with post_json_keeps [OF k1, of n "set_retry req"] assms(2) have "keeps_all owner C K env d0 rl2" by simp
  with assms(1) one two k1 show ?thesis
    by (auto simp: post_with_retry_def split: option.split sum.split)
qed

lemma posted_keeps:
  assumes "keeps_all owner C K env d0 rl" and "asked owner C K d0 n req"
  shows "keeps_all owner C K env d0 (snd (andThen (post_with_retry env n req rl) (\<lambda>v rl. (f v, rl))))"
  by (rule andThen_state [where P = "keeps_all owner C K env d0"])
     (simp_all add: post_with_retry_keeps [OF assms])

subsection \<open>The Worker's calls\<close>

lemma on_d1_keeps:
  assumes "keeps_all owner C K env d0 rl" and "\<And>r d. op (rl_d1 rl) = (r, d) \<Longrightarrow> d1_ok owner (rl_d1 rl) \<Longrightarrow>
      d1_ok owner d \<and> still_closed (rl_d1 rl) d"
  shows "keeps_all owner C K env d0 (snd (on_d1 op rl))"
proof (cases "op (rl_d1 rl)")
  case (Pair r d)
  have "d1_ok owner (rl_d1 rl)" using assms(1) by (simp add: keeps_all_def relay_inv_def)
  from assms(2) [OF Pair this] assms(1) Pair show ?thesis
    by (auto simp: on_d1_def keeps_all_def intro: relay_inv_d1 still_closed_trans)
qed

lemma read_keeps:
  assumes "keeps_all owner C K env d0 rl" and "\<And>r d. op (rl_d1 rl) = (r, d) \<Longrightarrow> d_messages d = d_messages (rl_d1 rl)"
  shows "keeps_all owner C K env d0 (snd (on_d1 op rl))"
  by (rule on_d1_keeps [OF assms(1)]) (metis assms(2) same_rows_kept(2,3))

lemma worker_insert_keeps:
  assumes "worker_insert_message mid bx sender w body key d = (r, d')" and "d1_ok owner d" and "belongs owner mid w"
  shows "d1_ok owner d' \<and> still_closed d d'"
proof (cases "insert_message mid bx sender w body key d")
  case (Pair x s)
  with insert_message_keeps [OF Pair assms(2,3)] assms(1) show ?thesis
    by (cases x) (auto simp: worker_insert_message_def)
qed

lemma insert_on_hub_keeps:
  assumes "keeps_all owner C K env d0 rl" and "belongs owner mid w" and "key = None \<Longrightarrow> (w, mid) \<notin> C"
  shows "keeps_all owner C K env d0 (snd (insert_message_on_hub env mbox mid sender w body key rl))"
proof (cases key)
  case None
  with assms show ?thesis unfolding insert_message_on_hub_def
    by (simp, intro posted_keeps) (simp_all add: asked_def)
next
  case (Some k)
  have "keeps_all owner C K env d0 (snd (andThen (on_d1 (get_or_create_message_box w mbox) rl) (\<lambda>box_id.
            on_d1 (worker_insert_message mid box_id sender w body key))))"
  proof (rule andThen_state [where P = "keeps_all owner C K env d0"])
    show "keeps_all owner C K env d0 (snd (on_d1 (get_or_create_message_box w mbox) rl))"
      by (rule read_keeps [OF assms(1) get_or_create_keeps])
    fix b s assume "keeps_all owner C K env d0 s"
    then show "keeps_all owner C K env d0 (snd (on_d1 (worker_insert_message mid b sender w body key) s))"
    proof (rule on_d1_keeps)
      fix r d
      assume "worker_insert_message mid b sender w body key (rl_d1 s) = (r, d)" "d1_ok owner (rl_d1 s)"
      then show "d1_ok owner d \<and> still_closed (rl_d1 s) d" using assms(2) by (rule worker_insert_keeps)
    qed
  qed
  with Some show ?thesis by (simp add: insert_message_on_hub_def)
qed

lemma decode_keeps: "keeps_all owner C K env d0 (snd (andThen (x, rl) k))"
  if "keeps_all owner C K env d0 rl" and "\<And>a. keeps_all owner C K env d0 (snd (k a rl))"
  using that by (cases x) simp_all

lemma drain_list_keeps:
  assumes "keeps_all owner C K env d0 rl"
  shows "keeps_all owner C K env d0 (snd (drain_list env n mbox d1 rl))"
  unfolding drain_list_def
  by (rule andThen_state [where P = "keeps_all owner C K env d0"])
     (auto intro!: post_with_retry_keeps decode_keeps assms simp: asked_def)

lemma replied_state: "snd (replied f r) = snd r"
  by (cases r; cases "fst r") (simp_all add: replied_def)

subsection \<open>The queue's handler\<close>

lemma read_hub_rows_keeps:
  "keeps_all owner C K env d0 rl \<Longrightarrow> keeps_all owner C K env d0 (snd (read_hub_rows env n ids rl))"
  unfolding read_hub_rows_def
  by (auto intro!: andThen_state [where P = "keeps_all owner C K env d0"] hop_fetch_keeps
      simp: asked_def split: option.split)

text \<open>Reading the bodies changes nothing of a message that the invariant speaks of.\<close>

definition same_head :: "archive_message_rec \<Rightarrow> archive_message_rec \<Rightarrow> bool" where
  "same_head m m' \<longleftrightarrow> am_message_id m' = am_message_id m \<and> am_recipient m' = am_recipient m \<and>
     am_version m' = am_version m \<and> am_change m' = am_change m"

lemma same_head_fits: "same_head m m' \<Longrightarrow> message_fits owner m \<Longrightarrow> message_fits owner m'"
  by (simp add: same_head_def message_fits_def)

definition filling :: "archive_message_rec list \<Rightarrow> fill_state \<Rightarrow> bool" where
  "filling msgs st \<longleftrightarrow> list_all2 same_head msgs (fs_msgs st)"

lemma fill_one_filling: "filling msgs st \<Longrightarrow> filling msgs (fill_one raws rows st i)"
proof -
  assume f: "filling msgs st"
  have "list_all2 same_head msgs ((fs_msgs st)[i := (fs_msgs st ! i)\<lparr>am_body := b\<rparr>])" for b
  proof (cases "i < length msgs")
    case True
    with f have "same_head (msgs ! i) ((fs_msgs st ! i)\<lparr>am_body := b\<rparr>)"
      by (auto simp: filling_def same_head_def dest: list_all2_nthD)
    with f show ?thesis using list_all2_update_cong [of same_head msgs "fs_msgs st" "msgs ! i" _ i]
      by (simp add: filling_def)
  next
    case False
    with f have "length (fs_msgs st) \<le> i" by (simp add: filling_def list_all2_lengthD [of _ msgs])
    with f show ?thesis by (simp add: filling_def list_update_beyond)
  qed
  with f show ?thesis by (simp add: fill_one_def filling_def split: option.split)
qed

lemma fold_filling:
  assumes "filling msgs st"
  shows "filling msgs (foldl (fill_one raws rows) st idxs)" and "filling msgs (foldl (retry_one raws) st idxs)"
proof -
  show "filling msgs (foldl (fill_one raws rows) st idxs)"
    using assms by (induction idxs arbitrary: st) (simp_all add: fill_one_filling)
  have "filling msgs (retry_one raws st i)" if "filling msgs st" for st i
    using that by (simp add: retry_one_def filling_def)
  then show "filling msgs (foldl (retry_one raws) st idxs)"
    using assms by (induction idxs arbitrary: st) simp_all
qed

lemma fill_groups_keep:
  assumes "filling msgs st" and "keeps_all owner C K env d0 rl"
    and "foldl (fill_group_on env raws) (st, rl) gs = (st', rl')"
  shows "filling msgs st' \<and> keeps_all owner C K env d0 rl'"
  using assms
proof (induction gs arbitrary: st rl)
  case (Cons g gs)
  obtain n idxs where g: "g = (n, idxs)" by (cases g)
  obtain st1 rl1 where one: "fill_group_on env raws (st, rl) g = (st1, rl1)"
    by (cases "fill_group_on env raws (st, rl) g")
  let ?ids = "map (\<lambda>i. am_message_id (fs_msgs st ! i)) idxs"
  obtain x rl2 where x: "read_hub_rows env n ?ids rl = (x, rl2)" by (cases "read_hub_rows env n ?ids rl")
  from one x g have "filling msgs st1" "rl1 = rl2"
    using fold_filling [OF Cons.prems(1)] by (auto simp: fill_group_on_def Let_def split: sum.splits)
  moreover have "keeps_all owner C K env d0 rl2" using read_hub_rows_keeps [OF Cons.prems(2), of n ?ids] x by simp
  ultimately show ?case using Cons.IH [of st1 rl1] Cons.prems(3) one by simp
qed simp

lemma parse_all_from:
  "parse_all from_value i raws = (good, marks) \<Longrightarrow> (j, m) \<in> set good \<Longrightarrow>
     \<exists>js. Inr js \<in> set raws \<and> from_value js = Inr m"
proof (induction raws arbitrary: i good marks)
  case (Cons raw raws)
  obtain g k where rest: "parse_all from_value (Suc i) raws = (g, k)" by (cases "parse_all from_value (Suc i) raws")
  from Cons.IH [OF rest] Cons.prems rest show ?case
    by (cases raw) (fastforce simp: Let_def parse_message_def split: sum.splits if_splits)+
qed simp

lemma kept_pairs_msgs: "m \<in> snd ` set (kept_pairs raws st) \<Longrightarrow> m \<in> set (fs_msgs st)"
  by (auto simp: kept_pairs_def) (metis set_zip_leftD set_zip_rightD)

lemma tell_hub_keeps:
  assumes "keeps_all owner C K env d0 rl" and "list_all (\<lambda>d. done_ok d \<and> told_ok owner d0 d) ds"
  shows "keeps_all owner C K env d0 (snd (tell_hub env n ds rl))"
proof -
  have "keeps_all owner C K env d0 (snd (andThen (post_json env n
      (PostArchiveDone (Inr \<lparr>db_identity = n, db_done = ds\<rparr>)) rl) (\<lambda>_ rl. (Inr (), rl))))"
    by (rule andThen_state [where P = "keeps_all owner C K env d0"])
       (use assms in \<open>auto intro!: post_json_keeps simp: asked_def\<close>)
  then show ?thesis using assms(1) by (simp add: tell_hub_def split: option.split)
qed

lemma tell_all_keeps:
  "keeps_all owner C K env d0 rl \<Longrightarrow>
   \<forall>(w, ds)\<in>set told. list_all (\<lambda>d. done_ok d \<and> told_ok owner d0 d) ds \<Longrightarrow>
   keeps_all owner C K env d0 (tell_all env told rl)"
  unfolding tell_all_def by (induction told arbitrary: rl) (auto intro: tell_hub_keeps)

text \<open>A delivery: the bodies are read, the batch is written, the hubs are told what D1 now holds.\<close>

lemma archive_and_tell_keeps:
  assumes k: "keeps_all owner C K env d0 rl" and fits: "\<forall>m\<in>set msgs. message_fits owner m"
    and run: "on_d1 (archive_batch msgs) rl = (r, rl1)"
  shows "keeps_all owner C K env d0 rl1"
    and "r = Inr vs \<Longrightarrow> keeps_all owner C K env d0 (tell_all env (done_by_recipient msgs vs) rl1)"
proof -
  obtain d where d: "archive_batch msgs (rl_d1 rl) = (r, d)" "rl1 = rl\<lparr>rl_d1 := d\<rparr>"
    using run by (cases "archive_batch msgs (rl_d1 rl)") (auto simp: on_d1_def)
  have ok: "d1_ok owner (rl_d1 rl)" using k by (simp add: keeps_all_def relay_inv_def)
  show k1: "keeps_all owner C K env d0 rl1"
    using on_d1_keeps [OF k, of "archive_batch msgs"] archive_batch_keeps [OF _ fits] run by auto
  show "keeps_all owner C K env d0 (tell_all env (done_by_recipient msgs vs) rl1)" if "r = Inr vs"
  proof -
    have told: "list_all (\<lambda>x. done_ok x \<and> told_ok owner d x) ds" if "(w, ds) \<in> set (done_by_recipient msgs vs)" for w ds
      using told_closed [OF ok fits _ that] d(1) \<open>r = Inr vs\<close> by (auto simp: list_all_iff told_ok_def)
    have "keeps_all owner C K env d rl1" using k1 d(2) by (simp add: keeps_all_def)
    with tell_all_keeps [of owner C K env d rl1 "done_by_recipient msgs vs"] told
    have after: "keeps_all owner C K env d (tell_all env (done_by_recipient msgs vs) rl1)" by blast
    moreover have "still_closed d0 d" using k1 d(2) by (simp add: keeps_all_def)
    ultimately show ?thesis by (auto simp: keeps_all_def intro: still_closed_trans)
  qed
qed

lemma consume_keeps:
  assumes k: "keeps_all owner C K env d0 rl" and from_queue: "delivered batch rl"
  shows "keeps_all owner C K env d0 (snd (consume_on env batch rl))"
proof -
  obtain good malformed where parsed: "parse_all (re_from_value env) 0 batch = (good, malformed)"
    by (cases "parse_all (re_from_value env) 0 batch")
  have fits: "message_fits owner m" if "m \<in> snd ` set good" for m
  proof -
    from that obtain j where "(j, m) \<in> set good" by auto
    from parse_all_from [OF parsed this] obtain js where "Inr js \<in> set batch" "re_from_value env js = Inr m" by blast
    with from_queue k show ?thesis by (force simp: delivered_def list_all_iff keeps_all_def relay_inv_def)
  qed
  let ?st = "\<lparr>fs_msgs = map snd good, fs_keep = replicate (length (map snd good)) True, fs_marks = []\<rparr>"
  obtain st rl1 where filled: "foldl (fill_group_on env (map fst good)) (?st, rl) (bodies_in_hub (map snd good)) = (st, rl1)"
    by (cases "foldl (fill_group_on env (map fst good)) (?st, rl) (bodies_in_hub (map snd good))")
  have "filling (map snd good) ?st" by (simp add: filling_def same_head_def list_all2_refl)
  note f = fill_groups_keep [OF this k filled]
  define msgs where "msgs = map snd (kept_pairs (map fst good) st)"
  have msgs: "\<forall>m\<in>set msgs. message_fits owner m"
  proof
    fix m assume "m \<in> set msgs"
    then have "m \<in> set (fs_msgs st)" using kept_pairs_msgs unfolding msgs_def by auto
    then obtain m0 where "m0 \<in> set (map snd good)" "same_head m0 m"
      using f unfolding filling_def by (metis in_set_conv_nth list_all2_conv_all_nth)
    with fits [of m0] show "message_fits owner m" by (auto intro: same_head_fits)
  qed
  obtain r rl2 where wrote: "on_d1 (archive_batch msgs) rl1 = (r, rl2)" by (cases "on_d1 (archive_batch msgs) rl1")
  note w = archive_and_tell_keeps [OF conjunct2 [OF f] msgs wrote]
  have "snd (consume_on env batch rl) =
     (if good = [] then rl
      else if kept_pairs (map fst good) st = [] then rl1
      else case re_d1_unbound env of Some _ \<Rightarrow> rl1
           | None \<Rightarrow> (case r of Inr vs \<Rightarrow> tell_all env (done_by_recipient msgs vs) rl2 | Inl _ \<Rightarrow> rl2))"
    using parsed filled wrote
    by (simp add: consume_on_def Let_def msgs_def split: option.split sum.split)
  then show ?thesis using k f w by (simp split: option.split sum.split)
qed

subsection \<open>The machine keeps the invariant\<close>

lemma relay_do_keeps:
  assumes "keeps_all owner C K env (rl_d1 rl) rl" and "relay_call_ok owner C K c"
  shows "keeps_all owner C K env (rl_d1 rl) (snd (relay_do env c rl))"
proof (cases c)
  case (CallInsert mbox mid sender w body key)
  with assms show ?thesis by (simp add: replied_state insert_on_hub_keeps)
next
  case (CallContext w sender mbox)
  with assms(1) show ?thesis
    by (simp add: replied_state read_send_context_on_hub_def posted_keeps asked_def)
next
  case (CallList n mbox)
  with assms(1) show ?thesis by (simp add: replied_state list_on_hub_def posted_keeps asked_def)
next
  case (CallDrain n mbox)
  have "keeps_all owner C K env (rl_d1 rl) (snd (andThen (on_d1 (list_messages n mbox) rl) (drain_list env n mbox)))"
    by (rule andThen_state [where P = "keeps_all owner C K env (rl_d1 rl)"])
       (use assms(1) tables_fields(1) [OF list_messages_tables] in \<open>blast intro: read_keeps drain_list_keeps\<close>)+
  with CallDrain show ?thesis by (simp add: replied_state)
next
  case (CallAck n ids legacy)
  with assms show ?thesis by (simp add: replied_state ack_on_hub_def posted_keeps asked_def)
next
  case (CallLegacyAck n ids)
  have "length (rc_prefixes (re_retention env)) \<le> 98" using assms(1) by (simp add: keeps_all_def env_ok_def)
  with CallLegacyAck assms(1) show ?thesis
    by (auto simp: replied_state intro!: on_d1_keeps dest!: legacy_acknowledge_keeps)
next
  case (CallForget n)
  with assms(1) post_json_keeps [OF assms(1), of n "PostPermissionsForget (Inr n)"] show ?thesis
    by (simp add: forget_permissions_on_hub_def asked_def split: option.split)
next
  case (CallConsume batch)
  with assms(1) consume_keeps [OF assms(1), of batch] show ?thesis by (auto split: prod.split)
next
  case (CallLand n req)
  show ?thesis
  proof (cases "(n, req) \<in> set (rl_inflight rl)")
    case True
    with assms(1) have "request_ok owner (rl_d1 rl) n req" by (auto simp: keeps_all_def relay_inv_def)
    with assms(2) CallLand have "asked owner C K (rl_d1 rl) n req"
      unfolding asked_def request_ok_def
      by (cases "(\<lambda>row::new_row. belongs owner (n_message_id row) n, \<lambda>_::string. True, told_ok owner (rl_d1 rl), \<lambda>i. i = n, req)" rule: fits.cases) auto
    with hub_fetch_keeps [OF assms(1)] CallLand True show ?thesis by simp
  qed (use assms(1) CallLand in simp)
next
  case (CallEvict n)
  with assms(1) show ?thesis
    by (simp add: keeps_all_def relay_inv_def)
next
  case (CallFates now d1_now script hops sends sql_faults)
  let ?d = "(rl_d1 rl)\<lparr>d_now := d1_now, d_script := script\<rparr>"
  have d: "row_closed i ?d = row_closed i (rl_d1 rl)" "d1_ok owner ?d = d1_ok owner (rl_d1 rl)" for i
    by (rule same_rows_kept; simp)+
  have "hub_ok owner C K ?d n (db\<lparr>faults := f\<rparr>) = hub_ok owner C K (rl_d1 rl) n db" for n db f
    by (simp add: hub_ok_def shut_def d inbox_def)
  moreover have "request_ok owner ?d n req = request_ok owner (rl_d1 rl) n req" for n req
    by (simp add: request_ok_def told_ok_def [abs_def] d)
  ultimately show ?thesis using assms(1) CallFates d
    by (auto simp: keeps_all_def relay_inv_def still_closed_def)
qed

interpretation relay: kept "relay_do env" "relay_call_ok owner C K" "\<lambda>rl. env_ok env \<and> relay_inv owner C K env rl"
  for env owner C K
proof
  fix rl c
  assume "env_ok env \<and> relay_inv owner C K env rl" and "relay_call_ok owner C K c"
  with relay_do_keeps [of owner C K env rl c] show "env_ok env \<and> relay_inv owner C K env (snd (relay_do env c rl))"
    by (simp add: keeps_all_def)
qed

end
