(* ===== verification/Relay_Theorems.thy ===== *)
theory Relay_Theorems
  imports Relay_Keeps
begin

section \<open>The relay's theorems\<close>

text \<open>
  End to end, over every run of the machine: a message a hub stored stays until its recipient
  acknowledges it, and once acknowledged no listing shows it again; and the send's insert and the
  acknowledgment through hops that may be lost, answered to nobody, or land late.
\<close>

subsection \<open>Answers\<close>

lemma refuse_status [simp]: "snd (refuse s why) = s"
  by (simp add: refuse_def)

lemma or_answer_okE:
  assumes "or_answer r f k = (Inr (v, st), rl')" and "\<And>e. \<not> (200 \<le> snd (f e) \<and> snd (f e) < 300)"
    and "200 \<le> st" and "st < 300"
  obtains a s where "r = (Inr a, s)" and "k a s = (Inr (v, st), rl')"
proof (cases r)
  case (Pair x s)
  show thesis
  proof (cases x)
    case (Inl e)
    with assms(1) Pair have "f e = (v, st)" by simp
    with assms(2) [of e] assms(3,4) show thesis by simp
  next
    case (Inr a)
    with assms(1) Pair that show thesis by simp
  qed
qed

lemma legacy_refusal_status: "\<not> (200 \<le> snd (legacy_refusal op e) \<and> snd (legacy_refusal op e) < 300)"
  by (simp add: legacy_refusal_def)

lemma member_simps [simp]:
  "member k (JObj ((k, v) # ms)) = v" "k \<noteq> k' \<Longrightarrow> member k (JObj ((k', v) # ms)) = member k (JObj ms)"
  by (simp_all add: member_def)

lemma json_opt_json [simp]: "json_opt (Some (opt_json x)) = Some x"
  by (cases x) (simp_all add: opt_json_def)

lemma message_of_json_json [simp]: "message_of_json (message_json r) = Some r"
  by (simp add: message_of_json_def message_json_def)

lemma decode_all_map:
  assumes "\<And>x. f (g x) = Some x"
  shows "decode_all f (JArr (map g xs)) = Some xs"
  using assms by (auto simp: decode_all_def Let_def o_def)

lemma decode_messages [simp]: "decode_all message_of_json (messages_json rows) = Some rows"
  by (simp add: messages_json_def decode_all_map)

lemma decode_strings [simp]: "decode_all as_str (strings_json xs) = Some xs"
  by (simp add: strings_json_def decode_all_map)

text \<open>What the hub puts on the queue, the consumer reads back.\<close>

lemma archive_message_roundtrip:
  assumes "am_version m < 2 ^ 64"
  shows "archive_message_of_json (archive_message_json m) = Some m"
proof -
  have v: "int (am_version m) < 2 ^ 64" using assms by (metis of_nat_less_iff of_nat_numeral of_nat_power)
  show ?thesis
    using v by (cases "am_change m"; cases "am_body_in_hub m")
      (simp_all add: archive_message_of_json_def archive_message_json_def change_of_def)
qed

text \<open>A hop that was answered was served by the hub, by the first attempt or by the second.\<close>

lemma post_json_served:
  assumes "post_json env n req rl = (Inr v, rl')"
  obtains st where "hub_fetch env n req (rl\<lparr>rl_hops := tl (rl_hops rl)\<rparr>) = (Inr (v, st), rl')"
    and "200 \<le> st" and "st < 300"
  using assms
  by (auto simp: post_json_def andThen_Inr_iff hop_fetch_def Let_def split: list.splits hop.splits if_splits)

lemma post_json_state:
  assumes "P rl" and "\<And>rl. P rl \<Longrightarrow> P (snd (hub_fetch env n req rl))"
    and "\<And>rl hs. P rl \<Longrightarrow> P (rl\<lparr>rl_hops := hs\<rparr>)" and "\<And>rl. P rl \<Longrightarrow> P (rl\<lparr>rl_inflight := rl_inflight rl @ [(n, req)]\<rparr>)"
  shows "P (snd (post_json env n req rl))"
proof -
  have hops: "P (rl\<lparr>rl_hops := tl (rl_hops rl)\<rparr>)" by (rule assms(3) [OF assms(1)])
  have "snd (post_json env n req rl) = snd (hop_fetch env n req rl)"
    by (cases "hop_fetch env n req rl"; cases "fst (hop_fetch env n req rl)") (auto simp: post_json_def)
  moreover have "P (snd (hop_fetch env n req rl))"
    using hops assms(2) [OF hops] assms(4) [OF hops]
    by (auto simp: hop_fetch_def Let_def split: list.split hop.split)
  ultimately show ?thesis by simp
qed

lemma post_with_retry_served:
  assumes "post_with_retry env n req rl = (Inr v, rl')" and "P rl"
    and "\<And>rl. P rl \<Longrightarrow> P (snd (post_json env n req rl))" and "\<And>rl hs. P rl \<Longrightarrow> P (rl\<lparr>rl_hops := hs\<rparr>)"
  obtains rl1 st req' where "P rl1" and "req' = req \<or> req' = set_retry req"
    and "hub_fetch env n req' rl1 = (Inr (v, st), rl')" and "200 \<le> st" and "st < 300"
proof (cases "post_json env n req rl")
  case (Pair r s)
  have Ps: "P s" using assms(3) [OF assms(2)] Pair by simp
  show thesis
  proof (cases r)
    case (Inr w)
    with assms(1) Pair have "post_json env n req rl = (Inr v, rl')"
      by (simp add: post_with_retry_def split: option.splits)
    then show thesis by (rule post_json_served) (rule that [OF assms(4) [OF assms(2)]]; simp)
  next
    case (Inl e)
    with assms(1) Pair have "post_json env n (set_retry req) s = (Inr v, rl')"
      by (auto simp: post_with_retry_def split: option.splits sum.splits prod.splits)
    then show thesis by (rule post_json_served) (rule that [OF assms(4) [OF Ps]]; simp)
  qed
qed

subsection \<open>A listing hides what is closed\<close>

lemma merge_ids:
  "Some i \<in> m_message_id ` set (merge_mbx d1 mailbox held D1First limit bytes) \<Longrightarrow>
   Some i \<in> m_message_id ` set mailbox \<or> Some i \<in> m_message_id ` set d1 \<and> i \<notin> held"
proof -
  assume "Some i \<in> m_message_id ` set (merge_mbx d1 mailbox held D1First limit bytes)"
  moreover obtain k where "merge_mbx d1 mailbox held D1First limit bytes =
      take k (merge_candidates d1 mailbox held D1First)" using merge_prefix by blast
  ultimately have "Some i \<in> m_message_id ` set (merge_candidates d1 mailbox held D1First)"
    by (auto dest: in_set_takeD)
  then have "Some i \<in> m_message_id ` set (not_held held d1 @ mailbox)"
    using uniq_rows_subset unfolding merge_candidates_def by fastforce
  then show ?thesis by (force simp: not_held_def split: option.splits)
qed

lemma closed_not_in_d1:
  assumes "d1_ok owner d" and "row_closed i d" and "list_messages n mbox d = (Inr rows, d')"
  shows "Some i \<notin> m_message_id ` set rows"
proof
  assume "Some i \<in> m_message_id ` set rows"
  then obtain r where "r \<in> set rows" "m_message_id r = Some i" by auto
  with listing_unacknowledged [OF assms(3)] obtain x where
    "x \<in> set (d_messages d)" "dm_message_id x = i" "dm_acknowledged_at x = None" by fastforce
  with row_of_distinct [of d x] assms(1,2) show False
    by (auto simp: d1_ok_def table_ok_def row_closed_def)
qed

lemma listed_live:
  assumes "list_mbx mbox LIST_LIMIT LIST_INLINE_BYTES db = (Inr rows, db')" and "mailbox_inv db"
    and "Some i \<in> m_message_id ` set rows"
  shows "live_id i (mbrows db)"
proof -
  have "rows = map listed (within_budget (int LIST_INLINE_BYTES) r_body_bytes
      (take LIST_LIMIT (live_in_box mbox (mbrows db))))"
    by (rule list_Inr(1) [OF assms(1,2)]) (simp_all add: LIST_LIMIT_def LIST_INLINE_BYTES_def)
  with assms(3) obtain r where "r \<in> set (live_in_box mbox (mbrows db))" "r_message_id r = i"
    using set_within_budget by (fastforce simp: listed_def dest: in_set_takeD)
  then show ?thesis by (auto simp: live_id_def live_in_box_def)
qed

lemma keeps_hub: "keeps_all owner C K env d0 rl \<Longrightarrow> hub_ok owner C K (rl_d1 rl) n (db_of n rl)"
  by (simp add: keeps_all_def relay_inv_def)

lemma list_merged_hides:
  assumes k: "keeps_all owner C K env d0 rl" and c: "(n, i) \<in> C"
    and run: "list_merged env n b rows rl = (Inr (v, st), rl')" and ok: "200 \<le> st" "st < 300"
    and rows: "Some i \<notin> m_message_id ` set rows"
  shows "\<exists>out. member ''messages'' v = messages_json out \<and> Some i \<notin> m_message_id ` set out"
proof -
  from run have "or_answer (on_d1 (list_messages (lb_identity b) (lb_message_box b)) rl) (legacy_refusal ''list'') (\<lambda>d1 rl.
       or_answer (on_hub n (held_ids (List.map_filter m_message_id d1)) rl)
         (\<lambda>e. refuse 500 (''mailbox held: '' @ e)) (\<lambda>held rl.
       (Inr (answer (JObj [(''messages'', messages_json
          (merge_mbx d1 rows held D1First LIST_LIMIT LIST_INLINE_BYTES))])), rl))) = (Inr (v, st), rl')"
    by (simp add: list_merged_def with_d1_def split: option.splits)
  then obtain d1 s where d: "on_d1 (list_messages (lb_identity b) (lb_message_box b)) rl = (Inr d1, s)"
    and rest: "or_answer (on_hub n (held_ids (List.map_filter m_message_id d1)) s)
         (\<lambda>e. refuse 500 (''mailbox held: '' @ e)) (\<lambda>held rl.
       (Inr (answer (JObj [(''messages'', messages_json
          (merge_mbx d1 rows held D1First LIST_LIMIT LIST_INLINE_BYTES))])), rl)) = (Inr (v, st), rl')"
    by (rule or_answer_okE) (rule legacy_refusal_status, rule ok, rule ok)
  from rest obtain held t where h: "on_hub n (held_ids (List.map_filter m_message_id d1)) s = (Inr held, t)"
    and out: "member ''messages'' v = messages_json (merge_mbx d1 rows held D1First LIST_LIMIT LIST_INLINE_BYTES)"
    by (rule or_answer_okE) (auto simp: ok answer_def)
  obtain d' where d': "list_messages (lb_identity b) (lb_message_box b) (rl_d1 rl) = (Inr d1, d')" "s = rl\<lparr>rl_d1 := d'\<rparr>"
    using d by (auto simp: on_d1_def Let_def split: prod.splits)
  have held: "held = {j \<in> set (List.map_filter m_message_id d1). held_id j (mbrows (db_of n rl))}"
    using h d'(2) held_ids_Inr(1) by (auto simp: on_hub_Inr)
  have "Some i \<notin> m_message_id ` set (merge_mbx d1 rows held D1First LIST_LIMIT LIST_INLINE_BYTES)"
  proof
    assume "Some i \<in> m_message_id ` set (merge_mbx d1 rows held D1First LIST_LIMIT LIST_INLINE_BYTES)"
    from merge_ids [OF this] rows have i: "Some i \<in> m_message_id ` set d1" "i \<notin> held" by blast+
    then have "\<not> held_id i (mbrows (db_of n rl))" unfolding held set_row_ids [unfolded row_ids_def] by force
    with keeps_hub [OF k, of n] c have "row_closed i (rl_d1 rl)" by (auto simp: hub_ok_def shut_def)
    moreover have "d1_ok owner (rl_d1 rl)" using k by (simp add: keeps_all_def relay_inv_def)
    ultimately show False using closed_not_in_d1 [OF _ _ d'(1)] i(1) by blast
  qed
  with out show ?thesis by blast
qed

lemma handle_list_hides:
  assumes k: "keeps_all owner C K env d0 rl" and c: "(n, i) \<in> C"
    and b: "lb_legacy b" "lb_identity b = n"
    and run: "handle_list env n (Inr b) rl = (Inr (v, st), rl')" and ok: "200 \<le> st" "st < 300"
  shows "\<exists>out. member ''messages'' v = messages_json out \<and> Some i \<notin> m_message_id ` set out"
proof -
  from run b have "or_answer (ready_hub n n rl) (refuse 500) (\<lambda>_ rl.
      or_answer (on_hub n (list_mbx (lb_message_box b) LIST_LIMIT LIST_INLINE_BYTES) (replay env n n rl))
        (\<lambda>e. refuse 500 (''mailbox list: '' @ e)) (\<lambda>rows rl. list_merged env n b rows rl)) = (Inr (v, st), rl')"
    by (simp add: handle_list_def Let_def)
  then obtain u s where "ready_hub n n rl = (Inr u, s)" and
    rest: "or_answer (on_hub n (list_mbx (lb_message_box b) LIST_LIMIT LIST_INLINE_BYTES) (replay env n n s))
        (\<lambda>e. refuse 500 (''mailbox list: '' @ e)) (\<lambda>rows rl. list_merged env n b rows rl) = (Inr (v, st), rl')"
    by (rule or_answer_okE) (simp_all add: ok)
  with keeping.ready_hub_P [OF k, of n n] have ks: "keeps_all owner C K env d0 s" by simp
  let ?s = "replay env n n s"
  have kr: "keeps_all owner C K env d0 ?s" by (rule keeping.replay_P [OF ks refl])
  from rest obtain rows t where
    l: "on_hub n (list_mbx (lb_message_box b) LIST_LIMIT LIST_INLINE_BYTES) ?s = (Inr rows, t)"
    and merged: "list_merged env n b rows t = (Inr (v, st), rl')"
    by (rule or_answer_okE) (simp_all add: ok)
  have "keeps_all owner C K env d0
      (snd (on_hub n (list_mbx (lb_message_box b) LIST_LIMIT LIST_INLINE_BYTES) ?s))"
    by (rule keeping.on_hub_P [OF kr]) (rule read_changes)
  with l have kt: "keeps_all owner C K env d0 t" by simp
  have hub: "hub_ok owner C K (rl_d1 ?s) n (db_of n ?s)" by (rule keeps_hub [OF kr])
  have "Some i \<notin> m_message_id ` set rows"
    using listed_live [of "lb_message_box b" "db_of n ?s" rows _ i] l hub c by (auto simp: on_hub_Inr hub_ok_def shut_def)
  from list_merged_hides [OF kt c merged ok this] show ?thesis .
qed

lemma list_on_hub_hides:
  assumes k: "keeps_all owner C K env d0 rl" and c: "(n, i) \<in> C"
    and run: "list_on_hub env n mbox rl = (Inr rows, rl')"
  shows "Some i \<notin> m_message_id ` set rows"
proof -
  let ?b = "\<lparr>lb_identity = n, lb_message_box = mbox, lb_legacy = True, lb_against = []\<rparr>"
  from run obtain v s where post: "post_with_retry env n (PostList (Inr ?b)) rl = (Inr v, s)"
    and rows: "decoded env message_of_json (member ''messages'' v) = Inr rows"
    by (auto simp: list_on_hub_def andThen_Inr_iff)
  have asked: "asked owner C K d0 n (PostList (Inr ?b))" by (simp add: asked_def)
  from post obtain rl1 st req where k1: "keeps_all owner C K env d0 rl1"
    and req: "req = PostList (Inr ?b) \<or> req = set_retry (PostList (Inr ?b))"
    and served: "hub_fetch env n req rl1 = (Inr (v, st), s)" "200 \<le> st" "st < 300"
    by (rule post_with_retry_served [where P = "keeps_all owner C K env d0"])
       (use k asked in \<open>auto intro: post_json_keeps\<close>)
  from req served(1) have "handle_list env n (Inr ?b) rl1 = (Inr (v, st), s)" by auto
  from handle_list_hides [OF k1 c _ _ this served(2,3)] rows show ?thesis by (auto simp: decoded_def)
qed

subsection \<open>An answered acknowledgment closes its ids\<close>

lemma acknowledged_not_live:
  assumes "acknowledge st ids retry now db = (Inr a, db')" and "mailbox_inv db" and "i \<in> set ids"
  shows "\<not> live_id i (mbrows db')"
  using acknowledge_effect(1) [OF assms(1,2)] assms(3) by (simp add: live_id_ack_rows)

lemma enqueue_one_db [simp]: "rl_hubs (enqueue_one env m rl) = rl_hubs rl"
  by (auto simp: enqueue_one_def Let_def split: sum.split list.split option.split)

lemma enqueue_after_db [simp]: "rl_hubs (enqueue_after env i rows rl) = rl_hubs rl"
proof -
  have "rl_hubs (fold (enqueue_one env) ms rl) = rl_hubs rl" for ms
    by (induction ms arbitrary: rl) simp_all
  then show ?thesis by (simp add: enqueue_after_def enqueue_def split: option.split)
qed

lemma enqueue_ids_rows [simp]: "mbrows (db_of n (enqueue_ids env n i ids rl)) = mbrows (db_of n rl)"
proof (cases "archive_rows ids (db_of n rl)")
  case (Pair r db')
  with archive_rows_state [of "db_of n rl" ids] have "mbrows db' = mbrows (db_of n rl)" by (simp add: same_storeD)
  with Pair show ?thesis by (cases r) (simp_all add: enqueue_ids_def on_hub_eq)
qed

lemma on_d1_hubs [simp]: "rl_hubs (snd (on_d1 op rl)) = rl_hubs rl"
  by (simp add: on_d1_def Let_def split: prod.split)

lemma or_answer_d1_hubs [simp]:
  "rl_hubs (snd (or_answer (on_d1 op rl) f (\<lambda>m rl. (g m, rl)))) = rl_hubs rl"
  by (cases "op (rl_d1 rl)"; cases "fst (op (rl_d1 rl))") (auto simp: on_d1_def)

lemma handle_ack_closes:
  assumes k: "keeps_all owner C K env d0 rl" and b: "ab_identity b = n" "i \<in> set (ab_message_ids b)"
    and run: "handle_ack env n (Inr b) rl = (Inr (v, st), rl')" and ok: "200 \<le> st" "st < 300"
    and told: "ab_legacy b \<or> member ''missing'' v \<noteq> strings_json (ab_message_ids b)"
  shows "\<not> live_id i (mbrows (db_of n rl'))"
proof -
  obtain has s where has: "(if ab_legacy b then (True, rl) else has_mailbox n rl) = (has, s)"
    by (cases "if ab_legacy b then (True, rl) else has_mailbox n rl")
  have ks: "keeps_all owner C K env d0 s"
    using keeping.legacy_or_has_P [OF k, of "ab_legacy b" n] has by simp
  have has: "has" using told run has by (cases has; cases "ab_legacy b") (auto simp: handle_ack_def acked_json_def answer_def)
  from run \<open>(if _ then _ else _) = (has, s)\<close> has b(1) have "or_answer (ready_hub n n s) (refuse 500) (\<lambda>_ rl.
      or_answer (on_hub n (acknowledge (re_time env) (ab_message_ids b) (ab_retry b) (rl_now (replay env n n rl)))
          (replay env n n rl)) (\<lambda>e. refuse 500 (''mailbox acknowledge: '' @ e)) (ack_rest env n b)) = (Inr (v, st), rl')"
    by (simp add: handle_ack_def Let_def)
  then obtain u t where r: "ready_hub n n s = (Inr u, t)" and run2:
    "or_answer (on_hub n (acknowledge (re_time env) (ab_message_ids b) (ab_retry b) (rl_now (replay env n n t)))
          (replay env n n t)) (\<lambda>e. refuse 500 (''mailbox acknowledge: '' @ e)) (ack_rest env n b) = (Inr (v, st), rl')"
    by (rule or_answer_okE) (simp_all add: ok)
  have kt: "keeps_all owner C K env d0 t" using keeping.ready_hub_P [OF ks, of n n] r by simp
  let ?t = "replay env n n t"
  have inv: "mailbox_inv (db_of n ?t)" by (rule keeping.P_inv [OF keeping.replay_P [OF kt refl]])
  from run2 obtain a w where
    a: "on_hub n (acknowledge (re_time env) (ab_message_ids b) (ab_retry b) (rl_now ?t)) ?t = (Inr a, w)"
    and run3: "ack_rest env n b a w = (Inr (v, st), rl')" by (rule or_answer_okE) (simp_all add: ok)
  have "\<not> live_id i (mbrows (db_of n w))"
    using a acknowledged_not_live [OF _ inv b(2)] by (auto simp: on_hub_Inr)
  moreover have "mbrows (db_of n rl') = mbrows (db_of n w)"
  proof -
    have "mbrows (db_of n (snd (ack_rest env n b a w))) = mbrows (db_of n w)"
      using b(1) by (auto simp: ack_rest_def Let_def with_d1_def split: option.split)
    with run3 show ?thesis by simp
  qed
  ultimately show ?thesis by simp
qed

text \<open>Through any request but a confirmation, a hub keeps the ids it holds.\<close>

lemma row_change_told_mono:
  "row_change wanted acks (\<lambda>_. False) db db' \<Longrightarrow> row_change wanted acks told db db'"
  by (induction rule: row_change.induct)
     (rule rows_same rows_renewed rows_acked row_fresh; assumption | simp)+

lemma row_change_holds:
  "row_change wanted acks (\<lambda>_. False) db db' \<Longrightarrow> held_id i (mbrows db) \<Longrightarrow> held_id i (mbrows db')"
  by (induction rule: row_change.induct) (auto simp: live_held_fresh)

definition holds ::
  "(string \<rightharpoonup> string) \<Rightarrow> (string \<times> string) set \<Rightarrow> (string \<times> message) set \<Rightarrow> relay_env \<Rightarrow> d1_db \<Rightarrow>
     string \<Rightarrow> string \<Rightarrow> relay \<Rightarrow> bool" where
  "holds owner C K env d0 n i rl \<longleftrightarrow> keeps_all owner C K env d0 rl \<and> held_id i (mbrows (db_of n rl))"

interpretation holding: hub_parts env self "holds owner C K env d0 self i"
  "\<lambda>row. belongs owner (n_message_id row) self \<and> (self, n_message_id row) \<notin> C" "spares K self" "\<lambda>_. False"
  "\<lambda>i. i = self"
  for env self owner C K d0 i
proof
  fix rl db
  assume "holds owner C K env d0 self i rl" and "row_change
    (\<lambda>row. belongs owner (n_message_id row) self \<and> (self, n_message_id row) \<notin> C) (spares K self) (\<lambda>_. False)
    (db_of self rl) db"
  then show "holds owner C K env d0 self i (put_hub self db rl)"
    by (simp add: holds_def keeping.P_row row_change_told_mono row_change_holds)
next
  fix rl j r js
  assume "holds owner C K env d0 self i rl" "j = self" "r \<in> archived_view ` set (mbrows (db_of self rl))"
    "re_to_value env (archive_message (re_json_len env) r j) = Inr js"
  then show "holds owner C K env d0 self i (rl\<lparr>rl_queue := rl_queue rl @ [js]\<rparr>)"
    by (simp add: holds_def keeping.P_queue [of _ _ _ env _ rl j self r js])
next
  fix rl j ids r' d
  assume "holds owner C K env d0 self i rl" "j = self"
    "legacy_acknowledge j ids (re_retention env) (rl_d1 rl) = (r', d)"
  then show "holds owner C K env d0 self i (rl\<lparr>rl_d1 := d\<rparr>)"
    by (simp add: holds_def keeping.P_legacy [of _ _ _ env _ rl j self ids r' d])
qed (auto simp: holds_def intro: keeping.P_inv keeping.P_ready keeping.P_sends keeping.P_read)

lemma holding_hop:
  assumes h: "holds owner C K env d0 n i rl" and a: "asked owner C K d0 n req"
    and f: "fits (\<lambda>row. belongs owner (n_message_id row) n \<and> (n, n_message_id row) \<notin> C) (spares K n) (\<lambda>_. False)
      (\<lambda>i. i = n) req"
  shows "holds owner C K env d0 n i (snd (post_json env n req rl))"
proof -
  have held: "held_id i (mbrows (db_of n (snd (post_json env n req rl)))) \<and> keeps_all owner C K env d0 (snd (post_json env n req rl))"
  proof (rule post_json_state [where P = "\<lambda>rl. held_id i (mbrows (db_of n rl)) \<and> keeps_all owner C K env d0 rl"])
    fix rl assume "held_id i (mbrows (db_of n rl)) \<and> keeps_all owner C K env d0 rl"
    then have h: "holds owner C K env d0 n i rl" by (simp add: holds_def)
    from holding.hub_fetch_P [OF h f] show "held_id i (mbrows (db_of n (snd (hub_fetch env n req rl)))) \<and>
        keeps_all owner C K env d0 (snd (hub_fetch env n req rl))" by (simp add: holds_def)
    have "request_ok owner (rl_d1 rl) n req"
      using request_ok_closed [OF asked_request [OF a]] h by (simp add: holds_def keeps_all_def)
    with h show "held_id i (mbrows (db_of n (rl\<lparr>rl_inflight := rl_inflight rl @ [(n, req)]\<rparr>))) \<and>
        keeps_all owner C K env d0 (rl\<lparr>rl_inflight := rl_inflight rl @ [(n, req)]\<rparr>)"
      by (simp add: holds_def late_keeps)
  qed (use h in \<open>simp_all add: holds_def\<close>)
  then show ?thesis by (simp add: holds_def)
qed

lemma ack_on_hub_closes:
  assumes k: "keeps_all owner C K env d0 rl" and i: "i \<in> set ids" "held_id i (mbrows (db_of n rl))"
    and spare: "list_all (spares K n) ids"
    and run: "ack_on_hub env n ids legacy rl = (Inr (k', missing), rl')" and told: "legacy \<or> i \<notin> set missing"
  shows "\<not> live_id i (mbrows (db_of n rl'))" and "held_id i (mbrows (db_of n rl'))"
proof -
  let ?b = "\<lparr>ab_identity = n, ab_message_ids = ids, ab_legacy = legacy, ab_retry = False\<rparr>"
  let ?req = "PostAck (Inr ?b)"
  from run obtain v where post: "post_with_retry env n ?req rl = (Inr v, rl')"
    and m: "missing = (case decode_all as_str (member ''missing'' v) of Some m \<Rightarrow> m | None \<Rightarrow> [])"
    by (auto simp: ack_on_hub_def andThen_Inr_iff)
  have told': "legacy \<or> member ''missing'' v \<noteq> strings_json ids" using told m i(1) by auto
  have h: "holds owner C K env d0 n i rl" using k i(2) by (simp add: holds_def)
  have fit: "fits (\<lambda>row. belongs owner (n_message_id row) n \<and> (n, n_message_id row) \<notin> C) (spares K n) (\<lambda>_. False)
      (\<lambda>i. i = n) ?req" "asked owner C K d0 n ?req" using spare by (simp_all add: asked_def)
  from post obtain rl1 st req where h1: "holds owner C K env d0 n i rl1"
    and req: "req = ?req \<or> req = set_retry ?req"
    and served: "hub_fetch env n req rl1 = (Inr (v, st), rl')" "200 \<le> st" "st < 300"
    by (rule post_with_retry_served [where P = "holds owner C K env d0 n i"])
       (use h holding_hop [OF _ fit(2,1)] in \<open>auto simp: holds_def\<close>)
  from req fit(1) have "fits (\<lambda>row. belongs owner (n_message_id row) n \<and> (n, n_message_id row) \<notin> C) (spares K n)
      (\<lambda>_. False) (\<lambda>i. i = n) req" by auto
  from holding.hub_fetch_P [OF h1 this] served(1) show "held_id i (mbrows (db_of n rl'))"
    by (simp add: holds_def)
  obtain b where b: "req = PostAck (Inr b)" "ab_identity b = n" "ab_message_ids b = ids" "ab_legacy b = legacy"
    using req by auto
  have k1: "keeps_all owner C K env d0 rl1" using h1 by (simp add: holds_def)
  from served(1) b(1) have "handle_ack env n (Inr b) rl1 = (Inr (v, st), rl')" by simp
  with handle_ack_closes [OF k1 b(2) _ _ served(2,3)] i(1) b told' show "\<not> live_id i (mbrows (db_of n rl'))"
    by simp
qed

end
