(* ===== verification/Relay_Insert.thy ===== *)
theory Relay_Insert
  imports Relay_Theorems
begin

section \<open>The send's insert through hops that fail\<close>

text \<open>
  An insert that is retried after a lost answer: the hub's inbox is as it was before, or holds the
  message once at its end, and the answer says which. Three interpretations of \<open>hub_parts\<close> carry
  it: the two stages, and the hubs that are not the recipient's.
\<close>

definition message_new :: "new_row \<Rightarrow> message" where
  "message_new row = (n_message_id row, n_message_box row, n_sender row, Some (n_body row))"

definition before :: "new_row \<Rightarrow> message list \<Rightarrow> mailbox_db \<Rightarrow> bool" where
  "before row Q db \<longleftrightarrow> mailbox_inv db \<and> \<not> held_id (n_message_id row) (mbrows db) \<and> inbox db = Q"

definition after :: "new_row \<Rightarrow> message list \<Rightarrow> mailbox_db \<Rightarrow> bool" where
  "after row Q db \<longleftrightarrow> mailbox_inv db \<and> inbox db = Q @ [message_new row]"

lemma message_fresh: "message_of (fresh_row row now ts s) = message_new row"
  by (simp add: message_of_def fresh_row_def message_new_def)

lemma inbox_fresh:
  "mbrows db' = mbrows db @ [fresh_row row now ts s] \<Longrightarrow> inbox db' = inbox db @ [message_new row]"
  by (simp add: inbox_def live_rows_def message_fresh) (simp add: fresh_row_def)

lemma after_row:
  assumes "after row Q db"
  obtains h where "h \<in> set (mbrows db)" and "message_of h = message_new row" and "r_state h = live"
proof -
  have "message_new row \<in> set (inbox db)" using assms by (simp add: after_def)
  then show thesis using that by (auto simp: inbox_def live_rows_def)
qed

lemma held_idI: "h \<in> set rs \<Longrightarrow> r_message_id h = i \<Longrightarrow> held_id i rs"
  by (auto simp: held_id_def)

lemma after_held: "after row Q db \<Longrightarrow> held_id (n_message_id row) (mbrows db)"
  by (erule after_row) (simp add: message_of_def message_new_def held_idI)

lemma no_acks: "\<forall>i. w i \<longrightarrow> False \<Longrightarrow> ack_rows w now ts rs = rs"
proof -
  assume "\<forall>i. w i \<longrightarrow> False"
  then have "w = (\<lambda>_. False)" by auto
  then show ?thesis by (simp add: ack_rows_none)
qed

lemma change_stages:
  assumes "row_change wanted (\<lambda>_. False) (\<lambda>_. False) db db'" and "\<And>x. wanted x \<Longrightarrow> x = row"
  shows "before row Q db \<Longrightarrow> before row Q db' \<or> after row Q db' \<and> wanted row"
    and "after row Q db \<Longrightarrow> after row Q db'"
proof -
  note inv = row_change_inv [OF assms(1)]
  have renew: "inbox db' = inbox db" if "mbrows db' = renew_rows is now (mbrows db)" for "is" now
    using that by (simp add: inbox_def message_renew)
  show "before row Q db' \<or> after row Q db' \<and> wanted row" if "before row Q db"
    using assms(1)
  proof cases
    case (row_fresh x now ts)
    with assms(2) [of x] that inv inbox_fresh [OF row_fresh(4)] show ?thesis
      by (auto simp: before_def after_def)
  qed (use that inv renew in \<open>auto simp: before_def inbox_def no_acks\<close>)
  show "after row Q db'" if "after row Q db"
    using assms(1)
  proof cases
    case (row_fresh x now ts)
    with assms(2) [of x] after_held [OF that] show ?thesis by simp
  qed (use that inv renew in \<open>auto simp: after_def inbox_def no_acks\<close>)
qed

interpretation unsent: hub_parts env self "\<lambda>rl. before row Q (db_of self rl)"
  "\<lambda>_. False" "\<lambda>_. False" "\<lambda>_. False" "\<lambda>_. True"
  for env self row Q
proof
  fix rl db
  assume "before row Q (db_of self rl)" "row_change (\<lambda>_. False) (\<lambda>_. False) (\<lambda>_. False) (db_of self rl) db"
  then show "before row Q (db_of self (put_hub self db rl))" using change_stages(1) by fastforce
qed (simp_all add: before_def)

interpretation sent: hub_parts env self "\<lambda>rl. after row Q (db_of self rl)"
  "\<lambda>x. x = row" "\<lambda>_. False" "\<lambda>_. False" "\<lambda>_. True"
  for env self row Q
proof
  fix rl db
  assume "after row Q (db_of self rl)"
    "row_change (\<lambda>x. x = row) (\<lambda>_. False) (\<lambda>_. False) (db_of self rl) db"
  then show "after row Q (db_of self (put_hub self db rl))" using change_stages(2) by fastforce
qed (simp_all add: after_def)

interpretation sending: hub_parts env self "\<lambda>rl. before row Q (db_of self rl) \<or> after row Q (db_of self rl)"
  "\<lambda>x. x = row" "\<lambda>_. False" "\<lambda>_. False" "\<lambda>_. True"
  for env self row Q
proof
  fix rl db
  assume "before row Q (db_of self rl) \<or> after row Q (db_of self rl)"
    "row_change (\<lambda>x. x = row) (\<lambda>_. False) (\<lambda>_. False) (db_of self rl) db"
  then show "before row Q (db_of self (put_hub self db rl)) \<or> after row Q (db_of self (put_hub self db rl))"
    using change_stages [of "\<lambda>x. x = row"] by fastforce
qed (auto simp: before_def after_def)

text \<open>The other hubs: a request touches its own hub only.\<close>

definition others ::  "string \<Rightarrow> (string \<Rightarrow> hub) \<Rightarrow> relay \<Rightarrow> bool" where
  "others n H rl \<longleftrightarrow> mailbox_inv (db_of n rl) \<and> (\<forall>m. m \<noteq> n \<longrightarrow> rl_hubs rl m = H m)"

interpretation frame: hub_parts env self "others self H" "\<lambda>_. True" "\<lambda>_. True" "\<lambda>_. True" "\<lambda>_. True"
  for env self H
  by unfold_locales (auto simp: others_def dest: row_change_inv)

subsection \<open>One attempt\<close>

lemma insert_before:
  assumes "before row Q db" and "insert_mbx st row retry now RULED db = (Inr x, db')"
  shows "x = Stored \<and> after row Q db' \<or> (\<exists>f. x = Full f) \<and> before row Q db'"
proof -
  have inv: "mailbox_inv db'" using insert_inv [of db RULED st row retry now] RULED_small assms
    by (simp add: before_def)
  from assms(2) show ?thesis
  proof (cases rule: insert_Inr_cases)
    case (held h)
    from held_idI [OF held(1,2)] assms(1) show ?thesis by (simp add: before_def)
  next
    case (full f)
    with assms(1) show ?thesis by (auto simp: before_def inbox_same_store same_storeD)
  next
    case (stored n bts)
    with assms(1) inv inbox_fresh [OF stored(6)] show ?thesis by (simp add: before_def after_def)
  qed
qed

lemma insert_after:
  assumes "after row Q db" and "insert_mbx st row True now RULED db = (Inr x, db')"
  shows "x = Retried"
proof -
  obtain h where h: "h \<in> set (mbrows db)" "message_of h = message_new row"
    using after_row [OF assms(1)] by blast
  then have id: "r_message_id h = n_message_id row" by (simp add: message_of_def message_new_def)
  have "distinct (map r_message_id (mbrows db))" using assms(1) by (auto simp: after_def dest: rows_okD(1))
  then have "filter (\<lambda>r. r_message_id r = n_message_id row) (mbrows db) = [h]"
  proof (rule filter_id_cases [of _ "n_message_id row"])
    assume "n_message_id row \<notin> r_message_id ` set (mbrows db)"
    with held_idI [OF h(1) id] show ?thesis by (simp add: held_id_def)
  next
    fix r
    assume r: "filter (\<lambda>r. r_message_id r = n_message_id row) (mbrows db) = [r]"
    have "h \<in> set (filter (\<lambda>r. r_message_id r = n_message_id row) (mbrows db))" using h(1) id by simp
    with r show ?thesis by simp
  qed
  then have "sel_held (n_message_id row) (spend_fault db) =
      [[VText (n_sender row), VText (n_message_box row), opt_val (Some (n_body row))]]"
    using h(2) by (simp add: sel_held_def message_of_def message_new_def)
  with assms(2) show ?thesis
    by (auto simp: insert_mbx_def andThen_Inr_iff Let_def opt_val_def dest!: query_Inr)
qed

lemma handle_insert_answered:
  assumes run: "handle_insert env n (Inr b) rl = (Inr (v, st), rl')" and ok: "200 \<le> st" "st < 300"
  shows "before (ib_row b) Q (db_of n rl) \<Longrightarrow>
      inserted_answer v = Inr SendStored \<and> after (ib_row b) Q (db_of n rl') \<or>
      (\<exists>j. inserted_answer v = Inr (SendFull j)) \<and> before (ib_row b) Q (db_of n rl')"
    and "after (ib_row b) Q (db_of n rl) \<Longrightarrow> ib_retry b \<Longrightarrow> inserted_answer v = Inr SendStored"
proof -
  from run have "or_answer (ready_hub n (ib_identity b) rl) (refuse 500) (\<lambda>_ rl.
      or_answer (on_hub n (insert_mbx (re_time env) (ib_row b) (ib_retry b)
          (rl_now (replay env n (ib_identity b) rl)) RULED) (replay env n (ib_identity b) rl))
        (\<lambda>e. refuse 500 (''mailbox insert: '' @ e)) (insert_answers env n b)) = (Inr (v, st), rl')"
    by (simp add: handle_insert_def Let_def)
  then obtain u s where r: "ready_hub n (ib_identity b) rl = (Inr u, s)" and run2:
    "or_answer (on_hub n (insert_mbx (re_time env) (ib_row b) (ib_retry b)
          (rl_now (replay env n (ib_identity b) s)) RULED) (replay env n (ib_identity b) s))
        (\<lambda>e. refuse 500 (''mailbox insert: '' @ e)) (insert_answers env n b) = (Inr (v, st), rl')"
    by (rule or_answer_okE) (simp_all add: ok)
  let ?s = "replay env n (ib_identity b) s"
  from run2 obtain x t where "on_hub n (insert_mbx (re_time env) (ib_row b) (ib_retry b) (rl_now ?s) RULED) ?s = (Inr x, t)"
    and out: "insert_answers env n b x t = (Inr (v, st), rl')" by (rule or_answer_okE) (simp_all add: ok)
  then obtain db' where ins: "insert_mbx (re_time env) (ib_row b) (ib_retry b) (rl_now ?s) RULED (db_of n ?s) = (Inr x, db')"
    and t: "t = put_hub n db' ?s" by (auto simp: on_hub_Inr)
  show "inserted_answer v = Inr SendStored \<and> after (ib_row b) Q (db_of n rl') \<or>
      (\<exists>j. inserted_answer v = Inr (SendFull j)) \<and> before (ib_row b) Q (db_of n rl')"
    if "before (ib_row b) Q (db_of n rl)"
  proof -
    have "before (ib_row b) Q (db_of n ?s)"
      using unsent.replay_P unsent.ready_hub_P [OF that, of "ib_identity b"] r by fastforce
    from insert_before [OF this ins] t sent.enqueue_ids_P [where rl = t and self = n and row = "ib_row b" and Q = Q] out show ?thesis
      by (auto simp: insert_answers_def answer_def result_json_def inserted_answer_def)
  qed
  show "inserted_answer v = Inr SendStored" if "after (ib_row b) Q (db_of n rl)" and "ib_retry b"
  proof -
    have "after (ib_row b) Q (db_of n ?s)"
      using sent.replay_P sent.ready_hub_P [OF that(1), of "ib_identity b"] r by fastforce
    with ins that(2) have "x = Retried" by (simp add: insert_after)
    with out show ?thesis by (auto simp: insert_answers_def answer_def inserted_answer_def)
  qed
qed

subsection \<open>The insert's two attempts\<close>

lemma insert_posts:
  assumes post: "post_with_retry env n (PostInsert (Inr b)) rl = (r, rl')"
    and b: "\<not> ib_retry b" and start: "before (ib_row b) Q (db_of n rl)"
  shows "case r of
      Inr v \<Rightarrow> inserted_answer v = Inr SendStored \<and> after (ib_row b) Q (db_of n rl') \<or>
        (\<exists>j. inserted_answer v = Inr (SendFull j)) \<and> before (ib_row b) Q (db_of n rl')
    | Inl e \<Rightarrow> before (ib_row b) Q (db_of n rl') \<or> after (ib_row b) Q (db_of n rl')"
proof (cases "re_hub_unbound env")
  case None
  let ?P = "\<lambda>rl. before (ib_row b) Q (db_of n rl) \<or> after (ib_row b) Q (db_of n rl)"
  let ?b' = "b\<lparr>ib_retry := True\<rparr>"
  have keeps: "?P (snd (post_json env n (PostInsert (Inr x)) s))" if "?P s" "ib_row x = ib_row b" for s x
    using that by (intro post_json_state [where P = ?P] sending.hub_fetch_P) simp_all
  obtain r1 s where one: "post_json env n (PostInsert (Inr b)) rl = (r1, s)"
    by (cases "post_json env n (PostInsert (Inr b)) rl")
  show ?thesis
  proof (cases r1)
    case (Inr v)
    with post None one have out: "r = Inr v" "rl' = s" by (simp_all add: post_with_retry_def)
    from one [unfolded Inr] obtain st where
      "handle_insert env n (Inr b) (rl\<lparr>rl_hops := tl (rl_hops rl)\<rparr>) = (Inr (v, st), s)" "200 \<le> st" "st < 300"
      by (rule post_json_served) simp
    from handle_insert_answered(1) [OF this, of Q] start out show ?thesis by simp
  next
    case (Inl e)
    have Ps: "?P s" using keeps [of rl b] start one by simp
    obtain r2 t where two: "post_json env n (PostInsert (Inr ?b')) s = (r2, t)"
      by (cases "post_json env n (PostInsert (Inr ?b')) s")
    have Pt: "?P t" using keeps [OF Ps, of ?b'] two by simp
    show ?thesis
    proof (cases r2)
      case (Inl e2)
      with post None one \<open>r1 = Inl e\<close> two Pt show ?thesis by (auto simp: post_with_retry_def)
    next
      case (Inr v)
      with post None one \<open>r1 = Inl e\<close> two have out: "r = Inr v" "rl' = t" by (auto simp: post_with_retry_def)
      let ?s = "s\<lparr>rl_hops := tl (rl_hops s)\<rparr>"
      from two [unfolded Inr] obtain st where
        h: "handle_insert env n (Inr ?b') ?s = (Inr (v, st), t)" "200 \<le> st" "st < 300"
        by (rule post_json_served) simp
      from Ps show ?thesis
      proof
        assume "before (ib_row b) Q (db_of n s)"
        with handle_insert_answered(1) [OF h, of Q] out show ?thesis by simp
      next
        assume a: "after (ib_row b) Q (db_of n s)"
        have "after (ib_row b) Q (db_of n (snd (hub_fetch env n (PostInsert (Inr ?b')) ?s)))"
          by (rule sent.hub_fetch_P) (use a in simp_all)
        with handle_insert_answered(2) [OF h, of Q] a out h(1) show ?thesis by simp
      qed
    qed
  qed
qed (use post start in \<open>auto simp: post_with_retry_def\<close>)

lemma others_posts:
  assumes "others n H rl" and "\<And>x. fits (\<lambda>_. True) (\<lambda>_. True) (\<lambda>_. True) (\<lambda>_. True) req"
  shows "others n H (snd (post_with_retry env n req rl))"
proof -
  have keeps: "others n H (snd (post_json env n q s))"
    if "others n H s" "fits (\<lambda>_. True) (\<lambda>_. True) (\<lambda>_. True) (\<lambda>_. True) q" for s q
    using that by (intro post_json_state [where P = "others n H"] frame.hub_fetch_P) (simp_all add: others_def)
  obtain r1 s where one: "post_json env n req rl = (r1, s)" by (cases "post_json env n req rl")
  obtain r2 t where two: "post_json env n (set_retry req) s = (r2, t)" by (cases "post_json env n (set_retry req) s")
  have "others n H s" using keeps [OF assms] one by simp
  with keeps [of s "set_retry req"] assms two one show ?thesis
    by (auto simp: post_with_retry_def split: option.split sum.split)
qed

end
