(* ===== verification/Relay_Correct.thy ===== *)
theory Relay_Correct
  imports Relay_Insert
begin

section \<open>The relay end to end\<close>

text \<open>
  The theorems over whole runs of the relay: hubs, D1, the archive queue and the hops between them.
  The second half shows that a relay nothing fails on answers, and takes the theorems through a
  stored, acknowledged and listed message.
\<close>

subsection \<open>The theorems\<close>

definition fresh_relay :: "d1_db \<Rightarrow> relay" where
  "fresh_relay d =
     \<lparr>rl_hubs = (\<lambda>_. \<lparr>hub_db = fresh_hub [], schema_ready = False\<rparr>), rl_d1 = d, rl_queue = [], rl_sends = [],
      rl_hops = [], rl_inflight = [], rl_now = 0\<rparr>"

lemma fresh_relay_inv: "d1_ok owner d \<Longrightarrow> relay_inv owner {} {} env (fresh_relay d)"
  by (simp add: relay_inv_def fresh_relay_def hub_ok_def fresh_hub_def rows_ok_def held_id_def)

lemma relay_reaches_inv:
  assumes "env_ok env" and "relay_inv owner C K env rl"
    and "reaches (relay_do env) (relay_call_ok owner C K) rl rl'"
  shows "relay_inv owner C K env rl'"
  using relay.reaches_inv [OF assms(3), of] assms(1,2) by blast

lemma replied_Inr: "replied f r = (Inr y, s) \<longleftrightarrow> (\<exists>a. r = (Inr a, s) \<and> y = f a)"
  by (auto simp: replied_def andThen_Inr_iff)

text \<open>With no owner named, nothing is asked of a call.\<close>

lemma any_call_ok: "relay_call_ok Map.empty {} {} c"
  by (cases "(Map.empty :: string \<rightharpoonup> string, {} :: (string \<times> string) set, {} :: (string \<times> message) set, c)"
      rule: relay_call_ok.cases) (simp_all add: spares_def list_all_iff)

lemma reaches_mono: "reaches f ok s t \<Longrightarrow> (\<And>c. ok' c) \<Longrightarrow> reaches f ok' s t"
  by (induction rule: reaches.induct) (blast intro: reaches_refl reaches_step)+

lemma shut_adds:
  "relay_inv owner C K env rl \<Longrightarrow> owner i \<noteq> None \<Longrightarrow> shut (rl_d1 rl) (db_of n rl) i \<Longrightarrow> relay_inv owner (insert (n, i) C) K env rl"
  by (auto simp: relay_inv_def hub_ok_def)

lemma inbox_adds:
  "relay_inv owner C K env rl \<Longrightarrow> msg \<in> set (inbox (db_of n rl)) \<Longrightarrow> relay_inv owner C (insert (n, msg) K) env rl"
  by (auto simp: relay_inv_def hub_ok_def)

text \<open>
  What the theorems ask of a run, besides the calls being the relay's: \<open>env_ok\<close> (the serialiser reads
  back what it wrote, and at most 98 retention prefixes are configured) and a D1 that starts with
  every row of version 2 or more marked acknowledged. A client may send any id to anybody; only the
  theorem on acknowledgments asks that the one id it is about has one recipient.
\<close>

text \<open>
  C7 (relay_state_consistent). From empty hubs and a D1 whose rows of version 2 are marked acknowledged,
  after any calls of the relay, whatever ids they send to whom, under any faults (statements, D1
  round trips, hops lost, unanswered or late, queue refusals, redelivery in any order, evictions),
  with a serialiser that reads back what it wrote and at most 98 retention prefixes: every hub's
  rows are well-formed, every archive message on the queue is version 1 with an insert or version 2
  with an acknowledgment, D1's ids are distinct and its versions in range, every D1 row of version 2
  is marked acknowledged, and every insert, acknowledgment or listing in flight names the identity of
  the hub it goes to.
\<close>

theorem relay_state_consistent:
  assumes "env_ok env" and "d1_ok Map.empty d"
    and "reaches (relay_do env) (\<lambda>_. True) (fresh_relay d) rl"
  shows "(\<forall>n. mailbox_inv (db_of n rl)) \<and>
     (\<forall>js\<in>set (rl_queue rl). \<forall>m. re_from_value env js = Inr m \<longrightarrow>
        am_version m = 1 \<and> am_change m = Insert \<or> am_version m = 2 \<and> am_change m = Acknowledge) \<and>
     table_ok (rl_d1 rl) \<and>
     (\<forall>i m. row_of i (rl_d1 rl) = Some m \<longrightarrow> 2 \<le> dm_version m \<longrightarrow> dm_acknowledged_at m \<noteq> None) \<and>
     (\<forall>(n, req)\<in>set (rl_inflight rl). fits (\<lambda>_. True) (\<lambda>_. True) (\<lambda>_. True) (\<lambda>i. i = n) req)"
proof -
  have "reaches (relay_do env) (relay_call_ok Map.empty {} {}) (fresh_relay d) rl"
    using assms(3) by (rule reaches_mono) (rule any_call_ok)
  from relay_reaches_inv [OF assms(1) fresh_relay_inv [OF assms(2)] this]
  have inv: "relay_inv Map.empty {} {} env rl" .
  then show ?thesis
    by (auto simp: relay_inv_def hub_ok_def d1_ok_def row_fits_def message_fits_def request_ok_def intro: fits_mono)
qed

text \<open>
  C4 (acknowledged_never_listed). With a serialiser that reads back what it wrote and at most 98
  retention prefixes, for an id that is only ever sent to one recipient (other ids go to anybody;
  the code checks neither), and a D1 at the start whose ids are distinct, whose rows of version 2
  are marked acknowledged and whose row of that id, where it has one, is that recipient's:
  once the recipient's acknowledgment of that message, which its hub held, was answered, no later
  listing of the recipient that is answered shows the message again, in whichever order the
  archive's messages arrive and are redelivered, whatever requests land late and whatever fails, as
  long as the id is not inserted at the recipient's hub again. An answer in the current form has to
  leave the id out of its missing ones; one in the legacy form counts as it is.
\<close>

theorem acknowledged_never_listed:
  assumes "env_ok env" and "d1_ok [i \<mapsto> n] d"
    and "reaches (relay_do env) (relay_call_ok [i \<mapsto> n] {} {}) (fresh_relay d) rl"
    and "held_id i (mbrows (db_of n rl))"
    and "relay_do env (CallAck n ids legacy) rl = (Inr (RepAcked k missing), rl1)"
    and "i \<in> set ids" and "legacy \<or> i \<notin> set missing"
    and "reaches (relay_do env) (relay_call_ok [i \<mapsto> n] {(n, i)} {}) rl1 rl2"
    and "relay_do env (CallList n mbox) rl2 = (Inr (RepListed rows), rl3)"
  shows "Some i \<notin> m_message_id ` set rows"
proof -
  let ?own = "[i \<mapsto> n]"
  have inv: "relay_inv ?own {} {} env rl" by (rule relay_reaches_inv [OF assms(1) fresh_relay_inv [OF assms(2)] assms(3)])
  then have keep: "keeps_all ?own {} {} env (rl_d1 rl) rl" using assms(1) by (simp add: keeps_all_def)
  have spare: "list_all (spares {} n) ids" by (simp add: spares_def list_all_iff)
  from assms(5) have ack: "ack_on_hub env n ids legacy rl = (Inr (k, missing), rl1)"
    by (auto simp: replied_Inr)
  note closed = ack_on_hub_closes [OF keep assms(6,4) spare ack assms(7)]
  have "relay_inv ?own {} {} env rl1"
    using relay.step_inv [of env ?own "{}" "{}" rl "CallAck n ids legacy"] assms(1,5) inv spare by simp
  then have "relay_inv ?own {(n, i)} {} env rl1" using closed by (simp add: shut_adds shut_def)
  from relay_reaches_inv [OF assms(1) this assms(8)] assms(1)
  have "keeps_all ?own {(n, i)} {} env (rl_d1 rl2) rl2" by (simp add: keeps_all_def)
  then show ?thesis by (rule list_on_hub_hides) (use assms(9) in \<open>auto simp: replied_Inr\<close>)
qed

text \<open>
  C5 (stored_until_acknowledged). With a serialiser that reads back what it wrote and at most 98
  retention prefixes, and a D1 at the start whose rows of version 2 are marked acknowledged: after
  any calls, whatever ids they send to whom, an unpaid send (no payment key, so the row goes to the
  hub) of an id the recipient's hub does not hold yet, answered as stored, puts the message in the
  recipient's inbox. There it stays with its box, sender and body through any later calls and
  faults, confirmations and evictions included, as long as the recipient calls no acknowledgment of
  that id and none lands late.
\<close>

theorem stored_until_acknowledged:
  assumes "env_ok env" and "d1_ok Map.empty d"
    and "reaches (relay_do env) (\<lambda>_. True) (fresh_relay d) rl"
    and "\<not> held_id mid (mbrows (db_of n rl))"
    and "relay_do env (CallInsert mbox mid sender n body None) rl = (Inr (RepInserted SendStored), rl1)"
    and "reaches (relay_do env) (relay_call_ok Map.empty {} {(n, (mid, mbox, sender, Some body))}) rl1 rl2"
  shows "(mid, mbox, sender, Some body) \<in> set (inbox (db_of n rl2))"
proof -
  let ?row = "\<lparr>n_message_id = mid, n_message_box = mbox, n_sender = sender, n_body = body\<rparr>"
  let ?b = "\<lparr>ib_identity = n, ib_row = ?row, ib_retry = False\<rparr>"
  let ?msg = "(mid, mbox, sender, Some body)"
  have "reaches (relay_do env) (relay_call_ok Map.empty {} {}) (fresh_relay d) rl"
    using assms(3) by (rule reaches_mono) (rule any_call_ok)
  then have inv: "relay_inv Map.empty {} {} env rl"
    by (rule relay_reaches_inv [OF assms(1) fresh_relay_inv [OF assms(2)]])
  then have "before ?row (inbox (db_of n rl)) (db_of n rl)"
    using assms(4) by (simp add: before_def relay_inv_def hub_ok_def)
  moreover obtain v where post: "post_with_retry env n (PostInsert (Inr ?b)) rl = (Inr v, rl1)"
    and v: "inserted_answer v = Inr SendStored"
    using assms(5) by (auto simp: replied_Inr insert_message_on_hub_def andThen_Inr_iff)
  ultimately have "after ?row (inbox (db_of n rl)) (db_of n rl1)"
    using insert_posts [OF post, of "inbox (db_of n rl)"] v by simp
  then have "?msg \<in> set (inbox (db_of n rl1))" by (simp add: after_def message_new_def)
  moreover have "relay_inv Map.empty {} {} env rl1"
    using relay.step_inv [of env Map.empty "{}" "{}" rl "CallInsert mbox mid sender n body None"] assms(1,5) inv by simp
  ultimately have "relay_inv Map.empty {} {(n, ?msg)} env rl1" by (simp add: inbox_adds)
  from relay_reaches_inv [OF assms(1) this assms(6)] show ?thesis by (simp add: relay_inv_def hub_ok_def)
qed

text \<open>
  C6 (insert_on_hub_exact). One send's insert at the recipient's hub, with its one retry and whatever
  becomes of either hop or of any statement: for an id the hub does not hold, \<open>Stored\<close> means the
  message was appended to the inbox exactly once, \<open>Full\<close> that the inbox is as it was, an error that
  it is one of the two, and the retry never takes the send's own row for a duplicate. No other hub
  is touched.
\<close>

theorem insert_on_hub_exact:
  assumes "mailbox_inv (db_of n rl)" and "\<not> held_id mid (mbrows (db_of n rl))"
    and "insert_message_on_hub env mbox mid sender n body None rl = (r, rl')"
  shows "(case r of
      Inr SendStored \<Rightarrow> inbox (db_of n rl') = inbox (db_of n rl) @ [(mid, mbox, sender, Some body)]
    | Inr (SendFull _) \<Rightarrow> inbox (db_of n rl') = inbox (db_of n rl)
    | Inr SendDuplicate \<Rightarrow> False
    | Inl _ \<Rightarrow> inbox (db_of n rl') \<in>
        {inbox (db_of n rl), inbox (db_of n rl) @ [(mid, mbox, sender, Some body)]}) \<and>
    (\<forall>m. m \<noteq> n \<longrightarrow> rl_hubs rl' m = rl_hubs rl m)"
proof -
  let ?row = "\<lparr>n_message_id = mid, n_message_box = mbox, n_sender = sender, n_body = body\<rparr>"
  let ?req = "PostInsert (Inr \<lparr>ib_identity = n, ib_row = ?row, ib_retry = False\<rparr>)"
  obtain x s where post: "post_with_retry env n ?req rl = (x, s)" by (cases "post_with_retry env n ?req rl")
  with assms(3) have out: "rl' = s" "r = (case x of Inl e \<Rightarrow> Inl e | Inr v \<Rightarrow> inserted_answer v)"
    by (auto simp: insert_message_on_hub_def andThen_def split: sum.splits)
  have "others n (rl_hubs rl) (snd (post_with_retry env n ?req rl))"
    by (rule others_posts) (simp_all add: others_def assms(1))
  then have "\<forall>m. m \<noteq> n \<longrightarrow> rl_hubs rl' m = rl_hubs rl m" using post out by (simp add: others_def)
  moreover have "before ?row (inbox (db_of n rl)) (db_of n rl)" using assms(1,2) by (simp add: before_def)
  with insert_posts [OF post, of "inbox (db_of n rl)"] out have "case r of
      Inr SendStored \<Rightarrow> inbox (db_of n rl') = inbox (db_of n rl) @ [(mid, mbox, sender, Some body)]
    | Inr (SendFull _) \<Rightarrow> inbox (db_of n rl') = inbox (db_of n rl)
    | Inr SendDuplicate \<Rightarrow> False
    | Inl _ \<Rightarrow> inbox (db_of n rl') \<in>
        {inbox (db_of n rl), inbox (db_of n rl) @ [(mid, mbox, sender, Some body)]}"
    by (cases x) (auto simp: before_def after_def message_new_def)
  ultimately show ?thesis by blast
qed

subsection \<open>A healthy relay answers\<close>

definition healthy :: "relay_env \<Rightarrow> string \<Rightarrow> relay \<Rightarrow> bool" where
  "healthy env n rl \<longleftrightarrow> re_d1_unbound env = None \<and> re_hub_unbound env = None \<and> n \<noteq> [] \<and>
     ready (db_of n rl) \<and> schema_ready (rl_hubs rl n) \<and>
     map_of (mailbox_meta (db_of n rl)) ''identity'' = Some n \<and> rl_hops rl = [] \<and> d_script (rl_d1 rl) = []"

lemma identity_of_ready: "ready db \<Longrightarrow> identity_of db = (Inr (map_of (mailbox_meta db) ''identity''), db)"
proof -
  assume r: "ready db"
  have "identity_of db = (fst (identity_of db), db)"
    using identity_of_state [of db] spend_fault_ready [OF r] by (metis prod.collapse)
  moreover obtain x where "fst (identity_of db) = Inr x"
    using r by (simp add: identity_of_def)
  ultimately show ?thesis using identity_of_Inr(1) by metis
qed

lemma bind_identity_bound:
  assumes "ready db" and "map_of (mailbox_meta db) ''identity'' = Some n" and "n \<noteq> []"
  shows "bind_identity n db = (Inr (), db)"
proof -
  have "''identity'' \<in> fst ` set (mailbox_meta db)"
    using assms(2) by (metis map_of_eq_None_iff option.distinct(1))
  with assms show ?thesis by (simp add: bind_identity_def identity_of_ready)
qed

lemma renew_meta: "mailbox_meta (snd (renew_loop is now db)) = mailbox_meta db"
proof (induction "is" arbitrary: db)
  case (Cons i "is")
  have "mailbox_meta (snd (andThen (exec [ROWS] (upd_enqueued i now) db) (\<lambda>_. renew_loop is now))) = mailbox_meta db"
  proof (rule andThen_state)
    show "mailbox_meta (snd (exec [ROWS] (upd_enqueued i now) db)) = mailbox_meta db"
      by (rule exec_state) (auto simp: upd_enqueued_def)
  qed (simp add: Cons.IH)
  then show ?case by simp
qed simp

lemma take_owed_due_meta: "mailbox_meta (snd (take_owed_due now db)) = mailbox_meta db"
  unfolding take_owed_due_def Let_def
  by (rule andThen_state, simp, rule andThen_state) (simp_all add: renew_meta)

lemma enqueue_after_keeps [simp]:
  "rl_hops (enqueue_after env i rows rl) = rl_hops rl" "rl_d1 (enqueue_after env i rows rl) = rl_d1 rl"
proof -
  have "rl_hops (fold (enqueue_one env) ms rl) = rl_hops rl \<and> rl_d1 (fold (enqueue_one env) ms rl) = rl_d1 rl" for ms
    by (induction ms arbitrary: rl)
       (auto simp: enqueue_one_def Let_def split: sum.split list.split option.split)
  then show "rl_hops (enqueue_after env i rows rl) = rl_hops rl" "rl_d1 (enqueue_after env i rows rl) = rl_d1 rl"
    by (simp_all add: enqueue_after_def enqueue_def split: option.split)
qed

lemma schema_ready_put [simp]: "schema_ready (rl_hubs (put_hub n db rl) n) = schema_ready (rl_hubs rl n)"
  by (simp add: put_hub_def)

lemma healthy_put: "healthy env n rl \<Longrightarrow> ready db \<Longrightarrow> mailbox_meta db = mailbox_meta (db_of n rl) \<Longrightarrow>
    healthy env n (put_hub n db rl)"
  by (simp add: healthy_def)

lemma healthy_replay:
  assumes "healthy env n rl"
  shows "healthy env n (replay env n n rl)"
proof -
  obtain rows db' where t: "take_owed_due (rl_now rl) (db_of n rl) = (Inr rows, db')" "ready db'"
    using take_owed_due_ready [of "db_of n rl" "rl_now rl"] assms by (auto simp: healthy_def)
  have "mailbox_meta db' = mailbox_meta (db_of n rl)"
    using take_owed_due_meta [of "rl_now rl" "db_of n rl"] t(1) by simp
  with healthy_put [OF assms t(2)] have "healthy env n (put_hub n db' rl)" by simp
  then show ?thesis using t(1) by (simp add: replay_def on_hub_eq healthy_def)
qed

lemma healthy_ready: "healthy env n rl \<Longrightarrow> ready_hub n n rl = (Inr (), rl)"
  by (simp add: ready_hub_def healthy_def on_hub_eq bind_identity_bound)

lemma held_loop_ready: "ready db \<Longrightarrow> \<exists>h. held_loop cs held db = (Inr h, db)"
  by (induction cs arbitrary: held) auto

lemma same_d1: "rl\<lparr>rl_d1 := rl_d1 rl\<rparr> = (rl :: relay)"
  by (cases rl) simp

lemma healthy_listing:
  assumes "healthy env n rl"
  shows "\<exists>rows rl'. list_on_hub env n mbox rl = (Inr rows, rl')"
proof -
  let ?b = "\<lparr>lb_identity = n, lb_message_box = mbox, lb_legacy = True, lb_against = []\<rparr>"
  let ?rl = "rl\<lparr>rl_hops := tl (rl_hops rl)\<rparr>"
  have h: "healthy env n ?rl" using assms by (simp add: healthy_def)
  let ?s = "replay env n n ?rl"
  have hs: "healthy env n ?s" by (rule healthy_replay [OF h])
  then have r: "ready (db_of n ?s)" and d: "d_script (rl_d1 ?s) = []" and u: "re_d1_unbound env = None"
    by (simp_all add: healthy_def)
  obtain rows where l: "list_mbx mbox LIST_LIMIT LIST_INLINE_BYTES (db_of n ?s) = (Inr rows, db_of n ?s)"
    using r by (simp add: list_mbx_def)
  obtain d1 where d1: "list_messages n mbox (rl_d1 ?s) = (Inr d1, rl_d1 ?s)"
    using list_messages_clean [OF d] by blast
  obtain held where held: "held_ids (List.map_filter m_message_id d1) (db_of n ?s) = (Inr held, db_of n ?s)"
    using held_loop_ready [OF r] by (auto simp: held_ids_def)
  have "handle_list env n (Inr ?b) ?rl =
      (Inr (answer (JObj [(''messages'', messages_json (merge_mbx d1 rows held D1First LIST_LIMIT LIST_INLINE_BYTES))])), ?s)"
    using healthy_ready [OF h] l d1 held u
    by (simp add: handle_list_def list_merged_def with_d1_def on_hub_eq on_d1_def Let_def
        spend_fault_ready [OF r] same_d1)
  moreover have "rl_hops rl = []" "re_hub_unbound env = None" using assms by (simp_all add: healthy_def)
  ultimately show ?thesis
    by (simp add: list_on_hub_def post_with_retry_def post_json_def hop_fetch_def answer_def decoded_def)
qed


lemma acknowledge_answers:
  assumes "ready db"
  shows "\<exists>out db'. acknowledge st ids retry now db = (Inr out, db') \<and> ready db' \<and> mailbox_meta db' = mailbox_meta db"
proof -
  have "ready db \<Longrightarrow> mailbox_meta db = M \<Longrightarrow>
      \<exists>out' db'. ack_loop ids retry i ts seen out db = (Inr out', db') \<and> ready db' \<and> mailbox_meta db' = M"
    for i ts seen out M
  proof (induction ids arbitrary: seen out db)
    case (Cons i ids)
    then show ?case by (auto simp: upd_ack_def move_counters_def split: list.split option.split)
  qed simp
  with assms show ?thesis by (simp add: acknowledge_def)
qed

lemma archive_rows_ready: "ready db \<Longrightarrow> \<exists>rows. archive_rows ids db = (Inr rows, db)"
proof -
  assume "ready db"
  then have "\<exists>rows. archive_rows_loop cs out db = (Inr rows, db)" for cs out
    by (induction cs arbitrary: out) (auto simp: spend_fault_ready)
  then show ?thesis by (simp add: archive_rows_def)
qed

lemma healthy_enqueue_ids:
  assumes h: "healthy env n rl"
  shows "healthy env n (enqueue_ids env n n ids rl)" and "db_of n (enqueue_ids env n n ids rl) = db_of n rl"
proof -
  from h obtain rows where "archive_rows ids (db_of n rl) = (Inr rows, db_of n rl)"
    using archive_rows_ready by (auto simp: healthy_def)
  with h show "healthy env n (enqueue_ids env n n ids rl)" "db_of n (enqueue_ids env n n ids rl) = db_of n rl"
    by (simp_all add: enqueue_ids_def on_hub_eq healthy_def)
qed

lemma replay_live:
  "live_id i (mbrows (db_of n (replay env n j rl))) \<longleftrightarrow> live_id i (mbrows (db_of n rl))"
  "mailbox_inv (db_of n rl) \<Longrightarrow> mailbox_inv (db_of n (replay env n j rl))"
proof -
  have db: "db_of n (replay env n j rl) = snd (take_owed_due (rl_now rl) (db_of n rl))"
    by (auto simp: replay_def on_hub_eq split: prod.split sum.split)
  have ch: "row_changes (\<lambda>_. False) (\<lambda>_. False) (\<lambda>_. False) (db_of n rl) (db_of n (replay env n j rl))"
    unfolding db by (rule take_owed_due_changes)
  then show "mailbox_inv (db_of n rl) \<Longrightarrow> mailbox_inv (db_of n (replay env n j rl))" by (rule row_changes_inv)
  from ch show "live_id i (mbrows (db_of n (replay env n j rl))) \<longleftrightarrow> live_id i (mbrows (db_of n rl))"
  proof (induction rule: rtranclp_induct)
    case (step y z)
    from step(2) have "live_id i (mbrows z) \<longleftrightarrow> live_id i (mbrows y)"
      by (cases rule: row_change.cases) (auto simp: live_id_ack_rows)
    with step(3) show ?case by simp
  qed simp
qed

lemma healthy_ack:
  assumes h: "healthy env n rl" and inv: "mailbox_inv (db_of n rl)" and lv: "\<forall>i\<in>set ids. live_id i (mbrows (db_of n rl))"
  shows "\<exists>k rl'. ack_on_hub env n ids True rl = (Inr (k, []), rl') \<and> healthy env n rl'"
proof -
  let ?b = "\<lparr>ab_identity = n, ab_message_ids = ids, ab_legacy = True, ab_retry = False\<rparr>"
  let ?rl = "rl\<lparr>rl_hops := tl (rl_hops rl)\<rparr>"
  have h0: "healthy env n ?rl" using h by (simp add: healthy_def)
  let ?s = "replay env n n ?rl"
  have hs: "healthy env n ?s" by (rule healthy_replay [OF h0])
  then obtain out db' where a: "acknowledge (re_time env) ids False (rl_now ?s) (db_of n ?s) = (Inr out, db')"
    and db': "ready db'" "mailbox_meta db' = mailbox_meta (db_of n ?s)"
    using acknowledge_answers [of "db_of n ?s"] unfolding healthy_def by blast
  have inv': "mailbox_inv (db_of n ?s)" by (rule replay_live(2)) (simp add: inv)
  have "a_missing out = []"
    using acknowledge_effect(3) [OF a inv'] lv by (auto simp: ack_counts_def replay_live filter_empty_conv set_dedup)
  moreover have "healthy env n (enqueue_ids env n n (a_acknowledged out) (put_hub n db' ?s))"
    by (intro healthy_enqueue_ids healthy_put hs db')
  ultimately show ?thesis using healthy_ready [OF h0] a h
    by (auto simp: ack_on_hub_def post_with_retry_def post_json_def hop_fetch_def answer_def decoded_def
        handle_ack_def ack_rest_def on_hub_eq Let_def acked_json_def strings_json_def decode_all_def healthy_def)
qed

subsection \<open>The theorems at work\<close>

definition demo_env :: relay_env where
  "demo_env =
     \<lparr>re_d1_unbound = None, re_queue_unbound = None, re_hub_unbound = None,
      re_retention = \<lparr>rc_prefixes = []\<rparr>, re_time = demo_time, re_json_len = (\<lambda>_. Some 0),
      re_to_value = (\<lambda>m. if am_version m < 2 ^ 64 then Inr (archive_message_json m) else Inl ''u64''),
      re_from_value = (\<lambda>v. case archive_message_of_json v of Some m \<Rightarrow> Inr m | None \<Rightarrow> Inl ''invalid''),
      re_decode_error = (\<lambda>_. ''invalid''), re_hash_order = (\<lambda>_. [])\<rparr>"

lemma demo_env_ok: "env_ok demo_env"
  by (auto simp: env_ok_def demo_env_def archive_message_roundtrip split: if_splits)

text \<open>A relay whose hub \<open>alice\<close> is laid out and named, and one whose hub also holds the message.\<close>

definition alice_laid :: mailbox_db where
  "alice_laid = demo_laid\<lparr>mailbox_meta := [(''identity'', ''alice'')]\<rparr>"

definition alice_db :: mailbox_db where
  "alice_db = alice_laid\<lparr>mbrows := [fresh_row demo_new 0 (demo_time 0) 1], last_seq := 1,
                        counters_row := Some (1, 5)\<rparr>"

definition demo_relay :: "mailbox_db \<Rightarrow> json list \<Rightarrow> relay" where
  "demo_relay db q =
     (fresh_relay (box_db [] []))\<lparr>rl_hubs := (rl_hubs (fresh_relay (box_db [] [])))
        (''alice'' := \<lparr>hub_db = db, schema_ready = True\<rparr>), rl_queue := q\<rparr>"

lemma demo_ready_hub:
  "ready_hub ''alice'' ''alice'' (fresh_relay (box_db [] [])) = (Inr (), demo_relay alice_laid [])"
proof -
  have "bind_identity ''alice'' demo_laid = (Inr (), alice_laid)" by code_simp
  then show ?thesis using demo_layout
    by (simp add: ready_hub_def on_hub_eq demo_relay_def fresh_relay_def set_ready_def put_hub_def)
qed

lemma alice_laid_ready: "ready alice_laid" "ready alice_db"
  using demo_ready by (simp_all add: alice_laid_def alice_db_def ready_def)

lemma demo_replay: "replay env ''alice'' ''alice'' (demo_relay alice_laid q) = demo_relay alice_laid q"
proof -
  have "take_owed_due now alice_laid = (Inr [], alice_laid)" for now
    using alice_laid_ready(1)
    by (simp add: take_owed_due_def Let_def sel_owed_due_def) (simp add: alice_laid_def demo_laid_def sql_limit_def)
  then show ?thesis by (simp add: replay_def on_hub_eq demo_relay_def enqueue_after_def put_hub_def)
qed


abbreviation demo_fresh :: relay where
  "demo_fresh \<equiv> fresh_relay (box_db [] [])"

abbreviation demo_call :: relay_call where
  "demo_call \<equiv> CallInsert ''inbox'' ''m1'' ''alice'' ''alice'' ''hello'' None"

lemma alice_insert: "insert_mbx demo_time demo_new False 0 RULED alice_laid = (Inr Stored, alice_db)"
proof -
  have "mbrows alice_laid = []" "counters_row alice_laid = Some (0, 0)" "last_seq alice_laid = 0"
    by (simp_all add: alice_laid_def demo_laid_def)
  then show ?thesis
    by (simp add: insert_mbx_def alice_laid_ready(1) sel_held_def counters_def sel_counters_def
        insert_under_bound_ready u64_of_i64_clamped_def saturating_add_def u64_max_def RULED_def
        MAILBOX_ROWS_LIMIT_def MAILBOX_BYTES_LIMIT_def alice_db_def)
       (simp add: demo_new_def)
qed

lemma demo_healthy: "ready db \<Longrightarrow> mailbox_meta db = [(''identity'', ''alice'')] \<Longrightarrow>
    healthy demo_env ''alice'' (demo_relay db q)"
  by (simp add: healthy_def demo_env_def demo_relay_def fresh_relay_def box_db_def)

lemma demo_stored:
  "\<exists>rl. relay_do demo_env demo_call demo_fresh = (Inr (RepInserted SendStored), rl) \<and>
     healthy demo_env ''alice'' rl \<and> db_of ''alice'' rl = alice_db"
proof -
  let ?rl = "enqueue_ids demo_env ''alice'' ''alice'' [''m1''] (demo_relay alice_db [])"
  have h: "healthy demo_env ''alice'' (demo_relay alice_db [])"
    using alice_laid_ready by (intro demo_healthy) (simp_all add: alice_db_def alice_laid_def)
  have ready: "ready_hub ''alice'' ''alice'' (demo_fresh\<lparr>rl_hops := []\<rparr>) = (Inr (), demo_relay alice_laid [])"
    using demo_ready_hub by (simp add: fresh_relay_def)
  have hops: "rl_hops demo_fresh = []" by (simp add: fresh_relay_def)
  have ins: "insert_mbx demo_time \<lparr>n_message_id = ''m1'', n_message_box = ''inbox'', n_sender = ''alice'',
      n_body = ''hello''\<rparr> False (rl_now (demo_relay alice_laid [])) RULED (db_of ''alice'' (demo_relay alice_laid []))
      = (Inr Stored, alice_db)"
    using alice_insert by (simp add: demo_new_def demo_relay_def fresh_relay_def)
  have put: "put_hub ''alice'' alice_db (demo_relay alice_laid []) = demo_relay alice_db []"
    by (simp add: put_hub_def demo_relay_def fresh_relay_def)
  have t: "re_time demo_env = demo_time" "re_hub_unbound demo_env = None" by (simp_all add: demo_env_def)
  have "relay_do demo_env demo_call demo_fresh = (Inr (RepInserted SendStored), ?rl)"
    by (simp add: insert_message_on_hub_def post_with_retry_def post_json_def hop_fetch_def
        handle_insert_def Let_def on_hub_eq replied_def hops ready demo_replay ins put t
        insert_answers_def answer_def decoded_def inserted_answer_def result_json_def)
  with healthy_enqueue_ids [OF h] show ?thesis by (auto simp: demo_relay_def)
qed


lemma demo_d1_ok: "d1_ok owner (box_db [] [])"
  by (simp add: d1_ok_def box_db_def table_ok_def row_of_def ids_distinct_def)

abbreviation demo_ok :: "(string \<times> string) set \<Rightarrow> (string \<times> message) set \<Rightarrow> relay_call \<Rightarrow> bool" where
  "demo_ok \<equiv> relay_call_ok [''m1'' \<mapsto> ''alice'']"

lemma demo_reaches:
  "\<exists>rl. relay_do demo_env demo_call demo_fresh = (Inr (RepInserted SendStored), rl) \<and>
     reaches (relay_do demo_env) (demo_ok {} {}) demo_fresh rl \<and>
     healthy demo_env ''alice'' rl \<and> db_of ''alice'' rl = alice_db"
proof -
  obtain rl where rl: "relay_do demo_env demo_call demo_fresh = (Inr (RepInserted SendStored), rl)"
    "healthy demo_env ''alice'' rl" "db_of ''alice'' rl = alice_db"
    using demo_stored by blast
  have "reaches (relay_do demo_env) (demo_ok {} {}) demo_fresh (snd (relay_do demo_env demo_call demo_fresh))"
    by (rule reaches_step [OF reaches_refl]) (simp add: belongs_def)
  with rl show ?thesis by simp
qed

lemma alice_rows: "mbrows alice_db = [fresh_row demo_new 0 (demo_time 0) 1]" "mbrows alice_laid = []"
  by (simp_all add: alice_db_def alice_laid_def demo_laid_def)

lemma alice_live: "live_id ''m1'' (mbrows alice_db)" "held_id ''m1'' (mbrows alice_db)"
  by (simp_all add: alice_rows live_id_def held_id_def fresh_row_def demo_new_def)

lemma alice_inv: "mailbox_inv alice_db"
proof -
  have "mailbox_inv alice_laid" using demo_inv(1) by (simp add: alice_laid_def)
  then show ?thesis
    using insert_inv [OF _ RULED_small, of alice_laid demo_time demo_new False 0] by (simp add: alice_insert)
qed

theorem relay_state_consistent_witness:
  "\<exists>rl. reaches (relay_do demo_env) (\<lambda>_. True) demo_fresh rl \<and> db_of ''alice'' rl = alice_db \<and>
     table_ok (rl_d1 rl) \<and> mailbox_inv alice_db"
proof -
  obtain rl where r: "reaches (relay_do demo_env) (demo_ok {} {}) demo_fresh rl" "db_of ''alice'' rl = alice_db"
    using demo_reaches by blast
  have rl: "reaches (relay_do demo_env) (\<lambda>_. True) demo_fresh rl" "db_of ''alice'' rl = alice_db"
    by (rule reaches_mono [OF r(1)], simp, rule r(2))
  note all = relay_state_consistent [OF demo_env_ok demo_d1_ok rl(1)]
  have "table_ok (rl_d1 rl)" using all by (elim conjE)
  moreover have "mailbox_inv (db_of ''alice'' rl)" by (rule spec [OF conjunct1 [OF all]])
  ultimately have "table_ok (rl_d1 rl)" "mailbox_inv alice_db" by (simp_all only: rl(2))
  with rl show ?thesis by blast
qed

theorem acknowledged_never_listed_witness:
  "\<exists>rl k rl1 rows rl3. held_id ''m1'' (mbrows (db_of ''alice'' rl)) \<and>
     relay_do demo_env (CallAck ''alice'' [''m1''] True) rl = (Inr (RepAcked k []), rl1) \<and>
     relay_do demo_env (CallList ''alice'' ''inbox'') rl1 = (Inr (RepListed rows), rl3) \<and>
     Some ''m1'' \<notin> m_message_id ` set rows"
proof -
  obtain rl where rl: "reaches (relay_do demo_env) (demo_ok {} {}) demo_fresh rl"
    "healthy demo_env ''alice'' rl" "db_of ''alice'' rl = alice_db"
    using demo_reaches by blast
  obtain k rl1 where ack: "relay_do demo_env (CallAck ''alice'' [''m1''] True) rl = (Inr (RepAcked k []), rl1)"
    and h: "healthy demo_env ''alice'' rl1"
    using healthy_ack [OF rl(2), of "[''m1'']"] alice_inv alice_live(1) rl(3) by (auto simp: replied_def)
  obtain rows rl3 where listed: "relay_do demo_env (CallList ''alice'' ''inbox'') rl1 = (Inr (RepListed rows), rl3)"
    using healthy_listing [OF h, of "''inbox''"] by (auto simp: replied_def)
  from acknowledged_never_listed [OF demo_env_ok demo_d1_ok rl(1) _ ack _ _ reaches_refl listed]
  have "Some ''m1'' \<notin> m_message_id ` set rows" using alice_live(2) rl(3) by simp
  with ack listed alice_live(2) rl(3) show ?thesis by metis
qed

theorem stored_until_acknowledged_witness:
  "\<exists>rl1 rl2. relay_do demo_env demo_call demo_fresh = (Inr (RepInserted SendStored), rl1) \<and>
     rl2 = snd (relay_do demo_env (CallList ''alice'' ''inbox'') rl1) \<and>
     (''m1'', ''inbox'', ''alice'', Some ''hello'') \<in> set (inbox (db_of ''alice'' rl2))"
proof -
  let ?K = "{(''alice'', (''m1'', ''inbox'', ''alice'', Some ''hello''))}"
  obtain rl1 where rl1: "relay_do demo_env demo_call demo_fresh = (Inr (RepInserted SendStored), rl1)"
    using demo_reaches by blast
  have "reaches (relay_do demo_env) (relay_call_ok Map.empty {} ?K) rl1 (snd (relay_do demo_env (CallList ''alice'' ''inbox'') rl1))"
    by (rule reaches_step [OF reaches_refl]) simp
  from stored_until_acknowledged [OF demo_env_ok demo_d1_ok reaches_refl _ rl1 this]
  have "(''m1'', ''inbox'', ''alice'', Some ''hello'') \<in>
      set (inbox (db_of ''alice'' (snd (relay_do demo_env (CallList ''alice'' ''inbox'') rl1))))"
    by (simp add: fresh_relay_def fresh_hub_def held_id_def)
  with rl1 show ?thesis by blast
qed

theorem insert_on_hub_exact_witness:
  "\<exists>rl. insert_message_on_hub demo_env ''inbox'' ''m1'' ''alice'' ''alice'' ''hello'' None demo_fresh = (Inr SendStored, rl) \<and>
     inbox (db_of ''alice'' rl) = [(''m1'', ''inbox'', ''alice'', Some ''hello'')]"
proof -
  obtain rl where ins: "insert_message_on_hub demo_env ''inbox'' ''m1'' ''alice'' ''alice'' ''hello'' None demo_fresh = (Inr SendStored, rl)"
    using demo_reaches by (auto simp: replied_Inr)
  have "mailbox_inv (db_of ''alice'' demo_fresh)" "\<not> held_id ''m1'' (mbrows (db_of ''alice'' demo_fresh))"
    "inbox (db_of ''alice'' demo_fresh) = []"
    by (simp_all add: fresh_relay_def fresh_hub_def held_id_def rows_ok_def inbox_def live_rows_def)
  with insert_on_hub_exact [OF _ _ ins] ins show ?thesis by simp
qed

end
