(* ===== verification/Session_Lane.thy ===== *)
theory Session_Lane
  imports Relay_Prelude
begin

section \<open>The session lane\<close>

text \<open>
  \<open>src/src/session_lane.rs\<close>: the lane minted at the end of a handshake (\<open>session_lane\<close>), its mirror
  in the identity's hub (\<open>hub_mirror\<close>) with the 64-bit replay window of the HTTP lane, the MACs
  and the checks of a frame and of a request. A refusal leaves the state as it was: each verifier
  returns its result with the state after it.

  The hash, the HMAC and the hex coding come from \<open>bsv_rs\<close> and \<open>hex\<close>, outside the repository:
  they are a record of functions every definition that uses them takes.
\<close>

unbundle bit_operations_syntax

type_synonym byte = "8 word"
type_synonym bytes = "byte list"

record primitives =
  sha256 :: "bytes \<Rightarrow> bytes"
  sha256_hmac :: "bytes \<Rightarrow> bytes \<Rightarrow> bytes"
  hex_encode :: "bytes \<Rightarrow> string"
  hex_decode :: "string \<Rightarrow> bytes option"

subsection \<open>Bytes\<close>

definition as_bytes :: "string \<Rightarrow> bytes" where
  "as_bytes s = map of_char s"

text \<open>\<open>u64::to_le_bytes\<close>.\<close>

definition to_le_bytes :: "u64 \<Rightarrow> bytes" where
  "to_le_bytes n = map (\<lambda>i. word_of_nat (n div 256 ^ i)) [0..<8]"

definition constant_time_eq :: "bytes \<Rightarrow> bytes \<Rightarrow> bool" where
  "constant_time_eq a b =
     (if length a \<noteq> length b then False
      else foldl (\<lambda>diff (x, y). diff OR (x XOR y)) 0 (zip a b) = 0)"

definition bearer_matches :: "string \<Rightarrow> string \<Rightarrow> bool" where
  "bearer_matches got expected =
     (expected \<noteq> [] \<and> constant_time_eq (as_bytes got) (as_bytes expected))"

definition hex32 :: "primitives \<Rightarrow> string \<Rightarrow> bytes option" where
  "hex32 P h =
     (case hex_decode P h of
        None \<Rightarrow> None
      | Some v \<Rightarrow> if length v \<noteq> 32 then None else Some v)"

subsection \<open>Constants and the lane's data\<close>

definition KEY_DERIVATION_LABEL :: bytes where
  "KEY_DERIVATION_LABEL = as_bytes ''low-relay-session/v1''"

definition SESSION_IDLE_MS :: u64 where
  "SESSION_IDLE_MS = 60 * 60 * 1000"

definition LANE_MAX_LIFETIME_MS :: u64 where
  "LANE_MAX_LIFETIME_MS = 12 * 60 * 60 * 1000"

definition MAX_SAFE_COUNTER :: u64 where
  "MAX_SAFE_COUNTER = 2 ^ 53 - 1"

definition HTTP_RESPONSE_EVENT :: string where
  "HTTP_RESPONSE_EVENT = ''response''"

definition MIRROR_REFRESH_SLACK_MS :: u64 where
  "MIRROR_REFRESH_SLACK_MS = 60 * 1000"

definition HTTP_REPLAY_WINDOW :: u64 where
  "HTTP_REPLAY_WINDOW = 64"

definition parse_counter :: "string \<Rightarrow> u64 option" where
  "parse_counter v =
     (case parse_u64 (trim v) of
        Some h \<Rightarrow> if h \<le> MAX_SAFE_COUNTER then Some h else None
      | None \<Rightarrow> None)"

record session_lane =
  sl_id :: string
  sl_key :: string
  sl_identity :: string
  sl_expires_at_ms :: u64
  sl_minted_at_ms :: u64
  sl_last_in :: u64
  sl_next_out :: u64
  sl_active :: bool

record session_offer =
  so_id :: string
  so_expires_at_ms :: u64
  so_salt :: string
  so_ask :: string

record frame =
  fr_s :: "string option"
  fr_n :: u64
  fr_e :: string
  fr_d :: string
  fr_m :: string

datatype refusal = UnknownSession | Expired | Replay | BadMac | Malformed

fun refusal_as_str :: "refusal \<Rightarrow> string" where
  "refusal_as_str UnknownSession = ''unknown-session''"
| "refusal_as_str Expired = ''expired''"
| "refusal_as_str Replay = ''replay''"
| "refusal_as_str BadMac = ''bad-mac''"
| "refusal_as_str Malformed = ''malformed''"

subsection \<open>The key and the MACs\<close>

definition derive_key :: "primitives \<Rightarrow> bytes \<Rightarrow> bytes \<Rightarrow> string \<Rightarrow> string \<Rightarrow> bytes" where
  "derive_key P salt sid client_nonce server_nonce =
     sha256_hmac P salt
       (KEY_DERIVATION_LABEL @ sid @ as_bytes client_nonce @ as_bytes server_nonce)"

definition frame_message :: "u64 \<Rightarrow> string \<Rightarrow> bytes \<Rightarrow> bytes" where
  "frame_message n e digest = to_le_bytes n @ as_bytes e @ [0] @ digest"

definition frame_mac_over_digest :: "primitives \<Rightarrow> bytes \<Rightarrow> u64 \<Rightarrow> string \<Rightarrow> bytes \<Rightarrow> bytes" where
  "frame_mac_over_digest P key n e digest = sha256_hmac P key (frame_message n e digest)"

definition frame_mac :: "primitives \<Rightarrow> bytes \<Rightarrow> u64 \<Rightarrow> string \<Rightarrow> string \<Rightarrow> bytes" where
  "frame_mac P key n e d = frame_mac_over_digest P key n e (sha256 P (as_bytes d))"

definition http_event :: "string \<Rightarrow> string \<Rightarrow> string" where
  "http_event meth path_and_query = to_ascii_uppercase meth @ '' '' @ path_and_query"

definition response_mac :: "primitives \<Rightarrow> string \<Rightarrow> u64 \<Rightarrow> string \<Rightarrow> string option" where
  "response_mac P key_hex h body_text =
     (case hex32 P key_hex of
        None \<Rightarrow> None
      | Some key \<Rightarrow> Some (hex_encode P (frame_mac P key h HTTP_RESPONSE_EVENT body_text)))"

subsection \<open>The hub's mirror\<close>

record mirror_update =
  mu_id :: string
  mu_key :: string
  mu_expires_at_ms :: u64
  mu_minted_at_ms :: u64

definition mirror_update_of :: "session_lane \<Rightarrow> mirror_update" where
  "mirror_update_of lane =
     \<lparr>mu_id = sl_id lane, mu_key = sl_key lane, mu_expires_at_ms = sl_expires_at_ms lane,
      mu_minted_at_ms = sl_minted_at_ms lane\<rparr>"

record hub_mirror =
  hm_id :: string
  hm_key :: string
  hm_identity :: string
  hm_expires_at_ms :: u64
  hm_minted_at_ms :: u64
  hm_last_h :: u64
  hm_seen_mask :: "64 word"

text \<open>\<open>u64_as_string\<close>: the wire form of the counter and the mask.\<close>

definition serialize_u64 :: "u64 \<Rightarrow> json" where
  "serialize_u64 v = JStr (nat_text v)"

fun deserialize_u64 :: "json \<Rightarrow> u64 option" where
  "deserialize_u64 (JInt n) = (if 0 \<le> n \<and> n < 2 ^ 64 then Some (nat n) else None)"
| "deserialize_u64 (JStr t) = parse_u64 t"
| "deserialize_u64 _ = None"

definition hub_mirror_new :: "string \<Rightarrow> mirror_update \<Rightarrow> hub_mirror" where
  "hub_mirror_new identity update =
     \<lparr>hm_id = mu_id update, hm_key = mu_key update,
      hm_identity = to_ascii_lowercase identity,
      hm_expires_at_ms = mu_expires_at_ms update, hm_minted_at_ms = mu_minted_at_ms update,
      hm_last_h = 0, hm_seen_mask = 0\<rparr>"

definition refresh_due :: "hub_mirror \<Rightarrow> u64 \<Rightarrow> bool" where
  "refresh_due m expires_at_ms \<longleftrightarrow>
     saturating_add (hm_expires_at_ms m) MIRROR_REFRESH_SLACK_MS < expires_at_ms"

definition mirror_past_lifetime :: "hub_mirror \<Rightarrow> ms \<Rightarrow> bool" where
  "mirror_past_lifetime m now_ms \<longleftrightarrow>
     saturating_add (hm_minted_at_ms m) LANE_MAX_LIFETIME_MS < now_ms"

definition mirror_is_live :: "hub_mirror \<Rightarrow> ms \<Rightarrow> bool" where
  "mirror_is_live m now_ms \<longleftrightarrow> now_ms \<le> hm_expires_at_ms m \<and> \<not> mirror_past_lifetime m now_ms"

definition counter_is_fresh :: "hub_mirror \<Rightarrow> u64 \<Rightarrow> bool" where
  "counter_is_fresh m h =
     (if hm_last_h m < h then True
      else
        (let back = hm_last_h m - h
         in if HTTP_REPLAY_WINDOW \<le> back then False
            else hm_seen_mask m AND push_bit back 1 = 0))"

definition accept_counter :: "hub_mirror \<Rightarrow> u64 \<Rightarrow> hub_mirror" where
  "accept_counter m h =
     (if hm_last_h m < h then
        (let shift = h - hm_last_h m;
             mask = (if 64 \<le> shift then 0 else push_bit shift (hm_seen_mask m))
         in m\<lparr>hm_seen_mask := mask OR 1, hm_last_h := h\<rparr>)
      else m\<lparr>hm_seen_mask := hm_seen_mask m OR push_bit (hm_last_h m - h) 1\<rparr>)"

record http_call =
  hc_h :: u64
  hc_method :: string
  hc_path :: string
  hc_digest :: bytes
  hc_mac :: string
  hc_now :: ms

definition verify_http :: "primitives \<Rightarrow> http_call \<Rightarrow> hub_mirror \<Rightarrow> (refusal, unit, hub_mirror) outcome" where
  "verify_http P c m =
     (if hm_expires_at_ms m < hc_now c \<or> mirror_past_lifetime m (hc_now c) then (Inl Expired, m)
      else if hc_h c = 0 \<or> \<not> counter_is_fresh m (hc_h c) then (Inl Replay, m)
      else case hex32 P (hm_key m) of
        None \<Rightarrow> (Inl UnknownSession, m)
      | Some key \<Rightarrow>
          (case hex32 P (hc_mac c) of
             None \<Rightarrow> (Inl Malformed, m)
           | Some mac \<Rightarrow>
               if \<not> constant_time_eq
                      (frame_mac_over_digest P key (hc_h c) (http_event (hc_method c) (hc_path c))
                        (hc_digest c)) mac
               then (Inl BadMac, m)
               else (Inr (), (accept_counter m (hc_h c))\<lparr>hm_expires_at_ms := hc_now c + SESSION_IDLE_MS\<rparr>)))"

subsection \<open>The socket's lane\<close>

definition mint ::
  "primitives \<Rightarrow> string \<Rightarrow> string \<Rightarrow> string \<Rightarrow> bytes \<Rightarrow> ms \<Rightarrow> string \<Rightarrow> session_lane \<times> session_offer" where
  "mint P identity client_nonce server_nonce random now_ms ask =
     (let sid = take 32 random;
          salt = drop 32 random;
          key = derive_key P salt sid client_nonce server_nonce;
          expires_at_ms = now_ms + SESSION_IDLE_MS;
          lane = \<lparr>sl_id = hex_encode P sid, sl_key = hex_encode P key, sl_identity = identity,
                  sl_expires_at_ms = expires_at_ms, sl_minted_at_ms = now_ms, sl_last_in = 0,
                  sl_next_out = 1, sl_active = False\<rparr>
      in (lane, \<lparr>so_id = sl_id lane, so_expires_at_ms = expires_at_ms,
                 so_salt = hex_encode P salt, so_ask = ask\<rparr>))"

definition lane_past_lifetime :: "session_lane \<Rightarrow> ms \<Rightarrow> bool" where
  "lane_past_lifetime l now_ms \<longleftrightarrow>
     saturating_add (sl_minted_at_ms l) LANE_MAX_LIFETIME_MS < now_ms"

definition lane_is_live :: "session_lane \<Rightarrow> ms \<Rightarrow> bool" where
  "lane_is_live l now_ms \<longleftrightarrow> now_ms \<le> sl_expires_at_ms l \<and> \<not> lane_past_lifetime l now_ms"

definition verify_inbound ::
  "primitives \<Rightarrow> frame \<Rightarrow> ms \<Rightarrow> session_lane \<Rightarrow> (refusal, string \<times> string, session_lane) outcome" where
  "verify_inbound P f now_ms l =
     (case fr_s f of
        None \<Rightarrow> (Inl Malformed, l)
      | Some s \<Rightarrow>
          if \<not> constant_time_eq (as_bytes s) (as_bytes (sl_id l)) then (Inl UnknownSession, l)
          else if sl_expires_at_ms l < now_ms \<or> lane_past_lifetime l now_ms then (Inl Expired, l)
          else if fr_n f \<le> sl_last_in l then (Inl Replay, l)
          else case hex32 P (sl_key l) of
            None \<Rightarrow> (Inl UnknownSession, l)
          | Some key \<Rightarrow>
              (case hex32 P (fr_m f) of
                 None \<Rightarrow> (Inl Malformed, l)
               | Some m \<Rightarrow>
                   if \<not> constant_time_eq (frame_mac P key (fr_n f) (fr_e f) (fr_d f)) m
                   then (Inl BadMac, l)
                   else (Inr (fr_e f, fr_d f),
                         l\<lparr>sl_last_in := fr_n f, sl_expires_at_ms := now_ms + SESSION_IDLE_MS,
                           sl_active := True\<rparr>)))"

definition seal_outbound ::
  "primitives \<Rightarrow> string \<Rightarrow> string \<Rightarrow> ms \<Rightarrow> session_lane \<Rightarrow> frame option \<times> session_lane" where
  "seal_outbound P e d now_ms l =
     (if lane_past_lifetime l now_ms then (None, l)
      else case hex32 P (sl_key l) of
        None \<Rightarrow> (None, l)
      | Some key \<Rightarrow>
          (let n = sl_next_out l
           in (Some \<lparr>fr_s = None, fr_n = n, fr_e = e, fr_d = d,
                     fr_m = hex_encode P (frame_mac P key n e d)\<rparr>,
               l\<lparr>sl_next_out := n + 1, sl_expires_at_ms := now_ms + SESSION_IDLE_MS\<rparr>)))"

end
