(* ===== verification/Session_Lane_Props.thy ===== *)
theory Session_Lane_Props
  imports Session_Lane Machine
begin

section \<open>The session lane: each counter once, and only under the key\<close>

text \<open>
  The proofs about \<open>Session_Lane\<close>: the byte comparison is equality, the MAC's message determines
  the counter, the event and the digest, the replay window of the mirror is the set of counters
  accepted, and the socket lane accepts strictly increasing counters.
\<close>

subsection \<open>Bytes\<close>

lemma unat_of_char: "unat (of_char c :: byte) = (of_char c :: nat)"
proof -
  have "(of_char c :: byte) = word_of_nat (of_char c)" by (rule of_nat_of_char [symmetric])
  then have "unat (of_char c :: byte) = (of_char c :: nat) mod 2 ^ 8"
    by (simp only: unat_of_nat) simp
  then show ?thesis using nat_of_char_less_256 [of c] by simp
qed

lemma of_char_byte_inj: "(of_char c :: byte) = of_char d \<longleftrightarrow> c = d"
  by (metis of_char_eq_iff unat_of_char)

lemma as_bytes_inj [simp]: "as_bytes s = as_bytes t \<longleftrightarrow> s = t"
  by (simp add: as_bytes_def inj_map_eq_map inj_def of_char_byte_inj)

lemma length_as_bytes [simp]: "length (as_bytes s) = length s"
  by (simp add: as_bytes_def)

lemma or_zero_iff: "(a OR b :: byte) = 0 \<longleftrightarrow> a = 0 \<and> b = 0"
  by (auto simp: bit_eq_iff bit_or_iff)

lemma xor_zero_iff: "(a XOR b :: byte) = 0 \<longleftrightarrow> a = b"
  by (auto simp: bit_eq_iff bit_xor_iff)

lemma fold_diff_zero:
  "length a = length b \<Longrightarrow>
   foldl (\<lambda>diff (x, y). diff OR (x XOR y)) d (zip a b) = 0 \<longleftrightarrow> d = (0 :: byte) \<and> a = b"
  by (induction a b arbitrary: d rule: list_induct2) (auto simp: or_zero_iff xor_zero_iff)

lemma constant_time_eq_iff [simp]: "constant_time_eq a b \<longleftrightarrow> a = b"
  by (auto simp: constant_time_eq_def fold_diff_zero)

lemma bearer_matches_iff: "bearer_matches got expected \<longleftrightarrow> expected \<noteq> [] \<and> got = expected"
  by (auto simp: bearer_matches_def)

lemma length_to_le_bytes [simp]: "length (to_le_bytes n) = 8"
  by (simp add: to_le_bytes_def)

fun le_value :: "bytes \<Rightarrow> nat" where
  "le_value [] = 0"
| "le_value (b # bs) = unat b + 256 * le_value bs"

lemma le_value_bytes:
  "le_value (map (\<lambda>i. word_of_nat (n div 256 ^ i)) [0..<k]) = n mod 256 ^ k"
proof (induction k arbitrary: n)
  case (Suc k)
  have shift: "map (\<lambda>i. word_of_nat (n div 256 ^ i) :: byte) [0..<Suc k] =
      word_of_nat n # map (\<lambda>i. word_of_nat (n div 256 div 256 ^ i)) [0..<k]"
    by (simp add: upt_conv_Cons map_Suc_upt [symmetric] div_mult2_eq del: upt_Suc)
  have "n mod 256 + 256 * (n div 256 mod 256 ^ k) = n mod 256 ^ Suc k"
    by (simp add: mod_mult2_eq)
  then show ?case unfolding shift by (simp add: Suc.IH unat_of_nat)
qed simp

lemma to_le_bytes_inj:
  assumes "to_le_bytes m = to_le_bytes n" and "m < 2 ^ 64" and "n < 2 ^ 64"
  shows "m = n"
proof -
  have "(256 :: nat) ^ 8 = 2 ^ 64" by simp
  then have "le_value (to_le_bytes k) = k" if "k < 2 ^ 64" for k
    using that by (simp only: to_le_bytes_def le_value_bytes) simp
  with assms show ?thesis by metis
qed

text \<open>The MAC's message is read in one way: eight bytes, the event, a zero byte, the digest.\<close>

lemma frame_message_inj:
  assumes "frame_message m e x = frame_message n f y"
    and "m < 2 ^ 64" and "n < 2 ^ 64" and "length x = length y"
  shows "m = n \<and> e = f \<and> x = y"
proof -
  from assms(1) have le: "to_le_bytes m = to_le_bytes n"
    and rest: "(as_bytes e @ [0]) @ x = (as_bytes f @ [0]) @ y"
    by (simp_all add: frame_message_def append_eq_append_conv)
  have "as_bytes e @ [0] = as_bytes f @ [0] \<and> x = y"
    using rest append_eq_append_conv [of "as_bytes e @ [0]" "as_bytes f @ [0]" x y] assms(4) by auto
  then show ?thesis using to_le_bytes_inj [OF le assms(2,3)] by simp
qed

lemma ascii_upper_space: "ascii_upper_char c = CHR '' '' \<Longrightarrow> c = CHR '' ''"
proof (rule ccontr)
  assume u: "ascii_upper_char c = CHR '' ''" and "c \<noteq> CHR '' ''"
  let ?n = "of_char c :: nat"
  have r: "97 \<le> ?n \<and> ?n \<le> 122" and e: "char_of (?n - 32) = CHR '' ''"
    using u \<open>c \<noteq> CHR '' ''\<close> by (auto simp: ascii_upper_char_def Let_def split: if_splits)
  have "(of_char (char_of (?n - 32) :: char) :: nat) = 32" by (simp only: e) simp
  then have "(?n - 32) mod 256 = 32" by (simp add: of_char_of)
  moreover have "(?n - 32) mod 256 = ?n - 32" by (rule mod_less) (use r in arith)
  ultimately show False using r by arith
qed

lemma split_at_unique:
  assumes "xs @ c # ys = xs' @ c # ys'" and "c \<notin> set xs" and "c \<notin> set xs'"
  shows "xs = xs' \<and> ys = ys'"
proof -
  have "takeWhile (\<lambda>x. x \<noteq> c) (zs @ c # ws) = zs" if "c \<notin> set zs" for zs ws
    using that by (induction zs) auto
  with assms show ?thesis by (metis append_same_eq list.inject same_append_eq)
qed

subsection \<open>The replay window\<close>

text \<open>The window of a mirror stands for the set \<open>A\<close> of counters it has accepted.\<close>

definition window_of :: "hub_mirror \<Rightarrow> u64 set \<Rightarrow> bool" where
  "window_of m A \<longleftrightarrow>
     (\<forall>c\<in>A. 0 < c \<and> c \<le> hm_last_h m) \<and>
     (\<forall>i<64. bit (hm_seen_mask m) i \<longleftrightarrow> (\<exists>c\<in>A. c + i = hm_last_h m))"

lemma window_new: "window_of (hub_mirror_new identity u) {}"
  by (simp add: window_of_def hub_mirror_new_def)

lemma mask_bit: "hm_seen_mask m AND 2 ^ k = 0 \<longleftrightarrow> \<not> bit (hm_seen_mask m) k"
  by (simp add: bit_iff_and_push_bit_not_eq_0)

lemma fresh_iff:
  assumes "window_of m A" and "0 < h"
  shows "counter_is_fresh m h \<longleftrightarrow> h \<notin> A \<and> hm_last_h m < h + 64"
proof (cases "hm_last_h m < h")
  case True
  with assms show ?thesis by (auto simp: counter_is_fresh_def window_of_def)
next
  case False
  show ?thesis
  proof (cases "64 \<le> hm_last_h m - h")
    case True
    with False show ?thesis by (auto simp: counter_is_fresh_def HTTP_REPLAY_WINDOW_def)
  next
    case small: False
    then have "bit (hm_seen_mask m) (hm_last_h m - h) \<longleftrightarrow> (\<exists>c\<in>A. c + (hm_last_h m - h) = hm_last_h m)"
      using assms(1) by (simp add: window_of_def)
    also have "\<dots> \<longleftrightarrow> h \<in> A" using False by (metis add_diff_cancel_right' le_add_diff_inverse not_le)
    finally show ?thesis
      using False small by (auto simp: counter_is_fresh_def HTTP_REPLAY_WINDOW_def mask_bit Let_def)
  qed
qed

lemma window_accept_above:
  assumes "window_of m A" and "hm_last_h m < h"
  shows "window_of (accept_counter m h) (insert h A)"
proof -
  let ?s = "h - hm_last_h m"
  let ?mask = "if 64 \<le> ?s then 0 else push_bit ?s (hm_seen_mask m)"
  have m': "hm_last_h (accept_counter m h) = h" "hm_seen_mask (accept_counter m h) = ?mask OR 1"
    using assms(2) by (simp_all add: accept_counter_def Let_def)
  have low: "\<forall>c\<in>A. 0 < c \<and> c \<le> hm_last_h m"
    and win: "\<And>i. i < 64 \<Longrightarrow> bit (hm_seen_mask m) i \<longleftrightarrow> (\<exists>c\<in>A. c + i = hm_last_h m)"
    using assms(1) by (auto simp: window_of_def)
  have "bit (?mask OR 1) i \<longleftrightarrow> (\<exists>c\<in>insert h A. c + i = h)" if "i < 64" for i
  proof (cases "i = 0")
    case True
    then show ?thesis by (simp add: bit_or_iff)
  next
    case False
    have "bit (?mask OR 1) i \<longleftrightarrow> ?s \<le> i \<and> bit (hm_seen_mask m) (i - ?s)"
      using that False by (auto simp: bit_or_iff bit_push_bit_iff bit_1_iff)
    also have "\<dots> \<longleftrightarrow> ?s \<le> i \<and> (\<exists>c\<in>A. c + (i - ?s) = hm_last_h m)" using win [of "i - ?s"] that by auto
    also have "\<dots> \<longleftrightarrow> (\<exists>c\<in>A. c + i = h)"
    proof
      assume "?s \<le> i \<and> (\<exists>c\<in>A. c + (i - ?s) = hm_last_h m)"
      then obtain c where "c \<in> A" "?s \<le> i" "c + (i - ?s) = hm_last_h m" by blast
      with assms(2) show "\<exists>c\<in>A. c + i = h" by (intro bexI [of _ c]) arith
    next
      assume "\<exists>c\<in>A. c + i = h"
      then obtain c where c: "c \<in> A" "c + i = h" by blast
      with low have "c \<le> hm_last_h m" by blast
      with c assms(2) show "?s \<le> i \<and> (\<exists>c\<in>A. c + (i - ?s) = hm_last_h m)"
        by (intro conjI bexI [of _ c]) arith+
    qed
    finally show ?thesis using False by auto
  qed
  with low assms(2) show ?thesis by (auto simp: window_of_def m')
qed

lemma window_accept_below:
  assumes "window_of m A" and "h \<le> hm_last_h m" and "0 < h" and "hm_last_h m < h + 64"
  shows "window_of (accept_counter m h) (insert h A)"
proof -
  let ?b = "hm_last_h m - h"
  have m': "hm_last_h (accept_counter m h) = hm_last_h m"
    "hm_seen_mask (accept_counter m h) = hm_seen_mask m OR push_bit ?b 1"
    using assms(2) by (simp_all add: accept_counter_def)
  have "bit (hm_seen_mask m OR push_bit ?b 1) i \<longleftrightarrow> (\<exists>c\<in>insert h A. c + i = hm_last_h m)"
    if "i < 64" for i
  proof -
    have "bit (hm_seen_mask m OR push_bit ?b 1) i \<longleftrightarrow> bit (hm_seen_mask m) i \<or> i = ?b"
      using that by (auto simp: bit_or_iff bit_exp_iff)
    also have "\<dots> \<longleftrightarrow> (\<exists>c\<in>A. c + i = hm_last_h m) \<or> h + i = hm_last_h m"
      using assms(1,2) that by (auto simp: window_of_def)
    finally show ?thesis by auto
  qed
  with assms show ?thesis by (auto simp: window_of_def m')
qed

lemma window_accept:
  assumes "window_of m A" and "0 < h" and "hm_last_h m < h + 64"
  shows "window_of (accept_counter m h) (insert h A)"
  using window_accept_above [OF assms(1)] window_accept_below [OF assms(1) _ assms(2,3)]
  by (cases "hm_last_h m < h") auto

lemma window_expires [simp]: "window_of (m\<lparr>hm_expires_at_ms := t\<rparr>) A = window_of m A"
  by (simp add: window_of_def)

lemma accept_counter_keeps [simp]:
  "hm_id (accept_counter m h) = hm_id m" "hm_key (accept_counter m h) = hm_key m"
  "hm_identity (accept_counter m h) = hm_identity m"
  "hm_minted_at_ms (accept_counter m h) = hm_minted_at_ms m"
  by (simp_all add: accept_counter_def Let_def)

subsection \<open>The check of an HTTP call\<close>

definition http_mac_ok :: "primitives \<Rightarrow> http_call \<Rightarrow> hub_mirror \<Rightarrow> bool" where
  "http_mac_ok P c m \<longleftrightarrow>
     (case hex32 P (hm_key m) of
        None \<Rightarrow> False
      | Some key \<Rightarrow> hex32 P (hc_mac c) =
          Some (frame_mac_over_digest P key (hc_h c) (http_event (hc_method c) (hc_path c)) (hc_digest c)))"

lemma verify_http_cases:
  "verify_http P c m =
     (if mirror_is_live m (hc_now c) \<and> 0 < hc_h c \<and> counter_is_fresh m (hc_h c) \<and> http_mac_ok P c m
      then (Inr (), (accept_counter m (hc_h c))\<lparr>hm_expires_at_ms := hc_now c + SESSION_IDLE_MS\<rparr>)
      else (Inl (if \<not> mirror_is_live m (hc_now c) then Expired
                 else if hc_h c = 0 \<or> \<not> counter_is_fresh m (hc_h c) then Replay
                 else if hex32 P (hm_key m) = None then UnknownSession
                 else if hex32 P (hc_mac c) = None then Malformed else BadMac), m))"
  by (auto simp: verify_http_def mirror_is_live_def http_mac_ok_def split: option.splits)

text \<open>The mirror with the list of the counters it accepted, as a machine of its calls.\<close>

definition mirror_step ::
  "primitives \<Rightarrow> http_call \<Rightarrow> hub_mirror \<times> u64 list \<Rightarrow> (refusal, unit, hub_mirror \<times> u64 list) outcome" where
  "mirror_step P c s =
     (case verify_http P c (fst s) of
        (Inl r, m) \<Rightarrow> (Inl r, (m, snd s))
      | (Inr u, m) \<Rightarrow> (Inr u, (m, snd s @ [hc_h c])))"

definition mirror_good :: "hub_mirror \<times> u64 list \<Rightarrow> bool" where
  "mirror_good s \<longleftrightarrow> distinct (snd s) \<and> window_of (fst s) (set (snd s))"

lemma mirror_step_good: "mirror_good s \<Longrightarrow> mirror_good (snd (mirror_step P c s))"
  using fresh_iff [of "fst s" "set (snd s)" "hc_h c"] window_accept [of "fst s" "set (snd s)" "hc_h c"]
  by (auto simp: mirror_good_def mirror_step_def verify_http_cases)

interpretation mirror: kept "mirror_step P" "\<lambda>_. True" mirror_good for P
  by unfold_locales (rule mirror_step_good)

lemma mirror_new_good: "mirror_good (hub_mirror_new identity u, [])"
  by (simp add: mirror_good_def window_new)

subsection \<open>The socket lane\<close>

definition frame_mac_ok :: "primitives \<Rightarrow> frame \<Rightarrow> session_lane \<Rightarrow> bool" where
  "frame_mac_ok P f l \<longleftrightarrow>
     (case hex32 P (sl_key l) of
        None \<Rightarrow> False
      | Some key \<Rightarrow> hex32 P (fr_m f) = Some (frame_mac P key (fr_n f) (fr_e f) (fr_d f)))"

lemma verify_inbound_cases:
  "verify_inbound P f now l =
     (if fr_s f = Some (sl_id l) \<and> lane_is_live l now \<and> sl_last_in l < fr_n f \<and> frame_mac_ok P f l
      then (Inr (fr_e f, fr_d f),
            l\<lparr>sl_last_in := fr_n f, sl_expires_at_ms := now + SESSION_IDLE_MS, sl_active := True\<rparr>)
      else (Inl (if fr_s f = None then Malformed
                 else if fr_s f \<noteq> Some (sl_id l) then UnknownSession
                 else if \<not> lane_is_live l now then Expired
                 else if fr_n f \<le> sl_last_in l then Replay
                 else if hex32 P (sl_key l) = None then UnknownSession
                 else if hex32 P (fr_m f) = None then Malformed else BadMac), l))"
  by (auto simp: verify_inbound_def lane_is_live_def frame_mac_ok_def split: option.splits)

datatype lane_call = Inbound frame ms | Outbound string string ms

record lane_run =
  lr_lane :: session_lane
  lr_in :: "(u64 \<times> ms) list"
  lr_out :: "u64 list"

fun lane_step :: "primitives \<Rightarrow> lane_call \<Rightarrow> lane_run \<Rightarrow> (refusal, unit, lane_run) outcome" where
  "lane_step P (Inbound f now) s =
     (case verify_inbound P f now (lr_lane s) of
        (Inl r, l) \<Rightarrow> (Inl r, s\<lparr>lr_lane := l\<rparr>)
      | (Inr _, l) \<Rightarrow> (Inr (), s\<lparr>lr_lane := l, lr_in := lr_in s @ [(fr_n f, now)]\<rparr>))"
| "lane_step P (Outbound e d now) s =
     (case seal_outbound P e d now (lr_lane s) of
        (None, l) \<Rightarrow> (Inl Expired, s\<lparr>lr_lane := l\<rparr>)
      | (Some f, l) \<Rightarrow> (Inr (), s\<lparr>lr_lane := l, lr_out := lr_out s @ [fr_n f]\<rparr>))"

definition lane_good :: "u64 \<Rightarrow> lane_run \<Rightarrow> bool" where
  "lane_good minted s \<longleftrightarrow>
     sl_minted_at_ms (lr_lane s) = minted \<and>
     sorted_wrt (<) (map fst (lr_in s)) \<and> (\<forall>(n, t)\<in>set (lr_in s). 0 < n \<and> n \<le> sl_last_in (lr_lane s) \<and>
       t \<le> saturating_add minted LANE_MAX_LIFETIME_MS) \<and>
     lr_out s = [1..<sl_next_out (lr_lane s)] \<and> 1 \<le> sl_next_out (lr_lane s)"

lemma lane_step_good: "lane_good minted s \<Longrightarrow> lane_good minted (snd (lane_step P c s))"
proof (cases c)
  case (Inbound f now)
  assume g: "lane_good minted s"
  show ?thesis
  proof (cases "snd (lane_step P c s) = s")
    case False
    then have "lane_is_live (lr_lane s) now" "sl_last_in (lr_lane s) < fr_n f"
      and s': "snd (lane_step P c s) = s\<lparr>lr_lane := (lr_lane s)\<lparr>sl_last_in := fr_n f,
          sl_expires_at_ms := now + SESSION_IDLE_MS, sl_active := True\<rparr>,
          lr_in := lr_in s @ [(fr_n f, now)]\<rparr>"
      by (auto simp: Inbound verify_inbound_cases split: if_splits)
    with g show ?thesis
      unfolding s' by (fastforce simp: lane_good_def sorted_wrt_append lane_is_live_def lane_past_lifetime_def)
  qed (use g in simp)
next
  case (Outbound e d now)
  assume "lane_good minted s"
  with Outbound show ?thesis
    by (auto simp: lane_good_def seal_outbound_def Let_def split: option.splits)
qed

interpretation lane: kept "lane_step P" "\<lambda>_. True" "lane_good minted" for P minted
  by unfold_locales (rule lane_step_good)

end
