(* ===== verification/Session_Mirrors.thy ===== *)
theory Session_Mirrors
  imports Session_Lane "HOL-Library.AList"
begin

section \<open>The hub's store of session mirrors\<close>

text \<open>
  The handlers of \<open>src/src/message_hub.rs\<close> that keep the mirrors of session lanes in the hub's
  storage: the upsert every forwarded frame of an active lane makes, the revocation at the
  socket's close, the sweep at a registration, the hand-over to another hub, and the check of an
  HTTP call. The storage is an association list under \<open>session:<id>\<close> keys with a script of
  faults, one entry per storage call: a read that fails reads as absent, a write that fails is
  dropped and reported, a delete that fails is ignored, each as the code does.
\<close>

record mirror_store =
  kept_mirrors :: "(string \<times> hub_mirror) list"
  store_faults :: "bool list"

definition session_mirror_key :: "string \<Rightarrow> string" where
  "session_mirror_key i = ''session:'' @ i"

subsection \<open>The storage's calls\<close>

definition store_fails :: "mirror_store \<Rightarrow> bool" where
  "store_fails s = (case store_faults s of b # _ \<Rightarrow> b | [] \<Rightarrow> False)"

definition next_fault :: "mirror_store \<Rightarrow> mirror_store" where
  "next_fault s = s\<lparr>store_faults := tl (store_faults s)\<rparr>"

definition storage_get :: "string \<Rightarrow> mirror_store \<Rightarrow> hub_mirror option \<times> mirror_store" where
  "storage_get k s =
     (if store_fails s then None else map_of (kept_mirrors s) k, next_fault s)"

definition storage_put :: "string \<Rightarrow> hub_mirror \<Rightarrow> mirror_store \<Rightarrow> bool \<times> mirror_store" where
  "storage_put k m s =
     (if store_fails s then (False, next_fault s)
      else (True, (next_fault s)\<lparr>kept_mirrors := AList.update k m (kept_mirrors s)\<rparr>))"

definition storage_delete :: "string \<Rightarrow> mirror_store \<Rightarrow> mirror_store" where
  "storage_delete k s =
     (if store_fails s then next_fault s
      else (next_fault s)\<lparr>kept_mirrors := AList.delete k (kept_mirrors s)\<rparr>)"

subsection \<open>Upsert, revoke, sweep, hand over\<close>

definition upsert_session_mirror :: "string \<Rightarrow> mirror_update \<Rightarrow> mirror_store \<Rightarrow> mirror_store" where
  "upsert_session_mirror identity_key update s =
     (if mu_id update = [] \<or> mu_key update = [] \<or> identity_key = [] then s
      else
        (let ident = to_ascii_lowercase identity_key;
             k = session_mirror_key (mu_id update);
             (existing, s1) = storage_get k s
         in case existing of
              None \<Rightarrow> snd (storage_put k (hub_mirror_new ident update) s1)
            | Some m \<Rightarrow>
                if hm_identity m \<noteq> ident then s1
                else if hm_key m \<noteq> mu_key update then s1
                else if \<not> refresh_due m (mu_expires_at_ms update) then s1
                else snd (storage_put k (m\<lparr>hm_expires_at_ms := mu_expires_at_ms update\<rparr>) s1)))"

definition revoke_session_mirror :: "string \<Rightarrow> mirror_store \<Rightarrow> mirror_store" where
  "revoke_session_mirror i s = (if i = [] then s else storage_delete (session_mirror_key i) s)"

definition sweep_expired_session_mirrors :: "ms \<Rightarrow> mirror_store \<Rightarrow> mirror_store" where
  "sweep_expired_session_mirrors now_ms s =
     (if store_fails s then next_fault s
      else fold storage_delete
             (map fst (filter (\<lambda>(k, m). \<not> mirror_is_live m now_ms \<and> k \<noteq> []) (kept_mirrors s)))
             (next_fault s))"

definition has_session_mirror :: "string \<Rightarrow> mirror_store \<Rightarrow> bool \<times> mirror_store" where
  "has_session_mirror i s =
     (if i = [] then (False, s)
      else (let (m, s1) = storage_get (session_mirror_key i) s in (m \<noteq> None, s1)))"

definition keep_session_mirror :: "hub_mirror \<Rightarrow> mirror_store \<Rightarrow> bool \<times> mirror_store" where
  "keep_session_mirror m = storage_put (session_mirror_key (hm_id m)) m"

definition handle_session_take :: "string \<Rightarrow> string \<Rightarrow> mirror_store \<Rightarrow> hub_mirror option \<times> mirror_store" where
  "handle_session_take i identity s =
     (let k = session_mirror_key i;
          (mirror, s1) = (if i = [] then (None, s) else storage_get k s)
      in case mirror of
           Some m \<Rightarrow>
             if hm_identity m = to_ascii_lowercase identity then (Some m, storage_delete k s1)
             else (None, s1)
         | None \<Rightarrow> (None, s1))"

subsection \<open>The check of an HTTP call\<close>

record session_verify_body =
  vb_id :: string
  vb_identity :: string
  vb_h :: u64
  vb_method :: string
  vb_path :: string
  vb_body_sha256 :: string
  vb_mac :: string

definition session_no :: "string \<Rightarrow> json" where
  "session_no reason = JObj [(''ok'', JBool False), (''reason'', JStr reason)]"

definition session_yes :: "hub_mirror \<Rightarrow> json" where
  "session_yes m =
     JObj [(''ok'', JBool True), (''identity'', JStr (hm_identity m)), (''key'', JStr (hm_key m))]"

definition verify_session ::
  "primitives \<Rightarrow> ms \<Rightarrow> session_verify_body \<Rightarrow> mirror_store \<Rightarrow> json \<times> mirror_store" where
  "verify_session P now b s =
     (let ident = to_ascii_lowercase (vb_identity b);
          k = session_mirror_key (vb_id b);
          (mirror, s1) = (if vb_id b = [] then (None, s) else storage_get k s)
      in case mirror of
           None \<Rightarrow> (session_no (refusal_as_str UnknownSession), s1)
         | Some m \<Rightarrow>
             if hm_identity m \<noteq> ident then (session_no (refusal_as_str UnknownSession), s1)
             else case hex32 P (vb_body_sha256 b) of
               None \<Rightarrow> (session_no (refusal_as_str Malformed), s1)
             | Some digest \<Rightarrow>
                 (case verify_http P \<lparr>hc_h = vb_h b, hc_method = vb_method b, hc_path = vb_path b,
                         hc_digest = digest, hc_mac = vb_mac b, hc_now = now\<rparr> m of
                    (Inr _, m') \<Rightarrow>
                      (let (stored, s2) = storage_put k m' s1
                       in (if stored then session_yes m' else session_no ''storage'', s2))
                  | (Inl Expired, _) \<Rightarrow>
                      (session_no (refusal_as_str Expired), storage_delete k s1)
                  | (Inl reason, _) \<Rightarrow> (session_no (refusal_as_str reason), s1)))"

text \<open>
  The SQL hub's handler (\<open>src/src/message_hub_sql.rs\<close>): a lane it holds no mirror of is asked of the
  identity's other hub once, and the mirror handed over is kept here before the check. What the
  other hub answers to the take is an argument; a failed look-up reads as no mirror.
\<close>

definition sql_handle_session_verify ::
  "primitives \<Rightarrow> ms \<Rightarrow> string + hub_mirror option \<Rightarrow> session_verify_body \<Rightarrow> mirror_store \<Rightarrow> json \<times> mirror_store" where
  "sql_handle_session_verify P now taken b s =
     (let (has, s1) = has_session_mirror (vb_id b) s;
          s2 = (if vb_id b \<noteq> [] \<and> \<not> has
                then case taken of Inr (Some mirror) \<Rightarrow> snd (keep_session_mirror mirror s1) | _ \<Rightarrow> s1
                else s1)
      in verify_session P now b s2)"

end
