(* ===== verification/Session_Theorems.thy ===== *)
theory Session_Theorems
  imports Session_Lane_Props Session_Mirrors
begin

section \<open>The session lane's theorems\<close>

text \<open>
  What a session lane and its mirror promise: every counter is accepted at most once and only
  under the key, for the whole life of the mirror; a frame sealed under the key by either side is
  accepted by the other; the hub's answer comes after the counter is stored. The last theorem
  shows the one way a spent counter comes back: the mirror is dropped and registered anew.
\<close>

subsection \<open>The HTTP lane's window\<close>

text \<open>C18 (http_counters_once). From a new mirror, through any calls in any order and at any times, no
  counter is accepted twice; and at every moment a call is accepted exactly when the mirror is
  live, the counter is positive, not yet accepted and less than 64 below the highest accepted,
  and the MAC is that of the counter, the method, the path and the digest under the key. A
  refused call changes nothing.\<close>

theorem http_counters_once:
  assumes "reaches (mirror_step P) (\<lambda>_. True) (hub_mirror_new identity u, []) (m, hs)"
  shows "distinct hs \<and>
    (fst (verify_http P c m) = Inr () \<longleftrightarrow>
       mirror_is_live m (hc_now c) \<and> 0 < hc_h c \<and> hc_h c \<notin> set hs \<and> hm_last_h m < hc_h c + 64 \<and>
       http_mac_ok P c m) \<and>
    (fst (verify_http P c m) \<noteq> Inr () \<longrightarrow> snd (verify_http P c m) = m)"
proof -
  have "distinct hs" and w: "window_of m (set hs)"
    using mirror.reaches_inv [OF assms mirror_new_good] by (simp_all add: mirror_good_def)
  then show ?thesis using fresh_iff [OF w, of "hc_h c"] by (auto simp: verify_http_cases)
qed

text \<open>The message a MAC covers is read in one way: equal messages (with
  digests of one length) carry the same counter, event and digest, and two HTTP events whose
  methods have no space are equal only for the same upper-cased method and the same path.\<close>

lemma frame_message_determines:
  assumes "frame_message n (http_event meth path) x = frame_message n' (http_event meth' path') y"
    and "n < 2 ^ 64" and "n' < 2 ^ 64" and "length x = length y"
    and "CHR '' '' \<notin> set meth" and "CHR '' '' \<notin> set meth'"
  shows "n = n' \<and> to_ascii_uppercase meth = to_ascii_uppercase meth' \<and> path = path' \<and> x = y"
proof -
  have e: "n = n'" "http_event meth path = http_event meth' path'" "x = y"
    using frame_message_inj [OF assms(1-4)] by auto
  have up: "CHR '' '' \<notin> set (to_ascii_uppercase s)" if "CHR '' '' \<notin> set s" for s
    using that by (auto simp: to_ascii_uppercase_def dest!: sym [of "CHR '' ''"] ascii_upper_space)
  show ?thesis
    using e split_at_unique [OF _ up [OF assms(5)] up [OF assms(6)], of path path']
    by (simp add: http_event_def)
qed

text \<open>On a minted lane, through any frames received and deliveries sealed in
  any order, the counters accepted from the client strictly increase, none is accepted past
  twelve hours from the mint, and the deliveries are numbered 1, 2, 3 and so on.\<close>

lemma lane_counters_increase:
  assumes "reaches (lane_step P) (\<lambda>_. True)
     \<lparr>lr_lane = fst (mint P identity cn sn random minted ask), lr_in = [], lr_out = []\<rparr> s"
  shows "sorted_wrt (<) (map fst (lr_in s)) \<and>
    (\<forall>n t. (n, t) \<in> set (lr_in s) \<longrightarrow> t \<le> saturating_add minted LANE_MAX_LIFETIME_MS) \<and>
    lr_out s = [1..<sl_next_out (lr_lane s)]"
  using lane.reaches_inv [OF assms, of minted] by (auto simp: lane_good_def mint_def Let_def)

text \<open>C37 (lane_handshake_roundtrip). With hex that decodes what it encodes and an HMAC of 32 bytes, the
  offer's salt and id and the handshake's nonces give the client the lane's key, and a frame the
  client seals with it is accepted while the lane is live, whatever its counter past the last
  one, and hands the event and the data to the router as sent.\<close>

theorem lane_handshake_roundtrip:
  assumes hex: "\<And>bs. hex_decode P (hex_encode P bs) = Some bs"
    and hmac: "\<And>k x. length (sha256_hmac P k x) = 32"
    and "length random = 64" and "0 < n" and "now \<le> minted + SESSION_IDLE_MS" and "minted < 2 ^ 63"
    and "mint P identity cn sn random minted ask = (lane, offer)"
    and "hex32 P (so_salt offer) = Some salt" and "hex32 P (so_id offer) = Some sid"
  shows "verify_inbound P
      \<lparr>fr_s = Some (so_id offer), fr_n = n, fr_e = e, fr_d = d,
       fr_m = hex_encode P (frame_mac P (derive_key P salt sid cn sn) n e d)\<rparr> now lane =
    (Inr (e, d), lane\<lparr>sl_last_in := n, sl_expires_at_ms := now + SESSION_IDLE_MS, sl_active := True\<rparr>)"
proof -
  have key: "hex32 P (sl_key lane) = Some (derive_key P salt sid cn sn)"
    and i: "sl_id lane = so_id offer" "sl_last_in lane = 0"
    and t: "sl_expires_at_ms lane = minted + SESSION_IDLE_MS" "sl_minted_at_ms lane = minted"
    using assms(3,7-9) hex hmac by (auto simp: mint_def Let_def hex32_def derive_key_def)
  have "\<not> saturating_add minted LANE_MAX_LIFETIME_MS < now"
    using assms(5,6) by (simp add: saturating_add_def LANE_MAX_LIFETIME_MS_def SESSION_IDLE_MS_def u64_max_def)
  with key i t assms(4,5) show ?thesis
    by (simp add: verify_inbound_cases lane_is_live_def lane_past_lifetime_def frame_mac_ok_def)
       (simp add: hex32_def hex frame_mac_def frame_mac_over_digest_def hmac)
qed

text \<open>The branch-free comparison is equality of the texts, and an empty expected
  bearer matches nothing.\<close>

lemma bearer_is_equality:
  "bearer_matches got expected \<longleftrightarrow> got = expected \<and> expected \<noteq> []"
  by (auto simp: bearer_matches_iff)

text \<open>Every 64-bit counter and mask survives its decimal string form, and a
  number stored by an older version still reads as itself.\<close>

lemma counter_text_roundtrip:
  assumes "n < 2 ^ 64"
  shows "deserialize_u64 (serialize_u64 n) = Some n \<and> deserialize_u64 (JInt (int n)) = Some n"
proof -
  have "int n < 2 ^ 64" using assms by (metis of_nat_less_iff of_nat_numeral of_nat_power)
  with assms show ?thesis by (simp add: serialize_u64_def)
qed

subsection \<open>The hub's store\<close>

definition mirror_at :: "string \<Rightarrow> mirror_store \<Rightarrow> hub_mirror option" where
  "mirror_at k s = map_of (kept_mirrors s) k"

lemma mirror_at_next [simp]: "mirror_at k (next_fault s) = mirror_at k s"
  by (simp add: mirror_at_def next_fault_def)

lemma mirror_at_put:
  "mirror_at k' (snd (storage_put k m s)) =
     (if \<not> store_fails s \<and> k' = k then Some m else mirror_at k' s)"
  by (simp add: mirror_at_def storage_put_def update_conv' next_fault_def)

lemma mirror_at_delete:
  "mirror_at k' (storage_delete k s) = (if \<not> store_fails s \<and> k' = k then None else mirror_at k' s)"
  by (simp add: mirror_at_def storage_delete_def delete_conv' next_fault_def)

lemma storage_get_eq:
  "storage_get k s = (if store_fails s then None else mirror_at k s, next_fault s)"
  by (simp add: storage_get_def mirror_at_def)

lemma mirror_at_deletes: "mirror_at k (fold storage_delete ks s) \<in> {None, mirror_at k s}"
proof (induction ks arbitrary: s)
  case (Cons k' ks)
  from Cons [of "storage_delete k' s"] show ?case by (auto simp: mirror_at_delete split: if_splits)
qed simp

text \<open>A counter a mirror will not accept, it will not accept after another call either.\<close>

lemma not_fresh_accept:
  assumes "\<not> counter_is_fresh m h"
  shows "\<not> counter_is_fresh (accept_counter m g) h"
proof -
  have le: "h \<le> hm_last_h m" and
    old: "64 \<le> hm_last_h m - h \<or> bit (hm_seen_mask m) (hm_last_h m - h)"
    using assms by (auto simp: counter_is_fresh_def HTTP_REPLAY_WINDOW_def mask_bit Let_def split: if_splits)
  show ?thesis
  proof (cases "hm_last_h m < g")
    case False
    with le old show ?thesis
      by (auto simp: counter_is_fresh_def accept_counter_def HTTP_REPLAY_WINDOW_def bit_iff_and_push_bit_not_eq_0
          [symmetric] bit_or_iff Let_def simp flip: push_bit_of_1)
  next
    case True
    let ?m = "accept_counter m g"
    have m': "hm_last_h ?m = g" "hm_seen_mask ?m =
        (if 64 \<le> g - hm_last_h m then 0 else push_bit (g - hm_last_h m) (hm_seen_mask m)) OR 1"
      using True by (simp_all add: accept_counter_def Let_def)
    show ?thesis
    proof (cases "64 \<le> g - h")
      case big: True
      with True le show ?thesis by (simp add: counter_is_fresh_def m' HTTP_REPLAY_WINDOW_def Let_def)
    next
      case small: False
      then have "bit (hm_seen_mask m) (hm_last_h m - h)" using old True le by auto
      moreover have "g - h - (g - hm_last_h m) = hm_last_h m - h" "g - hm_last_h m \<le> g - h"
        "g - hm_last_h m < 64" using True le small by simp_all
      ultimately have "bit (hm_seen_mask ?m) (g - h)"
        using small True le by (simp add: m' bit_or_iff bit_push_bit_iff)
      with True le show ?thesis
        by (simp add: counter_is_fresh_def m'(1) mask_bit Let_def)
    qed
  qed
qed

lemma accepted_not_fresh:
  assumes "0 < h" and "counter_is_fresh m h"
  shows "\<not> counter_is_fresh (accept_counter m h) h"
proof (cases "hm_last_h m < h")
  case True
  then show ?thesis
    by (simp add: counter_is_fresh_def accept_counter_def Let_def HTTP_REPLAY_WINDOW_def)
next
  case False
  with assms(2) have "hm_last_h m - h < 64"
    by (auto simp: counter_is_fresh_def HTTP_REPLAY_WINDOW_def Let_def split: if_splits)
  then have "bit (hm_seen_mask (accept_counter m h)) (hm_last_h m - h)"
    using False by (simp add: accept_counter_def bit_or_iff bit_exp_iff)
  with False show ?thesis
    by (simp add: counter_is_fresh_def mask_bit Let_def) (simp add: accept_counter_def)
qed

lemma fresh_expires [simp]: "counter_is_fresh (m\<lparr>hm_expires_at_ms := t\<rparr>) h = counter_is_fresh m h"
  by (simp add: counter_is_fresh_def)

definition spent :: "string \<Rightarrow> u64 \<Rightarrow> mirror_store \<Rightarrow> bool" where
  "spent k h s \<longleftrightarrow> (\<forall>m. mirror_at k s = Some m \<longrightarrow> \<not> counter_is_fresh m h)"

text \<open>
  The hub's calls on its mirrors. A hand-over is a check that keeps the mirror the other hub
  answered, which that hub held under the id asked for.
\<close>

datatype mirror_call =
    Upsert string mirror_update
  | Revoke string
  | Sweep ms
  | Take string string
  | Verify ms session_verify_body
  | HandOver ms "string + hub_mirror option" session_verify_body

fun mirror_do :: "primitives \<Rightarrow> mirror_call \<Rightarrow> mirror_store \<Rightarrow> mirror_store" where
  "mirror_do P (Upsert i u) s = upsert_session_mirror i u s"
| "mirror_do P (Revoke i) s = revoke_session_mirror i s"
| "mirror_do P (Sweep now) s = sweep_expired_session_mirrors now s"
| "mirror_do P (Take i ident) s = snd (handle_session_take i ident s)"
| "mirror_do P (Verify now b) s = snd (verify_session P now b s)"
| "mirror_do P (HandOver now taken b) s = snd (sql_handle_session_verify P now taken b s)"

text \<open>
  The calls whose first access is a look-up that decides whether a mirror is registered: an upsert
  and a hand-over. Their look-up has to be served; every other access of any call may fail.
\<close>

fun looked_up :: "mirror_call \<Rightarrow> mirror_store \<Rightarrow> bool" where
  "looked_up (Upsert i u) s = (\<not> store_fails s)"
| "looked_up (HandOver now taken b) s =
     (\<not> store_fails s \<and> (\<forall>m. taken = Inr (Some m) \<longrightarrow> hm_id m = vb_id b))"
| "looked_up _ s = True"

text \<open>A run of the hub's calls through which one mirror stays stored and every such look-up is served.\<close>

inductive kept_run :: "primitives \<Rightarrow> string \<Rightarrow> mirror_store \<Rightarrow> mirror_store \<Rightarrow> bool"
  for P :: primitives and k :: string where
  kept_run_refl: "kept_run P k s s"
| kept_run_step: "kept_run P k s t \<Longrightarrow> mirror_at k t \<noteq> None \<Longrightarrow> looked_up c t \<Longrightarrow>
    kept_run P k s (mirror_do P c t)"

text \<open>The mirror another hub hands over is of the id asked for, when it keeps each under its own id.\<close>

definition keyed :: "mirror_store \<Rightarrow> bool" where
  "keyed s \<longleftrightarrow> (\<forall>k m. mirror_at k s = Some m \<longrightarrow> k = session_mirror_key (hm_id m))"

lemma spent_same: "mirror_at k t \<in> {None, mirror_at k s} \<Longrightarrow> spent k h s \<Longrightarrow> spent k h t"
  by (auto simp: spent_def)

lemma spent_upsert:
  assumes "spent k h s" and "mirror_at k s \<noteq> None" and "\<not> store_fails s"
  shows "spent k h (upsert_session_mirror i u s)"
proof (cases "mirror_at (session_mirror_key (mu_id u)) s")
  case None
  with assms show ?thesis
    by (auto simp: upsert_session_mirror_def storage_get_eq Let_def spent_def mirror_at_put)
next
  case (Some m)
  with assms show ?thesis
    by (auto simp: upsert_session_mirror_def storage_get_eq Let_def spent_def mirror_at_put)
qed

text \<open>The check of a call whose mirror is read and is the caller's.\<close>

lemma verify_session_found:
  assumes "vb_id b \<noteq> []" and "\<not> store_fails s"
    and "mirror_at (session_mirror_key (vb_id b)) s = Some m"
    and "hm_identity m = to_ascii_lowercase (vb_identity b)"
    and "hex32 P (vb_body_sha256 b) = Some digest"
    and c: "c = \<lparr>hc_h = vb_h b, hc_method = vb_method b, hc_path = vb_path b,
                hc_digest = digest, hc_mac = vb_mac b, hc_now = now\<rparr>"
  shows "verify_session P now b s =
    (case verify_http P c m of
       (Inr _, m') \<Rightarrow>
         (let (stored, s2) = storage_put (session_mirror_key (vb_id b)) m' (next_fault s)
          in (if stored then session_yes m' else session_no ''storage'', s2))
     | (Inl Expired, _) \<Rightarrow>
         (session_no (refusal_as_str Expired), storage_delete (session_mirror_key (vb_id b)) (next_fault s))
     | (Inl reason, _) \<Rightarrow> (session_no (refusal_as_str reason), next_fault s))"
  using assms by (simp add: verify_session_def storage_get_eq Let_def)

lemma verify_session_not_found:
  assumes "\<not> (vb_id b \<noteq> [] \<and> \<not> store_fails s \<and>
     (\<exists>m digest. mirror_at (session_mirror_key (vb_id b)) s = Some m \<and>
       hm_identity m = to_ascii_lowercase (vb_identity b) \<and> hex32 P (vb_body_sha256 b) = Some digest))"
  shows "\<exists>r. fst (verify_session P now b s) = session_no r"
    and "mirror_at k (snd (verify_session P now b s)) = mirror_at k s"
  using assms by (auto simp: verify_session_def storage_get_eq Let_def split: option.split)

lemma verify_session_shape:
  "mirror_at k (snd (verify_session P now b s)) \<in> {None, mirror_at k s} \<or>
   (\<exists>m m'. mirror_at k s = Some m \<and> mirror_at k (snd (verify_session P now b s)) = Some m' \<and>
     (\<exists>g t. m' = (accept_counter m g)\<lparr>hm_expires_at_ms := t\<rparr>))"
proof (cases "vb_id b \<noteq> [] \<and> \<not> store_fails s \<and>
     (\<exists>m digest. mirror_at (session_mirror_key (vb_id b)) s = Some m \<and>
       hm_identity m = to_ascii_lowercase (vb_identity b) \<and> hex32 P (vb_body_sha256 b) = Some digest)")
  case False
  from verify_session_not_found(2) [OF False] show ?thesis by simp
next
  case True
  then obtain m digest where md: "vb_id b \<noteq> []" "\<not> store_fails s"
    "mirror_at (session_mirror_key (vb_id b)) s = Some m"
    "hm_identity m = to_ascii_lowercase (vb_identity b)" "hex32 P (vb_body_sha256 b) = Some digest"
    by auto
  note eq = verify_session_found [OF md refl, of now]
  show ?thesis
    unfolding eq verify_http_cases using md(3)
    by (auto simp: Let_def mirror_at_put mirror_at_delete case_prod_beta split: refusal.split)
qed

lemma spent_verify: "spent k h s \<Longrightarrow> spent k h (snd (verify_session P now b s))"
  using verify_session_shape [of k P now b s] by (auto simp: spent_def not_fresh_accept)

lemma spent_hand_over:
  assumes "spent k h s" and "mirror_at k s \<noteq> None" and "looked_up (HandOver now taken b) s"
  shows "spent k h (snd (sql_handle_session_verify P now taken b s))"
proof -
  define s2 where "s2 = (if vb_id b \<noteq> [] \<and> \<not> fst (has_session_mirror (vb_id b) s)
      then case taken of Inr (Some m) \<Rightarrow> snd (keep_session_mirror m (snd (has_session_mirror (vb_id b) s)))
         | _ \<Rightarrow> snd (has_session_mirror (vb_id b) s)
      else snd (has_session_mirror (vb_id b) s))"
  have "mirror_at k s2 = mirror_at k s"
    using assms(2,3)
    by (auto simp: s2_def has_session_mirror_def keep_session_mirror_def storage_get_eq mirror_at_put
        split: sum.split option.split)
  then have "spent k h s2" using assms(1) by (simp add: spent_def)
  then show ?thesis
    using spent_verify [of k h s2 P now b] unfolding sql_handle_session_verify_def
    by (simp add: s2_def case_prod_beta Let_def)
qed

lemma spent_step:
  assumes "spent k h s" and "mirror_at k s \<noteq> None" and "looked_up c s"
  shows "spent k h (mirror_do P c s)"
proof (cases c)
  case (Upsert i u)
  with spent_upsert [OF assms(1,2)] assms(3) show ?thesis by simp
next
  case (Revoke i)
  with assms show ?thesis
    by (auto simp: revoke_session_mirror_def mirror_at_delete spent_def)
next
  case (Sweep now)
  have "mirror_at k (mirror_do P c s) \<in> {None, mirror_at k s}"
    using mirror_at_deletes [of k _ "next_fault s"] Sweep
    by (simp add: sweep_expired_session_mirrors_def)
  then show ?thesis by (rule spent_same [OF _ assms(1)])
next
  case (Take i ident)
  have "mirror_at k (mirror_do P c s) \<in> {None, mirror_at k s}"
    by (simp add: Take handle_session_take_def Let_def storage_get_eq mirror_at_delete split: option.split)
  then show ?thesis by (rule spent_same [OF _ assms(1)])
next
  case (Verify now b)
  with spent_verify [OF assms(1)] show ?thesis by simp
next
  case (HandOver now taken b)
  with spent_hand_over [OF assms(1,2)] assms(3) show ?thesis by simp
qed

lemma session_mirror_key_inj [simp]: "session_mirror_key i = session_mirror_key j \<longleftrightarrow> i = j"
  by (simp add: session_mirror_key_def)

lemma keyedD: "keyed s \<Longrightarrow> mirror_at (session_mirror_key i) s = Some m \<Longrightarrow> hm_id m = i"
  unfolding keyed_def by (metis session_mirror_key_inj)

lemma keyed_take:
  assumes "keyed s" and "fst (handle_session_take i ident s) = Some m"
  shows "hm_id m = i"
  using assms
  by (auto simp: handle_session_take_def Let_def storage_get_eq dest: keyedD split: if_splits option.splits)

lemma keyed_step:
  assumes "keyed s"
  shows "keyed (mirror_do P c s)"
proof -
  have fewer: "keyed t'" if "\<And>k. mirror_at k t' \<in> {None, mirror_at k t}" "keyed t" for t t'
    using that unfolding keyed_def by (metis insert_iff option.distinct(1) singletonD)
  have put: "keyed (snd (storage_put (session_mirror_key (hm_id m)) m t))" if "keyed t" for m t
    using that by (auto simp: keyed_def mirror_at_put)
  have verify: "keyed (snd (verify_session P now b t))" if "keyed t" for now b t
    unfolding keyed_def
  proof (intro allI impI)
    fix k m' assume "mirror_at k (snd (verify_session P now b t)) = Some m'"
    with verify_session_shape [of k P now b t] that show "k = session_mirror_key (hm_id m')"
      by (auto simp: keyed_def accept_counter_def Let_def)
  qed
  show ?thesis
  proof (cases c)
    case (Upsert i u)
    have same: "keyed (next_fault s)" using assms by (simp add: keyed_def)
    have ids: "hm_id (hub_mirror_new a u) = mu_id u" for a by (simp add: hub_mirror_new_def)
    have put_u: "keyed (snd (storage_put (session_mirror_key (mu_id u)) m (next_fault s)))" if "hm_id m = mu_id u" for m
      using put [OF same, of m] that by simp
    have "hm_id m = mu_id u" if "mirror_at (session_mirror_key (mu_id u)) s = Some m" for m
      using keyedD [OF assms that] .
    then show ?thesis
      using Upsert assms same put_u
      by (auto simp: upsert_session_mirror_def storage_get_eq Let_def ids split: option.split)
  next
    case (Revoke i)
    show ?thesis by (rule fewer [OF _ assms]) (simp add: Revoke revoke_session_mirror_def mirror_at_delete)
  next
    case (Sweep now)
    show ?thesis
      by (rule fewer [OF _ assms])
         (use mirror_at_deletes [of _ _ "next_fault s"] in \<open>simp add: Sweep sweep_expired_session_mirrors_def\<close>)
  next
    case (Take i ident)
    show ?thesis
      by (rule fewer [OF _ assms])
         (simp add: Take handle_session_take_def Let_def storage_get_eq mirror_at_delete split: option.split)
  next
    case (Verify now b)
    with verify [OF assms] show ?thesis by simp
  next
    case (HandOver now taken b)
    have "keyed (snd (has_session_mirror (vb_id b) s))"
      using assms by (simp add: keyed_def has_session_mirror_def storage_get_eq)
    with put show ?thesis
      by (auto simp: HandOver sql_handle_session_verify_def Let_def case_prod_beta keep_session_mirror_def
          intro!: verify split: sum.split option.split)
  qed
qed

lemma kept_run_spent: "kept_run P k s t \<Longrightarrow> spent k h s \<Longrightarrow> spent k h t"
  by (induction rule: kept_run.induct) (auto intro: spent_step)

lemma session_yes_no [simp]: "session_yes m \<noteq> session_no r" "session_no r \<noteq> session_yes m"
  by (simp_all add: session_yes_def session_no_def)

lemma verify_session_yes:
  assumes "fst (verify_session P now b s) = session_yes m'"
  shows "spent (session_mirror_key (vb_id b)) (vb_h b) (snd (verify_session P now b s))"
    and "\<not> spent (session_mirror_key (vb_id b)) (vb_h b) s"
proof -
  let ?k = "session_mirror_key (vb_id b)"
  obtain m digest where md: "vb_id b \<noteq> []" "\<not> store_fails s" "mirror_at ?k s = Some m"
    "hm_identity m = to_ascii_lowercase (vb_identity b)" "hex32 P (vb_body_sha256 b) = Some digest"
    using verify_session_not_found(1) [of b s P now] assms by fastforce
  define c where "c = \<lparr>hc_h = vb_h b, hc_method = vb_method b, hc_path = vb_path b,
                hc_digest = digest, hc_mac = vb_mac b, hc_now = now\<rparr>"
  note eq = verify_session_found [OF md c_def]
  have ok: "mirror_is_live m now \<and> 0 < vb_h b \<and> counter_is_fresh m (vb_h b) \<and> http_mac_ok P c m"
  proof (rule ccontr)
    assume "\<not> ?thesis"
    with assms show False unfolding eq verify_http_cases
      by (auto simp: c_def Let_def split: refusal.splits if_splits)
  qed
  show "\<not> spent ?k (vb_h b) s" using md(3) ok by (simp add: spent_def)
  have "\<not> store_fails (next_fault s)"
    using assms ok unfolding eq verify_http_cases by (auto simp: c_def Let_def storage_put_def)
  then show "spent ?k (vb_h b) (snd (verify_session P now b s))"
    using ok accepted_not_fresh [of "vb_h b" m] unfolding eq verify_http_cases
    by (simp add: c_def Let_def case_prod_beta spent_def mirror_at_put)
qed

text \<open>C19 (accepted_call_stays_spent). When the hub answers that a call is good, its counter is already
  stored as spent: in every run after it of upserts, revocations, sweeps, hand-overs and checks, of
  this and other mirrors, no call with that session and counter is answered good again, as long as
  the mirror stays stored and the look-up an upsert or a hand-over starts with is served, the mirror
  handed over being of the id asked for. Any other read, write or delete of the run may fail. The
  two conditions are needed: a mirror dropped or a look-up that fails is registered again with an
  empty window.\<close>

theorem accepted_call_stays_spent:
  assumes "fst (verify_session P now b s) = session_yes m"
    and "kept_run P (session_mirror_key (vb_id b)) (snd (verify_session P now b s)) t"
    and "vb_id b' = vb_id b" and "vb_h b' = vb_h b"
  shows "fst (verify_session P later b' t) \<noteq> session_yes m'"
  using kept_run_spent [OF assms(2) verify_session_yes(1) [OF assms(1)]]
    verify_session_yes(2) [of P later b' t m'] assms(3,4) by auto

text \<open>A storage that answers and a call it accepts.\<close>

lemma verify_session_accepts:
  assumes "store_faults s = []" and "vb_id b \<noteq> []" and "mirror_at (session_mirror_key (vb_id b)) s = Some m"
    and "hm_identity m = to_ascii_lowercase (vb_identity b)"
    and "hex32 P (vb_body_sha256 b) = Some digest"
    and c: "c = \<lparr>hc_h = vb_h b, hc_method = vb_method b, hc_path = vb_path b,
                hc_digest = digest, hc_mac = vb_mac b, hc_now = now\<rparr>"
    and "mirror_is_live m now" and "0 < vb_h b" and "counter_is_fresh m (vb_h b)" and "http_mac_ok P c m"
  shows "fst (verify_session P now b s) =
           session_yes ((accept_counter m (vb_h b))\<lparr>hm_expires_at_ms := now + SESSION_IDLE_MS\<rparr>)"
    and "mirror_at (session_mirror_key (vb_id b)) (snd (verify_session P now b s)) =
           Some ((accept_counter m (vb_h b))\<lparr>hm_expires_at_ms := now + SESSION_IDLE_MS\<rparr>)"
    and "store_faults (snd (verify_session P now b s)) = []"
proof -
  have f: "\<not> store_fails s" "\<not> store_fails (next_fault s)" "store_faults (next_fault s) = []"
    using assms(1) by (simp_all add: store_fails_def next_fault_def)
  note eq = verify_session_found [OF assms(2) f(1) assms(3-5) c]
  show "fst (verify_session P now b s) =
           session_yes ((accept_counter m (vb_h b))\<lparr>hm_expires_at_ms := now + SESSION_IDLE_MS\<rparr>)"
    and "mirror_at (session_mirror_key (vb_id b)) (snd (verify_session P now b s)) =
           Some ((accept_counter m (vb_h b))\<lparr>hm_expires_at_ms := now + SESSION_IDLE_MS\<rparr>)"
    and "store_faults (snd (verify_session P now b s)) = []"
    using assms(7-10) f unfolding eq verify_http_cases
    by (simp_all add: c Let_def storage_put_def mirror_at_def update_conv' next_fault_def)
qed

lemma verify_session_expires:
  assumes "store_faults s = []" and "vb_id b \<noteq> []" and "mirror_at (session_mirror_key (vb_id b)) s = Some m"
    and "hm_identity m = to_ascii_lowercase (vb_identity b)"
    and "hex32 P (vb_body_sha256 b) = Some digest" and "\<not> mirror_is_live m now"
  shows "fst (verify_session P now b s) = session_no ''expired''"
    and "mirror_at (session_mirror_key (vb_id b)) (snd (verify_session P now b s)) = None"
    and "store_faults (snd (verify_session P now b s)) = []"
proof -
  have f: "\<not> store_fails s" "\<not> store_fails (next_fault s)" "store_faults (next_fault s) = []"
    using assms(1) by (simp_all add: store_fails_def next_fault_def)
  note eq = verify_session_found [OF assms(2) f(1) assms(3-5) refl]
  show "fst (verify_session P now b s) = session_no ''expired''"
    and "mirror_at (session_mirror_key (vb_id b)) (snd (verify_session P now b s)) = None"
    and "store_faults (snd (verify_session P now b s)) = []"
    using assms(6) f unfolding eq verify_http_cases
    by (simp_all add: Let_def storage_delete_def mirror_at_def delete_conv' next_fault_def)
qed

lemma upsert_registers:
  assumes "store_faults s = []" and "mu_id u \<noteq> []" and "mu_key u \<noteq> []" and "i \<noteq> []"
    and "mirror_at (session_mirror_key (mu_id u)) s = None"
  shows "mirror_at (session_mirror_key (mu_id u)) (upsert_session_mirror i u s) =
           Some (hub_mirror_new (to_ascii_lowercase i) u)"
    and "store_faults (upsert_session_mirror i u s) = []"
  using assms
  by (auto simp: upsert_session_mirror_def storage_get_eq store_fails_def next_fault_def Let_def
      storage_put_def mirror_at_def update_conv')

text \<open>An upsert whose look-up fails writes an empty window over the mirror stored.\<close>

lemma upsert_unread:
  assumes "store_faults s = [True]" and "mu_id u \<noteq> []" and "mu_key u \<noteq> []" and "i \<noteq> []"
  shows "mirror_at (session_mirror_key (mu_id u)) (upsert_session_mirror i u s) =
           Some (hub_mirror_new (to_ascii_lowercase i) u)"
    and "store_faults (upsert_session_mirror i u s) = []"
  using assms
  by (auto simp: upsert_session_mirror_def storage_get_eq store_fails_def next_fault_def Let_def
      storage_put_def mirror_at_def update_conv')

lemma ascii_lower_idem [simp]: "ascii_lower_char (ascii_lower_char c) = ascii_lower_char c"
proof -
  have "(of_char c + 32) mod 256 = (of_char c :: nat) + 32" if "(of_char c :: nat) \<le> 90"
    by (rule mod_less) (use that in arith)
  then show ?thesis by (auto simp: ascii_lower_char_def Let_def of_char_of)
qed

lemma to_ascii_lowercase_idem [simp]:
  "to_ascii_lowercase (to_ascii_lowercase s) = to_ascii_lowercase s"
  by (simp add: to_ascii_lowercase_def)

lemma new_mirror_accepts:
  assumes "hex32 P (mu_key u) = Some key"
    and "hex32 P (vb_mac b) = Some (frame_mac_over_digest P key (vb_h b)
           (http_event (vb_method b) (vb_path b)) digest)"
    and "0 < vb_h b" and "now \<le> mu_expires_at_ms u"
    and "now \<le> saturating_add (mu_minted_at_ms u) LANE_MAX_LIFETIME_MS"
  shows "mirror_is_live (hub_mirror_new i u) now" and "counter_is_fresh (hub_mirror_new i u) (vb_h b)"
    and "http_mac_ok P \<lparr>hc_h = vb_h b, hc_method = vb_method b, hc_path = vb_path b,
           hc_digest = digest, hc_mac = vb_mac b, hc_now = now\<rparr> (hub_mirror_new i u)"
  using assms
  by (simp_all add: mirror_is_live_def mirror_past_lifetime_def hub_mirror_new_def counter_is_fresh_def
      http_mac_ok_def)

text \<open>C38 (reregistered_mirror_replays). A spent counter comes back when its mirror is dropped as expired and
  the lane is then registered again. The hub registers a lane (\<open>u\<close>), answers a call good at \<open>t0\<close>,
  refuses a later one as expired at \<open>t1\<close> and drops the mirror; the lane's socket, whose own window
  is wider by up to the refresh slack, forwards another frame with a later window (\<open>e\<close>), and the
  hub registers the same id and key with an empty window: the very call of \<open>t0\<close>, replayed, is
  answered good.\<close>

theorem reregistered_mirror_replays:
  fixes s0 :: mirror_store
  assumes ids: "mu_id u \<noteq> []" "mu_key u \<noteq> []" "i \<noteq> []" "vb_id b = mu_id u" "vb_identity b = i"
    and store: "store_faults s0 = []" "mirror_at (session_mirror_key (mu_id u)) s0 = None"
    and call: "hex32 P (vb_body_sha256 b) = Some digest" "hex32 P (mu_key u) = Some key"
      "hex32 P (vb_mac b) = Some (frame_mac_over_digest P key (vb_h b)
         (http_event (vb_method b) (vb_path b)) digest)" "0 < vb_h b"
    and times: "t0 \<le> mu_expires_at_ms u" "t0 + SESSION_IDLE_MS < t1" "t1 \<le> t2" "t2 \<le> e"
      "t2 \<le> saturating_add (mu_minted_at_ms u) LANE_MAX_LIFETIME_MS"
  shows "\<exists>m m' s1 s2 s3 s4. s1 = upsert_session_mirror i u s0 \<and>
     verify_session P t0 b s1 = (session_yes m, s2) \<and>
     verify_session P t1 b s2 = (session_no ''expired'', s3) \<and>
     s4 = upsert_session_mirror i (u\<lparr>mu_expires_at_ms := e\<rparr>) s3 \<and>
     fst (verify_session P t2 b s4) = session_yes m'"
proof -
  let ?k = "session_mirror_key (mu_id u)" and ?i = "to_ascii_lowercase i"
  let ?c = "\<lambda>now. \<lparr>hc_h = vb_h b, hc_method = vb_method b, hc_path = vb_path b,
    hc_digest = digest, hc_mac = vb_mac b, hc_now = now\<rparr>"
  define s1 where "s1 = upsert_session_mirror i u s0"
  define u' where "u' = u\<lparr>mu_expires_at_ms := e\<rparr>"
  have u': "mu_id u' = mu_id u" "mu_key u' = mu_key u" "mu_minted_at_ms u' = mu_minted_at_ms u"
    "mu_expires_at_ms u' = e" by (simp_all add: u'_def)
  have s1: "mirror_at ?k s1 = Some (hub_mirror_new ?i u)" "store_faults s1 = []"
    unfolding s1_def by (rule upsert_registers; use ids store in simp)+
  have t0: "t0 \<le> saturating_add (mu_minted_at_ms u) LANE_MAX_LIFETIME_MS" using times by linarith
  have ident: "hm_identity (hub_mirror_new ?i v) = to_ascii_lowercase (vb_identity b)" for v
    using ids by (simp add: hub_mirror_new_def)
  have b: "vb_id b \<noteq> []" using ids by simp
  have at1: "mirror_at (session_mirror_key (vb_id b)) s1 = Some (hub_mirror_new ?i u)"
    using s1(1) ids(4) by simp
  note live1 = new_mirror_accepts [OF call(2-4) times(1) t0, of ?i]
  note v1 = verify_session_accepts [OF s1(2) b at1 ident call(1) refl live1(1) call(4) live1(2,3)]
  define s2 where "s2 = snd (verify_session P t0 b s1)"
  define m where "m = (accept_counter (hub_mirror_new ?i u) (vb_h b))\<lparr>hm_expires_at_ms := t0 + SESSION_IDLE_MS\<rparr>"
  have dead: "\<not> mirror_is_live m t1" using times by (simp add: m_def mirror_is_live_def)
  have ident2: "hm_identity m = to_ascii_lowercase (vb_identity b)" using ident [of u] by (simp add: m_def)
  note v2 = verify_session_expires [OF v1(3) b v1(2) [folded m_def] ident2 call(1) dead, folded s2_def]
  define s3 where "s3 = snd (verify_session P t1 b s2)"
  define s4 where "s4 = upsert_session_mirror i u' s3"
  have s4: "mirror_at ?k s4 = Some (hub_mirror_new ?i u')" "store_faults s4 = []"
    unfolding s4_def using upsert_registers [of s3 u' i] ids v2(2,3) u' by (simp_all add: s3_def)
  have "hex32 P (mu_key u') = Some key" using call(2) u' by simp
  note live4 = new_mirror_accepts [OF this call(3,4), of t2 ?i]
  have at4: "mirror_at (session_mirror_key (vb_id b)) s4 = Some (hub_mirror_new ?i u')"
    using s4(1) ids(4) by simp
  note v4 = verify_session_accepts [OF s4(2) b at4 ident call(1) refl live4(1) call(4) live4(2,3)]
  have "verify_session P t0 b s1 = (session_yes m, s2)"
    using v1(1) by (simp add: s2_def m_def prod_eq_iff)
  moreover have "verify_session P t1 b s2 = (session_no ''expired'', s3)"
    using v2(1) by (simp add: s3_def prod_eq_iff)
  ultimately show ?thesis using v4(1) times u' s1_def s4_def u'_def by auto
qed

text \<open>A spent counter also comes back while its mirror is live and stored, when
  the look-up of an upsert fails: the hub takes the failure for no mirror. The hub registers a lane
  (\<open>u\<close>) and answers a call good at \<open>t0\<close>; the lane's next frame is forwarded with its window (\<open>e\<close>),
  the storage fails the read and serves the write; the very call of \<open>t0\<close>, replayed at \<open>t2\<close>, is answered
  good.\<close>

lemma unread_mirror_replays:
  fixes s0 :: mirror_store
  assumes ids: "mu_id u \<noteq> []" "mu_key u \<noteq> []" "i \<noteq> []" "vb_id b = mu_id u" "vb_identity b = i"
    and store: "store_faults s0 = []" "mirror_at (session_mirror_key (mu_id u)) s0 = None"
    and call: "hex32 P (vb_body_sha256 b) = Some digest" "hex32 P (mu_key u) = Some key"
      "hex32 P (vb_mac b) = Some (frame_mac_over_digest P key (vb_h b)
         (http_event (vb_method b) (vb_path b)) digest)" "0 < vb_h b"
    and times: "t0 \<le> mu_expires_at_ms u" "t0 \<le> t2" "t2 \<le> e"
      "t2 \<le> saturating_add (mu_minted_at_ms u) LANE_MAX_LIFETIME_MS"
  shows "\<exists>m m' s2. verify_session P t0 b (upsert_session_mirror i u s0) = (session_yes m, s2) \<and>
     mirror_at (session_mirror_key (mu_id u)) s2 \<noteq> None \<and>
     fst (verify_session P t2 b (upsert_session_mirror i (u\<lparr>mu_expires_at_ms := e\<rparr>) (s2\<lparr>store_faults := [True]\<rparr>))) =
       session_yes m'"
proof -
  let ?i = "to_ascii_lowercase i"
  define s1 where "s1 = upsert_session_mirror i u s0"
  define u' where "u' = u\<lparr>mu_expires_at_ms := e\<rparr>"
  have u': "mu_id u' = mu_id u" "mu_key u' = mu_key u" "mu_minted_at_ms u' = mu_minted_at_ms u"
    "mu_expires_at_ms u' = e" by (simp_all add: u'_def)
  have b: "vb_id b \<noteq> []" using ids by simp
  have ident: "hm_identity (hub_mirror_new ?i v) = to_ascii_lowercase (vb_identity b)" for v
    using ids by (simp add: hub_mirror_new_def)
  have s1: "mirror_at (session_mirror_key (vb_id b)) s1 = Some (hub_mirror_new ?i u)" "store_faults s1 = []"
    unfolding s1_def using upsert_registers [of s0 u i] ids store by simp_all
  have t0: "t0 \<le> saturating_add (mu_minted_at_ms u) LANE_MAX_LIFETIME_MS" using times by linarith
  note live1 = new_mirror_accepts [OF call(2-4) times(1) t0, of ?i]
  note v1 = verify_session_accepts [OF s1(2) b s1(1) ident call(1) refl live1(1) call(4) live1(2,3)]
  define s2 where "s2 = snd (verify_session P t0 b s1)"
  define s4 where "s4 = upsert_session_mirror i u' (s2\<lparr>store_faults := [True]\<rparr>)"
  have s4: "mirror_at (session_mirror_key (vb_id b)) s4 = Some (hub_mirror_new ?i u')" "store_faults s4 = []"
    unfolding s4_def using upsert_unread [of "s2\<lparr>store_faults := [True]\<rparr>" u' i] ids u' by simp_all
  have "hex32 P (mu_key u') = Some key" using call(2) u' by simp
  note live4 = new_mirror_accepts [OF this call(3,4), of t2 ?i]
  have "fst (verify_session P t2 b s4) =
      session_yes ((accept_counter (hub_mirror_new ?i u') (vb_h b))\<lparr>hm_expires_at_ms := t2 + SESSION_IDLE_MS\<rparr>)"
    by (rule verify_session_accepts(1) [OF s4(2) b s4(1) ident call(1) refl live4(1) call(4) live4(2,3)])
       (simp_all add: times u')
  moreover have "\<exists>m. verify_session P t0 b s1 = (session_yes m, s2)"
    using v1(1) by (auto simp: s2_def prod_eq_iff)
  moreover have "mirror_at (session_mirror_key (mu_id u)) s2 \<noteq> None"
    using v1(2) ids(4) by (simp add: s2_def)
  ultimately show ?thesis unfolding s4_def u'_def s1_def by blast
qed

subsection \<open>The theorems at work\<close>

text \<open>Stand-ins for the library's functions: a 32-byte tag and a coding that decodes what it encodes.\<close>

definition demo_prim :: primitives where
  "demo_prim =
     \<lparr>sha256 = (\<lambda>bs. replicate 32 (foldl (+) 0 bs)),
      sha256_hmac = (\<lambda>k x. replicate 32 (foldl (+) 1 (k @ x))),
      hex_encode = (\<lambda>bs. map (\<lambda>b. char_of (unat b)) bs),
      hex_decode = (\<lambda>s. Some (as_bytes s))\<rparr>"

lemma demo_hex: "hex_decode demo_prim (hex_encode demo_prim bs) = Some bs"
proof -
  have "(of_char (char_of (unat b) :: char) :: byte) = b" for b :: byte
  proof -
    have "unat b < 256" using unsigned_less [of b] by simp
    then have "(of_char (char_of (unat b) :: char) :: nat) = unat b" by (simp add: of_char_of)
    then have "(of_char (char_of (unat b) :: char) :: byte) = word_of_nat (unat b)"
      by (metis of_nat_of_char)
    then show ?thesis by simp
  qed
  then show ?thesis by (simp add: demo_prim_def as_bytes_def o_def)
qed

lemma demo_hmac: "length (sha256_hmac demo_prim k x) = 32"
  by (simp add: demo_prim_def)

lemma demo_hex32: "length bs = 32 \<Longrightarrow> hex32 demo_prim (hex_encode demo_prim bs) = Some bs"
  by (simp add: hex32_def demo_hex)

definition demo_update :: mirror_update where
  "demo_update = \<lparr>mu_id = ''lane1'', mu_key = hex_encode demo_prim (replicate 32 5),
                  mu_expires_at_ms = 5000, mu_minted_at_ms = 1000\<rparr>"

definition demo_body :: session_verify_body where
  "demo_body =
     \<lparr>vb_id = ''lane1'', vb_identity = ''02ab'', vb_h = 7, vb_method = ''post'', vb_path = ''/sendMessage'',
      vb_body_sha256 = hex_encode demo_prim (replicate 32 9),
      vb_mac = hex_encode demo_prim (frame_mac_over_digest demo_prim (replicate 32 5) 7
        (http_event ''post'' ''/sendMessage'') (replicate 32 9))\<rparr>"

definition demo_call :: http_call where
  "demo_call = \<lparr>hc_h = 7, hc_method = ''post'', hc_path = ''/sendMessage'', hc_digest = replicate 32 9,
                hc_mac = vb_mac demo_body, hc_now = 2000\<rparr>"

lemma demo_mac:
  "hex32 demo_prim (vb_mac demo_body) = Some (frame_mac_over_digest demo_prim (replicate 32 5) 7
     (http_event ''post'' ''/sendMessage'') (replicate 32 9))"
  unfolding demo_body_def
  by (simp only: session_verify_body.select_convs) (rule demo_hex32, simp add: frame_mac_over_digest_def demo_hmac)

lemma demo_keys:
  "hex32 demo_prim (mu_key demo_update) = Some (replicate 32 5)"
  "hex32 demo_prim (vb_body_sha256 demo_body) = Some (replicate 32 9)"
  by (simp_all add: demo_update_def demo_body_def demo_hex32)

theorem http_counters_once_witness:
  "fst (verify_http demo_prim demo_call (hub_mirror_new ''02ab'' demo_update)) = Inr ()"
proof -
  have "mirror_is_live (hub_mirror_new ''02ab'' demo_update) 2000"
    "http_mac_ok demo_prim demo_call (hub_mirror_new ''02ab'' demo_update)"
    using demo_keys(1) demo_mac
    by (simp_all add: mirror_is_live_def mirror_past_lifetime_def hub_mirror_new_def http_mac_ok_def
        demo_call_def) (simp_all add: demo_update_def saturating_add_def u64_max_def LANE_MAX_LIFETIME_MS_def)
  then show ?thesis
    using http_counters_once [OF reaches_refl, of demo_prim demo_call "''02ab''" demo_update]
    by (simp add: demo_call_def hub_mirror_new_def)
qed

lemma lane_counters_increase_example:
  "sorted_wrt (<) (map fst (lr_in (snd (lane_step demo_prim (Outbound ''e'' ''d'' 3000)
     \<lparr>lr_lane = fst (mint demo_prim ''02ab'' ''c'' ''s'' (replicate 64 1) 1000 ''ask''),
      lr_in = [], lr_out = []\<rparr>))))"
  by (rule lane_counters_increase [OF reaches_step [OF reaches_refl], THEN conjunct1]) simp

theorem lane_handshake_roundtrip_witness:
  "\<exists>lane. verify_inbound demo_prim
      \<lparr>fr_s = Some (hex_encode demo_prim (replicate 32 1)), fr_n = 1, fr_e = ''joinRoom'', fr_d = ''{}'',
       fr_m = hex_encode demo_prim (frame_mac demo_prim
         (derive_key demo_prim (replicate 32 1) (replicate 32 1) ''c'' ''s'') 1 ''joinRoom'' ''{}'')\<rparr> 2000
      (fst (mint demo_prim ''02ab'' ''c'' ''s'' (replicate 64 1) 1000 ''ask'')) = (Inr (''joinRoom'', ''{}''), lane)"
proof -
  obtain lane offer where m: "mint demo_prim ''02ab'' ''c'' ''s'' (replicate 64 1) 1000 ''ask'' = (lane, offer)"
    by (cases "mint demo_prim ''02ab'' ''c'' ''s'' (replicate 64 1) 1000 ''ask''")
  then have o: "so_id offer = hex_encode demo_prim (replicate 32 1)"
    "so_salt offer = hex_encode demo_prim (replicate 32 1)"
    by (auto simp: mint_def Let_def)
  then have "hex32 demo_prim (so_salt offer) = Some (replicate 32 1)"
    "hex32 demo_prim (so_id offer) = Some (replicate 32 1)" by (simp_all add: demo_hex32)
  from lane_handshake_roundtrip [OF demo_hex demo_hmac _ _ _ _ m this, of 1 2000 "''joinRoom''" "''{}''"]
  show ?thesis using m o by (simp add: SESSION_IDLE_MS_def)
qed

lemma counter_text_roundtrip_example: "deserialize_u64 (serialize_u64 (2 ^ 64 - 1)) = Some (2 ^ 64 - 1)"
  using counter_text_roundtrip [of "2 ^ 64 - 1"] by simp

definition demo_store :: mirror_store where
  "demo_store = \<lparr>kept_mirrors = [], store_faults = []\<rparr>"

lemma demo_upsert:
  "mirror_at (session_mirror_key ''lane1'') (upsert_session_mirror ''02ab'' demo_update demo_store) =
     Some (hub_mirror_new ''02ab'' demo_update)"
  "store_faults (upsert_session_mirror ''02ab'' demo_update demo_store) = []"
proof -
  have "to_ascii_lowercase ''02ab'' = ''02ab''" by code_simp
  moreover have "mu_id demo_update = ''lane1''" "mu_key demo_update \<noteq> []"
    by (simp_all add: demo_update_def demo_prim_def)
  ultimately show "mirror_at (session_mirror_key ''lane1'') (upsert_session_mirror ''02ab'' demo_update demo_store) =
     Some (hub_mirror_new ''02ab'' demo_update)"
    "store_faults (upsert_session_mirror ''02ab'' demo_update demo_store) = []"
    using upsert_registers [of demo_store demo_update "''02ab''"]
    by (simp_all add: demo_store_def mirror_at_def)
qed

lemma demo_accepted:
  "fst (verify_session demo_prim 2000 demo_body (upsert_session_mirror ''02ab'' demo_update demo_store)) =
     session_yes ((accept_counter (hub_mirror_new ''02ab'' demo_update) 7)\<lparr>hm_expires_at_ms := 2000 + SESSION_IDLE_MS\<rparr>)"
proof -
  let ?u = "hub_mirror_new ''02ab'' demo_update"
  have b: "vb_id demo_body = ''lane1''" "vb_h demo_body = 7" "vb_identity demo_body = ''02ab''"
    "vb_method demo_body = ''post''" "vb_path demo_body = ''/sendMessage''" by (simp_all add: demo_body_def)
  have t: "2000 \<le> mu_expires_at_ms demo_update"
    "2000 \<le> saturating_add (mu_minted_at_ms demo_update) LANE_MAX_LIFETIME_MS"
    by (simp_all add: demo_update_def saturating_add_def u64_max_def LANE_MAX_LIFETIME_MS_def)
  have mac: "hex32 demo_prim (vb_mac demo_body) = Some (frame_mac_over_digest demo_prim (replicate 32 5)
      (vb_h demo_body) (http_event (vb_method demo_body) (vb_path demo_body)) (replicate 32 9))"
    using demo_mac b by simp
  have h: "0 < vb_h demo_body" using b by simp
  note n = new_mirror_accepts [OF demo_keys(1) mac h t, of "''02ab''"]
  have "hm_identity ?u = to_ascii_lowercase (vb_identity demo_body)" by (simp add: hub_mirror_new_def b)
  from verify_session_accepts(1) [OF demo_upsert(2) _ _ this demo_keys(2) refl n(1) h n(2,3)]
  show ?thesis using demo_upsert(1) b by simp
qed

theorem accepted_call_stays_spent_witness:
  "fst (verify_session demo_prim 2500 demo_body
     (snd (verify_session demo_prim 2000 demo_body
       (upsert_session_mirror ''02ab'' demo_update demo_store)))) \<noteq>
   session_yes (hub_mirror_new ''02ab'' demo_update)"
  by (rule accepted_call_stays_spent [OF demo_accepted kept_run_refl refl refl])

lemma unread_mirror_replays_example:
  "\<exists>m s2 m'. verify_session demo_prim 2000 demo_body
       (upsert_session_mirror ''02ab'' demo_update demo_store) = (session_yes m, s2) \<and>
     fst (verify_session demo_prim 2500 demo_body
       (upsert_session_mirror ''02ab'' (demo_update\<lparr>mu_expires_at_ms := 6000\<rparr>) (s2\<lparr>store_faults := [True]\<rparr>))) = session_yes m'"
proof -
  have u: "mu_id demo_update = ''lane1''" "mu_key demo_update \<noteq> []" "vb_id demo_body = ''lane1''"
    "vb_identity demo_body = ''02ab''" "vb_h demo_body = 7" "vb_method demo_body = ''post''"
    "vb_path demo_body = ''/sendMessage''" "mu_expires_at_ms demo_update = 5000" "mu_minted_at_ms demo_update = 1000"
    by (simp_all add: demo_update_def demo_body_def demo_prim_def)
  have store: "store_faults demo_store = []" "mirror_at (session_mirror_key (mu_id demo_update)) demo_store = None"
    by (simp_all add: demo_store_def mirror_at_def)
  show ?thesis
    using unread_mirror_replays [of demo_update "''02ab''" demo_body demo_store demo_prim "replicate 32 9"
        "replicate 32 5" 2000 2500 6000] store demo_keys demo_mac
    by (auto simp: u saturating_add_def u64_max_def LANE_MAX_LIFETIME_MS_def)
qed

theorem reregistered_mirror_replays_witness:
  "\<exists>m s2 s3 m'. verify_session demo_prim 2000 demo_body
       (upsert_session_mirror ''02ab'' demo_update demo_store) = (session_yes m, s2) \<and>
     verify_session demo_prim 3700000 demo_body s2 = (session_no ''expired'', s3) \<and>
     fst (verify_session demo_prim 3700001 demo_body
       (upsert_session_mirror ''02ab'' (demo_update\<lparr>mu_expires_at_ms := 7000000\<rparr>) s3)) = session_yes m'"
proof -
  have u: "mu_id demo_update = ''lane1''" "mu_key demo_update \<noteq> []" "mu_expires_at_ms demo_update = 5000"
    "3700001 \<le> saturating_add (mu_minted_at_ms demo_update) LANE_MAX_LIFETIME_MS"
    by (simp_all add: demo_update_def demo_prim_def saturating_add_def u64_max_def LANE_MAX_LIFETIME_MS_def)
  have b: "vb_id demo_body = ''lane1''" "vb_h demo_body = 7" "vb_identity demo_body = ''02ab''"
    "vb_method demo_body = ''post''" "vb_path demo_body = ''/sendMessage''" by (simp_all add: demo_body_def)
  from reregistered_mirror_replays [of demo_update "''02ab''" demo_body demo_store demo_prim
      "replicate 32 9" "replicate 32 5" 2000 3700000 3700001 7000000] show ?thesis
    using u b demo_keys demo_mac by (simp add: SESSION_IDLE_MS_def demo_store_def mirror_at_def) blast
qed

end
