(* ===== verification/Send_Budget.thy ===== *)
theory Send_Budget
  imports D1_Tables
begin

section \<open>The send budget and the deployment's switches\<close>

text \<open>
  \<open>src/src/send_budget.rs\<close>: the windows of sends and unjudged bytes one identity has, kept in D1's
  \<open>send_budget\<close> table, and the charge of one send; and the router of \<open>src/src/hub_store.rs\<close> with
  the box switch. The environment is a function from variable names to values. D1 hands numbers
  over as JavaScript numbers: \<open>js\<close> is that conversion, a parameter. Every statement meets the
  next fate of a script: served, refused, or landed without an answer.
\<close>

subsection \<open>The budget\<close>

record budget =
  b_window_secs :: u64
  b_sends :: u64
  b_bytes :: u64

definition default_budget :: budget where
  "default_budget = \<lparr>b_window_secs = 60, b_sends = 100, b_bytes = 4 * 1024 * 1024\<rparr>"

definition positive_var :: "(string \<Rightarrow> string option) \<Rightarrow> string \<Rightarrow> u64 option" where
  "positive_var env name =
     (case env name of
        None \<Rightarrow> None
      | Some v \<Rightarrow> (case parse_u64 (trim v) of
                     None \<Rightarrow> None
                   | Some n \<Rightarrow> if 0 < n then Some n else None))"

definition budget_from_env :: "(string \<Rightarrow> string option) \<Rightarrow> budget" where
  "budget_from_env env =
     (let or_default = (\<lambda>name d. case positive_var env name of Some n \<Rightarrow> n | None \<Rightarrow> d)
      in \<lparr>b_window_secs = or_default ''SEND_BUDGET_WINDOW_SECS'' (b_window_secs default_budget),
          b_sends = or_default ''SEND_BUDGET_SENDS'' (b_sends default_budget),
          b_bytes = or_default ''SEND_BUDGET_BYTES'' (b_bytes default_budget)\<rparr>)"

definition window_start :: "budget \<Rightarrow> u64 \<Rightarrow> u64" where
  "window_start b now = now - now mod b_window_secs b"

subsection \<open>The windows over D1\<close>

record budget_db =
  sb_rows :: "((string \<times> u64) \<times> (u64 \<times> u64)) list"
  sb_faults :: "round_trip list"

definition sb_held :: "budget_db \<Rightarrow> string \<times> u64 \<Rightarrow> u64 \<times> u64" where
  "sb_held db k = (case map_of (sb_rows db) k of Some v \<Rightarrow> v | None \<Rightarrow> (0, 0))"

text \<open>\<open>CHARGE_SQL\<close>: the row inserted, or the conflicting row added to; the row after.\<close>

definition CHARGE_SQL ::
  "string \<Rightarrow> u64 \<Rightarrow> u64 \<Rightarrow> u64 \<Rightarrow> budget_db \<Rightarrow> (u64 \<times> u64) \<times> budget_db" where
  "CHARGE_SQL identity start sends bytes db =
     (case map_of (sb_rows db) (identity, start) of
        None \<Rightarrow> ((sends, bytes), db\<lparr>sb_rows := sb_rows db @ [((identity, start), (sends, bytes))]\<rparr>)
      | Some (s, b) \<Rightarrow>
          ((s + sends, b + bytes),
           db\<lparr>sb_rows := update_where (\<lambda>r. fst r = (identity, start))
                           (\<lambda>r. (fst r, (s + sends, b + bytes))) (sb_rows db)\<rparr>))"

definition FORGET_WINDOWS_SQL :: "u64 \<Rightarrow> budget_db \<Rightarrow> budget_db" where
  "FORGET_WINDOWS_SQL start db =
     db\<lparr>sb_rows := filter (\<lambda>((i, w), _). \<not> w < start) (sb_rows db)\<rparr>"

definition d1_windows_charge ::
  "(nat \<Rightarrow> nat) \<Rightarrow> string \<Rightarrow> u64 \<Rightarrow> u64 \<Rightarrow> u64 \<Rightarrow> budget_db \<Rightarrow> (string, u64 \<times> u64, budget_db) outcome" where
  "d1_windows_charge js identity start sends bytes db =
     (let db1 = db\<lparr>sb_faults := tl (sb_faults db)\<rparr>
      in case sb_faults db of
           Refused e # _ \<Rightarrow> (Inl (error_text e), db1)
         | LandedUnanswered e # _ \<Rightarrow> (Inl (error_text e), snd (CHARGE_SQL identity start sends bytes db1))
         | _ \<Rightarrow>
             (let ((s, b), db2) = CHARGE_SQL identity start sends bytes db1
              in (Inr (js s, js b), db2)))"

definition forget_closed :: "budget \<Rightarrow> u64 \<Rightarrow> budget_db \<Rightarrow> budget_db" where
  "forget_closed b now db =
     (let db1 = db\<lparr>sb_faults := tl (sb_faults db)\<rparr>
      in case sb_faults db of
           Refused e # _ \<Rightarrow> db1
         | _ \<Rightarrow> FORGET_WINDOWS_SQL (window_start b now) db1)"

subsection \<open>The charge\<close>

definition budget_refusal :: "budget \<Rightarrow> u64 \<Rightarrow> string \<Rightarrow> answer" where
  "budget_refusal b start what =
     (let nxt = start + b_window_secs b
      in (JObj [(''status'', JStr ''error''), (''code'', JStr ''ERR_SEND_BUDGET''),
                (''description'', JStr (what @ '' in the window of '' @ nat_text (b_window_secs b) @
                   '' s from '' @ nat_text start @ '' (unix seconds); send again from '' @
                   nat_text nxt @ ''.'')),
                (''windowStart'', JInt (int start)), (''windowSecs'', JInt (int (b_window_secs b))),
                (''retryAt'', JInt (int nxt))], 429))"

text \<open>\<open>charge\<close>, over any store of windows: the trait object is the argument \<open>windows_charge\<close>.\<close>

definition charge ::
  "(string \<Rightarrow> u64 \<Rightarrow> u64 \<Rightarrow> u64 \<Rightarrow> 'w \<Rightarrow> (string, u64 \<times> u64, 'w) outcome) \<Rightarrow> budget \<Rightarrow>
     string \<Rightarrow> u64 \<Rightarrow> u64 \<Rightarrow> 'w \<Rightarrow> (answer, unit, 'w) outcome" where
  "charge windows_charge b identity now bytes w =
     (let start = window_start b now
      in case windows_charge identity start 1 bytes w of
           (Inl _, w') \<Rightarrow> (Inr (), w')
         | (Inr (sends, held), w') \<Rightarrow>
             if b_sends b < sends then
               (Inl (budget_refusal b start
                  (nat_text sends @ '' sends, and an identity makes at most '' @ nat_text (b_sends b))), w')
             else if b_bytes b < held then
               (Inl (budget_refusal b start
                  (nat_text held @
                   '' bytes of message and payment no delivery fee judges, and an identity sends at most '' @
                   nat_text (b_bytes b))), w')
             else (Inr (), w'))"

subsection \<open>The hub store's router and the box switch\<close>

datatype hub_store = Kv | Sql | KvDrain

datatype store_path = D1 | Mailbox | D1AndDrain

definition hub_store_parse :: "string option \<Rightarrow> string + hub_store" where
  "hub_store_parse raw =
     (case raw of
        None \<Rightarrow> Inr Kv
      | Some v \<Rightarrow>
          if v = ''kv'' then Inr Kv
          else if v = ''sql'' then Inr Sql
          else if v = ''kv-drain'' then Inr KvDrain
          else Inl v)"

fun hub_binding :: "hub_store \<Rightarrow> string" where
  "hub_binding Kv = ''MESSAGE_HUB''"
| "hub_binding KvDrain = ''MESSAGE_HUB''"
| "hub_binding Sql = ''MESSAGE_HUB_SQL''"

fun send_path :: "hub_store \<Rightarrow> store_path" where
  "send_path Kv = D1"
| "send_path KvDrain = D1"
| "send_path Sql = Mailbox"

fun read_path :: "hub_store \<Rightarrow> store_path" where
  "read_path Kv = D1"
| "read_path Sql = Mailbox"
| "read_path KvDrain = D1AndDrain"

definition refused_boot_answer :: "string \<Rightarrow> answer" where
  "refused_boot_answer v =
     error_answer 500 ''ERR_HUB_STORE_INVALID''
       (''HUB_STORE is \"'' @ v @ ''\"; it must be kv, sql or kv-drain (unset is kv)'')"

definition boxes_off :: "string option \<Rightarrow> string list" where
  "boxes_off raw =
     filter (\<lambda>s. s \<noteq> []) (map trim (split_on (CHR '','') (case raw of Some v \<Rightarrow> v | None \<Rightarrow> [])))"

definition box_is_off :: "string option \<Rightarrow> string \<Rightarrow> bool" where
  "box_is_off raw mbox \<longleftrightarrow> list_ex (\<lambda>b. b = mbox) (boxes_off raw)"

definition box_off_answer :: "string \<Rightarrow> answer" where
  "box_off_answer mbox = error_answer 403 ''ERR_BOX_OFF'' (''box '' @ mbox @ '' is off'')"

end
