(* ===== verification/Send_Budget_Props.thy ===== *)
theory Send_Budget_Props
  imports Send_Budget Machine
begin

section \<open>The send budget: a window's bound holds\<close>

text \<open>
  The interface of the windows (the trait \<open>Windows\<close>) as a locale: a charge that answers has added
  to its window alone and answers what the window holds after; a charge that fails has added that
  or nothing. Over every such store the sends accepted with an answering store stay within the
  budget. The windows over D1 are such a store.
\<close>

text \<open>The charges accepted on an answered window, kept beside the store.\<close>

record charged =
  c_identity :: string
  c_window :: u64
  c_bytes :: u64

definition in_window :: "string \<Rightarrow> u64 \<Rightarrow> charged list \<Rightarrow> charged list" where
  "in_window i w cs = filter (\<lambda>c. c_identity c = i \<and> c_window c = w) cs"

definition charge_step ::
  "(string \<Rightarrow> u64 \<Rightarrow> u64 \<Rightarrow> u64 \<Rightarrow> 'w \<Rightarrow> (string, u64 \<times> u64, 'w) outcome) \<Rightarrow> budget \<Rightarrow>
     string \<times> u64 \<times> u64 \<Rightarrow> 'w \<times> charged list \<Rightarrow> (answer, unit, 'w \<times> charged list) outcome" where
  "charge_step add b call s =
     (case call of (identity, now, bytes) \<Rightarrow>
        (case charge add b identity now bytes (fst s) of
           (Inl e, w) \<Rightarrow> (Inl e, (w, snd s))
         | (Inr u, w) \<Rightarrow>
             (Inr u, (w, case fst (add identity (window_start b now) 1 bytes (fst s)) of
                           Inl _ \<Rightarrow> snd s
                         | Inr _ \<Rightarrow> snd s @ [\<lparr>c_identity = identity, c_window = window_start b now,
                                            c_bytes = bytes\<rparr>]))))"

locale windows =
  fixes add :: "string \<Rightarrow> u64 \<Rightarrow> u64 \<Rightarrow> u64 \<Rightarrow> 'w \<Rightarrow> (string, u64 \<times> u64, 'w) outcome"
    and held :: "'w \<Rightarrow> string \<times> u64 \<Rightarrow> u64 \<times> u64"
    and small :: "'w \<Rightarrow> bool"
  assumes add_answered: "add i t n k w = (Inr r, w') \<Longrightarrow>
      held w' = (held w)((i, t) := (fst (held w (i, t)) + n, snd (held w (i, t)) + k))"
    and add_answer: "add i t n k w = (Inr r, w') \<Longrightarrow> small w' \<Longrightarrow> r = held w' (i, t)"
    and add_failed: "add i t n k w = (Inl e, w') \<Longrightarrow>
      held w' = held w \<or> held w' = (held w)((i, t) := (fst (held w (i, t)) + n, snd (held w (i, t)) + k))"
    and small_back: "small (snd (add i t n k w)) \<Longrightarrow> small w"
begin

definition bounded :: "budget \<Rightarrow> 'w \<times> charged list \<Rightarrow> bool" where
  "bounded b s \<longleftrightarrow> (small (fst s) \<longrightarrow> (\<forall>i t.
     length (in_window i t (snd s)) \<le> fst (held (fst s) (i, t)) \<and>
     sum_list (map c_bytes (in_window i t (snd s))) \<le> snd (held (fst s) (i, t)) \<and>
     length (in_window i t (snd s)) \<le> b_sends b \<and>
     sum_list (map c_bytes (in_window i t (snd s))) \<le> b_bytes b))"

lemma in_window_snoc:
  "in_window i t (cs @ [c]) = in_window i t cs @ (if c_identity c = i \<and> c_window c = t then [c] else [])"
  by (simp add: in_window_def)

lemma charge_step_bounded: "bounded b s \<Longrightarrow> bounded b (snd (charge_step add b call s))"
proof -
  assume g: "bounded b s"
  obtain i now k where call: "call = (i, now, k)" by (cases call)
  let ?t = "window_start b now"
  obtain r w' where a: "add i ?t 1 k (fst s) = (r, w')" by force
  show ?thesis
  proof (cases r)
    case (Inl e)
    with a have grown: "fst (held (fst s) x) \<le> fst (held w' x)" "snd (held (fst s) x) \<le> snd (held w' x)" for x
      using add_failed [of i ?t 1 k "fst s" e w'] by auto
    have "snd (charge_step add b call s) = (w', snd s)"
      using a Inl by (simp add: charge_step_def call charge_def Let_def)
    then show ?thesis using g a small_back [of i ?t 1 k "fst s"] grown unfolding bounded_def
      by (metis (no_types, lifting) fst_conv order_trans snd_conv)
  next
    case (Inr sh)
    have h: "held w' = (held (fst s))((i, ?t) := (fst (held (fst s) (i, ?t)) + 1, snd (held (fst s) (i, ?t)) + k))"
      using a Inr add_answered by blast
    have ans: "sh = held w' (i, ?t)" if "small w'" using a Inr add_answer that by blast
    have before: "small (fst s)" if "small w'" using small_back [of i ?t 1 k "fst s"] a that by simp
    have grown: "fst (held (fst s) x) \<le> fst (held w' x)" "snd (held (fst s) x) \<le> snd (held w' x)" for x
      by (simp_all add: h)
    show ?thesis
    proof (cases "b_sends b < fst sh \<or> b_bytes b < snd sh")
      case True
      then have "snd (charge_step add b call s) = (w', snd s)"
        using a Inr by (auto simp: charge_step_def call charge_def Let_def case_prod_beta)
      then show ?thesis using g before grown unfolding bounded_def
        by (metis (no_types, lifting) fst_conv order_trans snd_conv)
    next
      case False
      then have s': "snd (charge_step add b call s) =
          (w', snd s @ [\<lparr>c_identity = i, c_window = ?t, c_bytes = k\<rparr>])"
        using a Inr by (auto simp: charge_step_def call charge_def Let_def case_prod_beta)
      have bound: "fst (held (fst s) (i, ?t)) + 1 \<le> b_sends b" "snd (held (fst s) (i, ?t)) + k \<le> b_bytes b"
        if "small w'" using False ans [OF that] h by auto
      have low: "length (in_window i ?t (snd s)) \<le> fst (held (fst s) (i, ?t))"
        "sum_list (map c_bytes (in_window i ?t (snd s))) \<le> snd (held (fst s) (i, ?t))"
        if "small w'" using g before [OF that] by (auto simp: bounded_def)
      have "Suc (length (in_window i ?t (snd s))) \<le> b_sends b"
        "sum_list (map c_bytes (in_window i ?t (snd s))) + k \<le> b_bytes b" if "small w'"
        using low [OF that] bound [OF that] by linarith+
      then show ?thesis unfolding s' bounded_def
        using g before by (auto simp: bounded_def in_window_snoc h intro: order_trans le_SucI)
    qed
  qed
qed

end

subsection \<open>The windows over D1\<close>

lemma map_of_update_where:
  "map_of (update_where (\<lambda>r. fst r = k) (\<lambda>r. (fst r, v)) xs) =
     (if map_of xs k = None then map_of xs else (map_of xs)(k \<mapsto> v))"
  by (induction xs) (auto simp: fun_eq_iff)

lemma CHARGE_SQL_held:
  assumes "CHARGE_SQL i t n k db = (r, db')"
  shows "sb_held db' = (sb_held db)((i, t) := (fst (sb_held db (i, t)) + n, snd (sb_held db (i, t)) + k))"
    and "r = sb_held db' (i, t)"
proof -
  have "sb_held db' = (sb_held db)((i, t) := (fst (sb_held db (i, t)) + n, snd (sb_held db (i, t)) + k)) \<and>
      r = sb_held db' (i, t)"
  proof (cases "map_of (sb_rows db) (i, t)")
    case None
    with assms show ?thesis
      by (auto simp: CHARGE_SQL_def sb_held_def fun_eq_iff map_add_def split: option.splits)
  next
    case (Some sb)
    with assms show ?thesis
      by (cases sb) (auto simp: CHARGE_SQL_def sb_held_def map_of_update_where fun_eq_iff)
  qed
  then show "sb_held db' = (sb_held db)((i, t) := (fst (sb_held db (i, t)) + n, snd (sb_held db (i, t)) + k))"
    and "r = sb_held db' (i, t)" by blast+
qed

text \<open>Every number up to a window's own is exact in a JavaScript number.\<close>

definition js_exact :: "(nat \<Rightarrow> nat) \<Rightarrow> budget_db \<Rightarrow> bool" where
  "js_exact js db \<longleftrightarrow> (\<forall>k n. n \<le> fst (sb_held db k) \<or> n \<le> snd (sb_held db k) \<longrightarrow> js n = n)"

lemma sb_held_faults [simp]: "sb_held (db\<lparr>sb_faults := f\<rparr>) = sb_held db"
  by (simp add: sb_held_def fun_eq_iff)

lemma d1_charge_cases:
  obtains (failed) e where "d1_windows_charge js i t n k db = (Inl e, db\<lparr>sb_faults := tl (sb_faults db)\<rparr>)"
  | (landed) e r db' where "CHARGE_SQL i t n k (db\<lparr>sb_faults := tl (sb_faults db)\<rparr>) = (r, db')"
      and "d1_windows_charge js i t n k db = (Inl e, db')"
  | (ran) r db' where "CHARGE_SQL i t n k (db\<lparr>sb_faults := tl (sb_faults db)\<rparr>) = (r, db')"
      and "d1_windows_charge js i t n k db = (Inr (js (fst r), js (snd r)), db')"
proof -
  obtain r db' where c: "CHARGE_SQL i t n k (db\<lparr>sb_faults := tl (sb_faults db)\<rparr>) = (r, db')" by fastforce
  have run: "d1_windows_charge js i t n k db =
      (case sb_faults db of
         Refused e # _ \<Rightarrow> (Inl (error_text e), db\<lparr>sb_faults := tl (sb_faults db)\<rparr>)
       | LandedUnanswered e # _ \<Rightarrow> (Inl (error_text e), db')
       | _ \<Rightarrow> (Inr (js (fst r), js (snd r)), db'))"
    unfolding d1_windows_charge_def Let_def c by (cases r) (simp split: list.split round_trip.split)
  show thesis
  proof (cases "sb_faults db")
    case Nil
    then show thesis by (intro ran [OF c]) (simp add: run)
  next
    case (Cons f fs)
    then show thesis
      by (cases f) (simp_all add: run failed landed [OF c] ran [OF c])
  qed
qed

interpretation d1w: windows "d1_windows_charge js" sb_held "js_exact js" for js
proof (unfold_locales, goal_cases)
  case (1 i t n k w r w')
  then show ?case
    by (cases rule: d1_charge_cases [of js i t n k w]) (auto dest: CHARGE_SQL_held(1))
next
  case (2 i t n k w r w')
  then show ?case
  proof (cases rule: d1_charge_cases [of js i t n k w])
    case (ran r1 db1)
    from CHARGE_SQL_held(2) [OF ran(1)] ran(2) 2 show ?thesis by (auto simp: js_exact_def prod_eq_iff)
  qed simp_all
next
  case (3 i t n k w e w')
  then show ?case
    by (cases rule: d1_charge_cases [of js i t n k w]) (auto dest: CHARGE_SQL_held(1))
next
  case (4 i t n k w)
  have earlier: "js_exact js w" if "CHARGE_SQL i t n k (w\<lparr>sb_faults := tl (sb_faults w)\<rparr>) = (r, db')" "js_exact js db'" for r db'
  proof -
    have "fst (sb_held w x) \<le> fst (sb_held db' x)" "snd (sb_held w x) \<le> snd (sb_held db' x)" for x
      using CHARGE_SQL_held(1) [OF that(1)] by auto
    with that(2) show ?thesis unfolding js_exact_def by (metis (no_types, lifting) order_trans)
  qed
  show ?case
    by (cases rule: d1_charge_cases [of js i t n k w]) (use 4 earlier in \<open>auto simp: js_exact_def\<close>)
qed

interpretation d1b: kept "charge_step (d1_windows_charge js) b" "\<lambda>_. True" "d1w.bounded js b" for js b
  by unfold_locales (rule d1w.charge_step_bounded)

subsection \<open>The theorems\<close>

text \<open>C20 (budget_bounds_a_window). Over D1's windows, through any charges of any identities at any times and
  whatever charges the storage fails, landed or not, while the numbers kept fit a JavaScript number: the sends of
  one identity accepted on an answered window are at most the budget's sends, and their unjudged
  bytes together at most the budget's bytes.\<close>

theorem budget_bounds_a_window:
  assumes "reaches (charge_step (d1_windows_charge js) b) (\<lambda>_. True)
      (\<lparr>sb_rows = [], sb_faults = script\<rparr>, []) (db, cs)"
    and "\<And>n. n < 2 ^ 53 \<Longrightarrow> js n = n"
    and "\<And>k. fst (sb_held db k) < 2 ^ 53 \<and> snd (sb_held db k) < 2 ^ 53"
  shows "length (in_window i t cs) \<le> b_sends b \<and>
         sum_list (map c_bytes (in_window i t cs)) \<le> b_bytes b"
proof -
  have "js_exact js db" using assms(2,3) unfolding js_exact_def by (meson le_less_trans)
  moreover have "d1w.bounded js b (\<lparr>sb_rows = [], sb_faults = script\<rparr>, [])"
    by (simp add: d1w.bounded_def in_window_def)
  ultimately show ?thesis using d1b.reaches_inv [OF assms(1)] by (auto simp: d1w.bounded_def)
qed

text \<open>With a deployment's settings, whatever the environment says, the window
  of a moment starts at or before it and ends after it, at a multiple of the window's length; a
  refusal of that window says to send again from its end.\<close>

lemma budget_window_holds_now:
  shows "0 < b_window_secs (budget_from_env env) \<and>
    window_start (budget_from_env env) now \<le> now \<and>
    now < window_start (budget_from_env env) now + b_window_secs (budget_from_env env) \<and>
    b_window_secs (budget_from_env env) dvd window_start (budget_from_env env) now \<and>
    get_member ''retryAt'' (fst (budget_refusal (budget_from_env env)
      (window_start (budget_from_env env) now) what)) =
      Some (JInt (int (window_start (budget_from_env env) now + b_window_secs (budget_from_env env))))"
proof -
  let ?b = "budget_from_env env"
  have pos: "0 < b_window_secs ?b"
    by (auto simp: budget_from_env_def Let_def positive_var_def default_budget_def split: option.splits)
  then have "now mod b_window_secs ?b < b_window_secs ?b" by simp
  moreover have "now mod b_window_secs ?b \<le> now" by simp
  ultimately have "now < window_start ?b now + b_window_secs ?b" by (simp add: window_start_def)
  with pos show ?thesis
    by (simp add: window_start_def budget_refusal_def Let_def dvd_minus_mod)
qed

text \<open>The hub store's router takes a missing variable as \<open>kv\<close> and any value but
  its three as a refusal carrying the value; under \<open>kv\<close> no path and no hub id reaches the mailbox
  class, and both other settings do.\<close>

lemma router_never_guesses:
  shows "hub_store_parse raw =
      (case raw of None \<Rightarrow> Inr Kv
       | Some v \<Rightarrow> (case map_of [(''kv'', Kv), (''sql'', Sql), (''kv-drain'', KvDrain)] v of
                     Some s \<Rightarrow> Inr s | None \<Rightarrow> Inl v)) \<and>
    ((hub_binding s = ''MESSAGE_HUB_SQL'' \<or> send_path s \<noteq> D1 \<or> read_path s \<noteq> D1) \<longleftrightarrow> s \<noteq> Kv)"
  by (cases s) (auto simp: hub_store_parse_def split: option.split)

theorem budget_bounds_a_window_witness:
  "length (in_window ''a'' 60 (snd (snd (charge_step (d1_windows_charge id) default_budget (''a'', 75, 10)
     (\<lparr>sb_rows = [], sb_faults = []\<rparr>, []))))) \<le> 100"
proof -
  let ?s = "snd (charge_step (d1_windows_charge id) default_budget (''a'', 75, 10)
     (\<lparr>sb_rows = [], sb_faults = []\<rparr>, []))"
  have "reaches (charge_step (d1_windows_charge id) default_budget) (\<lambda>_. True)
      (\<lparr>sb_rows = [], sb_faults = []\<rparr>, []) (fst ?s, snd ?s)"
    unfolding prod.collapse by (rule reaches_step [OF reaches_refl]) simp
  moreover have "sb_held (fst ?s) k = (if k = (''a'', 60) then (1, 10) else (0, 0))" for k
    by (auto simp: charge_step_def charge_def window_start_def default_budget_def d1_windows_charge_def
        CHARGE_SQL_def sb_held_def)
  ultimately show ?thesis
    using budget_bounds_a_window [of id default_budget "[]" "fst ?s" "snd ?s" "''a''" 60]
    by (simp add: default_budget_def)
qed

end
