(* ===== verification/Codec.thy ===== *)
theory Codec
  imports Relay_Prelude
begin

section \<open>The Engine.IO and Socket.IO packet codec\<close>

text \<open>
  \<open>src/src/engineio/codec.rs\<close>: Engine.IO packets, the polling batch, Socket.IO packets. JSON text is
  \<open>serde_json\<close>'s: its writer \<open>to_text\<close> and its reader \<open>from_text\<close> are parameters, and so is
  \<open>debug_text\<close>, the quoted form of a text inside two error messages. A text is its UTF-8 bytes;
  the character an unknown packet starts with is its bytes.
\<close>

datatype codec_error = EmptyPacket | UnknownType string | MalformedPacket string

definition RECORD_SEP :: char where
  "RECORD_SEP = char_of (30 :: nat)"

subsection \<open>Engine.IO\<close>

datatype engine_io_packet =
    Open string
  | Close
  | Ping string
  | Pong string
  | Message string
  | Upgrade
  | Noop

fun eio_encode :: "engine_io_packet \<Rightarrow> string" where
  "eio_encode (Open payload) = ''0'' @ payload"
| "eio_encode Close = ''1''"
| "eio_encode (Ping payload) = ''2'' @ payload"
| "eio_encode (Pong payload) = ''3'' @ payload"
| "eio_encode (Message payload) = ''4'' @ payload"
| "eio_encode Upgrade = ''5''"
| "eio_encode Noop = ''6''"

definition eio_decode :: "(string \<Rightarrow> string) \<Rightarrow> string \<Rightarrow> codec_error + engine_io_packet" where
  "eio_decode debug_text raw =
     (case first_char raw of
        None \<Rightarrow> Inl EmptyPacket
      | Some (head, rest) \<Rightarrow>
          if head = ''0'' then Inr (Open rest)
          else if head = ''1'' then Inr Close
          else if head = ''2'' then Inr (Ping rest)
          else if head = ''3'' then Inr (Pong rest)
          else if head = ''4'' then Inr (Message rest)
          else if head = ''5'' then
            (if rest \<noteq> [] then
               Inl (MalformedPacket (''upgrade packet must have no payload, got '' @ debug_text rest))
             else Inr Upgrade)
          else if head = ''6'' then
            (if rest \<noteq> [] then
               Inl (MalformedPacket (''noop packet must have no payload, got '' @ debug_text rest))
             else Inr Noop)
          else Inl (UnknownType head))"

fun encode_batch_from :: "nat \<Rightarrow> engine_io_packet list \<Rightarrow> string \<Rightarrow> string" where
  "encode_batch_from i [] out = out"
| "encode_batch_from i (p # ps) out =
     encode_batch_from (Suc i) ps
       ((if 0 < i then out @ [RECORD_SEP] else out) @ eio_encode p)"

definition encode_polling_batch :: "engine_io_packet list \<Rightarrow> string" where
  "encode_polling_batch packets = encode_batch_from 0 packets []"

text \<open>Collecting results: the earliest error, or all the values.\<close>

fun collect_results :: "('e + 'a) list \<Rightarrow> 'e + 'a list" where
  "collect_results [] = Inr []"
| "collect_results (Inl e # rs) = Inl e"
| "collect_results (Inr a # rs) =
     (case collect_results rs of Inl e \<Rightarrow> Inl e | Inr as \<Rightarrow> Inr (a # as))"

definition decode_polling_batch ::
  "(string \<Rightarrow> string) \<Rightarrow> string \<Rightarrow> codec_error + engine_io_packet list" where
  "decode_polling_batch debug_text raw =
     (if raw = [] then Inr []
      else collect_results (map (eio_decode debug_text) (split_on RECORD_SEP raw)))"

subsection \<open>Socket.IO\<close>

datatype socket_io_packet =
    Connect string "json option"
  | Disconnect string
  | Event string "u64 option" "json list"
  | Ack string u64 "json list"
  | ConnectError string "json option"

definition DEFAULT_NSP :: string where
  "DEFAULT_NSP = ''/''"

fun sio_nsp :: "socket_io_packet \<Rightarrow> string" where
  "sio_nsp (Connect nsp data) = nsp"
| "sio_nsp (Disconnect nsp) = nsp"
| "sio_nsp (Event nsp ack_id data) = nsp"
| "sio_nsp (Ack nsp ack_id data) = nsp"
| "sio_nsp (ConnectError nsp data) = nsp"

fun sio_type_code :: "socket_io_packet \<Rightarrow> char" where
  "sio_type_code (Connect _ _) = CHR ''0''"
| "sio_type_code (Disconnect _) = CHR ''1''"
| "sio_type_code (Event _ _ _) = CHR ''2''"
| "sio_type_code (Ack _ _ _) = CHR ''3''"
| "sio_type_code (ConnectError _ _) = CHR ''4''"

fun sio_ack_text :: "socket_io_packet \<Rightarrow> string" where
  "sio_ack_text (Event _ (Some i) _) = nat_text i"
| "sio_ack_text (Ack _ i _) = nat_text i"
| "sio_ack_text _ = []"

fun sio_payload :: "(json \<Rightarrow> string) \<Rightarrow> socket_io_packet \<Rightarrow> string" where
  "sio_payload to_text (Connect _ data) = (case data of Some v \<Rightarrow> to_text v | None \<Rightarrow> [])"
| "sio_payload to_text (ConnectError _ data) = (case data of Some v \<Rightarrow> to_text v | None \<Rightarrow> [])"
| "sio_payload to_text (Event _ _ data) = to_text (JArr data)"
| "sio_payload to_text (Ack _ _ data) = to_text (JArr data)"
| "sio_payload to_text (Disconnect _) = []"

definition sio_encode :: "(json \<Rightarrow> string) \<Rightarrow> socket_io_packet \<Rightarrow> string" where
  "sio_encode to_text p =
     [sio_type_code p] @
     (if sio_nsp p \<noteq> DEFAULT_NSP then sio_nsp p @ '','' else []) @
     sio_ack_text p @ sio_payload to_text p"

text \<open>The namespace at the front, and what follows it.\<close>

definition take_nsp :: "string \<Rightarrow> string \<times> string" where
  "take_nsp rest =
     (if starts_with ''/'' rest then
        (let ns = takeWhile (\<lambda>c. c \<noteq> CHR '','') rest
         in if CHR '','' \<in> set rest then (ns, drop (length ns + 1) rest) else (rest, []))
      else (DEFAULT_NSP, rest))"

text \<open>The acknowledgment id: the leading digits (no id when they pass 64 bits), and the rest.\<close>

definition take_ack :: "string \<Rightarrow> u64 option \<times> string" where
  "take_ack rest =
     (let ds = takeWhile is_digit rest
      in (if 0 < length ds then parse_u64 ds else None, drop (length ds) rest))"

definition sio_decode ::
  "(string \<Rightarrow> string + json) \<Rightarrow> string \<Rightarrow> codec_error + socket_io_packet" where
  "sio_decode from_text raw =
     (case first_char raw of
        None \<Rightarrow> Inl EmptyPacket
      | Some (type_ch, rest0) \<Rightarrow>
          (let (nsp, rest) = take_nsp rest0;
               (ack_id, payload) = take_ack rest;
               parsed = (if payload = [] then Inr None
                         else case from_text payload of
                           Inl e \<Rightarrow> Inl (MalformedPacket (''invalid JSON in socket.io payload: '' @ e))
                         | Inr v \<Rightarrow> Inr (Some v))
           in case parsed of
                Inl e \<Rightarrow> Inl e
              | Inr data \<Rightarrow>
                  if type_ch = ''0'' then Inr (Connect nsp data)
                  else if type_ch = ''1'' then Inr (Disconnect nsp)
                  else if type_ch = ''2'' then
                    (case data of
                       Some (JArr (a # as)) \<Rightarrow> Inr (Event nsp ack_id (a # as))
                     | Some _ \<Rightarrow> Inl (MalformedPacket ''socket.io EVENT payload must be a non-empty array'')
                     | None \<Rightarrow> Inl (MalformedPacket ''socket.io EVENT requires a payload''))
                  else if type_ch = ''3'' then
                    (case (case data of
                             Some (JArr as) \<Rightarrow> Inr as
                           | Some _ \<Rightarrow> Inl (MalformedPacket ''socket.io ACK payload must be an array'')
                           | None \<Rightarrow> Inr []) of
                       Inl e \<Rightarrow> Inl e
                     | Inr as \<Rightarrow>
                         (case ack_id of
                            None \<Rightarrow> Inl (MalformedPacket ''socket.io ACK requires an ack id'')
                          | Some i \<Rightarrow> Inr (Ack nsp i as)))
                  else if type_ch = ''4'' then Inr (ConnectError nsp data)
                  else Inl (UnknownType type_ch)))"

fun codec_error_text :: "(string \<Rightarrow> string) \<Rightarrow> codec_error \<Rightarrow> string" where
  "codec_error_text debug_char EmptyPacket = ''empty packet''"
| "codec_error_text debug_char (UnknownType c) = ''unknown packet type: '' @ debug_char c"
| "codec_error_text debug_char (MalformedPacket s) = ''malformed packet: '' @ s"

end
