(* ===== verification/Codec_Props.thy ===== *)
theory Codec_Props
  imports Codec
begin

section \<open>The packet codec: what is encoded is decoded\<close>

text \<open>
  Round trips of single packets, of polling batches and of Socket.IO packets; the decoders accept
  nothing but the seven and five types, and every text is either a packet or a named error.
\<close>

subsection \<open>Engine.IO\<close>

lemma first_char_digit: "is_digit c \<Longrightarrow> first_char (c # r) = Some ([c], r)"
  by (rule first_char_ascii) (simp add: is_digit_def)

lemma eio_heads:
  "first_char (''0'' @ r) = Some (''0'', r)" "first_char (''1'' @ r) = Some (''1'', r)"
  "first_char (''2'' @ r) = Some (''2'', r)" "first_char (''3'' @ r) = Some (''3'', r)"
  "first_char (''4'' @ r) = Some (''4'', r)" "first_char (''5'' @ r) = Some (''5'', r)"
  "first_char (''6'' @ r) = Some (''6'', r)"
  by (simp_all add: first_char_digit is_digit_def)

lemma eio_decode_encode: "eio_decode dbg (eio_encode p) = Inr p"
  using eio_heads(2) [of "[]"] eio_heads(6) [of "[]"] eio_heads(7) [of "[]"] eio_heads
  by (cases p) (simp_all add: eio_decode_def)

lemma split_on_no_sep: "d \<notin> set p \<Longrightarrow> split_on d p = [p]"
  by (induction p) auto

lemma split_on_append:
  "d \<notin> set p \<Longrightarrow> split_on d (p @ d # s) = p # split_on d s"
  by (induction p) auto

lemma split_on_join:
  "ps \<noteq> [] \<Longrightarrow> (\<And>p. p \<in> set ps \<Longrightarrow> d \<notin> set p) \<Longrightarrow> split_on d (join [d] ps) = ps"
  by (induction "[d]" ps rule: join.induct) (auto simp: split_on_no_sep split_on_append)

lemma join_snoc: "xs \<noteq> [] \<Longrightarrow> join sep (xs @ [y]) = join sep xs @ sep @ y"
  by (induction sep xs rule: join.induct) auto

lemma encode_batch_from_join:
  "0 < i \<Longrightarrow> pre \<noteq> [] \<Longrightarrow>
   encode_batch_from i ps (join [RECORD_SEP] (map eio_encode pre)) =
   join [RECORD_SEP] (map eio_encode (pre @ ps))"
proof (induction ps arbitrary: i pre)
  case (Cons p ps)
  from Cons.IH [of "Suc i" "pre @ [p]"] Cons.prems show ?case by (simp add: join_snoc)
qed simp

lemma encode_polling_batch_join:
  "encode_polling_batch ps = join [RECORD_SEP] (map eio_encode ps)"
proof (cases ps)
  case (Cons p qs)
  then show ?thesis
    using encode_batch_from_join [of 1 "[p]" qs] by (simp add: encode_polling_batch_def)
qed (simp add: encode_polling_batch_def)

lemma collect_results_Inr: "collect_results (map Inr xs) = Inr xs"
  by (induction xs) auto

lemma eio_encode_nonempty [simp]: "eio_encode p \<noteq> []"
  by (cases p) simp_all

lemma decode_batch_encode:
  assumes "\<And>p. p \<in> set ps \<Longrightarrow> RECORD_SEP \<notin> set (eio_encode p)"
  shows "decode_polling_batch dbg (encode_polling_batch ps) = Inr ps"
proof (cases "ps = []")
  case False
  then have "join [RECORD_SEP] (map eio_encode ps) \<noteq> []"
    by (cases ps; cases "tl ps") auto
  moreover have "split_on RECORD_SEP (join [RECORD_SEP] (map eio_encode ps)) = map eio_encode ps"
    using False assms by (intro split_on_join) auto
  ultimately show ?thesis
    by (simp add: decode_polling_batch_def encode_polling_batch_join o_def eio_decode_encode collect_results_Inr)
qed (simp add: decode_polling_batch_def encode_polling_batch_def)

subsection \<open>Socket.IO\<close>

definition nsp_ok :: "string \<Rightarrow> bool" where
  "nsp_ok nsp \<longleftrightarrow> starts_with ''/'' nsp \<and> CHR '','' \<notin> set nsp"

lemma take_nsp_default: "\<not> starts_with ''/'' rest \<Longrightarrow> take_nsp rest = (DEFAULT_NSP, rest)"
  by (simp add: take_nsp_def)

lemma takeWhile_to_sep: "c \<notin> set xs \<Longrightarrow> takeWhile (\<lambda>x. x \<noteq> c) (xs @ c # ys) = xs"
  by (induction xs) auto

lemma take_nsp_named:
  assumes "nsp_ok nsp"
  shows "take_nsp (nsp @ '','' @ rest) = (nsp, rest)"
proof -
  have "starts_with ''/'' (nsp @ '','' @ rest)"
    using assms by (cases nsp) (auto simp: nsp_ok_def starts_with_def)
  moreover have "takeWhile (\<lambda>c. c \<noteq> CHR '','') (nsp @ '','' @ rest) = nsp"
    using assms by (simp add: nsp_ok_def takeWhile_to_sep)
  ultimately show ?thesis by (simp add: take_nsp_def Let_def)
qed

text \<open>A payload that does not look like a namespace or an acknowledgment id.\<close>

definition plain_start :: "string \<Rightarrow> bool" where
  "plain_start s \<longleftrightarrow> (case s of [] \<Rightarrow> True | c # _ \<Rightarrow> \<not> is_digit c \<and> c \<noteq> CHR ''/'')"

lemma takeWhile_digits:
  "list_all is_digit ds \<Longrightarrow> plain_start s \<Longrightarrow> takeWhile is_digit (ds @ s) = ds"
  by (induction ds) (auto simp: plain_start_def split: list.splits)

lemma take_ack_none: "plain_start s \<Longrightarrow> take_ack s = (None, s)"
  by (cases s) (simp_all add: take_ack_def plain_start_def)

lemma take_ack_some:
  assumes "plain_start s" and "i < 2 ^ 64"
  shows "take_ack (nat_text i @ s) = (Some i, s)"
  using takeWhile_digits [OF nat_text_digits assms(1)] assms(2)
  by (simp add: take_ack_def Let_def)

lemma digits_not_slash: "list_all is_digit ds \<Longrightarrow> plain_start s \<Longrightarrow> \<not> starts_with ''/'' (ds @ s)"
  by (cases ds; cases s) (auto simp: plain_start_def starts_with_def is_digit_def)

lemma take_front:
  assumes "nsp = DEFAULT_NSP \<or> nsp_ok nsp" and "list_all is_digit ds" and "plain_start s"
  shows "take_nsp ((if nsp \<noteq> DEFAULT_NSP then nsp @ '','' else []) @ ds @ s) = (nsp, ds @ s)"
  using assms take_nsp_named [of nsp "ds @ s"] take_nsp_default [OF digits_not_slash [OF assms(2,3)]]
  by (cases "nsp = DEFAULT_NSP") auto

text \<open>The packets the codec carries: a namespace that reads as one, an event with a name, a 64-bit
  acknowledgment id, and a JSON value whose text reads back and starts with neither a digit nor a
  slash (an array's and an object's text does not).\<close>

fun payload_value :: "socket_io_packet \<Rightarrow> json option" where
  "payload_value (Connect _ d) = d"
| "payload_value (ConnectError _ d) = d"
| "payload_value (Event _ _ d) = Some (JArr d)"
| "payload_value (Ack _ _ d) = Some (JArr d)"
| "payload_value (Disconnect _) = None"

fun ids_ok :: "socket_io_packet \<Rightarrow> bool" where
  "ids_ok (Event _ i d) \<longleftrightarrow> d \<noteq> [] \<and> (case i of Some n \<Rightarrow> n < 2 ^ 64 | None \<Rightarrow> True)"
| "ids_ok (Ack _ i d) \<longleftrightarrow> i < 2 ^ 64"
| "ids_ok _ \<longleftrightarrow> True"

definition sio_ok :: "(json \<Rightarrow> string) \<Rightarrow> (string \<Rightarrow> string + json) \<Rightarrow> socket_io_packet \<Rightarrow> bool" where
  "sio_ok to_text from_text p \<longleftrightarrow>
     (sio_nsp p = DEFAULT_NSP \<or> nsp_ok (sio_nsp p)) \<and> ids_ok p \<and>
     (case payload_value p of
        None \<Rightarrow> True
      | Some v \<Rightarrow> from_text (to_text v) = Inr v \<and> to_text v \<noteq> [] \<and> plain_start (to_text v))"

lemma sio_decode_front:
  assumes "is_digit c" and "nsp = DEFAULT_NSP \<or> nsp_ok nsp" and "list_all is_digit ds" and "plain_start s"
  shows "sio_decode from_text ([c] @ (if nsp \<noteq> DEFAULT_NSP then nsp @ '','' else []) @ ds @ s) =
    (let (ack_id, payload) = take_ack (ds @ s);
         parsed = (if payload = [] then Inr None
                   else case from_text payload of
                     Inl e \<Rightarrow> Inl (MalformedPacket (''invalid JSON in socket.io payload: '' @ e))
                   | Inr v \<Rightarrow> Inr (Some v))
     in case parsed of
          Inl e \<Rightarrow> Inl e
        | Inr data \<Rightarrow>
            if [c] = ''0'' then Inr (Connect nsp data)
            else if [c] = ''1'' then Inr (Disconnect nsp)
            else if [c] = ''2'' then
              (case data of
                 Some (JArr (a # as)) \<Rightarrow> Inr (Event nsp ack_id (a # as))
               | Some _ \<Rightarrow> Inl (MalformedPacket ''socket.io EVENT payload must be a non-empty array'')
               | None \<Rightarrow> Inl (MalformedPacket ''socket.io EVENT requires a payload''))
            else if [c] = ''3'' then
              (case (case data of
                       Some (JArr as) \<Rightarrow> Inr as
                     | Some _ \<Rightarrow> Inl (MalformedPacket ''socket.io ACK payload must be an array'')
                     | None \<Rightarrow> Inr []) of
                 Inl e \<Rightarrow> Inl e
               | Inr as \<Rightarrow>
                   (case ack_id of
                      None \<Rightarrow> Inl (MalformedPacket ''socket.io ACK requires an ack id'')
                    | Some i \<Rightarrow> Inr (Ack nsp i as)))
            else if [c] = ''4'' then Inr (ConnectError nsp data)
            else Inl (UnknownType [c]))"
  using take_front [OF assms(2-4)] first_char_digit [OF assms(1)]
  by (simp add: sio_decode_def Let_def)

lemma sio_decode_encode:
  assumes ok: "sio_ok to_text from_text p"
  shows "sio_decode from_text (sio_encode to_text p) = Inr p"
proof -
  have nsp: "sio_nsp p = DEFAULT_NSP \<or> nsp_ok (sio_nsp p)" and ids: "ids_ok p"
    using ok by (simp_all add: sio_ok_def)
  have digits: "list_all is_digit (sio_ack_text p)"
    by (cases p rule: sio_ack_text.cases) (simp_all add: nat_text_digits)
  have payload: "plain_start (sio_payload to_text p)"
    using ok by (cases p) (auto simp: sio_ok_def plain_start_def split: option.splits)
  have code: "is_digit (sio_type_code p)" by (cases p) (simp_all add: is_digit_def)
  have ack: "take_ack (sio_ack_text p @ sio_payload to_text p) =
      (case p of Event _ i _ \<Rightarrow> i | Ack _ i _ \<Rightarrow> Some i | _ \<Rightarrow> None, sio_payload to_text p)"
    using ids take_ack_some [OF payload] take_ack_none [OF payload]
    by (cases p) (auto split: option.splits)
  show ?thesis
    unfolding sio_encode_def sio_decode_front [OF code nsp digits payload] ack
    using ok by (cases p) (auto simp: sio_ok_def Let_def split: option.splits list.splits)
qed

subsection \<open>The theorems\<close>

text \<open>The packets a client of Socket.IO sends: a namespace that reads as one, an event with a name, a
  64-bit acknowledgment id, and a connect packet's data absent, an array or an object.\<close>

fun is_container :: "json \<Rightarrow> bool" where
  "is_container (JArr _) = True"
| "is_container (JObj _) = True"
| "is_container _ = False"

definition packet_ok :: "socket_io_packet \<Rightarrow> bool" where
  "packet_ok p \<longleftrightarrow>
     (sio_nsp p = DEFAULT_NSP \<or> nsp_ok (sio_nsp p)) \<and> RECORD_SEP \<notin> set (sio_nsp p) \<and> ids_ok p \<and>
     (\<forall>v. payload_value p = Some v \<longrightarrow> is_container v)"

text \<open>What serde does with a value: the text of an array or an object opens with its bracket, has no
  raw control character, and reads back as the value.\<close>

definition text_ok :: "(json \<Rightarrow> string) \<Rightarrow> (string \<Rightarrow> string + json) \<Rightarrow> json \<Rightarrow> bool" where
  "text_ok to_text from_text v \<longleftrightarrow>
     (starts_with ''['' (to_text v) \<or> starts_with ''{'' (to_text v)) \<and> RECORD_SEP \<notin> set (to_text v) \<and>
     from_text (to_text v) = Inr v"

lemma packet_sio_ok:
  assumes "packet_ok p" and "\<And>v. payload_value p = Some v \<Longrightarrow> is_container v \<Longrightarrow> text_ok to_text from_text v"
  shows "sio_ok to_text from_text p"
proof -
  have "from_text (to_text v) = Inr v \<and> to_text v \<noteq> [] \<and> plain_start (to_text v)" if "payload_value p = Some v" for v
    using assms(2) [OF that] assms(1) that
    by (cases "to_text v") (auto simp: packet_ok_def text_ok_def starts_with_def plain_start_def is_digit_def)
  with assms(1) show ?thesis by (simp add: sio_ok_def packet_ok_def split: option.split)
qed

lemma sep_no_digit: "list_all is_digit ds \<Longrightarrow> RECORD_SEP \<notin> set ds"
proof -
  have "\<not> is_digit RECORD_SEP" by code_simp
  then show "list_all is_digit ds \<Longrightarrow> RECORD_SEP \<notin> set ds" by (auto simp: list_all_iff)
qed

lemma encoding_no_sep:
  assumes "packet_ok p" and "\<And>v. payload_value p = Some v \<Longrightarrow> is_container v \<Longrightarrow> text_ok to_text from_text v"
  shows "RECORD_SEP \<notin> set (sio_encode to_text p)"
proof -
  have "RECORD_SEP \<notin> set (sio_payload to_text p)"
    using assms by (cases p) (auto simp: packet_ok_def text_ok_def split: option.splits)
  moreover have "RECORD_SEP \<notin> set (sio_ack_text p)"
    by (rule sep_no_digit) (cases p rule: sio_ack_text.cases; simp add: nat_text_digits)
  moreover have "RECORD_SEP \<noteq> sio_type_code p" "RECORD_SEP \<noteq> CHR '',''"
    by (cases p; simp add: RECORD_SEP_def char_of_def)+
  ultimately show ?thesis using assms(1) by (auto simp: sio_encode_def packet_ok_def)
qed

text \<open>C40 (polling_roundtrip). A batch of Socket.IO packets encoded into one polling body comes out of the
  decoders as it went in: the body splits into exactly those Engine.IO messages, in order, and
  each message is read back as its packet. The packets are those a client of Socket.IO sends: the
  namespace is \<open>/\<close> or starts with \<open>/\<close> and has no comma and no record separator, an event carries at
  least its name, an acknowledgment id fits 64 bits, the data of a connect or connect-error packet
  is absent, an array or an object. Of serde it is asked that the text of such a value opens with
  its bracket, has no raw record separator and reads back as the value. Outside them it fails: an
  event without a name is refused, a number as connect data is read as an acknowledgment id.\<close>

theorem polling_roundtrip:
  assumes "\<And>p. p \<in> set ps \<Longrightarrow> packet_ok p"
    and "\<And>p v. p \<in> set ps \<Longrightarrow> payload_value p = Some v \<Longrightarrow> is_container v \<Longrightarrow> text_ok to_text from_text v"
  shows "decode_polling_batch dbg (encode_polling_batch (map (\<lambda>p. Message (sio_encode to_text p)) ps)) =
           Inr (map (\<lambda>p. Message (sio_encode to_text p)) ps) \<and>
         map (\<lambda>p. sio_decode from_text (sio_encode to_text p)) ps = map Inr ps"
proof -
  have "RECORD_SEP \<noteq> CHR ''4''" by (simp add: RECORD_SEP_def char_of_def)
  with encoding_no_sep [OF assms] have "decode_polling_batch dbg (encode_polling_batch (map (\<lambda>p. Message (sio_encode to_text p)) ps)) =
           Inr (map (\<lambda>p. Message (sio_encode to_text p)) ps)"
    by (intro decode_batch_encode) auto
  moreover have "map (\<lambda>p. sio_decode from_text (sio_encode to_text p)) ps = map Inr ps"
    using packet_sio_ok [OF assms] by (simp add: sio_decode_encode)
  ultimately show ?thesis ..
qed

text \<open>The two cases the last sentence names.\<close>

lemma nameless_event_refused:
  assumes "to_text (JArr []) = ''[]''" and "from_text ''[]'' = Inr (JArr [])"
  shows "sio_decode from_text (sio_encode to_text (Event ''/'' None [])) =
    Inl (MalformedPacket ''socket.io EVENT payload must be a non-empty array'')"
  using sio_decode_front [of "CHR ''2''" "''/''" "[]" "''[]''" from_text] take_ack_none [of "''[]''"] assms
  by (simp add: sio_encode_def DEFAULT_NSP_def is_digit_def plain_start_def)

lemma numeric_connect_lost:
  assumes "to_text (JInt 7) = ''7''"
  shows "sio_decode from_text (sio_encode to_text (Connect ''/'' (Some (JInt 7)))) = Inr (Connect ''/'' None)"
proof -
  have "take_ack (nat_text 7 @ []) = (Some 7, [])" by (rule take_ack_some) (simp_all add: plain_start_def)
  moreover have n: "nat_text 7 = ''7''" by code_simp
  ultimately have "take_ack ''7'' = (Some 7, [])" by simp
  with sio_decode_front [of "CHR ''0''" "''/''" "''7''" "[]" from_text] assms show ?thesis
    by (simp add: sio_encode_def DEFAULT_NSP_def is_digit_def plain_start_def)
qed

text \<open>An Engine.IO text is accepted only as the packet whose encoding it is; the
  one exception is a close packet, whose trailing text is dropped.\<close>

lemma engine_decode_exact:
  assumes "eio_decode dbg raw = Inr p"
  shows "eio_encode p = raw \<or> p = Close \<and> starts_with ''1'' raw"
proof (cases "first_char raw")
  case None
  with assms show ?thesis by (simp add: eio_decode_def)
next
  case (Some hr)
  then obtain h r where hr: "first_char raw = Some (h, r)" by (cases hr) simp
  then have "raw = h @ r" by (auto simp: first_char_def split: list.splits)
  with assms hr show ?thesis by (auto simp: eio_decode_def starts_with_def split: if_splits)
qed

theorem polling_roundtrip_witness:
  "decode_polling_batch id (encode_polling_batch [Message ''2[\"hi\"]'', Message ''2[\"hi\"]'']) =
     Inr [Message ''2[\"hi\"]'', Message ''2[\"hi\"]'']"
proof -
  let ?t = "\<lambda>_ :: json. ''[\"hi\"]''" and ?f = "\<lambda>_ :: string. (Inr (JArr [JStr ''hi'']) :: string + json)"
  let ?p = "Event ''/'' None [JStr ''hi'']"
  have e: "sio_encode ?t ?p = ''2[\"hi\"]''" by (simp add: sio_encode_def DEFAULT_NSP_def)
  have ok: "packet_ok ?p" by (simp add: packet_ok_def DEFAULT_NSP_def RECORD_SEP_def char_of_def)
  have t: "text_ok ?t ?f (JArr [JStr ''hi''])" by (simp add: text_ok_def starts_with_def RECORD_SEP_def char_of_def)
  have "decode_polling_batch id (encode_polling_batch (map (\<lambda>p. Message (sio_encode ?t p)) [?p, ?p])) =
      Inr (map (\<lambda>p. Message (sio_encode ?t p)) [?p, ?p]) \<and>
      map (\<lambda>p. sio_decode ?f (sio_encode ?t p)) [?p, ?p] = map Inr [?p, ?p]"
    by (rule polling_roundtrip) (use ok t in auto)
  then show ?thesis by (simp add: e)
qed

end
