(* ===== verification/Validation.thy ===== *)
theory Validation
  imports Session_Lane
begin

section \<open>The validation of request bodies\<close>

text \<open>
  \<open>src/src/validation.rs\<close>: the scan that finds the text of \<open>payment.tx\<close> in a send's body before it is
  parsed, the reading of a byte array from its text, and the validators of the three requests. A
  body is its bytes; positions are indices into it. \<open>parse_json\<close> is \<open>serde_json::from_slice\<close> and
  \<open>hex\<close> the coding of \<open>hex::encode\<close>, parameters both. A refusal is the JSON answer and its status.
\<close>

type_synonym 'a val_result = "answer + 'a"

definition byte_at :: "string \<Rightarrow> nat \<Rightarrow> char option" where
  "byte_at raw at = (if at < length raw then Some (raw ! at) else None)"

definition slice :: "'a list \<Rightarrow> nat \<Rightarrow> nat \<Rightarrow> 'a list" where
  "slice xs from to = take (to - from) (drop from xs)"

definition JSON_WS :: "char set" where
  "JSON_WS = {CHR '' '', char_of (9 :: nat), char_of (10 :: nat), char_of (13 :: nat)}"

subsection \<open>The scan\<close>

function skip_ws :: "string \<Rightarrow> nat \<Rightarrow> nat" where
  "skip_ws raw at =
     (case byte_at raw at of
        Some c \<Rightarrow> if c \<in> JSON_WS then skip_ws raw (at + 1) else at
      | None \<Rightarrow> at)"
  by pat_completeness auto
termination
  by (relation "measure (\<lambda>(raw, at). length raw - at)")
     (auto simp: byte_at_def split: if_splits)

function skip_string_from :: "string \<Rightarrow> nat \<Rightarrow> nat option" where
  "skip_string_from raw at =
     (case byte_at raw at of
        None \<Rightarrow> None
      | Some c \<Rightarrow>
          if c = CHR 0x5C then skip_string_from raw (at + 2)
          else if c = CHR 0x22 then Some (at + 1)
          else skip_string_from raw (at + 1))"
  by pat_completeness auto
termination
  by (relation "measure (\<lambda>(raw, at). length raw - at)")
     (auto simp: byte_at_def split: if_splits)

definition skip_string :: "string \<Rightarrow> nat \<Rightarrow> nat option" where
  "skip_string raw at =
     (if byte_at raw at \<noteq> Some (CHR 0x22) then None else skip_string_from raw (at + 1))"

declare skip_ws.simps [simp del] skip_string_from.simps [simp del]

lemma skip_ws_ge: "at \<le> skip_ws raw at"
proof (induction raw at rule: skip_ws.induct)
  case (1 raw at)
  then show ?case by (subst skip_ws.simps) (force split: option.split)
qed

lemma skip_string_from_bounds:
  "skip_string_from raw at = Some e \<Longrightarrow> at < e \<and> e \<le> length raw"
proof (induction raw at rule: skip_string_from.induct)
  case (1 raw at)
  show ?case
  proof (cases "byte_at raw at")
    case None
    with "1.prems" show ?thesis by (simp add: skip_string_from.simps [of raw at])
  next
    case (Some c)
    then have "at < length raw" by (simp add: byte_at_def split: if_splits)
    with Some "1.prems" "1.IH" show ?thesis
      by (fastforce simp: skip_string_from.simps [of raw at] split: if_splits)
  qed
qed

lemma skip_string_bounds: "skip_string raw at = Some e \<Longrightarrow> at < e \<and> e \<le> length raw"
  by (auto simp: skip_string_def dest!: skip_string_from_bounds split: if_splits)

function skip_nested :: "string \<Rightarrow> nat \<Rightarrow> nat \<Rightarrow> nat option" where
  "skip_nested raw at depth =
     (case byte_at raw at of
        None \<Rightarrow> None
      | Some c \<Rightarrow>
          if c = CHR 0x22 then
            (case skip_string raw at of
               None \<Rightarrow> None
             | Some at' \<Rightarrow> skip_nested raw at' depth)
          else if c = CHR ''{'' \<or> c = CHR ''['' then skip_nested raw (at + 1) (depth + 1)
          else if c = CHR ''}'' \<or> c = CHR '']'' then
            (if depth - 1 = 0 then Some (at + 1) else skip_nested raw (at + 1) (depth - 1))
          else skip_nested raw (at + 1) depth)"
  by pat_completeness auto
termination
proof (relation "measure (\<lambda>(raw, at, depth). length raw - at)", goal_cases)
  case (2 raw at depth c e)
  from skip_string_bounds [OF 2(3)] show ?case by auto
qed (auto simp: byte_at_def split: if_splits)

definition scalar_end :: "char \<Rightarrow> bool" where
  "scalar_end c \<longleftrightarrow> c \<in> {CHR '','', CHR ''}'', CHR '']''} \<union> JSON_WS"

function skip_scalar :: "string \<Rightarrow> nat \<Rightarrow> nat" where
  "skip_scalar raw at =
     (case byte_at raw at of
        None \<Rightarrow> at
      | Some c \<Rightarrow> if scalar_end c then at else skip_scalar raw (at + 1))"
  by pat_completeness auto
termination
  by (relation "measure (\<lambda>(raw, at). length raw - at)")
     (auto simp: byte_at_def split: if_splits)

declare skip_nested.simps [simp del] skip_scalar.simps [simp del]

definition skip_value :: "string \<Rightarrow> nat \<Rightarrow> nat option" where
  "skip_value raw at =
     (case byte_at raw at of
        None \<Rightarrow> None
      | Some c \<Rightarrow>
          if c = CHR 0x22 then skip_string raw at
          else if c = CHR ''{'' \<or> c = CHR ''['' then skip_nested raw at 0
          else (let e = skip_scalar raw at in if at < e then Some e else None))"

lemma skip_nested_bounds:
  "skip_nested raw at depth = Some e \<Longrightarrow> at < e \<and> e \<le> length raw"
proof (induction raw at depth rule: skip_nested.induct)
  case (1 raw at depth)
  show ?case
  proof (cases "byte_at raw at")
    case None
    with "1.prems" show ?thesis by (simp add: skip_nested.simps [of raw at])
  next
    case (Some c)
    then have lt: "at < length raw" by (auto simp: byte_at_def split: if_splits)
    show ?thesis
    proof (cases "c = CHR 0x22")
      case True
      with Some "1.prems" obtain e' where e': "skip_string raw at = Some e'" "skip_nested raw e' depth = Some e"
        by (simp add: skip_nested.simps [of raw at]) (auto split: option.splits)
      with "1.IH"(1) [OF Some True e'(1)] skip_string_bounds show ?thesis by fastforce
    next
      case False
      with Some "1.prems" "1.IH"(2-4) lt show ?thesis
        by (simp add: skip_nested.simps [of raw at] split: if_splits)
    qed
  qed
qed

lemma skip_scalar_bounds: "at \<le> length raw \<Longrightarrow> at \<le> skip_scalar raw at \<and> skip_scalar raw at \<le> length raw"
proof (induction raw at rule: skip_scalar.induct)
  case (1 raw at)
  then show ?case
    by (subst (1 2) skip_scalar.simps) (force simp: byte_at_def split: option.split if_splits)
qed

lemma skip_value_bounds: "skip_value raw at = Some e \<Longrightarrow> at < e \<and> e \<le> length raw"
  using skip_string_bounds skip_nested_bounds skip_scalar_bounds
  by (auto simp: skip_value_def Let_def byte_at_def split: option.splits if_splits)

text \<open>
  The members of an object: each member met, as its key and its value's range, and the end of the
  object. The members met before the scan gives up are handed on all the same. A key is decoded by
  the parser, which must give a string.
\<close>

definition decode_key :: "(string \<Rightarrow> json option) \<Rightarrow> string \<Rightarrow> string option" where
  "decode_key parse_json text = (case parse_json text of Some v \<Rightarrow> as_str v | None \<Rightarrow> None)"

function members_loop ::
  "(string \<Rightarrow> json option) \<Rightarrow> string \<Rightarrow> nat \<Rightarrow> (string \<times> nat \<times> nat) list \<times> nat option" where
  "members_loop parse_json raw at =
     (case skip_string raw at of
        None \<Rightarrow> ([], None)
      | Some key_end \<Rightarrow>
          (case decode_key parse_json (slice raw at key_end) of
             None \<Rightarrow> ([], None)
           | Some key \<Rightarrow>
               (let colon = skip_ws raw key_end
                in if byte_at raw colon \<noteq> Some (CHR '':'') then ([], None)
                   else
                     (let from = skip_ws raw (colon + 1)
                      in case skip_value raw from of
                           None \<Rightarrow> ([], None)
                         | Some to \<Rightarrow>
                             (let after = skip_ws raw to
                              in if byte_at raw after = Some (CHR '','') then
                                   (let (ms, e) = members_loop parse_json raw (skip_ws raw (after + 1))
                                    in ((key, from, to) # ms, e))
                                 else if byte_at raw after = Some (CHR ''}'') then
                                   ([(key, from, to)], Some (after + 1))
                                 else ([(key, from, to)], None))))))"
  by pat_completeness auto
termination
proof (relation "measure (\<lambda>(parse, raw, at). length raw - at)", goal_cases)
  case (2 parse raw at key_end key colon frm to after)
  have "at < key_end" "key_end \<le> colon" "colon + 1 \<le> frm" "frm < to" "to \<le> length raw"
    "to \<le> after" "after + 1 \<le> skip_ws raw (after + 1)"
    using skip_string_bounds [OF 2(1)] skip_value_bounds [OF 2(6)] skip_ws_ge 2 by auto
  then show ?case by simp
qed simp

declare members_loop.simps [simp del]

definition members ::
  "(string \<Rightarrow> json option) \<Rightarrow> string \<Rightarrow> nat \<Rightarrow> (string \<times> nat \<times> nat) list \<times> nat option" where
  "members parse_json raw at =
     (if byte_at raw at \<noteq> Some (CHR ''{'') then ([], None)
      else
        (let at' = skip_ws raw (at + 1)
         in if byte_at raw at' = Some (CHR ''}'') then ([], Some (at' + 1))
            else members_loop parse_json raw at'))"

definition tx_spans :: "(string \<Rightarrow> json option) \<Rightarrow> string \<Rightarrow> (nat \<times> nat) list" where
  "tx_spans parse_json raw =
     concat (map (\<lambda>(key, from, to).
         if key = ''payment'' \<and> byte_at raw from = Some (CHR ''{'') then
           map snd (filter (\<lambda>(k, _). k = ''tx'') (fst (members parse_json raw from)))
         else [])
       (fst (members parse_json raw (skip_ws raw 0))))"

subsection \<open>A byte array's text\<close>

text \<open>The run of digits at a position: its value and its end; a fourth digit gives it up.\<close>

function digit_run :: "string \<Rightarrow> nat \<Rightarrow> nat \<Rightarrow> nat \<Rightarrow> (nat \<times> nat) option" where
  "digit_run text from at n =
     (case byte_at text at of
        Some d \<Rightarrow>
          if is_digit d then
            (if at + 1 - from > 3 then None else digit_run text from (at + 1) (n * 10 + digit_val d))
          else Some (n, at)
      | None \<Rightarrow> Some (n, at))"
  by pat_completeness auto
termination
  by (relation "measure (\<lambda>(text, from, at, n). length text - at)")
     (auto simp: byte_at_def split: if_splits)

declare digit_run.simps [simp del]

lemma digit_run_ge: "digit_run xs start at n = Some (m, e) \<Longrightarrow> at \<le> e"
proof (induction xs start at n rule: digit_run.induct)
  case (1 xs start at n)
  then show ?case
    by (subst (asm) (2) digit_run.simps) (fastforce split: option.splits if_splits)
qed

function array_loop :: "string \<Rightarrow> nat \<Rightarrow> bytes \<Rightarrow> bytes option" where
  "array_loop text at bs =
     (case digit_run text at at 0 of
        None \<Rightarrow> None
      | Some (n, e) \<Rightarrow>
          if e = at \<or> (text ! at = CHR ''0'' \<and> e - at > 1) \<or> n > 255 then None
          else
            (let e' = skip_ws text e;
                 bs' = bs @ [word_of_nat n]
             in case byte_at text e' of
                  None \<Rightarrow> None
                | Some c \<Rightarrow>
                    if c = CHR '','' then array_loop text (skip_ws text (e' + 1)) bs'
                    else if c = CHR '']'' then
                      (if skip_ws text (e' + 1) = length text then Some bs' else None)
                    else None))"
  by pat_completeness auto
termination
proof (relation "measure (\<lambda>(text, at, bs). length text - at)", goal_cases)
  case (2 xs at bs ne n e e' bs' c)
  have "at \<le> e" "e \<le> e'" "e' + 1 \<le> skip_ws xs (e' + 1)" "e' < length xs"
    using digit_run_ge [of xs at at 0 n e] skip_ws_ge 2 by (auto simp: byte_at_def split: if_splits)
  then show ?case by simp
qed simp

declare array_loop.simps [simp del]

definition array_bytes :: "string \<Rightarrow> bytes option" where
  "array_bytes text =
     (let at = skip_ws text 1
      in if byte_at text at = Some (CHR '']'') then
           (if skip_ws text (at + 1) = length text then Some [] else None)
         else array_loop text at [])"

subsection \<open>The send's body\<close>

definition SEND_BODY_BYTES :: nat where
  "SEND_BODY_BYTES = 12 * 1024 * 1024"

definition val_err :: "http_status \<Rightarrow> string \<Rightarrow> string \<Rightarrow> answer" where
  "val_err = error_answer"

text \<open>
  The text with every array among the spans replaced, and whether the last span is one. \<open>None\<close> is
  a panic: \<open>raw[at..from]\<close> and \<open>raw[from..to]\<close> panic unless their ends are in order and in range.
\<close>

fun rewrite_spans ::
  "(bytes \<Rightarrow> string) \<Rightarrow> string \<Rightarrow> nat \<Rightarrow> (nat \<times> nat) list \<Rightarrow> bool \<Rightarrow> (string \<times> bool) option" where
  "rewrite_spans hex raw at [] arr = (if at \<le> length raw then Some (drop at raw, arr) else None)"
| "rewrite_spans hex raw at ((from, to) # spans) arr =
     (if \<not> (at \<le> from \<and> from \<le> to \<and> to \<le> length raw) then None
      else
        (let is_array = (byte_at raw from = Some (CHR ''[''));
             piece = (if is_array then
                        (case array_bytes (slice raw from to) of
                           Some bs \<Rightarrow> [CHR 0x22] @ hex bs @ [CHR 0x22]
                         | None \<Rightarrow> ''false'')
                      else slice raw from to)
         in case rewrite_spans hex raw to spans is_array of
              None \<Rightarrow> None
            | Some (rest, last_is_array) \<Rightarrow> Some (slice raw at from @ piece @ rest, last_is_array)))"

text \<open>Members of a JSON object: one replaced or put at the end, one removed.\<close>

definition put_member :: "string \<Rightarrow> json \<Rightarrow> (string \<times> json) list \<Rightarrow> (string \<times> json) list" where
  "put_member k v ms =
     (if k \<in> fst ` set ms then map (\<lambda>(k', v'). if k' = k then (k', v) else (k', v')) ms
      else ms @ [(k, v)])"

definition drop_member :: "string \<Rightarrow> (string \<times> json) list \<Rightarrow> (string \<times> json) list" where
  "drop_member k ms = filter (\<lambda>(k', _). k' \<noteq> k) ms"

definition mark_shape :: "bool \<Rightarrow> json \<Rightarrow> json" where
  "mark_shape sent_as_array body =
     (case body of
        JObj ms \<Rightarrow>
          (case map_of ms ''payment'' of
             Some (JObj pm) \<Rightarrow>
               (let pm1 = drop_member ''txShape'' pm;
                    tx_is_text = (case map_of pm1 ''tx'' of Some (JStr _) \<Rightarrow> True | _ \<Rightarrow> False);
                    pm2 = (if sent_as_array \<and> tx_is_text
                           then put_member ''txShape'' (JStr ''array'') pm1 else pm1)
                in JObj (put_member ''payment'' (JObj pm2) ms))
           | _ \<Rightarrow> body)
      | _ \<Rightarrow> body)"

definition BODY_TOO_LARGE :: "nat \<Rightarrow> answer" where
  "BODY_TOO_LARGE n =
     val_err 413 ''ERR_BODY_TOO_LARGE''
       (''The send is '' @ nat_text n @ '' bytes and the relay reads at most '' @
        nat_text SEND_BODY_BYTES @
        '' in one request. Upload the payment's BEEF (/beef/upload-url) and send its key (payment.beefR2Key): an upload has no bound.'')"

definition INVALID_JSON :: answer where
  "INVALID_JSON = val_err 400 ''ERR_INVALID_JSON'' ''Invalid JSON body''"

text \<open>Reading the send's body; \<open>None\<close> is a panic in the rewriting of the text.\<close>

definition read_send_body ::
  "(string \<Rightarrow> json option) \<Rightarrow> (bytes \<Rightarrow> string) \<Rightarrow> string \<Rightarrow> json val_result option" where
  "read_send_body parse_json hex raw =
     (if SEND_BODY_BYTES < length raw then Some (Inl (BODY_TOO_LARGE (length raw)))
      else
        (let spans = tx_spans parse_json raw
         in case (if list_ex (\<lambda>(from, _). byte_at raw from = Some (CHR ''['')) spans
                  then rewrite_spans hex raw 0 spans False else Some (raw, False)) of
              None \<Rightarrow> None
            | Some (text, sent_as_array) \<Rightarrow>
                (case parse_json text of
                   None \<Rightarrow> Some (Inl INVALID_JSON)
                 | Some body \<Rightarrow> Some (Inr (mark_shape sent_as_array body)))))"

subsection \<open>The validators\<close>

definition is_ascii_hexdigit :: "char \<Rightarrow> bool" where
  "is_ascii_hexdigit c \<longleftrightarrow>
     (let n = (of_char c :: nat)
      in 48 \<le> n \<and> n \<le> 57 \<or> 65 \<le> n \<and> n \<le> 70 \<or> 97 \<le> n \<and> n \<le> 102)"

definition is_valid_pubkey :: "string \<Rightarrow> bool" where
  "is_valid_pubkey s \<longleftrightarrow>
     length s = 66 \<and> (starts_with ''02'' s \<or> starts_with ''03'' s) \<and>
     list_all is_ascii_hexdigit (drop 2 s)"

record validated_send =
  vs_recipients :: "(string \<times> string) list"
  vs_message_box :: string
  vs_body :: json
  vs_payment :: "json option"

definition strings_of :: "json list \<Rightarrow> string list" where
  "strings_of vs = List.map_filter as_str vs"

text \<open>The text of a value that is no recipient, for the refusal.\<close>

fun key_text :: "json \<Rightarrow> string" where
  "key_text (JInt i) = int_text i"
| "key_text (JFloat t) = t"
| "key_text (JBool b) = (if b then ''true'' else ''false'')"
| "key_text v = (case as_str v of Some s \<Rightarrow> s | None \<Rightarrow> [])"

definition RECIPIENT_REQUIRED :: answer where
  "RECIPIENT_REQUIRED = val_err 400 ''ERR_RECIPIENT_REQUIRED''
     ''Missing recipient(s). Provide \"recipient\" or \"recipients\".''"

fun read_recipients :: "json option \<Rightarrow> string list val_result" where
  "read_recipients None = Inl RECIPIENT_REQUIRED"
| "read_recipients (Some (JStr s)) = Inr [s]"
| "read_recipients (Some (JArr vs)) = Inr (strings_of vs)"
| "read_recipients (Some v) =
     Inl (val_err 400 ''ERR_INVALID_RECIPIENT_KEY'' (''Invalid recipient key: '' @ key_text v))"

fun read_message_ids :: "json option \<Rightarrow> string list val_result" where
  "read_message_ids (Some (JStr s)) = Inr [s]"
| "read_message_ids (Some (JArr vs)) = Inr (strings_of vs)"
| "read_message_ids _ = Inl (val_err 400 ''ERR_MESSAGEID_REQUIRED'' ''Missing messageId.'')"

text \<open>Steps 6 to 8: the counts, the ids, the keys; then the pairs.\<close>

definition pair_recipients :: "string list \<Rightarrow> string list \<Rightarrow> (string \<times> string) list val_result" where
  "pair_recipients recipients ids =
     (if 1 < length recipients \<and> length ids = 1 then
        Inl (val_err 400 ''ERR_MESSAGEID_COUNT_MISMATCH''
          (''Provided 1 messageId for '' @ nat_text (length recipients) @
           '' recipients. Provide one messageId per recipient (same order).''))
      else if length recipients \<noteq> length ids then
        Inl (val_err 400 ''ERR_MESSAGEID_COUNT_MISMATCH''
          (''Recipients ('' @ nat_text (length recipients) @ '') and messageId count ('' @
           nat_text (length ids) @ '') must match.''))
      else if [] \<in> set ids then
        Inl (val_err 400 ''ERR_INVALID_MESSAGEID'' ''Each messageId must be a non-empty string.'')
      else case find (\<lambda>r. \<not> is_valid_pubkey r) recipients of
        Some r \<Rightarrow> Inl (val_err 400 ''ERR_INVALID_RECIPIENT_KEY'' (''Invalid recipient key: '' @ r))
      | None \<Rightarrow> Inr (zip recipients ids))"

definition or_else :: "'a option \<Rightarrow> 'a option \<Rightarrow> 'a option" where
  "or_else a b = (case a of Some _ \<Rightarrow> a | None \<Rightarrow> b)"

definition INVALID_BOX :: answer where
  "INVALID_BOX = val_err 400 ''ERR_INVALID_MESSAGEBOX'' ''Invalid message box.''"

definition INVALID_BODY :: answer where
  "INVALID_BODY = val_err 400 ''ERR_INVALID_MESSAGE_BODY'' ''Invalid message body.''"

definition validate_send_value :: "json \<Rightarrow> validated_send val_result" where
  "validate_send_value body =
     (case get_member ''message'' body of
        None \<Rightarrow> Inl (val_err 400 ''ERR_MESSAGE_REQUIRED'' ''Please provide a valid message to send!'')
      | Some message \<Rightarrow>
          if \<not> is_object message then Inl INVALID_BOX
          else case Option.bind (get_member ''messageBox'' message) as_str of
            None \<Rightarrow> Inl INVALID_BOX
          | Some message_box \<Rightarrow>
              if message_box = [] then Inl INVALID_BOX
              else case get_member ''body'' message of
                None \<Rightarrow> Inl INVALID_BODY
              | Some msg_body \<Rightarrow>
                  if msg_body = JNull \<or> msg_body = JStr [] then Inl INVALID_BODY
                  else case read_recipients
                      (or_else (get_member ''recipients'' message) (get_member ''recipient'' message)) of
                    Inl e \<Rightarrow> Inl e
                  | Inr recipients \<Rightarrow>
                      if recipients = [] then Inl RECIPIENT_REQUIRED
                      else case read_message_ids (get_member ''messageId'' message) of
                        Inl e \<Rightarrow> Inl e
                      | Inr ids \<Rightarrow>
                          (case pair_recipients recipients ids of
                             Inl e \<Rightarrow> Inl e
                           | Inr pairs \<Rightarrow>
                               Inr \<lparr>vs_recipients = pairs, vs_message_box = message_box,
                                    vs_body = msg_body, vs_payment = get_member ''payment'' body\<rparr>))"

definition validate_send_message ::
  "(string \<Rightarrow> json option) \<Rightarrow> (bytes \<Rightarrow> string) \<Rightarrow> string \<Rightarrow> validated_send val_result option" where
  "validate_send_message parse_json hex raw =
     map_option (\<lambda>r. case r of Inl e \<Rightarrow> Inl e | Inr body \<Rightarrow> validate_send_value body)
       (read_send_body parse_json hex raw)"

definition validate_list_messages :: "(string \<Rightarrow> json option) \<Rightarrow> string \<Rightarrow> string val_result" where
  "validate_list_messages parse_json raw =
     (case parse_json raw of
        None \<Rightarrow> Inl INVALID_JSON
      | Some body \<Rightarrow>
          (case get_member ''messageBox'' body of
             None \<Rightarrow> Inl (val_err 400 ''ERR_MESSAGEBOX_REQUIRED''
                        ''Please provide the name of a valid MessageBox!'')
           | Some v \<Rightarrow>
               (case as_str v of
                  None \<Rightarrow> Inl (val_err 400 ''ERR_INVALID_MESSAGEBOX'' ''MessageBox name must be a string!'')
                | Some s \<Rightarrow>
                    if s = [] then Inl (val_err 400 ''ERR_MESSAGEBOX_REQUIRED''
                        ''Please provide the name of a valid MessageBox!'')
                    else Inr s)))"

definition ID_REQUIRED :: answer where
  "ID_REQUIRED = val_err 400 ''ERR_MESSAGE_ID_REQUIRED''
     ''Please provide the IDs of messages to acknowledge.''"

definition INVALID_ID :: answer where
  "INVALID_ID = val_err 400 ''ERR_INVALID_MESSAGE_ID''
     ''Message IDs must be formatted as an array of strings!''"

fun read_ack_ids :: "json list \<Rightarrow> string list val_result" where
  "read_ack_ids [] = Inr []"
| "read_ack_ids (v # vs) =
     (case as_str v of
        Some s \<Rightarrow>
          if s \<noteq> [] then (case read_ack_ids vs of Inl e \<Rightarrow> Inl e | Inr ids \<Rightarrow> Inr (s # ids))
          else Inl INVALID_ID
      | None \<Rightarrow> Inl INVALID_ID)"

definition validate_acknowledge :: "(string \<Rightarrow> json option) \<Rightarrow> string \<Rightarrow> string list val_result" where
  "validate_acknowledge parse_json raw =
     (case parse_json raw of
        None \<Rightarrow> Inl INVALID_JSON
      | Some body \<Rightarrow>
          (case get_member ''messageIds'' body of
             None \<Rightarrow> Inl ID_REQUIRED
           | Some v \<Rightarrow>
               (case as_array v of
                  None \<Rightarrow> Inl INVALID_ID
                | Some arr \<Rightarrow> if arr = [] then Inl ID_REQUIRED else read_ack_ids arr)))"

end
