(* ===== verification/Validation_Props.thy ===== *)
theory Validation_Props
  imports Validation
begin

section \<open>The validation: ranges, round trip, what passes\<close>

text \<open>
  The ranges the scan finds lie in the text and, inside one object, in order; so a body with one
  payment object is read without a panic. A body can make the two passes of the scan disagree
  about where a string starts: then two ranges overlap and the rewriting panics. The byte array's
  reader inverts its text; a validated request has the shape the handlers rely on.
\<close>

subsection \<open>The ranges\<close>

definition in_order :: "nat \<Rightarrow> nat \<Rightarrow> (nat \<times> nat) list \<Rightarrow> bool" where
  "in_order lo hi spans \<longleftrightarrow>
     sorted_wrt (\<lambda>s t. snd s \<le> fst t) spans \<and> (\<forall>s\<in>set spans. lo \<le> fst s \<and> fst s < snd s \<and> snd s \<le> hi)"

lemma in_order_filter: "in_order lo hi spans \<Longrightarrow> in_order lo hi (filter p spans)"
  by (auto simp: in_order_def sorted_wrt_filter)

lemma in_order_Cons:
  "lo \<le> f \<Longrightarrow> f < t \<Longrightarrow> t \<le> lo' \<Longrightarrow> t \<le> hi \<Longrightarrow> in_order lo' hi spans \<Longrightarrow> in_order lo hi ((f, t) # spans)"
  by (fastforce simp: in_order_def)

lemma in_order_lo: "in_order lo hi spans \<Longrightarrow> lo' \<le> lo \<Longrightarrow> in_order lo' hi spans"
  by (fastforce simp: in_order_def)

lemma members_loop_in_order:
  "members_loop parse raw at = (ms, e) \<Longrightarrow> in_order at (length raw) (map snd ms)"
proof (induction parse raw at arbitrary: ms e rule: members_loop.induct)
  case (1 parse raw at)
  show ?case
  proof (cases "ms = []")
    case True
    then show ?thesis by (simp add: in_order_def)
  next
    case False
    with "1.prems" obtain key_end key to where
      k: "skip_string raw at = Some key_end" "decode_key parse (slice raw at key_end) = Some key"
      "byte_at raw (skip_ws raw key_end) = Some (CHR '':'')"
      "skip_value raw (skip_ws raw (skip_ws raw key_end + 1)) = Some to"
      by (subst (asm) members_loop.simps) (auto simp: Let_def split: option.splits if_splits)
    let ?frm = "skip_ws raw (skip_ws raw key_end + 1)" and ?after = "skip_ws raw to"
    have b: "at \<le> ?frm" "?frm < to" "to \<le> length raw" "to \<le> ?after"
      using skip_string_bounds [OF k(1)] skip_value_bounds [OF k(4)] skip_ws_ge [of key_end raw]
        skip_ws_ge [of "skip_ws raw key_end + 1" raw] skip_ws_ge [of to raw] by auto
    show ?thesis
    proof (cases "byte_at raw ?after = Some (CHR '','')")
      case True
      obtain ms' e' where rest: "members_loop parse raw (skip_ws raw (?after + 1)) = (ms', e')" by fastforce
      have ms: "ms = (key, ?frm, to) # ms'"
        using "1.prems" k True rest by (subst (asm) members_loop.simps) (auto simp: Let_def)
      have "in_order (skip_ws raw (?after + 1)) (length raw) (map snd ms')"
        using "1.IH" [OF k(1,2) refl _ refl k(4) refl True] k(3) rest by simp
      then show ?thesis
        using b skip_ws_ge [of "?after + 1" raw] unfolding ms
        by (simp, intro in_order_Cons [where lo' = "skip_ws raw (Suc ?after)"]) auto
    next
      case False
      then have "ms = [(key, ?frm, to)]"
        using "1.prems" k \<open>ms \<noteq> []\<close> by (subst (asm) members_loop.simps) (auto simp: Let_def split: if_splits)
      with b show ?thesis by (simp add: in_order_def)
    qed
  qed
qed

lemma members_in_order: "in_order at (length raw) (map snd (fst (members parse raw at)))"
proof (cases "members_loop parse raw (skip_ws raw (at + 1))")
  case (Pair ms e)
  have "in_order at (length raw) (map snd ms)"
    using members_loop_in_order [OF Pair] skip_ws_ge [of "at + 1" raw] by (auto intro: in_order_lo)
  with Pair show ?thesis by (simp add: members_def Let_def in_order_def)
qed

definition payment_objects :: "(string \<Rightarrow> json option) \<Rightarrow> string \<Rightarrow> (string \<times> nat \<times> nat) list" where
  "payment_objects parse raw =
     filter (\<lambda>(key, from, to). key = ''payment'' \<and> byte_at raw from = Some (CHR ''{''))
       (fst (members parse raw (skip_ws raw 0)))"

lemma tx_spans_payment_objects:
  "tx_spans parse raw =
     concat (map (\<lambda>(key, from, to).
       map snd (filter (\<lambda>(k, _). k = ''tx'') (fst (members parse raw from)))) (payment_objects parse raw))"
proof -
  have "concat (map (\<lambda>(key, from, to).
         if key = ''payment'' \<and> byte_at raw from = Some (CHR ''{'') then f from else []) ms) =
       concat (map (\<lambda>(key, from, to). f from)
         (filter (\<lambda>(key, from, to). key = ''payment'' \<and> byte_at raw from = Some (CHR ''{'')) ms))"
    for f :: "nat \<Rightarrow> (nat \<times> nat) list" and ms :: "(string \<times> nat \<times> nat) list"
    by (induction ms) (auto split: if_splits)
  then show ?thesis unfolding tx_spans_def payment_objects_def .
qed

lemma object_spans_in_order:
  "in_order 0 (length raw) (map snd (filter (\<lambda>(k, _). k = ''tx'') (fst (members parse raw at))))"
proof -
  have s: "sorted_wrt (\<lambda>s t. snd (snd s) \<le> fst (snd t)) (fst (members parse raw at))"
    and b: "\<forall>m\<in>set (fst (members parse raw at)). fst (snd m) < snd (snd m) \<and> snd (snd m) \<le> length raw"
    using members_in_order [of at raw parse] by (auto simp: in_order_def sorted_wrt_map)
  show ?thesis
    unfolding in_order_def sorted_wrt_map using sorted_wrt_filter [OF s] b by auto
qed

lemma tx_spans_in_range: "s \<in> set (tx_spans parse raw) \<Longrightarrow> fst s < snd s \<and> snd s \<le> length raw"
  using object_spans_in_order unfolding tx_spans_payment_objects in_order_def by fastforce

lemma rewrite_spans_total:
  "in_order at (length raw) spans \<Longrightarrow> at \<le> length raw \<Longrightarrow> rewrite_spans hex raw at spans arr \<noteq> None"
proof (induction spans arbitrary: at arr)
  case (Cons s spans)
  obtain f t where s: "s = (f, t)" by (cases s)
  have "in_order t (length raw) spans" and "at \<le> f" "f < t" "t \<le> length raw"
    using Cons.prems by (fastforce simp: in_order_def s)+
  then have "rewrite_spans hex raw t spans x \<noteq> None" for x by (intro Cons.IH)
  then obtain a b where "rewrite_spans hex raw t spans (byte_at raw f = Some (CHR ''['')) = Some (a, b)"
    by fastforce
  with \<open>at \<le> f\<close> \<open>f < t\<close> \<open>t \<le> length raw\<close> show ?case by (simp add: s Let_def)
qed simp

subsection \<open>The byte array\<close>

definition array_text :: "bytes \<Rightarrow> string" where
  "array_text bs = ''['' @ join '','' (map (\<lambda>b. nat_text (unat b)) bs) @ '']''"

lemma byte_at_append [simp]:
  "byte_at (pre @ c # post) (length pre) = Some c"
  by (simp add: byte_at_def)

lemma digit_run_digits:
  assumes "list_all is_digit ds" and "\<not> is_digit c" and "start \<le> length pre"
    and "length pre + length ds - start \<le> 3"
  shows "digit_run (pre @ ds @ c # post) start (length pre) n =
         Some (foldl (\<lambda>n c. n * 10 + digit_val c) n ds, length pre + length ds)"
  using assms
proof (induction ds arbitrary: pre n)
  case Nil
  then show ?case using byte_at_append [of pre c post] by (simp add: digit_run.simps)
next
  case (Cons d ds)
  have "digit_run ((pre @ [d]) @ ds @ c # post) start (length (pre @ [d])) (n * 10 + digit_val d) =
      Some (foldl (\<lambda>n c. n * 10 + digit_val c) (n * 10 + digit_val d) ds, length (pre @ [d]) + length ds)"
    by (rule Cons.IH) (use Cons.prems in auto)
  moreover have "byte_at (pre @ (d # ds) @ c # post) (length pre) = Some d"
    using byte_at_append [of pre d "ds @ c # post"] by simp
  moreover have "\<not> 3 < length pre + 1 - start" using Cons.prems by simp
  ultimately show ?case using Cons.prems(1) by (subst digit_run.simps) simp
qed

lemma skip_ws_stay: "c \<notin> JSON_WS \<Longrightarrow> skip_ws (pre @ c # post) (length pre) = length pre"
  by (subst skip_ws.simps) simp

lemma skip_ws_end: "skip_ws raw (length raw) = length raw"
  by (subst skip_ws.simps) (simp add: byte_at_def)

lemma digit_not_ws: "is_digit c \<Longrightarrow> c \<notin> JSON_WS"
  by (auto simp: is_digit_def JSON_WS_def of_char_of)

lemma digit_zero_iff: "digit k = CHR ''0'' \<longleftrightarrow> k mod 10 = 0"
proof -
  have "digit k = CHR ''0'' \<longleftrightarrow> (of_char (digit k) :: nat) = of_char (CHR ''0'')"
    by (simp only: of_char_eq_iff)
  then show ?thesis by simp
qed

lemma byte_text:
  fixes b :: byte
  obtains d ds where "nat_text (unat b) = d # ds" and "length (d # ds) \<le> 3"
    and "d = CHR ''0'' \<Longrightarrow> ds = []"
proof -
  let ?n = "unat b"
  have lt: "?n < 256" using unsigned_less [of b] by simp
  consider "?n < 10" | "10 \<le> ?n" "?n < 100" | "100 \<le> ?n" by linarith
  then show thesis
  proof cases
    case 1
    then have "nat_text ?n = [digit ?n]" by (simp add: nat_text.simps)
    then show thesis by (rule that) simp_all
  next
    case 2
    then have n: "nat_text ?n = [digit (?n div 10), digit ?n]"
      by (simp add: nat_text.simps [of ?n] nat_text.simps [of "?n div 10"])
    have "digit (?n div 10) \<noteq> CHR ''0''" using 2 by (simp add: digit_zero_iff)
    then show thesis by (intro that [OF n]) simp_all
  next
    case 3
    have "?n div 10 div 10 < 10" "\<not> ?n div 10 < 10" using lt 3 by simp_all
    then have n: "nat_text ?n = [digit (?n div 10 div 10), digit (?n div 10), digit ?n]"
      using 3 by (simp add: nat_text.simps [of ?n] nat_text.simps [of "?n div 10"]
          nat_text.simps [of "?n div 10 div 10"])
    have "?n div 10 div 10 mod 10 \<noteq> 0" using lt 3 by simp
    then have "digit (?n div 10 div 10) \<noteq> CHR ''0''" unfolding digit_zero_iff .
    then show thesis by (intro that [OF n]) simp_all
  qed
qed

text \<open>One number of the array, read where it stands.\<close>

lemma array_number:
  assumes "\<not> is_digit c" and "c \<notin> JSON_WS"
  shows "array_loop (pre @ nat_text (unat b) @ c # post) (length pre) acc =
    (let e = length pre + length (nat_text (unat b)); acc' = acc @ [b];
         whole = pre @ nat_text (unat b) @ c # post
     in if c = CHR '','' then array_loop whole (skip_ws whole (e + 1)) acc'
        else if c = CHR '']'' then (if skip_ws whole (e + 1) = length whole then Some acc' else None)
        else None)"
proof -
  let ?ds = "nat_text (unat b)" and ?e = "length pre + length (nat_text (unat b))"
  let ?whole = "pre @ ?ds @ c # post"
  obtain d ds where d: "?ds = d # ds" "length (d # ds) \<le> 3" "d = CHR ''0'' \<Longrightarrow> ds = []"
    by (rule byte_text [of b]) blast
  have run: "digit_run ?whole (length pre) (length pre) 0 = Some (unat b, ?e)"
    using digit_run_digits [OF nat_text_digits assms(1) order_refl, of pre "unat b" post 0]
      digits_val_nat_text [of "unat b"] d(1,2) by (simp add: digits_val_def)
  have "unat b < 256" using unsigned_less [of b] by simp
  then have small: "\<not> 255 < unat b" by simp
  have stay: "skip_ws ?whole ?e = ?e" "byte_at ?whole ?e = Some c"
    using skip_ws_stay [OF assms(2), of "pre @ ?ds" post] byte_at_append [of "pre @ ?ds" c post] by simp_all
  have first: "?e \<noteq> length pre" "\<not> (?whole ! length pre = CHR ''0'' \<and> 1 < ?e - length pre)"
    using d by (auto simp: nth_append)
  define W E where "W = ?whole" and "E = ?e"
  have "array_loop W (length pre) acc =
      (if c = CHR '','' then array_loop W (skip_ws W (E + 1)) (acc @ [b])
       else if c = CHR '']'' then (if skip_ws W (E + 1) = length W then Some (acc @ [b]) else None)
       else None)"
    using small stay first run unfolding W_def [symmetric] E_def [symmetric]
    by (subst array_loop.simps) (auto simp: Let_def)
  then show ?thesis by (simp add: W_def E_def Let_def)
qed

lemma array_loop_text:
  assumes "bs \<noteq> []"
  shows "array_loop (pre @ join '','' (map (\<lambda>b. nat_text (unat b)) bs) @ '']'') (length pre) acc = Some (acc @ bs)"
  using assms
proof (induction bs arbitrary: pre acc rule: induct_list012)
  case (2 b)
  have "\<not> is_digit (CHR '']'')" "CHR '']'' \<notin> JSON_WS" by (simp_all add: is_digit_def JSON_WS_def char_of_def)
  from array_number [OF this, of pre b "[]" acc] show ?case
    using skip_ws_end [of "pre @ nat_text (unat b) @ '']''"] by (simp add: Let_def)
next
  case (3 b b' bs)
  have c: "\<not> is_digit (CHR '','')" "CHR '','' \<notin> JSON_WS" by (simp_all add: is_digit_def JSON_WS_def char_of_def)
  let ?rest = "join '','' (map (\<lambda>b. nat_text (unat b)) (b' # bs)) @ '']''"
  let ?pre = "pre @ nat_text (unat b) @ '',''"
  obtain d ds where d: "nat_text (unat b') = d # ds" by (cases "nat_text (unat b')") simp_all
  then have "d \<notin> JSON_WS" using nat_text_digits [of "unat b'"] by (simp add: digit_not_ws)
  moreover obtain ds' where "?rest = d # ds'" using d by (cases bs) simp_all
  ultimately have "skip_ws (?pre @ ?rest) (length ?pre) = length ?pre"
    using skip_ws_stay [of d ?pre ds'] by simp
  with array_number [OF c, of pre b ?rest acc] "3.IH"(2) [of ?pre "acc @ [b]"] show ?case
    by (simp add: Let_def add.assoc)
qed simp

subsection \<open>The theorems\<close>

text \<open>The text of an array of bytes, as JSON writes it, is read back as those
  bytes.\<close>

lemma byte_array_roundtrip: "array_bytes (array_text bs) = Some bs"
proof (cases "bs = []")
  case True
  have "array_bytes ''[]'' = Some []" by code_simp
  with True show ?thesis by (simp add: array_text_def)
next
  case False
  let ?rest = "join '','' (map (\<lambda>b. nat_text (unat b)) bs) @ '']''"
  obtain d ds where d: "nat_text (unat (hd bs)) = d # ds" by (cases "nat_text (unat (hd bs))") simp_all
  then have dig: "is_digit d" using nat_text_digits [of "unat (hd bs)"] by auto
  obtain ds' where rest: "?rest = d # ds'" using d False by (cases bs; cases "tl bs") simp_all
  have "skip_ws (''['' @ ?rest) 1 = 1" "byte_at (''['' @ ?rest) 1 = Some d"
    using skip_ws_stay [OF digit_not_ws [OF dig], of "''[''" ds'] byte_at_append [of "''[''" d ds'] rest
    by simp_all
  moreover have "d \<noteq> CHR '']''" using dig by (auto simp: is_digit_def)
  ultimately show ?thesis
    using array_loop_text [OF False, of "''[''" "[]"] by (simp add: array_bytes_def array_text_def)
qed

lemma rewrite_spans_Some_iff:
  "rewrite_spans hex raw at spans arr \<noteq> None \<longleftrightarrow>
   at \<le> length raw \<and> sorted_wrt (\<lambda>s t. snd s \<le> fst t) spans \<and>
   (\<forall>s\<in>set spans. at \<le> fst s \<and> fst s \<le> snd s \<and> snd s \<le> length raw)"
proof (induction spans arbitrary: at arr)
  case (Cons s spans)
  obtain f t where s: "s = (f, t)" by (cases s)
  have step: "rewrite_spans hex raw at (s # spans) arr \<noteq> None \<longleftrightarrow>
      at \<le> f \<and> f \<le> t \<and> t \<le> length raw \<and>
      rewrite_spans hex raw t spans (byte_at raw f = Some (CHR ''['')) \<noteq> None"
    by (auto simp: s Let_def split: option.splits)
  show ?case unfolding step Cons.IH by (fastforce simp: s)
qed simp

text \<open>C35 (one_payment_reads_safely). For every body: each range the scan hands on is a non-empty range of
  the text. And a send's body in which the scan meets at most one payment object is read without a
  panic, whatever the rest of it is: the answer is a body or a refusal.\<close>

theorem one_payment_reads_safely:
  shows "(\<forall>from to. (from, to) \<in> set (tx_spans parse_json raw) \<longrightarrow> from < to \<and> to \<le> length raw) \<and>
    (length (payment_objects parse_json raw) \<le> 1 \<longrightarrow> read_send_body parse_json hex raw \<noteq> None)"
proof (intro conjI impI)
  show "\<forall>from to. (from, to) \<in> set (tx_spans parse_json raw) \<longrightarrow> from < to \<and> to \<le> length raw"
    using tx_spans_in_range [of _ parse_json raw] by fastforce
next
  assume one: "length (payment_objects parse_json raw) \<le> 1"
  have "in_order 0 (length raw) (tx_spans parse_json raw)"
  proof (cases "payment_objects parse_json raw")
    case Nil
    then show ?thesis by (simp add: tx_spans_payment_objects in_order_def)
  next
    case (Cons m ms)
    with one have "payment_objects parse_json raw = [m]" by simp
    then show ?thesis
      using object_spans_in_order [of raw parse_json "fst (snd m)"]
      by (simp add: tx_spans_payment_objects case_prod_beta)
  qed
  then obtain a b where "rewrite_spans hex raw 0 (tx_spans parse_json raw) False = Some (a, b)"
    using rewrite_spans_total [of 0 raw "tx_spans parse_json raw" hex False] by fastforce
  then show "read_send_body parse_json hex raw \<noteq> None"
    by (auto simp: read_send_body_def Let_def split: option.split)
qed

text \<open>C36 (send_body_panics_exactly). Reading a send's body panics exactly when the body is within the size
  bound, some \<open>tx\<close> the scan found starts as an array, and two of the ranges it found are out of
  order or overlap: then the text between the end of one and the start of the next is sliced
  backwards. Every other body is answered or refused.\<close>

theorem send_body_panics_exactly:
  "read_send_body parse_json hex raw = None \<longleftrightarrow>
     length raw \<le> SEND_BODY_BYTES \<and>
     (\<exists>s\<in>set (tx_spans parse_json raw). byte_at raw (fst s) = Some (CHR ''['')) \<and>
     (\<exists>i j. i < j \<and> j < length (tx_spans parse_json raw) \<and>
        fst (tx_spans parse_json raw ! j) < snd (tx_spans parse_json raw ! i))"
proof -
  let ?spans = "tx_spans parse_json raw"
  have range: "fst s \<le> snd s \<and> snd s \<le> length raw" if "s \<in> set ?spans" for s
    using tx_spans_in_range [of s parse_json raw] that by (cases s) auto
  have "rewrite_spans hex raw 0 ?spans False \<noteq> None \<longleftrightarrow> sorted_wrt (\<lambda>s t. snd s \<le> fst t) ?spans"
    unfolding rewrite_spans_Some_iff using range by auto
  then have "rewrite_spans hex raw 0 ?spans False = None \<longleftrightarrow> \<not> sorted_wrt (\<lambda>s t. snd s \<le> fst t) ?spans"
    by blast
  also have "\<dots> \<longleftrightarrow> (\<exists>i j. i < j \<and> j < length ?spans \<and> fst (?spans ! j) < snd (?spans ! i))"
    by (auto simp: sorted_wrt_iff_nth_less not_le)
  finally have sorted: "rewrite_spans hex raw 0 ?spans False = None \<longleftrightarrow>
      (\<exists>i j. i < j \<and> j < length ?spans \<and> fst (?spans ! j) < snd (?spans ! i))" .
  have arr: "list_ex (\<lambda>(from, _). byte_at raw from = Some (CHR ''['')) ?spans \<longleftrightarrow>
      (\<exists>s\<in>set ?spans. byte_at raw (fst s) = Some (CHR ''[''))"
    by (auto simp: list_ex_iff case_prod_beta)
  show ?thesis unfolding sorted [symmetric] arr [symmetric]
    by (auto simp: read_send_body_def Let_def not_less split: option.splits)
qed

text \<open>A text on which the two passes of the scan disagree: inside the payment a scalar ends in a
  quote, so the pass over the payment's members and the pass that skips the payment as a value
  take opposite sides of every later quote.\<close>

definition torn_body :: string where
  "torn_body = ''{\"payment\":{\"x\":1\",\"tx\":[\"a},\"payment\":{\"tx\":\"]\"}}''"

text \<open>A reader of string literals without escapes, enough for the keys of the example texts.\<close>

definition plain_literal :: "string \<Rightarrow> json option" where
  "plain_literal t =
     (if 2 \<le> length t \<and> hd t = CHR 0x22 \<and> last t = CHR 0x22 then Some (JStr (butlast (tl t))) else None)"

text \<open>So the panic happens: 50 bytes that are no JSON are not refused.\<close>

lemma torn_body_panics:
  "tx_spans plain_literal torn_body = [(24, 47), (45, 48)] \<and>
   read_send_body plain_literal hex torn_body = None"
proof -
  have spans: "tx_spans plain_literal torn_body = [(24, 47), (45, 48)]" by code_simp
  have "byte_at torn_body 24 = Some (CHR ''['')" "length torn_body = 50"
    by (simp_all add: torn_body_def byte_at_def)
  with spans show ?thesis
    by (simp add: read_send_body_def SEND_BODY_BYTES_def Let_def)
qed

text \<open>The texts a member gives: one text, or the texts of an array in their order.\<close>

fun texts_given :: "json \<Rightarrow> string list" where
  "texts_given (JStr s) = [s]"
| "texts_given (JArr vs) = concat (map (\<lambda>v. case v of JStr s \<Rightarrow> [s] | _ \<Rightarrow> []) vs)"
| "texts_given _ = []"

lemma strings_of_given: "strings_of vs = texts_given (JArr vs)"
  by (induction vs) (auto simp: strings_of_def split: json.split)

lemma read_recipients_Inr:
  "read_recipients m = Inr rs \<Longrightarrow> \<exists>j. m = Some j \<and> rs = texts_given j"
  by (cases m rule: read_recipients.cases) (auto simp: strings_of_given)

lemma read_message_ids_Inr:
  "read_message_ids m = Inr ids \<Longrightarrow> \<exists>j. m = Some j \<and> ids = texts_given j"
  by (cases m rule: read_message_ids.cases) (auto simp: strings_of_given)

lemma pair_recipients_Inr:
  assumes "pair_recipients rs ids = Inr pairs"
  shows "pairs = zip rs ids" and "length rs = length ids" and "[] \<notin> set ids"
    and "list_all is_valid_pubkey rs"
  using assms
  by (auto simp: pair_recipients_def list_all_iff find_None split: if_splits option.splits)

lemma validate_send_value_Inr:
  assumes "validate_send_value body = Inr v"
  obtains message recipients ids where
    "get_member ''message'' body = Some message" "is_object message"
    "get_member ''messageBox'' message = Some (JStr (vs_message_box v))" "vs_message_box v \<noteq> []"
    "get_member ''body'' message = Some (vs_body v)" "vs_body v \<noteq> JNull" "vs_body v \<noteq> JStr []"
    "read_recipients (or_else (get_member ''recipients'' message) (get_member ''recipient'' message)) = Inr recipients"
    "recipients \<noteq> []" "read_message_ids (get_member ''messageId'' message) = Inr ids"
    "pair_recipients recipients ids = Inr (vs_recipients v)" "vs_payment v = get_member ''payment'' body"
proof -
  have str: "as_str x = Some s \<longleftrightarrow> x = JStr s" for x s by (cases x) auto
  show thesis
    using assms that
    by (auto simp: validate_send_value_def bind_eq_Some_conv str split: option.splits if_splits sum.splits)
qed

text \<open>C34 (validated_send_shape). A send that passes validation is the request's: its recipients are the
  texts of the message's \<open>recipients\<close> (of \<open>recipient\<close> when there is no such member), in order, the
  i-th paired with the i-th text of \<open>messageId\<close>, as many of one as of the other and at least one;
  every recipient is a compressed public key (66 characters, 02 or 03 and then hexadecimal digits)
  and every id is non-empty. The box is the message's and non-empty, the body is the message's and
  neither null nor the empty text, the payment is the request's.\<close>

theorem validated_send_shape:
  assumes "validate_send_value body = Inr v"
  shows "\<exists>message rj ij.
    get_member ''message'' body = Some message \<and>
    (get_member ''recipients'' message = Some rj \<or>
     get_member ''recipients'' message = None \<and> get_member ''recipient'' message = Some rj) \<and>
    get_member ''messageId'' message = Some ij \<and>
    length (texts_given rj) = length (texts_given ij) \<and> texts_given rj \<noteq> [] \<and>
    vs_recipients v = zip (texts_given rj) (texts_given ij) \<and>
    (\<forall>r\<in>set (texts_given rj). is_valid_pubkey r) \<and> [] \<notin> set (texts_given ij) \<and>
    get_member ''messageBox'' message = Some (JStr (vs_message_box v)) \<and> vs_message_box v \<noteq> [] \<and>
    get_member ''body'' message = Some (vs_body v) \<and> vs_body v \<notin> {JNull, JStr []} \<and>
    vs_payment v = get_member ''payment'' body"
  using assms
proof (cases rule: validate_send_value_Inr)
  case (1 message recipients ids)
  note p = pair_recipients_Inr [OF 1(11)]
  obtain rj where rj: "or_else (get_member ''recipients'' message) (get_member ''recipient'' message) = Some rj"
    "recipients = texts_given rj"
    using read_recipients_Inr [OF 1(8)] by blast
  obtain ij where ij: "get_member ''messageId'' message = Some ij" "ids = texts_given ij"
    using read_message_ids_Inr [OF 1(10)] by blast
  show ?thesis
  proof (intro exI conjI)
    show "get_member ''recipients'' message = Some rj \<or>
        get_member ''recipients'' message = None \<and> get_member ''recipient'' message = Some rj"
      using rj(1) by (auto simp: or_else_def split: option.splits)
    show "\<forall>r\<in>set (texts_given rj). is_valid_pubkey r" using p(4) rj(2) by (simp add: list_all_iff)
  qed (use 1 p rj ij in auto)
qed

lemma read_ack_ids_Inr:
  "read_ack_ids vs = Inr ids \<longleftrightarrow> vs = map JStr ids \<and> [] \<notin> set ids"
proof (induction vs arbitrary: ids)
  case (Cons v vs)
  have inj: "map JStr xs = map JStr ys \<longleftrightarrow> xs = ys" for xs ys by (simp add: inj_map_eq_map inj_def)
  from Cons show ?case by (cases v; cases ids) (auto simp: inj split: if_splits sum.splits)
qed auto

lemma read_ack_ids_Inl: "read_ack_ids vs = Inl e \<Longrightarrow> e = INVALID_ID"
  by (induction vs) (auto split: option.splits if_splits sum.splits)

text \<open>An acknowledgment passes exactly when its body parses and its
  \<open>messageIds\<close> is a non-empty array of non-empty texts, and then with those ids in order; anything
  else is refused with status 400.\<close>

lemma acknowledge_accepts_exactly:
  "(validate_acknowledge parse_json raw = Inr ids \<longleftrightarrow>
     (\<exists>body. parse_json raw = Some body \<and> get_member ''messageIds'' body = Some (JArr (map JStr ids)) \<and>
       ids \<noteq> [] \<and> [] \<notin> set ids)) \<and>
   (\<forall>e. validate_acknowledge parse_json raw = Inl e \<longrightarrow> snd e = 400)"
proof -
  have arr: "as_array v = Some xs \<longleftrightarrow> v = JArr xs" for v xs by (cases v) auto
  have "snd e = 400" if "validate_acknowledge parse_json raw = Inl e" for e
    using that
    by (auto simp: validate_acknowledge_def INVALID_JSON_def ID_REQUIRED_def INVALID_ID_def val_err_def
        error_answer_def split: option.splits if_splits dest!: read_ack_ids_Inl)
  then show ?thesis
    by (auto simp: validate_acknowledge_def arr read_ack_ids_Inr split: option.splits)
qed

definition demo_key :: string where
  "demo_key = ''02'' @ replicate 64 (CHR ''a'')"

definition demo_message :: json where
  "demo_message = JObj [(''messageBox'', JStr ''inbox''), (''body'', JStr ''hi''),
     (''recipients'', JArr [JStr demo_key]), (''messageId'', JArr [JStr ''m1''])]"

theorem validated_send_shape_witness:
  "\<exists>v. validate_send_value (JObj [(''message'', demo_message)]) = Inr v \<and>
      vs_recipients v = zip [demo_key] [''m1''] \<and> vs_message_box v = ''inbox''"
proof -
  have "is_valid_pubkey demo_key"
    by (simp add: demo_key_def is_valid_pubkey_def starts_with_def list_all_iff is_ascii_hexdigit_def)
  then have v: "validate_send_value (JObj [(''message'', demo_message)]) =
      Inr \<lparr>vs_recipients = [(demo_key, ''m1'')], vs_message_box = ''inbox'', vs_body = JStr ''hi'', vs_payment = None\<rparr>"
    by (simp add: demo_message_def validate_send_value_def or_else_def pair_recipients_def strings_of_def)
  from validated_send_shape [OF this] v show ?thesis by (auto simp: demo_message_def)
qed

theorem one_payment_reads_safely_witness:
  "read_send_body plain_literal (\<lambda>_. []) ''{\"payment\":{\"tx\":[1,2]}}'' \<noteq> None"
proof -
  have "payment_objects plain_literal ''{\"payment\":{\"tx\":[1,2]}}'' = [(''payment'', 11, 23)]" by code_simp
  then show ?thesis
    using one_payment_reads_safely [of plain_literal "''{\"payment\":{\"tx\":[1,2]}}''" "\<lambda>_. []"] by simp
qed

end
