(* ===== verification/Payment_Store.thy ===== *)
theory Payment_Store
  imports Mailbox_Hub Send_Budget
begin

section \<open>What payments rest in: the ledger, the rows' references, the bucket\<close>

text \<open>
  The stores behind a paid send. \<open>src/src/storage.rs\<close>: the D1 tables of deferred fees, owed
  announcements, reclaims in progress, minted keys and released keys (\<open>D1Ledger\<close>, \<open>D1Rows\<close>).
  \<open>src/src/beef_upload.rs\<close>: the R2 bucket (\<open>R2Store\<close>). The traits they implement are those of
  \<open>src/src/handoff.rs\<close> and \<open>beef_door.rs\<close>.

  A \<open>vault\<close> is the relay with these tables and the bucket's objects. A statement meets the next
  entry of D1's script, a call to the bucket the next entry of \<open>v_r2\<close>: served, failed, or done
  with its answer lost. The wallet's and the broadcaster's answers are scripts too.
\<close>

subsection \<open>Rows, objects, the vault\<close>

record stamp =
  st_size :: u64
  st_etag :: string

record r2_object =
  ob_bytes :: string
  ob_etag :: string
  ob_reader :: "string option"

record deferred_fee =
  df_key :: string
  df_etag :: string
  df_txid :: string
  df_args :: string
  df_named :: bool
  df_attempts :: nat
  df_next_at :: u64

record owed_announce =
  oa_key :: string
  oa_etag :: string
  oa_txid :: string
  oa_attempts :: nat
  oa_next_at :: u64

record fee_row =
  fr_key :: string
  fr_etag :: string
  fr_txid :: string
  fr_args :: string
  fr_named :: i64
  fr_attempts :: i64
  fr_next_at :: i64
  fr_last_error :: "string option"
  fr_ended :: "string option"
  fr_updated_at :: string

record announce_row =
  an_key :: string
  an_etag :: string
  an_txid :: string
  an_attempts :: i64
  an_next_at :: i64
  an_last_word :: "string option"
  an_updated_at :: string

record fee_figure =
  ff_owed :: u64
  ff_ended :: u64
  ff_last_ended :: "string option"

text \<open>A broadcaster's word, and the bytes it is asked about.\<close>

record hint =
  h_accepted :: bool
  h_word :: string

datatype r2_fate = R2Served | R2Failed string | R2Landed string

record vault =
  v_relay :: relay
  v_fees :: "fee_row list"
  v_announces :: "announce_row list"
  v_claims :: "(string \<times> i64) list"
  v_minted :: "(string \<times> i64) list"
  v_released :: "string list"
  v_word :: "(string \<times> i64) option"
  v_budget :: budget_db
  v_objects :: "string \<Rightarrow> r2_object option"
  v_puts :: nat
  v_r2 :: "r2_fate list"
  v_wallet :: "(string + bool) list"
  v_arc :: "(string + hint) list"
  v_now :: u64

text \<open>
  What the payment code takes from outside: the bucket's binding and name, R2's etag of the
  object of a put, serde's text of a value and the value of a text, hexadecimal and base64,
  whether a broadcaster is named.
\<close>

record pay_env =
  pe_relay :: relay_env
  pe_bucket_unbound :: "string option"
  pe_bucket_var :: "string option"
  pe_etag :: "nat \<Rightarrow> string \<Rightarrow> string"
  pe_text :: "json \<Rightarrow> string"
  pe_parse :: "string \<Rightarrow> json option"
  pe_hex :: "string \<Rightarrow> string"
  pe_unhex :: "string \<Rightarrow> string option"
  pe_b64 :: "string \<Rightarrow> string"
  pe_unb64 :: "string \<Rightarrow> string option"
  pe_arc :: bool

type_synonym 'a vaulted = "vault \<Rightarrow> (string, 'a, vault) outcome"

abbreviation v_d1 :: "vault \<Rightarrow> d1_db" where
  "v_d1 v \<equiv> rl_d1 (v_relay v)"

definition set_d1 :: "d1_db \<Rightarrow> vault \<Rightarrow> vault" where
  "set_d1 db v = v\<lparr>v_relay := (v_relay v)\<lparr>rl_d1 := db\<rparr>\<rparr>"

subsection \<open>One round trip over the wider tables\<close>

definition spend_trip :: "vault \<Rightarrow> vault" where
  "spend_trip v = set_d1 ((v_d1 v)\<lparr>d_script := tl (d_script (v_d1 v))\<rparr>) v"

definition v_run :: "(vault \<Rightarrow> 'a \<times> vault) \<Rightarrow> vault \<Rightarrow> (d1_error, 'a, vault) outcome" where
  "v_run stmt v =
     (case d_script (v_d1 v) of
        Refused e # _ \<Rightarrow> (Inl e, spend_trip v)
      | LandedUnanswered e # _ \<Rightarrow> (Inl e, snd (stmt (spend_trip v)))
      | _ \<Rightarrow> (let (a, v') = stmt (spend_trip v) in (Inr a, v')))"

text \<open>\<open>map_err(|e| e.to_string())\<close> around the retried statement.\<close>

definition v_write :: "(vault \<Rightarrow> vault) \<Rightarrow> unit vaulted" where
  "v_write stmt v =
     (case with_d1_write_retry (v_run (\<lambda>v. ((), stmt v))) v of
        (Inr _, v') \<Rightarrow> (Inr (), v')
      | (Inl e, v') \<Rightarrow> (Inl (error_text e), v'))"

definition v_read :: "(vault \<Rightarrow> 'a) \<Rightarrow> 'a vaulted" where
  "v_read q v =
     (case with_d1_read_retry (v_run (\<lambda>v. (q v, v))) v of
        (Inr a, v') \<Rightarrow> (Inr a, v')
      | (Inl e, v') \<Rightarrow> (Inl (error_text e), v'))"

text \<open>\<open>QVal::from(u64)\<close> bound and stored, and an \<open>f64\<close> column read \<open>as u64\<close> or \<open>as u32\<close>.\<close>

definition sql_u64 :: "u64 \<Rightarrow> i64" where
  "sql_u64 n = js_number (i64_of_u64 n)"

definition u64_of_sql :: "i64 \<Rightarrow> u64" where
  "u64_of_sql i = nat (js_number i)"

definition u32_of_sql :: "i64 \<Rightarrow> nat" where
  "u32_of_sql i = min (2 ^ 32 - 1) (nat (js_number i))"

text \<open>\<open>chars().take(n)\<close>: the first characters, whole.\<close>

function take_chars :: "nat \<Rightarrow> string \<Rightarrow> string" where
  "take_chars n s =
     (case n of
        0 \<Rightarrow> []
      | Suc k \<Rightarrow> (case first_char s of None \<Rightarrow> [] | Some (c, r) \<Rightarrow> c @ take_chars k r))"
  by pat_completeness auto
termination
  by (relation "measure fst") auto

declare take_chars.simps [simp del]

definition FEE_ERROR_CHARS :: nat where
  "FEE_ERROR_CHARS = 500"

abbreviation kept_words :: "string \<Rightarrow> string" where
  "kept_words \<equiv> take_chars FEE_ERROR_CHARS"

subsection \<open>The ledger of deferred fees and owed announcements: \<open>D1Ledger\<close>\<close>

definition new_fee :: "deferred_fee \<Rightarrow> string \<Rightarrow> fee_row" where
  "new_fee fee now =
     \<lparr>fr_key = df_key fee, fr_etag = df_etag fee, fr_txid = df_txid fee, fr_args = df_args fee,
      fr_named = (if df_named fee then 1 else 0), fr_attempts = int (df_attempts fee),
      fr_next_at = sql_u64 (df_next_at fee), fr_last_error = None, fr_ended = None, fr_updated_at = now\<rparr>"

definition DEFER_FEE_SQL :: "deferred_fee \<Rightarrow> vault \<Rightarrow> vault" where
  "DEFER_FEE_SQL fee v =
     (if df_key fee \<in> fr_key ` set (v_fees v) then v
      else v\<lparr>v_fees := v_fees v @ [new_fee fee (d_now (v_d1 v))]\<rparr>)"

definition ledger_defer :: "deferred_fee \<Rightarrow> unit vaulted" where
  "ledger_defer fee = v_write (DEFER_FEE_SQL fee)"

definition fee_of_row :: "fee_row \<Rightarrow> deferred_fee" where
  "fee_of_row r =
     \<lparr>df_key = fr_key r, df_etag = fr_etag r, df_txid = fr_txid r, df_args = fr_args r,
      df_named = (fr_named r \<noteq> 0), df_attempts = u32_of_sql (fr_attempts r),
      df_next_at = u64_of_sql (fr_next_at r)\<rparr>"

definition DUE_FEES_SQL :: "u64 \<Rightarrow> nat \<Rightarrow> vault \<Rightarrow> fee_row list" where
  "DUE_FEES_SQL now limit v =
     take limit (sort_key fr_next_at
       (filter (\<lambda>r. fr_next_at r \<le> sql_u64 now \<and> fr_ended r = None) (v_fees v)))"

definition ledger_due :: "u64 \<Rightarrow> nat \<Rightarrow> deferred_fee list vaulted" where
  "ledger_due now limit v =
     andThen (v_read (DUE_FEES_SQL now limit) v) (\<lambda>rows v. (Inr (map fee_of_row rows), v))"

definition SETTLE_FEE_SQL :: "string \<Rightarrow> vault \<Rightarrow> vault" where
  "SETTLE_FEE_SQL k v = v\<lparr>v_fees := filter (\<lambda>r. fr_key r \<noteq> k) (v_fees v)\<rparr>"

definition ledger_settle :: "string \<Rightarrow> unit vaulted" where
  "ledger_settle k = v_write (SETTLE_FEE_SQL k)"

definition PUT_OFF_FEE_SQL :: "nat \<Rightarrow> u64 \<Rightarrow> string \<Rightarrow> string \<Rightarrow> vault \<Rightarrow> vault" where
  "PUT_OFF_FEE_SQL attempts next_at why k v =
     v\<lparr>v_fees := update_where (\<lambda>r. fr_key r = k)
        (\<lambda>r. r\<lparr>fr_attempts := int attempts, fr_next_at := sql_u64 next_at, fr_last_error := Some why,
              fr_updated_at := d_now (v_d1 v)\<rparr>) (v_fees v)\<rparr>"

definition ledger_put_off :: "string \<Rightarrow> nat \<Rightarrow> u64 \<Rightarrow> string \<Rightarrow> unit vaulted" where
  "ledger_put_off k attempts next_at why =
     v_write (PUT_OFF_FEE_SQL attempts next_at (kept_words why) k)"

definition END_FEE_SQL :: "string \<Rightarrow> string \<Rightarrow> vault \<Rightarrow> vault" where
  "END_FEE_SQL why k v =
     v\<lparr>v_fees := update_where (\<lambda>r. fr_key r = k)
        (\<lambda>r. r\<lparr>fr_ended := Some why, fr_last_error := Some why, fr_updated_at := d_now (v_d1 v)\<rparr>)
        (v_fees v)\<rparr>"

definition ledger_end :: "string \<Rightarrow> string \<Rightarrow> unit vaulted" where
  "ledger_end k why = v_write (END_FEE_SQL (kept_words why) k)"

definition FEE_OWES_KEY_SQL :: "string \<Rightarrow> vault \<Rightarrow> bool" where
  "FEE_OWES_KEY_SQL k v \<longleftrightarrow> list_ex (\<lambda>r. fr_key r = k \<and> fr_ended r = None) (v_fees v)"

definition ANNOUNCE_OWES_KEY_SQL :: "string \<Rightarrow> vault \<Rightarrow> bool" where
  "ANNOUNCE_OWES_KEY_SQL k v \<longleftrightarrow> list_ex (\<lambda>r. an_key r = k) (v_announces v)"

definition ledger_owes :: "string \<Rightarrow> bool vaulted" where
  "ledger_owes k v =
     andThen (v_read (FEE_OWES_KEY_SQL k) v) (\<lambda>fee v.
       if fee then (Inr True, v) else v_read (ANNOUNCE_OWES_KEY_SQL k) v)"

definition FEES_FIGURE_SQL :: "vault \<Rightarrow> nat \<times> nat" where
  "FEES_FIGURE_SQL v =
     (length (filter (\<lambda>r. fr_ended r = None) (v_fees v)),
      length (filter (\<lambda>r. fr_ended r \<noteq> None) (v_fees v)))"

text \<open>\<open>ORDER BY updated_at DESC LIMIT 1\<close>: the first of the latest; texts compare byte by byte.\<close>

fun text_less :: "string \<Rightarrow> string \<Rightarrow> bool" where
  "text_less s [] = False"
| "text_less [] (c # t) = True"
| "text_less (a # s) (c # t) =
     ((of_char a :: nat) < of_char c \<or> (a = c \<and> text_less s t))"

definition LAST_ENDED_SQL :: "vault \<Rightarrow> string option" where
  "LAST_ENDED_SQL v =
     (case filter (\<lambda>r. fr_ended r \<noteq> None) (v_fees v) of
        [] \<Rightarrow> None
      | r # rs \<Rightarrow> fr_ended (foldl (\<lambda>best x. if text_less (fr_updated_at best) (fr_updated_at x) then x else best) r rs))"

definition ledger_figure :: "fee_figure vaulted" where
  "ledger_figure v =
     andThen (v_read FEES_FIGURE_SQL v) (\<lambda>(owed, ended) v.
     andThen (v_read LAST_ENDED_SQL v) (\<lambda>last v.
       (Inr \<lparr>ff_owed = owed, ff_ended = ended, ff_last_ended = last\<rparr>, v)))"

definition ledger_wallet_word :: "(string \<times> u64) option vaulted" where
  "ledger_wallet_word v =
     andThen (v_read v_word v) (\<lambda>w v. (Inr (map_option (\<lambda>(said, since). (said, u64_of_sql since)) w), v))"

definition ledger_set_wallet_word :: "string option \<Rightarrow> u64 \<Rightarrow> unit vaulted" where
  "ledger_set_wallet_word word now =
     (case word of
        Some w \<Rightarrow> v_write (\<lambda>v. v\<lparr>v_word := Some (kept_words w, sql_u64 now)\<rparr>)
      | None \<Rightarrow> v_write (\<lambda>v. v\<lparr>v_word := None\<rparr>))"

definition OWE_ANNOUNCE_SQL :: "owed_announce \<Rightarrow> string \<Rightarrow> vault \<Rightarrow> vault" where
  "OWE_ANNOUNCE_SQL owed word v =
     (if oa_key owed \<in> an_key ` set (v_announces v) then v
      else v\<lparr>v_announces := v_announces v @
         [\<lparr>an_key = oa_key owed, an_etag = oa_etag owed, an_txid = oa_txid owed, an_attempts = 0,
           an_next_at = sql_u64 (oa_next_at owed), an_last_word = Some word,
           an_updated_at = d_now (v_d1 v)\<rparr>]\<rparr>)"

definition ledger_owe_announce :: "owed_announce \<Rightarrow> string \<Rightarrow> unit vaulted" where
  "ledger_owe_announce owed word = v_write (OWE_ANNOUNCE_SQL owed (kept_words word))"

definition DUE_ANNOUNCES_SQL :: "u64 \<Rightarrow> nat \<Rightarrow> vault \<Rightarrow> announce_row list" where
  "DUE_ANNOUNCES_SQL now limit v =
     take limit (sort_key an_next_at (filter (\<lambda>r. an_next_at r \<le> sql_u64 now) (v_announces v)))"

definition announce_of_row :: "announce_row \<Rightarrow> owed_announce" where
  "announce_of_row r =
     \<lparr>oa_key = an_key r, oa_etag = an_etag r, oa_txid = an_txid r,
      oa_attempts = u32_of_sql (an_attempts r), oa_next_at = u64_of_sql (an_next_at r)\<rparr>"

definition ledger_due_announces :: "u64 \<Rightarrow> nat \<Rightarrow> owed_announce list vaulted" where
  "ledger_due_announces now limit v =
     andThen (v_read (DUE_ANNOUNCES_SQL now limit) v) (\<lambda>rows v. (Inr (map announce_of_row rows), v))"

definition ANNOUNCED_SQL :: "string \<Rightarrow> vault \<Rightarrow> vault" where
  "ANNOUNCED_SQL k v = v\<lparr>v_announces := filter (\<lambda>r. an_key r \<noteq> k) (v_announces v)\<rparr>"

definition ledger_announced :: "string \<Rightarrow> unit vaulted" where
  "ledger_announced k = v_write (ANNOUNCED_SQL k)"

definition PUT_OFF_ANNOUNCE_SQL :: "nat \<Rightarrow> u64 \<Rightarrow> string \<Rightarrow> string \<Rightarrow> vault \<Rightarrow> vault" where
  "PUT_OFF_ANNOUNCE_SQL attempts next_at word k v =
     v\<lparr>v_announces := update_where (\<lambda>r. an_key r = k)
        (\<lambda>r. r\<lparr>an_attempts := int attempts, an_next_at := sql_u64 next_at, an_last_word := Some word,
              an_updated_at := d_now (v_d1 v)\<rparr>) (v_announces v)\<rparr>"

definition ledger_put_off_announce :: "string \<Rightarrow> nat \<Rightarrow> u64 \<Rightarrow> string \<Rightarrow> unit vaulted" where
  "ledger_put_off_announce k attempts next_at word =
     v_write (PUT_OFF_ANNOUNCE_SQL attempts next_at (kept_words word) k)"

subsection \<open>The rows as what names an object: \<open>D1Rows\<close>\<close>

definition ROW_NAMES_KEY_SQL :: "string \<Rightarrow> vault \<Rightarrow> bool" where
  "ROW_NAMES_KEY_SQL k v \<longleftrightarrow>
     list_ex (\<lambda>m. dm_beef_key m = Some k \<and> dm_acknowledged_at m = None) (d_messages (v_d1 v))"

definition rows_names :: "string \<Rightarrow> bool vaulted" where
  "rows_names k = v_read (ROW_NAMES_KEY_SQL k)"

definition rows_released :: "nat \<Rightarrow> string list vaulted" where
  "rows_released limit = v_read (\<lambda>v. take limit (v_released v))"

definition rows_forget :: "string \<Rightarrow> unit vaulted" where
  "rows_forget k = v_write (\<lambda>v. v\<lparr>v_released := filter (\<lambda>x. x \<noteq> k) (v_released v)\<rparr>)"

definition CLAIM_SQL :: "string \<Rightarrow> vault \<Rightarrow> vault" where
  "CLAIM_SQL k v = v\<lparr>v_claims := filter (\<lambda>c. fst c \<noteq> k) (v_claims v) @ [(k, int (v_now v))]\<rparr>"

definition rows_claim :: "string \<Rightarrow> unit vaulted" where
  "rows_claim k = v_write (CLAIM_SQL k)"

definition UNCLAIM_SQL :: "string \<Rightarrow> vault \<Rightarrow> vault" where
  "UNCLAIM_SQL k v = v\<lparr>v_claims := filter (\<lambda>c. fst c \<noteq> k) (v_claims v)\<rparr>"

definition rows_unclaim :: "string \<Rightarrow> unit vaulted" where
  "rows_unclaim k = v_write (UNCLAIM_SQL k)"

definition CLAIMED_SQL :: "string \<Rightarrow> vault \<Rightarrow> bool" where
  "CLAIMED_SQL k v \<longleftrightarrow> list_ex (\<lambda>c. fst c = k \<and> int (v_now v) - 300 \<le> snd c) (v_claims v)"

definition rows_claimed :: "string \<Rightarrow> bool vaulted" where
  "rows_claimed k = v_read (CLAIMED_SQL k)"

definition MINT_SQL :: "string \<Rightarrow> u64 \<Rightarrow> vault \<Rightarrow> vault" where
  "MINT_SQL k deadline v =
     (if k \<in> fst ` set (v_minted v) then v else v\<lparr>v_minted := v_minted v @ [(k, sql_u64 deadline)]\<rparr>)"

definition rows_mint :: "string \<Rightarrow> u64 \<Rightarrow> unit vaulted" where
  "rows_mint k deadline = v_write (MINT_SQL k deadline)"

definition MINTED_DUE_SQL :: "u64 \<Rightarrow> nat \<Rightarrow> vault \<Rightarrow> string list" where
  "MINTED_DUE_SQL now limit v =
     map fst (take limit (sort_key snd (filter (\<lambda>m. snd m \<le> sql_u64 now) (v_minted v))))"

definition rows_minted_due :: "u64 \<Rightarrow> nat \<Rightarrow> string list vaulted" where
  "rows_minted_due now limit = v_read (MINTED_DUE_SQL now limit)"

definition POSTPONE_MINTED_SQL :: "u64 \<Rightarrow> string \<Rightarrow> vault \<Rightarrow> vault" where
  "POSTPONE_MINTED_SQL deadline k v =
     v\<lparr>v_minted := update_where (\<lambda>m. fst m = k) (\<lambda>m. (fst m, sql_u64 deadline)) (v_minted v)\<rparr>"

definition rows_postpone_minted :: "string \<Rightarrow> u64 \<Rightarrow> unit vaulted" where
  "rows_postpone_minted k deadline = v_write (POSTPONE_MINTED_SQL deadline k)"

definition rows_forget_minted :: "string \<Rightarrow> unit vaulted" where
  "rows_forget_minted k = v_write (\<lambda>v. v\<lparr>v_minted := filter (\<lambda>m. fst m \<noteq> k) (v_minted v)\<rparr>)"

subsection \<open>The bucket: \<open>R2Store\<close>\<close>

definition bucket :: "pay_env \<Rightarrow> string + unit" where
  "bucket env =
     (case pe_bucket_unbound env of
        Some e \<Rightarrow> Inl (''R2 binding BEEF_BLOBS: '' @ e) | None \<Rightarrow> Inr ())"

definition bound_bucket :: "pay_env \<Rightarrow> bool" where
  "bound_bucket env \<longleftrightarrow> bucket env = Inr ()"

text \<open>One call to the bucket: \<open>what\<close> names it in the error's text.\<close>

definition r2_call :: "pay_env \<Rightarrow> string \<Rightarrow> (vault \<Rightarrow> 'a \<times> vault) \<Rightarrow> 'a vaulted" where
  "r2_call env what call v =
     (case bucket env of
        Inl e \<Rightarrow> (Inl e, v)
      | Inr _ \<Rightarrow>
          (let v1 = v\<lparr>v_r2 := tl (v_r2 v)\<rparr>
           in case v_r2 v of
                R2Failed e # _ \<Rightarrow> (Inl (what @ e), v1)
              | R2Landed e # _ \<Rightarrow> (Inl (what @ e), snd (call v1))
              | _ \<Rightarrow> (let (a, v2) = call v1 in (Inr a, v2))))"

definition stamp_of :: "r2_object \<Rightarrow> stamp" where
  "stamp_of ob = \<lparr>st_size = length (ob_bytes ob), st_etag = ob_etag ob\<rparr>"

definition blob_stamp :: "pay_env \<Rightarrow> string \<Rightarrow> stamp option vaulted" where
  "blob_stamp env k = r2_call env ''R2 head: '' (\<lambda>v. (map_option stamp_of (v_objects v k), v))"

text \<open>
  \<open>open\<close> at an offset and read to the end: a body that ends short of the stamp's size is the
  store's failure.
\<close>

definition blob_open :: "pay_env \<Rightarrow> string \<Rightarrow> u64 \<Rightarrow> stamp \<Rightarrow> string vaulted" where
  "blob_open env k from st v =
     (if st_size st \<le> from then (Inr [], v)
      else andThen (r2_call env ''R2 get: '' (\<lambda>v. (v_objects v k, v)) v) (\<lambda>ob v.
        case ob of
          None \<Rightarrow> (Inl ''R2 object not found'', v)
        | Some ob \<Rightarrow>
            if ob_etag ob \<noteq> st_etag st then (Inl ''the R2 object changed while it was read'', v)
            else andThen (r2_call env ''R2 body read: '' (\<lambda>v. (drop from (ob_bytes ob), v)) v) (\<lambda>s v.
              if length s < st_size st - from
              then (Inl (''R2 body ended '' @ nat_text (st_size st - from - length s) @ '' bytes short''), v)
              else (Inr s, v))))"

definition blob_read :: "pay_env \<Rightarrow> string \<Rightarrow> stamp \<Rightarrow> string vaulted" where
  "blob_read env k st = blob_open env k 0 st"

definition blob_load :: "pay_env \<Rightarrow> string \<Rightarrow> string option vaulted" where
  "blob_load env k v =
     andThen (r2_call env ''R2 get: '' (\<lambda>v. (map_option ob_bytes (v_objects v k), v)) v) (\<lambda>body v.
       case body of
         None \<Rightarrow> (Inr None, v)
       | Some b \<Rightarrow> r2_call env ''R2 body read: '' (\<lambda>v. (Some b, v)) v)"

definition blob_clear :: "pay_env \<Rightarrow> string \<Rightarrow> unit vaulted" where
  "blob_clear env k = r2_call env ''R2 delete: '' (\<lambda>v. ((), v\<lparr>v_objects := (v_objects v)(k := None)\<rparr>))"

definition put_object :: "pay_env \<Rightarrow> string \<Rightarrow> string \<Rightarrow> string option \<Rightarrow> vault \<Rightarrow> stamp \<times> vault" where
  "put_object env k bytes reader v =
     (let ob = \<lparr>ob_bytes = bytes, ob_etag = pe_etag env (v_puts v) bytes, ob_reader = reader\<rparr>
      in (stamp_of ob, v\<lparr>v_objects := (v_objects v)(k \<mapsto> ob), v_puts := Suc (v_puts v)\<rparr>))"

definition blob_save :: "pay_env \<Rightarrow> string \<Rightarrow> string \<Rightarrow> unit vaulted" where
  "blob_save env k bytes = r2_call env ''R2 put: '' (\<lambda>v. ((), snd (put_object env k bytes None v)))"

definition SPOOL_PART_BYTES :: nat where
  "SPOOL_PART_BYTES = 8 * 1024 * 1024"

text \<open>The parts of a multipart upload; one that fails is aborted and nothing is at the key.\<close>

primrec upload_parts :: "pay_env \<Rightarrow> nat \<Rightarrow> string list \<Rightarrow> unit vaulted" where
  "upload_parts env number [] v = (Inr (), v)"
| "upload_parts env number (p # ps) v =
     (case r2_call env (''R2 part '' @ nat_text number @ '': '') (\<lambda>v. ((), v)) v of
        (Inl e, v') \<Rightarrow> (Inl e, snd (r2_call env ''R2 abort: '' (\<lambda>v. ((), v)) v'))
      | (Inr _, v') \<Rightarrow> upload_parts env (Suc number) ps v')"

definition blob_spool :: "pay_env \<Rightarrow> string \<Rightarrow> string \<Rightarrow> u64 \<Rightarrow> string \<Rightarrow> stamp vaulted" where
  "blob_spool env k bytes n reader v =
     (if n \<le> SPOOL_PART_BYTES
      then r2_call env ''R2 put: '' (put_object env k bytes (Some reader)) v
      else
        andThen (r2_call env ''R2 multipart: '' (\<lambda>v. ((), v)) v) (\<lambda>_ v.
        andThen (upload_parts env 1 (chunks SPOOL_PART_BYTES bytes) v) (\<lambda>_ v.
        r2_call env ''R2 multipart complete: '' (put_object env k bytes (Some reader)) v)))"

definition blob_reader :: "pay_env \<Rightarrow> string \<Rightarrow> string option vaulted" where
  "blob_reader env k = r2_call env ''R2 head: '' (\<lambda>v. (Option.bind (v_objects v k) ob_reader, v))"

definition bucket_name :: "pay_env \<Rightarrow> string option" where
  "bucket_name env = (case pe_bucket_var env of Some n \<Rightarrow> if n = [] then None else Some n | None \<Rightarrow> None)"

definition state_key :: "string \<Rightarrow> string" where
  "state_key k = ''door-state/'' @ k"

text \<open>The wallet and the broadcaster: the next answer of each; a script at its end answers nothing.\<close>

definition wallet_internalize :: "json \<Rightarrow> bool vaulted" where
  "wallet_internalize args v =
     (case v_wallet v of
        [] \<Rightarrow> (Inl ''wallet-infra did not answer'', v)
      | r # rs \<Rightarrow> (r, v\<lparr>v_wallet := rs\<rparr>))"

definition announce :: "hint vaulted" where
  "announce v =
     (case v_arc v of
        [] \<Rightarrow> (Inl ''the broadcaster did not answer'', v)
      | r # rs \<Rightarrow> (r, v\<lparr>v_arc := rs\<rparr>))"

end
