(* ===== verification/Beef_Door.thy ===== *)
theory Beef_Door
  imports Payment_Store Validation "HOL-Library.Monad_Syntax" "HOL-Library.Product_Lexorder"
begin

section \<open>The payment door\<close>

text \<open>
  \<open>src/src/beef_door.rs\<close>: the inline payment's carrier, the reading of a payment (its structure,
  the paying output, its scripts, its merkle roots) inline or at rest, and the state a reading at
  rest keeps between requests; with the words it answers in (\<open>src/src/payments.rs\<close>) and the
  header service's lookup.

  \<open>bsv-rs\<close> and \<open>bsv-middleware-rs\<close> are the record \<open>door\<close>: the stream verifier's reading of
  a BEEF for one request, its cursor's bytes, the BUMP decoder, the double hash, the check of an
  output, the texts of its words. \<open>read\<close>, the loop that feeds the verifier chunk by chunk under
  the request's clock, is part of that parameter.
\<close>

subsection \<open>The inline payment: \<open>Carrier\<close>\<close>

datatype carrier = Array "json list" | Hex string | Base64 string

definition CHUNK :: nat where
  "CHUNK = 64 * 1024"

definition is_byte :: "json \<Rightarrow> bool" where
  "is_byte j = (case as_u64 j of Some n \<Rightarrow> n \<le> 255 | None \<Rightarrow> False)"

fun groups_decode :: "pay_env \<Rightarrow> string list \<Rightarrow> bool" where
  "groups_decode env [] = True"
| "groups_decode env [g] = (pe_unb64 env g \<noteq> None)"
| "groups_decode env (g # h # gs) =
     (CHR ''='' \<notin> set g \<and> pe_unb64 env g \<noteq> None \<and> groups_decode env (h # gs))"

fun carrier_of :: "pay_env \<Rightarrow> json \<Rightarrow> carrier option" where
  "carrier_of env (JArr items) = (if list_all is_byte items then Some (Array items) else None)"
| "carrier_of env (JStr h) = (if even (length h) \<and> list_all is_ascii_hexdigit h then Some (Hex h) else None)"
| "carrier_of env (JObj ms) =
     (case Option.bind (map_of ms ''beef'') as_str of
        None \<Rightarrow> None
      | Some b \<Rightarrow>
          if length b mod 4 = 0 \<and> groups_decode env (chunks (CHUNK div 3 * 4) b) then Some (Base64 b) else None)"
| "carrier_of env _ = None"

fun carrier_len :: "carrier \<Rightarrow> u64" where
  "carrier_len (Array items) = length items"
| "carrier_len (Hex h) = length h div 2"
| "carrier_len (Base64 b) =
     length b div 4 * 3 - length (filter (\<lambda>c. c = CHR ''='') (take 2 (rev b)))"

definition slice :: "nat \<Rightarrow> nat \<Rightarrow> 'a list \<Rightarrow> 'a list" where
  "slice i j xs = take (j - i) (drop i xs)"

definition or_empty :: "string option \<Rightarrow> string" where
  "or_empty x = (case x of Some s \<Rightarrow> s | None \<Rightarrow> [])"

definition carrier_bytes :: "pay_env \<Rightarrow> carrier \<Rightarrow> nat \<Rightarrow> nat \<Rightarrow> string" where
  "carrier_bytes env c from0 most =
     (let from = min from0 (carrier_len c); n = min most (carrier_len c - from)
      in case c of
           Array items \<Rightarrow>
             map (\<lambda>j. char_of (case as_u64 j of Some b \<Rightarrow> b | None \<Rightarrow> 0)) (slice from (from + n) items)
         | Hex h \<Rightarrow> or_empty (pe_unhex env (slice (2 * from) (2 * (from + n)) h))
         | Base64 b \<Rightarrow>
             (let skip = from mod 3; first = from div 3 * 4;
                  groups = (skip + n + 2) div 3 * 4; last = min (first + groups) (length b)
              in take n (drop skip (or_empty (pe_unb64 env (slice first last b))))))"

text \<open>
  The carrier's chunks from an offset, to the first that is empty, in one string; no decoded byte
  lies past the carrier's length.
\<close>

function carrier_stream :: "pay_env \<Rightarrow> carrier \<Rightarrow> nat \<Rightarrow> string" where
  "carrier_stream env c pos =
     (let chunk = carrier_bytes env c pos CHUNK
      in if chunk = [] \<or> carrier_len c \<le> pos then chunk
         else chunk @ carrier_stream env c (pos + length chunk))"
  by pat_completeness auto
termination
proof (relation "measure (\<lambda>(env, c, pos). carrier_len c - pos)", goal_cases)
  case (2 env c pos x)
  then have "0 < length x" "\<not> carrier_len c \<le> pos" by auto
  then show ?case by (simp only: in_measure prod.case)
qed simp

declare carrier_stream.simps [simp del]

text \<open>A call whose failure becomes a value of another type: \<open>map_err\<close>.\<close>

definition map_err :: "('e \<Rightarrow> 'f) \<Rightarrow> ('e, 'a, 's) outcome \<Rightarrow> ('f, 'a, 's) outcome" where
  "map_err f r = (case r of (Inl e, s) \<Rightarrow> (Inl (f e), s) | (Inr a, s) \<Rightarrow> (Inr a, s))"

subsection \<open>The library's values\<close>

datatype resource = Work | OtherResource string

datatype spend_refusal = Resource resource u64 u64 u64 | OtherRefusal string

text \<open>\<open>bsv-rs\<close>'s verdict on the bytes, and \<open>bsv-middleware-rs\<close>'s words on a payment.\<close>

datatype beef_verdict =
    BeefValid
  | BeefInvalid u64 string string
  | BeefSpendRefused u64 string nat spend_refusal
  | BeefUnverifiable u64 string "nat option" string

datatype unverifiable_reason =
    InvalidBeef u64 string string
  | SpendRefused u64 string nat spend_refusal
  | MiningContextUnavailable u64 string "nat option" string
  | MalformedTransaction string
  | NoTransaction
  | NoProof
  | HeaderLookupFailed nat string

datatype payment_verdict =
    Verified u64
  | Underpaid u64 u64
  | WrongScript nat
  | RootMismatch nat string
  | NoHeaderService
  | Unverifiable unverifiable_reason

text \<open>What the door reads of a cursor: its bytes, its place, the roots of its index.\<close>

record cursor =
  cu_bytes :: string
  cu_offset :: u64
  cu_elements :: u64
  cu_input :: "nat option"
  cu_roots :: "(u64 \<times> string) list"

datatype pass = PassStructure | PassScripts

datatype reading = ReadValid cursor | ReadRefused beef_verdict | ReadPaused cursor

record terms =
  tm_output_index :: nat
  tm_script :: string
  tm_satoshis :: u64

record door =
  dr_server_key :: "string + string"
  dr_script :: "string \<Rightarrow> string \<Rightarrow> string \<Rightarrow> string + string"
  dr_sha :: "string \<Rightarrow> string"
  dr_uuid :: "vault \<Rightarrow> string"
  dr_read :: "cursor option \<Rightarrow> pass \<Rightarrow> u64 option \<Rightarrow> string \<Rightarrow> string + reading"
  dr_cursor :: "string \<Rightarrow> cursor option"
  dr_bump :: "string \<Rightarrow> nat \<Rightarrow> (u64 \<times> u64) option"
  dr_sha256d :: "string \<Rightarrow> string"
  dr_output :: "terms \<Rightarrow> string \<Rightarrow> string + payment_verdict"
  dr_display :: "string \<Rightarrow> string"
  dr_words :: "payment_verdict \<Rightarrow> string"
  dr_server_side :: "unverifiable_reason \<Rightarrow> bool"
  dr_header_base :: "string option"
  dr_header_get :: "u64 \<Rightarrow> string \<Rightarrow> string + http_status \<times> string"
  dr_parse :: "string \<Rightarrow> string + json"

subsection \<open>The words\<close>

record door_verdict =
  dv_word :: payment_verdict
  dv_named :: "(u64 \<times> string) option"
  dv_subject :: "string option"

datatype door_error = DoorSource string | DoorInternal string

definition word_only :: "payment_verdict \<Rightarrow> door_verdict" where
  "word_only w = \<lparr>dv_word = w, dv_named = None, dv_subject = None\<rparr>"

definition judged_word :: "payment_verdict \<Rightarrow> string \<Rightarrow> door_verdict" where
  "judged_word w subject =
     \<lparr>dv_word = w, dv_named = None,
      dv_subject = (case w of Verified _ \<Rightarrow> Some subject | _ \<Rightarrow> None)\<rparr>"

fun refusal_word :: "door \<Rightarrow> beef_verdict \<Rightarrow> door_verdict" where
  "refusal_word d (BeefInvalid offset kind reason) =
     \<lparr>dv_word = Unverifiable (InvalidBeef offset kind reason), dv_named = Some (offset, kind), dv_subject = None\<rparr>"
| "refusal_word d (BeefSpendRefused offset txid input why) =
     \<lparr>dv_word = Unverifiable (SpendRefused offset (dr_display d txid) input why),
      dv_named = Some (offset, case why of Resource Work _ _ _ \<Rightarrow> ''Work'' | _ \<Rightarrow> ''SpendRefused''),
      dv_subject = None\<rparr>"
| "refusal_word d (BeefUnverifiable offset txid input check) =
     \<lparr>dv_word = Unverifiable (MiningContextUnavailable offset (dr_display d txid) input check),
      dv_named = Some (offset, check), dv_subject = None\<rparr>"
| "refusal_word d BeefValid =
     \<lparr>dv_word = Unverifiable (MalformedTransaction ''a valid reading refused''),
      dv_named = Some (0, ''Valid''), dv_subject = None\<rparr>"

subsection \<open>The bytes of a cursor, of a transaction\<close>

text \<open>Little-endian numbers, and UTF-8 as \<open>String::from_utf8\<close> accepts it.\<close>

primrec le_bytes :: "nat \<Rightarrow> nat \<Rightarrow> string" where
  "le_bytes 0 n = []"
| "le_bytes (Suc w) n = char_of n # le_bytes w (n div 256)"

primrec le_nat :: "string \<Rightarrow> nat" where
  "le_nat [] = 0"
| "le_nat (c # s) = of_char c + 256 * le_nat s"

definition char_between :: "nat \<Rightarrow> nat \<Rightarrow> char \<Rightarrow> bool" where
  "char_between a b c \<longleftrightarrow> a \<le> (of_char c :: nat) \<and> (of_char c :: nat) \<le> b"

definition utf8_tail :: "char \<Rightarrow> string \<Rightarrow> bool" where
  "utf8_tail c s \<longleftrightarrow>
     (let cont = char_between 0x80 0xBF
      in case s of
           [x] \<Rightarrow> char_between 0xC2 0xDF c \<and> cont x
         | [x, y] \<Rightarrow>
             cont y \<and>
             (char_between 0xE0 0xE0 c \<and> char_between 0xA0 0xBF x \<or>
              (char_between 0xE1 0xEC c \<or> char_between 0xEE 0xEF c) \<and> cont x \<or>
              char_between 0xED 0xED c \<and> char_between 0x80 0x9F x)
         | [x, y, z] \<Rightarrow>
             cont y \<and> cont z \<and>
             (char_between 0xF0 0xF0 c \<and> char_between 0x90 0xBF x \<or>
              char_between 0xF1 0xF3 c \<and> cont x \<or>
              char_between 0xF4 0xF4 c \<and> char_between 0x80 0x8F x)
         | _ \<Rightarrow> False)"

function is_utf8 :: "string \<Rightarrow> bool" where
  "is_utf8 [] = True"
| "is_utf8 (c # s) =
     (if (of_char c :: nat) < 0x80 then is_utf8 s
      else utf8_tail c (take (utf8_len c - 1) s) \<and> is_utf8 (drop (utf8_len c - 1) s))"
  by pat_completeness auto
termination
  by (relation "measure length") auto

definition bytes_at :: "string \<Rightarrow> nat \<Rightarrow> nat \<Rightarrow> string option" where
  "bytes_at bin i n = (if i + n \<le> length bin then Some (take n (drop i bin)) else None)"

definition varint :: "string \<Rightarrow> nat \<Rightarrow> (u64 \<times> nat) option" where
  "varint bytes i =
     do {
       lead \<leftarrow> bytes_at bytes i 1;
       let b = le_nat lead;
       if b < 0xFD then Some (b, i + 1)
       else do {
         let n = (if b = 0xFD then 2 else if b = 0xFE then 4 else 8);
         le \<leftarrow> bytes_at bytes (i + 1) n;
         Some (le_nat le, i + 1 + n)
       }
     }"

definition skip_bytes :: "string \<Rightarrow> nat \<Rightarrow> nat \<Rightarrow> nat option" where
  "skip_bytes bytes i n = (if i + n \<le> length bytes then Some (i + n) else None)"

primrec raw_inputs :: "nat \<Rightarrow> string \<Rightarrow> nat \<Rightarrow> nat option" where
  "raw_inputs 0 bytes i = Some i"
| "raw_inputs (Suc n) bytes i =
     do {
       i \<leftarrow> skip_bytes bytes i 36;
       (script, i) \<leftarrow> varint bytes i;
       i \<leftarrow> skip_bytes bytes i script;
       i \<leftarrow> skip_bytes bytes i 4;
       raw_inputs n bytes i
     }"

primrec raw_outputs :: "nat \<Rightarrow> string \<Rightarrow> nat \<Rightarrow> nat option" where
  "raw_outputs 0 bytes i = Some i"
| "raw_outputs (Suc n) bytes i =
     do {
       i \<leftarrow> skip_bytes bytes i 8;
       (script, i) \<leftarrow> varint bytes i;
       i \<leftarrow> skip_bytes bytes i script;
       raw_outputs n bytes i
     }"

definition raw_tx_len :: "string \<Rightarrow> nat option" where
  "raw_tx_len bytes =
     do {
       i \<leftarrow> skip_bytes bytes 0 4;
       (ins, i) \<leftarrow> varint bytes i;
       i \<leftarrow> raw_inputs ins bytes i;
       (outs, i) \<leftarrow> varint bytes i;
       i \<leftarrow> raw_outputs outs bytes i;
       skip_bytes bytes i 4
     }"

text \<open>The tip of a reading in the cursor's bytes; \<open>None\<close> is a layout the door does not read.\<close>

record tip =
  tp_txid :: string
  tp_at :: u64
  tp_proof :: "u64 option"

definition skip_flagged :: "string \<Rightarrow> nat \<Rightarrow> nat option" where
  "skip_flagged bin i =
     do {
       flag \<leftarrow> bytes_at bin i 1;
       if flag = [CHR 0x01] then skip_bytes bin (i + 1) 32 else Some (i + 1)
     }"

definition proven_by :: "string \<Rightarrow> string \<Rightarrow> u64 option" where
  "proven_by txid entries =
     map_option (\<lambda>e. le_nat (drop 32 e)) (find (\<lambda>e. take 32 e = txid) (chunks 40 entries))"

definition tip_in :: "string \<Rightarrow> tip option option" where
  "tip_in bin =
     do {
       magic \<leftarrow> bytes_at bin 0 4;
       if magic \<noteq> ''BSC3'' \<and> magic \<noteq> ''BSC2'' then None
       else do {
         i \<leftarrow> skip_bytes bin 4 1;
         i \<leftarrow> skip_flagged bin i;
         i \<leftarrow> skip_bytes bin i (8 + 8 + 1 + 4);
         i \<leftarrow> skip_flagged bin i;
         i \<leftarrow> skip_bytes bin i (8 + 8 + 8 + 8);
         raw \<leftarrow> bytes_at bin i 1;
         if raw = [CHR 0x00] then Some None
         else if raw = [CHR 0x01] then do {
           txid \<leftarrow> bytes_at bin (i + 1) 32;
           le \<leftarrow> bytes_at bin (i + 33) 8;
           (bumps, i) \<leftarrow> varint bin (i + 41);
           (proven, i) \<leftarrow> varint bin (i + bumps * (8 + 32));
           entries \<leftarrow> bytes_at bin i (proven * (32 + 8));
           Some (Some \<lparr>tp_txid = txid, tp_at = le_nat le, tp_proof = proven_by txid entries\<rparr>)
         } else None
       }
     }"

definition tip_of :: "cursor \<Rightarrow> door_error + tip option" where
  "tip_of c =
     (case tip_in (cu_bytes c) of
        Some t \<Rightarrow> Inr t
      | None \<Rightarrow> Inl (DoorInternal ''the cursor's bytes are not the layout read''))"

definition subject_raw :: "door \<Rightarrow> string \<Rightarrow> string \<Rightarrow> door_error + string" where
  "subject_raw d tail txid =
     (let wrong = DoorInternal ''the subject read back is not the one verified''
      in case raw_tx_len tail of
           None \<Rightarrow> Inl wrong
         | Some n \<Rightarrow> if dr_sha256d d (take n tail) = txid then Inr (take n tail) else Inl wrong)"

definition output_word :: "door \<Rightarrow> string \<Rightarrow> string option \<Rightarrow> terms \<Rightarrow> payment_verdict" where
  "output_word d subject proof t =
     (let beef = [CHR 0x02, CHR 0x00, CHR 0xBE, CHR 0xEF] @
            (case proof of
               None \<Rightarrow> [CHR 0x00, CHR 0x01, CHR 0x00]
             | Some bump \<Rightarrow> [CHR 0x01] @ bump @ [CHR 0x01, CHR 0x01, CHR 0x00]) @ subject
      in case dr_output d t beef of
           Inr w \<Rightarrow> w
         | Inl e \<Rightarrow> Unverifiable (MalformedTransaction e))"

subsection \<open>The header service\<close>

definition header_root_from_response :: "door \<Rightarrow> string \<Rightarrow> nat \<Rightarrow> string + string" where
  "header_root_from_response d body height =
     (case dr_parse d body of
        Inl e \<Rightarrow> Inl (''parse response: '' @ e)
      | Inr reply \<Rightarrow>
          (let status = (case Option.bind (get_member ''status'' reply) as_str of Some s \<Rightarrow> s | None \<Rightarrow> [])
           in if status \<noteq> ''success'' then
                Inl (''header service status '' @ [CHR 0x27] @ status @ [CHR 0x27] @ '' at height '' @ nat_text height)
              else
                (case get_member ''value'' reply of
                   Some header \<Rightarrow>
                     if header = JNull then Inl (''no header at height '' @ nat_text height)
                     else
                       (case Option.bind
                           (case get_member ''merkleRoot'' header of
                              Some j \<Rightarrow> Some j | None \<Rightarrow> get_member ''merkleroot'' header) as_str of
                          Some r \<Rightarrow> Inr r
                        | None \<Rightarrow> Inl ''response missing merkleRoot'')
                 | None \<Rightarrow> Inl (''no header at height '' @ nat_text height))))"

definition fetch_root :: "door \<Rightarrow> u64 \<Rightarrow> string \<Rightarrow> nat \<Rightarrow> string + string" where
  "fetch_root d now base height =
     (case dr_header_get d now (base @ ''/findHeaderHexForHeight?height='' @ nat_text height) of
        Inl e \<Rightarrow> Inl (''fetch height '' @ nat_text height @ '': '' @ e)
      | Inr (status, body) \<Rightarrow>
          if 400 \<le> status
          then Inl (''header service HTTP '' @ nat_text status @ '' at height '' @ nat_text height)
          else header_root_from_response d body height)"

subsection \<open>The roots\<close>

definition roots_of :: "cursor \<Rightarrow> (u64 \<times> string) list" where
  "roots_of c = remdups_adj (sort (cu_roots c))"

datatype rooted = RootedWord payment_verdict "nat option" | RootedPaused nat

text \<open>
  The loop over the roots, with the answers in hand (one per height) and the first failed lookup:
  its word or its pause, or the first failure at its end.
\<close>

primrec roots_loop ::
  "door \<Rightarrow> (nat \<Rightarrow> string + string) \<Rightarrow> nat option \<Rightarrow> (nat \<times> u64 \<times> string) list \<Rightarrow>
     (nat \<times> (string + string)) list \<Rightarrow> (nat \<times> unverifiable_reason) option \<Rightarrow>
     rooted + (nat \<times> unverifiable_reason) option" where
  "roots_loop d lookup lookups [] answers failure = Inr failure"
| "roots_loop d lookup lookups (r # rs) answers failure =
     (let place = fst r; height = fst (snd r) mod 2 ^ 32; root = dr_display d (snd (snd r));
          known = map_of answers height
      in if known = None \<and> (case lookups of Some most \<Rightarrow> most \<le> length answers | None \<Rightarrow> False)
         then Inl (RootedPaused (case failure of Some (i, _) \<Rightarrow> i | None \<Rightarrow> place))
         else
           (let said = (case known of Some a \<Rightarrow> a | None \<Rightarrow> lookup height);
                answers = (case known of Some _ \<Rightarrow> answers | None \<Rightarrow> (height, said) # answers)
            in case said of
                 Inr carried \<Rightarrow>
                   if to_ascii_lowercase carried = to_ascii_lowercase root
                   then roots_loop d lookup lookups rs answers failure
                   else Inl (RootedWord (RootMismatch height root) None)
               | Inl why \<Rightarrow>
                   roots_loop d lookup lookups rs answers
                     (case failure of
                        Some f \<Rightarrow> Some f | None \<Rightarrow> Some (place, HeaderLookupFailed height why))))"

definition roots_word ::
  "door \<Rightarrow> (u64 \<times> string) list \<Rightarrow> nat \<Rightarrow> nat option \<Rightarrow> (nat \<Rightarrow> string + string) \<Rightarrow> u64 \<Rightarrow> rooted" where
  "roots_word d roots from lookups lookup satoshis =
     (if roots = [] then RootedWord (Unverifiable NoProof) None
      else if 2 ^ 32 \<le> fst (last roots) then
        RootedWord (Unverifiable (MalformedTransaction
          (''a BUMP claims the block height '' @ nat_text (fst (last roots))))) None
      else
        (case roots_loop d lookup lookups (drop from (enumerate 0 roots)) [] None of
           Inl r \<Rightarrow> r
         | Inr (Some (place, reason)) \<Rightarrow> RootedWord (Unverifiable reason) (Some place)
         | Inr None \<Rightarrow> RootedWord (Verified satoshis) None))"

subsection \<open>The paying output\<close>

text \<open>
  \<open>bytes_from\<close> opens the source at an offset and reads it to its end; the source is an object at
  rest or the carrier, so the state is any.
\<close>

definition bump_bytes ::
  "door \<Rightarrow> (u64 \<Rightarrow> 's \<Rightarrow> (door_error, string, 's) outcome) \<Rightarrow> u64 \<Rightarrow> 's \<Rightarrow> (door_error, string, 's) outcome" where
  "bump_bytes d bytes_from place s =
     (let wrong = DoorInternal ''the BUMP read back is not the one verified''
      in andThen (bytes_from 0 s) (\<lambda>beef s.
           case dr_bump d beef place of
             None \<Rightarrow> (Inl wrong, s)
           | Some (offset, len) \<Rightarrow>
               andThen (bytes_from offset s) (\<lambda>bytes s.
                 if len \<le> length bytes then (Inr (take len bytes), s) else (Inl wrong, s))))"

definition paid_by ::
  "door \<Rightarrow> cursor \<Rightarrow> terms \<Rightarrow> (u64 \<Rightarrow> 's \<Rightarrow> (door_error, string, 's) outcome) \<Rightarrow> 's \<Rightarrow>
     (door_error, payment_verdict + string \<times> u64, 's) outcome" where
  "paid_by d c t bytes_from s =
     (case tip_of c of
        Inl e \<Rightarrow> (Inl e, s)
      | Inr None \<Rightarrow> (Inr (Inl (Unverifiable NoTransaction)), s)
      | Inr (Some tip) \<Rightarrow>
          andThen (bytes_from (tp_at tip) s) (\<lambda>tail s.
            case subject_raw d tail (tp_txid tip) of
              Inl e \<Rightarrow> (Inl e, s)
            | Inr raw \<Rightarrow>
                andThen (case tp_proof tip of
                    Some place \<Rightarrow> andThen (bump_bytes d bytes_from place s) (\<lambda>b s. (Inr (Some b), s))
                  | None \<Rightarrow> (Inr None, s)) (\<lambda>bump s.
                  (Inr (case output_word d raw bump t of
                     Verified satoshis \<Rightarrow> Inr (tp_txid tip, satoshis)
                   | other \<Rightarrow> Inl other), s))))"

subsection \<open>The inline payment\<close>

definition carrier_from :: "pay_env \<Rightarrow> carrier \<Rightarrow> u64 \<Rightarrow> unit \<Rightarrow> (door_error, string, unit) outcome" where
  "carrier_from env c from s = (Inr (carrier_stream env c from), s)"

definition inline_reading :: "pay_env \<Rightarrow> door \<Rightarrow> carrier \<Rightarrow> pass \<Rightarrow> door_error + (beef_verdict + cursor)" where
  "inline_reading env d c pass =
     (case dr_read d None pass None (carrier_stream env c 0) of
        Inl e \<Rightarrow> Inl (DoorSource e)
      | Inr (ReadValid cu) \<Rightarrow> Inr (Inr cu)
      | Inr (ReadRefused v) \<Rightarrow> Inr (Inl v)
      | Inr (ReadPaused _) \<Rightarrow> Inl (DoorInternal ''a reading with no slice paused''))"

definition structure_and_output ::
  "pay_env \<Rightarrow> door \<Rightarrow> carrier \<Rightarrow> terms \<Rightarrow> door_error + (door_verdict + string \<times> u64)" where
  "structure_and_output env d c t =
     (case inline_reading env d c PassStructure of
        Inl e \<Rightarrow> Inl e
      | Inr (Inl v) \<Rightarrow> Inr (Inl (refusal_word d v))
      | Inr (Inr cu) \<Rightarrow>
          (case fst (paid_by d cu t (carrier_from env c) ()) of
             Inl e \<Rightarrow> Inl e
           | Inr (Inl w) \<Rightarrow> Inr (Inl (word_only w))
           | Inr (Inr paid) \<Rightarrow> Inr (Inr paid)))"

definition judge_output_inline ::
  "pay_env \<Rightarrow> door \<Rightarrow> carrier \<Rightarrow> terms \<Rightarrow> door_error + door_verdict option" where
  "judge_output_inline env d c t =
     (case structure_and_output env d c t of
        Inl e \<Rightarrow> Inl e
      | Inr (Inl v) \<Rightarrow> Inr (Some v)
      | Inr (Inr _) \<Rightarrow> Inr None)"

definition structure_inline :: "pay_env \<Rightarrow> door \<Rightarrow> carrier \<Rightarrow> door_error + door_verdict option" where
  "structure_inline env d c =
     (case inline_reading env d c PassStructure of
        Inl e \<Rightarrow> Inl e
      | Inr (Inl v) \<Rightarrow> Inr (Some (refusal_word d v))
      | Inr (Inr _) \<Rightarrow> Inr None)"

definition verify_inline :: "pay_env \<Rightarrow> door \<Rightarrow> carrier \<Rightarrow> terms \<Rightarrow> u64 \<Rightarrow> door_error + door_verdict" where
  "verify_inline env d c t now =
     (case dr_header_base d of
        None \<Rightarrow> Inr (word_only NoHeaderService)
      | Some base \<Rightarrow>
          (case structure_and_output env d c t of
             Inl e \<Rightarrow> Inl e
           | Inr (Inl v) \<Rightarrow> Inr v
           | Inr (Inr (txid, satoshis)) \<Rightarrow>
               (case inline_reading env d c PassScripts of
                  Inl e \<Rightarrow> Inl e
                | Inr (Inl v) \<Rightarrow> Inr (refusal_word d v)
                | Inr (Inr cu) \<Rightarrow>
                    (case roots_word d (roots_of cu) 0 None (fetch_root d now base) satoshis of
                       RootedWord w _ \<Rightarrow> Inr (judged_word w txid)
                     | RootedPaused _ \<Rightarrow> Inl (DoorInternal ''the roots with no slice paused'')))))"

definition inline_spool_key :: "pay_env \<Rightarrow> door \<Rightarrow> string \<Rightarrow> carrier \<Rightarrow> string" where
  "inline_spool_key env d sender c = sender @ ''/inline-'' @ dr_sha d (carrier_stream env c 0) @ ''.beef''"

subsection \<open>The object at rest\<close>

datatype phase = Structure | Scripts | Roots

fun phase_byte :: "phase \<Rightarrow> nat" where
  "phase_byte Structure = 0"
| "phase_byte Scripts = 1"
| "phase_byte Roots = 2"

definition phase_of :: "nat \<Rightarrow> phase option" where
  "phase_of b = find (\<lambda>p. phase_byte p = b) [Structure, Scripts, Roots]"

fun phase_name :: "phase \<Rightarrow> string" where
  "phase_name Structure = ''structure''"
| "phase_name Scripts = ''scripts''"
| "phase_name Roots = ''roots''"

record rest =
  rs_stamp :: stamp
  rs_phase :: phase
  rs_roots_asked :: u64
  rs_cursor :: cursor

definition STATE_MAGIC :: string where
  "STATE_MAGIC = ''RMBD2''"

definition rest_to_binary :: "rest \<Rightarrow> string" where
  "rest_to_binary r =
     STATE_MAGIC @ [char_of (phase_byte (rs_phase r))] @ le_bytes 8 (st_size (rs_stamp r)) @
     le_bytes 8 (rs_roots_asked r) @ le_bytes 4 (length (st_etag (rs_stamp r))) @
     st_etag (rs_stamp r) @ cu_bytes (rs_cursor r)"

definition rest_from_binary :: "door \<Rightarrow> string \<Rightarrow> rest option" where
  "rest_from_binary d bin =
     do {
       magic \<leftarrow> bytes_at bin 0 5;
       if magic \<noteq> STATE_MAGIC then None
       else do {
         head \<leftarrow> bytes_at bin 5 (1 + 8 + 8 + 4);
         let n = le_nat (take 4 (drop 17 head));
         etag \<leftarrow> bytes_at bin 26 n;
         if \<not> is_utf8 etag then None
         else do {
           p \<leftarrow> phase_of (le_nat (take 1 head));
           let cursor = drop (26 + n) bin;
           cu \<leftarrow> dr_cursor d cursor;
           if starts_with ''BSC2'' cursor then None
           else Some \<lparr>rs_stamp = \<lparr>st_size = le_nat (take 8 (drop 1 head)), st_etag = etag\<rparr>, rs_phase = p,
                      rs_roots_asked = le_nat (take 8 (drop 9 head)), rs_cursor = cu\<rparr>
         }
       }
     }"

record pending =
  pn_phase :: phase
  pn_elements :: u64
  pn_input :: "nat option"
  pn_offset :: u64
  pn_size :: u64
  pn_roots_asked :: u64
  pn_roots :: u64

datatype at_rest_answer = AtRestDone door_verdict | AtRestPending pending | AtRestNotFound

definition ROOT_LOOKUPS_PER_PASS :: nat where
  "ROOT_LOOKUPS_PER_PASS = 500"

type_synonym 'a doored = "vault \<Rightarrow> (door_error, 'a, vault) outcome"

definition door_pause :: "pay_env \<Rightarrow> string \<Rightarrow> stamp \<Rightarrow> phase \<Rightarrow> cursor \<Rightarrow> u64 \<Rightarrow> u64 \<Rightarrow> at_rest_answer doored" where
  "door_pause env k st p cu asked roots v =
     andThen (map_err DoorSource (blob_save env (state_key k) (rest_to_binary
         \<lparr>rs_stamp = st, rs_phase = p, rs_roots_asked = asked, rs_cursor = cu\<rparr>) v)) (\<lambda>_ v.
       (Inr (AtRestPending \<lparr>pn_phase = p, pn_elements = cu_elements cu, pn_input = cu_input cu,
          pn_offset = cu_offset cu, pn_size = st_size st, pn_roots_asked = asked, pn_roots = roots\<rparr>), v))"

definition door_done :: "pay_env \<Rightarrow> string \<Rightarrow> door_verdict \<Rightarrow> at_rest_answer doored" where
  "door_done env k verdict v =
     andThen (map_err DoorSource (blob_clear env (state_key k) v)) (\<lambda>_ v. (Inr (AtRestDone verdict), v))"

definition object_from :: "pay_env \<Rightarrow> string \<Rightarrow> stamp \<Rightarrow> u64 \<Rightarrow> string doored" where
  "object_from env k st from v = map_err DoorSource (blob_open env k from st v)"

text \<open>One reading of the object, from the cursor or the start, for this request's slice.\<close>

definition door_reading ::
  "pay_env \<Rightarrow> door \<Rightarrow> string \<Rightarrow> stamp \<Rightarrow> cursor option \<Rightarrow> pass \<Rightarrow> reading doored" where
  "door_reading env d k st from pass v =
     andThen (object_from env k st (case from of Some cu \<Rightarrow> cu_offset cu | None \<Rightarrow> 0) v) (\<lambda>bytes v.
       case dr_read d from pass (Some (v_now v)) bytes of
         Inl e \<Rightarrow> (Inl (DoorSource e), v)
       | Inr r \<Rightarrow> (Inr r, v))"

text \<open>
  The loop over the phases, a definition per phase: the roots, the scripts, the structure.
  \<open>known\<close> is the output word, when this request judged it.
\<close>

definition door_roots ::
  "pay_env \<Rightarrow> door \<Rightarrow> string \<Rightarrow> terms \<Rightarrow> string \<Rightarrow> stamp \<Rightarrow> cursor \<Rightarrow> nat \<Rightarrow> (string \<times> u64) option \<Rightarrow>
     at_rest_answer doored" where
  "door_roots env d base t k st cu asked known v =
     andThen (case known of
         Some paid \<Rightarrow> (Inr (Inr paid), v)
       | None \<Rightarrow> paid_by d cu t (object_from env k st) v) (\<lambda>paid v.
       case paid of
         Inl w \<Rightarrow> door_done env k (word_only w) v
       | Inr (txid, satoshis) \<Rightarrow>
           (let roots = roots_of cu
            in case roots_word d roots asked (Some ROOT_LOOKUPS_PER_PASS) (fetch_root d (v_now v) base) satoshis of
                 RootedPaused place \<Rightarrow> door_pause env k st Roots cu place (length roots) v
               | RootedWord w (Some place) \<Rightarrow>
                   andThen (door_pause env k st Roots cu place (length roots) v) (\<lambda>_ v.
                     (Inr (AtRestDone (judged_word w txid)), v))
               | RootedWord w None \<Rightarrow> door_done env k (judged_word w txid) v))"

definition door_scripts ::
  "pay_env \<Rightarrow> door \<Rightarrow> string \<Rightarrow> terms \<Rightarrow> string \<Rightarrow> stamp \<Rightarrow> cursor option \<Rightarrow> (string \<times> u64) option \<Rightarrow>
     at_rest_answer doored" where
  "door_scripts env d base t k st from known v =
     andThen (door_reading env d k st from PassScripts v) (\<lambda>r v.
       case r of
         ReadRefused w \<Rightarrow> door_done env k (refusal_word d w) v
       | ReadPaused cu \<Rightarrow> door_pause env k st Scripts cu 0 0 v
       | ReadValid cu \<Rightarrow> door_roots env d base t k st cu 0 known v)"

definition door_structure ::
  "pay_env \<Rightarrow> door \<Rightarrow> string \<Rightarrow> terms \<Rightarrow> string \<Rightarrow> stamp \<Rightarrow> cursor option \<Rightarrow> at_rest_answer doored" where
  "door_structure env d base t k st from v =
     andThen (door_reading env d k st from PassStructure v) (\<lambda>r v.
       case r of
         ReadRefused w \<Rightarrow> door_done env k (refusal_word d w) v
       | ReadPaused cu \<Rightarrow> door_pause env k st Structure cu 0 0 v
       | ReadValid cu \<Rightarrow>
           andThen (paid_by d cu t (object_from env k st) v) (\<lambda>paid v.
             case paid of
               Inl w \<Rightarrow> door_done env k (word_only w) v
             | Inr p \<Rightarrow> door_scripts env d base t k st None (Some p) v))"

definition saved_state :: "door \<Rightarrow> stamp \<Rightarrow> string option \<Rightarrow> rest option" where
  "saved_state d st saved =
     (case Option.bind saved (rest_from_binary d) of
        Some r \<Rightarrow> if rs_stamp r = st then Some r else None
      | None \<Rightarrow> None)"

definition door_at_rest ::
  "pay_env \<Rightarrow> door \<Rightarrow> string \<Rightarrow> terms \<Rightarrow> string \<Rightarrow> stamp \<Rightarrow> at_rest_answer doored" where
  "door_at_rest env d base t k st v =
     andThen (map_err DoorSource (blob_load env (state_key k) v)) (\<lambda>saved v.
       case saved_state d st saved of
         None \<Rightarrow> door_structure env d base t k st None v
       | Some r \<Rightarrow>
           (case rs_phase r of
              Structure \<Rightarrow> door_structure env d base t k st (Some (rs_cursor r)) v
            | Scripts \<Rightarrow> door_scripts env d base t k st (Some (rs_cursor r)) None v
            | Roots \<Rightarrow> door_roots env d base t k st (rs_cursor r) (rs_roots_asked r) None v))"

definition verify_at_rest_stamped ::
  "pay_env \<Rightarrow> door \<Rightarrow> string \<Rightarrow> terms \<Rightarrow> (at_rest_answer \<times> stamp option) doored" where
  "verify_at_rest_stamped env d k t v =
     (case dr_header_base d of
        None \<Rightarrow> (Inr (AtRestDone (word_only NoHeaderService), None), v)
      | Some base \<Rightarrow>
          andThen (map_err DoorSource (blob_stamp env k v)) (\<lambda>st v.
            case st of
              None \<Rightarrow> (Inr (AtRestNotFound, None), v)
            | Some st \<Rightarrow>
                andThen (door_at_rest env d base t k st v) (\<lambda>a v. (Inr (a, Some st), v))))"

end
