(* ===== verification/Handoff.thy ===== *)
theory Handoff
  imports Beef_Door
begin

section \<open>The hand-off of a verified payment\<close>

text \<open>
  \<open>src/src/handoff.rs\<close>: what becomes of a payment once the door has verified it (its bytes stay
  at rest, the row carries their key, the fee is recorded or deferred), who may delete an object
  at rest (\<open>reclaim\<close>), the drain of deferred fees and the re-ask of owed announcements. The traits
  of the seams are the stores of \<open>Payment_Store\<close>.
\<close>

subsection \<open>Shapes, texts, the payment as a row keeps it\<close>

datatype tx_shape = ShapeArray | ShapeHex | ShapeBase64

fun shape_of :: "carrier \<Rightarrow> tx_shape" where
  "shape_of (Array _) = ShapeArray"
| "shape_of (Hex _) = ShapeHex"
| "shape_of (Base64 _) = ShapeBase64"

definition shape_sent :: "json \<Rightarrow> carrier \<Rightarrow> tx_shape" where
  "shape_sent payment c =
     (if Option.bind (get_member ''txShape'' payment) as_str = Some ''array'' then ShapeArray else shape_of c)"

fun shape_name :: "tx_shape \<Rightarrow> string" where
  "shape_name ShapeArray = ''array''"
| "shape_name ShapeHex = ''hex''"
| "shape_name ShapeBase64 = ''base64''"

definition shape_named :: "string \<Rightarrow> tx_shape option" where
  "shape_named name = find (\<lambda>s. shape_name s = name) [ShapeArray, ShapeHex, ShapeBase64]"

text \<open>\<open>Map::insert\<close> and \<open>value[k] = v\<close> on an object.\<close>

fun put_pair :: "string \<Rightarrow> json \<Rightarrow> (string \<times> json) list \<Rightarrow> (string \<times> json) list" where
  "put_pair k v [] = [(k, v)]"
| "put_pair k v ((k', v') # ms) = (if k' = k then (k, v) # ms else (k', v') # put_pair k v ms)"

fun put_member :: "string \<Rightarrow> json \<Rightarrow> json \<Rightarrow> json" where
  "put_member k v (JObj ms) = JObj (put_pair k v ms)"
| "put_member k v j = j"

definition ROW_FIELDS :: "string list" where
  "ROW_FIELDS = [''announced'', ''beefReader'', ''key'', ''words'', ''tx'', ''beefR2Key'', ''beefSize'',
     ''beefEtag'', ''txShape'', ''verdict'', ''txid'']"

fun members_of :: "json \<Rightarrow> (string \<times> json) list" where
  "members_of (JObj ms) = ms"
| "members_of _ = []"

definition sender_fields :: "json \<Rightarrow> (string \<times> json) list" where
  "sender_fields payment = filter (\<lambda>(k, _). k \<notin> set ROW_FIELDS) (members_of payment)"

definition opt_str :: "string option \<Rightarrow> json" where
  "opt_str x = (case x of Some s \<Rightarrow> JStr s | None \<Rightarrow> JNull)"

definition payment_at_rest :: "json \<Rightarrow> string \<Rightarrow> stamp \<Rightarrow> tx_shape \<Rightarrow> string option \<Rightarrow> json" where
  "payment_at_rest payment k st shape txid =
     (let row = sender_fields payment;
          row = put_pair ''beefR2Key'' (JStr k) row;
          row = put_pair ''beefSize'' (JInt (int (st_size st))) row;
          row = put_pair ''beefEtag'' (JStr (st_etag st)) row;
          row = put_pair ''txShape'' (JStr (shape_name shape)) row;
          row = put_pair ''verdict'' (JStr (if txid \<noteq> None then ''verified'' else ''notJudged'')) row
      in JObj (case txid of Some t \<Rightarrow> put_pair ''txid'' (JStr t) row | None \<Rightarrow> row))"

definition bytes_json :: "string \<Rightarrow> json" where
  "bytes_json s = JArr (map (\<lambda>c. JInt (int (of_char c))) s)"

definition payment_in_row :: "pay_env \<Rightarrow> json \<Rightarrow> json" where
  "payment_in_row env payment =
     (let row = sender_fields payment;
          row = (case get_member ''tx'' payment of
                   None \<Rightarrow> row
                 | Some tx \<Rightarrow>
                     put_pair ''tx''
                       (case (Option.bind (get_member ''txShape'' payment) as_str, as_str tx) of
                          (Some sh, Some t) \<Rightarrow>
                            if sh = ''array'' then (case pe_unhex env t of Some bs \<Rightarrow> bytes_json bs | None \<Rightarrow> tx)
                            else tx
                        | _ \<Rightarrow> tx) row)
      in JObj (put_pair ''verdict'' (JStr ''notJudged'') row))"

definition stored_body :: "pay_env \<Rightarrow> json \<Rightarrow> (json \<times> json) option \<Rightarrow> string" where
  "stored_body env message paid =
     (case paid of
        Some (payment, outputs) \<Rightarrow>
          pe_text env (JObj [(''message'', message), (''payment'', put_member ''outputs'' outputs payment)])
      | None \<Rightarrow> pe_text env (JObj [(''message'', message)]))"

definition array_of_bytes :: "string \<Rightarrow> string" where
  "array_of_bytes s = ''['' @ join '','' (map (\<lambda>c. nat_text (of_char c)) s) @ '']''"

fun shape_text :: "pay_env \<Rightarrow> tx_shape \<Rightarrow> string \<Rightarrow> string" where
  "shape_text env ShapeArray s = array_of_bytes s"
| "shape_text env ShapeHex s = [CHR 0x22] @ pe_hex env s @ [CHR 0x22]"
| "shape_text env ShapeBase64 s =
     ''{'' @ [CHR 0x22] @ ''beef'' @ [CHR 0x22] @ '':'' @ [CHR 0x22] @ pe_b64 env s @ [CHR 0x22] @ ''}''"

definition tx_text :: "pay_env \<Rightarrow> string \<Rightarrow> stamp \<Rightarrow> tx_shape \<Rightarrow> string vaulted" where
  "tx_text env k st shape v = andThen (blob_read env k st v) (\<lambda>s v. (Inr (shape_text env shape s), v))"

definition hex_from_rest :: "pay_env \<Rightarrow> string \<Rightarrow> stamp \<Rightarrow> string vaulted" where
  "hex_from_rest env k st v =
     andThen (tx_text env k st ShapeHex v) (\<lambda>t v. (Inr (slice 1 (length t - 1) t), v))"

definition saturating_mul :: "u64 \<Rightarrow> u64 \<Rightarrow> u64" where
  "saturating_mul a b = min u64_max (a * b)"

fun encoded_len :: "u64 \<Rightarrow> tx_shape \<Rightarrow> u64" where
  "encoded_len n ShapeArray = saturating_mul n 4 + 2"
| "encoded_len n ShapeHex = saturating_mul n 2 + 2"
| "encoded_len n ShapeBase64 = saturating_mul ((n + 2) div 3) 4 + 12"

fun hex_of :: "pay_env \<Rightarrow> carrier \<Rightarrow> string" where
  "hex_of env (Hex t) = t"
| "hex_of env c = pe_hex env (carrier_bytes env c 0 (carrier_len c))"

subsection \<open>Ownership: an object goes only when nothing names it\<close>

definition named :: "string \<Rightarrow> bool vaulted" where
  "named k v =
     andThen (rows_names k v) (\<lambda>yes v. if yes then (Inr True, v) else ledger_owes k v)"

definition reclaim_claimed :: "pay_env \<Rightarrow> string \<Rightarrow> bool vaulted" where
  "reclaim_claimed env k v =
     andThen (named k v) (\<lambda>yes v.
       if yes then (Inr False, v)
       else andThen (blob_stamp env k v) (\<lambda>looked v.
         case looked of
           None \<Rightarrow> (Inr True, v)
         | Some st \<Rightarrow>
             andThen (named k v) (\<lambda>yes v.
               if yes then (Inr False, v)
               else andThen (blob_stamp env k v) (\<lambda>again v.
                 if again \<noteq> Some st then (Inr False, v)
                 else andThen (blob_clear env k v) (\<lambda>_ v. (Inr True, v))))))"

definition reclaim :: "pay_env \<Rightarrow> string \<Rightarrow> bool vaulted" where
  "reclaim env k v =
     andThen (rows_claim k v) (\<lambda>_ v.
       let (r, v) = reclaim_claimed env k v in (r, snd (rows_unclaim k v)))"

definition orphaned :: "pay_env \<Rightarrow> string \<Rightarrow> vault \<Rightarrow> bool \<times> vault" where
  "orphaned env k v =
     (case rows_claimed k v of
        (Inr True, v) \<Rightarrow>
          (case blob_stamp env k v of (Inr None, v) \<Rightarrow> (True, v) | (_, v) \<Rightarrow> (False, v))
      | (_, v) \<Rightarrow> (False, v))"

definition RECLAIM_BATCH :: nat where
  "RECLAIM_BATCH = 25"

text \<open>What a pass came to: deleted, named, put off.\<close>

record passed =
  ps_deleted :: nat
  ps_named :: nat
  ps_put_off :: nat

definition no_pass :: passed where
  "no_pass = \<lparr>ps_deleted = 0, ps_named = 0, ps_put_off = 0\<rparr>"

definition looked_at :: "bool \<Rightarrow> passed \<Rightarrow> passed" where
  "looked_at deleted p =
     (if deleted then p\<lparr>ps_deleted := Suc (ps_deleted p)\<rparr> else p\<lparr>ps_named := Suc (ps_named p)\<rparr>)"

definition off :: "passed \<Rightarrow> passed" where
  "off p = p\<lparr>ps_put_off := Suc (ps_put_off p)\<rparr>"

primrec released_loop :: "pay_env \<Rightarrow> string list \<Rightarrow> passed \<Rightarrow> passed vaulted" where
  "released_loop env [] p v = (Inr p, v)"
| "released_loop env (k # ks) p v =
     (case reclaim env k v of
        (Inr deleted, v) \<Rightarrow>
          andThen (rows_forget k v) (\<lambda>_ v. released_loop env ks (looked_at deleted p) v)
      | (Inl _, v) \<Rightarrow> released_loop env ks (off p) v)"

definition reclaim_released :: "pay_env \<Rightarrow> nat \<Rightarrow> passed vaulted" where
  "reclaim_released env limit v =
     andThen (rows_released limit v) (\<lambda>ks v. released_loop env ks no_pass v)"

definition MINTED_MARGIN_SECS :: u64 where
  "MINTED_MARGIN_SECS = 86400"

definition MINTED_PENDING_SECS :: u64 where
  "MINTED_PENDING_SECS = 3600"

primrec minted_loop :: "pay_env \<Rightarrow> u64 \<Rightarrow> string list \<Rightarrow> passed \<Rightarrow> passed vaulted" where
  "minted_loop env now [] p v = (Inr p, v)"
| "minted_loop env now (k # ks) p v =
     (case blob_load env (state_key k) v of
        (Inr None, v) \<Rightarrow>
          (case reclaim env k v of
             (Inr deleted, v) \<Rightarrow>
               andThen (rows_forget_minted k v) (\<lambda>_ v. minted_loop env now ks (looked_at deleted p) v)
           | (Inl _, v) \<Rightarrow>
               andThen (rows_postpone_minted k (now + MINTED_PENDING_SECS) v) (\<lambda>_ v.
                 minted_loop env now ks (off p) v))
      | (_, v) \<Rightarrow>
          andThen (rows_postpone_minted k (now + MINTED_PENDING_SECS) v) (\<lambda>_ v.
            minted_loop env now ks (off p) v))"

definition reclaim_minted :: "pay_env \<Rightarrow> u64 \<Rightarrow> nat \<Rightarrow> passed vaulted" where
  "reclaim_minted env now limit v =
     andThen (rows_minted_due now limit v) (\<lambda>ks v. minted_loop env now ks no_pass v)"

subsection \<open>What the wallet is asked\<close>

datatype fee = NotOwed | Internalized | Deferred | Ended

record handed_off =
  ho_payment :: json
  ho_fee :: fee
  ho_kept :: "string option"
  ho_hint :: "hint option"

definition FEE_ATTEMPTS_CEILING :: nat where
  "FEE_ATTEMPTS_CEILING = 30"

definition WALLET_WORD_SECS :: u64 where
  "WALLET_WORD_SECS = 86400"

definition cannot_read_bucket :: "string \<Rightarrow> bool" where
  "cannot_read_bucket w \<longleftrightarrow>
     contains ''no bucket is bound here for bytes at rest'' w \<or>
     contains ''beefAtRest: bucket '' w \<and> contains ''is not bound here'' w"

definition or_default :: "json \<Rightarrow> json option \<Rightarrow> json" where
  "or_default d x = (case x of Some j \<Rightarrow> j | None \<Rightarrow> d)"

definition fee_args :: "json \<Rightarrow> json \<Rightarrow> json" where
  "fee_args server_output payment =
     JObj [(''outputs'', JArr [server_output]),
           (''description'', JStr (case Option.bind (get_member ''description'' payment) as_str of
              Some d \<Rightarrow> d | None \<Rightarrow> ''MessageBox delivery payment'')),
           (''labels'', or_default (JArr []) (get_member ''labels'' payment))]"

definition internalize_with :: "string \<Rightarrow> json \<Rightarrow> json \<Rightarrow> json" where
  "internalize_with name bytes fee =
     put_member name bytes
       (JObj [(''outputs'', or_default (JArr []) (get_member ''outputs'' fee)),
              (''description'', or_default (JStr ''MessageBox delivery payment'') (get_member ''description'' fee)),
              (''labels'', or_default (JArr []) (get_member ''labels'' fee)),
              (''seekPermission'', JBool False)])"

definition internalize_inline :: "string \<Rightarrow> json \<Rightarrow> json" where
  "internalize_inline tx fee = internalize_with ''tx'' (JStr tx) fee"

definition internalize_at_rest :: "json \<Rightarrow> json \<Rightarrow> json" where
  "internalize_at_rest reference fee = internalize_with ''beefAtRest'' reference fee"

definition trim_quotes :: "string \<Rightarrow> string" where
  "trim_quotes s = rev (dropWhile (\<lambda>c. c = CHR 0x22) (rev (dropWhile (\<lambda>c. c = CHR 0x22) s)))"

definition beef_at_rest :: "string \<Rightarrow> stamp \<Rightarrow> string \<Rightarrow> json" where
  "beef_at_rest k st bkt =
     JObj [(''r2Key'', JStr k), (''size'', JInt (int (st_size st))),
           (''etag'', JStr (trim_quotes (st_etag st))), (''bucket'', JStr bkt)]"

definition INTERNALIZE_INLINE_BYTES :: u64 where
  "INTERNALIZE_INLINE_BYTES = 1024 * 1024"

definition DRAIN_BATCH :: nat where
  "DRAIN_BATCH = 10"

definition backoff_secs :: "nat \<Rightarrow> u64" where
  "backoff_secs attempts = min 86400 (saturating_mul 60 (2 ^ min (attempts - 1) 20))"

definition beef_key_not_found :: "string \<Rightarrow> answer" where
  "beef_key_not_found e = error_answer 400 ''ERR_BEEF_KEY_NOT_FOUND'' (''Could not fetch BEEF from R2: '' @ e)"

definition store_unavailable :: "string \<Rightarrow> answer" where
  "store_unavailable e =
     error_answer 503 ''ERR_PAYMENT_UNAVAILABLE'' (''The payment's BEEF could not be put at rest: '' @ e)"

subsection \<open>The hand-off\<close>

record paid =
  pd_payment :: json
  pd_r2_key :: "string option"
  pd_spooled :: "string option"
  pd_spool_key :: string
  pd_server_output :: "json option"
  pd_stamp :: "stamp option"
  pd_txid :: "string option"
  pd_rows :: bool
  pd_reader :: string
  pd_now :: u64

type_synonym 'a routed = "vault \<Rightarrow> (answer, 'a, vault) outcome"
type_synonym at_rest = "(string \<times> stamp) option"

definition paid_carrier :: "pay_env \<Rightarrow> paid \<Rightarrow> answer + carrier option" where
  "paid_carrier env p =
     (case pd_r2_key p of
        Some _ \<Rightarrow> Inr None
      | None \<Rightarrow>
          (case Option.bind (get_member ''tx'' (pd_payment p)) (carrier_of env) of
             Some c \<Rightarrow> Inr (Some c)
           | None \<Rightarrow> Inl (error_answer 400 ''ERR_INVALID_PAYMENT'' ''Payment must contain a valid Atomic BEEF.'')))"

text \<open>Where the bytes are: the sender's upload, which must be there, or the relay's own spool.\<close>

definition paid_rest :: "pay_env \<Rightarrow> paid \<Rightarrow> at_rest routed" where
  "paid_rest env p v =
     (case (pd_r2_key p, pd_spooled p) of
        (Some k, _) \<Rightarrow>
          andThen (map_err beef_key_not_found (blob_stamp env k v)) (\<lambda>st v.
            case st of
              None \<Rightarrow> (Inl (beef_key_not_found ''R2 object not found''), v)
            | Some st \<Rightarrow> (Inr (Some (k, st)), v))
      | (None, Some k) \<Rightarrow>
          andThen (map_err store_unavailable (blob_stamp env k v)) (\<lambda>st v.
            (Inr (map_option (\<lambda>st. (k, st)) st), v))
      | (None, None) \<Rightarrow> (Inr None, v))"

definition payment_changed :: "paid \<Rightarrow> at_rest \<Rightarrow> answer option" where
  "payment_changed p rest =
     (case (pd_stamp p, rest) of
        (Some door, Some (k, now)) \<Rightarrow>
          if door \<noteq> now then
            Some (error_answer 503 ''ERR_PAYMENT_CHANGED''
              (''The payment's BEEF at '' @ k @ '' changed after it was verified (etag '' @ st_etag door @
               '' then, '' @ st_etag now @ '' now); send the same request again.''))
          else None
      | _ \<Rightarrow> None)"

definition paid_shape :: "paid \<Rightarrow> carrier option \<Rightarrow> tx_shape" where
  "paid_shape p c = (case c of Some c \<Rightarrow> shape_sent (pd_payment p) c | None \<Rightarrow> ShapeBase64)"

definition paid_size :: "carrier option \<Rightarrow> at_rest \<Rightarrow> u64" where
  "paid_size c rest =
     (case (c, rest) of
        (Some c, _) \<Rightarrow> carrier_len c | (None, Some (_, st)) \<Rightarrow> st_size st | (None, None) \<Rightarrow> 0)"

text \<open>An inline payment's bytes put at rest, unless they are there.\<close>

definition spool_rest :: "pay_env \<Rightarrow> paid \<Rightarrow> carrier option \<Rightarrow> u64 \<Rightarrow> at_rest \<Rightarrow> at_rest routed" where
  "spool_rest env p c n rest v =
     (case (rest, c) of
        (None, Some c) \<Rightarrow>
          andThen (map_err store_unavailable
              (blob_spool env (pd_spool_key p) (carrier_stream env c 0) n (pd_reader p) v)) (\<lambda>st v.
            (Inr (Some (pd_spool_key p, st)), v))
      | _ \<Rightarrow> (Inr rest, v))"

definition row_reader :: "pay_env \<Rightarrow> paid \<Rightarrow> at_rest \<Rightarrow> vault \<Rightarrow> string option \<times> vault" where
  "row_reader env p rest v =
     (case (pd_r2_key p, rest) of
        (Some _, Some (k, _)) \<Rightarrow>
          (case blob_reader env k v of
             (Inr (Some reader), v) \<Rightarrow> (if reader = pd_reader p then None else Some (pd_reader p), v)
           | (_, v) \<Rightarrow> (Some (pd_reader p), v))
      | _ \<Rightarrow> (None, v))"

definition hint_of :: "(string + hint) option \<Rightarrow> hint" where
  "hint_of word =
     (case word of
        None \<Rightarrow> \<lparr>h_accepted = False, h_word = ''no broadcaster is configured''\<rparr>
      | Some (Inr said) \<Rightarrow> said
      | Some (Inl e) \<Rightarrow> \<lparr>h_accepted = False, h_word = ''no answer: '' @ e\<rparr>)"

definition announce_owed_error :: "string \<Rightarrow> answer" where
  "announce_owed_error e =
     error_answer 503 ''ERR_PAYMENT_UNAVAILABLE''
       (''The announcement could not be recorded as owed; send the same request again: '' @ e)"

text \<open>The subject announced: where the bytes are after it, the hint, and whether a re-ask is owed.\<close>

definition ask_broadcaster ::
  "pay_env \<Rightarrow> carrier option \<Rightarrow> at_rest \<Rightarrow> vault \<Rightarrow> (string + hint) option \<times> vault" where
  "ask_broadcaster env c rest v =
     (if pe_arc env \<and> (rest \<noteq> None \<or> c \<noteq> None)
      then (let (r, v) = announce v in (Some r, v)) else (None, v))"

definition announce_subject ::
  "pay_env \<Rightarrow> paid \<Rightarrow> carrier option \<Rightarrow> u64 \<Rightarrow> at_rest \<Rightarrow> (at_rest \<times> hint option \<times> bool) routed" where
  "announce_subject env p c n rest v =
     (case (pd_server_output p, pd_txid p) of
        (Some _, Some txid) \<Rightarrow>
          (let (word, v) = ask_broadcaster env c rest v; said = hint_of word
           in if word \<noteq> None \<and> \<not> h_accepted said
              then
                andThen (spool_rest env p c n rest v) (\<lambda>rest v.
                  case rest of
                    None \<Rightarrow> (Inr (rest, Some said, False), v)
                  | Some (k, st) \<Rightarrow>
                      andThen (map_err announce_owed_error
                          (ledger_owe_announce \<lparr>oa_key = k, oa_etag = st_etag st, oa_txid = txid,
                             oa_attempts = 0, oa_next_at = pd_now p\<rparr> (h_word said) v)) (\<lambda>_ v.
                        (Inr (rest, Some said, True), v)))
              else (Inr (rest, Some said, False), v))
      | _ \<Rightarrow> (Inr (rest, None, False), v))"

text \<open>The text the wallet is handed: read back from the upload, or the carrier's own.\<close>

definition wallet_tx :: "pay_env \<Rightarrow> paid \<Rightarrow> carrier option \<Rightarrow> at_rest \<Rightarrow> string vaulted" where
  "wallet_tx env p c rest v =
     (case (rest, pd_r2_key p, c) of
        (Some (k, st), Some _, _) \<Rightarrow> hex_from_rest env k st v
      | (_, _, Some c) \<Rightarrow> (Inr (hex_of env c), v)
      | _ \<Rightarrow> (Inl ''no bytes to hand wallet-infra'', v))"

definition drop_spool :: "pay_env \<Rightarrow> paid \<Rightarrow> at_rest \<Rightarrow> vault \<Rightarrow> vault" where
  "drop_spool env p rest v =
     (case (pd_r2_key p, rest) of
        (None, Some (k, _)) \<Rightarrow> snd (reclaim env k v)
      | _ \<Rightarrow> v)"

text \<open>Whether the fee is still owed once the wallet was asked; a refusal ends the send.\<close>

definition fee_still_owed ::
  "pay_env \<Rightarrow> paid \<Rightarrow> carrier option \<Rightarrow> u64 \<Rightarrow> at_rest \<Rightarrow> json \<Rightarrow> bool routed" where
  "fee_still_owed env p c n rest args v =
     (if INTERNALIZE_INLINE_BYTES < n then (Inr True, v)
      else
        (case wallet_tx env p c rest v of
           (Inl _, v) \<Rightarrow> (Inr True, v)
         | (Inr tx, v) \<Rightarrow>
             (case wallet_internalize (internalize_inline tx args) v of
                (Inr True, v) \<Rightarrow> (Inr False, v)
              | (Inr False, v) \<Rightarrow>
                  (Inl (error_answer 400 ''ERR_INSUFFICIENT_PAYMENT'' ''Payment was not accepted by the server.''),
                   drop_spool env p rest v)
              | (Inl _, v) \<Rightarrow> (Inr True, v))))"

definition fee_unavailable :: "string \<Rightarrow> answer" where
  "fee_unavailable e =
     error_answer 503 ''ERR_PAYMENT_UNAVAILABLE''
       (''The delivery fee could not be recorded as owed; send the same request again: '' @ e)"

text \<open>A fee the wallet has said it cannot read is ended at once.\<close>

definition word_ends :: "paid \<Rightarrow> string \<Rightarrow> fee routed" where
  "word_ends p k v =
     (case ledger_wallet_word v of
        (Inr (Some (w, since)), v) \<Rightarrow>
          if pd_now p < since + WALLET_WORD_SECS then
            andThen (map_err fee_unavailable (ledger_end k
                (''not deferred: wallet-infra cannot read the relay's bucket ('' @ w @ '')'') v)) (\<lambda>_ v.
              (Inr Ended, v))
          else (Inr Deferred, v)
      | (_, v) \<Rightarrow> (Inr Deferred, v))"

definition defer_fee ::
  "pay_env \<Rightarrow> paid \<Rightarrow> carrier option \<Rightarrow> u64 \<Rightarrow> at_rest \<Rightarrow> json \<Rightarrow> (at_rest \<times> fee) routed" where
  "defer_fee env p c n rest args v =
     andThen (spool_rest env p c n rest v) (\<lambda>rest v.
       case rest of
         None \<Rightarrow> (Inl (error_answer 500 ''ERR_INTERNAL'' ''A deferred fee names no bytes at rest.''), v)
       | Some (k, st) \<Rightarrow>
           andThen (map_err fee_unavailable
               (ledger_defer \<lparr>df_key = k, df_etag = st_etag st, df_txid = or_empty (pd_txid p),
                  df_args = pe_text env args, df_named = pd_rows p, df_attempts = 0,
                  df_next_at = pd_now p\<rparr> v)) (\<lambda>_ v.
           andThen (word_ends p k v) (\<lambda>fee v. (Inr (rest, fee), v))))"

definition record_fee ::
  "pay_env \<Rightarrow> paid \<Rightarrow> carrier option \<Rightarrow> u64 \<Rightarrow> at_rest \<Rightarrow> (at_rest \<times> fee) routed" where
  "record_fee env p c n rest v =
     (case pd_server_output p of
        None \<Rightarrow> (Inr (rest, NotOwed), v)
      | Some server_output \<Rightarrow>
          (let args = fee_args server_output (pd_payment p)
           in andThen (fee_still_owed env p c n rest args v) (\<lambda>owed v.
                if owed then defer_fee env p c n rest args v else (Inr (rest, Internalized), v))))"

definition row_payment ::
  "paid \<Rightarrow> carrier option \<Rightarrow> hint option \<Rightarrow> string option \<Rightarrow> at_rest \<Rightarrow> json" where
  "row_payment p c said reader kept =
     (case kept of
        Some (k, st) \<Rightarrow>
          if pd_rows p then
            (let payment = payment_at_rest (pd_payment p) k st (paid_shape p c) (pd_txid p);
                 payment = (case said of
                    Some h \<Rightarrow> put_member ''announced''
                      (JObj [(''accepted'', JBool (h_accepted h)), (''word'', JStr (h_word h))]) payment
                  | None \<Rightarrow> payment)
             in case reader of Some r \<Rightarrow> put_member ''beefReader'' (JStr r) payment | None \<Rightarrow> payment)
          else JNull
      | None \<Rightarrow> JNull)"

definition hand_off_tail ::
  "pay_env \<Rightarrow> paid \<Rightarrow> carrier option \<Rightarrow> hint option \<Rightarrow> string option \<Rightarrow> bool \<Rightarrow> at_rest \<Rightarrow> fee \<Rightarrow>
     handed_off routed" where
  "hand_off_tail env p c said reader announce_owed rest fee v =
     (let keep = pd_rows p \<or> fee = Deferred \<or> announce_owed;
          v = (if keep then v else drop_spool env p rest v);
          kept = (if keep then rest else None)
      in (Inr \<lparr>ho_payment = row_payment p c said reader kept, ho_fee = fee,
               ho_kept = map_option fst kept, ho_hint = said\<rparr>, v))"

definition judged_hand_off :: "pay_env \<Rightarrow> paid \<Rightarrow> carrier option \<Rightarrow> at_rest \<Rightarrow> handed_off routed" where
  "judged_hand_off env p c rest v =
     (let n = paid_size c rest
      in andThen (if pd_rows p then spool_rest env p c n rest v else (Inr rest, v)) (\<lambda>rest v.
         let (reader, v) = row_reader env p rest v
         in andThen (announce_subject env p c n rest v) (\<lambda>(rest, said, announce_owed) v.
            andThen (record_fee env p c n rest v) (\<lambda>(rest, fee) v.
            hand_off_tail env p c said reader announce_owed rest fee v))))"

definition hand_off :: "pay_env \<Rightarrow> paid \<Rightarrow> handed_off routed" where
  "hand_off env p v =
     (case paid_carrier env p of
        Inl a \<Rightarrow> (Inl a, v)
      | Inr c \<Rightarrow>
          andThen (paid_rest env p v) (\<lambda>rest v.
            case payment_changed p rest of
              Some a \<Rightarrow> (Inl a, v)
            | None \<Rightarrow>
                if pd_server_output p = None \<and> pd_r2_key p = None \<and> c \<noteq> None then
                  (Inr \<lparr>ho_payment = (if pd_rows p then payment_in_row env (pd_payment p) else JNull),
                        ho_fee = NotOwed, ho_kept = None, ho_hint = None\<rparr>, v)
                else judged_hand_off env p c rest v))"

definition forget_unnamed ::
  "pay_env \<Rightarrow> nat \<Rightarrow> handed_off \<Rightarrow> string option \<Rightarrow> bool \<Rightarrow> vault \<Rightarrow> bool \<times> vault" where
  "forget_unnamed env rows_naming handed r2_key failed v =
     (if 0 < rows_naming \<or> ho_fee handed = Deferred then (False, v)
      else
        (case (case ho_kept handed of Some k \<Rightarrow> Some k | None \<Rightarrow> r2_key) of
           None \<Rightarrow> (False, v)
         | Some k \<Rightarrow>
             if failed \<and> Some k = r2_key then (False, v)
             else (case reclaim env k v of (Inr b, v) \<Rightarrow> (b, v) | (Inl _, v) \<Rightarrow> (False, v))))"

subsection \<open>The drain, the re-ask, the figure\<close>

datatype tried = Settled | PutOff string | Ends string

record drained =
  dr_settled :: nat
  dr_put_off :: nat
  dr_ended :: nat

definition try_fee :: "pay_env \<Rightarrow> deferred_fee \<Rightarrow> vault \<Rightarrow> tried \<times> vault" where
  "try_fee env fee v =
     (case blob_stamp env (df_key fee) v of
        (Inl e, v) \<Rightarrow> (PutOff e, v)
      | (Inr None, v) \<Rightarrow> (Ends ''the object is not in the store'', v)
      | (Inr (Some st), v) \<Rightarrow>
          if st_etag st \<noteq> df_etag fee then (Ends ''another upload is at the key'', v)
          else
            (case bucket_name env of
               None \<Rightarrow> (Ends ''the deployment names no bucket for the reference'', v)
             | Some bkt \<Rightarrow>
                 (case pe_parse env (df_args fee) of
                    None \<Rightarrow> (Ends ''the row's arguments do not parse'', v)
                  | Some args \<Rightarrow>
                      (case wallet_internalize (internalize_at_rest (beef_at_rest (df_key fee) st bkt) args) v of
                         (Inr True, v) \<Rightarrow> (Settled, v)
                       | (Inr False, v) \<Rightarrow> (PutOff ''wallet-infra did not accept the payment'', v)
                       | (Inl e, v) \<Rightarrow>
                           (if cannot_read_bucket e then Ends (''wallet-infra cannot read the relay's bucket: '' @ e)
                            else PutOff e, v)))))"

definition u32_saturating_succ :: "nat \<Rightarrow> nat" where
  "u32_saturating_succ n = min (2 ^ 32 - 1) (Suc n)"

definition settled_fee :: "pay_env \<Rightarrow> u64 \<Rightarrow> deferred_fee \<Rightarrow> drained \<Rightarrow> drained vaulted" where
  "settled_fee env now fee d v =
     andThen (ledger_settle (df_key fee) v) (\<lambda>_ v.
       let v = snd (reclaim env (df_key fee) v)
       in case ledger_wallet_word v of
            (Inr (Some _), v) \<Rightarrow>
              andThen (ledger_set_wallet_word None now v) (\<lambda>_ v.
                (Inr (d\<lparr>dr_settled := Suc (dr_settled d)\<rparr>), v))
          | (_, v) \<Rightarrow> (Inr (d\<lparr>dr_settled := Suc (dr_settled d)\<rparr>), v))"

definition put_off_fee :: "u64 \<Rightarrow> deferred_fee \<Rightarrow> string \<Rightarrow> drained \<Rightarrow> drained vaulted" where
  "put_off_fee now fee why d v =
     (let attempts = u32_saturating_succ (df_attempts fee)
      in if FEE_ATTEMPTS_CEILING \<le> attempts then
           andThen (ledger_end (df_key fee)
               (''not recorded after '' @ nat_text attempts @ '' attempts: '' @ why) v) (\<lambda>_ v.
             (Inr (d\<lparr>dr_ended := Suc (dr_ended d)\<rparr>), v))
         else
           andThen (ledger_put_off (df_key fee) attempts (now + backoff_secs attempts) why v) (\<lambda>_ v.
             (Inr (d\<lparr>dr_put_off := Suc (dr_put_off d)\<rparr>), v)))"

definition ended_fee :: "u64 \<Rightarrow> deferred_fee \<Rightarrow> string \<Rightarrow> drained \<Rightarrow> drained vaulted" where
  "ended_fee now fee why d v =
     andThen (if cannot_read_bucket why then ledger_set_wallet_word (Some why) now v else (Inr (), v)) (\<lambda>_ v.
     andThen (ledger_end (df_key fee) why v) (\<lambda>_ v.
       (Inr (d\<lparr>dr_ended := Suc (dr_ended d)\<rparr>), v)))"

definition drain_one :: "pay_env \<Rightarrow> u64 \<Rightarrow> deferred_fee \<Rightarrow> drained \<Rightarrow> drained vaulted" where
  "drain_one env now fee d v =
     (case try_fee env fee v of
        (Settled, v) \<Rightarrow> settled_fee env now fee d v
      | (PutOff why, v) \<Rightarrow> put_off_fee now fee why d v
      | (Ends why, v) \<Rightarrow> ended_fee now fee why d v)"

primrec drain_loop :: "pay_env \<Rightarrow> u64 \<Rightarrow> deferred_fee list \<Rightarrow> drained \<Rightarrow> drained vaulted" where
  "drain_loop env now [] d v = (Inr d, v)"
| "drain_loop env now (fee # fees) d v =
     andThen (drain_one env now fee d v) (\<lambda>d v. drain_loop env now fees d v)"

definition drain_fees :: "pay_env \<Rightarrow> u64 \<Rightarrow> nat \<Rightarrow> drained vaulted" where
  "drain_fees env now limit v =
     andThen (ledger_due now limit v) (\<lambda>fees v.
       drain_loop env now fees \<lparr>dr_settled = 0, dr_put_off = 0, dr_ended = 0\<rparr> v)"

definition health_figure :: "json vaulted" where
  "health_figure v =
     andThen (ledger_figure v) (\<lambda>f v.
       let fees = [(''owed'', JInt (int (ff_owed f))), (''ended'', JInt (int (ff_ended f)))];
           fees = (case ff_last_ended f of Some why \<Rightarrow> put_pair ''lastEnded'' (JStr why) fees | None \<Rightarrow> fees)
       in andThen (ledger_wallet_word v) (\<lambda>w v.
            (Inr (JObj (case w of
               Some (said, since) \<Rightarrow>
                 put_pair ''walletInfra'' (JObj [(''readsTheBucket'', JBool False), (''word'', JStr said),
                    (''since'', JInt (int since))]) fees
             | None \<Rightarrow> fees)), v)))"

record reasked =
  ra_accepted :: nat
  ra_put_off :: nat

text \<open>The word on one owed announcement; \<open>None\<close> is the broadcaster's acceptance.\<close>

definition reask_word :: "pay_env \<Rightarrow> owed_announce \<Rightarrow> vault \<Rightarrow> string option \<times> vault" where
  "reask_word env owed v =
     (case blob_stamp env (oa_key owed) v of
        (Inr (Some st), v) \<Rightarrow>
          if st_etag st = oa_etag owed then
            (case announce v of
               (Inr h, v) \<Rightarrow> (if h_accepted h then None else Some (h_word h), v)
             | (Inl e, v) \<Rightarrow> (Some (''no answer: '' @ e), v))
          else (Some ''another upload is at the key'', v)
      | (Inr None, v) \<Rightarrow> (Some ''the object is not in the store'', v)
      | (Inl e, v) \<Rightarrow> (Some e, v))"

primrec reask_loop :: "pay_env \<Rightarrow> u64 \<Rightarrow> owed_announce list \<Rightarrow> reasked \<Rightarrow> reasked vaulted" where
  "reask_loop env now [] d v = (Inr d, v)"
| "reask_loop env now (owed # os) d v =
     (case reask_word env owed v of
        (None, v) \<Rightarrow>
          andThen (ledger_announced (oa_key owed) v) (\<lambda>_ v.
            let v = snd (reclaim env (oa_key owed) v)
            in reask_loop env now os (d\<lparr>ra_accepted := Suc (ra_accepted d)\<rparr>) v)
      | (Some w, v) \<Rightarrow>
          (let attempts = u32_saturating_succ (oa_attempts owed)
           in andThen (ledger_put_off_announce (oa_key owed) attempts (now + backoff_secs attempts) w v) (\<lambda>_ v.
                reask_loop env now os (d\<lparr>ra_put_off := Suc (ra_put_off d)\<rparr>) v)))"

definition reask_announces :: "pay_env \<Rightarrow> u64 \<Rightarrow> nat \<Rightarrow> reasked vaulted" where
  "reask_announces env now limit v =
     (if \<not> pe_arc env then (Inr \<lparr>ra_accepted = 0, ra_put_off = 0\<rparr>, v)
      else andThen (ledger_due_announces now limit v) (\<lambda>os v.
        reask_loop env now os \<lparr>ra_accepted = 0, ra_put_off = 0\<rparr> v))"

end
