(* ===== verification/Payments.thy ===== *)
theory Payments
  imports Handoff
begin

section \<open>The payment of a send\<close>

text \<open>
  \<open>src/src/payments.rs\<close>: the delivery fee a send owes, the remittance it must name, the door's word
  on it, the routing of the payment's outputs to the recipients who charge, and \<open>process_payment\<close>
  around the door and the hand-off; the cron's drain; and the mint of an upload key
  (\<open>src/src/beef_upload.rs\<close>).
\<close>

subsection \<open>The door's words as answers\<close>

record judged =
  jg_satoshis :: u64
  jg_txid :: string
  jg_stamp :: "stamp option"

fun door_error_answer :: "door_error \<Rightarrow> answer" where
  "door_error_answer (DoorSource e) =
     error_answer 503 ''ERR_PAYMENT_UNAVAILABLE'' (''The payment's BEEF could not be read: '' @ e)"
| "door_error_answer (DoorInternal e) = error_answer 500 ''ERR_INTERNAL'' e"

definition output_invalid :: "door \<Rightarrow> payment_verdict \<Rightarrow> answer" where
  "output_invalid d w =
     error_answer 400 ''ERR_INVALID_PAYMENT'' (''The server delivery output is invalid: '' @ dr_words d w)"

fun delivery_answer :: "door \<Rightarrow> payment_verdict \<Rightarrow> answer + u64" where
  "delivery_answer d (Verified satoshis) = Inr satoshis"
| "delivery_answer d (Underpaid _ _) =
     Inl (error_answer 400 ''ERR_INSUFFICIENT_PAYMENT''
       ''The server delivery output does not pay the required amount.'')"
| "delivery_answer d (WrongScript i) = Inl (output_invalid d (WrongScript i))"
| "delivery_answer d (RootMismatch h r) = Inl (output_invalid d (RootMismatch h r))"
| "delivery_answer d NoHeaderService =
     Inl (error_answer 500 ''ERR_SERVER_MISCONFIGURED'' (dr_words d NoHeaderService))"
| "delivery_answer d (Unverifiable (SpendRefused offset txid input (Resource Work limit spent attempted))) =
     Inl (JObj [(''status'', JStr ''error''), (''code'', JStr ''ERR_PAYMENT_WORK''),
       (''description'', JStr ''The local evaluator declined this input at its work budget; payment validity is undetermined.''),
       (''resource'', JStr ''Work''), (''offset'', JInt (int offset)), (''txid'', JStr txid),
       (''input'', JInt (int input)), (''budget'', JInt (int limit)), (''workSpent'', JInt (int spent)),
       (''attempted'', JInt (int attempted))], 422)"
| "delivery_answer d (Unverifiable reason) =
     (if dr_server_side d reason
      then Inl (error_answer 503 ''ERR_PAYMENT_UNAVAILABLE'' (dr_words d (Unverifiable reason)))
      else Inl (output_invalid d (Unverifiable reason)))"

definition door_answer :: "door \<Rightarrow> door_verdict \<Rightarrow> answer + u64" where
  "door_answer d v =
     (case delivery_answer d (dv_word v) of
        Inr satoshis \<Rightarrow> Inr satoshis
      | Inl (body, status) \<Rightarrow>
          Inl (case dv_named v of
             None \<Rightarrow> body
           | Some (offset, kind) \<Rightarrow>
               put_member ''kind'' (JStr kind)
                 (put_member ''offset'' (JInt (int offset))
                   (put_member ''description''
                     (JStr (or_empty (Option.bind (get_member ''description'' body) as_str) @ '' ('' @ kind @
                        '' at offset '' @ nat_text offset @ '')'')) body)), status))"

definition door_judged :: "door \<Rightarrow> door_verdict \<Rightarrow> answer + judged" where
  "door_judged d v =
     (case door_answer d v of
        Inl a \<Rightarrow> Inl a
      | Inr satoshis \<Rightarrow>
          (case dv_subject v of
             None \<Rightarrow> Inl (error_answer 500 ''ERR_INTERNAL'' ''The door verified a payment and named no subject.'')
           | Some txid \<Rightarrow> Inr \<lparr>jg_satoshis = satoshis, jg_txid = dr_display d txid, jg_stamp = None\<rparr>))"

definition pending_text :: "pending \<Rightarrow> string" where
  "pending_text p =
     (if 0 < pn_roots p then
        ''The payment's BEEF is read ('' @ nat_text (pn_elements p) @ '' elements, '' @ nat_text (pn_size p) @
        '' bytes); '' @ nat_text (pn_roots_asked p) @ '' of its '' @ nat_text (pn_roots p) @
        '' merkle roots are checked. Send the same request again to continue.''
      else
        (case pn_input p of
           Some i \<Rightarrow>
             ''The payment's BEEF is being verified ('' @ phase_name (pn_phase p) @ ''): '' @
             nat_text (pn_elements p) @ '' elements read, and the scripts of the next, at byte '' @
             nat_text (pn_offset p) @ '' of '' @ nat_text (pn_size p) @ '', run to its input '' @ nat_text i @
             ''. Send the same request again to continue from that input.''
         | None \<Rightarrow>
             ''The payment's BEEF is being verified ('' @ phase_name (pn_phase p) @ ''): '' @
             nat_text (pn_elements p) @ '' elements and '' @ nat_text (pn_offset p) @ '' of '' @
             nat_text (pn_size p) @ '' bytes read. Send the same request again to continue.''))"

definition pending_answer :: "pending \<Rightarrow> answer" where
  "pending_answer p =
     (JObj [(''status'', JStr ''error''), (''code'', JStr ''ERR_PAYMENT_PENDING''),
        (''description'', JStr (pending_text p)), (''phase'', JStr (phase_name (pn_phase p))),
        (''elements'', JInt (int (pn_elements p))),
        (''input'', case pn_input p of Some i \<Rightarrow> JInt (int i) | None \<Rightarrow> JNull),
        (''offset'', JInt (int (pn_offset p))), (''size'', JInt (int (pn_size p))),
        (''rootsChecked'', JInt (int (pn_roots_asked p))), (''roots'', JInt (int (pn_roots p)))], 503)"

subsection \<open>The fee, the remittance\<close>

definition invalid :: "string \<Rightarrow> answer" where
  "invalid d = error_answer 400 ''ERR_INVALID_PAYMENT'' d"

definition delivery_fee_due :: "int \<Rightarrow> nat \<Rightarrow> answer + u64" where
  "delivery_fee_due delivery_fee recipients =
     (if 0 \<le> delivery_fee \<and> 0 < recipients \<and> nat delivery_fee * recipients < 2 ^ 64
      then Inr (nat delivery_fee * recipients)
      else Inl (error_answer 500 ''ERR_INTERNAL'' ''Invalid aggregate delivery fee.''))"

definition str_in :: "string \<Rightarrow> json \<Rightarrow> string option" where
  "str_in k j = Option.bind (get_member k j) as_str"

definition u64_in :: "string \<Rightarrow> json \<Rightarrow> u64 option" where
  "u64_in k j = Option.bind (get_member k j) as_u64"

definition delivery_remittance :: "json \<Rightarrow> string \<Rightarrow> answer + nat \<times> string \<times> string" where
  "delivery_remittance server_output sender_key =
     (if str_in ''protocol'' server_output \<noteq> Some ''wallet payment'' then
        Inl (invalid ''The server delivery output must be a wallet payment.'')
      else
        (case u64_in ''outputIndex'' server_output of
           None \<Rightarrow> Inl (invalid ''The server delivery output index is invalid.'')
         | Some i \<Rightarrow>
             if 2 ^ 32 \<le> i then Inl (invalid ''The server delivery output index is invalid.'')
             else
               (let remittance = (\<lambda>k. Option.bind (get_member ''paymentRemittance'' server_output) (str_in k))
                in case (remittance ''derivationPrefix'', remittance ''derivationSuffix'',
                         remittance ''senderIdentityKey'') of
                     (Some pre, Some suf, Some sender) \<Rightarrow>
                       if sender \<noteq> sender_key then
                         Inl (invalid ''The delivery payment remittance is invalid for the authenticated sender.'')
                       else Inr (i, pre, suf)
                   | _ \<Rightarrow> Inl (invalid ''The delivery payment remittance is incomplete.''))))"

definition delivery_terms :: "door \<Rightarrow> json \<Rightarrow> u64 \<Rightarrow> string \<Rightarrow> answer + terms" where
  "delivery_terms d server_output due sender_key =
     (case delivery_remittance server_output sender_key of
        Inl a \<Rightarrow> Inl a
      | Inr (i, pre, suf) \<Rightarrow>
          (case dr_script d pre suf sender_key of
             Inl e \<Rightarrow> Inl (invalid (''The delivery payment remittance is invalid: '' @ e))
           | Inr script \<Rightarrow> Inr \<lparr>tm_output_index = i, tm_script = script, tm_satoshis = due\<rparr>))"

subsection \<open>The outputs to the recipients who charge\<close>

definition custom_instructions :: "json \<Rightarrow> json option" where
  "custom_instructions out =
     (case Option.bind (get_member ''insertionRemittance'' out) (get_member ''customInstructions'') of
        Some j \<Rightarrow> Some j
      | None \<Rightarrow>
          (case Option.bind (get_member ''paymentRemittance'' out) (get_member ''customInstructions'') of
             Some j \<Rightarrow> Some j
           | None \<Rightarrow> get_member ''customInstructions'' out))"

definition tagged_for :: "pay_env \<Rightarrow> json \<Rightarrow> string option" where
  "tagged_for env out =
     (let k = (case custom_instructions out of
           Some (JStr s) \<Rightarrow> Option.bind (pe_parse env s) (str_in ''recipientIdentityKey'')
         | Some (JObj ms) \<Rightarrow> str_in ''recipientIdentityKey'' (JObj ms)
         | _ \<Rightarrow> None)
      in case k of Some k \<Rightarrow> if trim k = [] then None else Some k | None \<Rightarrow> None)"

text \<open>
  The hash maps are association lists: \<open>by_key\<close> is the outputs in order, filtered by their tag;
  \<open>result\<close> gains an entry per \<open>insert\<close>, the latest first, so \<open>map_of\<close> reads it as the map does.
\<close>

definition tagged_outputs :: "pay_env \<Rightarrow> string \<Rightarrow> json list \<Rightarrow> json list" where
  "tagged_outputs env r outputs = filter (\<lambda>out. tagged_for env out = Some r) outputs"

definition used_indices :: "pay_env \<Rightarrow> json list \<Rightarrow> u64 list" where
  "used_indices env outputs =
     List.map_filter (\<lambda>out. if tagged_for env out = None then None else u64_in ''outputIndex'' out) outputs"

definition remaining_outputs :: "pay_env \<Rightarrow> json list \<Rightarrow> json list" where
  "remaining_outputs env outputs =
     filter (\<lambda>out. case u64_in ''outputIndex'' out of
        Some i \<Rightarrow> i \<notin> set (used_indices env outputs) | None \<Rightarrow> True) outputs"

definition assign_in_order :: "string list \<Rightarrow> json list \<Rightarrow> (string \<times> json) list \<Rightarrow> (string \<times> json) list" where
  "assign_in_order rs outs result = rev (map (\<lambda>(r, out). (r, JArr [out])) (zip rs outs)) @ result"

definition insufficient :: "string \<Rightarrow> answer" where
  "insufficient d = error_answer 400 ''ERR_INSUFFICIENT_OUTPUTS'' d"

definition route_outputs_to_recipients ::
  "pay_env \<Rightarrow> json list \<Rightarrow> string list \<Rightarrow> answer + (string \<times> json) list" where
  "route_outputs_to_recipients env outputs fee_recipients =
     (if list_all (\<lambda>out. tagged_for env out = None) outputs then
        (if length outputs < length fee_recipients then
           Inl (insufficient (''Expected at least '' @ nat_text (length fee_recipients) @
             '' recipient output(s) but received '' @ nat_text (length outputs)))
         else Inr (assign_in_order fee_recipients outputs []))
      else
        (let result = rev (List.map_filter (\<lambda>r.
               case tagged_outputs env r outputs of [] \<Rightarrow> None | ts \<Rightarrow> Some (r, JArr ts)) fee_recipients);
             unmapped = filter (\<lambda>r. map_of result r = None) fee_recipients;
             remaining = remaining_outputs env outputs
         in if unmapped \<noteq> [] \<and> length remaining < length unmapped then
              Inl (insufficient (''Expected at least '' @ nat_text (length unmapped) @
                '' additional recipient output(s) but only '' @ nat_text (length remaining) @ '' remain''))
            else
              (let result = assign_in_order unmapped remaining result
               in case find (\<lambda>r. map_of result r = None) fee_recipients of
                    Some r \<Rightarrow>
                      Inl (error_answer 400 ''ERR_MISSING_RECIPIENT_OUTPUTS''
                        (''Recipient fee required but no outputs were provided for '' @ r))
                  | None \<Rightarrow> Inr result)))"

subsection \<open>The payment at the door\<close>

definition judge_delivery_at_rest :: "pay_env \<Rightarrow> door \<Rightarrow> string \<Rightarrow> json \<Rightarrow> u64 \<Rightarrow> string \<Rightarrow> judged routed" where
  "judge_delivery_at_rest env d k server_output due sender_key v =
     (case delivery_terms d server_output due sender_key of
        Inl a \<Rightarrow> (Inl a, v)
      | Inr t \<Rightarrow>
          andThen (map_err door_error_answer (verify_at_rest_stamped env d k t v)) (\<lambda>(answered, st) v.
            case answered of
              AtRestDone verdict \<Rightarrow>
                (case door_judged d verdict of
                   Inl a \<Rightarrow> (Inl a, v)
                 | Inr j \<Rightarrow> (Inr (j\<lparr>jg_stamp := st\<rparr>), v))
            | AtRestPending p \<Rightarrow> (Inl (pending_answer p), v)
            | AtRestNotFound \<Rightarrow>
                (Inl (error_answer 400 ''ERR_BEEF_KEY_NOT_FOUND'' ''Could not fetch BEEF from R2: R2 object not found''), v)))"

definition no_beef :: answer where
  "no_beef = invalid ''Payment must contain a valid Atomic BEEF.''"

text \<open>
  The inline payment read in the request, where no bucket is bound, and the spool of one that
  pays: its structure and its output are read first, its key minted before it is written.
\<close>

definition delivery_reading ::
  "pay_env \<Rightarrow> door \<Rightarrow> json \<Rightarrow> json \<Rightarrow> u64 \<Rightarrow> string \<Rightarrow> u64 \<Rightarrow> answer + door_verdict" where
  "delivery_reading env d tx server_output due sender_key now =
     (case delivery_remittance server_output sender_key of
        Inl a \<Rightarrow> Inl a
      | Inr _ \<Rightarrow>
          (case carrier_of env tx of
             None \<Rightarrow> Inl no_beef
           | Some c \<Rightarrow>
               (case delivery_terms d server_output due sender_key of
                  Inl a \<Rightarrow> Inl a
                | Inr t \<Rightarrow>
                    (case verify_inline env d c t now of Inl e \<Rightarrow> Inl (door_error_answer e) | Inr w \<Rightarrow> Inr w))))"

definition judge_delivery_output ::
  "pay_env \<Rightarrow> door \<Rightarrow> json \<Rightarrow> json \<Rightarrow> u64 \<Rightarrow> string \<Rightarrow> u64 \<Rightarrow> answer + judged" where
  "judge_delivery_output env d tx server_output due sender_key now =
     (case delivery_reading env d tx server_output due sender_key now of
        Inl a \<Rightarrow> Inl a
      | Inr w \<Rightarrow> door_judged d w)"

definition inline_paying :: "pay_env \<Rightarrow> door \<Rightarrow> json \<Rightarrow> json \<Rightarrow> u64 \<Rightarrow> string \<Rightarrow> answer + carrier" where
  "inline_paying env d tx server_output due sender_key =
     (case delivery_remittance server_output sender_key of
        Inl a \<Rightarrow> Inl a
      | Inr _ \<Rightarrow>
          (case carrier_of env tx of
             None \<Rightarrow> Inl no_beef
           | Some c \<Rightarrow>
               (case (dr_header_base d, delivery_answer d NoHeaderService) of
                  (None, Inl a) \<Rightarrow> Inl a
                | _ \<Rightarrow>
                    (case delivery_terms d server_output due sender_key of
                       Inl a \<Rightarrow> Inl a
                     | Inr t \<Rightarrow>
                         (case judge_output_inline env d c t of
                            Inl e \<Rightarrow> Inl (door_error_answer e)
                          | Inr (Some refused) \<Rightarrow>
                              (case door_answer d refused of Inl a \<Rightarrow> Inl a | Inr _ \<Rightarrow> Inr c)
                          | Inr None \<Rightarrow> Inr c)))))"

definition spool_inline :: "pay_env \<Rightarrow> door \<Rightarrow> carrier \<Rightarrow> string \<Rightarrow> string \<Rightarrow> u64 \<Rightarrow> string routed" where
  "spool_inline env d c sender_key reader now v =
     (let k = inline_spool_key env d sender_key c
      in andThen (map_err store_unavailable (blob_stamp env k v)) (\<lambda>st v.
           if (case st of None \<Rightarrow> True | Some st \<Rightarrow> st_size st \<noteq> carrier_len c) then
             andThen (map_err store_unavailable (rows_mint k (now + MINTED_MARGIN_SECS) v)) (\<lambda>_ v.
             andThen (map_err store_unavailable
                 (blob_spool env k (carrier_stream env c 0) (carrier_len c) reader v)) (\<lambda>_ v.
             (Inr k, v)))
           else (Inr k, v)))"

definition judge_delivery_inline_at_rest ::
  "pay_env \<Rightarrow> door \<Rightarrow> json \<Rightarrow> json \<Rightarrow> u64 \<Rightarrow> string \<Rightarrow> string \<Rightarrow> u64 \<Rightarrow> vault \<Rightarrow>
     ((answer + judged) \<times> string option) \<times> vault" where
  "judge_delivery_inline_at_rest env d tx server_output due sender_key reader now v =
     (case inline_paying env d tx server_output due sender_key of
        Inl a \<Rightarrow> ((Inl a, None), v)
      | Inr c \<Rightarrow>
          (case spool_inline env d c sender_key reader now v of
             (Inl a, v) \<Rightarrow> ((Inl a, None), v)
           | (Inr k, v) \<Rightarrow>
               (let (r, v) = judge_delivery_at_rest env d k server_output due sender_key v
                in ((r, Some k), v))))"

definition is_pending :: "answer \<Rightarrow> bool" where
  "is_pending a = (answer_code a = Some ''ERR_PAYMENT_PENDING'')"

definition forget_spool :: "pay_env \<Rightarrow> string \<Rightarrow> vault \<Rightarrow> vault" where
  "forget_spool env k v =
     (case re_d1_unbound (pe_relay env) of Some _ \<Rightarrow> v | None \<Rightarrow> snd (reclaim env k v))"

definition LIST_INLINE_OBJECT_BYTES :: u64 where
  "LIST_INLINE_OBJECT_BYTES = 2000000"

definition check_unjudged :: "pay_env \<Rightarrow> door \<Rightarrow> json \<Rightarrow> answer option" where
  "check_unjudged env d payment =
     (case Option.bind (get_member ''tx'' payment) (carrier_of env) of
        None \<Rightarrow> Some no_beef
      | Some c \<Rightarrow>
          (let text = encoded_len (carrier_len c) (shape_sent payment c)
           in if LIST_INLINE_OBJECT_BYTES < text then
                Some (error_answer 413 ''ERR_BODY_TOO_LARGE''
                  (''A payment this box does not judge (it owes no delivery fee) is kept in its row, and a row holds '' @
                   nat_text LIST_INLINE_OBJECT_BYTES @ '' bytes; this one is '' @ nat_text text @
                   '' bytes as sent. Upload it (/beef/upload-url) or send it to a box that judges it.''))
              else
                (case structure_inline env d c of
                   Inl e \<Rightarrow> Some (door_error_answer e)
                 | Inr None \<Rightarrow> None
                 | Inr (Some refused) \<Rightarrow>
                     (case door_answer d refused of Inl a \<Rightarrow> Some a | Inr _ \<Rightarrow> None))))"

subsection \<open>\<open>process_payment\<close>\<close>

record settled =
  se_outputs :: "(string \<times> json) list"
  se_handed :: handed_off

definition missing_tx :: answer where
  "missing_tx = error_answer 400 ''ERR_MISSING_PAYMENT_TX''
     ''Payment transaction data is required for payable delivery.''"

text \<open>The delivery output judged, and where the relay spooled an inline payment.\<close>

definition judge_delivery ::
  "pay_env \<Rightarrow> door \<Rightarrow> json \<Rightarrow> string option \<Rightarrow> json \<Rightarrow> u64 \<Rightarrow> string \<Rightarrow> string \<Rightarrow>
     (judged \<times> string option) routed" where
  "judge_delivery env d payment r2_key server_output due sender_key reader v =
     (case r2_key of
        Some k \<Rightarrow>
          andThen (judge_delivery_at_rest env d k server_output due sender_key v) (\<lambda>j v. (Inr (j, None), v))
      | None \<Rightarrow>
          (case get_member ''tx'' payment of
             None \<Rightarrow> (Inl missing_tx, v)
           | Some tx \<Rightarrow>
               if bound_bucket env then
                 (case re_d1_unbound (pe_relay env) of
                    Some e \<Rightarrow> (Inl (error_answer 503 ''ERR_D1_UNAVAILABLE'' (''D1 binding: '' @ e)), v)
                  | None \<Rightarrow>
                      (case judge_delivery_inline_at_rest env d tx server_output due sender_key reader (v_now v) v of
                         ((Inr j, k), v) \<Rightarrow> (Inr (j, k), v)
                       | ((Inl a, Some k), v) \<Rightarrow>
                           (Inl a, if is_pending a then v else forget_spool env k v)
                       | ((Inl a, None), v) \<Rightarrow> (Inl a, v)))
               else
                 (case judge_delivery_output env d tx server_output due sender_key (v_now v) of
                    Inl a \<Rightarrow> (Inl a, v)
                  | Inr j \<Rightarrow> (Inr (j, None), v))))"

definition server_fee_judged ::
  "pay_env \<Rightarrow> door \<Rightarrow> json \<Rightarrow> string option \<Rightarrow> json list \<Rightarrow> int \<Rightarrow> nat \<Rightarrow> string \<Rightarrow> string \<Rightarrow>
     ((json \<times> judged) option \<times> string option) routed" where
  "server_fee_judged env d payment r2_key outputs delivery_fee recipients sender_key reader v =
     (if 0 < delivery_fee then
        (case outputs of
           [] \<Rightarrow> (Inl (error_answer 400 ''ERR_MISSING_DELIVERY_OUTPUT''
                      ''Delivery fee required but no outputs were provided.''), v)
         | server_output # _ \<Rightarrow>
             (case delivery_fee_due delivery_fee recipients of
                Inl a \<Rightarrow> (Inl a, v)
              | Inr due \<Rightarrow>
                  andThen (judge_delivery env d payment r2_key server_output due sender_key reader v) (\<lambda>(j, k) v.
                    (Inr (Some (server_output, j), k), v))))
      else (Inr (None, None), v))"

definition route_fees ::
  "pay_env \<Rightarrow> json list \<Rightarrow> (string \<times> string \<times> int) list \<Rightarrow> int \<Rightarrow> answer + (string \<times> json) list" where
  "route_fees env outputs fee_map delivery_fee =
     (let fee_recipients = map fst (filter (\<lambda>(_, _, f). 0 < f) fee_map)
      in if fee_recipients = [] then Inr []
         else route_outputs_to_recipients env (if 0 < delivery_fee then tl outputs else outputs) fee_recipients)"

definition build_upload_key :: "string \<Rightarrow> string \<Rightarrow> string" where
  "build_upload_key identity_key uuid = identity_key @ ''/'' @ uuid @ ''.beef''"

definition paid_of ::
  "door \<Rightarrow> json \<Rightarrow> string option \<Rightarrow> (json \<times> judged) option \<Rightarrow> string option \<Rightarrow> string \<Rightarrow> string \<Rightarrow>
     bool \<Rightarrow> vault \<Rightarrow> paid" where
  "paid_of d payment r2_key j spooled sender_key reader rows v =
     \<lparr>pd_payment = payment, pd_r2_key = r2_key, pd_spooled = spooled,
      pd_spool_key = build_upload_key sender_key (dr_uuid d v),
      pd_server_output = map_option fst j, pd_stamp = Option.bind j (\<lambda>(_, j). jg_stamp j),
      pd_txid = map_option (\<lambda>(_, j). jg_txid j) j, pd_rows = rows, pd_reader = reader, pd_now = v_now v\<rparr>"

definition process_payment ::
  "pay_env \<Rightarrow> door \<Rightarrow> json \<Rightarrow> string option \<Rightarrow> (string \<times> string \<times> int) list \<Rightarrow> int \<Rightarrow> string \<Rightarrow> settled routed" where
  "process_payment env d payment r2_key fee_map delivery_fee sender_key v =
     (if r2_key = None \<and> get_member ''tx'' payment = None then (Inl missing_tx, v)
      else
        (case Option.bind (get_member ''outputs'' payment) as_array of
           None \<Rightarrow> (Inl missing_tx, v)
         | Some outputs \<Rightarrow>
             (case dr_server_key d of
                Inl e \<Rightarrow> (Inl (error_answer 500 ''ERR_INTERNAL'' e), v)
              | Inr reader \<Rightarrow>
                  andThen (server_fee_judged env d payment r2_key outputs delivery_fee (length fee_map)
                             sender_key reader v) (\<lambda>(j, spooled) v.
                  case (if j = None \<and> r2_key = None \<and> get_member ''tx'' payment \<noteq> None
                        then check_unjudged env d payment else None) of
                    Some a \<Rightarrow> (Inl a, v)
                  | None \<Rightarrow>
                      (case route_fees env outputs fee_map delivery_fee of
                         Inl a \<Rightarrow> (Inl a, v)
                       | Inr routes \<Rightarrow>
                           (case re_d1_unbound (pe_relay env) of
                              Some e \<Rightarrow> (Inl (error_answer 503 ''ERR_D1_UNAVAILABLE'' (''D1 binding: '' @ e)), v)
                            | None \<Rightarrow>
                                andThen (hand_off env (paid_of d payment r2_key j spooled sender_key reader
                                     (list_ex (\<lambda>(_, _, f). 0 < f) fee_map) v) v) (\<lambda>handed v.
                                  (Inr \<lparr>se_outputs = routes, se_handed = handed\<rparr>, v))))))))"

subsection \<open>After a send, the cron, the upload key\<close>

definition forget_after_send ::
  "pay_env \<Rightarrow> nat \<Rightarrow> handed_off option \<Rightarrow> string option \<Rightarrow> bool \<Rightarrow> vault \<Rightarrow> vault" where
  "forget_after_send env rows_naming handed r2_key failed v =
     (case (handed, re_d1_unbound (pe_relay env)) of
        (Some h, None) \<Rightarrow>
          (let v = (case (failed, ho_kept h) of (False, Some k) \<Rightarrow> snd (orphaned env k v) | _ \<Rightarrow> v)
           in snd (forget_unnamed env rows_naming h r2_key failed v))
      | _ \<Rightarrow> v)"

definition run_fee_drain :: "pay_env \<Rightarrow> vault \<Rightarrow> vault" where
  "run_fee_drain env v =
     (case re_d1_unbound (pe_relay env) of
        Some _ \<Rightarrow> v
      | None \<Rightarrow>
          (let now = v_now v;
               v = snd (reask_announces env now DRAIN_BATCH v);
               v = snd (drain_fees env now DRAIN_BATCH v);
               v = snd (reclaim_minted env now RECLAIM_BATCH v)
           in snd (reclaim_released env RECLAIM_BATCH v)))"

definition key_is_owned_by :: "string \<Rightarrow> string \<Rightarrow> bool" where
  "key_is_owned_by identity_key k \<longleftrightarrow>
     (let p = identity_key @ ''/'' in starts_with p k \<and> length p < length k)"

definition decide_r2_fetch :: "json \<Rightarrow> string \<Rightarrow> answer + string option" where
  "decide_r2_fetch payment identity_key =
     (case str_in ''beefR2Key'' payment of
        None \<Rightarrow> Inr None
      | Some k \<Rightarrow>
          if k = [] then Inr None
          else if \<not> key_is_owned_by identity_key k then
            Inl (error_answer 403 ''ERR_BEEF_KEY_FORBIDDEN'' ''beefR2Key does not belong to the caller.'')
          else Inr (Some k))"

end
