(* ===== verification/Send_Route.thy ===== *)
theory Send_Route
  imports Payments
begin

section \<open>The send\<close>

text \<open>
  \<open>src/src/routes/send_message.rs\<close>: the write path both transports share. \<open>store_rows\<close> runs over any
  store of the trait \<open>SendStore\<close>, the record \<open>send_store\<close> here, with its two implementations: D1
  (\<open>WorkerStore\<close>) and the recipients' hubs (\<open>MailboxSendStore\<close>, \<open>src/src/message_hub_sql.rs\<close>).
  Clock readings that only reach the log are left out. What the stored rows still owe (the pushes
  to the recipients' hubs, the notifications) is the value \<open>after_answer\<close>; running it is the
  caller's.
\<close>

subsection \<open>Outcomes\<close>

datatype send_outcome =
    Success "(string \<times> string) list"
  | ValidationError json http_status
  | BlockedRecipients "string list"
  | PaymentFailed json http_status
  | DuplicateMessage string string
  | InternalError string
  | TransientError string

record hub_push =
  hp_recipient :: string
  hp_message_box :: string
  hp_sender :: string
  hp_message_id :: string
  hp_body :: json

record after_answer =
  aa_pushes :: "hub_push list"
  aa_fcm :: "(string \<times> string) list"

definition nothing_owed :: after_answer where
  "nothing_owed = \<lparr>aa_pushes = [], aa_fcm = []\<rparr>"

definition classify_store_error :: "d1_error \<Rightarrow> send_outcome" where
  "classify_store_error e =
     (if is_transient_d1_error e then TransientError (error_text e) else InternalError (error_text e))"

fun outcome_to_http :: "send_outcome \<Rightarrow> answer" where
  "outcome_to_http (Success results) =
     (JObj [(''status'', JStr ''success''),
            (''message'', JStr (''Your message has been sent to '' @ nat_text (length results) @ '' recipient(s).'')),
            (''results'', JArr (map (\<lambda>(r, m). JObj [(''recipient'', JStr r), (''messageId'', JStr m)]) results))],
      200)"
| "outcome_to_http (ValidationError body status) = (body, status)"
| "outcome_to_http (BlockedRecipients list) =
     (JObj [(''status'', JStr ''error''), (''code'', JStr ''ERR_DELIVERY_BLOCKED''),
            (''description'', JStr (''Blocked recipients: '' @ join '', '' list)),
            (''blockedRecipients'', JArr (map JStr list))], 403)"
| "outcome_to_http (PaymentFailed body status) = (body, status)"
| "outcome_to_http (DuplicateMessage _ _) = error_answer 400 ''ERR_DUPLICATE_MESSAGE'' ''Duplicate message.''"
| "outcome_to_http (InternalError detail) =
     error_answer 500 ''ERR_INTERNAL'' (''An internal error has occurred: '' @ detail)"
| "outcome_to_http (TransientError detail) =
     error_answer 503 ''ERR_D1_UNAVAILABLE''
       (''The relay is momentarily unavailable; please retry: '' @ detail)"

definition transient_store_answer :: "d1_error \<Rightarrow> answer option" where
  "transient_store_answer e =
     (case classify_store_error e of TransientError d \<Rightarrow> Some (outcome_to_http (TransientError d)) | _ \<Rightarrow> None)"

definition retry_after :: "answer \<Rightarrow> string option" where
  "retry_after a =
     (if snd a = 503 \<and> get_member ''code'' (fst a) = Some (JStr ''ERR_D1_UNAVAILABLE'')
      then Some ''1'' else None)"

subsection \<open>The trait \<open>SendStore\<close>\<close>

record 's send_store =
  ss_context :: "string \<Rightarrow> string \<Rightarrow> string \<Rightarrow> 's \<Rightarrow> (d1_error, send_context, 's) outcome"
  ss_charge :: "string \<Rightarrow> u64 \<Rightarrow> 's \<Rightarrow> (answer, unit, 's) outcome"
  ss_settle :: "json \<Rightarrow> string option \<Rightarrow> (string \<times> string \<times> int) list \<Rightarrow> int \<Rightarrow> string \<Rightarrow> 's \<Rightarrow>
    (answer, settled, 's) outcome"
  ss_box :: "string \<Rightarrow> string \<Rightarrow> 's \<Rightarrow> (d1_error, nat, 's) outcome"
  ss_insert :: "string \<Rightarrow> nat \<Rightarrow> string \<Rightarrow> string \<Rightarrow> string \<Rightarrow> string option \<Rightarrow> 's \<Rightarrow>
    (d1_error, send_insert, 's) outcome"
  ss_forget :: "nat \<Rightarrow> handed_off option \<Rightarrow> string option \<Rightarrow> bool \<Rightarrow> 's \<Rightarrow> 's"
  ss_box_off :: "string \<Rightarrow> bool"

text \<open>A recipient's context: recipient, id, fee, the box when D1 has it.\<close>

type_synonym ctx = "string \<times> string \<times> int \<times> nat option"

primrec read_contexts ::
  "'s send_store \<Rightarrow> string \<Rightarrow> string \<Rightarrow> (string \<times> string) list \<Rightarrow> string list \<Rightarrow> ctx list \<Rightarrow> int \<Rightarrow> 's \<Rightarrow>
     (send_outcome, string list \<times> ctx list \<times> int, 's) outcome" where
  "read_contexts st sender mbox [] blocked ctxs fee s = (Inr (blocked, ctxs, fee), s)"
| "read_contexts st sender mbox (rm # rms) blocked ctxs fee s =
     (case ss_context st (fst rm) sender mbox s of
        (Inl e, s) \<Rightarrow> (Inl (classify_store_error e), s)
      | (Inr c, s) \<Rightarrow>
          if sc_recipient_fee c < 0
          then read_contexts st sender mbox rms (blocked @ [fst rm]) ctxs (sc_server_fee c) s
          else read_contexts st sender mbox rms blocked
                 (ctxs @ [(fst rm, snd rm, sc_recipient_fee c, sc_box_id c)]) (sc_server_fee c) s)"

text \<open>The bytes of text no delivery fee judges.\<close>

definition unjudged_bytes :: "pay_env \<Rightarrow> validated_send \<Rightarrow> int \<Rightarrow> u64" where
  "unjudged_bytes env val delivery_fee =
     length (pe_text env (vs_body val)) +
     (case vs_payment val of
        Some p \<Rightarrow> if 0 < delivery_fee then 0 else length (pe_text env p)
      | None \<Rightarrow> 0)"

record paying =
  pg_outputs :: "(string \<times> json) list"
  pg_r2_key :: "string option"
  pg_handed :: "handed_off option"

definition fee_map_of :: "ctx list \<Rightarrow> (string \<times> string \<times> int) list" where
  "fee_map_of ctxs = map (\<lambda>(r, m, f, _). (r, m, f)) ctxs"

definition settle_send ::
  "'s send_store \<Rightarrow> validated_send \<Rightarrow> string \<Rightarrow> ctx list \<Rightarrow> int \<Rightarrow> 's \<Rightarrow> (send_outcome, paying, 's) outcome" where
  "settle_send st val sender ctxs delivery_fee s =
     (if 0 < delivery_fee \<or> list_ex (\<lambda>(_, _, f, _). 0 < f) ctxs then
        (case vs_payment val of
           None \<Rightarrow> (Inl (PaymentFailed (fst missing_tx) 400), s)
         | Some payment \<Rightarrow>
             (case decide_r2_fetch payment sender of
                Inl (body, status) \<Rightarrow> (Inl (PaymentFailed body status), s)
              | Inr r2_key \<Rightarrow>
                  (case ss_settle st payment r2_key (fee_map_of ctxs) delivery_fee sender s of
                     (Inl (body, status), s) \<Rightarrow> (Inl (PaymentFailed body status), s)
                   | (Inr se, s) \<Rightarrow>
                       (Inr \<lparr>pg_outputs = se_outputs se, pg_r2_key = r2_key, pg_handed = Some (se_handed se)\<rparr>, s))))
      else (Inr \<lparr>pg_outputs = [], pg_r2_key = None, pg_handed = None\<rparr>, s))"

definition row_paid :: "paying \<Rightarrow> string \<Rightarrow> (json \<times> json) option" where
  "row_paid pg recipient =
     Option.bind (pg_handed pg) (\<lambda>h. map_option (\<lambda>outs. (ho_payment h, outs)) (map_of (pg_outputs pg) recipient))"

definition row_beef_key :: "(json \<times> json) option \<Rightarrow> string option" where
  "row_beef_key paid = Option.bind paid (\<lambda>(payment, _). str_in ''beefR2Key'' payment)"

definition push_for_row :: "validated_send \<Rightarrow> string \<Rightarrow> string \<Rightarrow> string \<Rightarrow> after_answer \<Rightarrow> after_answer" where
  "push_for_row val sender recipient mid after =
     \<lparr>aa_pushes = aa_pushes after @
        [\<lparr>hp_recipient = recipient, hp_message_box = vs_message_box val, hp_sender = sender,
          hp_message_id = mid, hp_body = vs_body val\<rparr>],
      aa_fcm = aa_fcm after @ (if vs_message_box val = ''notifications'' then [(recipient, mid)] else [])\<rparr>"

text \<open>What one row's insert ends the send with, when it ends it.\<close>

fun insert_ends :: "string \<Rightarrow> string \<Rightarrow> d1_error + send_insert \<Rightarrow> send_outcome option" where
  "insert_ends recipient mid (Inr SendStored) = None"
| "insert_ends recipient mid (Inr SendDuplicate) = Some (DuplicateMessage recipient mid)"
| "insert_ends recipient mid (Inr (SendFull body)) = Some (ValidationError body 429)"
| "insert_ends recipient mid (Inl e) = Some (classify_store_error e)"

primrec insert_rows ::
  "pay_env \<Rightarrow> 's send_store \<Rightarrow> validated_send \<Rightarrow> string \<Rightarrow> paying \<Rightarrow> ctx list \<Rightarrow>
     (string \<times> string) list \<Rightarrow> nat \<Rightarrow> after_answer \<Rightarrow> 's \<Rightarrow> (send_outcome \<times> after_answer) \<times> 's" where
  "insert_rows env st val sender pg [] results naming after s =
     ((Success results, after), ss_forget st naming (pg_handed pg) (pg_r2_key pg) False s)"
| "insert_rows env st val sender pg (c # cs) results naming after s =
     (let (recipient, mid, _, known) = c;
          failed = (\<lambda>s. ss_forget st naming (pg_handed pg) (pg_r2_key pg) True s)
      in case (case known of Some b \<Rightarrow> (Inr b, s) | None \<Rightarrow> ss_box st recipient (vs_message_box val) s) of
           (Inl e, s) \<Rightarrow> ((classify_store_error e, after), failed s)
         | (Inr b, s) \<Rightarrow>
             (let paid = row_paid pg recipient; k = row_beef_key paid;
                  (ins, s) = ss_insert st mid b sender recipient (stored_body env (vs_body val) paid) k s
              in case insert_ends recipient mid ins of
                   Some out \<Rightarrow> ((out, after), failed s)
                 | None \<Rightarrow>
                     insert_rows env st val sender pg cs (results @ [(recipient, mid)])
                       (naming + (if k = None then 0 else 1)) (push_for_row val sender recipient mid after) s))"

definition store_rows ::
  "pay_env \<Rightarrow> 's send_store \<Rightarrow> validated_send \<Rightarrow> string \<Rightarrow> 's \<Rightarrow> (send_outcome \<times> after_answer) \<times> 's" where
  "store_rows env st val sender s =
     (if ss_box_off st (vs_message_box val) then
        (let (body, status) = box_off_answer (vs_message_box val)
         in ((ValidationError body status, nothing_owed), s))
      else
        (case read_contexts st sender (vs_message_box val) (vs_recipients val) [] [] 0 s of
           (Inl out, s) \<Rightarrow> ((out, nothing_owed), s)
         | (Inr (blocked, ctxs, delivery_fee), s) \<Rightarrow>
             if blocked \<noteq> [] then ((BlockedRecipients blocked, nothing_owed), s)
             else
               (case ss_charge st sender (unjudged_bytes env val delivery_fee) s of
                  (Inl (body, status), s) \<Rightarrow> ((ValidationError body status, nothing_owed), s)
                | (Inr _, s) \<Rightarrow>
                    (case settle_send st val sender ctxs delivery_fee s of
                       (Inl out, s) \<Rightarrow> ((out, nothing_owed), s)
                     | (Inr pg, s) \<Rightarrow> insert_rows env st val sender pg ctxs [] 0 nothing_owed s))))"

definition store_send ::
  "pay_env \<Rightarrow> 's send_store \<Rightarrow> validated_send \<Rightarrow> string \<Rightarrow> 's \<Rightarrow> (send_outcome \<times> after_answer) \<times> 's" where
  "store_send env st val sender s = store_rows env st val sender s"

subsection \<open>The two stores\<close>

definition on_relay :: "(relay \<Rightarrow> ('e, 'a, relay) outcome) \<Rightarrow> vault \<Rightarrow> ('e, 'a, vault) outcome" where
  "on_relay op v = (let (r, rl) = op (v_relay v) in (r, v\<lparr>v_relay := rl\<rparr>))"

definition js_nat :: "nat \<Rightarrow> nat" where
  "js_nat n = nat (js_number (int n))"

text \<open>The environment's settings: a variable by its name.\<close>

definition charge_on_d1 ::
  "pay_env \<Rightarrow> (string \<Rightarrow> string option) \<Rightarrow> string \<Rightarrow> u64 \<Rightarrow> vault \<Rightarrow> (answer, unit, vault) outcome" where
  "charge_on_d1 env vars sender unjudged v =
     (case re_d1_unbound (pe_relay env) of
        Some _ \<Rightarrow> (Inr (), v)
      | None \<Rightarrow>
          (let (r, b) = charge (d1_windows_charge js_nat) (budget_from_env vars) sender (v_now v) unjudged (v_budget v)
           in (r, v\<lparr>v_budget := b\<rparr>)))"

definition box_off_in_env :: "(string \<Rightarrow> string option) \<Rightarrow> string \<Rightarrow> bool" where
  "box_off_in_env vars mbox = box_is_off (vars ''BOXES_OFF'') mbox"

definition worker_store ::
  "pay_env \<Rightarrow> door \<Rightarrow> (string \<Rightarrow> string option) \<Rightarrow> vault send_store" where
  "worker_store env d vars =
     \<lparr>ss_context = (\<lambda>recipient sender mbox. on_relay (on_d1 (read_send_context recipient sender mbox))),
      ss_charge = charge_on_d1 env vars,
      ss_settle = process_payment env d,
      ss_box = (\<lambda>recipient mbox. on_relay (on_d1 (get_or_create_message_box recipient mbox))),
      ss_insert = (\<lambda>mid b sender recipient body k.
         on_relay (on_d1 (worker_insert_message mid b sender recipient body k))),
      ss_forget = forget_after_send env,
      ss_box_off = box_off_in_env vars\<rparr>"

definition mailbox_send_store ::
  "pay_env \<Rightarrow> door \<Rightarrow> (string \<Rightarrow> string option) \<Rightarrow> string \<Rightarrow> vault send_store" where
  "mailbox_send_store env d vars mbox =
     \<lparr>ss_context = (\<lambda>recipient sender mb. on_relay (read_send_context_on_hub (pe_relay env) recipient sender mb)),
      ss_charge = ss_charge (worker_store env d vars),
      ss_settle = ss_settle (worker_store env d vars),
      ss_box = (\<lambda>_ _ v. (Inr 0, v)),
      ss_insert = (\<lambda>mid _ sender recipient body k.
         on_relay (insert_message_on_hub (pe_relay env) mbox mid sender recipient body k)),
      ss_forget = ss_forget (worker_store env d vars),
      ss_box_off = ss_box_off (worker_store env d vars)\<rparr>"

definition process_send ::
  "pay_env \<Rightarrow> door \<Rightarrow> (string \<Rightarrow> string option) \<Rightarrow> validated_send \<Rightarrow> string \<Rightarrow> vault \<Rightarrow>
     (send_outcome \<times> after_answer) \<times> vault" where
  "process_send env d vars val sender v =
     (case hub_store_parse (vars ''HUB_STORE'') of
        Inl x \<Rightarrow>
          (let (body, status) = refused_boot_answer x in ((ValidationError body status, nothing_owed), v))
      | Inr h \<Rightarrow>
          (if send_path h = Mailbox
           then store_send env (mailbox_send_store env d vars (vs_message_box val)) val sender v
           else store_send env (worker_store env d vars) val sender v))"

end
