(* ===== verification/Payment_Props.thy ===== *)
theory Payment_Props
  imports Payments
begin

section \<open>What a payment's steps keep\<close>

text \<open>
  The statements and the bucket's calls under every script, and the locale \<open>vault_steps\<close>: what is
  kept by each small change a payment makes is kept by the whole of it, the drain, the re-ask and
  the reclaims included. \<open>custodial\<close> adds the one change that takes something away: an object goes
  only when nothing names it.
\<close>

subsection \<open>The retried statement\<close>

lemma spend_trip_simps [simp]:
  "v_fees (spend_trip v) = v_fees v" "v_announces (spend_trip v) = v_announces v"
  "v_claims (spend_trip v) = v_claims v" "v_minted (spend_trip v) = v_minted v"
  "v_released (spend_trip v) = v_released v" "v_word (spend_trip v) = v_word v"
  "v_budget (spend_trip v) = v_budget v" "v_objects (spend_trip v) = v_objects v"
  "v_puts (spend_trip v) = v_puts v" "v_r2 (spend_trip v) = v_r2 v" "v_wallet (spend_trip v) = v_wallet v"
  "v_arc (spend_trip v) = v_arc v" "v_now (spend_trip v) = v_now v"
  "tables (v_d1 (spend_trip v)) = tables (v_d1 v)" "rl_hubs (v_relay (spend_trip v)) = rl_hubs (v_relay v)"
  "d_messages (v_d1 (spend_trip v)) = d_messages (v_d1 v)" "d_now (v_d1 (spend_trip v)) = d_now (v_d1 v)"
  by (simp_all add: spend_trip_def set_d1_def)

lemma v_run_cases:
  obtains (refused) e where "v_run stmt v = (Inl e, spend_trip v)"
  | (landed) e where "v_run stmt v = (Inl e, snd (stmt (spend_trip v)))"
  | (served) "v_run stmt v = (Inr (fst (stmt (spend_trip v))), snd (stmt (spend_trip v)))"
  by (cases "d_script (v_d1 v)"; cases "hd (d_script (v_d1 v))")
     (auto simp: v_run_def split: prod.split)

text \<open>
  A retried statement leaves the state as some number of applications left it; an answered one
  ends with an application.
\<close>

lemma v_write_rule:
  assumes R: "R v" and trip: "\<And>v. R v \<Longrightarrow> R (spend_trip v)" and stmt: "\<And>v. R v \<Longrightarrow> R (stmt v)"
  shows "R (snd (v_write stmt v))"
    and "v_write stmt v = (Inr (), v') \<Longrightarrow> \<exists>u. R u \<and> v' = stmt u"
proof -
  let ?op = "v_run (\<lambda>v. ((), stmt v))"
  obtain r w where run: "with_d1_write_retry ?op v = (r, w)" by (cases "with_d1_write_retry ?op v")
  have step: "R s' \<and> (\<forall>x. q = Inr x \<longrightarrow> (\<exists>u. R u \<and> s' = stmt u))" if "R s" "?op s = (q, s')" for s q s'
    by (cases rule: v_run_cases [of "\<lambda>v. ((), stmt v)" s]) (use that trip stmt in auto)
  have "case r of Inr (a, b) \<Rightarrow> (\<exists>u. R u \<and> w = stmt u) | Inl e \<Rightarrow> R w"
    by (rule write_retry_rule [where R = "\<lambda>_. R" and Q = "\<lambda>_ _ s. \<exists>u. R u \<and> s = stmt u", OF R _ _ run])
       (use step in blast)+
  then have "R w" "r = Inr y \<Longrightarrow> \<exists>u. R u \<and> w = stmt u" for y
    using stmt by (auto split: sum.splits prod.splits)
  with run show "R (snd (v_write stmt v))" "v_write stmt v = (Inr (), v') \<Longrightarrow> \<exists>u. R u \<and> v' = stmt u"
    by (auto simp: v_write_def split: sum.splits)
qed

lemma v_read_rule:
  assumes "R v" and trip: "\<And>v. R v \<Longrightarrow> R (spend_trip v)"
  shows "R (snd (v_read q v))" and "v_read q v = (Inr a, v') \<Longrightarrow> a = q v'"
proof -
  let ?op = "v_run (\<lambda>v. (q v, v))"
  have "R (snd (read_loop n ?op v)) \<and> (\<forall>a. fst (read_loop n ?op v) = Inr a \<longrightarrow> a = q (snd (read_loop n ?op v)))" for n
    using assms(1)
  proof (induction n ?op v rule: read_loop.induct)
    case (1 n v)
    have R: "R (spend_trip v)" using "1.prems" trip by blast
    show ?case
    proof (cases rule: v_run_cases [of "\<lambda>v. (q v, v)" v])
      case (refused e)
      with R "1.hyps" [OF refused [symmetric]] show ?thesis
        by (subst (1 2 3) read_loop.simps) (auto split: option.split)
    next
      case (landed e)
      then have op: "?op v = (Inl e, spend_trip v)" by simp
      with R "1.hyps" [OF op [symmetric]] show ?thesis
        by (subst (1 2 3) read_loop.simps) (auto split: option.split)
    next
      case served
      with R show ?thesis by (subst (1 2 3) read_loop.simps) simp
    qed
  qed
  from this [of 0] show "R (snd (v_read q v))" "v_read q v = (Inr a, v') \<Longrightarrow> a = q v'"
    by (auto simp: v_read_def with_d1_read_retry_def split: sum.splits prod.splits)
qed

subsection \<open>The interface: small changes\<close>

definition named_by :: "string \<Rightarrow> vault \<Rightarrow> bool" where
  "named_by k v \<longleftrightarrow> ROW_NAMES_KEY_SQL k v \<or> FEE_OWES_KEY_SQL k v \<or> ANNOUNCE_OWES_KEY_SQL k v"

abbreviation at_key :: "string \<Rightarrow> vault \<Rightarrow> bool" where
  "at_key k v \<equiv> v_objects v k \<noteq> None"

definition owed_in :: "string \<Rightarrow> fee_row list \<Rightarrow> bool" where
  "owed_in k fs \<longleftrightarrow> (\<exists>r\<in>set fs. fr_key r = k \<and> fr_ended r = None)"

lemma owed_in_snoc: "owed_in k (fs @ [r]) \<longleftrightarrow> owed_in k fs \<or> fr_key r = k \<and> fr_ended r = None"
  by (auto simp: owed_in_def)

lemma owed_in_filter: "owed_in k (filter p fs) \<Longrightarrow> owed_in k fs"
  by (auto simp: owed_in_def)

lemma owed_in_update:
  assumes "owed_in k (update_where p f fs)"
    and "\<And>r. fr_key (f r) = fr_key r" and "\<And>r. fr_ended (f r) = None \<Longrightarrow> fr_ended r = None"
  shows "owed_in k fs"
  using assms by (auto simp: owed_in_def set_update_where)

lemma an_keys_update:
  "(\<And>r. an_key (f r) = an_key r) \<Longrightarrow> an_key ` set (update_where p f rs) = an_key ` set rs"
  by (induction rs) auto

lemma FEE_OWES_owed: "FEE_OWES_KEY_SQL k v = owed_in k (v_fees v)"
  by (auto simp: FEE_OWES_KEY_SQL_def owed_in_def list_ex_iff)

lemma ANNOUNCE_OWES_key: "ANNOUNCE_OWES_KEY_SQL k v \<longleftrightarrow> k \<in> an_key ` set (v_announces v)"
  by (auto simp: ANNOUNCE_OWES_KEY_SQL_def list_ex_iff)

locale outward_steps =
  fixes env :: pay_env and P :: "vault \<Rightarrow> bool"
  assumes trip: "P v \<Longrightarrow> P (spend_trip v)"
    and scripts: "P v \<Longrightarrow> P (v\<lparr>v_r2 := a\<rparr>)" "P v \<Longrightarrow> P (v\<lparr>v_wallet := b\<rparr>)" "P v \<Longrightarrow> P (v\<lparr>v_arc := c\<rparr>)"
    and put: "P v \<Longrightarrow> P (snd (put_object env k bytes reader v))"
    and announces: "P v \<Longrightarrow> (\<And>k. k \<in> an_key ` set ans \<Longrightarrow> k \<in> an_key ` set (v_announces v) \<or> at_key k v) \<Longrightarrow>
      P (v\<lparr>v_announces := ans\<rparr>)"
begin

lemma write_P: "P v \<Longrightarrow> (\<And>v. P v \<Longrightarrow> P (stmt v)) \<Longrightarrow> P (snd (v_write stmt v))"
  by (rule v_write_rule(1)) (auto intro: trip)

lemma read_P: "P v \<Longrightarrow> P (snd (v_read q v))"
  by (rule v_read_rule(1)) (auto intro: trip)

lemma r2_call_P: "P v \<Longrightarrow> (\<And>v. P v \<Longrightarrow> P (snd (call v))) \<Longrightarrow> P (snd (r2_call env what call v))"
proof -
  assume "P v" and call: "\<And>v. P v \<Longrightarrow> P (snd (call v))"
  then have "P (v\<lparr>v_r2 := tl (v_r2 v)\<rparr>)" "P (snd (call (v\<lparr>v_r2 := tl (v_r2 v)\<rparr>)))"
    by (auto intro: scripts)
  with \<open>P v\<close> show ?thesis
    by (cases "v_r2 v"; cases "hd (v_r2 v)")
       (auto simp: r2_call_def Let_def split_def split: sum.split)
qed

lemma blob_P:
  assumes "P v"
  shows "P (snd (blob_stamp env k v))" "P (snd (blob_reader env k v))" "P (snd (blob_read env k st v))"
    "P (snd (blob_load env k v))" "P (snd (blob_open env k from st v))" "P (snd (blob_save env k bytes v))"
  using assms
  by (auto simp: blob_stamp_def blob_reader_def blob_read_def blob_load_def blob_open_def blob_save_def
      split: option.split intro!: andThen_state [where P = P] r2_call_P put)

lemma upload_parts_P: "P v \<Longrightarrow> P (snd (upload_parts env n ps v))"
proof (induction ps arbitrary: n v)
  case (Cons p ps)
  have "P (snd (r2_call env (''R2 part '' @ nat_text n @ '': '') (\<lambda>v. ((), v)) v))"
    using Cons.prems by (intro r2_call_P) simp_all
  then show ?case
    by (auto split: prod.split sum.split intro: Cons.IH r2_call_P)
qed simp

lemma spool_P: "P v \<Longrightarrow> P (snd (blob_spool env k bytes n reader v))"
  unfolding blob_spool_def
  by (auto intro!: andThen_state [where P = P] r2_call_P upload_parts_P put)

lemma wallet_announce_P:
  "P v \<Longrightarrow> P (snd (wallet_internalize args v))" "P v \<Longrightarrow> P (snd (announce v))"
  by (auto simp: wallet_internalize_def announce_def split: list.split intro: scripts)

text \<open>What a fee or an announcement begins to name is at its key.\<close>

lemma guarded_write_P:
  assumes "P v" and "at_key k v" and "\<And>v. P v \<Longrightarrow> at_key k v \<Longrightarrow> P (stmt v)"
    and "\<And>v. v_objects (stmt v) = v_objects v"
  shows "P (snd (v_write stmt v))"
proof -
  have "P (snd (v_write stmt v)) \<and> at_key k (snd (v_write stmt v))"
    by (rule v_write_rule(1) [where R = "\<lambda>v. P v \<and> at_key k v"]) (use assms trip in simp_all)
  then show ?thesis ..
qed

lemma owe_announce_P: "P v \<Longrightarrow> at_key (oa_key owed) v \<Longrightarrow> P (snd (ledger_owe_announce owed word v))"
  unfolding ledger_owe_announce_def
proof (erule guarded_write_P, assumption)
  fix v assume v: "P v" "at_key (oa_key owed) v"
  show "P (OWE_ANNOUNCE_SQL owed (kept_words word) v)"
    unfolding OWE_ANNOUNCE_SQL_def by (simp add: v, rule impI, rule announces [OF v(1)]) (use v(2) in auto)
qed (simp add: OWE_ANNOUNCE_SQL_def)

end

text \<open>With the relay's own tables, but for the fees.\<close>

locale book_steps = outward_steps +
  assumes books: "P v \<Longrightarrow> P (v\<lparr>v_claims := cs\<rparr>)" "P v \<Longrightarrow> P (v\<lparr>v_minted := ms\<rparr>)"
      "P v \<Longrightarrow> P (v\<lparr>v_released := ks\<rparr>)" "P v \<Longrightarrow> P (v\<lparr>v_word := w\<rparr>)"
begin

lemma set_wallet_word_P: "P v \<Longrightarrow> P (snd (ledger_set_wallet_word w t v))"
  unfolding ledger_set_wallet_word_def
  by (cases w) (simp_all, (erule write_P, erule books)+)

lemma ledger_reads_P:
  assumes "P v"
  shows "P (snd (ledger_wallet_word v))" "P (snd (ledger_owes k v))" "P (snd (ledger_due t n v))"
    "P (snd (ledger_due_announces t n v))"
proof -
  show "P (snd (ledger_wallet_word v))" "P (snd (ledger_due t n v))" "P (snd (ledger_due_announces t n v))"
    unfolding ledger_wallet_word_def ledger_due_def ledger_due_announces_def
    by (rule andThen_state [where P = P], rule read_P [OF assms], simp)+
  show "P (snd (ledger_owes k v))"
    unfolding ledger_owes_def
    by (rule andThen_state [where P = P], rule read_P [OF assms]) (auto intro: read_P)
qed

lemma rows_writes_P:
  assumes "P v"
  shows "P (snd (rows_forget k v))" "P (snd (rows_claim k v))" "P (snd (rows_unclaim k v))"
    "P (snd (rows_mint k t v))" "P (snd (rows_postpone_minted k t v))" "P (snd (rows_forget_minted k v))"
  unfolding rows_forget_def rows_claim_def rows_unclaim_def rows_mint_def rows_postpone_minted_def
    rows_forget_minted_def CLAIM_SQL_def UNCLAIM_SQL_def MINT_SQL_def POSTPONE_MINTED_SQL_def
  by (rule write_P [OF assms], erule books | rule write_P [OF assms], simp add: books)+

lemma rows_reads_P:
  assumes "P v"
  shows "P (snd (rows_names k v))" "P (snd (rows_released n v))" "P (snd (rows_claimed k v))"
    "P (snd (rows_minted_due t n v))"
  unfolding rows_names_def rows_released_def rows_claimed_def rows_minted_due_def
  by (rule read_P [OF assms])+

end

text \<open>With the fees.\<close>

locale vault_steps = book_steps +
  assumes fees: "P v \<Longrightarrow> (\<And>k. owed_in k fs \<Longrightarrow> owed_in k (v_fees v) \<or> at_key k v) \<Longrightarrow> P (v\<lparr>v_fees := fs\<rparr>)"
begin

lemma fewer_fees_P:
  assumes "P v"
  shows "P (SETTLE_FEE_SQL k v)" "P (PUT_OFF_FEE_SQL n t why k v)" "P (END_FEE_SQL why k v)"
    "P (ANNOUNCED_SQL k v)" "P (PUT_OFF_ANNOUNCE_SQL n t why k v)"
proof -
  show "P (SETTLE_FEE_SQL k v)"
    unfolding SETTLE_FEE_SQL_def by (rule fees [OF assms]) (blast dest: owed_in_filter)
  show "P (PUT_OFF_FEE_SQL n t why k v)" "P (END_FEE_SQL why k v)"
    unfolding PUT_OFF_FEE_SQL_def END_FEE_SQL_def
    by (rule fees [OF assms], drule owed_in_update, simp_all)+
  show "P (ANNOUNCED_SQL k v)"
    unfolding ANNOUNCED_SQL_def by (rule announces [OF assms]) auto
  show "P (PUT_OFF_ANNOUNCE_SQL n t why k v)"
    unfolding PUT_OFF_ANNOUNCE_SQL_def by (rule announces [OF assms]) (simp add: an_keys_update)
qed

lemma ledger_P:
  assumes "P v"
  shows "P (snd (ledger_settle k v))" "P (snd (ledger_put_off k n t why v))" "P (snd (ledger_end k why v))"
    "P (snd (ledger_announced k v))" "P (snd (ledger_put_off_announce k n t why v))"
  unfolding ledger_settle_def ledger_put_off_def ledger_end_def ledger_announced_def ledger_put_off_announce_def
  by (rule write_P [OF assms], erule fewer_fees_P)+

lemmas keeps_P = blob_P spool_P wallet_announce_P ledger_P set_wallet_word_P ledger_reads_P rows_writes_P rows_reads_P

lemma defer_P: "P v \<Longrightarrow> at_key (df_key fee) v \<Longrightarrow> P (snd (ledger_defer fee v))"
  unfolding ledger_defer_def
proof (erule guarded_write_P, assumption)
  fix v assume v: "P v" "at_key (df_key fee) v"
  show "P (DEFER_FEE_SQL fee v)"
  proof (cases "df_key fee \<in> fr_key ` set (v_fees v)")
    case False
    have "P (v\<lparr>v_fees := v_fees v @ [new_fee fee (d_now (v_d1 v))]\<rparr>)"
      by (rule fees [OF v(1)]) (use v(2) in \<open>auto simp: owed_in_snoc new_fee_def\<close>)
    with False show ?thesis by (simp add: DEFER_FEE_SQL_def)
  qed (simp add: DEFER_FEE_SQL_def v)
qed (simp add: DEFER_FEE_SQL_def)

end

text \<open>A key that has an object keeps one: the same changes, so the same interface.\<close>

lemma present_outward:
  assumes "outward_steps env P"
  shows "outward_steps env (\<lambda>v. P v \<and> at_key k v)"
proof -
  note l = outward_steps.trip [OF assms] outward_steps.scripts [OF assms] outward_steps.put [OF assms]
  have "at_key k (snd (put_object env j bytes reader v))" if "at_key k v" for j bytes reader v
    using that by (simp add: put_object_def Let_def)
  then show ?thesis
    using outward_steps.announces [OF assms] by unfold_locales (simp_all add: l)
qed

lemma present_steps:
  assumes "vault_steps env P"
  shows "vault_steps env (\<lambda>v. P v \<and> at_key k v)"
proof -
  note B = vault_steps.axioms(1) [OF assms]
  note l = book_steps.books [OF B] vault_steps.fees [OF assms]
  show ?thesis
    by (intro vault_steps.intro book_steps.intro present_outward book_steps.axioms(1) [OF B]
          vault_steps_axioms.intro book_steps_axioms.intro)
       (use l in auto)
qed

subsection \<open>Who names a key\<close>

definition same_names :: "vault \<Rightarrow> vault \<Rightarrow> bool" where
  "same_names v u \<longleftrightarrow> d_messages (v_d1 u) = d_messages (v_d1 v) \<and> v_fees u = v_fees v \<and>
     v_announces u = v_announces v \<and> v_objects u = v_objects v"

lemma same_names_named: "same_names v u \<Longrightarrow> named_by k u = named_by k v"
  by (simp add: same_names_def named_by_def ROW_NAMES_KEY_SQL_def FEE_OWES_KEY_SQL_def ANNOUNCE_OWES_KEY_SQL_def)

lemma same_names_refl [simp]: "same_names v v"
  by (simp add: same_names_def)

lemma same_names_trans: "same_names v u \<Longrightarrow> same_names u w \<Longrightarrow> same_names v w"
  by (simp add: same_names_def)

lemma read_same_names: "v_read q v = (r, v') \<Longrightarrow> same_names v v' \<and> (\<forall>a. r = Inr a \<longrightarrow> a = q v')"
  using v_read_rule [where R = "same_names v" and q = q and v = v] by (simp add: same_names_def)

lemma same_names_queries:
  assumes "same_names v u"
  shows "ROW_NAMES_KEY_SQL k u = ROW_NAMES_KEY_SQL k v" "FEE_OWES_KEY_SQL k u = FEE_OWES_KEY_SQL k v"
    "ANNOUNCE_OWES_KEY_SQL k u = ANNOUNCE_OWES_KEY_SQL k v"
  using assms by (simp_all add: same_names_def ROW_NAMES_KEY_SQL_def FEE_OWES_KEY_SQL_def ANNOUNCE_OWES_KEY_SQL_def)

text \<open>One read, then another unless it answered yes: both answer of the state left.\<close>

lemma either_read:
  assumes "andThen (v_read p v) (\<lambda>yes v. if yes then (Inr True, v) else g v) = (r, v')"
    and "\<And>u. same_names u v' \<Longrightarrow> p u = p v'"
    and "\<And>u r u'. g u = (r, u') \<Longrightarrow> same_names u u' \<and> (\<forall>b. r = Inr b \<longrightarrow> b = q u')"
  shows "same_names v v' \<and> (\<forall>b. r = Inr b \<longrightarrow> b = (p v' \<or> q v'))"
proof (cases "v_read p v")
  case (Pair r1 v1)
  note one = read_same_names [OF Pair]
  show ?thesis
  proof (cases r1)
    case (Inl e)
    with assms(1) Pair one show ?thesis by auto
  next
    case (Inr yes)
    show ?thesis
    proof (cases yes)
      case True
      with assms(1) Pair one Inr show ?thesis by auto
    next
      case False
      with assms(1) Pair Inr have "g v1 = (r, v')" by simp
      with assms(3) have two: "same_names v1 v'" "\<forall>b. r = Inr b \<longrightarrow> b = q v'" by blast+
      have "\<not> p v'" using assms(2) [OF two(1)] one Inr False by simp
      with two one show ?thesis using same_names_trans by auto
    qed
  qed
qed

lemma named_answers:
  assumes "named k v = (r, v')"
  shows "same_names v v'" and "r = Inr b \<Longrightarrow> b = named_by k v'"
proof -
  have owes: "same_names u u' \<and> (\<forall>b. r = Inr b \<longrightarrow> b = (FEE_OWES_KEY_SQL k u' \<or> ANNOUNCE_OWES_KEY_SQL k u'))"
    if "ledger_owes k u = (r, u')" for u r u'
    using that unfolding ledger_owes_def
    by (rule either_read) (simp_all add: same_names_queries read_same_names)
  have "same_names v v' \<and> (\<forall>b. r = Inr b \<longrightarrow> b = (ROW_NAMES_KEY_SQL k v' \<or> (FEE_OWES_KEY_SQL k v' \<or> ANNOUNCE_OWES_KEY_SQL k v')))"
    using assms unfolding named_def rows_names_def
    by (rule either_read) (use owes in \<open>auto simp: same_names_queries\<close>)
  then show "same_names v v'" "r = Inr b \<Longrightarrow> b = named_by k v'" by (auto simp: named_by_def)
qed

lemma stamp_same_names: "blob_stamp env k v = (r, v') \<Longrightarrow> same_names v v'"
  by (auto simp: blob_stamp_def r2_call_def same_names_def Let_def
      split: sum.splits list.splits r2_fate.splits)

text \<open>An object goes only when nothing names it; the door's state is the door's.\<close>

locale reclaiming = book_steps +
  assumes clear: "P v \<Longrightarrow> \<not> named_by k v \<Longrightarrow> P (v\<lparr>v_objects := (v_objects v)(k := None)\<rparr>)"
    and clear_state: "P v \<Longrightarrow> P (v\<lparr>v_objects := (v_objects v)(state_key k := None)\<rparr>)"
begin

lemma named_P: "P v \<Longrightarrow> P (snd (named k v))"
  unfolding named_def by (rule andThen_state [where P = P]) (auto intro: rows_reads_P ledger_reads_P)

lemma blob_clear_P:
  assumes "P v" and "\<not> named_by k v"
  shows "P (snd (blob_clear env k v))"
proof -
  let ?v = "v\<lparr>v_r2 := tl (v_r2 v)\<rparr>"
  have "P ?v" by (rule scripts(1) [OF assms(1)])
  moreover have "\<not> named_by k ?v" using assms(2) same_names_named [of v ?v k] by (simp add: same_names_def)
  ultimately have "P (?v\<lparr>v_objects := (v_objects ?v)(k := None)\<rparr>)" by (rule clear)
  with assms(1) \<open>P ?v\<close> show ?thesis
    by (cases "v_r2 v"; cases "hd (v_r2 v)") (auto simp: blob_clear_def r2_call_def Let_def split: sum.split)
qed

lemma reclaim_claimed_P: "P v \<Longrightarrow> P (snd (reclaim_claimed env k v))"
  unfolding reclaim_claimed_def
proof (rule andThen_state [where P = P], erule named_P, simp split: if_split, intro impI)
  fix v assume "P v"
  then show "P (snd (andThen (blob_stamp env k v) (\<lambda>looked v. case looked of None \<Rightarrow> (Inr True, v)
      | Some st \<Rightarrow> andThen (named k v) (\<lambda>yes v. if yes then (Inr False, v)
          else andThen (blob_stamp env k v) (\<lambda>again v. if again \<noteq> Some st then (Inr False, v)
            else andThen (blob_clear env k v) (\<lambda>_ v. (Inr True, v)))))))"
  proof (rule andThen_state [where P = P, OF blob_P(1)], split option.split, intro conjI impI allI)
    fix looked v st assume "P v"
    then show "P (snd (andThen (named k v) (\<lambda>yes v. if yes then (Inr False, v)
          else andThen (blob_stamp env k v) (\<lambda>again v. if again \<noteq> Some st then (Inr False, v)
            else andThen (blob_clear env k v) (\<lambda>_ v. (Inr True, v))))))"
    proof (rule andThen_state [where P = P, OF named_P])
      fix yes s assume s: "named k v = (Inr yes, s)" "P s"
      show "P (snd (if yes then (Inr False, s)
          else andThen (blob_stamp env k s) (\<lambda>again v. if again \<noteq> Some st then (Inr False, v)
            else andThen (blob_clear env k v) (\<lambda>_ v. (Inr True, v)))))"
      proof (cases yes)
        case False
        with named_answers(2) [OF s(1)] have "\<not> named_by k s" by simp
        then have clean: "\<not> named_by k t" if "blob_stamp env k s = (x, t)" for x t
          using same_names_named [OF stamp_same_names [OF that]] by simp
        show ?thesis unfolding if_not_P [OF False]
          by (rule andThen_state [where P = P, OF blob_P(1) [OF s(2)]])
             (auto intro!: andThen_state [where P = P] blob_clear_P dest: clean)
      qed (simp add: s)
    qed
  qed simp
qed

lemma reclaim_P: "P v \<Longrightarrow> P (snd (reclaim env k v))"
  unfolding reclaim_def
proof (rule andThen_state [where P = P], erule rows_writes_P(2))
  fix a s assume "P s"
  then have "P (snd (reclaim_claimed env k s))" by (rule reclaim_claimed_P)
  then show "P (snd (let (r, v) = reclaim_claimed env k s in (r, snd (rows_unclaim k v))))"
    by (simp add: split_def Let_def rows_writes_P)
qed

lemma released_loop_P: "P v \<Longrightarrow> P (snd (released_loop env ks p v))"
proof (induction ks arbitrary: p v)
  case (Cons k ks)
  have "P (snd (reclaim env k v))" by (rule reclaim_P [OF Cons.prems])
  then show ?case
    by (auto split: prod.split sum.split
        intro!: andThen_state [where P = P] rows_writes_P(1) Cons.IH)
qed simp

lemma reclaim_released_P: "P v \<Longrightarrow> P (snd (reclaim_released env n v))"
  unfolding reclaim_released_def
  by (rule andThen_state [where P = P]) (auto intro: rows_reads_P released_loop_P)

lemma minted_loop_P: "P v \<Longrightarrow> P (snd (minted_loop env now ks p v))"
proof (induction ks arbitrary: p v)
  case (Cons k ks)
  have put_off: "P (snd (andThen (rows_postpone_minted k t s) (\<lambda>_ v. minted_loop env now ks q v)))"
    if "P s" for s t q
    by (rule andThen_state [where P = P]) (auto intro: rows_writes_P(5) Cons.IH that)
  have load: "P (snd (blob_load env (state_key k) v))" by (rule blob_P(4) [OF Cons.prems])
  have looked: "P (snd (andThen (rows_forget_minted k s) (\<lambda>_ v. minted_loop env now ks q v)))" if "P s" for s q
    by (rule andThen_state [where P = P]) (auto intro: rows_writes_P(6) Cons.IH that)
  have reclaimed: "P t" if "reclaim env k s = (x, t)" "P s" for s x t
    using reclaim_P [OF that(2), of k] that(1) by simp
  from load put_off looked reclaimed show ?case
    by (auto split: prod.split sum.split option.split)
qed simp

lemma reclaim_minted_P: "P v \<Longrightarrow> P (snd (reclaim_minted env now n v))"
  unfolding reclaim_minted_def
  by (rule andThen_state [where P = P]) (auto intro: rows_reads_P minted_loop_P)

lemma forget_unnamed_P: "P v \<Longrightarrow> P (snd (forget_unnamed env n h r2 failed v))"
  unfolding forget_unnamed_def
  using reclaim_P [of v] by (auto split: option.split prod.split sum.split) (metis snd_conv)+

lemma orphaned_P: "P v \<Longrightarrow> P (snd (orphaned env k v))"
proof -
  assume "P v"
  then have "P (snd (rows_claimed k v))" by (rule rows_reads_P)
  moreover have "P (snd (blob_stamp env k s))" if "P s" for s by (rule blob_P [OF that])
  ultimately show ?thesis
    by (auto simp: orphaned_def split: prod.split sum.split option.split bool.split) (metis snd_conv)+
qed

lemma try_fee_P: "P v \<Longrightarrow> P (snd (try_fee env fee v))"
proof -
  assume "P v"
  then have "P (snd (blob_stamp env (df_key fee) v))" by (rule blob_P)
  moreover have "P (snd (wallet_internalize a s))" if "P s" for s a by (rule wallet_announce_P [OF that])
  ultimately show ?thesis
    by (auto simp: try_fee_def split: prod.split sum.split option.split bool.split) (metis snd_conv)+
qed

end

subsection \<open>The drain and the re-ask\<close>

locale custodial = vault_steps + reclaiming
begin

lemma settled_fee_P: "P v \<Longrightarrow> P (snd (settled_fee env now fee d v))"
  unfolding settled_fee_def
proof (rule andThen_state [where P = P], erule ledger_P(1))
  fix a s assume "P s"
  then have "P (snd (ledger_wallet_word (snd (reclaim env (df_key fee) s))))"
    by (intro ledger_reads_P reclaim_P)
  then show "P (snd (let v = snd (reclaim env (df_key fee) s)
     in case ledger_wallet_word v of
          (Inr (Some _), v) \<Rightarrow> andThen (ledger_set_wallet_word None now v) (\<lambda>_ v. (Inr (d\<lparr>dr_settled := Suc (dr_settled d)\<rparr>), v))
        | (_, v) \<Rightarrow> (Inr (d\<lparr>dr_settled := Suc (dr_settled d)\<rparr>), v)))"
    by (auto simp: Let_def split: prod.split sum.split option.split
        intro!: andThen_state [where P = P] set_wallet_word_P)
qed

lemma drain_one_P: "P v \<Longrightarrow> P (snd (drain_one env now fee d v))"
proof -
  assume "P v"
  then have "P (snd (try_fee env fee v))" by (rule try_fee_P)
  moreover have "P (snd (put_off_fee now fee why d s))" "P (snd (ended_fee now fee why d s))" if "P s" for s why
    using that unfolding put_off_fee_def ended_fee_def
    by (auto simp: Let_def intro!: andThen_state [where P = P] ledger_P set_wallet_word_P)
  ultimately show ?thesis
    by (auto simp: drain_one_def split: prod.split tried.split intro: settled_fee_P)
qed

lemma drain_fees_P: "P v \<Longrightarrow> P (snd (drain_fees env now n v))"
proof -
  have "P v \<Longrightarrow> P (snd (drain_loop env now fs d v))" for fs d v
    by (induction fs arbitrary: d v) (auto intro!: andThen_state [where P = P] drain_one_P)
  then show "P v \<Longrightarrow> P (snd (drain_fees env now n v))"
    unfolding drain_fees_def by (intro andThen_state [where P = P] ledger_reads_P) auto
qed

lemma reask_announces_P: "P v \<Longrightarrow> P (snd (reask_announces env now n v))"
proof -
  have word: "P (snd (reask_word env owed v))" if "P v" for owed v
    using blob_P(1) [OF that, of "oa_key owed"] wallet_announce_P(2)
    by (auto simp: reask_word_def split: prod.split sum.split option.split) (metis snd_conv)+
  have "P v \<Longrightarrow> P (snd (reask_loop env now os d v))" for os d v
  proof (induction os arbitrary: d v)
    case (Cons owed os)
    show ?case using word [OF Cons.prems, of owed]
      by (auto simp: Let_def split: prod.split option.split
          intro!: andThen_state [where P = P] ledger_P Cons.IH reclaim_P)
  qed simp
  then show "P v \<Longrightarrow> P (snd (reask_announces env now n v))"
    unfolding reask_announces_def by (auto intro!: andThen_state [where P = P] ledger_reads_P)
qed

lemma run_fee_drain_P: "P v \<Longrightarrow> P (run_fee_drain env v)"
  by (simp add: run_fee_drain_def Let_def reask_announces_P drain_fees_P reclaim_minted_P reclaim_released_P
      split: option.split)

end

end
