(* ===== verification/Handoff_Props.thy ===== *)
theory Handoff_Props
  imports Payment_Props
begin

section \<open>What the hand-off leaves at rest\<close>

text \<open>
  The hand-off step by step: what it keeps of any \<open>custodial\<close> property, and that the object it
  says it kept, which the rows of the send go on to name, is there.
\<close>

subsection \<open>The bytes at rest\<close>

definition rest_at :: "at_rest \<Rightarrow> vault \<Rightarrow> bool" where
  "rest_at rest v \<longleftrightarrow> (\<forall>k st. rest = Some (k, st) \<longrightarrow> at_key k v)"

lemma rest_at_simps [simp]: "rest_at None v" "rest_at (Some (k, st)) v \<longleftrightarrow> at_key k v"
  by (simp_all add: rest_at_def)

lemma rest_outward:
  assumes "outward_steps env P"
  shows "outward_steps env (\<lambda>v. P v \<and> rest_at rest v)"
proof (cases rest)
  case None
  with assms show ?thesis by simp
next
  case (Some x)
  with present_outward [OF assms, of "fst x"] show ?thesis by (cases x) simp
qed

lemma rest_steps:
  assumes "vault_steps env P"
  shows "vault_steps env (\<lambda>v. P v \<and> rest_at rest v)"
proof (cases rest)
  case None
  with assms show ?thesis by simp
next
  case (Some x)
  with present_steps [OF assms, of "fst x"] show ?thesis by (cases x) simp
qed

lemma vault_outward: "vault_steps env P \<Longrightarrow> outward_steps env P"
  by (rule book_steps.axioms(1) [OF vault_steps.axioms(1)])

lemma stamp_answers: "blob_stamp env k v = (Inr st, v') \<Longrightarrow> st = map_option stamp_of (v_objects v' k)"
  by (auto simp: blob_stamp_def r2_call_def Let_def split: sum.splits list.splits r2_fate.splits)

lemma put_at_key: "at_key k (snd (put_object env k bytes reader v))"
  by (simp add: put_object_def Let_def)

lemma put_call_at_key:
  "r2_call env what (put_object env k bytes reader) v = (Inr st, v') \<Longrightarrow> at_key k v'"
  by (auto simp: r2_call_def Let_def put_object_def split: sum.splits list.splits r2_fate.splits)

lemma spool_at_key: "blob_spool env k bytes n reader v = (Inr st, v') \<Longrightarrow> at_key k v'"
  unfolding blob_spool_def
  by (auto simp: andThen_Inr_iff simp del: not_None_eq split: if_splits dest: put_call_at_key)

lemma map_err_iff [simp]:
  "map_err f r = (Inr a, s) \<longleftrightarrow> r = (Inr a, s)" "snd (map_err f r) = snd r"
  by (cases r; cases "fst r"; simp add: map_err_def; blast)+

subsection \<open>A property kept and an answer described\<close>

definition leaves :: "('s \<Rightarrow> bool) \<Rightarrow> ('a \<Rightarrow> 's \<Rightarrow> bool) \<Rightarrow> ('e, 'a, 's) outcome \<Rightarrow> bool" where
  "leaves P Q r \<longleftrightarrow> P (snd r) \<and> (\<forall>a s. r = (Inr a, s) \<longrightarrow> Q a s)"

lemma leaves_simps [simp]:
  "leaves P Q (Inr a, s) \<longleftrightarrow> P s \<and> Q a s" "leaves P Q (Inl e, s) \<longleftrightarrow> P s"
  by (auto simp: leaves_def)

lemma leavesI: "P (snd r) \<Longrightarrow> (\<And>a s. r = (Inr a, s) \<Longrightarrow> P s \<Longrightarrow> Q a s) \<Longrightarrow> leaves P Q r"
  by (auto simp: leaves_def)

lemma leavesD: "leaves P Q r \<Longrightarrow> P (snd r)" "leaves P Q r \<Longrightarrow> r = (Inr a, s) \<Longrightarrow> Q a s"
  by (auto simp: leaves_def)

lemma leaves_map_err [simp]: "leaves P Q (map_err f r) = leaves P Q r"
  by (simp add: leaves_def)

lemma leaves_map_errI: "leaves P Q r \<Longrightarrow> leaves P Q (map_err f r)"
  by simp

lemma leaves_andThen:
  "leaves P Q r \<Longrightarrow> (\<And>a s. P s \<Longrightarrow> Q a s \<Longrightarrow> leaves P R (k a s)) \<Longrightarrow> leaves P R (andThen r k)"
  by (cases r; cases "fst r") auto

lemma leaves_mono: "leaves P Q r \<Longrightarrow> (\<And>a s. P s \<Longrightarrow> Q a s \<Longrightarrow> R a s) \<Longrightarrow> leaves P R r"
  by (cases r; cases "fst r") auto

lemma leaves_conj: "leaves (\<lambda>s. P s \<and> C s) Q r \<Longrightarrow> leaves P (\<lambda>a s. Q a s \<and> C s) r"
  by (cases r; cases "fst r") auto

subsection \<open>The steps\<close>

context outward_steps
begin

lemma paid_rest_leaves: "P v \<Longrightarrow> leaves P rest_at (paid_rest env p v)"
proof -
  assume "P v"
  then have stamped: "leaves P (\<lambda>st v. st = map_option stamp_of (v_objects v k)) (blob_stamp env k v)" for k
    by (intro leavesI blob_P(1)) (simp_all add: stamp_answers)
  note steps = leaves_andThen [where Q = "\<lambda>st v. st = map_option stamp_of (v_objects v _)", OF leaves_map_errI, OF stamped]
  show ?thesis unfolding paid_rest_def
    by (auto split: option.split simp: \<open>P v\<close> rest_at_def intro!: steps)
qed

lemma spool_rest_leaves:
  assumes "P v" and "rest_at rest v"
  shows "leaves P rest_at (spool_rest env p c n rest v)"
proof -
  have "leaves P (\<lambda>_. at_key (pd_spool_key p)) (blob_spool env (pd_spool_key p) b n (pd_reader p) v)" for b
    by (intro leavesI spool_P assms(1)) (erule spool_at_key)
  note steps = leaves_andThen [OF leaves_map_errI, OF this]
  show ?thesis unfolding spool_rest_def
    by (cases rest; cases c) (use assms in \<open>auto intro!: steps\<close>)
qed

lemma row_reader_P: "P v \<Longrightarrow> P (snd (row_reader env p rest v))"
  using blob_P(2)
  by (auto simp: row_reader_def split: option.split prod.split sum.split) (metis snd_conv)+

lemma ask_broadcaster_P: "P v \<Longrightarrow> P (snd (ask_broadcaster env c rest v))"
  using wallet_announce_P(2) [of v] by (auto simp: ask_broadcaster_def split: prod.split)

lemma wallet_tx_P: "P v \<Longrightarrow> P (snd (wallet_tx env p c rest v))"
  unfolding wallet_tx_def hex_from_rest_def tx_text_def
  by (auto split: option.split intro!: andThen_state [where P = P] blob_P)

end

text \<open>The same steps with the bytes still there: the interface at \<open>P\<close> and \<open>rest_at rest\<close>.\<close>

lemma announce_subject_leaves:
  assumes V: "outward_steps env P" and "P v" and "rest_at rest v"
  shows "leaves P (\<lambda>(rest', _, _). rest_at rest') (announce_subject env p c n rest v)"
proof -
  obtain word v1 where ask: "ask_broadcaster env c rest v = (word, v1)" by (cases "ask_broadcaster env c rest v")
  with outward_steps.ask_broadcaster_P [OF rest_outward [OF V], of v rest c rest] assms(2,3)
  have v1: "P v1" "rest_at rest v1" by auto
  have owe: "leaves P (\<lambda>_. rest_at (Some (oa_key o1, st))) (ledger_owe_announce o1 w s)"
    if "P s" "at_key (oa_key o1) s" for o1 w s st
    by (rule leaves_mono [OF leaves_conj [where Q = "\<lambda>_ _. True"]])
       (use that outward_steps.owe_announce_P [OF rest_outward [OF V], of s "Some (oa_key o1, st)" o1 w] in
        \<open>auto simp: leaves_def\<close>)
  have said: "leaves P (\<lambda>(rest', _, _). rest_at rest')
      (andThen (spool_rest env p c n rest v1) (\<lambda>rest v. case rest of
          None \<Rightarrow> (Inr (rest, Some said, False), v)
        | Some (k, st) \<Rightarrow> andThen (map_err announce_owed_error
            (ledger_owe_announce \<lparr>oa_key = k, oa_etag = st_etag st, oa_txid = txid, oa_attempts = 0,
               oa_next_at = pd_now p\<rparr> (h_word said) v)) (\<lambda>_ v. (Inr (rest, Some said, True), v))))" for said txid
  proof (rule leaves_andThen [OF outward_steps.spool_rest_leaves [OF V v1]])
    fix r s assume s: "P s" "rest_at r s"
    show "leaves P (\<lambda>(rest', _, _). rest_at rest') (case r of
          None \<Rightarrow> (Inr (r, Some said, False), s)
        | Some (k, st) \<Rightarrow> andThen (map_err announce_owed_error
            (ledger_owe_announce \<lparr>oa_key = k, oa_etag = st_etag st, oa_txid = txid, oa_attempts = 0,
               oa_next_at = pd_now p\<rparr> (h_word said) s)) (\<lambda>_ v. (Inr (r, Some said, True), v)))"
    proof (cases r)
      case (Some kst)
      obtain k st where kst: "kst = (k, st)" by (cases kst)
      note o = owe [of s "\<lparr>oa_key = k, oa_etag = st_etag st, oa_txid = txid, oa_attempts = 0,
               oa_next_at = pd_now p\<rparr>" st "h_word said"]
      from s Some kst show ?thesis
        by (auto intro!: leaves_andThen [where Q = "\<lambda>_. rest_at (Some (k, st))"] o [simplified])
    qed (use s in simp)
  qed
  from said ask assms(2,3) v1 show ?thesis
    by (auto simp: announce_subject_def Let_def split: option.split)
qed

subsection \<open>The fee\<close>

context reclaiming
begin

lemma drop_spool_P: "P v \<Longrightarrow> P (drop_spool env p rest v)"
  by (auto simp: drop_spool_def intro: reclaim_P split: option.split)

lemma fee_still_owed_P: "P v \<Longrightarrow> P (snd (fee_still_owed env p c n rest args v))"
proof -
  assume "P v"
  then have "P (snd (wallet_tx env p c rest v))" by (rule wallet_tx_P)
  moreover have "P (snd (wallet_internalize a s))" if "P s" for s a by (rule wallet_announce_P [OF that])
  ultimately show ?thesis using \<open>P v\<close>
    by (auto simp: fee_still_owed_def split: prod.split sum.split bool.split intro!: drop_spool_P) (metis snd_conv)+
qed

end

text \<open>Whether the wallet is asked and what it says touch no table and no object, unless it refuses.\<close>

lemma fee_still_owed_keeps:
  assumes V: "outward_steps env P" and "P v" and "fee_still_owed env p c n rest args v = (Inr owed, v')"
  shows "P v'"
proof -
  have tx: "P s" if "wallet_tx env p c rest v = (r, s)" for r s
    using outward_steps.wallet_tx_P [OF V assms(2), of p c rest] that by simp
  have wallet: "P s'" if "wallet_internalize a s = (r, s')" "P s" for s s' a r
    using outward_steps.wallet_announce_P(1) [OF V that(2), of a] that(1) by simp
  show ?thesis using assms(2,3)
    by (auto simp: fee_still_owed_def split: prod.splits sum.splits bool.splits if_splits intro: tx wallet)
qed

definition fee_row_at :: "string \<Rightarrow> vault \<Rightarrow> bool" where
  "fee_row_at k v \<longleftrightarrow> (\<exists>r\<in>set (v_fees v). fr_key r = k)"

lemma fee_row_at_simps [simp]: "fee_row_at k (spend_trip v) = fee_row_at k v"
  by (simp add: fee_row_at_def)

text \<open>An answered defer leaves a row at the key; one that is owed when no row was there.\<close>

lemma ledger_defer_row:
  assumes "ledger_defer fee v = (Inr (), v')" and "\<And>r. r \<in> set (v_fees v) \<Longrightarrow> fr_key r = df_key fee \<Longrightarrow> fr_ended r = None"
  shows "owed_in (df_key fee) (v_fees v')"
proof -
  let ?R = "\<lambda>v. \<forall>r\<in>set (v_fees v). fr_key r = df_key fee \<longrightarrow> fr_ended r = None"
  have "\<exists>u. ?R u \<and> v' = DEFER_FEE_SQL fee u"
    by (rule v_write_rule(2) [where R = ?R, OF _ _ _ assms(1) [unfolded ledger_defer_def]])
       (use assms(2) in \<open>auto simp: DEFER_FEE_SQL_def new_fee_def\<close>)
  then obtain u where u: "?R u" "v' = DEFER_FEE_SQL fee u" by blast
  then show ?thesis
    by (cases "df_key fee \<in> fr_key ` set (v_fees u)") (fastforce simp: DEFER_FEE_SQL_def owed_in_def new_fee_def)+
qed

lemma word_same_names: "ledger_wallet_word v = (r, v') \<Longrightarrow> same_names v v'"
proof (cases "v_read v_word v")
  case (Pair q u)
  then show "ledger_wallet_word v = (r, v') \<Longrightarrow> ?thesis"
    using read_same_names [OF Pair] by (cases q) (auto simp: ledger_wallet_word_def)
qed

lemma owed_steps_rest:
  assumes V: "vault_steps env P" and "P v" and "at_key k v"
  shows "df_key fee = k \<Longrightarrow> leaves P (\<lambda>_. at_key k) (ledger_defer fee v)"
    and "leaves P (\<lambda>_. at_key k) (ledger_end k why v)"
    and "P (snd (ledger_wallet_word v))" "at_key k (snd (ledger_wallet_word v))"
proof -
  note K = present_steps [OF V, of k]
  have K1: "P v \<and> at_key k v" using assms by simp
  show "leaves P (\<lambda>_. at_key k) (ledger_defer fee v)" if "df_key fee = k"
    using vault_steps.defer_P [OF K K1, of fee] assms(3) that by (auto simp: leaves_def)
  show "leaves P (\<lambda>_. at_key k) (ledger_end k why v)"
    using vault_steps.ledger_P(3) [OF K K1, of k why] by (auto simp: leaves_def)
  show "P (snd (ledger_wallet_word v))" "at_key k (snd (ledger_wallet_word v))"
    using book_steps.ledger_reads_P(1) [OF vault_steps.axioms(1) [OF K] K1] by auto
qed

lemma word_ends_leaves:
  assumes V: "vault_steps env P" and "P v" and "at_key k v"
  shows "leaves P (\<lambda>_. at_key k) (word_ends p k v)"
proof -
  obtain q u where q: "ledger_wallet_word v = (q, u)" by (cases "ledger_wallet_word v")
  with owed_steps_rest(3,4) [OF assms] have u: "P u" "at_key k u" by auto
  note ended = leaves_andThen [OF leaves_map_errI, OF owed_steps_rest(2) [OF V u]]
  show ?thesis
    using q u by (auto simp: word_ends_def split: sum.split option.split intro!: ended)
qed

lemma defer_fee_leaves:
  assumes V: "vault_steps env P" and "P v" and "rest_at rest v"
  shows "leaves P (\<lambda>(rest', _). rest_at rest') (defer_fee env p c n rest args v)"
  unfolding defer_fee_def
proof (rule leaves_andThen [OF outward_steps.spool_rest_leaves [OF vault_outward [OF V] assms(2,3)]],
    rename_tac rest2 s, case_tac rest2)
  fix rest2 s kst assume s: "P s" "rest_at rest2 s" and r2: "rest2 = Some kst"
  obtain k st where kst: "kst = (k, st)" by (cases kst)
  have "leaves P (\<lambda>(rest', _). rest_at rest')
      (andThen (map_err fee_unavailable (ledger_defer fee s)) (\<lambda>_ v.
         andThen (word_ends p k v) (\<lambda>fee v. (Inr (rest2, fee), v))))" if "df_key fee = k" for fee
    by (rule leaves_andThen [OF leaves_map_errI, OF owed_steps_rest(1) [OF V s(1)]])
       (use s r2 kst that in \<open>auto intro!: leaves_andThen [OF word_ends_leaves [OF V]]\<close>)
  then show "leaves P (\<lambda>(rest', _). rest_at rest') (case rest2 of
         None \<Rightarrow> (Inl (error_answer 500 ''ERR_INTERNAL'' ''A deferred fee names no bytes at rest.''), s)
       | Some (k, st) \<Rightarrow>
           andThen (map_err fee_unavailable
               (ledger_defer \<lparr>df_key = k, df_etag = st_etag st, df_txid = or_empty (pd_txid p),
                  df_args = pe_text env args, df_named = pd_rows p, df_attempts = 0,
                  df_next_at = pd_now p\<rparr> s)) (\<lambda>_ v.
           andThen (word_ends p k v) (\<lambda>fee v. (Inr (rest2, fee), v))))"
    by (simp add: r2 kst)
qed simp

lemma record_fee_leaves:
  assumes C: "custodial env P" and "P v" and "rest_at rest v"
  shows "leaves P (\<lambda>(rest', _). rest_at rest') (record_fee env p c n rest v)"
proof -
  note V = custodial.axioms(1) [OF C]
  have owed: "leaves P (\<lambda>_. rest_at rest) (fee_still_owed env p c n rest args v)" for args
    using reclaiming.fee_still_owed_P [OF custodial.axioms(2) [OF C] assms(2)] assms(2,3)
      fee_still_owed_keeps [OF rest_outward [OF vault_outward [OF V]], of v rest]
    by (intro leavesI) auto
  show ?thesis unfolding record_fee_def
    by (auto simp: assms(2,3) Let_def split: option.split
        intro!: leaves_andThen [OF owed] defer_fee_leaves [OF V])
qed

text \<open>The object a hand-off says it kept is there.\<close>

definition kept_at :: "handed_off \<Rightarrow> vault \<Rightarrow> bool" where
  "kept_at h v \<longleftrightarrow> (\<forall>k. ho_kept h = Some k \<longrightarrow> at_key k v)"

lemma hand_off_tail_leaves:
  assumes "custodial env P" and "P v" and "rest_at rest v"
  shows "leaves P kept_at (hand_off_tail env p c said reader owed rest fee v)"
  using assms(2,3) reclaiming.drop_spool_P [OF custodial.axioms(2) [OF assms(1)] assms(2), of p rest]
  by (cases rest) (auto simp: hand_off_tail_def Let_def kept_at_def)

lemma hand_off_leaves:
  assumes C: "custodial env P" and "P v"
  shows "leaves P kept_at (hand_off env p v)"
proof -
  note V = custodial.axioms(1) [OF C]
  note U = vault_outward [OF V]
  have reader: "P w \<and> rest_at rest w" if "P s" "rest_at rest s" "row_reader env p rest s = (r, w)" for rest r s w
    using outward_steps.row_reader_P [OF rest_outward [OF U], of s rest p rest] that by simp
  have judged: "leaves P kept_at (judged_hand_off env p c rest s)"
    if "P s" "rest_at rest s" for c rest s
  proof -
    have first: "leaves P rest_at (if pd_rows p then spool_rest env p c n rest s else (Inr rest, s))" for n
      using that by (simp add: outward_steps.spool_rest_leaves [OF U])
    show ?thesis unfolding judged_hand_off_def Let_def
      by (rule leaves_andThen [OF first])
         (auto simp del: not_None_eq split: prod.split dest: reader
            intro!: leaves_andThen [OF announce_subject_leaves [OF U]] leaves_andThen [OF record_fee_leaves [OF C]]
              hand_off_tail_leaves [OF C])
  qed
  show ?thesis unfolding hand_off_def
    by (auto simp: assms(2) kept_at_def [where h = "handed_off.make _ _ _ _", simplified handed_off.defs, simplified]
        split: sum.split option.split
        intro!: leaves_andThen [OF outward_steps.paid_rest_leaves [OF U assms(2)]] judged)
qed

end
