(* ===== verification/Payment_Custody.thy ===== *)
theory Payment_Custody
  imports Handoff_Props
begin

section \<open>What a payment's whole processing keeps\<close>

text \<open>
  The door and \<open>process_payment\<close> under the interface \<open>custodial\<close>: the door writes and deletes its
  own state alone, and a payment answered leaves at its key the object its rows will name.
\<close>

subsection \<open>The door\<close>

lemma paid_by_state:
  assumes "P s" and "\<And>n s. P s \<Longrightarrow> P (snd (bytes_from n s))"
  shows "P (snd (paid_by d c t bytes_from s))"
proof -
  have bump: "P (snd (bump_bytes d bytes_from n s))" if "P s" for n s
    unfolding bump_bytes_def Let_def
    by (rule andThen_state [where P = P])
       (auto simp: assms(2) that split: option.split intro!: andThen_state [where P = P] assms(2))
  have proven: "P (snd (case pr of Some place \<Rightarrow> andThen (bump_bytes d bytes_from place s) (\<lambda>b s. (Inr (Some b), s))
      | None \<Rightarrow> (Inr None, s)))" if "P s" for pr s
    using that by (auto split: option.split intro!: andThen_state [where P = P] bump)
  show ?thesis
    by (auto simp: paid_by_def assms(1) split: sum.split option.split
        intro!: andThen_state [where P = P] assms(2) [OF assms(1)] proven bump)
qed

context reclaiming
begin

lemma state_clear_P: "P v \<Longrightarrow> P (snd (blob_clear env (state_key k) v))"
  unfolding blob_clear_def by (erule r2_call_P) (simp add: clear_state)

lemma door_ends_P:
  assumes "P v"
  shows "P (snd (door_pause env k st p cu asked roots v))" "P (snd (door_done env k verdict v))"
    "P (snd (object_from env k st n v))" "P (snd (door_reading env d k st cu0 pass v))"
proof -
  show "P (snd (door_pause env k st p cu asked roots v))" "P (snd (door_done env k verdict v))"
    unfolding door_pause_def door_done_def
    by (rule andThen_state [where P = P]; simp add: assms blob_P state_clear_P)+
  show opened: "P (snd (object_from env k st n v))" for n by (simp add: object_from_def assms blob_P)
  show "P (snd (door_reading env d k st cu0 pass v))"
    unfolding door_reading_def by (rule andThen_state [where P = P]) (auto simp: opened split: sum.split)
qed

lemma object_paid_P: "P v \<Longrightarrow> P (snd (paid_by d cu t (object_from env k st) v))"
  by (rule paid_by_state) (simp_all add: door_ends_P)

lemma door_roots_P: "P v \<Longrightarrow> P (snd (door_roots env d base t k st cu asked known v))"
  unfolding door_roots_def
  by (rule andThen_state [where P = P])
     (auto simp: Let_def door_ends_P object_paid_P split: option.split sum.split rooted.split
        intro!: andThen_state [where P = P] door_ends_P)

lemma door_scripts_P: "P v \<Longrightarrow> P (snd (door_scripts env d base t k st from known v))"
  unfolding door_scripts_def
  by (rule andThen_state [where P = P]) (auto simp: door_ends_P door_roots_P split: reading.split)

lemma door_structure_P: "P v \<Longrightarrow> P (snd (door_structure env d base t k st from v))"
  unfolding door_structure_def
  by (rule andThen_state [where P = P])
     (auto simp: door_ends_P split: reading.split sum.split
        intro!: andThen_state [where P = P] object_paid_P door_scripts_P)

lemma door_at_rest_P: "P v \<Longrightarrow> P (snd (door_at_rest env d base t k st v))"
  unfolding door_at_rest_def
  by (rule andThen_state [where P = P])
     (auto simp: blob_P door_structure_P door_scripts_P door_roots_P split: option.split phase.split)

lemma verify_at_rest_P: "P v \<Longrightarrow> P (snd (verify_at_rest_stamped env d k t v))"
  unfolding verify_at_rest_stamped_def
  by (auto simp: blob_P split: option.split intro!: andThen_state [where P = P] door_at_rest_P)

lemma judge_at_rest_P: "P v \<Longrightarrow> P (snd (judge_delivery_at_rest env d k out due sender v))"
  unfolding judge_delivery_at_rest_def
  by (auto simp: verify_at_rest_P split: sum.split at_rest_answer.split intro!: andThen_state [where P = P])

subsection \<open>The payment\<close>

lemma spool_inline_P: "P v \<Longrightarrow> P (snd (spool_inline env d c sender reader now v))"
  unfolding spool_inline_def Let_def
  by (rule andThen_state [where P = P])
     (auto simp: blob_P intro!: andThen_state [where P = P] simp: rows_writes_P spool_P)

lemma forget_spool_P: "P v \<Longrightarrow> P (forget_spool env k v)"
  by (simp add: forget_spool_def reclaim_P split: option.split)

lemma judge_inline_at_rest_P: "P v \<Longrightarrow> P (snd (judge_delivery_inline_at_rest env d tx out due sender reader now v))"
proof -
  assume "P v"
  then have spooled: "P s" if "spool_inline env d c sender reader now v = (r, s)" for c r s
    using spool_inline_P [of v d c sender reader now] that by simp
  have judged: "P s'" if "judge_delivery_at_rest env d k out due sender s = (r, s')" "P s" for k r s s'
    using judge_at_rest_P [of s d k out due sender] that by simp
  show ?thesis using \<open>P v\<close>
    by (auto simp: judge_delivery_inline_at_rest_def split: sum.split prod.split intro: spooled judged)
qed

lemma judge_delivery_P: "P v \<Longrightarrow> P (snd (judge_delivery env d payment r2 out due sender reader v))"
proof -
  assume "P v"
  have inline: "P s" if "judge_delivery_inline_at_rest env d tx out due sender reader now v = (x, s)" for tx now x s
    using judge_inline_at_rest_P [OF \<open>P v\<close>, of d tx out due sender reader now] that by simp
  show ?thesis using \<open>P v\<close>
    by (auto simp: judge_delivery_def split: option.split sum.split prod.split
        intro!: andThen_state [where P = P] judge_at_rest_P forget_spool_P intro: inline)
qed

lemma server_fee_judged_P:
  "P v \<Longrightarrow> P (snd (server_fee_judged env d payment r2 outs fee n sender reader v))"
  by (auto simp: server_fee_judged_def split: list.split sum.split
      intro!: andThen_state [where P = P] judge_delivery_P)

end

text \<open>A payment settled leaves the object it kept.\<close>

lemma process_payment_leaves:
  assumes C: "custodial env P" and "P v"
  shows "leaves P (\<lambda>se. kept_at (se_handed se)) (process_payment env d payment r2 fee_map fee sender v)"
proof -
  have judged: "leaves P (\<lambda>_ _. True) (server_fee_judged env d payment r2 outs fee n sender reader v)" for outs n reader
    by (simp add: leavesI reclaiming.server_fee_judged_P [OF custodial.axioms(2) [OF C] assms(2)])
  show ?thesis
    by (auto simp: process_payment_def assms(2) split: option.split sum.split
        intro!: leaves_andThen [OF judged] leaves_andThen [OF hand_off_leaves [OF C]])
qed

subsection \<open>The key a row names is the one that was kept\<close>

lemma map_of_put_pair: "map_of (put_pair k v ms) = (map_of ms)(k \<mapsto> v)"
  by (induction k v ms rule: put_pair.induct) auto

lemma get_member_put_member:
  "get_member j (put_member k v x) =
     (case x of JObj ms \<Rightarrow> if j = k then Some v else get_member j x | _ \<Rightarrow> get_member j x)"
  by (cases x) (simp_all add: map_of_put_pair)

lemma sender_fields_none: "k \<in> set ROW_FIELDS \<Longrightarrow> map_of (sender_fields p) k = None"
  by (auto simp: sender_fields_def map_of_eq_None_iff)

lemma payment_at_rest_key: "str_in ''beefR2Key'' (payment_at_rest p k st shape txid) = Some k"
  by (auto simp: payment_at_rest_def str_in_def Let_def map_of_put_pair split: option.split)

lemma payment_at_rest_obj: "\<exists>ms. payment_at_rest p k st shape txid = JObj ms"
  by (simp add: payment_at_rest_def Let_def)

lemma payment_in_row_key: "str_in ''beefR2Key'' (payment_in_row env p) = None"
  by (auto simp: payment_in_row_def str_in_def Let_def map_of_put_pair sender_fields_none ROW_FIELDS_def
      split: option.split)

lemma row_payment_key:
  "str_in ''beefR2Key'' (row_payment p c said reader kept) =
     (if pd_rows p then map_option fst kept else None)"
proof (cases kept)
  case (Some kst)
  obtain k st where kst: "kst = (k, st)" by (cases kst)
  obtain ms where ms: "payment_at_rest (pd_payment p) k st (paid_shape p c) (pd_txid p) = JObj ms"
    using payment_at_rest_obj by blast
  have "str_in ''beefR2Key'' (JObj ms) = Some k" using payment_at_rest_key ms by metis
  with Some kst ms show ?thesis
    by (auto simp: row_payment_def Let_def str_in_def map_of_put_pair split: option.split)
qed (simp add: row_payment_def str_in_def)

definition names_kept :: "handed_off \<Rightarrow> bool" where
  "names_kept h \<longleftrightarrow> (\<forall>k. str_in ''beefR2Key'' (ho_payment h) = Some k \<longrightarrow> ho_kept h = Some k)"

lemma hand_off_names_kept: "leaves (\<lambda>_. True) (\<lambda>h _. names_kept h) (hand_off env p v)"
proof -
  have any: "leaves (\<lambda>_. True) (\<lambda>_ _. True) r" for r :: "(answer, 'x, vault) outcome"
    by (cases r; cases "fst r") auto
  have tail: "leaves (\<lambda>_. True) (\<lambda>h _. names_kept h) (hand_off_tail env p c said reader owed rest fee v)"
    for c said reader owed rest fee v
    by (auto simp: hand_off_tail_def Let_def row_payment_key names_kept_def str_in_def [of _ JNull])
  have judged: "leaves (\<lambda>_. True) (\<lambda>h _. names_kept h) (judged_hand_off env p c rest v)" for c rest v
    unfolding judged_hand_off_def Let_def
    by (auto split: prod.split intro!: leaves_andThen [OF any] tail)
  have row: "names_kept \<lparr>ho_payment = payment_in_row env q, ho_fee = f, ho_kept = None, ho_hint = h\<rparr>"
    "names_kept \<lparr>ho_payment = JNull, ho_fee = f, ho_kept = None, ho_hint = h\<rparr>" for q f h
    by (simp_all add: names_kept_def payment_in_row_key str_in_def [of _ JNull])
  show ?thesis unfolding hand_off_def
    by (auto simp: row split: sum.split option.split intro!: leaves_andThen [OF any] judged)
qed

lemma process_payment_names_kept:
  assumes "process_payment env d payment r2 fee_map fee sender v = (Inr se, v')"
    and "str_in ''beefR2Key'' (ho_payment (se_handed se)) = Some k"
  shows "ho_kept (se_handed se) = Some k"
proof -
  obtain p u where "hand_off env p u = (Inr (se_handed se), v')"
    using assms(1)
    by (auto simp: process_payment_def andThen_Inr_iff split: option.splits sum.splits if_splits)
  from leavesD(2) [OF hand_off_names_kept this] assms(2) show ?thesis by (simp add: names_kept_def)
qed

end
