(* ===== verification/Send_Rows.thy ===== *)
theory Send_Rows
  imports Send_Route Payment_Custody Relay_Insert
begin

section \<open>The rows a send stores\<close>

text \<open>
  The trait \<open>SendStore\<close> as an interface, \<open>send_rows\<close>: a store holds rows, an insert answered
  \<open>Stored\<close> left its row there, and nothing else a send asks of the store writes a row. What
  \<open>store_send\<close> promises is proved once from it; the interface is interpreted on both stores, D1's and
  the hubs'.
\<close>

subsection \<open>What a hub holds, through a request\<close>

definition hub_messages :: "mailbox_db \<Rightarrow> message set" where
  "hub_messages db = message_of ` set (mbrows db)"

lemma hub_messages_renew: "message_of ` set (renew_rows is now rs) = message_of ` set rs"
proof -
  have "map message_of (renew_rows is now rs) = map message_of rs"
    by (simp add: renew_rows_def update_where_def message_of_def)
  then show ?thesis by (metis set_map)
qed

lemma hub_messages_change:
  assumes "row_change wanted (\<lambda>_. False) (\<lambda>_. False) db db'"
  shows "hub_messages db \<subseteq> hub_messages db' \<and> hub_messages db' \<subseteq> hub_messages db \<union> message_new ` Collect wanted"
  using assms
  by cases (auto simp: hub_messages_def hub_messages_renew no_acks message_fresh)

text \<open>
  The relay while hub \<open>n\<close> is asked: the others and D1's messages as they were, and hub \<open>n\<close> gains
  no message but of \<open>E\<close>.
\<close>

definition seat ::
  "string \<Rightarrow> (string \<Rightarrow> hub) \<Rightarrow> d1_message list \<Rightarrow> message set \<Rightarrow> message set \<Rightarrow> relay \<Rightarrow> bool" where
  "seat n H M S E rl \<longleftrightarrow>
     mailbox_inv (db_of n rl) \<and> (\<forall>m. m \<noteq> n \<longrightarrow> rl_hubs rl m = H m) \<and> d_messages (rl_d1 rl) = M \<and>
     S \<subseteq> hub_messages (db_of n rl) \<and> hub_messages (db_of n rl) \<subseteq> S \<union> E"

interpretation seated: hub_seat env n "seat n H M S E" "\<lambda>row. message_new row \<in> E" "\<lambda>_. False" "\<lambda>_. False" "\<lambda>_. True"
  for env n H M S E
proof
  fix rl db
  assume s: "seat n H M S E rl"
    and c: "row_change (\<lambda>row. message_new row \<in> E) (\<lambda>_. False) (\<lambda>_. False) (db_of n rl) db"
  from row_change_inv [OF c] hub_messages_change [OF c] s show "seat n H M S E (put_hub n db rl)"
    by (auto simp: seat_def)
next
  fix rl d assume s: "seat n H M S E rl" and t: "tables d = tables (rl_d1 rl)"
  from tables_fields(1) [OF t] s show "seat n H M S E (rl\<lparr>rl_d1 := d\<rparr>)" by (simp add: seat_def)
qed (simp_all add: seat_def)

lemma seat_post:
  assumes "seat n H M S E rl" and "fits (\<lambda>row. message_new row \<in> E) (\<lambda>_. False) (\<lambda>_. False) (\<lambda>_. True) req"
    and "\<And>b. req \<noteq> PostAck b"
  shows "seat n H M S E (snd (post_json env n req rl))"
  by (rule post_json_state [where P = "seat n H M S E", OF assms(1)], rule seated.hub_fetch_quiet_P)
     (simp_all add: assms(2,3), simp_all add: seat_def)

lemma set_retry_request:
  "(\<And>b. req \<noteq> PostAck b) \<Longrightarrow> set_retry req \<noteq> PostAck c"
  "fits wanted acks told who req \<Longrightarrow> fits wanted acks told who (set_retry req)"
  by (cases "(wanted, acks, told, who, req)" rule: fits.cases; auto)+

lemma seat_post_retry:
  assumes "seat n H M S E rl" and "fits (\<lambda>row. message_new row \<in> E) (\<lambda>_. False) (\<lambda>_. False) (\<lambda>_. True) req"
    and "\<And>b. req \<noteq> PostAck b"
  shows "seat n H M S E (snd (post_with_retry env n req rl))"
proof -
  obtain r1 s where one: "post_json env n req rl = (r1, s)" by (cases "post_json env n req rl")
  obtain r2 t where two: "post_json env n (set_retry req) s = (r2, t)" by (cases "post_json env n (set_retry req) s")
  have s: "seat n H M S E s" using seat_post [OF assms, of env] one by simp
  have "seat n H M S E (snd (post_json env n (set_retry req) s))"
    by (rule seat_post [OF s]) (use assms set_retry_request in \<open>auto\<close>)
  with s assms(1) one two show ?thesis
    by (auto simp: post_with_retry_def split: option.split sum.split)
qed

subsection \<open>An insert that says it is stored\<close>

lemma insert_retried_held:
  assumes "insert_mbx st row retry now b db = (Inr Retried, db')"
  shows "message_new row \<in> hub_messages db'"
proof -
  obtain held db1 where q: "query [ROWS] (sel_held (n_message_id row)) db = (Inr held, db1)"
    using assms by (auto simp: insert_mbx_def andThen_Inr_iff)
  from assms have same: "same_store db db'" by (cases rule: insert_Inr_cases) auto
  from q assms obtain h hs where h: "held = h # hs" "val_text (h ! 0) = Some (n_sender row)"
    "val_text (h ! 1) = Some (n_message_box row)" "val_text (h ! 2) = Some (n_body row)"
    by (auto simp: insert_mbx_def insert_under_bound_def andThen_Inr_iff Let_def split: list.splits if_splits)
  have "held = sel_held (n_message_id row) db" using q by (auto dest!: query_Inr simp: sel_held_def)
  with h(1) have "h \<in> set (sel_held (n_message_id row) db)" by (metis list.set_intros(1))
  then obtain r where "r \<in> set (mbrows db)" "r_message_id r = n_message_id row"
    "h = [VText (r_sender r), VText (r_message_box r), opt_val (r_body r)]"
    by (auto simp: sel_held_def)
  then have "message_of r = message_new row" and "r \<in> set (mbrows db')"
    using h same by (auto simp: message_of_def message_new_def same_storeD opt_val_def split: option.splits)
  then show ?thesis unfolding hub_messages_def by (metis imageI)
qed

lemma stored_answers:
  assumes run: "handle_insert env n (Inr b) rl = (Inr (v, st), rl')" and ok: "200 \<le> st" "st < 300"
    and "inserted_answer v = Inr SendStored" and inv: "mailbox_inv (db_of n rl)"
  shows "message_new (ib_row b) \<in> hub_messages (db_of n rl')"
proof -
  from run have "or_answer (ready_hub n (ib_identity b) rl) (refuse 500) (\<lambda>_ rl.
      or_answer (on_hub n (insert_mbx (re_time env) (ib_row b) (ib_retry b)
          (rl_now (replay env n (ib_identity b) rl)) RULED) (replay env n (ib_identity b) rl))
        (\<lambda>e. refuse 500 (''mailbox insert: '' @ e)) (insert_answers env n b)) = (Inr (v, st), rl')"
    by (simp add: handle_insert_def Let_def)
  then obtain u s where r: "ready_hub n (ib_identity b) rl = (Inr u, s)" and run2:
    "or_answer (on_hub n (insert_mbx (re_time env) (ib_row b) (ib_retry b)
          (rl_now (replay env n (ib_identity b) s)) RULED) (replay env n (ib_identity b) s))
        (\<lambda>e. refuse 500 (''mailbox insert: '' @ e)) (insert_answers env n b) = (Inr (v, st), rl')"
    by (rule or_answer_okE) (simp_all add: ok)
  let ?s = "replay env n (ib_identity b) s"
  from run2 obtain x t where "on_hub n (insert_mbx (re_time env) (ib_row b) (ib_retry b) (rl_now ?s) RULED) ?s = (Inr x, t)"
    and out: "insert_answers env n b x t = (Inr (v, st), rl')" by (rule or_answer_okE) (simp_all add: ok)
  then obtain db' where ins: "insert_mbx (re_time env) (ib_row b) (ib_retry b) (rl_now ?s) RULED (db_of n ?s) = (Inr x, db')"
    and t: "t = put_hub n db' ?s" by (auto simp: on_hub_Inr)
  have "seat n (rl_hubs rl) (d_messages (rl_d1 rl)) {} UNIV rl" using inv by (simp add: seat_def)
  from seated.ready_hub_P [OF this, of "ib_identity b"] r
  have "seat n (rl_hubs rl) (d_messages (rl_d1 rl)) {} UNIV s" by simp
  from seated.P_inv [OF seated.replay_P [OF this]] have inv': "mailbox_inv (db_of n ?s)" by simp
  have x: "x = Stored \<or> x = Retried"
    using out assms(4) by (cases x) (auto simp: insert_answers_def answer_def result_json_def inserted_answer_def)
  have held: "message_new (ib_row b) \<in> hub_messages db'"
    using x
  proof
    assume "x = Retried"
    with ins insert_retried_held show ?thesis by blast
  next
    assume "x = Stored"
    with ins show ?thesis
      by (cases rule: insert_Inr_cases) (auto simp: hub_messages_def message_fresh image_iff)
  qed
  have "mailbox_inv db'" using insert_inv [OF inv' RULED_small] ins by (metis snd_conv)
  then have start: "seat n (rl_hubs t) (d_messages (rl_d1 t)) (hub_messages db') {} t" using t by (simp add: seat_def)
  then have "seat n (rl_hubs t) (d_messages (rl_d1 t)) (hub_messages db') {} rl'"
    using out x seated.enqueue_ids_P [OF start] by (auto simp: insert_answers_def answer_def)
  with held show ?thesis by (auto simp: seat_def)
qed

lemma post_stored:
  assumes post: "post_with_retry env n (PostInsert (Inr b)) rl = (Inr v, rl')"
    and "inserted_answer v = Inr SendStored" and s: "seat n H M S {message_new (ib_row b)} rl"
  shows "message_new (ib_row b) \<in> hub_messages (db_of n rl')"
proof -
  let ?E = "{message_new (ib_row b)}"
  have served: "message_new (ib_row b) \<in> hub_messages (db_of n t)"
    if "post_json env n (PostInsert (Inr x)) s = (Inr v, t)" "ib_row x = ib_row b" "mailbox_inv (db_of n s)" for x s t
    using that(1)
  proof (rule post_json_served)
    fix st assume "hub_fetch env n (PostInsert (Inr x)) (s\<lparr>rl_hops := tl (rl_hops s)\<rparr>) = (Inr (v, st), t)"
      "200 \<le> st" "st < 300"
    with stored_answers [of env n x "s\<lparr>rl_hops := tl (rl_hops s)\<rparr>" v st t] assms(2) that(2,3) show ?thesis by simp
  qed
  obtain r1 t where one: "post_json env n (PostInsert (Inr b)) rl = (r1, t)"
    by (cases "post_json env n (PostInsert (Inr b)) rl")
  have t: "seat n H M S ?E t" using seat_post [OF s, of "PostInsert (Inr b)" env] one by simp
  have inv: "mailbox_inv (db_of n rl)" "mailbox_inv (db_of n t)" using s t by (simp_all add: seat_def)
  from post one show ?thesis
    using served [of b rl t] served [of "b\<lparr>ib_retry := True\<rparr>" t] inv
    by (auto simp: post_with_retry_def split: option.splits sum.splits prod.splits)
qed

subsection \<open>The interface of a store of sent rows\<close>

text \<open>A row as a send names it: recipient, message id, sender, body.\<close>

type_synonym sent_row = "string \<times> string \<times> string \<times> string"

definition quiet :: "('s \<Rightarrow> bool) \<Rightarrow> ('s \<Rightarrow> sent_row set) \<Rightarrow> 's \<Rightarrow> 's \<Rightarrow> bool" where
  "quiet ok held s t \<longleftrightarrow> ok t \<and> held t = held s"

lemma quiet_trans: "quiet ok held s t \<Longrightarrow> quiet ok held t u \<Longrightarrow> quiet ok held s u"
  by (simp add: quiet_def)

definition sent_of :: "pay_env \<Rightarrow> validated_send \<Rightarrow> string \<Rightarrow> paying \<Rightarrow> string \<times> string \<Rightarrow> sent_row" where
  "sent_of env val sender pg rm = (fst rm, snd rm, sender, stored_body env (vs_body val) (row_paid pg (fst rm)))"

definition pair_of :: "ctx \<Rightarrow> string \<times> string" where
  "pair_of c = (fst c, fst (snd c))"

definition pushed :: "hub_push \<Rightarrow> string \<times> string" where
  "pushed p = (hp_recipient p, hp_message_id p)"

lemma push_for_row_pushed [simp]:
  "map pushed (aa_pushes (push_for_row val sender r m a)) = map pushed (aa_pushes a) @ [(r, m)]"
  by (simp add: push_for_row_def pushed_def)

text \<open>
  What a send of \<open>todo\<close> came to from \<open>s\<close> to \<open>t\<close>: the first \<open>n\<close> were stored and are pushed; of
  the others the store gained at most the next one, whose answer was an error.
\<close>

definition send_came_to ::
  "('s \<Rightarrow> sent_row set) \<Rightarrow> (string \<times> string \<Rightarrow> sent_row) \<Rightarrow> (string \<times> string) list \<Rightarrow> nat \<Rightarrow> 's \<Rightarrow> 's \<Rightarrow> bool" where
  "send_came_to held sent todo n s t \<longleftrightarrow>
     n \<le> length todo \<and> sent ` set (take n todo) \<subseteq> held t \<and> held s \<subseteq> held t \<and>
     held t \<subseteq> held s \<union> sent ` set (take (Suc n) todo)"

lemma came_to_none: "held t = held s \<Longrightarrow> send_came_to held sent todo 0 s t"
  by (auto simp: send_came_to_def)

lemma came_to_ended:
  "held s \<subseteq> held t \<Longrightarrow> held t \<subseteq> insert (sent x) (held s) \<Longrightarrow> send_came_to held sent (x # todo) 0 s t"
  by (auto simp: send_came_to_def)

lemma came_to_stored:
  assumes "send_came_to held sent todo n t u" and "held s \<subseteq> held t" "held t \<subseteq> insert (sent x) (held s)" "sent x \<in> held t"
  shows "send_came_to held sent (x # todo) (Suc n) s u"
  using assms unfolding send_came_to_def by auto

lemma read_contexts_no_success:
  "read_contexts st sender mbox rms blocked ctxs fee s = (Inl (Success rs), t) \<Longrightarrow> False"
  by (induction rms arbitrary: blocked ctxs fee s)
     (auto simp: classify_store_error_def split: sum.splits prod.splits if_splits)

text \<open>A refusal the sender is answered before a row is tried.\<close>

fun refused :: "send_outcome \<Rightarrow> bool" where
  "refused (BlockedRecipients list) = True"
| "refused (PaymentFailed body status) = True"
| "refused out = False"

lemma insert_ends_no_refusal: "insert_ends r m ins = Some out \<Longrightarrow> \<not> refused out"
  by (cases "(r, m, ins)" rule: insert_ends.cases) (auto simp: classify_store_error_def split: if_splits)

lemma settle_unpaid: "settle_send st val sender ctxs fee s = (Inr pg, t) \<Longrightarrow> vs_payment val = None \<Longrightarrow> pg_handed pg = None"
  by (auto simp: settle_send_def split: if_splits)

lemma settle_send_no_success: "settle_send st val sender ctxs fee s = (Inl (Success rs), t) \<Longrightarrow> False"
  by (auto simp: settle_send_def split: if_splits option.splits sum.splits prod.splits)

locale send_rows =
  fixes st :: "'s send_store" and ok :: "'s \<Rightarrow> bool" and held :: "'s \<Rightarrow> sent_row set"
  assumes reads: "ok s \<Longrightarrow> quiet ok held s (snd (ss_context st r sender mbox s))"
    and charge: "ok s \<Longrightarrow> quiet ok held s (snd (ss_charge st sender n s))"
    and settle: "ok s \<Longrightarrow> quiet ok held s (snd (ss_settle st payment r2 fees fee sender s))"
    and make_box: "ok s \<Longrightarrow> quiet ok held s (snd (ss_box st r mbox s))"
    and forget: "ok s \<Longrightarrow> quiet ok held s (ss_forget st naming handed r2 failed s)"
    and row: "ok s \<Longrightarrow> ss_insert st mid b sender r body k s = (x, t) \<Longrightarrow>
      ok t \<and> held s \<subseteq> held t \<and> held t \<subseteq> insert (r, mid, sender, body) (held s) \<and>
      (x = Inr SendStored \<longrightarrow> (r, mid, sender, body) \<in> held t)"
begin

lemma read_contexts_quiet:
  assumes "ok s" and "read_contexts st sender mbox rms blocked ctxs fee s = (r, t)"
  shows "quiet ok held s t" and "r = Inr ([], ctxs', fee') \<Longrightarrow> blocked = [] \<and> map pair_of ctxs' = map pair_of ctxs @ rms"
proof -
  have "quiet ok held s t \<and> (\<forall>ctxs' fee'. r = Inr ([], ctxs', fee') \<longrightarrow> blocked = [] \<and> map pair_of ctxs' = map pair_of ctxs @ rms)"
    using assms
  proof (induction rms arbitrary: blocked ctxs fee s)
    case (Cons rm rms)
    obtain q u where q: "ss_context st (fst rm) sender mbox s = (q, u)" by (cases "ss_context st (fst rm) sender mbox s")
    with reads [OF Cons.prems(1), of "fst rm" sender mbox] have u: "quiet ok held s u" by simp
    then have "ok u" by (simp add: quiet_def)
    note rest = Cons.IH [OF this]
    show ?case
    proof (cases q)
      case (Inl e)
      with Cons.prems(2) q u show ?thesis by auto
    next
      case (Inr c)
      show ?thesis
      proof (cases "sc_recipient_fee c < 0")
        case True
        with Cons.prems(2) q Inr have "read_contexts st sender mbox rms (blocked @ [fst rm]) ctxs (sc_server_fee c) u = (r, t)"
          by simp
        from rest [OF this] quiet_trans [OF u] show ?thesis by auto
      next
        case False
        with Cons.prems(2) q Inr have "read_contexts st sender mbox rms blocked
            (ctxs @ [(fst rm, snd rm, sc_recipient_fee c, sc_box_id c)]) (sc_server_fee c) u = (r, t)"
          by simp
        from rest [OF this] quiet_trans [OF u] show ?thesis by (auto simp: pair_of_def)
      qed
    qed
  qed (auto simp: quiet_def)
  then show "quiet ok held s t" "r = Inr ([], ctxs', fee') \<Longrightarrow> blocked = [] \<and> map pair_of ctxs' = map pair_of ctxs @ rms"
    by blast+
qed

lemma settle_quiet:
  assumes "ok s" and "settle_send st val sender ctxs fee s = (r, t)"
  shows "quiet ok held s t"
proof -
  have settled: "quiet ok held s u" if "ss_settle st payment r2 fees fee sender s = (x, u)" for payment r2 fees x u
    using settle [OF assms(1), of payment r2 fees fee sender] that by simp
  have same: "quiet ok held s s" using assms(1) by (simp add: quiet_def)
  show ?thesis
  proof (cases "0 < fee \<or> list_ex (\<lambda>(_, _, f, _). 0 < f) ctxs")
    case True
    show ?thesis
    proof (cases "vs_payment val")
      case (Some payment)
      show ?thesis
      proof (cases "decide_r2_fetch payment sender")
        case (Inr r2)
        obtain x u where x: "ss_settle st payment r2 (fee_map_of ctxs) fee sender s = (x, u)"
          by (cases "ss_settle st payment r2 (fee_map_of ctxs) fee sender s")
        with assms(2) True Some Inr have "t = u" by (cases x) (auto simp: settle_send_def split: prod.splits)
        with settled [OF x] show ?thesis by simp
      qed (use assms(2) True Some same in \<open>auto simp: settle_send_def split: prod.splits\<close>)
    qed (use assms(2) True same in \<open>auto simp: settle_send_def\<close>)
  qed (use assms(2) same in \<open>auto simp: settle_send_def\<close>)
qed

definition came_to where
  "came_to env val sender pg ctxs results aft s out aft' t \<longleftrightarrow>
     (\<exists>n. ok t \<and> send_came_to held (sent_of env val sender pg) (map pair_of ctxs) n s t \<and>
        map pushed (aa_pushes aft') = map pushed (aa_pushes aft) @ take n (map pair_of ctxs) \<and>
        (\<forall>rs. out = Success rs \<longrightarrow> n = length ctxs \<and> rs = results @ map pair_of ctxs) \<and> \<not> refused out)"

lemma insert_rows_came_to:
  assumes "ok s" and "insert_rows env st val sender pg ctxs results naming aft s = ((out, aft'), t)"
  shows "came_to env val sender pg ctxs results aft s out aft' t"
  using assms
proof (induction ctxs arbitrary: results naming aft s)
  case Nil
  with forget [OF Nil.prems(1)] show ?case
    by (auto simp: came_to_def quiet_def intro!: came_to_none)
next
  case (Cons c cs)
  obtain r m f known where c: "c = (r, m, f, known)" by (cases c)
  let ?sent = "sent_of env val sender pg"
  let ?fail = "ss_forget st naming (pg_handed pg) (pg_r2_key pg) True"
  let ?k = "row_beef_key (row_paid pg r)"
  obtain q u where q: "(case known of Some b \<Rightarrow> (Inr b, s) | None \<Rightarrow> ss_box st r (vs_message_box val) s) = (q, u)"
    by (cases "case known of Some b \<Rightarrow> (Inr b, s) | None \<Rightarrow> ss_box st r (vs_message_box val) s")
  have u: "quiet ok held s u"
    using q make_box [OF Cons.prems(1), of r "vs_message_box val"] Cons.prems(1)
    by (auto simp: quiet_def split: option.splits)
  have ended: "came_to env val sender pg (c # cs) results aft s out' aft (?fail w)"
    if "ok w" "held s \<subseteq> held w" "held w \<subseteq> insert (?sent (r, m)) (held s)" "\<And>rs. out' \<noteq> Success rs"
      "\<not> refused out'" for w out'
    using that forget [OF that(1), of naming "pg_handed pg" "pg_r2_key pg" True] c
    by (auto simp: came_to_def quiet_def pair_of_def intro!: exI [of _ 0] came_to_ended)
  show ?case
  proof (cases q)
    case (Inl e)
    have "out = classify_store_error e" "aft' = aft" "t = ?fail u"
      using Cons.prems(2) q c Inl by (simp_all add: Let_def)
    moreover have "ok u" "held s \<subseteq> held u" "held u \<subseteq> insert (?sent (r, m)) (held s)" using u by (auto simp: quiet_def)
    ultimately show ?thesis using ended [of u out] by (simp add: classify_store_error_def)
  next
    case (Inr b)
    obtain ins w where ins: "ss_insert st m b sender r (stored_body env (vs_body val) (row_paid pg r)) ?k u = (ins, w)"
      by (cases "ss_insert st m b sender r (stored_body env (vs_body val) (row_paid pg r)) ?k u")
    have w: "ok w" "held s \<subseteq> held w" "held w \<subseteq> insert (?sent (r, m)) (held s)"
      "ins = Inr SendStored \<Longrightarrow> ?sent (r, m) \<in> held w"
      using row [OF _ ins] u by (auto simp: quiet_def sent_of_def)
    show ?thesis
    proof (cases "insert_ends r m ins")
      case (Some o')
      have "out = o'" "aft' = aft" "t = ?fail w"
        using Cons.prems(2) q c Inr ins Some by (simp_all add: Let_def)
      moreover have "o' \<noteq> Success rs" for rs
        using Some by (cases "(r, m, ins)" rule: insert_ends.cases) (auto simp: classify_store_error_def split: if_splits)
      ultimately show ?thesis using ended [OF w(1-3)] insert_ends_no_refusal [OF Some] by simp
    next
      case None
      then have stored: "ins = Inr SendStored" by (cases "(r, m, ins)" rule: insert_ends.cases) auto
      from Cons.prems(2) q c Inr ins None have
        rest: "insert_rows env st val sender pg cs (results @ [(r, m)]) (naming + (if ?k = None then 0 else 1))
          (push_for_row val sender r m aft) w = ((out, aft'), t)"
        by (simp add: Let_def)
      from Cons.IH [OF w(1) rest] obtain n where n: "ok t"
        "send_came_to held ?sent (map pair_of cs) n w t"
        "map pushed (aa_pushes aft') = map pushed (aa_pushes aft) @ [(r, m)] @ take n (map pair_of cs)"
        "\<forall>rs. out = Success rs \<longrightarrow> n = length cs \<and> rs = results @ [(r, m)] @ map pair_of cs" "\<not> refused out"
        by (auto simp: came_to_def)
      from came_to_stored [OF n(2) w(2,3) w(4) [OF stored]] n c show ?thesis
        by (auto simp: came_to_def pair_of_def intro!: exI [of _ "Suc n"])
    qed
  qed
qed

text \<open>
  The whole send: it stores and pushes the first \<open>n\<close> recipients in their order, all of them when it
  succeeds, and none when it is refused before an insert.
\<close>

definition send_answers where
  "send_answers env val sender s out aft t \<longleftrightarrow>
     (\<exists>pg n. ok t \<and> send_came_to held (sent_of env val sender pg) (vs_recipients val) n s t \<and>
        map pushed (aa_pushes aft) = take n (vs_recipients val) \<and>
        (\<forall>rs. out = Success rs \<longrightarrow> n = length (vs_recipients val) \<and> rs = vs_recipients val) \<and>
        (refused out \<longrightarrow> n = 0 \<and> held t = held s) \<and> (vs_payment val = None \<longrightarrow> pg_handed pg = None))"

lemma refused_answers:
  "quiet ok held s t \<Longrightarrow> (\<And>rs. out \<noteq> Success rs) \<Longrightarrow> send_answers env val sender s out nothing_owed t"
  unfolding send_answers_def
  by (rule exI [of _ "\<lparr>pg_outputs = [], pg_r2_key = None, pg_handed = None\<rparr>"], rule exI [of _ 0])
     (simp add: quiet_def nothing_owed_def came_to_none)

lemma inserted_answers:
  assumes "quiet ok held s u" and "map pair_of ctxs = vs_recipients val"
    and "insert_rows env st val sender pg ctxs [] naming nothing_owed u = ((out, aft), t)"
    and "vs_payment val = None \<longrightarrow> pg_handed pg = None"
  shows "send_answers env val sender s out aft t"
proof -
  have "ok u" "held u = held s" using assms(1) by (simp_all add: quiet_def)
  have len: "length ctxs = length (vs_recipients val)" using assms(2) by (metis length_map)
  from insert_rows_came_to [OF \<open>ok u\<close> assms(3)] obtain n where "ok t"
    "send_came_to held (sent_of env val sender pg) (vs_recipients val) n u t"
    "map pushed (aa_pushes aft) = take n (vs_recipients val)"
    "\<forall>rs. out = Success rs \<longrightarrow> n = length (vs_recipients val) \<and> rs = vs_recipients val" "\<not> refused out"
    unfolding came_to_def assms(2) len by (auto simp: nothing_owed_def)
  then show ?thesis
    unfolding send_answers_def send_came_to_def \<open>held u = held s\<close> using assms(4)
    by (intro exI [of _ pg] exI [of _ n]) simp
qed

lemma store_rows_answers:
  assumes "ok s" and "store_rows env st val sender s = ((out, aft), t)"
  shows "send_answers env val sender s out aft t"
proof (cases "ss_box_off st (vs_message_box val)")
  case True
  then have "\<exists>body status. out = ValidationError body status \<and> aft = nothing_owed \<and> t = s"
    using assms(2) by (auto simp: store_rows_def split: prod.splits)
  with refused_answers [of s s out] assms(1) show ?thesis by (auto simp: quiet_def)
next
  case False
  obtain r u where r: "read_contexts st sender (vs_message_box val) (vs_recipients val) [] [] 0 s = (r, u)"
    by (cases "read_contexts st sender (vs_message_box val) (vs_recipients val) [] [] 0 s")
  note u = read_contexts_quiet [OF assms(1) r]
  then have "ok u" by (simp add: quiet_def)
  show ?thesis
  proof (cases r)
    case (Inl o')
    with r have "\<And>rs. o' \<noteq> Success rs" by (auto dest!: read_contexts_no_success)
    with assms(2) False r Inl refused_answers [OF u(1)] show ?thesis by (auto simp: store_rows_def)
  next
    case (Inr x)
    obtain blocked ctxs fee where x: "x = (blocked, ctxs, fee)" by (cases x)
    obtain c w where c: "ss_charge st sender (unjudged_bytes env val fee) u = (c, w)"
      by (cases "ss_charge st sender (unjudged_bytes env val fee) u")
    have w: "quiet ok held s w" "ok w"
      using charge [OF \<open>ok u\<close>, of sender "unjudged_bytes env val fee"] c quiet_trans [OF u(1)] by (auto simp: quiet_def)
    obtain p y where p: "settle_send st val sender ctxs fee w = (p, y)" by (cases "settle_send st val sender ctxs fee w")
    have y: "quiet ok held s y" by (rule quiet_trans [OF w(1) settle_quiet [OF w(2) p]])
    show ?thesis
    proof (cases "blocked = []")
      case False
      with assms(2) \<open>\<not> ss_box_off st (vs_message_box val)\<close> r Inr x
      have "out = BlockedRecipients blocked" "aft = nothing_owed" "t = u" by (simp_all add: store_rows_def)
      with refused_answers [OF u(1)] show ?thesis by simp
    next
      case True
      note run = assms(2) [unfolded store_rows_def if_not_P [OF \<open>\<not> ss_box_off st (vs_message_box val)\<close>] r, unfolded Inr x,
          simplified, unfolded c]
      show ?thesis
      proof (cases c)
        case (Inl a)
        with run True have "\<exists>body status. out = ValidationError body status" "aft = nothing_owed" "t = w"
          by (auto split: prod.splits)
        with refused_answers [OF w(1)] show ?thesis by auto
      next
        case (Inr z)
        show ?thesis
        proof (cases p)
          case (Inl o')
          with run True \<open>c = Inr z\<close> p have "out = o'" "aft = nothing_owed" "t = y" by simp_all
          moreover have "o' \<noteq> Success rs" for rs using p Inl by (auto dest: settle_send_no_success)
          ultimately show ?thesis using refused_answers [OF y] by simp
        next
          case (Inr pg)
          with run True \<open>c = Inr z\<close> p
          have ins: "insert_rows env st val sender pg ctxs [] 0 nothing_owed y = ((out, aft), t)" by simp
          have pairs: "map pair_of ctxs = vs_recipients val" using u(2) \<open>r = Inr x\<close> x True by simp
          show ?thesis
            by (rule inserted_answers [OF y pairs ins]) (use settle_unpaid [OF p [unfolded Inr]] in blast)
        qed
      qed
    qed
  qed
qed

end

subsection \<open>The two stores\<close>

definition stored_rows :: "vault \<Rightarrow> sent_row set" where
  "stored_rows v =
     {(r, i, s, b). held_as i s r b (v_d1 v)} \<union>
     {(r, i, s, b). \<exists>mbox. (i, mbox, s, Some b) \<in> hub_messages (db_of r (v_relay v))}"

definition hubs_ok :: "vault \<Rightarrow> bool" where
  "hubs_ok v \<longleftrightarrow> (\<forall>n. mailbox_inv (db_of n (v_relay v)))"

definition same_rows :: "vault \<Rightarrow> vault \<Rightarrow> bool" where
  "same_rows v u \<longleftrightarrow> d_messages (v_d1 u) = d_messages (v_d1 v) \<and> rl_hubs (v_relay u) = rl_hubs (v_relay v)"

lemma same_rows_quiet: "hubs_ok v \<Longrightarrow> same_rows v u \<Longrightarrow> quiet hubs_ok stored_rows v u"
  by (simp add: quiet_def hubs_ok_def same_rows_def stored_rows_def held_as_def)

text \<open>A payment touches no row: the interface \<open>custodial\<close> at \<open>same_rows\<close>.\<close>

interpretation row_free: custodial env "same_rows v0" for env v0
  by unfold_locales (simp_all add: same_rows_def put_object_def Let_def)

lemma payment_same_rows: "same_rows v (snd (process_payment env d payment r2 fees fee sender v))"
  using leavesD(1) [OF process_payment_leaves [OF row_free.custodial_axioms, of v v]] by (simp add: same_rows_def)

lemma forget_same_rows: "same_rows v (forget_after_send env naming handed r2 failed v)"
proof -
  have "same_rows v v" by (simp add: same_rows_def)
  moreover have "same_rows v (snd (forget_unnamed env naming h r2 failed (snd (orphaned env k v))))" for h k
    by (rule row_free.forget_unnamed_P [OF row_free.orphaned_P [OF \<open>same_rows v v\<close>]])
  moreover have "same_rows v (snd (forget_unnamed env naming h r2 failed v))" for h
    by (rule row_free.forget_unnamed_P [OF \<open>same_rows v v\<close>])
  ultimately show ?thesis
    by (auto simp: forget_after_send_def Let_def split: option.split bool.split)
qed

lemma charge_same_rows: "same_rows v (snd (charge_on_d1 env vars sender n v))"
  by (auto simp: charge_on_d1_def same_rows_def Let_def split: option.split prod.split)

lemma on_relay_d1:
  assumes "on_relay (on_d1 op) v = (x, u)"
  obtains db' where "op (v_d1 v) = (x, db')" and "v_d1 u = db'" and "rl_hubs (v_relay u) = rl_hubs (v_relay v)"
  using assms by (auto simp: on_relay_def on_d1_def Let_def split: prod.splits)

lemma d1_insert_row:
  assumes "hubs_ok v" and "on_relay (on_d1 (worker_insert_message mid b sender r body k)) v = (x, t)"
  shows "hubs_ok t \<and> stored_rows v \<subseteq> stored_rows t \<and> stored_rows t \<subseteq> insert (r, mid, sender, body) (stored_rows v) \<and>
     (x = Inr SendStored \<longrightarrow> (r, mid, sender, body) \<in> stored_rows t)"
proof -
  obtain db' where w: "worker_insert_message mid b sender r body k (v_d1 v) = (x, db')"
    and t: "v_d1 t = db'" "rl_hubs (v_relay t) = rl_hubs (v_relay v)" by (rule on_relay_d1 [OF assms(2)])
  obtain y db2 where y: "insert_message mid b sender r body k (v_d1 v) = (y, db2)"
    by (cases "insert_message mid b sender r body k (v_d1 v)")
  with w have db2: "db2 = db'" and xy: "x = Inr SendStored \<longrightarrow> y = Inr True"
    by (cases y; auto simp: worker_insert_message_def split: if_splits)+
  note ins = insert_message_outcome [OF y]
  from ins db2 t have msgs: "d_messages (v_d1 t) = d_messages (v_d1 v) \<or>
      d_messages (v_d1 t) = d_messages (v_d1 v) @ [message_row mid b sender r body k (d_now (v_d1 v))]" by auto
  have "stored_rows v \<subseteq> stored_rows t" "stored_rows t \<subseteq> insert (r, mid, sender, body) (stored_rows v)"
    using msgs t(2) by (auto simp: stored_rows_def held_as_def message_row_def)
  moreover have "x = Inr SendStored \<longrightarrow> (r, mid, sender, body) \<in> stored_rows t"
    using ins xy db2 t(1) by (auto simp: stored_rows_def)
  ultimately show ?thesis using assms(1) t(2) by (simp add: hubs_ok_def)
qed

lemma d1_box_same_rows:
  assumes "on_relay (on_d1 (get_or_create_message_box r mbox)) v = (x, u)"
  shows "same_rows v u"
  using assms by (rule on_relay_d1) (auto simp: same_rows_def dest: get_or_create_keeps)

interpretation d1_rows: send_rows "worker_store env d vars" hubs_ok stored_rows for env d vars
proof
  fix s :: vault and r sender mbox
  assume ok: "hubs_ok s"
  obtain x u where x: "on_relay (on_d1 (read_send_context r sender mbox)) s = (x, u)"
    by (cases "on_relay (on_d1 (read_send_context r sender mbox)) s")
  from x have "same_rows s u"
  proof (rule on_relay_d1)
    fix db' assume r: "read_send_context r sender mbox (v_d1 s) = (x, db')" and u: "v_d1 u = db'"
      "rl_hubs (v_relay u) = rl_hubs (v_relay s)"
    from tables_fields(1) [OF read_send_context_tables [OF r]] u show ?thesis by (simp add: same_rows_def)
  qed
  with x ok show "quiet hubs_ok stored_rows s (snd (ss_context (worker_store env d vars) r sender mbox s))"
    by (simp add: worker_store_def same_rows_quiet)
next
  fix s :: vault and r mbox
  assume ok: "hubs_ok s"
  obtain x u where x: "on_relay (on_d1 (get_or_create_message_box r mbox)) s = (x, u)"
    by (cases "on_relay (on_d1 (get_or_create_message_box r mbox)) s")
  from d1_box_same_rows [OF x] x ok show "quiet hubs_ok stored_rows s (snd (ss_box (worker_store env d vars) r mbox s))"
    by (simp add: worker_store_def same_rows_quiet)
qed (simp_all add: worker_store_def same_rows_quiet payment_same_rows forget_same_rows charge_same_rows d1_insert_row)

text \<open>The hubs' store: an unpaid row goes to the recipient's hub, a paid one to D1.\<close>

lemma seat_start: "hubs_ok v \<Longrightarrow> seat n (rl_hubs (v_relay v)) (d_messages (v_d1 v)) (hub_messages (db_of n (v_relay v))) E (v_relay v)"
  by (simp add: seat_def hubs_ok_def)

lemma seat_rows:
  assumes "hubs_ok v" and "seat n (rl_hubs (v_relay v)) (d_messages (v_d1 v)) (hub_messages (db_of n (v_relay v))) E rl"
  shows "hubs_ok (v\<lparr>v_relay := rl\<rparr>)" and "stored_rows v \<subseteq> stored_rows (v\<lparr>v_relay := rl\<rparr>)"
    and "stored_rows (v\<lparr>v_relay := rl\<rparr>) \<subseteq> stored_rows v \<union> {(n, i, s, b) | i s b. \<exists>mbox. (i, mbox, s, Some b) \<in> E}"
proof -
  have other: "db_of m rl = db_of m (v_relay v)" if "m \<noteq> n" for m using assms(2) that by (simp add: seat_def)
  show "hubs_ok (v\<lparr>v_relay := rl\<rparr>)" unfolding hubs_ok_def
  proof
    fix m show "mailbox_inv (db_of m (v_relay (v\<lparr>v_relay := rl\<rparr>)))"
      using assms other [of m] by (cases "m = n") (simp_all add: seat_def hubs_ok_def)
  qed
  have d1: "held_as i s r b (rl_d1 rl) = held_as i s r b (v_d1 v)" for i s r b
    using assms(2) by (simp add: seat_def held_as_def)
  have hub: "hub_messages (db_of r (v_relay v)) \<subseteq> hub_messages (db_of r rl) \<and>
      hub_messages (db_of r rl) \<subseteq> hub_messages (db_of r (v_relay v)) \<union> (if r = n then E else {})" for r
    using assms(2) other [of r] by (cases "r = n") (auto simp: seat_def)
  show "stored_rows v \<subseteq> stored_rows (v\<lparr>v_relay := rl\<rparr>)"
    using hub by (fastforce simp: stored_rows_def d1)
  show "stored_rows (v\<lparr>v_relay := rl\<rparr>) \<subseteq> stored_rows v \<union> {(n, i, s, b) | i s b. \<exists>mbox. (i, mbox, s, Some b) \<in> E}"
  proof (rule subsetI, clarify)
    fix r i s b assume new: "(r, i, s, b) \<in> stored_rows (v\<lparr>v_relay := rl\<rparr>)" "(r, i, s, b) \<notin> stored_rows v"
    then obtain mbox where "(i, mbox, s, Some b) \<in> hub_messages (db_of r rl)"
      "(i, mbox, s, Some b) \<notin> hub_messages (db_of r (v_relay v))" by (auto simp: stored_rows_def d1)
    with hub [of r] have "r = n" "(i, mbox, s, Some b) \<in> E" by (auto split: if_splits)
    then show "\<exists>i' s' b'. (r, i, s, b) = (n, i', s', b') \<and> (\<exists>mbox. (i', mbox, s', Some b') \<in> E)" by blast
  qed
qed

lemma hub_insert_row:
  assumes ok: "hubs_ok v" and run: "on_relay (insert_message_on_hub renv mbox mid sender r body None) v = (x, t)"
  shows "hubs_ok t \<and> stored_rows v \<subseteq> stored_rows t \<and> stored_rows t \<subseteq> insert (r, mid, sender, body) (stored_rows v) \<and>
     (x = Inr SendStored \<longrightarrow> (r, mid, sender, body) \<in> stored_rows t)"
proof -
  define b where "b = \<lparr>ib_identity = r, ib_row = \<lparr>n_message_id = mid, n_message_box = mbox, n_sender = sender,
    n_body = body\<rparr>, ib_retry = False\<rparr>"
  let ?E = "{message_new (ib_row b)}"
  obtain y rl where y: "post_with_retry renv r (PostInsert (Inr b)) (v_relay v) = (y, rl)"
    by (cases "post_with_retry renv r (PostInsert (Inr b)) (v_relay v)")
  have t: "t = v\<lparr>v_relay := rl\<rparr>" "x = Inr SendStored \<longrightarrow> (\<exists>j. y = Inr j \<and> inserted_answer j = Inr SendStored)"
    using run y by (cases y; auto simp: on_relay_def insert_message_on_hub_def b_def Let_def)+
  note start = seat_start [OF ok, of r ?E]
  have seat: "seat r (rl_hubs (v_relay v)) (d_messages (v_d1 v)) (hub_messages (db_of r (v_relay v))) ?E rl"
    using seat_post_retry [OF start, of "PostInsert (Inr b)" renv] y by simp
  have E: "message_new (ib_row b) = (mid, mbox, sender, Some body)" by (simp add: b_def message_new_def)
  have "(r, mid, sender, body) \<in> stored_rows t" if "x = Inr SendStored"
  proof -
    from t(2) that obtain j where "y = Inr j" "inserted_answer j = Inr SendStored" by blast
    with post_stored [OF _ _ start] y E t(1) show ?thesis by (auto simp: stored_rows_def)
  qed
  with seat_rows [OF ok seat] E t(1) show ?thesis by auto
qed

lemma hub_paid_row:
  assumes ok: "hubs_ok v" and run: "on_relay (insert_message_on_hub renv mbox mid sender r body (Some k)) v = (x, t)"
  shows "hubs_ok t \<and> stored_rows v \<subseteq> stored_rows t \<and> stored_rows t \<subseteq> insert (r, mid, sender, body) (stored_rows v) \<and>
     (x = Inr SendStored \<longrightarrow> (r, mid, sender, body) \<in> stored_rows t)"
proof -
  obtain y rl where rl: "on_d1 (get_or_create_message_box r mbox) (v_relay v) = (y, rl)"
    by (cases "on_d1 (get_or_create_message_box r mbox) (v_relay v)")
  let ?u = "v\<lparr>v_relay := rl\<rparr>"
  have y: "on_relay (on_d1 (get_or_create_message_box r mbox)) v = (y, ?u)" using rl by (simp add: on_relay_def)
  have q: "quiet hubs_ok stored_rows v ?u" by (rule same_rows_quiet [OF ok d1_box_same_rows [OF y]])
  show ?thesis
  proof (cases y)
    case (Inl e)
    with run rl have "t = ?u" "x = Inl e" by (auto simp: on_relay_def insert_message_on_hub_def Let_def)
    with q show ?thesis by (auto simp: quiet_def)
  next
    case (Inr b)
    with run rl have "on_relay (on_d1 (worker_insert_message mid b sender r body (Some k))) ?u = (x, t)"
      by (auto simp: on_relay_def insert_message_on_hub_def Let_def split: prod.splits)
    from d1_insert_row [OF _ this] q show ?thesis by (simp add: quiet_def)
  qed
qed

interpretation hub_rows: send_rows "mailbox_send_store env d vars mbox" hubs_ok stored_rows for env d vars mbox
proof
  fix s :: vault and r sender mb
  assume ok: "hubs_ok s"
  let ?req = "PostContext (Inr \<lparr>cb_identity = r, cb_sender = sender, cb_message_box = mb\<rparr>)"
  obtain x rl where x: "read_send_context_on_hub (pe_relay env) r sender mb (v_relay s) = (x, rl)"
    by (cases "read_send_context_on_hub (pe_relay env) r sender mb (v_relay s)")
  then have "rl = snd (post_with_retry (pe_relay env) r ?req (v_relay s))"
    by (cases "post_with_retry (pe_relay env) r ?req (v_relay s)";
        cases "fst (post_with_retry (pe_relay env) r ?req (v_relay s))")
       (auto simp: read_send_context_on_hub_def)
  with seat_post_retry [OF seat_start [OF ok, of r "{}"], of ?req "pe_relay env"]
  have "seat r (rl_hubs (v_relay s)) (d_messages (v_d1 s)) (hub_messages (db_of r (v_relay s))) {} rl" by simp
  from seat_rows [OF ok this] x show "quiet hubs_ok stored_rows s (snd (ss_context (mailbox_send_store env d vars mbox) r sender mb s))"
    by (auto simp: mailbox_send_store_def quiet_def on_relay_def Let_def)
next
  fix s t :: vault and mid b sender r body k x
  assume ok: "hubs_ok s" and "ss_insert (mailbox_send_store env d vars mbox) mid b sender r body k s = (x, t)"
  then have run: "on_relay (insert_message_on_hub (pe_relay env) mbox mid sender r body k) s = (x, t)"
    by (simp add: mailbox_send_store_def)
  show "hubs_ok t \<and> stored_rows s \<subseteq> stored_rows t \<and> stored_rows t \<subseteq> insert (r, mid, sender, body) (stored_rows s) \<and>
     (x = Inr SendStored \<longrightarrow> (r, mid, sender, body) \<in> stored_rows t)"
  proof (cases k)
    case None
    with hub_insert_row [OF ok] run show ?thesis by simp
  next
    case (Some j)
    with hub_paid_row [OF ok] run show ?thesis by simp
  qed
qed (simp_all add: mailbox_send_store_def worker_store_def same_rows_quiet payment_same_rows forget_same_rows
    charge_same_rows quiet_def [of hubs_ok stored_rows s s for s])

end
