(* ===== verification/Send_Custody.thy ===== *)
theory Send_Custody
  imports Send_Rows
begin

section \<open>No object that is named is deleted\<close>

text \<open>
  The rule of \<open>src/src/handoff.rs\<close>, "an object goes only when nothing names it", over whole histories:
  sends on either store, the cron's drain and reclaims, uploads, acknowledgments, the archive's
  batches and the hubs' own work, under every failure of D1, the bucket, the wallet and the
  broadcaster. Operations follow one another; each is the code's own sequence of steps.
\<close>

subsection \<open>The invariant\<close>

definition custody :: "vault \<Rightarrow> bool" where
  "custody v \<longleftrightarrow> (\<forall>k. named_by k v \<and> \<not> starts_with ''door-state/'' k \<longrightarrow> at_key k v)"

lemma named_by_parts:
  "named_by k v \<longleftrightarrow> ROW_NAMES_KEY_SQL k v \<or> owed_in k (v_fees v) \<or> k \<in> an_key ` set (v_announces v)"
  by (simp add: named_by_def FEE_OWES_owed ANNOUNCE_OWES_key)

definition row_named :: "string \<Rightarrow> d1_db \<Rightarrow> bool" where
  "row_named k db \<longleftrightarrow> (\<exists>m\<in>set (d_messages db). dm_beef_key m = Some k \<and> dm_acknowledged_at m = None)"

lemma ROW_NAMES_row_named: "ROW_NAMES_KEY_SQL k v = row_named k (v_d1 v)"
  by (auto simp: ROW_NAMES_KEY_SQL_def row_named_def list_ex_iff)

lemmas custody_parts = custody_def named_by_parts ROW_NAMES_row_named

lemma row_named_trip [simp]: "row_named k (v_d1 (spend_trip v)) = row_named k (v_d1 v)"
  by (simp add: row_named_def)

lemma starts_with_state_key: "starts_with ''door-state/'' (state_key k)"
  by (simp add: starts_with_def state_key_def)

interpretation custody: custodial env custody for env
proof
  fix v :: vault and k bytes reader
  assume c: "custody v"
  show "custody (snd (put_object env k bytes reader v))"
    using c by (simp add: custody_parts put_object_def Let_def)
next
  fix v :: vault and ans :: "announce_row list"
  assume c: "custody v" and new: "\<And>k. k \<in> an_key ` set ans \<Longrightarrow> k \<in> an_key ` set (v_announces v) \<or> at_key k v"
  then show "custody (v\<lparr>v_announces := ans\<rparr>)"
    unfolding custody_parts by simp blast
next
  fix v :: vault and fs :: "fee_row list"
  assume c: "custody v" and new: "\<And>k. owed_in k fs \<Longrightarrow> owed_in k (v_fees v) \<or> at_key k v"
  then show "custody (v\<lparr>v_fees := fs\<rparr>)"
    unfolding custody_parts by simp blast
next
  fix v :: vault and k
  assume "custody v" "\<not> named_by k v"
  then show "custody (v\<lparr>v_objects := (v_objects v)(k := None)\<rparr>)"
    by (auto simp: custody_parts)
next
  fix v :: vault and k
  assume "custody v"
  then show "custody (v\<lparr>v_objects := (v_objects v)(state_key k := None)\<rparr>)"
    using starts_with_state_key [of k] by (auto simp: custody_parts)
qed (simp_all add: custody_parts)

text \<open>Rows let go of, or a row begun to be named whose object is there.\<close>

lemma custody_relay:
  assumes "custody v" and "\<And>k. row_named k (rl_d1 rl) \<Longrightarrow> row_named k (v_d1 v) \<or> at_key k v"
  shows "custody (v\<lparr>v_relay := rl\<rparr>)"
  using assms unfolding custody_parts by simp blast

definition fewer :: "d1_db \<Rightarrow> d1_db \<Rightarrow> bool" where
  "fewer db db' \<longleftrightarrow> (\<forall>k. row_named k db' \<longrightarrow> row_named k db)"

lemma fewer_trans: "fewer a b \<Longrightarrow> fewer b c \<Longrightarrow> fewer a c"
  by (simp add: fewer_def)

lemma fewer_same: "d_messages db' = d_messages db \<Longrightarrow> fewer db db'"
  by (simp add: fewer_def row_named_def)

lemma acknowledge_fewer:
  assumes "length (rc_prefixes c) \<le> 98" and "acknowledge_messages who ids c db = (r, db')"
  shows "fewer db db'"
proof -
  from acknowledge_messages_outcome [OF assms] have
    "d_messages db' = d_messages db \<or> d_messages db' = acked_messages who (set ids) c db"
    by (cases r) (auto simp: acking_def dest!: tables_fields(1))
  then show ?thesis
    by (auto simp: fewer_def row_named_def acked_messages_def set_update_where ack_mark_def)
qed

lemma fewer_update:
  assumes "d_messages db' = update_where p f (d_messages db)"
    and "\<And>m. dm_beef_key (f m) = dm_beef_key m" and "\<And>m. dm_acknowledged_at (f m) = None \<Longrightarrow> dm_acknowledged_at m = None"
  shows "fewer db db'"
  unfolding fewer_def row_named_def assms(1) set_update_where
  by (auto simp: assms(2) dest: assms(3))

lemma fewer_append: "d_messages db' = d_messages db @ [m] \<Longrightarrow> dm_beef_key m = None \<Longrightarrow> fewer db db'"
  by (auto simp: fewer_def row_named_def)

lemma upsert_fewer:
  assumes "ARCHIVE_UPSERT_SQL mid sender r body c a ver ow mbox db = Inr (n, db')"
  shows "fewer db db'"
proof (cases "SELECT_BOX_SQL ow mbox db")
  case (Cons bx rest)
  let ?ex = "excluded_row mid bx sender r body c a ver (d_now db)"
  show ?thesis
  proof (cases "find (\<lambda>m. dm_message_id m = mid) (d_messages db)")
    case None
    with assms Cons show ?thesis
      by (auto simp: ARCHIVE_UPSERT_SQL_def Let_def excluded_row_def intro!: fewer_append)
  next
    case (Some m)
    with assms Cons have "db' = db \<or> d_messages db' = update_where (\<lambda>m. dm_message_id m = mid)
        (upsert_update ?ex (d_now db)) (d_messages db)"
      by (auto simp: ARCHIVE_UPSERT_SQL_def Let_def split: if_splits)
    then show ?thesis
      by (auto simp: upsert_update_def split: option.splits intro: fewer_same elim!: fewer_update)
  qed
qed (use assms in \<open>simp add: ARCHIVE_UPSERT_SQL_def fewer_same\<close>)

lemma box_fewer: "ARCHIVE_BOX_SQL r mbox db = Inr (n, db') \<Longrightarrow> fewer db db'"
  by (auto simp: ARCHIVE_BOX_SQL_def INSERT_BOX_SQL_def fewer_def row_named_def split: if_splits)

lemma batch_fewer:
  assumes "\<And>n f db a db'. (n, f) \<in> set ss \<Longrightarrow> f db = Inr (a, db') \<Longrightarrow> fewer db db'"
    and "batch_stmt ss db = Inr (r, db')"
  shows "fewer db db'"
  using assms
proof (induction ss arbitrary: db r)
  case (Cons s ss)
  from Cons.prems(2) obtain a db1 r2 where one: "bounded_stmt (fst s) (snd s) db = Inr (a, db1)"
    and rest: "batch_stmt ss db1 = Inr (r2, db')" by (auto split: sum.splits)
  have "fewer db db1" using Cons.prems(1) [of "fst s" "snd s"] one
    by (auto simp: bounded_stmt_def split: if_splits)
  moreover have "fewer db1 db'" using Cons.IH [OF _ rest] Cons.prems(1) by (metis list.set_intros(2))
  ultimately show ?case by (rule fewer_trans)
qed (simp add: fewer_def)

lemma archive_batch_fewer:
  assumes "archive_batch batch db = (r, db')"
  shows "fewer db db'"
proof -
  have step: "fewer a b" if "d1_batch (concat (map statements ms)) a = (x, b)" for ms a b x
  proof -
    have sf: "fewer s s'" if "(n, f) \<in> set (concat (map statements ms))" "f s = Inr (y, s')" for n f s y s'
      using that by (auto simp: statements_def dest: upsert_fewer box_fewer)
    from \<open>d1_batch (concat (map statements ms)) a = (x, b)\<close> show ?thesis
      unfolding d1_batch_def
    proof (cases rule: d1_run_cases)
      case (kept e)
      then show ?thesis by (simp add: fewer_same)
    next
      case (landed e y)
      from batch_fewer [OF sf landed(3)] show ?thesis by (simp add: fewer_def row_named_def)
    next
      case (served y)
      from batch_fewer [OF sf served(3)] show ?thesis by (simp add: fewer_def row_named_def)
    qed
  qed
  have written: "fewer a b" if "with_d1_write_retry (d1_batch (concat (map statements ms))) a = (x, b)" for ms a b x
  proof -
    have "case x of Inr (v, q) \<Rightarrow> fewer a b | Inl e \<Rightarrow> fewer a b"
      by (rule write_retry_rule [OF _ _ _ that, where R = "\<lambda>_. fewer a" and Q = "\<lambda>_ _. fewer a"])
         (use step fewer_trans in \<open>auto simp: fewer_def\<close>)
    then show ?thesis by (simp split: sum.splits prod.splits)
  qed
  let ?loop = "held_rows_loop (chunks ARCHIVE_READ_CHUNK (remdups_adj (sort (map am_message_id batch)))) [] db"
  obtain x db1 where read: "?loop = (x, db1)" by (cases ?loop)
  have one: "fewer db db1" by (rule fewer_same [OF tables_fields(1) [OF held_rows_loop_tables [OF read]]])
  show ?thesis
  proof (cases x)
    case (Inl e)
    with assms read one show ?thesis by (auto simp: archive_batch_def Let_def)
  next
    case (Inr rows)
    define ap where "ap = applied_messages batch (plan batch (held_map rows))"
    obtain y db2 where w: "with_d1_write_retry (d1_batch (concat (map statements ap))) db1 = (y, db2)"
      by (cases "with_d1_write_retry (d1_batch (concat (map statements ap))) db1")
    from assms read Inr w one fewer_trans [OF one written [OF w]] show ?thesis
      by (cases y) (auto simp: archive_batch_def Let_def ap_def split: if_splits)
  qed
qed

subsection \<open>The store of a send keeps custody\<close>

definition kept_safe :: "vault \<Rightarrow> bool" where
  "kept_safe v \<longleftrightarrow> custody v \<and> hubs_ok v"

text \<open>What a row will name, once a payment is settled.\<close>

definition to_name :: "handed_off option \<Rightarrow> vault \<Rightarrow> bool" where
  "to_name h v \<longleftrightarrow> (\<forall>x. h = Some x \<longrightarrow> kept_at x v \<and> names_kept x)"

locale custody_store =
  fixes st :: "vault send_store"
  assumes reads: "kept_safe s \<Longrightarrow> kept_safe (snd (ss_context st r sender mbox s))"
    and charge: "kept_safe s \<Longrightarrow> kept_safe (snd (ss_charge st sender n s))"
    and settle: "kept_safe s \<Longrightarrow>
      leaves kept_safe (\<lambda>se. to_name (Some (se_handed se))) (ss_settle st payment r2 fees fee sender s)"
    and make_box: "kept_safe s \<Longrightarrow> ss_box st r mbox s = (y, t) \<Longrightarrow> kept_safe t \<and> v_objects t = v_objects s"
    and row: "kept_safe s \<Longrightarrow> (\<And>j. k = Some j \<Longrightarrow> at_key j s) \<Longrightarrow> ss_insert st mid b sender r body k s = (x, t) \<Longrightarrow>
      kept_safe t \<and> v_objects t = v_objects s"
    and forget: "kept_safe s \<Longrightarrow> kept_safe (ss_forget st naming handed r2 failed s)"
begin

lemma read_contexts_safe:
  "kept_safe s \<Longrightarrow> kept_safe (snd (read_contexts st sender mbox rms blocked ctxs fee s))"
proof (induction rms arbitrary: blocked ctxs fee s)
  case (Cons rm rms)
  obtain q u where q: "ss_context st (fst rm) sender mbox s = (q, u)" by (cases "ss_context st (fst rm) sender mbox s")
  with reads [OF Cons.prems, of "fst rm" sender mbox] have "kept_safe u" by simp
  with q Cons.IH show ?case by (cases q) auto
qed simp

lemma settle_safe:
  assumes "kept_safe s"
  shows "leaves kept_safe (\<lambda>pg. to_name (pg_handed pg)) (settle_send st val sender ctxs fee s)"
proof -
  have "leaves kept_safe (\<lambda>pg. to_name (pg_handed pg))
     (case ss_settle st payment r2 fees fee sender s of
        (Inl (body, status), s) \<Rightarrow> (Inl (PaymentFailed body status), s)
      | (Inr se, s) \<Rightarrow> (Inr \<lparr>pg_outputs = se_outputs se, pg_r2_key = r2, pg_handed = Some (se_handed se)\<rparr>, s))"
    for payment r2 fees
    using settle [OF assms, of payment r2 fees fee sender]
    by (cases "ss_settle st payment r2 fees fee sender s"; cases "fst (ss_settle st payment r2 fees fee sender s)")
       (auto split: prod.split)
  with assms show ?thesis
    by (auto simp: settle_send_def to_name_def [of None] split: option.split sum.split)
qed

lemma insert_rows_safe:
  assumes "kept_safe s" and "to_name (pg_handed pg) s"
  shows "kept_safe (snd (insert_rows env st val sender pg ctxs results naming aft s))"
  using assms
proof (induction ctxs arbitrary: results naming aft s)
  case (Cons c cs)
  obtain r m f known where c: "c = (r, m, f, known)" by (cases c)
  let ?k = "row_beef_key (row_paid pg r)"
  have at: "at_key j u" if "?k = Some j" "v_objects u = v_objects s" for j u
    using that Cons.prems(2)
    by (auto simp: row_beef_key_def row_paid_def to_name_def kept_at_def names_kept_def Option.bind_eq_Some_conv)
  obtain q u where q: "(case known of Some b \<Rightarrow> (Inr b, s) | None \<Rightarrow> ss_box st r (vs_message_box val) s) = (q, u)"
    by (cases "case known of Some b \<Rightarrow> (Inr b, s) | None \<Rightarrow> ss_box st r (vs_message_box val) s")
  have u: "kept_safe u" "v_objects u = v_objects s"
    using q make_box [OF Cons.prems(1), of r "vs_message_box val" q u] Cons.prems(1) by (auto split: option.splits)
  show ?case
  proof (cases q)
    case (Inl e)
    with q c forget [OF u(1)] show ?thesis by (simp add: Let_def)
  next
    case (Inr b)
    obtain ins w where ins: "ss_insert st m b sender r (stored_body env (vs_body val) (row_paid pg r)) ?k u = (ins, w)"
      by (cases "ss_insert st m b sender r (stored_body env (vs_body val) (row_paid pg r)) ?k u")
    have w: "kept_safe w" "v_objects w = v_objects s" using row [OF u(1) _ ins] at u(2) by auto
    then have "to_name (pg_handed pg) w" using Cons.prems(2) by (simp add: to_name_def kept_at_def)
    with Cons.IH [OF w(1)] forget [OF w(1)] q c Inr ins show ?thesis
      by (cases "insert_ends r m ins") (simp_all add: Let_def)
  qed
qed (simp add: forget)

lemma store_rows_safe: "kept_safe s \<Longrightarrow> kept_safe (snd (store_rows env st val sender s))"
proof -
  assume s: "kept_safe s"
  obtain r u where r: "read_contexts st sender (vs_message_box val) (vs_recipients val) [] [] 0 s = (r, u)"
    by (cases "read_contexts st sender (vs_message_box val) (vs_recipients val) [] [] 0 s")
  with read_contexts_safe [OF s, of sender "vs_message_box val" "vs_recipients val"] have u: "kept_safe u"
    by (metis snd_conv)
  have charged: "kept_safe w" if "ss_charge st sender n u = (c, w)" for n c w
    using charge [OF u, of sender n] that by simp
  have done_: "kept_safe (snd (case settle_send st val sender ctxs fee w of
        (Inl out, s) \<Rightarrow> ((out, nothing_owed), s)
      | (Inr pg, s) \<Rightarrow> insert_rows env st val sender pg ctxs [] 0 nothing_owed s))" if "kept_safe w" for ctxs fee w
    using settle_safe [OF that, of val sender ctxs fee]
    by (cases "settle_send st val sender ctxs fee w"; cases "fst (settle_send st val sender ctxs fee w)")
       (auto intro: insert_rows_safe)
  from s r u charged done_ show ?thesis
    by (auto simp: store_rows_def split: sum.split prod.split)
qed

end

subsection \<open>Both stores keep it\<close>

lemma hubs_ok_simps [simp]:
  "hubs_ok (spend_trip v) = hubs_ok v" "hubs_ok (v\<lparr>v_r2 := a\<rparr>) = hubs_ok v" "hubs_ok (v\<lparr>v_wallet := b\<rparr>) = hubs_ok v"
  "hubs_ok (v\<lparr>v_arc := c\<rparr>) = hubs_ok v" "hubs_ok (v\<lparr>v_claims := cs\<rparr>) = hubs_ok v"
  "hubs_ok (v\<lparr>v_minted := ms\<rparr>) = hubs_ok v" "hubs_ok (v\<lparr>v_released := ks\<rparr>) = hubs_ok v"
  "hubs_ok (v\<lparr>v_word := w\<rparr>) = hubs_ok v" "hubs_ok (v\<lparr>v_fees := fs\<rparr>) = hubs_ok v"
  "hubs_ok (v\<lparr>v_announces := ans\<rparr>) = hubs_ok v" "hubs_ok (v\<lparr>v_objects := obs\<rparr>) = hubs_ok v"
  "hubs_ok (snd (put_object env k bytes reader v)) = hubs_ok v"
  by (simp_all add: hubs_ok_def put_object_def Let_def)

interpretation safe: custodial env kept_safe for env
  by unfold_locales
     (simp_all add: kept_safe_def custody.trip custody.scripts custody.books custody.put custody.fees
        custody.announces custody.clear custody.clear_state)

lemma kept_safe_relay:
  assumes "kept_safe v" and "\<And>n. mailbox_inv (db_of n rl)"
    and "\<And>k. row_named k (rl_d1 rl) \<Longrightarrow> row_named k (v_d1 v) \<or> at_key k v"
  shows "kept_safe (v\<lparr>v_relay := rl\<rparr>)"
  using assms custody_relay by (simp add: kept_safe_def hubs_ok_def)

lemma kept_safe_d1:
  assumes "kept_safe v" and "on_relay (on_d1 op) v = (x, t)"
    and "\<And>y db'. op (v_d1 v) = (y, db') \<Longrightarrow> row_named k db' \<Longrightarrow> row_named k (v_d1 v) \<or> at_key k v"
  shows "v_objects t = v_objects v" and "(\<And>k y db'. op (v_d1 v) = (y, db') \<Longrightarrow> row_named k db' \<Longrightarrow> row_named k (v_d1 v) \<or> at_key k v) \<Longrightarrow> kept_safe t"
proof -
  obtain y db' where y: "op (v_d1 v) = (y, db')" by (cases "op (v_d1 v)")
  with assms(2) have t: "t = v\<lparr>v_relay := (v_relay v)\<lparr>rl_d1 := db'\<rparr>\<rparr>" by (simp add: on_relay_def on_d1_def)
  then show "v_objects t = v_objects v" by simp
  show "kept_safe t" if "\<And>k y db'. op (v_d1 v) = (y, db') \<Longrightarrow> row_named k db' \<Longrightarrow> row_named k (v_d1 v) \<or> at_key k v"
    unfolding t
    by (rule kept_safe_relay [OF assms(1)])
       (use assms(1) that [OF y] in \<open>auto simp: kept_safe_def hubs_ok_def\<close>)
qed

lemma insert_named:
  assumes "worker_insert_message mid b sender r body key db = (y, db')" and "row_named k db'"
  shows "row_named k db \<or> key = Some k"
proof -
  obtain z db2 where z: "insert_message mid b sender r body key db = (z, db2)"
    by (cases "insert_message mid b sender r body key db")
  with assms(1) have "db2 = db'" by (cases z) (auto simp: worker_insert_message_def)
  with insert_message_outcome [OF z] assms(2) show ?thesis
    by (auto simp: row_named_def message_row_def)
qed

lemma fewer_safe:
  assumes "kept_safe v" and "on_relay (on_d1 op) v = (x, t)" and "\<And>y db'. op (v_d1 v) = (y, db') \<Longrightarrow> fewer (v_d1 v) db'"
  shows "kept_safe t \<and> v_objects t = v_objects v"
  using kept_safe_d1 [OF assms(1,2)] assms(3) unfolding fewer_def by blast

lemma row_safe:
  assumes "kept_safe v" and "\<And>j. k = Some j \<Longrightarrow> at_key j v"
    and "on_relay (on_d1 (worker_insert_message mid b sender r body k)) v = (x, t)"
  shows "kept_safe t \<and> v_objects t = v_objects v"
  using kept_safe_d1 [OF assms(1,3)] insert_named assms(2) by blast

lemma settle_keeps_safe:
  assumes "kept_safe v"
  shows "leaves kept_safe (\<lambda>se. to_name (Some (se_handed se))) (process_payment env d payment r2 fees fee sender v)"
proof -
  have "leaves kept_safe (\<lambda>se. kept_at (se_handed se)) (process_payment env d payment r2 fees fee sender v)"
    by (rule process_payment_leaves [OF safe.custodial_axioms assms])
  then show ?thesis
    by (auto simp: leaves_def to_name_def names_kept_def dest: process_payment_names_kept)
qed

lemma forget_safe: "kept_safe v \<Longrightarrow> kept_safe (forget_after_send env naming handed r2 failed v)"
  by (auto simp: forget_after_send_def Let_def safe.forget_unnamed_P safe.orphaned_P split: option.split bool.split)

lemma charge_safe: "kept_safe v \<Longrightarrow> kept_safe (snd (charge_on_d1 env vars sender n v))"
  by (auto simp: charge_on_d1_def kept_safe_def custody_parts hubs_ok_def Let_def split: option.split prod.split)

lemma context_fewer: "read_send_context r sender mbox db = (y, db') \<Longrightarrow> fewer db db'"
  by (rule fewer_same [OF tables_fields(1) [OF read_send_context_tables]])

lemma box_made_fewer: "get_or_create_message_box r mbox db = (y, db') \<Longrightarrow> fewer db db'"
  by (rule fewer_same [OF get_or_create_keeps])

interpretation d1_custody: custody_store "worker_store env d vars" for env d vars
proof
  fix s :: vault and r sender mbox
  assume "kept_safe s"
  from fewer_safe [OF this, of "read_send_context r sender mbox"] context_fewer
  show "kept_safe (snd (ss_context (worker_store env d vars) r sender mbox s))"
    by (simp add: worker_store_def) (metis prod.collapse)
next
  fix s t :: vault and r mbox y
  assume "kept_safe s" "ss_box (worker_store env d vars) r mbox s = (y, t)"
  then show "kept_safe t \<and> v_objects t = v_objects s"
    by (intro fewer_safe [of s "get_or_create_message_box r mbox" y]) (auto simp: worker_store_def dest: box_made_fewer)
next
  fix s t :: vault and k mid b sender r body x
  assume "kept_safe s" "\<And>j. k = Some j \<Longrightarrow> at_key j s"
    "ss_insert (worker_store env d vars) mid b sender r body k s = (x, t)"
  then show "kept_safe t \<and> v_objects t = v_objects s"
    by (intro row_safe [where k = k]) (auto simp: worker_store_def)
qed (simp_all add: worker_store_def charge_safe settle_keeps_safe forget_safe)

lemma post_safe:
  assumes "kept_safe v" and "fits (\<lambda>_. True) (\<lambda>_. False) (\<lambda>_. False) (\<lambda>_. True) req" and "\<And>b. req \<noteq> PostAck b"
  shows "kept_safe (v\<lparr>v_relay := snd (post_with_retry renv n req (v_relay v))\<rparr>)"
proof -
  have ok: "hubs_ok v" using assms(1) by (simp add: kept_safe_def)
  have seat: "seat n (rl_hubs (v_relay v)) (d_messages (v_d1 v)) (hub_messages (db_of n (v_relay v))) UNIV
      (snd (post_with_retry renv n req (v_relay v)))"
    by (rule seat_post_retry [OF seat_start [OF ok]]) (use assms(2,3) in simp_all)
  from seat_rows(1) [OF ok seat] seat show ?thesis
    by (intro kept_safe_relay [OF assms(1)]) (simp_all add: hubs_ok_def seat_def row_named_def)
qed

lemma hub_row_safe:
  assumes "kept_safe v" and "\<And>j. k = Some j \<Longrightarrow> at_key j v"
    and "on_relay (insert_message_on_hub renv mbox mid sender r body k) v = (x, t)"
  shows "kept_safe t \<and> v_objects t = v_objects v"
proof (cases k)
  case None
  let ?b = "\<lparr>ib_identity = r, ib_row = \<lparr>n_message_id = mid, n_message_box = mbox, n_sender = sender,
    n_body = body\<rparr>, ib_retry = False\<rparr>"
  obtain y rl where y: "post_with_retry renv r (PostInsert (Inr ?b)) (v_relay v) = (y, rl)"
    by (cases "post_with_retry renv r (PostInsert (Inr ?b)) (v_relay v)")
  with assms(3) None have "t = v\<lparr>v_relay := rl\<rparr>" by (cases y) (auto simp: on_relay_def insert_message_on_hub_def)
  with post_safe [OF assms(1), of "PostInsert (Inr ?b)" renv r] y show ?thesis by simp
next
  case (Some j)
  obtain y rl where rl: "on_d1 (get_or_create_message_box r mbox) (v_relay v) = (y, rl)"
    by (cases "on_d1 (get_or_create_message_box r mbox) (v_relay v)")
  let ?u = "v\<lparr>v_relay := rl\<rparr>"
  have "on_relay (on_d1 (get_or_create_message_box r mbox)) v = (y, ?u)" using rl by (simp add: on_relay_def)
  from fewer_safe [OF assms(1) this] box_made_fewer have u: "kept_safe ?u" by blast
  show ?thesis
  proof (cases y)
    case (Inl e)
    with assms(3) rl Some u show ?thesis by (auto simp: on_relay_def insert_message_on_hub_def)
  next
    case (Inr b)
    with assms(3) rl Some have "on_relay (on_d1 (worker_insert_message mid b sender r body k)) ?u = (x, t)"
      by (auto simp: on_relay_def insert_message_on_hub_def Let_def split: prod.splits)
    from row_safe [OF u _ this] assms(2) show ?thesis by simp
  qed
qed

interpretation hub_custody: custody_store "mailbox_send_store env d vars mbox" for env d vars mbox
proof
  fix s :: vault and r sender mb
  assume s: "kept_safe s"
  let ?req = "PostContext (Inr \<lparr>cb_identity = r, cb_sender = sender, cb_message_box = mb\<rparr>)"
  obtain y rl where "post_with_retry (pe_relay env) r ?req (v_relay s) = (y, rl)"
    by (cases "post_with_retry (pe_relay env) r ?req (v_relay s)")
  with post_safe [OF s, of ?req "pe_relay env" r]
  show "kept_safe (snd (ss_context (mailbox_send_store env d vars mbox) r sender mb s))"
    by (cases y) (auto simp: mailbox_send_store_def on_relay_def read_send_context_on_hub_def)
next
  fix s t :: vault and k mid b sender r body x
  assume "kept_safe s" "\<And>j. k = Some j \<Longrightarrow> at_key j s"
    "ss_insert (mailbox_send_store env d vars mbox) mid b sender r body k s = (x, t)"
  then show "kept_safe t \<and> v_objects t = v_objects s"
    by (intro hub_row_safe [where k = k]) (auto simp: mailbox_send_store_def)
qed (auto simp: mailbox_send_store_def worker_store_def charge_safe settle_keeps_safe forget_safe)

subsection \<open>The machine\<close>

text \<open>
  The triggers of \<open>src/migrations/0004_beef_key.sql\<close>: a row that carried a key and is deleted, or
  is acknowledged, releases its key.
\<close>

definition let_go :: "d1_db \<Rightarrow> d1_db \<Rightarrow> string list" where
  "let_go db db' =
     List.map_filter (\<lambda>m.
       case find (\<lambda>x. dm_message_id x = dm_message_id m) (d_messages db') of
         None \<Rightarrow> dm_beef_key m
       | Some x \<Rightarrow>
           if dm_acknowledged_at x \<noteq> None \<and> dm_acknowledged_at x \<noteq> dm_acknowledged_at m
           then dm_beef_key m else None) (d_messages db)"

definition fire_triggers :: "vault \<Rightarrow> vault \<Rightarrow> vault" where
  "fire_triggers v u =
     u\<lparr>v_released := fold (\<lambda>k ks. if k \<in> set ks then ks else ks @ [k]) (let_go (v_d1 v) (v_d1 u)) (v_released u)\<rparr>"

datatype vault_call =
    VSend validated_send string
  | VCron
  | VUpload string string "string option"
  | VAck string "string list" retention_config
  | VArchive "archive_message_rec list"
  | VHubs "string \<Rightarrow> hub"
  | VFates "round_trip list" "hop list" "string option list" "r2_fate list" "(string + bool) list"
      "(string + hint) list" u64 string ms

fun vault_do ::
  "pay_env \<Rightarrow> door \<Rightarrow> (string \<Rightarrow> string option) \<Rightarrow> vault_call \<Rightarrow> vault \<Rightarrow> (string, send_outcome option, vault) outcome" where
  "vault_do env d vars (VSend val sender) v =
     (let ((out, _), u) = process_send env d vars val sender v in (Inr (Some out), u))"
| "vault_do env d vars VCron v = (Inr None, run_fee_drain env v)"
| "vault_do env d vars (VUpload k bytes reader) v = (Inr None, snd (put_object env k bytes reader v))"
| "vault_do env d vars (VAck who ids c) v =
     (Inr None, fire_triggers v (snd (on_relay (on_d1 (acknowledge_messages who ids c)) v)))"
| "vault_do env d vars (VArchive batch) v =
     (Inr None, fire_triggers v (snd (on_relay (on_d1 (archive_batch batch)) v)))"
| "vault_do env d vars (VHubs hs) v = (Inr None, v\<lparr>v_relay := (v_relay v)\<lparr>rl_hubs := hs\<rparr>\<rparr>)"
| "vault_do env d vars (VFates script hops sends r2 wallet arc now d1_now ms) v =
     (Inr None, v\<lparr>v_relay := (v_relay v)\<lparr>rl_d1 := (v_d1 v)\<lparr>d_script := script, d_now := d1_now\<rparr>,
        rl_hops := hops, rl_sends := sends, rl_now := ms\<rparr>, v_r2 := r2, v_wallet := wallet, v_arc := arc, v_now := now\<rparr>)"

fun vault_call_ok :: "vault_call \<Rightarrow> bool" where
  "vault_call_ok (VAck who ids c) = (length (rc_prefixes c) \<le> 98)"
| "vault_call_ok (VHubs hs) = (\<forall>n. mailbox_inv (hub_db (hs n)))"
| "vault_call_ok _ = True"

lemma process_send_safe: "kept_safe v \<Longrightarrow> kept_safe (snd (process_send env d vars val sender v))"
  by (auto simp: process_send_def store_send_def hub_custody.store_rows_safe d1_custody.store_rows_safe
      split: sum.split prod.split)

lemma triggers_safe: "kept_safe u \<Longrightarrow> kept_safe (fire_triggers v u)"
  by (simp add: fire_triggers_def safe.books)

interpretation vault: kept "vault_do env d vars" vault_call_ok kept_safe for env d vars
proof
  fix s c
  assume s: "kept_safe s" and ok: "vault_call_ok c"
  have d1: "kept_safe (snd (on_relay (on_d1 op) s))" if "\<And>y db'. op (v_d1 s) = (y, db') \<Longrightarrow> fewer (v_d1 s) db'" for op :: "'x d1"
    using fewer_safe [OF s surjective_pairing [of "on_relay (on_d1 op) s"]] that by blast
  show "kept_safe (snd (vault_do env d vars c s))"
  proof (cases c)
    case (VSend val sender)
    with process_send_safe [OF s] show ?thesis by (simp add: split_def Let_def)
  next
    case (VAck who ids cfg)
    have "kept_safe (snd (on_relay (on_d1 (acknowledge_messages who ids cfg)) s))"
      by (rule d1, rule acknowledge_fewer [of cfg]) (use VAck ok in simp_all)
    with VAck triggers_safe show ?thesis by simp
  next
    case (VArchive batch)
    have "kept_safe (snd (on_relay (on_d1 (archive_batch batch)) s))"
      by (rule d1) (rule archive_batch_fewer)
    with VArchive triggers_safe show ?thesis by simp
  next
    case (VHubs hs)
    then show ?thesis using s ok unfolding kept_safe_def custody_parts hubs_ok_def by simp
  next
    case (VFates a b c' d' e f g h i)
    then show ?thesis using s unfolding kept_safe_def custody_parts hubs_ok_def row_named_def by simp
  next
    case VCron
    with s show ?thesis by (simp add: safe.run_fee_drain_P)
  next
    case (VUpload k bytes reader)
    with s show ?thesis by (simp add: safe.put)
  qed
qed

end
