(* ===== verification/Fee_Props.thy ===== *)
theory Fee_Props
  imports Payment_Custody
begin

section \<open>Deferred fees: owed once deferred, tried a bounded number of times\<close>

text \<open>
  The fee ledger through a send's hand-off and the cron's drains: the steps of a payment that leave
  the fees alone (an interpretation of \<open>reclaiming\<close>), what a deferral does to the ledger, and that
  each drain that answers raises the attempts of a fee it takes up or ends it.
\<close>

subsection \<open>What leaves the fees alone\<close>

interpretation fees_still: reclaiming env "\<lambda>v. v_fees v = F" for env F
  by unfold_locales (simp_all add: put_object_def Let_def)

lemmas fees_outward = book_steps.axioms(1) [OF reclaiming.axioms(1), OF fees_still.reclaiming_axioms]

lemma leaves_state: "P (snd r) \<Longrightarrow> leaves (\<lambda>_. True) (\<lambda>_. P) r"
  by (cases r; cases "fst r") auto

subsection \<open>A deferred fee is owed\<close>

text \<open>
  \<open>INSERT OR IGNORE\<close>: a fee deferred is owed where no row was at its key, or an owed one; a row that
  has ended stays, and nothing is owed.
\<close>

definition can_owe :: "string \<Rightarrow> fee_row list \<Rightarrow> bool" where
  "can_owe k fs \<longleftrightarrow> k \<notin> fr_key ` set fs \<or> owed_in k fs"

lemma ledger_defer_exact:
  assumes "ledger_defer fee v = (Inr (), v')"
  shows "owed_in (df_key fee) (v_fees v') = can_owe (df_key fee) (v_fees v)"
proof -
  let ?k = "df_key fee"
  let ?R = "\<lambda>u. v_fees u = v_fees v \<or> ?k \<notin> fr_key ` set (v_fees v) \<and> owed_in ?k (v_fees u)"
  have stmt: "?R (DEFER_FEE_SQL fee u)" "owed_in ?k (v_fees (DEFER_FEE_SQL fee u)) = can_owe ?k (v_fees v)" if "?R u" for u
    using that by (auto simp: DEFER_FEE_SQL_def new_fee_def owed_in_snoc can_owe_def)
  have "\<exists>u. ?R u \<and> v' = DEFER_FEE_SQL fee u"
    by (rule v_write_rule(2) [where R = ?R, OF _ _ stmt(1) assms [unfolded ledger_defer_def]]) simp_all
  with stmt(2) show ?thesis by blast
qed

definition owed_if_deferred :: "fee_row list \<Rightarrow> at_rest \<times> fee \<Rightarrow> vault \<Rightarrow> bool" where
  "owed_if_deferred fs x v \<longleftrightarrow>
     (snd x = Deferred \<longrightarrow> (\<exists>k st. fst x = Some (k, st) \<and> owed_in k (v_fees v) = can_owe k fs))"

lemma spool_fees: "leaves (\<lambda>_. True) (\<lambda>_ v'. v_fees v' = v_fees v) (spool_rest env p c n rest v)"
  using outward_steps.spool_rest_leaves [OF fees_outward, of v "v_fees v" None env p c n]
    outward_steps.spool_rest_leaves [OF fees_outward, of v "v_fees v" rest env p c n]
  by (intro leaves_state) (cases rest; cases c; auto simp: spool_rest_def leaves_def)

lemma word_ends_fees:
  assumes "word_ends p k v = (Inr Deferred, v')"
  shows "v_fees v' = v_fees v"
proof (cases "ledger_wallet_word v")
  case (Pair q u)
  then have "v_fees u = v_fees v" using word_same_names [OF Pair] by (simp add: same_names_def)
  with assms Pair show ?thesis
    by (auto simp: word_ends_def andThen_Inr_iff split: sum.splits option.splits if_splits)
qed

lemma defer_fee_owed: "leaves (\<lambda>_. True) (owed_if_deferred (v_fees v)) (defer_fee env p c n rest args v)"
proof -
  have one: "leaves (\<lambda>_. True) (owed_if_deferred (v_fees v)) (case r of
         None \<Rightarrow> (Inl a, s)
       | Some (k, st) \<Rightarrow>
           andThen (map_err fee_unavailable
               (ledger_defer \<lparr>df_key = k, df_etag = st_etag st, df_txid = or_empty (pd_txid p),
                  df_args = pe_text env args, df_named = pd_rows p, df_attempts = 0,
                  df_next_at = pd_now p\<rparr> s)) (\<lambda>_ v.
           andThen (word_ends p k v) (\<lambda>fee v. (Inr (r, fee), v))))" if still: "v_fees s = v_fees v" for r s a
  proof (cases r)
    case (Some kst)
    obtain k st where kst: "kst = (k, st)" by (cases kst)
    have "owed_if_deferred (v_fees v) (r, f) w"
      if "ledger_defer fee s = (Inr (), u)" "df_key fee = k" "word_ends p k u = (Inr f, w)" for fee u f w
      using that ledger_defer_exact [OF that(1)] word_ends_fees [of p k u w] Some kst
      by (auto simp: owed_if_deferred_def still)
    then show ?thesis using Some kst
      by (auto simp: leaves_def andThen_Inr_iff)
  qed simp
  show ?thesis unfolding defer_fee_def
    by (rule leaves_andThen [OF spool_fees]) (rule one)
qed

lemma record_fee_owed: "leaves (\<lambda>_. True) (owed_if_deferred (v_fees v)) (record_fee env p c n rest v)"
proof -
  have still: "leaves (\<lambda>_. True) (\<lambda>_ s. v_fees s = v_fees v) (fee_still_owed env p c n rest args v)" for args
    using fee_still_owed_keeps [OF fees_outward, of v "v_fees v"] by (auto simp: leaves_def)
  have owed: "leaves (\<lambda>_. True) (owed_if_deferred (v_fees v)) (defer_fee env p c n rest args s)"
    if "v_fees s = v_fees v" for s args using defer_fee_owed [of s] that by simp
  show ?thesis unfolding record_fee_def
    by (auto simp: Let_def owed_if_deferred_def split: option.split intro!: leaves_andThen [OF still] owed)
qed

lemma announce_fees: "leaves (\<lambda>_. True) (\<lambda>_ v'. v_fees v' = v_fees v) (announce_subject env p c n rest v)"
proof -
  have asked: "v_fees u = v_fees v" if "ask_broadcaster env c rest v = (w, u)" for w u
    using outward_steps.ask_broadcaster_P [OF fees_outward, of v "v_fees v" env c rest] that by simp
  have owe: "leaves (\<lambda>_. True) (\<lambda>_ u. v_fees u = v_fees v) (ledger_owe_announce o1 w s)" if "v_fees s = v_fees v" for o1 w s
    unfolding ledger_owe_announce_def
    by (rule leaves_state, rule v_write_rule(1) [where R = "\<lambda>u. v_fees u = v_fees v"])
       (simp_all add: that OWE_ANNOUNCE_SQL_def)
  have spooled: "leaves (\<lambda>_. True) (\<lambda>_ u. v_fees u = v_fees v) (spool_rest env p c n rest s)" if "v_fees s = v_fees v" for s
    using spool_fees [of s env p c n rest] that by simp
  show ?thesis unfolding announce_subject_def
    by (auto simp: Let_def split: option.split prod.split dest: asked
        intro!: leaves_andThen [OF spooled] leaves_andThen [OF leaves_map_errI, OF owe])
qed

definition handed_owed :: "fee_row list \<Rightarrow> handed_off \<Rightarrow> vault \<Rightarrow> bool" where
  "handed_owed fs h v \<longleftrightarrow>
     (ho_fee h = Deferred \<longrightarrow> (\<exists>k. ho_kept h = Some k \<and> owed_in k (v_fees v) = can_owe k fs))"

lemma hand_off_owed: "leaves (\<lambda>_. True) (handed_owed (v_fees v)) (hand_off env p v)"
proof -
  let ?F = "v_fees v"
  let ?still = "\<lambda>_ s. v_fees s = ?F"
  have tail: "leaves (\<lambda>_. True) (handed_owed ?F) (hand_off_tail env p c said reader owed (fst x) (snd x) s)"
    if "owed_if_deferred ?F x s" for c said reader owed x s
    using that by (auto simp: hand_off_tail_def handed_owed_def owed_if_deferred_def Let_def)
  have reader: "v_fees w = v_fees s" if "row_reader env p rest s = (r, w)" for rest s r w
    using outward_steps.row_reader_P [OF fees_outward, of s "v_fees s" env p rest] that by simp
  have said: "leaves (\<lambda>_. True) ?still (announce_subject env p c n rest s)" if "v_fees s = ?F" for c n rest s
    using announce_fees [of s env p c n rest] that by simp
  have recorded: "leaves (\<lambda>_. True) (owed_if_deferred ?F) (record_fee env p c n rest s)" if "v_fees s = ?F" for c n rest s
    using record_fee_owed [of s env p c n rest] that by simp
  have first: "leaves (\<lambda>_. True) ?still (if pd_rows p then spool_rest env p c n rest s else (Inr rest, s))"
    if "v_fees s = ?F" for c n rest s
    using spool_fees [of s env p c n rest] that by simp
  have judged: "leaves (\<lambda>_. True) (handed_owed ?F) (judged_hand_off env p c rest s)" if "v_fees s = ?F" for c rest s
    unfolding judged_hand_off_def Let_def
    by (rule leaves_andThen [OF first [OF that]])
       (use tail [of "(a, b)" for a b] reader in \<open>auto split: prod.split intro!: leaves_andThen [OF said] leaves_andThen [OF recorded]\<close>)
  have rested: "leaves (\<lambda>_. True) ?still (paid_rest env p v)"
    by (rule leaves_state) (use leavesD(1) [OF outward_steps.paid_rest_leaves [OF fees_outward, of v ?F env p]] in simp)
  show ?thesis unfolding hand_off_def
    by (auto simp: handed_owed_def [where h = "\<lparr>ho_payment = _, ho_fee = _, ho_kept = _, ho_hint = _\<rparr>"]
        split: sum.split option.split intro!: leaves_andThen [OF rested] judged)
qed

subsection \<open>The drain gives each fee it takes up a bounded number of tries\<close>

definition rows_at :: "string \<Rightarrow> fee_row list \<Rightarrow> fee_row list" where
  "rows_at k fs = filter (\<lambda>r. fr_key r = k) fs"

lemma rows_at_update:
  assumes "\<And>r. fr_key (f r) = fr_key r"
  shows "rows_at j (update_where (\<lambda>r. fr_key r = k) f fs) = (if j = k then map f (rows_at k fs) else rows_at j fs)"
  by (induction fs) (auto simp: rows_at_def assms)

lemma rows_at_filter: "rows_at j (filter (\<lambda>r. fr_key r \<noteq> k) fs) = (if j = k then [] else rows_at j fs)"
  by (induction fs) (auto simp: rows_at_def)

definition FEE_TRIES :: int where
  "FEE_TRIES = int FEE_ATTEMPTS_CEILING"

text \<open>One try of the fee at \<open>k\<close>, its \<open>n\<close> attempts behind it: gone, ended or put off once more.\<close>

definition tried_once :: "string \<Rightarrow> nat \<Rightarrow> fee_row list \<Rightarrow> fee_row list \<Rightarrow> bool" where
  "tried_once k n fs gs \<longleftrightarrow>
     (\<forall>j. j \<noteq> k \<longrightarrow> rows_at j gs = rows_at j fs) \<and> length (rows_at k gs) \<le> length (rows_at k fs) \<and>
     (\<forall>r\<in>set (rows_at k gs). fr_ended r = None \<longrightarrow> fr_attempts r = int (Suc n) \<and> Suc n < FEE_ATTEMPTS_CEILING)"

lemma write_tried:
  assumes "v_write stmt v = (Inr (), v')"
    and "\<And>u. v_fees (stmt u) = f u (v_fees u)"
    and "\<And>u j fs. j \<noteq> k \<Longrightarrow> rows_at j (f u fs) = rows_at j fs"
    and "\<And>u fs. length (rows_at k (f u fs)) \<le> length (rows_at k fs)"
    and "\<And>u fs. \<forall>r\<in>set (rows_at k (f u fs)). fr_ended r = None \<longrightarrow> fr_attempts r = int (Suc n) \<and> Suc n < FEE_ATTEMPTS_CEILING"
  shows "tried_once k n (v_fees v) (v_fees v')"
proof -
  let ?R = "\<lambda>u. (\<forall>j. j \<noteq> k \<longrightarrow> rows_at j (v_fees u) = rows_at j (v_fees v)) \<and>
    length (rows_at k (v_fees u)) \<le> length (rows_at k (v_fees v))"
  have shorter: "length (rows_at k (f u fs)) \<le> m" if "length (rows_at k fs) \<le> m" for u fs m
    using assms(4) [of u fs] that by (rule le_trans)
  have "\<exists>u. ?R u \<and> v' = stmt u"
    by (rule v_write_rule(2) [where R = ?R, OF _ _ _ assms(1)]) (simp_all add: assms(2,3) shorter)
  then obtain u where u: "?R u" "v' = stmt u" by blast
  then show ?thesis using assms(5) [of u "v_fees u"] shorter [of "v_fees u"]
    by (simp add: tried_once_def assms(2,3))
qed

lemma settle_tried: "ledger_settle k v = (Inr (), v') \<Longrightarrow> tried_once k n (v_fees v) (v_fees v')"
  unfolding ledger_settle_def
  by (erule write_tried [where f = "\<lambda>_. filter (\<lambda>r. fr_key r \<noteq> k)"]) (simp_all add: SETTLE_FEE_SQL_def rows_at_filter)

lemma end_tried: "ledger_end k why v = (Inr (), v') \<Longrightarrow> tried_once k n (v_fees v) (v_fees v')"
  unfolding ledger_end_def
  by (erule write_tried [where f = "\<lambda>u. update_where (\<lambda>r. fr_key r = k)
        (\<lambda>r. r\<lparr>fr_ended := Some (kept_words why), fr_last_error := Some (kept_words why), fr_updated_at := d_now (v_d1 u)\<rparr>)"])
     (simp_all add: END_FEE_SQL_def rows_at_update)

lemma put_off_tried:
  "ledger_put_off k (Suc n) t why v = (Inr (), v') \<Longrightarrow> Suc n < FEE_ATTEMPTS_CEILING \<Longrightarrow>
   tried_once k n (v_fees v) (v_fees v')"
  unfolding ledger_put_off_def
  by (erule write_tried [where f = "\<lambda>u. update_where (\<lambda>r. fr_key r = k)
        (\<lambda>r. r\<lparr>fr_attempts := int (Suc n), fr_next_at := sql_u64 t, fr_last_error := Some (kept_words why),
              fr_updated_at := d_now (v_d1 u)\<rparr>)"])
     (simp_all add: PUT_OFF_FEE_SQL_def rows_at_update)

lemma ceiling_value: "FEE_ATTEMPTS_CEILING = 30"
  by (simp add: FEE_ATTEMPTS_CEILING_def)

lemma drain_one_tried:
  assumes "drain_one env now fee d v = (Inr d', v')" and "df_attempts fee < FEE_ATTEMPTS_CEILING"
  shows "tried_once (df_key fee) (df_attempts fee) (v_fees v) (v_fees v')"
proof -
  let ?k = "df_key fee" and ?n = "df_attempts fee"
  obtain w u where w: "try_fee env fee v = (w, u)" by (cases "try_fee env fee v")
  have u: "v_fees u = v_fees v" using fees_still.try_fee_P [of v "v_fees v" env fee] w by simp
  have word: "v_fees t = v_fees s" if "ledger_set_wallet_word x now s = (q, t)" for x s q t
    using fees_still.set_wallet_word_P [of s "v_fees s" x now] that by simp
  show ?thesis
  proof (cases w)
    case Settled
    with assms(1) w obtain s where s: "ledger_settle ?k u = (Inr (), s)"
      and rest: "(case ledger_wallet_word (snd (reclaim env ?k s)) of
            (Inr (Some _), v) \<Rightarrow> andThen (ledger_set_wallet_word None now v) (\<lambda>_ v. (Inr (d\<lparr>dr_settled := Suc (dr_settled d)\<rparr>), v))
          | (_, v) \<Rightarrow> (Inr (d\<lparr>dr_settled := Suc (dr_settled d)\<rparr>), v)) = (Inr d', v')"
      by (auto simp: drain_one_def settled_fee_def andThen_Inr_iff Let_def)
    have "v_fees (snd (reclaim env ?k s)) = v_fees s" using fees_still.reclaim_P [of s "v_fees s" env ?k] by simp
    moreover have "v_fees t = v_fees (snd (reclaim env ?k s))"
      if "ledger_wallet_word (snd (reclaim env ?k s)) = (q, t)" for q t
      using word_same_names [OF that] by (simp add: same_names_def)
    ultimately have "v_fees v' = v_fees s" using rest
      by (auto simp: andThen_Inr_iff split: prod.splits sum.splits option.splits dest!: word)
    with settle_tried [OF s, of ?n] u show ?thesis by simp
  next
    case (PutOff why)
    have sat: "u32_saturating_succ ?n = Suc ?n"
      using assms(2) by (simp add: u32_saturating_succ_def ceiling_value)
    from assms(1) w PutOff sat u show ?thesis
      by (auto simp: drain_one_def put_off_fee_def Let_def andThen_Inr_iff split: if_splits
          dest!: end_tried [where n = ?n] put_off_tried)
  next
    case (Ends why)
    with assms(1) w obtain s where s: "v_fees s = v_fees u" "ledger_end ?k why s = (Inr (), v')"
      by (auto simp: drain_one_def ended_fee_def andThen_Inr_iff split: if_splits dest!: word)
    with end_tried [OF s(2), of ?n] u show ?thesis by simp
  qed
qed

text \<open>The ledger: a key once, its attempts below the ceiling.\<close>

definition ledger_ok :: "vault \<Rightarrow> bool" where
  "ledger_ok v \<longleftrightarrow> (\<forall>k. length (rows_at k (v_fees v)) \<le> 1) \<and>
     (\<forall>r\<in>set (v_fees v). fr_ended r = None \<longrightarrow> 0 \<le> fr_attempts r \<and> fr_attempts r < FEE_TRIES)"

definition tries_left :: "string \<Rightarrow> vault \<Rightarrow> nat" where
  "tries_left k v =
     (case filter (\<lambda>r. fr_ended r = None) (rows_at k (v_fees v)) of
        [] \<Rightarrow> 0 | r # _ \<Rightarrow> nat (FEE_TRIES - fr_attempts r))"

lemma tried_once_left:
  assumes "\<forall>r\<in>set (rows_at k (v_fees v')). fr_ended r = None \<longrightarrow> fr_attempts r = int (Suc n)"
    and "r \<in> set (v_fees v)" "fr_key r = k" "fr_ended r = None"
    "fr_attempts r = int n" and "ledger_ok v" "n < FEE_ATTEMPTS_CEILING"
  shows "tries_left k v' < tries_left k v"
proof -
  have "r \<in> set (rows_at k (v_fees v))" using assms(2,3) by (simp add: rows_at_def)
  moreover have "length (rows_at k (v_fees v)) \<le> 1" using assms(6) by (simp add: ledger_ok_def)
  ultimately have "rows_at k (v_fees v) = [r]" by (cases "rows_at k (v_fees v)") auto
  with assms(4,5) have "tries_left k v = nat (FEE_TRIES - int n)" by (simp add: tries_left_def)
  moreover have "tries_left k v' \<le> nat (FEE_TRIES - int (Suc n))"
  proof (cases "filter (\<lambda>r. fr_ended r = None) (rows_at k (v_fees v'))")
    case (Cons x xs)
    then have "x \<in> set (filter (\<lambda>r. fr_ended r = None) (rows_at k (v_fees v')))" by simp
    with assms(1) have "fr_attempts x = int (Suc n)" by simp
    with Cons show ?thesis by (simp add: tries_left_def)
  qed (simp add: tries_left_def)
  ultimately show ?thesis using assms(7) by (simp add: FEE_TRIES_def ceiling_value)
qed

text \<open>The loop over the fees taken up.\<close>

lemma drain_loop_tried:
  assumes "drain_loop env now fees d v = (Inr d', v')"
    and "distinct (map df_key fees)" and "\<forall>f\<in>set fees. df_attempts f < FEE_ATTEMPTS_CEILING"
  shows "(\<forall>j. j \<notin> df_key ` set fees \<longrightarrow> rows_at j (v_fees v') = rows_at j (v_fees v)) \<and>
    (\<forall>j. length (rows_at j (v_fees v')) \<le> length (rows_at j (v_fees v))) \<and>
    (\<forall>f\<in>set fees. \<forall>r\<in>set (rows_at (df_key f) (v_fees v')). fr_ended r = None \<longrightarrow>
       fr_attempts r = int (Suc (df_attempts f)) \<and> Suc (df_attempts f) < FEE_ATTEMPTS_CEILING)"
  using assms
proof (induction fees arbitrary: d v)
  case (Cons f fees)
  then obtain d1 u where one: "drain_one env now f d v = (Inr d1, u)"
    and rest: "drain_loop env now fees d1 u = (Inr d', v')" by (auto simp: andThen_Inr_iff)
  have t: "tried_once (df_key f) (df_attempts f) (v_fees v) (v_fees u)"
    using drain_one_tried [OF one] Cons.prems(3) by simp
  note IH = Cons.IH [OF rest]
  with Cons.prems(2,3) have rest': "\<forall>j. j \<notin> df_key ` set fees \<longrightarrow> rows_at j (v_fees v') = rows_at j (v_fees u)"
    "\<forall>j. length (rows_at j (v_fees v')) \<le> length (rows_at j (v_fees u))"
    "\<forall>f\<in>set fees. \<forall>r\<in>set (rows_at (df_key f) (v_fees v')). fr_ended r = None \<longrightarrow>
       fr_attempts r = int (Suc (df_attempts f)) \<and> Suc (df_attempts f) < FEE_ATTEMPTS_CEILING" by simp_all
  have "df_key f \<notin> df_key ` set fees" using Cons.prems(2) by simp
  with rest'(1) have at_f: "rows_at (df_key f) (v_fees v') = rows_at (df_key f) (v_fees u)" by blast
  show ?case
  proof (intro conjI allI impI)
    fix j assume "j \<notin> df_key ` set (f # fees)"
    with rest'(1) t show "rows_at j (v_fees v') = rows_at j (v_fees v)" by (simp add: tried_once_def)
  next
    fix j
    have "length (rows_at j (v_fees u)) \<le> length (rows_at j (v_fees v))"
      using t by (cases "j = df_key f") (auto simp: tried_once_def)
    with rest'(2) show "length (rows_at j (v_fees v')) \<le> length (rows_at j (v_fees v))" using le_trans by blast
  next
    show "\<forall>f\<in>set (f # fees). \<forall>r\<in>set (rows_at (df_key f) (v_fees v')). fr_ended r = None \<longrightarrow>
       fr_attempts r = int (Suc (df_attempts f)) \<and> Suc (df_attempts f) < FEE_ATTEMPTS_CEILING"
      using rest'(3) t at_f by (auto simp: tried_once_def)
  qed
qed simp

lemma rows_at_distinct:
  assumes "\<And>k. length (rows_at k fs) \<le> 1"
  shows "distinct (map fr_key fs)"
  using assms
proof (induction fs)
  case (Cons r fs)
  have "length (rows_at k fs) \<le> 1" for k using Cons.prems [of k] by (auto simp: rows_at_def split: if_splits)
  then have "distinct (map fr_key fs)" by (rule Cons.IH)
  moreover have "fr_key r \<notin> set (map fr_key fs)"
  proof
    assume "fr_key r \<in> set (map fr_key fs)"
    then obtain x where "x \<in> set (rows_at (fr_key r) fs)" by (auto simp: rows_at_def)
    then have "rows_at (fr_key r) fs \<noteq> []" by auto
    with Cons.prems [of "fr_key r"] show False by (simp add: rows_at_def)
  qed
  ultimately show ?case by simp
qed simp

lemma due_rows:
  assumes "ledger_ok v"
  shows "set (DUE_FEES_SQL now limit v) \<subseteq> {r \<in> set (v_fees v). fr_ended r = None}"
    and "distinct (map fr_key (DUE_FEES_SQL now limit v))"
proof -
  let ?due = "filter (\<lambda>r. fr_next_at r \<le> sql_u64 now \<and> fr_ended r = None) (v_fees v)"
  show "set (DUE_FEES_SQL now limit v) \<subseteq> {r \<in> set (v_fees v). fr_ended r = None}"
    by (auto simp: DUE_FEES_SQL_def dest!: in_set_takeD)
  have "distinct (map fr_key (v_fees v))" using assms by (intro rows_at_distinct) (simp add: ledger_ok_def)
  then have "distinct (map fr_key ?due)" by (rule distinct_map_filter)
  then have "distinct (map fr_key (sort_key fr_next_at ?due))" by (simp add: distinct_map)
  then show "distinct (map fr_key (DUE_FEES_SQL now limit v))"
    unfolding DUE_FEES_SQL_def take_map [symmetric] by (rule distinct_take)
qed

lemma fee_of_row_attempts:
  assumes "ledger_ok v" and "r \<in> set (v_fees v)" and "fr_ended r = None"
  shows "int (df_attempts (fee_of_row r)) = fr_attempts r" and "df_attempts (fee_of_row r) < FEE_ATTEMPTS_CEILING"
proof -
  have r: "0 \<le> fr_attempts r" "fr_attempts r < 30"
    using assms by (simp_all add: ledger_ok_def FEE_TRIES_def ceiling_value)
  then have "js_number (fr_attempts r) = fr_attempts r" by simp
  with r show "int (df_attempts (fee_of_row r)) = fr_attempts r" "df_attempts (fee_of_row r) < FEE_ATTEMPTS_CEILING"
    by (simp_all add: fee_of_row_def u32_of_sql_def ceiling_value)
qed

lemma drain_fees_tried:
  assumes ok: "ledger_ok v" and run: "drain_fees env now limit v = (Inr d, v')"
  shows "ledger_ok v'" and "r \<in> set (DUE_FEES_SQL now limit v) \<Longrightarrow> tries_left (fr_key r) v' < tries_left (fr_key r) v"
proof -
  let ?due = "DUE_FEES_SQL now limit v"
  let ?fees = "map fee_of_row ?due"
  from run obtain u d0 rows where read: "v_read (DUE_FEES_SQL now limit) v = (Inr rows, u)"
    and loop: "drain_loop env now (map fee_of_row rows) d0 u = (Inr d, v')"
    by (auto simp: drain_fees_def ledger_due_def andThen_Inr_iff)
  have u: "v_fees u = v_fees v" and "rows = DUE_FEES_SQL now limit u"
    using read_same_names [OF read] by (simp_all add: same_names_def)
  then have due: "rows = ?due" by (simp add: DUE_FEES_SQL_def)
  have key: "df_key (fee_of_row r) = fr_key r" for r by (simp add: fee_of_row_def)
  have dist: "distinct (map df_key ?fees)" using due_rows(2) [OF ok] by (simp add: comp_def key)
  have few: "\<forall>f\<in>set ?fees. df_attempts f < FEE_ATTEMPTS_CEILING"
    using due_rows(1) [OF ok] fee_of_row_attempts(2) [OF ok] by auto
  note t = drain_loop_tried [OF loop [unfolded due] dist few, unfolded u]
  have at_due: "fr_attempts x = fr_attempts r + 1 \<and> fr_attempts r + 1 < FEE_TRIES"
    if "r \<in> set ?due" "x \<in> set (rows_at (fr_key r) (v_fees v'))" "fr_ended x = None" for r x
  proof -
    have "r \<in> set (v_fees v)" "fr_ended r = None" using due_rows(1) [OF ok] that(1) by auto
    note n = fee_of_row_attempts(1) [OF ok this]
    from t that have "fr_attempts x = int (Suc (df_attempts (fee_of_row r)))" "Suc (df_attempts (fee_of_row r)) < FEE_ATTEMPTS_CEILING"
      by (force simp: key)+
    with n show ?thesis by (simp add: FEE_TRIES_def)
  qed
  have same: "rows_at j (v_fees v') = rows_at j (v_fees v)" if "j \<notin> fr_key ` set ?due" for j
    using t that by (auto simp: key image_iff)
  show "ledger_ok v'" unfolding ledger_ok_def
  proof (intro conjI allI ballI impI)
    fix k show "length (rows_at k (v_fees v')) \<le> 1" using t ok le_trans unfolding ledger_ok_def by blast
  next
    fix x assume x: "x \<in> set (v_fees v')" "fr_ended x = None"
    then have at: "x \<in> set (rows_at (fr_key x) (v_fees v'))" by (simp add: rows_at_def)
    have "0 \<le> fr_attempts x \<and> fr_attempts x < FEE_TRIES"
    proof (cases "fr_key x \<in> fr_key ` set ?due")
      case True
      then obtain r where r: "r \<in> set ?due" "fr_key x = fr_key r" by auto
      then have "r \<in> set (v_fees v)" "fr_ended r = None" using due_rows(1) [OF ok] by auto
      then have "0 \<le> fr_attempts r" using ok by (simp add: ledger_ok_def)
      with at_due [of r x] r at x(2) show ?thesis by auto
    next
      case False
      with same at have "x \<in> set (rows_at (fr_key x) (v_fees v))" by simp
      with ok x(2) show ?thesis by (simp add: rows_at_def ledger_ok_def)
    qed
    then show "0 \<le> fr_attempts x" "fr_attempts x < FEE_TRIES" by simp_all
  qed
  assume r: "r \<in> set ?due"
  then have row: "r \<in> set (v_fees v)" "fr_ended r = None" using due_rows(1) [OF ok] by auto
  note n = fee_of_row_attempts [OF ok row]
  have "\<forall>x\<in>set (rows_at (fr_key r) (v_fees v')). fr_ended x = None \<longrightarrow>
      fr_attempts x = int (Suc (df_attempts (fee_of_row r)))"
    using at_due [OF r] n(1) by auto
  from tried_once_left [OF this row(1) refl row(2) n(1) [symmetric] ok n(2)]
  show "tries_left (fr_key r) v' < tries_left (fr_key r) v" .
qed

text \<open>
  \<open>took k u n v\<close>: from \<open>u\<close> to \<open>v\<close> the fee at \<open>k\<close> was taken up by \<open>n\<close> drains that answered, whatever
  the wallet, the bucket and the limit of each; between them anything may happen that leaves the
  ledger in order and the rows at \<open>k\<close> as they are.
\<close>

inductive took :: "string \<Rightarrow> vault \<Rightarrow> nat \<Rightarrow> vault \<Rightarrow> bool" for k u where
  took_none: "took k u 0 u"
| took_up: "took k u n v \<Longrightarrow> k \<in> fr_key ` set (DUE_FEES_SQL now limit v) \<Longrightarrow>
    drain_fees env now limit v = (Inr d, w) \<Longrightarrow> took k u (Suc n) w"
| took_else: "took k u n v \<Longrightarrow> ledger_ok w \<Longrightarrow> rows_at k (v_fees w) = rows_at k (v_fees v) \<Longrightarrow> took k u n w"

lemma took_tries: "took k u n v \<Longrightarrow> ledger_ok u \<Longrightarrow> ledger_ok v \<and> n + tries_left k v \<le> tries_left k u"
proof (induction rule: took.induct)
  case (took_up n v now limit env d w)
  then have ok: "ledger_ok v" by simp
  from took_up.hyps(2) obtain r where r: "r \<in> set (DUE_FEES_SQL now limit v)" "fr_key r = k" by auto
  have "ledger_ok w" "tries_left k w < tries_left k v"
    using drain_fees_tried [OF ok took_up.hyps(3)] r by auto
  with took_up show ?case by simp
next
  case (took_else n v w)
  then show ?case by (simp add: tries_left_def)
qed simp

lemma tries_left_ceiling:
  assumes "ledger_ok v"
  shows "tries_left k v \<le> FEE_ATTEMPTS_CEILING"
proof (cases "filter (\<lambda>r. fr_ended r = None) (rows_at k (v_fees v))")
  case (Cons r rs)
  then have "r \<in> set (filter (\<lambda>r. fr_ended r = None) (rows_at k (v_fees v)))" by simp
  with assms have "0 \<le> fr_attempts r" by (simp add: ledger_ok_def rows_at_def)
  with Cons show ?thesis by (simp add: tries_left_def FEE_TRIES_def)
qed (simp add: tries_left_def)

end
