(* ===== verification/Fee_Bytes.thy ===== *)
theory Fee_Bytes
  imports Fee_Props
begin

section \<open>The bytes a hand-off keeps\<close>

text \<open>
  Which object a hand-off says it kept: the sender's upload or an earlier spool as it was found, or
  the bytes of the request's own transaction, put at the spool key. The steps between the write and
  the answer leave the objects alone, and a spool writes the carrier's bytes and nothing else.
\<close>

subsection \<open>What leaves the objects alone\<close>

lemma write_objects:
  "(\<And>v. v_objects (stmt v) = v_objects v) \<Longrightarrow> v_objects (snd (v_write stmt v)) = v_objects v"
  using v_write_rule(1) [where R = "\<lambda>u. v_objects u = v_objects v" and stmt = stmt and v = v] by simp

lemma read_objects: "v_objects (snd (v_read q v)) = v_objects v"
  using v_read_rule(1) [where R = "\<lambda>u. v_objects u = v_objects v" and q = q and v = v] by simp

lemma andThen_objects:
  "v_objects (snd r) = ob \<Longrightarrow> (\<And>a s. v_objects s = ob \<Longrightarrow> v_objects (snd (k a s)) = ob) \<Longrightarrow>
   v_objects (snd (andThen r k)) = ob"
  by (cases r; cases "fst r") auto

lemma ledger_objects [simp]:
  "v_objects (snd (ledger_defer fee v)) = v_objects v"
  "v_objects (snd (ledger_end k why v)) = v_objects v"
  "v_objects (snd (ledger_owe_announce o1 w v)) = v_objects v"
  "v_objects (snd (ledger_wallet_word v)) = v_objects v"
proof -
  show "v_objects (snd (ledger_wallet_word v)) = v_objects v"
    unfolding ledger_wallet_word_def by (rule andThen_objects) (simp_all add: read_objects)
qed (unfold ledger_defer_def ledger_end_def ledger_owe_announce_def,
     (rule write_objects, simp add: DEFER_FEE_SQL_def END_FEE_SQL_def OWE_ANNOUNCE_SQL_def Let_def)+)

lemma r2_call_objects:
  "(\<And>v. v_objects (snd (call v)) = v_objects v) \<Longrightarrow> v_objects (snd (r2_call env what call v)) = v_objects v"
  by (auto simp: r2_call_def Let_def split_def split: sum.split list.split r2_fate.split)

lemma blob_objects [simp]:
  "v_objects (snd (blob_stamp env k v)) = v_objects v"
  "v_objects (snd (blob_reader env k v)) = v_objects v"
  by (simp_all add: blob_stamp_def blob_reader_def r2_call_objects)

lemma upload_parts_objects: "v_objects (snd (upload_parts env n ps v)) = v_objects v"
proof (induction ps arbitrary: n v)
  case (Cons p ps)
  have quiet: "v_objects (snd (r2_call env what (\<lambda>v. ((), v)) u)) = v_objects u" for what u
    by (rule r2_call_objects) simp
  obtain r u where "r2_call env (''R2 part '' @ nat_text n @ '': '') (\<lambda>v. ((), v)) v = (r, u)" by fastforce
  with quiet [of "''R2 part '' @ nat_text n @ '': ''" v] Cons.IH [of "Suc n" u] quiet [of "''R2 abort: ''" u]
  show ?case by (auto split: sum.split)
qed simp

lemma put_call_writes:
  assumes "r2_call env what (put_object env k bytes reader) v = (Inr st, v')"
  shows "\<exists>ob. v_objects v' = (v_objects v)(k \<mapsto> ob) \<and> ob_bytes ob = bytes \<and> stamp_of ob = st"
  using assms by (auto simp: r2_call_def Let_def put_object_def split: sum.splits list.splits r2_fate.splits)

lemma blob_spool_writes:
  assumes "blob_spool env k bytes n reader v = (Inr st, v')"
  shows "\<exists>ob. v_objects v' = (v_objects v)(k \<mapsto> ob) \<and> ob_bytes ob = bytes \<and> stamp_of ob = st"
proof (cases "n \<le> SPOOL_PART_BYTES")
  case True
  with assms show ?thesis by (intro put_call_writes) (simp add: blob_spool_def)
next
  case False
  with assms obtain u w where begun: "r2_call env ''R2 multipart: '' (\<lambda>v. ((), v)) v = (Inr (), u)"
    and parts: "upload_parts env 1 (chunks SPOOL_PART_BYTES bytes) u = (Inr (), w)"
    and last: "r2_call env ''R2 multipart complete: '' (put_object env k bytes (Some reader)) w = (Inr st, v')"
    by (auto simp: blob_spool_def andThen_Inr_iff)
  have "v_objects u = v_objects v" "v_objects w = v_objects u"
    using r2_call_objects [of "\<lambda>v. ((), v)" env "''R2 multipart: ''" v] begun
      upload_parts_objects [of env 1 "chunks SPOOL_PART_BYTES bytes" u] parts by simp_all
  with put_call_writes [OF last] show ?thesis by simp
qed

subsection \<open>The object of a payment\<close>

text \<open>The object \<open>ob\<close> at \<open>k\<close> is the payment's: found there, at the sender's upload or an earlier spool, or
  the carrier's bytes at the spool key.\<close>

definition payments_object :: "pay_env \<Rightarrow> paid \<Rightarrow> carrier option \<Rightarrow> vault \<Rightarrow> string \<Rightarrow> r2_object \<Rightarrow> bool" where
  "payments_object env p c v k ob \<longleftrightarrow>
     v_objects v k = Some ob \<and> (pd_r2_key p = Some k \<or> pd_spooled p = Some k) \<or>
     k = pd_spool_key p \<and> (\<exists>c'. c = Some c' \<and> ob_bytes ob = carrier_stream env c' 0)"

definition rest_holds :: "pay_env \<Rightarrow> paid \<Rightarrow> carrier option \<Rightarrow> vault \<Rightarrow> at_rest \<Rightarrow> vault \<Rightarrow> bool" where
  "rest_holds env p c v rest u \<longleftrightarrow>
     (case rest of
        None \<Rightarrow> v_objects u = v_objects v
      | Some (k, st) \<Rightarrow> \<exists>ob. v_objects u k = Some ob \<and> stamp_of ob = st \<and> payments_object env p c v k ob)"

lemma rest_holds_cong: "v_objects u = v_objects w \<Longrightarrow> rest_holds env p c v rest u = rest_holds env p c v rest w"
  by (simp add: rest_holds_def split: option.split)

lemma spool_rest_holds:
  assumes "rest_holds env p c v rest u"
  shows "leaves (\<lambda>_. True) (rest_holds env p c v) (spool_rest env p c n rest u)"
proof (cases "rest = None \<and> c \<noteq> None")
  case True
  then obtain c' where c: "rest = None" "c = Some c'" by blast
  have "rest_holds env p c v (Some (pd_spool_key p, st)) u'"
    if "blob_spool env (pd_spool_key p) (carrier_stream env c' 0) n (pd_reader p) u = (Inr st, u')" for st u'
    using blob_spool_writes [OF that] c(2) by (auto simp: rest_holds_def payments_object_def)
  with c show ?thesis by (auto simp: spool_rest_def leaves_def andThen_Inr_iff)
next
  case False
  with assms show ?thesis by (auto simp: spool_rest_def split: option.split)
qed

lemma paid_rest_holds: "leaves (\<lambda>_. True) (\<lambda>rest. rest_holds env p c v rest) (paid_rest env p v)"
proof -
  have stamped: "rest_holds env p c v (map_option (\<lambda>st. (k, st)) st) u"
    if "blob_stamp env k v = (Inr st, u)" and "pd_r2_key p = Some k \<or> pd_spooled p = Some k" for k st u
    using stamp_answers [OF that(1)] blob_objects(1) [of env k v] that
    by (auto simp: rest_holds_def payments_object_def split: option.split)
  have none: "rest_holds env p c v None v" by (simp add: rest_holds_def)
  show ?thesis unfolding paid_rest_def leaves_def
    using stamped [of _ "Some _"] stamped [of _ None] none
    by (auto simp: andThen_Inr_iff split: option.splits)
       (metis option.simps(8,9) stamped)+
qed

subsection \<open>The steps after it\<close>

lemma wallet_objects:
  "v_objects (snd (wallet_tx env p c rest v)) = v_objects v"
  "v_objects (snd (wallet_internalize a v)) = v_objects v"
  "v_objects (snd (ask_broadcaster env c rest v)) = v_objects v"
  "v_objects (snd (row_reader env p rest v)) = v_objects v"
proof -
  have "v_objects (snd (blob_read env k st v)) = v_objects v" for k st v
    by (auto simp: blob_read_def blob_open_def split: option.split
        simp: r2_call_objects intro!: andThen_objects)
  then show "v_objects (snd (wallet_tx env p c rest v)) = v_objects v"
    by (auto simp: wallet_tx_def hex_from_rest_def tx_text_def split: option.split intro!: andThen_objects)
  show "v_objects (snd (wallet_internalize a v)) = v_objects v"
    "v_objects (snd (ask_broadcaster env c rest v)) = v_objects v"
    by (auto simp: wallet_internalize_def ask_broadcaster_def announce_def Let_def split: list.split prod.split)
  have "v_objects u = v_objects v" if "blob_reader env k v = (r, u)" for k r u
    using blob_objects(2) [of env k v] that by simp
  then show "v_objects (snd (row_reader env p rest v)) = v_objects v"
    by (auto simp: row_reader_def split: option.split prod.split sum.split)
qed

lemma fee_still_owed_objects:
  assumes "fee_still_owed env p c n rest args v = (Inr owed, v')"
  shows "v_objects v' = v_objects v"
proof -
  have tx: "v_objects s = v_objects v" if "wallet_tx env p c rest v = (r, s)" for r s
    using wallet_objects(1) [of env p c rest v] that by simp
  have wallet: "v_objects s' = v_objects s" if "wallet_internalize a s = (r, s')" for s s' a r
    using wallet_objects(2) [of a s] that by simp
  show ?thesis using assms
    by (auto simp: fee_still_owed_def split: prod.splits sum.splits bool.splits if_splits dest!: tx wallet)
qed

lemma word_ends_objects: "v_objects (snd (word_ends p k v)) = v_objects v"
proof -
  obtain r u where word: "ledger_wallet_word v = (r, u)" by fastforce
  then have u: "v_objects u = v_objects v" using ledger_objects(4) [of v] by simp
  have "v_objects (snd (ledger_end k why u)) = v_objects v" for why using u by simp
  then show ?thesis unfolding word_ends_def word
    by (auto simp: u split: sum.split option.split intro!: andThen_objects)
qed

lemma announce_subject_holds:
  assumes "rest_holds env p c v rest u"
  shows "leaves (\<lambda>_. True) (\<lambda>(rest', _). rest_holds env p c v rest') (announce_subject env p c n rest u)"
proof -
  have asked: "rest_holds env p c v rest w" if "ask_broadcaster env c rest u = (word, w)" for word w
    using wallet_objects(3) [of env c rest u] that assms by (simp cong: rest_holds_cong)
  have owe: "leaves (\<lambda>_. True) (\<lambda>_. rest_holds env p c v r) (ledger_owe_announce o1 word s)"
    if "rest_holds env p c v r s" for o1 word r s
    using that rest_holds_cong [OF ledger_objects(3) [of o1 word s], of env p c v r] by (simp add: leaves_state)
  show ?thesis unfolding announce_subject_def
    by (auto simp: Let_def assms split: option.split prod.split dest: asked
        intro!: leaves_andThen [OF spool_rest_holds] leaves_andThen [OF leaves_map_errI, OF owe])
qed

lemma defer_fee_holds:
  assumes "rest_holds env p c v rest u"
  shows "leaves (\<lambda>_. True) (\<lambda>(rest', _). rest_holds env p c v rest') (defer_fee env p c n rest args u)"
proof -
  have deferred: "leaves (\<lambda>_. True) (\<lambda>_. rest_holds env p c v r) (ledger_defer fee s)"
    "leaves (\<lambda>_. True) (\<lambda>_. rest_holds env p c v r) (word_ends p k s)"
    if "rest_holds env p c v r s" for fee r s k
    using that rest_holds_cong [OF ledger_objects(1) [of fee s], of env p c v r]
      rest_holds_cong [OF word_ends_objects [of p k s], of env p c v r] by (simp_all add: leaves_state)
  show ?thesis unfolding defer_fee_def
    by (rule leaves_andThen [OF spool_rest_holds [OF assms]])
       (auto split: option.split
          intro!: leaves_andThen [OF leaves_map_errI, OF deferred(1)] leaves_andThen [OF deferred(2)])
qed

lemma record_fee_holds:
  assumes "rest_holds env p c v rest u"
  shows "leaves (\<lambda>_. True) (\<lambda>(rest', _). rest_holds env p c v rest') (record_fee env p c n rest u)"
proof -
  have owed: "leaves (\<lambda>_. True) (\<lambda>_. rest_holds env p c v rest) (fee_still_owed env p c n rest args u)" for args
    using fee_still_owed_objects [of env p c n rest args u] assms by (auto simp: leaves_def cong: rest_holds_cong)
  show ?thesis unfolding record_fee_def
    by (auto simp: assms Let_def split: option.split intro!: leaves_andThen [OF owed] defer_fee_holds)
qed

text \<open>What a hand-off that defers the fee says it kept is the payment's object.\<close>

definition kept_holds :: "pay_env \<Rightarrow> paid \<Rightarrow> carrier option \<Rightarrow> vault \<Rightarrow> handed_off \<Rightarrow> vault \<Rightarrow> bool" where
  "kept_holds env p c v h u \<longleftrightarrow>
     (\<forall>k. ho_kept h = Some k \<longrightarrow> (\<exists>ob. v_objects u k = Some ob \<and> payments_object env p c v k ob))"

lemma tail_holds:
  assumes "rest_holds env p c v rest u"
  shows "leaves (\<lambda>_. True) (kept_holds env p c v) (hand_off_tail env p c said reader owed rest fee u)"
  using assms by (cases rest) (auto simp: hand_off_tail_def Let_def kept_holds_def rest_holds_def)

lemma judged_holds:
  assumes "rest_holds env p c v rest u"
  shows "leaves (\<lambda>_. True) (kept_holds env p c v) (judged_hand_off env p c rest u)"
proof -
  have reader: "rest_holds env p c v r w" if "row_reader env p r s = (x, w)" "rest_holds env p c v r s" for r s x w
    using wallet_objects(4) [of env p r s] that by (simp cong: rest_holds_cong)
  have first: "leaves (\<lambda>_. True) (rest_holds env p c v) (if pd_rows p then spool_rest env p c n rest u else (Inr rest, u))" for n
    using spool_rest_holds [OF assms] assms by simp
  show ?thesis unfolding judged_hand_off_def Let_def
    by (rule leaves_andThen [OF first])
       (auto split: prod.split dest: reader
          intro!: leaves_andThen [OF announce_subject_holds] leaves_andThen [OF record_fee_holds] tail_holds)
qed

lemma hand_off_holds:
  assumes "hand_off env p v = (Inr h, v')" and "ho_kept h = Some k"
  shows "\<exists>ob. v_objects v' k = Some ob \<and>
     payments_object env p (Option.bind (get_member ''tx'' (pd_payment p)) (carrier_of env)) v k ob"
proof -
  obtain c where c: "paid_carrier env p = Inr c"
    using assms(1) by (auto simp: hand_off_def split: sum.splits)
  have "leaves (\<lambda>_. True) (kept_holds env p c v) (hand_off env p v)"
    unfolding hand_off_def c
    by (auto simp: kept_holds_def [where h = "\<lparr>ho_payment = _, ho_fee = _, ho_kept = _, ho_hint = _\<rparr>"]
        split: option.split intro!: leaves_andThen [OF paid_rest_holds] judged_holds)
  then have "kept_holds env p c v h v'" using assms(1) by (simp add: leaves_def)
  with assms(2) obtain ob where "v_objects v' k = Some ob" "payments_object env p c v k ob"
    by (auto simp: kept_holds_def)
  moreover have "c = Some c' \<Longrightarrow> Option.bind (get_member ''tx'' (pd_payment p)) (carrier_of env) = Some c'" for c'
    using c by (auto simp: paid_carrier_def split: option.splits)
  ultimately show ?thesis by (auto simp: payments_object_def)
qed

end
