(* ===== verification/Send_Theorems.thy ===== *)
theory Send_Theorems
  imports Send_Custody Fee_Bytes Relay_Correct "HOL-Library.Code_Target_Numeral"
begin

section \<open>The send's theorems\<close>

text \<open>
  The properties of a send and of the payment in it: what it stores and in which order, that no
  object something names is deleted, that a fee deferred is owed and tried a bounded number of
  times. The values of this first part are for the witnesses.
\<close>

subsection \<open>A vault, an environment, a door\<close>

definition demo_pay :: pay_env where
  "demo_pay =
     \<lparr>pe_relay = demo_env, pe_bucket_unbound = None, pe_bucket_var = Some ''beef'',
      pe_etag = (\<lambda>n _. nat_text n), pe_text = (\<lambda>_. ''text''), pe_parse = (\<lambda>_. Some (JObj [])),
      pe_hex = (\<lambda>s. s), pe_unhex = Some, pe_b64 = (\<lambda>s. s), pe_unb64 = Some, pe_arc = False\<rparr>"

definition demo_vault :: "d1_message list \<Rightarrow> fee_row list \<Rightarrow> vault" where
  "demo_vault ms fees =
     \<lparr>v_relay = fresh_relay (box_db [] ms), v_fees = fees, v_announces = [], v_claims = [], v_minted = [],
      v_released = [''k1''], v_word = None, v_budget = \<lparr>sb_rows = [], sb_faults = []\<rparr>,
      v_objects = [''k1'' \<mapsto> \<lparr>ob_bytes = ''beef'', ob_etag = ''e1'', ob_reader = Some ''server''\<rparr>],
      v_puts = 0, v_r2 = [], v_wallet = [], v_arc = [], v_now = 1000\<rparr>"

definition demo_door :: door where
  "demo_door =
     \<lparr>dr_server_key = Inr ''server'', dr_script = (\<lambda>_ _ _. Inr ''script''), dr_sha = (\<lambda>s. s), dr_uuid = (\<lambda>_. ''u''),
      dr_read = (\<lambda>_ _ _ _. Inl ''unread''), dr_cursor = (\<lambda>_. None), dr_bump = (\<lambda>_ _. None),
      dr_sha256d = (\<lambda>s. s), dr_output = (\<lambda>_ _. Inl ''unread''), dr_display = (\<lambda>s. s), dr_words = (\<lambda>_. ''words''),
      dr_server_side = (\<lambda>_. False), dr_header_base = None, dr_header_get = (\<lambda>_ _. Inl ''down''),
      dr_parse = (\<lambda>_. Inl ''unread'')\<rparr>"

definition paid_row :: "string \<Rightarrow> d1_message" where
  "paid_row k = message_row ''m1'' 1 ''bob'' ''alice'' ''body'' (Some k) ''t0''"

subsection \<open>Custody\<close>

text \<open>
  C8 (named_objects_are_kept). Whatever happens (sends on either store, each with its payment
  judged, handed off and cleaned up after; the cron's drain of fees, its re-asks and its reclaims;
  uploads; acknowledgments; the archive's batches; the hubs' own work; and any failure of D1, the
  bucket, the wallet and the broadcaster at any trip), operations following one another, an object
  at rest that an unacknowledged row, an owed fee or an owed announcement names is in the bucket.
\<close>

theorem named_objects_are_kept:
  assumes "kept_safe v0" and "reaches (vault_do env d vars) vault_call_ok v0 v"
    and "named_by k v" and "\<not> starts_with ''door-state/'' k"
  shows "v_objects v k \<noteq> None"
  using vault.reaches_inv [OF assms(2,1)] assms(3,4) by (auto simp: kept_safe_def custody_def)

subsection \<open>What a send stores\<close>

text \<open>
  C10 (send_stores_in_order). A send, on D1 or on the hubs, with any failure on the way: some first
  \<open>n\<close> of its recipients, in the order they were asked for, have their rows stored with the sender
  and the body of the send, and exactly those are pushed; the store lost nothing, and gained at
  most the next row, whose insert answered an error. A send answered as a success stored and
  answers all of them; one refused (a recipient blocks the sender, the payment fails) stored
  nothing.
\<close>

theorem send_stores_in_order:
  assumes "hubs_ok v" and "process_send env d vars val sender v = ((out, aft), t)"
  shows "\<exists>pg n. hubs_ok t \<and>
     send_came_to stored_rows (sent_of env val sender pg) (vs_recipients val) n v t \<and>
     map pushed (aa_pushes aft) = take n (vs_recipients val) \<and>
     (\<forall>rs. out = Success rs \<longrightarrow> n = length (vs_recipients val) \<and> rs = vs_recipients val) \<and>
     (refused out \<longrightarrow> n = 0 \<and> stored_rows t = stored_rows v) \<and>
     (vs_payment val = None \<longrightarrow> pg_handed pg = None)"
proof (cases "hub_store_parse (vars ''HUB_STORE'')")
  case (Inl x)
  then have "\<exists>body status. out = ValidationError body status" "aft = nothing_owed" "t = v"
    using assms(2) by (auto simp: process_send_def split: prod.splits)
  with d1_rows.refused_answers [of v v out env val sender] assms(1) show ?thesis
    unfolding d1_rows.send_answers_def by (auto simp: quiet_def)
next
  case (Inr h)
  show ?thesis
  proof (cases "send_path h = Mailbox")
    case True
    with Inr assms(2) have "store_rows env (mailbox_send_store env d vars (vs_message_box val)) val sender v = ((out, aft), t)"
      by (simp add: process_send_def store_send_def)
    from hub_rows.store_rows_answers [OF assms(1) this] show ?thesis unfolding hub_rows.send_answers_def .
  next
    case False
    with Inr assms(2) have "store_rows env (worker_store env d vars) val sender v = ((out, aft), t)"
      by (simp add: process_send_def store_send_def)
    from d1_rows.store_rows_answers [OF assms(1) this] show ?thesis unfolding d1_rows.send_answers_def .
  qed
qed

subsection \<open>The deferred fee\<close>

text \<open>
  C11 (deferred_fee_is_owed). When the hand-off answers that the fee is deferred, under any failure
  on the way, the payment's object is stored under the key the answer gives: the sender's upload or
  the spool of an earlier attempt, as it was found, or an object at the spool key with exactly the
  bytes of the request's transaction. The ledger owes a fee at that key exactly when it owed one
  before or had no row there. A key whose earlier fee has ended is the case left: the new fee is
  answered as deferred and is owed nowhere.
\<close>

theorem deferred_fee_is_owed:
  assumes "hand_off env p v = (Inr h, v')" and "ho_fee h = Deferred"
  shows "\<exists>k ob. ho_kept h = Some k \<and> v_objects v' k = Some ob \<and>
     (v_objects v k = Some ob \<and> (pd_r2_key p = Some k \<or> pd_spooled p = Some k) \<or>
      k = pd_spool_key p \<and>
      (\<exists>c. Option.bind (get_member ''tx'' (pd_payment p)) (carrier_of env) = Some c \<and>
           ob_bytes ob = carrier_stream env c 0)) \<and>
     FEE_OWES_KEY_SQL k v' = (FEE_OWES_KEY_SQL k v \<or> k \<notin> fr_key ` set (v_fees v))"
proof -
  obtain k where k: "ho_kept h = Some k" "FEE_OWES_KEY_SQL k v' = (FEE_OWES_KEY_SQL k v \<or> k \<notin> fr_key ` set (v_fees v))"
    using hand_off_owed [of v env p] assms by (auto simp: leaves_def handed_owed_def FEE_OWES_owed can_owe_def)
  from hand_off_holds [OF assms(1) k(1)] k show ?thesis unfolding payments_object_def by blast
qed

definition demo_paid :: paid where
  "demo_paid =
     \<lparr>pd_payment = JObj [], pd_r2_key = Some ''k1'', pd_spooled = None, pd_spool_key = ''k2'',
      pd_server_output = Some (JObj []), pd_stamp = None, pd_txid = Some ''tx'', pd_rows = True,
      pd_reader = ''server'', pd_now = 1000\<rparr>"

definition demo_fee :: "i64 \<Rightarrow> string option \<Rightarrow> fee_row" where
  "demo_fee n ended =
     \<lparr>fr_key = ''k1'', fr_etag = ''e1'', fr_txid = ''tx'', fr_args = ''text'', fr_named = 1, fr_attempts = n,
      fr_next_at = 0, fr_last_error = None, fr_ended = ended, fr_updated_at = ''t0''\<rparr>"

text \<open>
  C12 (fee_drains_end). A fee is tried no more than \<open>FEE_ATTEMPTS_CEILING\<close> times: however the wallet,
  the bucket and the broadcaster answer, at most that many drains that answer take it up before it
  is recorded or ended.
\<close>

theorem fee_drains_end:
  assumes "took k u n v" and "ledger_ok u"
  shows "n \<le> FEE_ATTEMPTS_CEILING"
  using took_tries [OF assms] tries_left_ceiling [OF assms(2), of k] by simp

subsection \<open>Witnesses\<close>

lemma demo_safe: "kept_safe (demo_vault [paid_row ''k1''] [])"
  by (auto simp: kept_safe_def custody_def named_by_def demo_vault_def paid_row_def message_row_def hubs_ok_def
      fresh_relay_def fresh_hub_def rows_ok_def ROW_NAMES_KEY_SQL_def FEE_OWES_KEY_SQL_def ANNOUNCE_OWES_KEY_SQL_def box_db_def)

theorem named_objects_are_kept_witness:
  "v_objects (run_fee_drain demo_pay (demo_vault [paid_row ''k1''] [])) ''k1'' \<noteq> None"
proof -
  have "reaches (vault_do demo_pay demo_door (\<lambda>_. None)) vault_call_ok (demo_vault [paid_row ''k1''] [])
      (snd (vault_do demo_pay demo_door (\<lambda>_. None) VCron (demo_vault [paid_row ''k1''] [])))"
    by (rule reaches_step [OF reaches_refl]) simp
  moreover have "named_by ''k1'' (run_fee_drain demo_pay (demo_vault [paid_row ''k1''] []))" by code_simp
  ultimately show ?thesis
    using named_objects_are_kept [OF demo_safe, of demo_pay demo_door "\<lambda>_. None"] by (simp add: starts_with_def)
qed

abbreviation demo_handed :: "fee_row list \<Rightarrow> (answer, handed_off, vault) outcome" where
  "demo_handed fs \<equiv> hand_off demo_pay demo_paid (demo_vault [] fs)"

lemma demo_hand_off:
  assumes "(case fst (demo_handed fs) of Inr h \<Rightarrow> ho_fee h = Deferred \<and> ho_kept h = Some ''k1'' | Inl _ \<Rightarrow> False)"
  obtains h where "demo_handed fs = (Inr h, snd (demo_handed fs))" and "ho_fee h = Deferred" and "ho_kept h = Some ''k1''"
  using assms by (cases "demo_handed fs"; cases "fst (demo_handed fs)") auto

theorem deferred_fee_is_owed_witness:
  "FEE_OWES_KEY_SQL ''k1'' (snd (demo_handed [])) \<and>
   \<not> FEE_OWES_KEY_SQL ''k1'' (snd (demo_handed [demo_fee 30 (Some ''gone'')])) \<and>
   v_objects (snd (demo_handed [])) ''k1'' = v_objects (demo_vault [] []) ''k1''"
proof -
  have first: "case fst (demo_handed []) of Inr h \<Rightarrow> ho_fee h = Deferred \<and> ho_kept h = Some ''k1'' | Inl _ \<Rightarrow> False"
    by code_simp
  then obtain h where h: "demo_handed [] = (Inr h, snd (demo_handed []))" "ho_fee h = Deferred" "ho_kept h = Some ''k1''"
    by (rule demo_hand_off)
  let ?fs = "[demo_fee 30 (Some ''gone'')]"
  have "case fst (demo_handed ?fs) of Inr h \<Rightarrow> ho_fee h = Deferred \<and> ho_kept h = Some ''k1'' | Inl _ \<Rightarrow> False"
    by code_simp
  then obtain g where g: "demo_handed ?fs = (Inr g, snd (demo_handed ?fs))" "ho_fee g = Deferred" "ho_kept g = Some ''k1''"
    by (rule demo_hand_off)
  show ?thesis
    using deferred_fee_is_owed [OF h(1,2)] deferred_fee_is_owed [OF g(1,2)] h(3) g(3)
    by (auto simp: demo_vault_def demo_fee_def demo_paid_def FEE_OWES_KEY_SQL_def)
qed

lemma demo_ledger_ok: "ledger_ok (demo_vault [] [demo_fee 29 None])"
  by (simp add: ledger_ok_def demo_vault_def demo_fee_def rows_at_def FEE_TRIES_def FEE_ATTEMPTS_CEILING_def)

theorem fee_drains_end_witness:
  "took ''k1'' (demo_vault [] [demo_fee 29 None]) 1 (snd (drain_fees demo_pay 1000 10 (demo_vault [] [demo_fee 29 None]))) \<and>
   (1::nat) \<le> FEE_ATTEMPTS_CEILING"
proof -
  let ?v = "demo_vault [] [demo_fee 29 None]"
  have "fst (drain_fees demo_pay 1000 10 ?v) = Inr \<lparr>dr_settled = 0, dr_put_off = 0, dr_ended = 1\<rparr>" by code_simp
  then have "drain_fees demo_pay 1000 10 ?v = (Inr \<lparr>dr_settled = 0, dr_put_off = 0, dr_ended = 1\<rparr>, snd (drain_fees demo_pay 1000 10 ?v))"
    by (metis prod.collapse)
  moreover have "''k1'' \<in> fr_key ` set (DUE_FEES_SQL 1000 10 ?v)" by code_simp
  ultimately have "took ''k1'' ?v (Suc 0) (snd (drain_fees demo_pay 1000 10 ?v))" by (intro took_up [OF took_none])
  with fee_drains_end [OF this demo_ledger_ok] show ?thesis by simp
qed

definition demo_send :: validated_send where
  "demo_send = \<lparr>vs_recipients = [(''alice'', ''m7''), (''bob'', ''m8'')], vs_message_box = ''inbox'',
     vs_body = JStr ''hi'', vs_payment = None\<rparr>"

theorem send_stores_in_order_witness:
  "\<exists>t. hubs_ok t \<and> fst (fst (process_send demo_pay demo_door (\<lambda>_. None) demo_send ''carol'' (demo_vault [] []))) =
       Success [(''alice'', ''m7''), (''bob'', ''m8'')] \<and>
     {(''alice'', ''m7'', ''carol'', ''text''), (''bob'', ''m8'', ''carol'', ''text'')} \<subseteq> stored_rows t"
proof -
  let ?r = "process_send demo_pay demo_door (\<lambda>_. None) demo_send ''carol'' (demo_vault [] [])"
  have ok: "hubs_ok (demo_vault [] [])"
    by (simp add: hubs_ok_def demo_vault_def fresh_relay_def fresh_hub_def rows_ok_def)
  have out: "fst (fst ?r) = Success [(''alice'', ''m7''), (''bob'', ''m8'')]" by code_simp
  from send_stores_in_order [OF ok, of demo_pay demo_door "\<lambda>_. None" demo_send "''carol''" "fst (fst ?r)" "snd (fst ?r)" "snd ?r"]
  obtain pg n where "hubs_ok (snd ?r)"
    "send_came_to stored_rows (sent_of demo_pay demo_send ''carol'' pg) (vs_recipients demo_send) n (demo_vault [] []) (snd ?r)"
    "n = length (vs_recipients demo_send)" "pg_handed pg = None"
    using out by (auto simp: demo_send_def)
  then show ?thesis using out
    by (intro exI [of _ "snd ?r"]) (auto simp: send_came_to_def sent_of_def demo_send_def row_paid_def stored_body_def demo_pay_def)
qed

end
