(* ===== verification/Door_Props.thy ===== *)
theory Door_Props
  imports Send_Theorems
begin

section \<open>The payment door: what a verified word means\<close>

text \<open>
  The saved state of a reading round-trips through its bytes, a saved state is only ever one the
  door earned, and the word \<open>Verified\<close> on an object at rest means that over the passes, however
  many requests they took, the scripts of the object were read through, its output was judged
  under the terms of the request that answers, and every merkle root was confirmed by the header
  service.
\<close>

lemma map_err_simps [simp]: "map_err f (Inl e, s) = (Inl (f e), s)" "map_err f (Inr a, s) = (Inr a, s)"
  by (simp_all add: map_err_def)

subsection \<open>Little-endian bytes\<close>

lemma le_bytes_length [simp]: "length (le_bytes w n) = w"
  by (induction w arbitrary: n) simp_all

lemma le_nat_le_bytes: "le_nat (le_bytes w n) = n mod 256 ^ w"
proof (induction w arbitrary: n)
  case (Suc w)
  have "le_nat (le_bytes (Suc w) n) = n mod 256 + 256 * (n div 256 mod 256 ^ w)" by (simp add: Suc)
  then show ?case by (simp add: mod_mult2_eq)
qed simp

lemma le_nat_le_bytes_small: "n < 256 ^ w \<Longrightarrow> le_nat (le_bytes w n) = n"
  by (simp add: le_nat_le_bytes)

lemma phase_of_byte [simp]: "phase_of (phase_byte p) = Some p"
  by (cases p) (simp_all add: phase_of_def)

lemma phase_byte_mod [simp]: "phase_byte p mod 256 = phase_byte p"
  by (cases p) simp_all

lemma le_nat_phase: "le_nat [char_of (phase_byte p)] = phase_byte p"
  by (cases p) simp_all

subsection \<open>The state of a reading as bytes\<close>

definition rest_fits :: "rest \<Rightarrow> bool" where
  "rest_fits r \<longleftrightarrow>
     st_size (rs_stamp r) < 2 ^ 64 \<and> rs_roots_asked r < 2 ^ 64 \<and>
     length (st_etag (rs_stamp r)) < 2 ^ 32 \<and> is_utf8 (st_etag (rs_stamp r))"

lemma bytes_at_append: "bytes_at (a @ b @ c) (length a) (length b) = Some b"
  by (simp add: bytes_at_def)

lemma rest_reads:
  assumes "rest_fits r"
  shows "rest_from_binary d (rest_to_binary r) =
     do { cu \<leftarrow> dr_cursor d (cu_bytes (rs_cursor r));
          if starts_with ''BSC2'' (cu_bytes (rs_cursor r)) then None else Some (r\<lparr>rs_cursor := cu\<rparr>) }"
proof -
  let ?e = "st_etag (rs_stamp r)"
  define head where "head = [char_of (phase_byte (rs_phase r))] @ le_bytes 8 (st_size (rs_stamp r)) @
     le_bytes 8 (rs_roots_asked r) @ le_bytes 4 (length ?e)"
  have bin: "rest_to_binary r = STATE_MAGIC @ head @ ?e @ cu_bytes (rs_cursor r)"
    by (simp add: rest_to_binary_def head_def)
  have lens: "length STATE_MAGIC = 5" "length head = 21" by (simp_all add: STATE_MAGIC_def head_def)
  have parts: "take 1 head = [char_of (phase_byte (rs_phase r))]" "take 8 (drop 1 head) = le_bytes 8 (st_size (rs_stamp r))"
    "take 8 (drop 9 head) = le_bytes 8 (rs_roots_asked r)" "take 4 (drop 17 head) = le_bytes 4 (length ?e)"
    by (simp_all add: head_def)
  have vals: "le_nat (take 8 (drop 1 head)) = st_size (rs_stamp r)" "le_nat (take 8 (drop 9 head)) = rs_roots_asked r"
    "le_nat (take 4 (drop 17 head)) = length ?e" "le_nat (take 1 head) = phase_byte (rs_phase r)"
    unfolding parts using assms by (simp_all add: rest_fits_def le_nat_le_bytes le_nat_phase)
  have reads: "bytes_at (rest_to_binary r) 0 5 = Some STATE_MAGIC" "bytes_at (rest_to_binary r) 5 21 = Some head"
    "bytes_at (rest_to_binary r) 26 (length ?e) = Some ?e" "drop (26 + length ?e) (rest_to_binary r) = cu_bytes (rs_cursor r)"
    using lens by (simp_all add: bin bytes_at_def)
  have "is_utf8 ?e" using assms by (simp add: rest_fits_def)
  with reads vals show ?thesis
    by (cases "dr_cursor d (cu_bytes (rs_cursor r))"; cases r; cases "rs_stamp r")
       (simp_all add: rest_from_binary_def Let_def del: One_nat_def)
qed

text \<open>
  C39 (door_state_roundtrip). A reading put to sleep is the reading that wakes: the state the door
  saves for an object at rest decodes to itself, the object's stamp, the phase, the count of the
  roots asked and the cursor, where the library's cursor reads its own bytes back and is of the
  current layout.
\<close>

theorem door_state_roundtrip:
  assumes "rest_fits r" and "dr_cursor d (cu_bytes (rs_cursor r)) = Some (rs_cursor r)"
    and "\<not> starts_with ''BSC2'' (cu_bytes (rs_cursor r))"
  shows "rest_from_binary d (rest_to_binary r) = Some r"
  using assms by (simp add: rest_reads)

subsection \<open>The roots\<close>

text \<open>The header service's answer for a root of the reading, as the loop compares them.\<close>

definition agrees :: "door \<Rightarrow> (nat \<Rightarrow> string + string) \<Rightarrow> u64 \<times> string \<Rightarrow> bool" where
  "agrees d lookup x \<longleftrightarrow>
     (\<exists>carried. lookup (fst x mod 2 ^ 32) = Inr carried \<and>
        to_ascii_lowercase carried = to_ascii_lowercase (dr_display d (snd x)))"

text \<open>The place a loop over \<open>rs\<close> stops at, no failed lookup before it.\<close>

definition stops_at :: "door \<Rightarrow> (nat \<Rightarrow> string + string) \<Rightarrow> (nat \<times> u64 \<times> string) list \<Rightarrow> nat \<Rightarrow> bool" where
  "stops_at d lookup rs p \<longleftrightarrow> (\<exists>ys x zs. rs = ys @ (p, x) # zs \<and> (\<forall>y\<in>set ys. agrees d lookup (snd y)))"

definition loop_spec ::
  "door \<Rightarrow> (nat \<Rightarrow> string + string) \<Rightarrow> (nat \<times> u64 \<times> string) list \<Rightarrow> (nat \<times> unverifiable_reason) option \<Rightarrow>
     rooted + (nat \<times> unverifiable_reason) option \<Rightarrow> bool" where
  "loop_spec d lookup rs failure out \<longleftrightarrow>
     (case out of
        Inr None \<Rightarrow> failure = None \<and> (\<forall>r\<in>set rs. agrees d lookup (snd r))
      | Inr (Some (p, why)) \<Rightarrow> (case failure of Some f \<Rightarrow> p = fst f | None \<Rightarrow> stops_at d lookup rs p)
      | Inl (RootedPaused p) \<Rightarrow> (case failure of Some f \<Rightarrow> p = fst f | None \<Rightarrow> stops_at d lookup rs p)
      | Inl (RootedWord w x) \<Rightarrow> (\<exists>h r. w = RootMismatch h r) \<and> x = None)"

lemma loop_spec_Cons:
  assumes "loop_spec d lookup rs failure out" and "agrees d lookup (snd r)"
  shows "loop_spec d lookup (r # rs) failure out"
proof -
  have "stops_at d lookup (r # rs) p" if "stops_at d lookup rs p" for p
    using that assms(2) unfolding stops_at_def by (metis append_Cons set_ConsD)
  with assms show ?thesis
    by (auto simp: loop_spec_def split: sum.splits option.splits rooted.splits)
qed

lemma loop_spec_failed:
  assumes "loop_spec d lookup rs (Some (case failure of Some f \<Rightarrow> f | None \<Rightarrow> (fst r, why))) out"
  shows "loop_spec d lookup (r # rs) failure out"
proof -
  have "stops_at d lookup (r # rs) (fst r)" unfolding stops_at_def by (cases r) (auto intro!: exI [of _ "[]"])
  with assms show ?thesis
    by (auto simp: loop_spec_def split: sum.splits option.splits rooted.splits)
qed

lemma roots_loop_spec:
  assumes "\<And>h a. map_of answers h = Some a \<Longrightarrow> a = lookup h"
  shows "loop_spec d lookup rs failure (roots_loop d lookup lookups rs answers failure)"
  using assms
proof (induction rs arbitrary: answers failure)
  case Nil
  then show ?case by (auto simp: loop_spec_def split: option.split)
next
  case (Cons r rs)
  let ?h = "fst (snd r) mod 2 ^ 32"
  show ?case
  proof (cases "map_of answers ?h = None \<and> (case lookups of Some most \<Rightarrow> most \<le> length answers | None \<Rightarrow> False)")
    case True
    have "stops_at d lookup (r # rs) (fst r)" unfolding stops_at_def by (cases r) (auto intro!: exI [of _ "[]"])
    with True show ?thesis by (auto simp: Let_def loop_spec_def split: option.splits)
  next
    case False
    define said where "said = (case map_of answers ?h of Some a \<Rightarrow> a | None \<Rightarrow> lookup ?h)"
    define answers' where "answers' = (case map_of answers ?h of Some _ \<Rightarrow> answers | None \<Rightarrow> (?h, said) # answers)"
    have said: "said = lookup ?h" using Cons.prems by (auto simp: said_def split: option.split)
    have ok: "\<And>h a. map_of answers' h = Some a \<Longrightarrow> a = lookup h"
      using Cons.prems said by (auto simp: answers'_def split: option.splits if_splits)
    have step: "roots_loop d lookup lookups (r # rs) answers failure =
      (case said of
         Inr carried \<Rightarrow>
           if to_ascii_lowercase carried = to_ascii_lowercase (dr_display d (snd (snd r)))
           then roots_loop d lookup lookups rs answers' failure
           else Inl (RootedWord (RootMismatch ?h (dr_display d (snd (snd r)))) None)
       | Inl why \<Rightarrow> roots_loop d lookup lookups rs answers'
           (case failure of Some f \<Rightarrow> Some f | None \<Rightarrow> Some (fst r, HeaderLookupFailed ?h why)))"
      unfolding roots_loop.simps Let_def if_not_P [OF False] said_def answers'_def
      by (cases "map_of answers ?h") simp_all
    show ?thesis
    proof (cases said)
      case (Inl why)
      let ?f = "case failure of Some f \<Rightarrow> f | None \<Rightarrow> (fst r, HeaderLookupFailed ?h why)"
      have f: "(case failure of Some f \<Rightarrow> Some f | None \<Rightarrow> Some (fst r, HeaderLookupFailed ?h why)) = Some ?f"
        by (cases failure) simp_all
      have "loop_spec d lookup (r # rs) failure (roots_loop d lookup lookups rs answers' (Some ?f))"
        using Cons.IH [OF ok] by (rule loop_spec_failed)
      with step Inl f show ?thesis by simp
    next
      case (Inr carried)
      show ?thesis
      proof (cases "to_ascii_lowercase carried = to_ascii_lowercase (dr_display d (snd (snd r)))")
        case True
        with said Inr have "agrees d lookup (snd r)" unfolding agrees_def by (intro exI [of _ carried]) simp
        with Cons.IH [OF ok] have "loop_spec d lookup (r # rs) failure (roots_loop d lookup lookups rs answers' failure)"
          by (rule loop_spec_Cons)
        with step Inr True show ?thesis by simp
      next
        case False
        with step Inr show ?thesis by (simp add: loop_spec_def)
      qed
    qed
  qed
qed

text \<open>The places \<open>from\<close> to \<open>p\<close> of the roots all agree.\<close>

definition agreed :: "door \<Rightarrow> (nat \<Rightarrow> string + string) \<Rightarrow> (u64 \<times> string) list \<Rightarrow> nat \<Rightarrow> nat \<Rightarrow> bool" where
  "agreed d lookup roots from p \<longleftrightarrow> p < length roots \<and> from \<le> p \<and> (\<forall>i. from \<le> i \<and> i < p \<longrightarrow> agrees d lookup (roots ! i))"

lemma stops_at_agreed:
  assumes "stops_at d lookup (drop from (enumerate 0 roots)) p"
  shows "agreed d lookup roots from p"
proof -
  from assms obtain ys x zs where split: "drop from (enumerate 0 roots) = ys @ (p, x) # zs"
    and ys: "\<forall>y\<in>set ys. agrees d lookup (snd y)" by (auto simp: stops_at_def)
  have len: "from + length ys < length roots"
    using arg_cong [OF split, of length] by simp
  have at: "(ys @ (p, x) # zs) ! i = (from + i, roots ! (from + i))" if "from + i < length roots" for i
    using that unfolding split [symmetric] by (simp add: nth_enumerate_eq)
  from at [of "length ys"] len have p: "p = from + length ys" by simp
  have "agrees d lookup (roots ! i)" if "from \<le> i" "i < p" for i
  proof -
    have i: "i - from < length ys" "from + (i - from) = i" using that p by auto
    have "ys ! (i - from) = (i, roots ! i)" using at [of "i - from"] i len by (simp add: nth_append)
    with ys i(1) show ?thesis by (metis nth_mem snd_conv)
  qed
  with p len show ?thesis by (simp add: agreed_def)
qed

lemma roots_word_spec:
  assumes "roots_word d roots from lookups lookup sat = out"
  shows "out = RootedWord (Verified s) x \<Longrightarrow>
      roots \<noteq> [] \<and> s = sat \<and> x = None \<and> (\<forall>i. from \<le> i \<and> i < length roots \<longrightarrow> agrees d lookup (roots ! i))"
    and "out = RootedPaused p \<or> out = RootedWord w (Some p) \<Longrightarrow> agreed d lookup roots from p"
proof -
  let ?loop = "roots_loop d lookup lookups (drop from (enumerate 0 roots)) [] None"
  have spec: "loop_spec d lookup (drop from (enumerate 0 roots)) None ?loop" by (rule roots_loop_spec) simp
  have all: "agrees d lookup (roots ! i)" if "\<forall>r\<in>set (drop from (enumerate 0 roots)). agrees d lookup (snd r)"
    "from \<le> i" "i < length roots" for i
  proof -
    have "drop from (enumerate 0 roots) ! (i - from) = (i, roots ! i)" using that by (simp add: nth_enumerate_eq)
    moreover have "i - from < length (drop from (enumerate 0 roots))" using that by simp
    ultimately have "(i, roots ! i) \<in> set (drop from (enumerate 0 roots))" by (metis nth_mem)
    with that(1) show ?thesis by (metis snd_conv)
  qed
  show "roots \<noteq> [] \<and> s = sat \<and> x = None \<and> (\<forall>i. from \<le> i \<and> i < length roots \<longrightarrow> agrees d lookup (roots ! i))"
    if "out = RootedWord (Verified s) x"
    using that assms spec all unfolding roots_word_def loop_spec_def
    by (auto split: if_splits sum.splits option.splits)
  show "agreed d lookup roots from p" if "out = RootedPaused p \<or> out = RootedWord w (Some p)"
    using that assms spec unfolding roots_word_def loop_spec_def
    by (auto split: if_splits sum.splits option.splits intro!: stops_at_agreed)
qed

subsection \<open>A reading, over as many requests as it takes\<close>

definition confirmed :: "door \<Rightarrow> string \<Rightarrow> u64 \<times> string \<Rightarrow> bool" where
  "confirmed d base x \<longleftrightarrow> (\<exists>now. agrees d (fetch_root d now base) x)"

text \<open>What opening an object with this stamp at an offset hands over.\<close>

definition opens_with :: "stamp \<Rightarrow> u64 \<Rightarrow> string \<Rightarrow> bool" where
  "opens_with st pos bs \<longleftrightarrow>
     st_size st \<le> pos \<and> bs = [] \<or>
     (\<exists>ob :: r2_object. ob_etag ob = st_etag st \<and> bs = drop pos (ob_bytes ob) \<and> st_size st - pos \<le> length bs)"

abbreviation place_of :: "cursor option \<Rightarrow> u64" where
  "place_of c \<equiv> (case c of Some cu \<Rightarrow> cu_offset cu | None \<Rightarrow> 0)"

inductive reads_to :: "door \<Rightarrow> stamp \<Rightarrow> pass \<Rightarrow> cursor option \<Rightarrow> bool" for d st p where
  reads_none: "reads_to d st p None"
| reads_on: "reads_to d st p c \<Longrightarrow> opens_with st (place_of c) bs \<Longrightarrow>
    dr_read d c p now bs = Inr (ReadPaused cu) \<Longrightarrow> reads_to d st p (Some cu)"

definition read_through :: "door \<Rightarrow> stamp \<Rightarrow> pass \<Rightarrow> cursor \<Rightarrow> bool" where
  "read_through d st p cu \<longleftrightarrow>
     (\<exists>c bs now. reads_to d st p c \<and> opens_with st (place_of c) bs \<and> dr_read d c p now bs = Inr (ReadValid cu))"

text \<open>A saved state that was earned: its phase was reached, the roots it counts were confirmed.\<close>

definition earned :: "door \<Rightarrow> string \<Rightarrow> rest \<Rightarrow> bool" where
  "earned d base r \<longleftrightarrow>
     (case rs_phase r of
        Structure \<Rightarrow> reads_to d (rs_stamp r) PassStructure (Some (rs_cursor r))
      | Scripts \<Rightarrow> (\<exists>cu. read_through d (rs_stamp r) PassStructure cu) \<and>
          reads_to d (rs_stamp r) PassScripts (Some (rs_cursor r))
      | Roots \<Rightarrow> (\<exists>cu. read_through d (rs_stamp r) PassStructure cu) \<and>
          read_through d (rs_stamp r) PassScripts (rs_cursor r) \<and>
          (\<forall>i. i < rs_roots_asked r \<and> i < length (roots_of (rs_cursor r)) \<longrightarrow>
             confirmed d base (roots_of (rs_cursor r) ! i)))"

definition stamp_fits :: "stamp \<Rightarrow> bool" where
  "stamp_fits st \<longleftrightarrow> st_size st < 2 ^ 64 \<and> length (st_etag st) < 2 ^ 32 \<and> is_utf8 (st_etag st)"

text \<open>The states in the bucket are earned, and what is at the other keys has a stamp of the machine's.\<close>

definition door_inv :: "door \<Rightarrow> string \<Rightarrow> vault \<Rightarrow> bool" where
  "door_inv d base v \<longleftrightarrow>
     (\<forall>k ob r. v_objects v (state_key k) = Some ob \<longrightarrow> rest_from_binary d (ob_bytes ob) = Some r \<longrightarrow> earned d base r) \<and>
     (\<forall>k ob. v_objects v k = Some ob \<longrightarrow> \<not> starts_with ''door-state/'' k \<longrightarrow> stamp_fits (stamp_of ob))"

text \<open>
  The library's cursor: a reading's cursor, where it decodes from its own bytes, decodes to itself,
  and its roots are counted by a machine word.
\<close>

definition cursor_law :: "door \<Rightarrow> bool" where
  "cursor_law d \<longleftrightarrow>
     (\<forall>c p now bs cu. dr_read d c p now bs = Inr (ReadPaused cu) \<or> dr_read d c p now bs = Inr (ReadValid cu) \<longrightarrow>
        (\<forall>cu'. dr_cursor d (cu_bytes cu) = Some cu' \<longrightarrow> cu' = cu) \<and> length (cu_roots cu) < 2 ^ 64)"

subsection \<open>The bucket's calls\<close>

lemma r2_call_reads:
  assumes "r2_call env what call v = (r, v')" and "\<And>v. snd (call v) = v"
  shows "v_objects v' = v_objects v" and "r = Inr a \<Longrightarrow> a = fst (call v')"
proof -
  have call: "call v = (fst (call v), v)" for v using assms(2) [of v] by (metis prod.collapse)
  have "v_objects v' = v_objects v \<and> (\<forall>a. r = Inr a \<longrightarrow> a = fst (call v'))"
    using assms(1) call [of "v\<lparr>v_r2 := tl (v_r2 v)\<rparr>"]
    by (cases "bucket env"; cases "v_r2 v"; cases "hd (v_r2 v)") (auto simp: r2_call_def Let_def assms(2) split: prod.splits)
  then show "v_objects v' = v_objects v" "r = Inr a \<Longrightarrow> a = fst (call v')" by blast+
qed

lemma stamp_reads:
  assumes "blob_stamp env k v = (r, v')"
  shows "v_objects v' = v_objects v" and "r = Inr (Some st) \<Longrightarrow> \<exists>ob. v_objects v k = Some ob \<and> st = stamp_of ob"
proof -
  note reads = r2_call_reads [OF assms [unfolded blob_stamp_def], simplified]
  from reads(1) show "v_objects v' = v_objects v" .
  show "\<exists>ob. v_objects v k = Some ob \<and> st = stamp_of ob" if "r = Inr (Some st)"
    using reads that by (cases "v_objects v k") auto
qed

lemma open_reads:
  assumes "blob_open env k pos st v = (r, v')"
  shows "v_objects v' = v_objects v" and "r = Inr bs \<Longrightarrow> opens_with st pos bs"
proof -
  have "v_objects v' = v_objects v \<and> (\<forall>bs. r = Inr bs \<longrightarrow> opens_with st pos bs)"
  proof (cases "st_size st \<le> pos")
    case True
    with assms show ?thesis by (auto simp: blob_open_def opens_with_def)
  next
    case False
    obtain x u where x: "r2_call env ''R2 get: '' (\<lambda>v. (v_objects v k, v)) v = (x, u)"
      by (cases "r2_call env ''R2 get: '' (\<lambda>v. (v_objects v k, v)) v")
    have u: "v_objects u = v_objects v" using r2_call_reads(1) [OF x] by simp
    show ?thesis
    proof (cases "\<exists>ob. x = Inr (Some ob) \<and> ob_etag ob = st_etag st")
      case True
      then obtain ob where ob: "x = Inr (Some ob)" "ob_etag ob = st_etag st" by blast
      obtain y w where y: "r2_call env ''R2 body read: '' (\<lambda>v. (drop pos (ob_bytes ob), v)) u = (y, w)"
        by (cases "r2_call env ''R2 body read: '' (\<lambda>v. (drop pos (ob_bytes ob), v)) u")
      note yw = r2_call_reads [OF y, simplified]
      from assms False x ob y u yw show ?thesis
        by (cases y) (auto simp: blob_open_def opens_with_def split: if_splits)
    qed (use assms False x u in \<open>cases x; auto simp: blob_open_def split: option.splits if_splits\<close>)
  qed
  then show "v_objects v' = v_objects v" "r = Inr bs \<Longrightarrow> opens_with st pos bs" by blast+
qed

lemma object_reads:
  assumes "object_from env k st pos v = (r, v')"
  shows "v_objects v' = v_objects v" and "r = Inr bs \<Longrightarrow> opens_with st pos bs"
proof -
  obtain x where x: "blob_open env k pos st v = (x, v')" using assms
    by (cases "blob_open env k pos st v"; cases "fst (blob_open env k pos st v)") (auto simp: object_from_def map_err_def)
  with assms open_reads [OF x] show "v_objects v' = v_objects v" "r = Inr bs \<Longrightarrow> opens_with st pos bs"
    by (cases x; auto simp: object_from_def map_err_def)+
qed

lemma door_inv_objects: "door_inv d base v \<Longrightarrow> v_objects v' = v_objects v \<Longrightarrow> door_inv d base v'"
  by (simp add: door_inv_def)

lemma starts_with_state [simp]: "starts_with ''door-state/'' (state_key k)"
  by (rule starts_with_state_key)

lemma state_key_eq [simp]: "state_key j = state_key k \<longleftrightarrow> j = k"
  by (simp add: state_key_def)

lemma clear_inv:
  assumes "door_inv d base v"
  shows "door_inv d base (snd (blob_clear env (state_key k) v))"
  using assms
  by (cases "bucket env"; cases "v_r2 v"; cases "hd (v_r2 v)")
     (auto simp: blob_clear_def r2_call_def Let_def door_inv_def split: if_splits)

lemma put_state_inv:
  assumes "door_inv d base v" and "\<And>r. rest_from_binary d bytes = Some r \<Longrightarrow> earned d base r"
  shows "door_inv d base (snd (put_object env (state_key k) bytes reader v))"
proof -
  have "j \<noteq> state_key k" if "\<not> starts_with ''door-state/'' j" for j using that by auto
  with assms show ?thesis by (auto simp: door_inv_def put_object_def Let_def split: if_splits)
qed

lemma save_inv:
  assumes "door_inv d base v" and "\<And>r. rest_from_binary d bytes = Some r \<Longrightarrow> earned d base r"
  shows "door_inv d base (snd (blob_save env (state_key k) bytes v))"
proof -
  have "door_inv d base (v\<lparr>v_r2 := x\<rparr>)" for x using assms(1) by (simp add: door_inv_def)
  from put_state_inv [OF this assms(2), of bytes] this assms(1) show ?thesis
    by (cases "bucket env"; cases "v_r2 v"; cases "hd (v_r2 v)") (auto simp: blob_save_def r2_call_def Let_def)
qed

subsection \<open>The door, phase by phase\<close>

text \<open>The paying output of a reading, judged under the terms, with the subject it names.\<close>

definition pays :: "door \<Rightarrow> stamp \<Rightarrow> terms \<Rightarrow> string \<Rightarrow> u64 \<Rightarrow> bool" where
  "pays d st t txid sat \<longleftrightarrow>
     (\<exists>p cu tip tail raw bump. read_through d st p cu \<and> tip_of cu = Inr (Some tip) \<and> tp_txid tip = txid \<and>
        opens_with st (tp_at tip) tail \<and> subject_raw d tail txid = Inr raw \<and>
        output_word d raw bump t = Verified sat)"

definition checked :: "door \<Rightarrow> string \<Rightarrow> terms \<Rightarrow> stamp \<Rightarrow> door_verdict \<Rightarrow> bool" where
  "checked d base t st w \<longleftrightarrow>
     (\<forall>sat. dv_word w = Verified sat \<longrightarrow>
        (\<exists>cu0 cu txid. read_through d st PassStructure cu0 \<and> read_through d st PassScripts cu \<and>
           roots_of cu \<noteq> [] \<and> (\<forall>x\<in>set (roots_of cu). confirmed d base x) \<and>
           dv_subject w = Some txid \<and> pays d st t txid sat))"

definition sound :: "door \<Rightarrow> string \<Rightarrow> terms \<Rightarrow> stamp \<Rightarrow> at_rest_answer \<Rightarrow> bool" where
  "sound d base t st a \<longleftrightarrow> (\<forall>w. a = AtRestDone w \<longrightarrow> checked d base t st w)"

lemma checked_unverified: "(\<And>sat. dv_word w \<noteq> Verified sat) \<Longrightarrow> checked d base t st w"
  by (simp add: checked_def)

lemma refusal_unverified: "checked d base t st (refusal_word d v)"
  by (cases "(d, v)" rule: refusal_word.cases) (auto simp: checked_def)

lemma bump_reads: "v_objects (snd (bump_bytes d (object_from env k st) place v)) = v_objects v"
proof -
  obtain x u where x: "object_from env k st 0 v = (x, u)" by (cases "object_from env k st 0 v")
  have "v_objects w = v_objects u" if "object_from env k st pos u = (y, w)" for pos y w by (rule object_reads(1) [OF that])
  then have more: "v_objects (snd (andThen (object_from env k st pos u) f)) = v_objects u"
    if "\<And>a s. v_objects (snd (f a s)) = v_objects s" for pos and f :: "string \<Rightarrow> string doored"
    using that by (cases "object_from env k st pos u"; cases "fst (object_from env k st pos u)") auto
  show ?thesis using x object_reads(1) [OF x]
    by (cases x) (auto simp: bump_bytes_def Let_def split: option.split intro!: more trans [OF more])
qed

lemma bump_reads_at: "bump_bytes d (object_from env k st) place v = (r, v') \<Longrightarrow> v_objects v' = v_objects v"
  using bump_reads [of d env k st place v] by simp

lemma paid_by_pays:
  assumes "paid_by d cu t (object_from env k st) v = (r, v')"
  shows "v_objects v' = v_objects v"
    and "r = Inr (Inr (txid, sat)) \<Longrightarrow> read_through d st p cu \<Longrightarrow> pays d st t txid sat"
    and "r = Inr (Inl w) \<Longrightarrow> w \<noteq> Verified sat"
proof -
  have "v_objects v' = v_objects v \<and>
    (\<forall>txid sat p. r = Inr (Inr (txid, sat)) \<longrightarrow> read_through d st p cu \<longrightarrow> pays d st t txid sat) \<and>
    (\<forall>w sat. r = Inr (Inl w) \<longrightarrow> w \<noteq> Verified sat)"
  proof (cases "tip_of cu")
    case (Inr tip')
    show ?thesis
    proof (cases tip')
      case (Some tip)
      obtain x u where x: "object_from env k st (tp_at tip) v = (x, u)" by (cases "object_from env k st (tp_at tip) v")
      note xu = object_reads [OF x]
      show ?thesis
      proof (cases "\<exists>tail raw. x = Inr tail \<and> subject_raw d tail (tp_txid tip) = Inr raw")
        case True
        then obtain tail raw where tail: "x = Inr tail" "subject_raw d tail (tp_txid tip) = Inr raw" by blast
        let ?b = "case tp_proof tip of
            Some place \<Rightarrow> andThen (bump_bytes d (object_from env k st) place u) (\<lambda>b s. (Inr (Some b), s))
          | None \<Rightarrow> (Inr None, u)"
        obtain b w where b: "?b = (b, w)" by (cases ?b)
        have w: "v_objects w = v_objects u" using b
          by (cases "tp_proof tip") (auto simp: andThen_def split: prod.splits sum.splits dest: bump_reads_at)
        have run: "paid_by d cu t (object_from env k st) v = andThen (b, w) (\<lambda>bump s.
            (Inr (case output_word d raw bump t of Verified satoshis \<Rightarrow> Inr (tp_txid tip, satoshis) | other \<Rightarrow> Inl other), s))"
          using Inr Some x tail b by (simp add: paid_by_def)
        have "pays d st t (tp_txid tip) sat" if "output_word d raw bump t = Verified sat" "read_through d st p cu" for bump sat p
          unfolding pays_def using that Inr Some tail xu(2) [OF tail(1)] by blast
        with assms run w xu(1) show ?thesis
          by (cases b) (auto split: payment_verdict.splits)
      qed (use assms Inr Some x xu(1) in \<open>cases x; auto simp: paid_by_def split: sum.splits\<close>)
    qed (use assms Inr in \<open>auto simp: paid_by_def\<close>)
  qed (use assms in \<open>auto simp: paid_by_def\<close>)
  then show "v_objects v' = v_objects v" "r = Inr (Inr (txid, sat)) \<Longrightarrow> read_through d st p cu \<Longrightarrow> pays d st t txid sat"
    "r = Inr (Inl w) \<Longrightarrow> w \<noteq> Verified sat" by blast+
qed

lemma door_done_sound:
  assumes "door_inv d base v" and "checked d base t st w"
  shows "leaves (door_inv d base) (\<lambda>a _. sound d base t st a) (door_done env k w v)"
proof -
  have "leaves (door_inv d base) (\<lambda>_ _. True) (blob_clear env (state_key k) v)"
    using clear_inv [OF assms(1)] by (rule leavesI) simp
  then show ?thesis unfolding door_done_def
    by (intro leaves_andThen [OF leaves_map_errI]) (auto simp: sound_def assms(2))
qed

lemma door_pause_sound:
  assumes "door_inv d base v" and "cursor_law d" and "stamp_fits st" and "n < 2 ^ 64"
    and "dr_read d c p now bs = Inr (ReadPaused cu) \<or> dr_read d c p now bs = Inr (ReadValid cu)"
    and "earned d base \<lparr>rs_stamp = st, rs_phase = ph, rs_roots_asked = n, rs_cursor = cu\<rparr>"
  shows "leaves (door_inv d base) (\<lambda>a _. \<exists>q. a = AtRestPending q) (door_pause env k st ph cu n roots v)"
proof -
  let ?r = "\<lparr>rs_stamp = st, rs_phase = ph, rs_roots_asked = n, rs_cursor = cu\<rparr>"
  have fits: "rest_fits ?r" using assms(3,4) by (simp add: rest_fits_def stamp_fits_def)
  have same: "r = ?r" if "rest_from_binary d (rest_to_binary ?r) = Some r" for r
    using that assms(2,5) unfolding rest_reads [OF fits] cursor_law_def
    by (cases "dr_cursor d (cu_bytes cu)") (auto split: if_splits)
  have "leaves (door_inv d base) (\<lambda>_ _. True) (blob_save env (state_key k) (rest_to_binary ?r) v)"
    by (rule leavesI, rule save_inv [OF assms(1)]) (use same assms(6) in auto)
  then show ?thesis unfolding door_pause_def
    by (intro leaves_andThen [OF leaves_map_errI]) auto
qed

lemma pending_sound: "\<exists>q. a = AtRestPending q \<Longrightarrow> sound d base t st a"
  by (auto simp: sound_def)

lemma paused_sound:
  "leaves P (\<lambda>a _. \<exists>q. a = AtRestPending q) r \<Longrightarrow> leaves P (\<lambda>a _. sound d base t st a) r"
  by (erule leaves_mono) (rule pending_sound)

lemma length_roots_of: "length (roots_of cu) \<le> length (cu_roots cu)"
  unfolding roots_of_def by (metis length_sort remdups_adj_length)

lemma judged_checked:
  assumes "roots_word d (roots_of cu) n lookups (fetch_root d now base) sat = RootedWord w x"
    and "read_through d st PassStructure cu0" and "read_through d st PassScripts cu" and "pays d st t txid sat"
    and "\<And>i. i < n \<Longrightarrow> i < length (roots_of cu) \<Longrightarrow> confirmed d base (roots_of cu ! i)"
  shows "checked d base t st (judged_word w txid)"
proof (cases "\<exists>s. w = Verified s")
  case True
  then obtain s where w: "w = Verified s" by blast
  with roots_word_spec(1) [OF assms(1)] have spec: "roots_of cu \<noteq> []" "s = sat"
    "\<And>i. n \<le> i \<Longrightarrow> i < length (roots_of cu) \<Longrightarrow> agrees d (fetch_root d now base) (roots_of cu ! i)" by auto
  have "confirmed d base (roots_of cu ! i)" if "i < length (roots_of cu)" for i
    using assms(5) [of i] spec(3) [of i] that by (cases "i < n") (auto simp: confirmed_def)
  then have "\<forall>x\<in>set (roots_of cu). confirmed d base x" by (metis in_set_conv_nth)
  with w spec assms(2-4) show ?thesis by (auto simp: checked_def judged_word_def)
qed (auto simp: checked_def judged_word_def)

lemma earned_further:
  assumes "roots_word d (roots_of cu) n lookups (fetch_root d now base) sat = out"
    and "out = RootedPaused p \<or> out = RootedWord w (Some p)"
    and "read_through d st PassStructure cu0" and "read_through d st PassScripts cu"
    and "\<And>i. i < n \<Longrightarrow> i < length (roots_of cu) \<Longrightarrow> confirmed d base (roots_of cu ! i)"
  shows "earned d base \<lparr>rs_stamp = st, rs_phase = Roots, rs_roots_asked = p, rs_cursor = cu\<rparr>"
    and "p < length (roots_of cu)"
proof -
  have a: "agreed d (fetch_root d now base) (roots_of cu) n p" by (rule roots_word_spec(2) [OF assms(1,2)])
  then show "p < length (roots_of cu)" by (simp add: agreed_def)
  have "confirmed d base (roots_of cu ! i)" if "i < p" "i < length (roots_of cu)" for i
  proof (cases "i < n")
    case False
    with a that have "agrees d (fetch_root d now base) (roots_of cu ! i)" by (simp add: agreed_def)
    then show ?thesis unfolding confirmed_def by blast
  qed (use assms(5) that in blast)
  with assms(3,4) show "earned d base \<lparr>rs_stamp = st, rs_phase = Roots, rs_roots_asked = p, rs_cursor = cu\<rparr>"
    by (auto simp: earned_def)
qed

lemma read_cursor:
  "read_through d st p cu \<Longrightarrow> \<exists>c now bs. dr_read d c p now bs = Inr (ReadValid cu)"
  by (auto simp: read_through_def)

lemma door_roots_sound:
  assumes inv: "door_inv d base v" and law: "cursor_law d" and st: "stamp_fits st"
    and through: "read_through d st PassStructure cu0" "read_through d st PassScripts cu"
    and n: "\<And>i. i < n \<Longrightarrow> i < length (roots_of cu) \<Longrightarrow> confirmed d base (roots_of cu ! i)"
    and known: "\<And>txid sat. known = Some (txid, sat) \<Longrightarrow> pays d st t txid sat"
  shows "leaves (door_inv d base) (\<lambda>a _. sound d base t st a) (door_roots env d base t k st cu n known v)"
proof -
  obtain c now0 bs where cur: "dr_read d c PassScripts now0 bs = Inr (ReadValid cu)" using read_cursor [OF through(2)] by blast
  then have "length (cu_roots cu) < 2 ^ 64" using law unfolding cursor_law_def by blast
  then have few: "m < 2 ^ 64" if "m < length (roots_of cu)" for m
    using that length_roots_of [of cu] by linarith
  have roots: "leaves (door_inv d base) (\<lambda>a _. sound d base t st a)
      (case roots_word d (roots_of cu) n (Some ROOT_LOOKUPS_PER_PASS) (fetch_root d (v_now u) base) sat of
         RootedPaused place \<Rightarrow> door_pause env k st Roots cu place (length (roots_of cu)) u
       | RootedWord w (Some place) \<Rightarrow>
           andThen (door_pause env k st Roots cu place (length (roots_of cu)) u) (\<lambda>_ v.
             (Inr (AtRestDone (judged_word w txid)), v))
       | RootedWord w None \<Rightarrow> door_done env k (judged_word w txid) u)"
    if u: "door_inv d base u" and paid: "pays d st t txid sat" for u txid sat
  proof (cases "roots_word d (roots_of cu) n (Some ROOT_LOOKUPS_PER_PASS) (fetch_root d (v_now u) base) sat")
    case (RootedPaused p)
    note e = earned_further [OF RootedPaused disjI1 [OF refl] through n]
    from door_pause_sound [OF u law st few [OF e(2)] disjI2 [OF cur] e(1)] RootedPaused show ?thesis
      by (auto intro: paused_sound)
  next
    case (RootedWord w x)
    note judged = judged_checked [OF RootedWord through paid n]
    show ?thesis
    proof (cases x)
      case None
      with door_done_sound [OF u judged] RootedWord show ?thesis by simp
    next
      case (Some p)
      note e = earned_further [OF RootedWord [unfolded Some] disjI2 [OF refl] through n]
      from door_pause_sound [OF u law st few [OF e(2)] disjI2 [OF cur] e(1)] RootedWord Some judged show ?thesis
        by (auto intro!: leaves_andThen simp: sound_def)
    qed
  qed
  show ?thesis
  proof (cases known)
    case (Some x)
    with roots [OF inv] known show ?thesis by (cases x) (simp add: door_roots_def Let_def)
  next
    case None
    obtain r u where r: "paid_by d cu t (object_from env k st) v = (r, u)" by (cases "paid_by d cu t (object_from env k st) v")
    note paid = paid_by_pays [OF r]
    have u: "door_inv d base u" by (rule door_inv_objects [OF inv paid(1)])
    show ?thesis
    proof (cases r)
      case (Inr q)
      show ?thesis
      proof (cases q)
        case (Inl w)
        with paid(3) Inr have "checked d base t st (word_only w)" by (auto simp: checked_def word_only_def)
        with door_done_sound [OF u] None r Inr Inl show ?thesis by (simp add: door_roots_def)
      next
        case (Inr y)
        obtain txid sat where y: "y = (txid, sat)" by (cases y)
        have "pays d st t txid sat" using paid(2) [OF _ through(2)] Inr \<open>r = Inr q\<close> y by simp
        from roots [OF u this] None r Inr \<open>r = Inr q\<close> y show ?thesis by (simp add: door_roots_def Let_def)
      qed
    qed (use None r u in \<open>simp add: door_roots_def\<close>)
  qed
qed

lemma door_reading_through:
  assumes "door_reading env d k st c p v = (r, v')" and "reads_to d st p c"
  shows "v_objects v' = v_objects v" and "r = Inr (ReadValid cu) \<Longrightarrow> read_through d st p cu"
    and "r = Inr (ReadPaused cu) \<Longrightarrow> reads_to d st p (Some cu)"
    and "r = Inr (ReadPaused cu) \<Longrightarrow> \<exists>c now bs. dr_read d c p now bs = Inr (ReadPaused cu)"
proof -
  obtain x u where x: "object_from env k st (place_of c) v = (x, u)" by (cases "object_from env k st (place_of c) v")
  note reads = object_reads [OF x]
  have "v' = u" using assms(1) x by (cases x) (auto simp: door_reading_def split: sum.splits)
  with reads(1) show "v_objects v' = v_objects v" by simp
  have run: "\<exists>bs. opens_with st (place_of c) bs \<and> dr_read d c p (Some (v_now u)) bs = Inr q" if "r = Inr q" for q
    using that assms(1) x reads(2) by (cases x) (auto simp: door_reading_def split: sum.splits)
  show "read_through d st p cu" if "r = Inr (ReadValid cu)"
    using run [OF that] assms(2) unfolding read_through_def by blast
  show "reads_to d st p (Some cu)" if "r = Inr (ReadPaused cu)"
    using run [OF that] assms(2) by (blast intro: reads_on)
  show "\<exists>c now bs. dr_read d c p now bs = Inr (ReadPaused cu)" if "r = Inr (ReadPaused cu)"
    using run [OF that] by blast
qed

lemma door_scripts_sound:
  assumes inv: "door_inv d base v" and law: "cursor_law d" and st: "stamp_fits st"
    and through: "read_through d st PassStructure cu0" and c: "reads_to d st PassScripts c"
    and known: "\<And>txid sat. known = Some (txid, sat) \<Longrightarrow> pays d st t txid sat"
  shows "leaves (door_inv d base) (\<lambda>a _. sound d base t st a) (door_scripts env d base t k st c known v)"
proof -
  obtain r u where r: "door_reading env d k st c PassScripts v = (r, u)" by (cases "door_reading env d k st c PassScripts v")
  note reading = door_reading_through [OF r c]
  have u: "door_inv d base u" by (rule door_inv_objects [OF inv reading(1)])
  show ?thesis
  proof (cases r)
    case (Inr q)
    show ?thesis
    proof (cases q)
      case (ReadValid cu)
      with reading(2) Inr have cu: "read_through d st PassScripts cu" by simp
      from door_roots_sound [OF u law st through cu _ known, of 0] r Inr ReadValid show ?thesis by (simp add: door_scripts_def)
    next
      case (ReadRefused w)
      with door_done_sound [OF u refusal_unverified] r Inr show ?thesis by (simp add: door_scripts_def)
    next
      case (ReadPaused cu)
      obtain c' now bs where read: "dr_read d c' PassScripts now bs = Inr (ReadPaused cu)" using reading(4) Inr ReadPaused by blast
      have "earned d base \<lparr>rs_stamp = st, rs_phase = Scripts, rs_roots_asked = 0, rs_cursor = cu\<rparr>"
        using through reading(3) Inr ReadPaused by (auto simp: earned_def)
      from door_pause_sound [OF u law st _ disjI1 [OF read] this] r Inr ReadPaused show ?thesis
        by (auto simp: door_scripts_def intro: paused_sound)
    qed
  qed (use r u in \<open>simp add: door_scripts_def\<close>)
qed

lemma door_structure_sound:
  assumes inv: "door_inv d base v" and law: "cursor_law d" and st: "stamp_fits st" and c: "reads_to d st PassStructure c"
  shows "leaves (door_inv d base) (\<lambda>a _. sound d base t st a) (door_structure env d base t k st c v)"
proof -
  obtain r u where r: "door_reading env d k st c PassStructure v = (r, u)" by (cases "door_reading env d k st c PassStructure v")
  note reading = door_reading_through [OF r c]
  have u: "door_inv d base u" by (rule door_inv_objects [OF inv reading(1)])
  show ?thesis
  proof (cases r)
    case (Inr q)
    show ?thesis
    proof (cases q)
      case (ReadValid cu)
      with reading(2) Inr have cu: "read_through d st PassStructure cu" by simp
      obtain x w where x: "paid_by d cu t (object_from env k st) u = (x, w)" by (cases "paid_by d cu t (object_from env k st) u")
      note paid = paid_by_pays [OF x]
      have w: "door_inv d base w" by (rule door_inv_objects [OF u paid(1)])
      show ?thesis
      proof (cases x)
        case (Inr y)
        show ?thesis
        proof (cases y)
          case (Inl word)
          with paid(3) Inr have "checked d base t st (word_only word)" by (auto simp: checked_def word_only_def)
          with door_done_sound [OF w] r \<open>r = Inr q\<close> ReadValid x Inr Inl show ?thesis by (simp add: door_structure_def)
        next
          case (Inr z)
          have "pays d st t txid sat" if "Some z = Some (txid, sat)" for txid sat
            using paid(2) [OF _ cu] Inr \<open>x = Inr y\<close> that by simp
          from door_scripts_sound [OF w law st cu reads_none this, of "Some z"] r \<open>r = Inr q\<close> ReadValid x \<open>x = Inr y\<close> Inr
          show ?thesis by (simp add: door_structure_def)
        qed
      qed (use r Inr ReadValid x w in \<open>simp add: door_structure_def\<close>)
    next
      case (ReadRefused w)
      with door_done_sound [OF u refusal_unverified] r Inr show ?thesis by (simp add: door_structure_def)
    next
      case (ReadPaused cu)
      obtain c' now bs where read: "dr_read d c' PassStructure now bs = Inr (ReadPaused cu)" using reading(4) Inr ReadPaused by blast
      have "earned d base \<lparr>rs_stamp = st, rs_phase = Structure, rs_roots_asked = 0, rs_cursor = cu\<rparr>"
        using reading(3) Inr ReadPaused by (auto simp: earned_def)
      from door_pause_sound [OF u law st _ disjI1 [OF read] this] r Inr ReadPaused show ?thesis
        by (auto simp: door_structure_def intro: paused_sound)
    qed
  qed (use r u in \<open>simp add: door_structure_def\<close>)
qed

lemma door_at_rest_sound:
  assumes inv: "door_inv d base v" and law: "cursor_law d" and st: "stamp_fits st"
  shows "leaves (door_inv d base) (\<lambda>a _. sound d base t st a) (door_at_rest env d base t k st v)"
proof -
  obtain r u where r: "blob_load env (state_key k) v = (r, u)" by (cases "blob_load env (state_key k) v")
  have load: "v_objects u = v_objects v \<and> (\<forall>b. r = Inr (Some b) \<longrightarrow> (\<exists>ob. v_objects v (state_key k) = Some ob \<and> b = ob_bytes ob))"
  proof -
    obtain x w where x: "r2_call env ''R2 get: '' (\<lambda>v. (map_option ob_bytes (v_objects v (state_key k)), v)) v = (x, w)"
      by (cases "r2_call env ''R2 get: '' (\<lambda>v. (map_option ob_bytes (v_objects v (state_key k)), v)) v")
    note xw = r2_call_reads [OF x, simplified]
    show ?thesis
    proof (cases "\<exists>b. x = Inr (Some b)")
      case True
      then obtain b where b: "x = Inr (Some b)" by blast
      with r x have "r2_call env ''R2 body read: '' (\<lambda>v. (Some b, v)) w = (r, u)" by (simp add: blob_load_def)
      from r2_call_reads [OF this, simplified] xw b show ?thesis by (cases "v_objects v (state_key k)") auto
    qed (use r x xw(1) in \<open>cases x; auto simp: blob_load_def split: option.splits\<close>)
  qed
  then have u: "door_inv d base u" using door_inv_objects [OF inv] by blast
  show ?thesis
  proof (cases r)
    case (Inr saved)
    show ?thesis
    proof (cases "saved_state d st saved")
      case None
      with door_structure_sound [OF u law st reads_none] r Inr show ?thesis by (simp add: door_at_rest_def)
    next
      case (Some s)
      then obtain b where b: "saved = Some b" "rest_from_binary d b = Some s" "rs_stamp s = st"
        by (auto simp: saved_state_def Option.bind_eq_Some_conv split: option.splits if_splits)
      with load Inr inv have e: "earned d base s" by (auto simp: door_inv_def)
      show ?thesis
      proof (cases "rs_phase s")
        case Structure
        with e b(3) door_structure_sound [OF u law st, of "Some (rs_cursor s)"] r Inr Some show ?thesis
          by (simp add: door_at_rest_def earned_def)
      next
        case Scripts
        with e b(3) obtain cu0 where "read_through d st PassStructure cu0" "reads_to d st PassScripts (Some (rs_cursor s))"
          by (auto simp: earned_def)
        from door_scripts_sound [OF u law st this, of None] r Inr Some Scripts show ?thesis by (simp add: door_at_rest_def)
      next
        case Roots
        with e b(3) obtain cu0 where "read_through d st PassStructure cu0" "read_through d st PassScripts (rs_cursor s)"
          "\<And>i. i < rs_roots_asked s \<Longrightarrow> i < length (roots_of (rs_cursor s)) \<Longrightarrow> confirmed d base (roots_of (rs_cursor s) ! i)"
          by (auto simp: earned_def)
        from door_roots_sound [OF u law st this, where known = None] r Inr Some Roots show ?thesis by (simp add: door_at_rest_def)
      qed
    qed
  qed (use r u in \<open>simp add: door_at_rest_def\<close>)
qed

lemma verify_sound:
  assumes inv: "door_inv d base v" and law: "cursor_law d" and base: "dr_header_base d = Some base"
    and k: "\<not> starts_with ''door-state/'' k"
  shows "leaves (door_inv d base) (\<lambda>(a, st) _. \<forall>s. st = Some s \<longrightarrow> sound d base t s a) (verify_at_rest_stamped env d k t v)"
    and "verify_at_rest_stamped env d k t v = (Inr (AtRestDone w, st), v') \<Longrightarrow> st \<noteq> None"
proof -
  obtain r u where r: "blob_stamp env k v = (r, u)" by (cases "blob_stamp env k v")
  note stamp = stamp_reads [OF r]
  have u: "door_inv d base u" by (rule door_inv_objects [OF inv stamp(1)])
  have st: "stamp_fits s" if "r = Inr (Some s)" for s
    using stamp(2) [OF that] inv k by (auto simp: door_inv_def)
  have "leaves (door_inv d base) (\<lambda>(a, st) _. \<forall>s. st = Some s \<longrightarrow> sound d base t s a)
      (andThen (door_at_rest env d base t k s u) (\<lambda>a v. (Inr (a, Some s), v)))" if "r = Inr (Some s)" for s
    by (rule leaves_andThen [OF door_at_rest_sound [OF u law st [OF that]]]) simp
  with r u base show "leaves (door_inv d base) (\<lambda>(a, st) _. \<forall>s. st = Some s \<longrightarrow> sound d base t s a) (verify_at_rest_stamped env d k t v)"
    by (cases r) (auto simp: verify_at_rest_stamped_def split: option.split)
  show "st \<noteq> None" if "verify_at_rest_stamped env d k t v = (Inr (AtRestDone w, st), v')"
    using that r base by (cases r) (auto simp: verify_at_rest_stamped_def andThen_Inr_iff split: option.splits)
qed

subsection \<open>The requests that carry a reading on\<close>

text \<open>
  A pass of the door over an object, and between passes: uploads and deletions at the other keys,
  and any fate of the bucket's calls to come and any clock.
\<close>

datatype door_call = DoorPass string terms | DoorUpload string string "string option" | DoorDelete string | DoorFates "r2_fate list" u64

fun door_do :: "pay_env \<Rightarrow> door \<Rightarrow> door_call \<Rightarrow> vault \<Rightarrow> (door_error, at_rest_answer option, vault) outcome" where
  "door_do env d (DoorPass k t) v = andThen (verify_at_rest_stamped env d k t v) (\<lambda>(a, _) v. (Inr (Some a), v))"
| "door_do env d (DoorUpload k bytes reader) v = (Inr None, snd (put_object env k bytes reader v))"
| "door_do env d (DoorDelete k) v = (Inr None, v\<lparr>v_objects := (v_objects v)(k := None)\<rparr>)"
| "door_do env d (DoorFates r2 now) v = (Inr None, v\<lparr>v_r2 := r2, v_now := now\<rparr>)"

fun door_call_ok :: "pay_env \<Rightarrow> door_call \<Rightarrow> bool" where
  "door_call_ok env (DoorPass k t) = (\<not> starts_with ''door-state/'' k)"
| "door_call_ok env (DoorUpload k bytes reader) =
     (\<not> starts_with ''door-state/'' k \<and> length bytes < 2 ^ 64 \<and>
      (\<forall>n. stamp_fits \<lparr>st_size = 0, st_etag = pe_etag env n bytes\<rparr>))"
| "door_call_ok env (DoorDelete k) = True"
| "door_call_ok env (DoorFates r2 now) = True"

lemma upload_inv:
  assumes "door_inv d base v" and "door_call_ok env (DoorUpload k bytes reader)"
  shows "door_inv d base (snd (put_object env k bytes reader v))"
proof -
  have "state_key j \<noteq> k" for j using assms(2) by auto
  with assms show ?thesis
    by (auto simp: door_inv_def put_object_def Let_def stamp_fits_def stamp_of_def)
qed

definition door_kept :: "door \<Rightarrow> string \<Rightarrow> vault \<Rightarrow> bool" where
  "door_kept d base v \<longleftrightarrow> cursor_law d \<and> dr_header_base d = Some base \<and> door_inv d base v"

interpretation doors: kept "door_do env d" "door_call_ok env" "door_kept d base" for env d base
proof
  fix s c
  assume inv: "door_kept d base s" and ok: "door_call_ok env c"
  show "door_kept d base (snd (door_do env d c s))"
  proof (cases c)
    case (DoorPass k t)
    have "leaves (door_inv d base) (\<lambda>_ _. True) (door_do env d c s)"
      unfolding DoorPass door_do.simps
      by (rule leaves_andThen, rule verify_sound(1)) (use inv ok DoorPass in \<open>auto simp: door_kept_def\<close>)
    with inv show ?thesis by (simp add: door_kept_def leaves_def)
  next
    case (DoorUpload k bytes reader)
    with inv ok upload_inv show ?thesis by (simp add: door_kept_def)
  next
    case (DoorDelete k)
    with inv show ?thesis by (auto simp: door_kept_def door_inv_def)
  next
    case (DoorFates r2 now)
    with inv show ?thesis by (simp add: door_kept_def door_inv_def)
  qed
qed

text \<open>
  C9 (verified_means_checked). Through any number of requests over the same or other objects, with
  any failure of the bucket and any change of objects and clock between them: a payment at rest
  answered as verified has a structure and scripts that were read through over the bytes of the
  stamp the answer names, at least one merkle root, each of them confirmed by the header service,
  and an output that pays under the terms of the request that is answered, in the transaction the
  answer names as its subject. The library's cursor is assumed to read its own bytes back.
\<close>

theorem verified_means_checked:
  assumes "door_kept d base v0" and "reaches (door_do env d) (door_call_ok env) v0 v"
    and "\<not> starts_with ''door-state/'' k"
    and "verify_at_rest_stamped env d k t v = (Inr (AtRestDone w, st), v')" and "dv_word w = Verified sat"
  shows "\<exists>s cu0 cu txid. st = Some s \<and> read_through d s PassStructure cu0 \<and> read_through d s PassScripts cu \<and>
     roots_of cu \<noteq> [] \<and> (\<forall>x\<in>set (roots_of cu). confirmed d base x) \<and>
     dv_subject w = Some txid \<and> pays d s t txid sat"
proof -
  have kept: "door_inv d base v" "cursor_law d" "dr_header_base d = Some base"
    using doors.reaches_inv [OF assms(2,1)] by (simp_all add: door_kept_def)
  obtain s where s: "st = Some s" using verify_sound(2) [OF kept assms(3,4)] by auto
  have "sound d base t s (AtRestDone w)"
    using leavesD(2) [OF verify_sound(1) [OF kept assms(3)] assms(4)] s by simp
  with s assms(5) show ?thesis by (auto simp: sound_def checked_def)
qed

subsection \<open>A payment verified in two requests\<close>

definition demo_txid :: string where
  "demo_txid = replicate 32 (CHR ''t'')"

definition demo_cursor :: cursor where
  "demo_cursor =
     \<lparr>cu_bytes = ''BSC3'' @ replicate 1 (CHR 0x00) @ replicate 1 (CHR 0x00) @ replicate 21 (CHR 0x00) @
        replicate 1 (CHR 0x00) @ replicate 32 (CHR 0x00) @ [CHR 0x01] @ demo_txid @ le_bytes 8 0 @
        [CHR 0x00] @ [CHR 0x00],
      cu_offset = 10, cu_elements = 1, cu_input = None, cu_roots = [(7, ''root'')]\<rparr>"

definition paying_door :: door where
  "paying_door = demo_door\<lparr>
     dr_read := (\<lambda>c p _ _. Inr (if c = None \<and> p = PassStructure then ReadPaused demo_cursor else ReadValid demo_cursor)),
     dr_cursor := (\<lambda>b. if b = cu_bytes demo_cursor then Some demo_cursor else None),
     dr_sha256d := (\<lambda>_. demo_txid), dr_output := (\<lambda>_ _. Inr (Verified 100)),
     dr_header_base := Some ''https://headers'', dr_header_get := (\<lambda>_ _. Inr (200, ''{}'')),
     dr_parse := (\<lambda>_. Inr (JObj [(''status'', JStr ''success''), (''value'', JObj [(''merkleRoot'', JStr ''ROOT'')])]))\<rparr>"

definition paying_vault :: vault where
  "paying_vault = (demo_vault [] [])\<lparr>v_objects :=
     [''k1'' \<mapsto> \<lparr>ob_bytes = replicate 10 (CHR 0x00), ob_etag = ''e1'', ob_reader = None\<rparr>]\<rparr>"

definition paying_terms :: terms where
  "paying_terms = \<lparr>tm_output_index = 0, tm_script = ''script'', tm_satoshis = 100\<rparr>"

abbreviation paying_stamp :: stamp where
  "paying_stamp \<equiv> \<lparr>st_size = 10, st_etag = ''e1''\<rparr>"

abbreviation paying_rest :: rest where
  "paying_rest \<equiv> \<lparr>rs_stamp = paying_stamp, rs_phase = Structure, rs_roots_asked = 0, rs_cursor = demo_cursor\<rparr>"

abbreviation first_pass :: vault where
  "first_pass \<equiv> snd (door_do demo_pay paying_door (DoorPass ''k1'' paying_terms) paying_vault)"

abbreviation second_pass :: "(door_error, at_rest_answer \<times> stamp option, vault) outcome" where
  "second_pass \<equiv> verify_at_rest_stamped demo_pay paying_door ''k1'' paying_terms first_pass"

lemma quiet_call:
  "v_r2 v = [] \<Longrightarrow> r2_call demo_pay what call v = (let (a, w) = call v in (Inr a, w))"
  by (cases v) (simp add: r2_call_def demo_pay_def bucket_def)

lemma quiet_from:
  assumes "v_r2 v = []" and "v_objects v ''k1'' = v_objects paying_vault ''k1''"
  shows "object_from demo_pay ''k1'' paying_stamp n v = (Inr (drop n (replicate 10 (CHR 0x00))), v)"
  using assms by (auto simp: object_from_def blob_open_def quiet_call map_err_def paying_vault_def)

lemma quiet_paid:
  assumes "v_r2 v = []" and "v_objects v ''k1'' = v_objects paying_vault ''k1''"
  shows "paid_by paying_door demo_cursor paying_terms (object_from demo_pay ''k1'' paying_stamp) v =
    (Inr (Inr (demo_txid, 100)), v)"
proof -
  have tip: "tip_of demo_cursor = Inr (Some \<lparr>tp_txid = demo_txid, tp_at = 0, tp_proof = None\<rparr>)" by code_simp
  have raw: "raw_tx_len (replicate 10 (CHR 0x00)) = Some 10" by code_simp
  have out: "dr_sha256d paying_door b = demo_txid" "output_word paying_door b None paying_terms = Verified 100" for b
    by (simp_all add: paying_door_def output_word_def)
  show ?thesis
    by (simp only: paid_by_def tip sum.case option.case tip.simps quiet_from [OF assms] andThen_simps drop_0 subject_raw_def
        Let_def raw out payment_verdict.case if_True simp_thms)
qed

lemma quiet_roots: "roots_word paying_door (roots_of demo_cursor) 0 (Some ROOT_LOOKUPS_PER_PASS)
    (fetch_root paying_door now ''https://headers'') 100 = RootedWord (Verified 100) None"
proof -
  have "fetch_root paying_door now ''https://headers'' = fetch_root paying_door 0 ''https://headers''"
    by (simp add: fun_eq_iff fetch_root_def paying_door_def)
  moreover have "roots_word paying_door (roots_of demo_cursor) 0 (Some ROOT_LOOKUPS_PER_PASS)
    (fetch_root paying_door 0 ''https://headers'') 100 = RootedWord (Verified 100) None" by code_simp
  ultimately show ?thesis by simp
qed

lemma quiet_structure:
  assumes "v_r2 v = []" and "v_objects v ''k1'' = v_objects paying_vault ''k1''"
  shows "fst (door_structure demo_pay paying_door ''https://headers'' paying_terms ''k1'' paying_stamp (Some demo_cursor) v) =
    Inr (AtRestDone (judged_word (Verified 100) demo_txid))"
proof -
  have read: "door_reading demo_pay paying_door ''k1'' paying_stamp c p v = (Inr (ReadValid demo_cursor), v)"
    if "c = None \<longrightarrow> p \<noteq> PassStructure" for c p
    using that by (cases c) (simp_all add: door_reading_def quiet_from [OF assms] paying_door_def)
  show ?thesis
    by (simp add: door_structure_def door_scripts_def door_roots_def read quiet_paid [OF assms] quiet_roots Let_def
        door_done_def blob_clear_def quiet_call assms(1) map_err_def)
qed

lemma fst_andThen_pure: "fst r = Inr a \<Longrightarrow> fst (andThen r (\<lambda>a v. (Inr (f a), v))) = Inr (f a)"
  by (cases r) simp

lemma first_pass_left:
  "v_r2 first_pass = []" "v_objects first_pass ''k1'' = v_objects paying_vault ''k1''"
  "map_option ob_bytes (v_objects first_pass (state_key ''k1'')) = Some (rest_to_binary paying_rest)"
  by code_simp+

lemma second_pass_verifies:
  "fst second_pass = Inr (AtRestDone (judged_word (Verified 100) demo_txid), Some paying_stamp)"
proof -
  have saved: "saved_state paying_door paying_stamp (Some (rest_to_binary paying_rest)) = Some paying_rest" by code_simp
  have base: "dr_header_base paying_door = Some ''https://headers''" by (simp add: paying_door_def)
  have st: "map_option stamp_of (v_objects first_pass ''k1'') = Some paying_stamp"
    by (simp only: first_pass_left) code_simp
  have rest: "door_at_rest demo_pay paying_door ''https://headers'' paying_terms ''k1'' paying_stamp first_pass =
    door_structure demo_pay paying_door ''https://headers'' paying_terms ''k1'' paying_stamp (Some demo_cursor) first_pass"
    by (simp only: door_at_rest_def blob_load_def quiet_call [OF first_pass_left(1)] first_pass_left(3) Let_def prod.case
        andThen_simps option.case map_err_def sum.case saved rest.simps phase.case)
  show ?thesis
    by (simp only: verify_at_rest_stamped_def base option.case blob_stamp_def quiet_call [OF first_pass_left(1)] st Let_def
        prod.case map_err_def sum.case andThen_simps rest)
      (rule fst_andThen_pure [OF quiet_structure [OF first_pass_left(1,2)]])
qed

lemma paying_kept: "door_kept paying_door ''https://headers'' paying_vault"
  by (auto simp: door_kept_def cursor_law_def door_inv_def paying_door_def paying_vault_def demo_cursor_def
      state_key_def stamp_fits_def stamp_of_def split: if_splits)

theorem door_state_roundtrip_witness:
  "rest_from_binary paying_door (rest_to_binary \<lparr>rs_stamp = \<lparr>st_size = 10, st_etag = ''e1''\<rparr>, rs_phase = Scripts,
      rs_roots_asked = 3, rs_cursor = demo_cursor\<rparr>) =
   Some \<lparr>rs_stamp = \<lparr>st_size = 10, st_etag = ''e1''\<rparr>, rs_phase = Scripts, rs_roots_asked = 3, rs_cursor = demo_cursor\<rparr>"
  by (rule door_state_roundtrip) (simp_all add: rest_fits_def paying_door_def demo_cursor_def starts_with_def)

theorem verified_means_checked_witness:
  "\<exists>s cu. fst second_pass = Inr (AtRestDone (judged_word (Verified 100) demo_txid), Some s) \<and>
     read_through paying_door s PassScripts cu \<and> roots_of cu \<noteq> [] \<and>
     (\<forall>x\<in>set (roots_of cu). confirmed paying_door ''https://headers'' x)"
proof -
  have run: "second_pass = (Inr (AtRestDone (judged_word (Verified 100) demo_txid), Some paying_stamp), snd second_pass)"
    using second_pass_verifies by (metis prod.collapse)
  have r: "reaches (door_do demo_pay paying_door) (door_call_ok demo_pay) paying_vault first_pass"
    by (rule reaches_step [OF reaches_refl]) (simp add: starts_with_def)
  have k: "\<not> starts_with ''door-state/'' ''k1''" by (simp add: starts_with_def)
  have w: "dv_word (judged_word (Verified 100) demo_txid) = Verified 100" by (simp add: judged_word_def)
  from verified_means_checked [OF paying_kept r k run w] second_pass_verifies show ?thesis by auto
qed

end
