(* ===== verification/Turn_Credentials.thy ===== *)
theory Turn_Credentials
  imports D1_Tables
begin

section \<open>TURN credentials\<close>

text \<open>
  \<open>src/src/turn_credentials/mod.rs\<close> and \<open>revoke.rs\<close>: the budgets and records in D1, the source
  group of a request, the provider's answer read into ICE servers, and the two routes. The world is
  a record: the two tables with a fate per round trip, the provider's replies to come, the requests
  posted to it, the readings of the clock, the lines logged. The environment's variables and
  secrets and the JSON reader are arguments.
\<close>

subsection \<open>The deployment's word\<close>

definition MAX_TTL_SECS :: u64 where "MAX_TTL_SECS = 172800"
definition TTL_SECS :: u64 where "TTL_SECS = 3600"
definition WINDOW_SECS :: u64 where "WINDOW_SECS = 3600"
definition IDENTITY_HOUR :: u64 where "IDENTITY_HOUR = 6"
definition SOURCE_HOUR :: u64 where "SOURCE_HOUR = 6"
definition PREFIX48_HOUR :: u64 where "PREFIX48_HOUR = 24"
definition TOTAL_HOUR :: u64 where "TOTAL_HOUR = 600"
definition PROVIDER_TIMEOUT_MS :: u64 where "PROVIDER_TIMEOUT_MS = 5000"
definition PROVIDER_MAX_BODY_BYTES :: nat where "PROVIDER_MAX_BODY_BYTES = 65536"
definition MAX_TURN_URLS :: nat where "MAX_TURN_URLS = 8"
definition NO_SOURCE :: string where "NO_SOURCE = ''none''"
definition API_URL :: string where "API_URL = ''https://rtc.live.cloudflare.com/v1/turn/keys/''"

record turn_config =
  tn_on :: bool
  tn_key_id :: string
  tn_ttl_secs :: u64
  tn_identity_hour :: u64
  tn_source_hour :: u64
  tn_prefix48_hour :: u64
  tn_total_hour :: u64

definition turn_num :: "(string \<Rightarrow> string option) \<Rightarrow> string \<Rightarrow> u64 \<Rightarrow> u64" where
  "turn_num var name otherwise =
     (case Option.bind (var name) (\<lambda>v. parse_u64 (trim v)) of
        Some n \<Rightarrow> if 0 < n then n else otherwise
      | None \<Rightarrow> otherwise)"

definition config_parse :: "(string \<Rightarrow> string option) \<Rightarrow> turn_config" where
  "config_parse var =
     \<lparr>tn_on = (case var ''TURN_CREDENTIALS'' of Some v \<Rightarrow> trim v = ''on'' | None \<Rightarrow> False),
      tn_key_id = (case var ''TURN_KEY_ID'' of Some v \<Rightarrow> trim v | None \<Rightarrow> []),
      tn_ttl_secs = min (turn_num var ''TURN_TTL_SECONDS'' TTL_SECS) MAX_TTL_SECS,
      tn_identity_hour = turn_num var ''TURN_BUDGET_IDENTITY_HOUR'' IDENTITY_HOUR,
      tn_source_hour = turn_num var ''TURN_BUDGET_SOURCE_HOUR'' SOURCE_HOUR,
      tn_prefix48_hour = turn_num var ''TURN_BUDGET_PREFIX48_HOUR'' PREFIX48_HOUR,
      tn_total_hour = turn_num var ''TURN_BUDGET_TOTAL_HOUR'' TOTAL_HOUR\<rparr>"

definition is_ascii_alphanumeric :: "char \<Rightarrow> bool" where
  "is_ascii_alphanumeric c \<longleftrightarrow>
     (let n = (of_char c :: nat) in 48 \<le> n \<and> n \<le> 57 \<or> 65 \<le> n \<and> n \<le> 90 \<or> 97 \<le> n \<and> n \<le> 122)"

definition key_id_ok :: "turn_config \<Rightarrow> bool" where
  "key_id_ok cfg \<longleftrightarrow>
     1 \<le> length (tn_key_id cfg) \<and> length (tn_key_id cfg) \<le> 256 \<and>
     list_all (\<lambda>b. is_ascii_alphanumeric b \<or> b = CHR ''-'' \<or> b = CHR ''_'') (tn_key_id cfg)"

definition token_ok :: "string \<Rightarrow> bool" where
  "token_ok token \<longleftrightarrow> token \<noteq> [] \<and> list_all (\<lambda>b. 0x21 \<le> (of_char b :: nat) \<and> (of_char b :: nat) \<le> 0x7E) token"

subsection \<open>An address\<close>

text \<open>
  The standard library's parser of addresses: it reads from the front of the text, a reader that
  fails reads nothing, and the whole text has to be read.
\<close>

type_synonym 'a reads = "string \<Rightarrow> ('a \<times> string) option"

definition to_digit :: "nat \<Rightarrow> char \<Rightarrow> nat option" where
  "to_digit radix c =
     (let n = (of_char c :: nat);
          d = (if 48 \<le> n \<and> n \<le> 57 then n - 48
               else if 97 \<le> n \<and> n \<le> 122 then n - 87
               else if 65 \<le> n \<and> n \<le> 90 then n - 55 else 36)
      in if d < radix then Some d else None)"

fun digits_of :: "nat \<Rightarrow> string \<Rightarrow> nat list \<times> string" where
  "digits_of radix [] = ([], [])"
| "digits_of radix (c # s) =
     (case to_digit radix c of
        None \<Rightarrow> ([], c # s)
      | Some d \<Rightarrow> (let (ds, r) = digits_of radix s in (d # ds, r)))"

definition read_number :: "nat \<Rightarrow> nat \<Rightarrow> bool \<Rightarrow> nat \<Rightarrow> nat reads" where
  "read_number radix max_digits allow_zero_prefix bound s =
     (let (ds, r) = digits_of radix s; n = foldl (\<lambda>a d. a * radix + d) 0 ds
      in if max_digits < length ds \<or> ds = [] then None
         else if \<not> allow_zero_prefix \<and> hd ds = 0 \<and> 1 < length ds then None
         else if bound \<le> n then None
         else Some (n, r))"

definition read_separator :: "char \<Rightarrow> nat \<Rightarrow> 'a reads \<Rightarrow> 'a reads" where
  "read_separator sep index inner s =
     (if index = 0 then inner s
      else case s of c # r \<Rightarrow> if c = sep then inner r else None | [] \<Rightarrow> None)"

fun read_octets :: "nat \<Rightarrow> nat \<Rightarrow> nat list reads" where
  "read_octets i 0 s = Some ([], s)"
| "read_octets i (Suc n) s =
     (case read_separator (CHR ''.'') i (read_number 10 3 False 256) s of
        None \<Rightarrow> None
      | Some (o1, r) \<Rightarrow> map_option (\<lambda>(os, r). (o1 # os, r)) (read_octets (Suc i) n r))"

definition read_ipv4_addr :: "nat list reads" where
  "read_ipv4_addr = read_octets 0 4"

text \<open>\<open>read_groups\<close>: at most \<open>left\<close> groups more from the \<open>i\<close>th; whether the last two were an IPv4 address.\<close>

fun read_groups :: "nat \<Rightarrow> nat \<Rightarrow> string \<Rightarrow> nat list \<times> bool \<times> string" where
  "read_groups i 0 s = ([], False, s)"
| "read_groups i (Suc left) s =
     (case (if 0 < left then read_separator (CHR '':'') i read_ipv4_addr s else None) of
        Some (v4, r) \<Rightarrow> ([v4 ! 0 * 256 + v4 ! 1, v4 ! 2 * 256 + v4 ! 3], True, r)
      | None \<Rightarrow>
          (case read_separator (CHR '':'') i (read_number 16 4 True (2 ^ 16)) s of
             None \<Rightarrow> ([], False, s)
           | Some (g, r) \<Rightarrow> (let (gs, v4, r) = read_groups (Suc i) left r in (g # gs, v4, r))))"

definition read_ipv6_addr :: "nat list reads" where
  "read_ipv6_addr s =
     (let (head, head_ipv4, r) = read_groups 0 8 s
      in if length head = 8 then Some (head, r)
         else if head_ipv4 then None
         else if starts_with ''::'' r
         then (let (tail, _, r) = read_groups 0 (8 - (length head + 1)) (drop 2 r)
               in Some (head @ replicate (8 - length head - length tail) 0 @ tail, r))
         else None)"

datatype ip_addr = V4 "nat list" | V6 "nat list"

definition ip_from_str :: "string \<Rightarrow> ip_addr option" where
  "ip_from_str s =
     (case read_ipv4_addr s of
        Some (v4, r) \<Rightarrow> if r = [] then Some (V4 v4) else None
      | None \<Rightarrow>
          (case read_ipv6_addr s of
             Some (v6, r) \<Rightarrow> if r = [] then Some (V6 v6) else None
           | None \<Rightarrow> None))"

definition ipv4_text :: "nat list \<Rightarrow> string" where
  "ipv4_text v4 = join ''.'' (map nat_text v4)"

definition to_ipv4_mapped :: "nat list \<Rightarrow> nat list option" where
  "to_ipv4_mapped v6 =
     (if take 6 v6 = [0, 0, 0, 0, 0, 0xFFFF]
      then Some [v6 ! 6 div 256, v6 ! 6 mod 256, v6 ! 7 div 256, v6 ! 7 mod 256] else None)"

subsection \<open>The source group\<close>

record source =
  sr_group :: string
  sr_prefix48 :: "string option"

definition before_char :: "char \<Rightarrow> string \<Rightarrow> string" where
  "before_char c s = takeWhile (\<lambda>x. x \<noteq> c) s"

definition strip_brackets :: "string \<Rightarrow> string" where
  "strip_brackets a =
     (if a \<noteq> [] \<and> hd a = CHR ''['' \<and> tl a \<noteq> [] \<and> last (tl a) = CHR '']'' then butlast (tl a) else a)"

definition parse_address :: "string \<Rightarrow> ip_addr option" where
  "parse_address address = ip_from_str (before_char (CHR ''%'') (strip_brackets (trim address)))"

definition hex_digit :: "nat \<Rightarrow> char" where
  "hex_digit n = char_of (if n < 10 then 48 + n else 87 + n)"

fun hex_text :: "nat \<Rightarrow> string" where
  "hex_text n = (if n < 16 then [hex_digit n] else hex_text (n div 16) @ [hex_digit (n mod 16)])"

declare hex_text.simps [simp del]

definition v6_prefix :: "nat list \<Rightarrow> nat \<Rightarrow> string \<Rightarrow> string" where
  "v6_prefix v6 groups bits = join '':'' (map hex_text (take groups v6)) @ ''::/'' @ bits"

definition source_of :: "string option \<Rightarrow> source" where
  "source_of header =
     (let none = \<lparr>sr_group = NO_SOURCE, sr_prefix48 = None\<rparr>
      in case header of
           None \<Rightarrow> none
         | Some v \<Rightarrow>
             if contains '','' v then none
             else (case parse_address v of
                 None \<Rightarrow> none
               | Some (V4 v4) \<Rightarrow> \<lparr>sr_group = ipv4_text v4, sr_prefix48 = None\<rparr>
               | Some (V6 v6) \<Rightarrow>
                   (case to_ipv4_mapped v6 of
                      Some v4 \<Rightarrow> \<lparr>sr_group = ipv4_text v4, sr_prefix48 = None\<rparr>
                    | None \<Rightarrow> \<lparr>sr_group = v6_prefix v6 4 ''64'', sr_prefix48 = Some (v6_prefix v6 3 ''48'')\<rparr>)))"

subsection \<open>The budgets\<close>

record turn_charge =
  ch_name :: string
  ch_key :: string
  ch_cap :: u64

definition charges :: "turn_config \<Rightarrow> string \<Rightarrow> source \<Rightarrow> turn_charge list" where
  "charges cfg identity s =
     [\<lparr>ch_name = ''identity'', ch_key = ''turn:id:'' @ identity, ch_cap = tn_identity_hour cfg\<rparr>,
      \<lparr>ch_name = ''source'', ch_key = ''turn:src:'' @ sr_group s, ch_cap = tn_source_hour cfg\<rparr>] @
     (case sr_prefix48 s of
        Some p48 \<Rightarrow> [\<lparr>ch_name = ''prefix48'', ch_key = ''turn:p48:'' @ p48, ch_cap = tn_prefix48_hour cfg\<rparr>]
      | None \<Rightarrow> []) @
     [\<lparr>ch_name = ''total'', ch_key = ''turn:all'', ch_cap = tn_total_hour cfg\<rparr>]"

definition window_of :: "u64 \<Rightarrow> u64" where
  "window_of now_secs = now_secs - now_secs mod WINDOW_SECS"

text \<open>The tables, with a fate per round trip; a \<open>u64\<close> is bound as an \<open>i64\<close> and crosses as a double.\<close>

record turn_record =
  tr_username :: string
  tr_identity :: string
  tr_expires_at :: int
  tr_created_at :: int

record turn_db =
  td_budget :: "((string \<times> int) \<times> int) list"
  td_records :: "turn_record list"
  td_script :: "round_trip list"

definition bind_u64 :: "u64 \<Rightarrow> int" where
  "bind_u64 n = js_number (i64_of_u64 n)"

type_synonym 'a turned = "turn_db \<Rightarrow> (string, 'a, turn_db) outcome"

definition turn_run :: "(turn_db \<Rightarrow> 'a \<times> turn_db) \<Rightarrow> 'a turned" where
  "turn_run stmt db =
     (let db1 = db\<lparr>td_script := tl (td_script db)\<rparr>
      in case td_script db of
           Refused e # _ \<Rightarrow> (Inl (error_text e), db1)
         | LandedUnanswered e # _ \<Rightarrow> (Inl (error_text e), snd (stmt db1))
         | _ \<Rightarrow> (let (a, db2) = stmt db1 in (Inr a, db2)))"

definition OPEN_SQL :: "string \<Rightarrow> int \<Rightarrow> turn_db \<Rightarrow> turn_db" where
  "OPEN_SQL key w db =
     (if map_of (td_budget db) (key, w) = None
      then db\<lparr>td_budget := td_budget db @ [((key, w), 0)]\<rparr> else db)"

definition take_sql :: "int \<Rightarrow> turn_charge list \<Rightarrow> turn_db \<Rightarrow> (string \<times> int) list \<times> turn_db" where
  "take_sql w cs db =
     (let spent = list_ex (\<lambda>((k, s), n). s = w \<and> list_ex (\<lambda>c. k = ch_key c \<and> bind_u64 (ch_cap c) \<le> n) cs) (td_budget db);
          hit = (\<lambda>r. snd (fst r) = w \<and> fst (fst r) \<in> set (map ch_key cs) \<and> \<not> spent)
      in (map (\<lambda>r. (fst (fst r), snd r + 1)) (filter hit (td_budget db)),
          db\<lparr>td_budget := update_where hit (\<lambda>r. (fst r, snd r + 1)) (td_budget db)\<rparr>))"

definition held_sql :: "int \<Rightarrow> turn_charge list \<Rightarrow> turn_db \<Rightarrow> (string \<times> int) list" where
  "held_sql w cs db =
     map (\<lambda>r. (fst (fst r), snd r))
       (filter (\<lambda>r. snd (fst r) = w \<and> fst (fst r) \<in> set (map ch_key cs)) (td_budget db))"

definition TURN_FORGET_WINDOWS_SQL :: "int \<Rightarrow> turn_db \<Rightarrow> turn_db" where
  "TURN_FORGET_WINDOWS_SQL w db = db\<lparr>td_budget := filter (\<lambda>r. \<not> snd (fst r) < w) (td_budget db)\<rparr>"

definition first_spent :: "turn_charge list \<Rightarrow> (string \<times> u64) list \<Rightarrow> nat option" where
  "first_spent cs held =
     (case find (\<lambda>i. list_ex (\<lambda>(k, n). k = ch_key (cs ! i) \<and> ch_cap (cs ! i) \<le> n) held) [0 ..< length cs] of
        Some i \<Rightarrow> Some i
      | None \<Rightarrow> None)"

definition RECORD_SQL :: "turn_record \<Rightarrow> turn_db \<Rightarrow> turn_db" where
  "RECORD_SQL r db =
     (if list_ex (\<lambda>x. tr_username x = tr_username r) (td_records db)
      then db\<lparr>td_records := update_where (\<lambda>x. tr_username x = tr_username r) (\<lambda>_. r) (td_records db)\<rparr>
      else db\<lparr>td_records := td_records db @ [r]\<rparr>)"

definition OWNER_SQL :: "string \<Rightarrow> turn_db \<Rightarrow> string option" where
  "OWNER_SQL username db = map_option tr_identity (find (\<lambda>r. tr_username r = username) (td_records db))"

definition FORGET_SQL :: "string \<Rightarrow> turn_db \<Rightarrow> turn_db" where
  "FORGET_SQL username db = db\<lparr>td_records := filter (\<lambda>r. tr_username r \<noteq> username) (td_records db)\<rparr>"

definition FORGET_EXPIRED_SQL :: "int \<Rightarrow> turn_db \<Rightarrow> turn_db" where
  "FORGET_EXPIRED_SQL now db = db\<lparr>td_records := filter (\<lambda>r. \<not> tr_expires_at r < now) (td_records db)\<rparr>"

text \<open>\<open>D1Store\<close>: the charge is one batch, which D1 runs as one transaction.\<close>

definition charge_batch ::
  "u64 \<Rightarrow> turn_charge list \<Rightarrow> turn_db \<Rightarrow> ((string \<times> int) list \<times> (string \<times> int) list) \<times> turn_db" where
  "charge_batch w cs db =
     (let opened = fold (\<lambda>c. OPEN_SQL (ch_key c) (bind_u64 w)) cs db;
          (taken, db1) = take_sql (bind_u64 w) cs opened
      in ((taken, held_sql (bind_u64 w) cs db1), db1))"

definition store_charge :: "u64 \<Rightarrow> turn_charge list \<Rightarrow> nat option turned" where
  "store_charge w cs db =
     andThen (turn_run (charge_batch w cs) db) (\<lambda>(taken, held) db.
       if length taken = length cs then (Inr None, db)
       else (Inr (Some (case first_spent cs (map (\<lambda>(k, n). (k, nat n)) held) of
                          Some i \<Rightarrow> i | None \<Rightarrow> length cs - 1)), db))"

definition store_record :: "string \<Rightarrow> string \<Rightarrow> u64 \<Rightarrow> u64 \<Rightarrow> unit turned" where
  "store_record username identity expires_at created_at =
     turn_run (\<lambda>db. ((), RECORD_SQL \<lparr>tr_username = username, tr_identity = identity,
       tr_expires_at = bind_u64 expires_at, tr_created_at = bind_u64 created_at\<rparr> db))"

definition store_owner :: "string \<Rightarrow> string option turned" where
  "store_owner username = turn_run (\<lambda>db. (OWNER_SQL username db, db))"

definition store_forget :: "string \<Rightarrow> unit turned" where
  "store_forget username = turn_run (\<lambda>db. ((), FORGET_SQL username db))"

text \<open>The scheduled event: the closed windows, then the expired credentials; a failure is a log line.\<close>

definition turn_forget_closed :: "ms \<Rightarrow> turn_db \<Rightarrow> turn_db" where
  "turn_forget_closed now_ms db =
     (let (_, db1) = turn_run (\<lambda>db. ((), TURN_FORGET_WINDOWS_SQL (bind_u64 (window_of (now_ms div 1000))) db)) db
      in snd (turn_run (\<lambda>db. ((), FORGET_EXPIRED_SQL (bind_u64 now_ms) db)) db1))"

subsection \<open>The provider\<close>

text \<open>
  What the fetch to the provider comes to: it fails, the deadline passes first, or a response with
  its declared length and its body (\<open>None\<close> when reading it fails).
\<close>

datatype http_reply = FetchFailed | DeadlinePassed | Replied http_status "string option" "string option"

record turn_world =
  tw_db :: turn_db
  tw_replies :: "http_reply list"
  tw_posts :: "(string \<times> string option) list"
  tw_clock :: "ms list"
  tw_log :: "string list"

type_synonym 'a turning = "turn_world \<Rightarrow> (string, 'a, turn_world) outcome"

definition cloudflare_from_env :: "(string \<Rightarrow> string option) \<Rightarrow> turn_config \<Rightarrow> string option" where
  "cloudflare_from_env secret cfg =
     (if \<not> key_id_ok cfg then None
      else case secret ''TURN_KEY_API_TOKEN'' of
             None \<Rightarrow> None
           | Some token \<Rightarrow> if token_ok token then Some (tn_key_id cfg) else None)"

definition provider_failed :: "string \<Rightarrow> string" where
  "provider_failed why = ''Cloudflare TURN: '' @ why"

definition cloudflare_post ::
  "string \<Rightarrow> string option \<Rightarrow> (http_status \<times> string option \<times> string option) turning" where
  "cloudflare_post url body w =
     (let w1 = w\<lparr>tw_replies := tl (tw_replies w), tw_posts := tw_posts w @ [(url, body)]\<rparr>
      in case tw_replies w of
           Replied status declared bytes # _ \<Rightarrow> (Inr (status, declared, bytes), w1)
         | DeadlinePassed # _ \<Rightarrow>
             (Inl (provider_failed (''no answer within '' @ nat_text (PROVIDER_TIMEOUT_MS div 1000) @ '' s'')), w1)
         | _ \<Rightarrow> (Inl (provider_failed ''request failed''), w1))"

definition generate_url :: "string \<Rightarrow> string" where
  "generate_url key_id = API_URL @ key_id @ ''/credentials/generate-ice-servers''"

definition cloudflare_generate :: "(string \<Rightarrow> json option) \<Rightarrow> string \<Rightarrow> u64 \<Rightarrow> json turning" where
  "cloudflare_generate parse key_id ttl_secs w =
     andThen (cloudflare_post (generate_url key_id) (Some (''{\"ttl\":'' @ nat_text ttl_secs @ ''}'')) w)
       (\<lambda>(status, declared, bytes) w.
         if status \<noteq> 200 \<and> status \<noteq> 201 then (Inl (provider_failed (''HTTP '' @ nat_text status)), w)
         else if (case Option.bind declared (\<lambda>v. parse_u32 (trim v)) of
                    Some n \<Rightarrow> PROVIDER_MAX_BODY_BYTES < n | None \<Rightarrow> False)
         then (Inl (provider_failed ''the answer is too large''), w)
         else case bytes of
                None \<Rightarrow> (Inl (provider_failed ''request failed''), w)
              | Some b \<Rightarrow>
                  if PROVIDER_MAX_BODY_BYTES < length b then (Inl (provider_failed ''the answer is too large''), w)
                  else case parse b of
                         Some v \<Rightarrow> (Inr v, w)
                       | None \<Rightarrow> (Inl (provider_failed ''the answer is not JSON''), w))"

definition upper_hex_digit :: "nat \<Rightarrow> char" where
  "upper_hex_digit n = char_of (if n < 10 then 48 + n else 55 + n)"

definition path_segment :: "string \<Rightarrow> string" where
  "path_segment s =
     concat (map (\<lambda>b. if is_ascii_alphanumeric b \<or> b \<in> set ''-._~'' then [b]
        else [CHR ''%'', upper_hex_digit (of_char b div 16), upper_hex_digit (of_char b mod 16)]) s)"

definition revoke_url :: "string \<Rightarrow> string \<Rightarrow> string" where
  "revoke_url key_id username = API_URL @ key_id @ ''/credentials/'' @ path_segment username @ ''/revoke''"

definition cloudflare_revoke :: "string \<Rightarrow> string \<Rightarrow> unit turning" where
  "cloudflare_revoke key_id username w =
     andThen (cloudflare_post (revoke_url key_id username) None w) (\<lambda>(status, _) w.
       if status = 200 \<or> status = 204 then (Inr (), w)
       else (Inl (provider_failed (''HTTP '' @ nat_text status)), w))"

subsection \<open>The answer's ICE servers\<close>

fun on_port_53 :: "string \<Rightarrow> bool" where
  "on_port_53 [] = False"
| "on_port_53 (c # s) =
     (starts_with '':53'' (c # s) \<and>
        (case drop 2 s of [] \<Rightarrow> True | d # _ \<Rightarrow> d = CHR ''?'' \<or> d = CHR ''/'') \<or> on_port_53 s)"

definition scheme_is :: "string \<Rightarrow> string list \<Rightarrow> bool" where
  "scheme_is url schemes = list_ex (\<lambda>s. starts_with s (to_ascii_lowercase url)) schemes"

definition non_empty :: "json \<Rightarrow> string option" where
  "non_empty v = (case as_str v of Some s \<Rightarrow> if s = [] then None else Some s | None \<Rightarrow> None)"

record ice =
  ic_stun :: "string list"
  ic_turn :: "json list"
  ic_usernames :: "string list"
  ic_urls :: nat

definition push_new :: "'a \<Rightarrow> 'a list \<Rightarrow> 'a list" where
  "push_new x xs = (if x \<in> set xs then xs else xs @ [x])"

definition listed_urls :: "json \<Rightarrow> string list" where
  "listed_urls entry =
     filter (\<lambda>u. \<not> on_port_53 u) (List.map_filter as_str
       (case get_member ''urls'' entry of
          Some (JArr l) \<Rightarrow> l
        | Some one \<Rightarrow> [one]
        | None \<Rightarrow> []))"

definition ice_entry :: "json \<Rightarrow> ice \<Rightarrow> ice" where
  "ice_entry entry i =
     (let urls = listed_urls entry;
          i1 = i\<lparr>ic_stun := fold (\<lambda>u st. if scheme_is u [''stun:'', ''stuns:''] then push_new u st else st) urls (ic_stun i)\<rparr>;
          these = take (MAX_TURN_URLS - ic_urls i) (filter (\<lambda>u. scheme_is u [''turn:'', ''turns:'']) urls)
      in case (Option.bind (get_member ''username'' entry) non_empty,
               Option.bind (get_member ''credential'' entry) non_empty) of
           (Some username, Some credential) \<Rightarrow>
             if these = [] then i1
             else i1\<lparr>ic_urls := ic_urls i + length these,
                     ic_turn := ic_turn i @ [JObj [(''urls'', JArr (map JStr these)), (''username'', JStr username),
                       (''credential'', JStr credential)]],
                     ic_usernames := push_new username (ic_usernames i)\<rparr>
         | _ \<Rightarrow> i1)"

definition ice_servers :: "json \<Rightarrow> string + json list \<times> string list" where
  "ice_servers ans =
     (let entries = (case get_member ''iceServers'' ans of
            Some (JArr l) \<Rightarrow> l
          | Some (JObj ms) \<Rightarrow> [JObj ms]
          | _ \<Rightarrow> [])
      in if entries = [] then Inl (provider_failed ''the answer lists no ICE servers'')
         else let i = fold ice_entry (filter is_object entries)
                    \<lparr>ic_stun = [], ic_turn = [], ic_usernames = [], ic_urls = 0\<rparr>
              in if ic_turn i = [] then Inl (provider_failed ''the answer has no TURN server'')
                 else Inr ((if ic_stun i = [] then [] else [JObj [(''urls'', JArr (map JStr (ic_stun i)))]]) @ ic_turn i,
                           ic_usernames i))"

subsection \<open>The routes\<close>

definition switched_off :: answer where
  "switched_off = error_answer 403 ''ERR_TURN_OFF''
     ''This relay does not mint TURN credentials (TURN_CREDENTIALS is not \"on\").''"

definition misconfigured :: answer where
  "misconfigured = error_answer 503 ''ERR_SERVER_MISCONFIGURED'' ''The relay's TURN key is not configured.''"

definition is_ascii_whitespace :: "char \<Rightarrow> bool" where
  "is_ascii_whitespace c \<longleftrightarrow> (of_char c :: nat) \<in> {9, 10, 12, 13, 32}"

definition caller_rule :: "(string \<Rightarrow> json option) \<Rightarrow> string \<Rightarrow> string \<Rightarrow> answer + unit" where
  "caller_rule parse body identity =
     (if list_all is_ascii_whitespace body then Inr ()
      else case parse body of
             Some (JObj ms) \<Rightarrow>
               (case map_of ms ''identityKey'' of
                  None \<Rightarrow> Inr ()
                | Some (JStr who) \<Rightarrow>
                    if who = identity then Inr ()
                    else Inl (error_answer 403 ''ERR_TURN_NOT_CALLER''
                           ''TURN credentials are minted only for the authenticated identity.'')
                | Some _ \<Rightarrow> Inl (error_answer 403 ''ERR_TURN_NOT_CALLER''
                           ''TURN credentials are minted only for the authenticated identity.''))
           | _ \<Rightarrow> Inl (error_answer 400 ''ERR_INVALID_JSON'' ''The body must be empty or a JSON object.''))"

definition read_clock :: "turn_world \<Rightarrow> ms \<times> turn_world" where
  "read_clock w = ((case tw_clock w of t # _ \<Rightarrow> t | [] \<Rightarrow> 0), w\<lparr>tw_clock := tl (tw_clock w)\<rparr>)"

definition turn_log :: "string \<Rightarrow> turn_world \<Rightarrow> turn_world" where
  "turn_log line w = w\<lparr>tw_log := tw_log w @ [line]\<rparr>"

definition on_turn_db :: "'a turned \<Rightarrow> 'a turning" where
  "on_turn_db f w = (let (r, db) = f (tw_db w) in (r, w\<lparr>tw_db := db\<rparr>))"

definition budget_spent :: "turn_charge \<Rightarrow> u64 \<Rightarrow> answer" where
  "budget_spent spent ws =
     (let nxt = ws + WINDOW_SECS
      in (JObj [(''status'', JStr ''error''), (''code'', JStr ''ERR_TURN_BUDGET''),
            (''description'', JStr (''The '' @ ch_name spent @ '' budget of '' @ nat_text (ch_cap spent) @
               '' TURN credentials in the window of '' @ nat_text WINDOW_SECS @ '' s from '' @ nat_text ws @
               '' (unix seconds) is spent; ask again from '' @ nat_text nxt @ ''.'')),
            (''budget'', JStr (ch_name spent)), (''windowStart'', JInt (int ws)),
            (''windowSecs'', JInt (int WINDOW_SECS)), (''retryAt'', JInt (int nxt))], 429))"

definition TURN_UNRECORDED :: answer where
  "TURN_UNRECORDED = error_answer 503 ''ERR_TURN_UNAVAILABLE'' ''The credential could not be recorded; ask again.''"

text \<open>The records of the usernames, in order, to the first that fails.\<close>

primrec record_all :: "string \<Rightarrow> u64 \<Rightarrow> u64 \<Rightarrow> string list \<Rightarrow> unit turning" where
  "record_all identity expires_at started [] w = (Inr (), w)"
| "record_all identity expires_at started (u # us) w =
     andThen (on_turn_db (store_record u identity expires_at started) w)
       (\<lambda>_. record_all identity expires_at started us)"

definition revoke_all :: "string \<Rightarrow> string list \<Rightarrow> turn_world \<Rightarrow> turn_world" where
  "revoke_all key_id us w = fold (\<lambda>u w. snd (cloudflare_revoke key_id u w)) us w"

definition turn_mint ::
  "(string \<Rightarrow> json option) \<Rightarrow> turn_config \<Rightarrow> string option \<Rightarrow> string \<Rightarrow> source \<Rightarrow> string \<Rightarrow> turn_world \<Rightarrow>
     answer \<times> turn_world" where
  "turn_mint parse cfg provider identity src body w =
     (if \<not> tn_on cfg then (switched_off, w)
      else case caller_rule parse body identity of
        Inl no \<Rightarrow> (no, w)
      | Inr _ \<Rightarrow>
        (case provider of
           None \<Rightarrow> (misconfigured, w)
         | Some key_id \<Rightarrow>
             (let (start, w) = read_clock w; ws = window_of (start div 1000); cs = charges cfg identity src
              in case on_turn_db (store_charge ws cs) w of
                   (Inr (Some i), w) \<Rightarrow> (budget_spent (cs ! i) ws, w)
                 | (Inl e, w) \<Rightarrow>
                     (error_answer 503 ''ERR_TURN_UNAVAILABLE'' ''The TURN budget could not be read; ask again.'',
                      turn_log (''AUDIT turn.charge FAILED: '' @ e) w)
                 | (Inr None, w) \<Rightarrow>
                     (let (started, w) = read_clock w; (r, w) = cloudflare_generate parse key_id (tn_ttl_secs cfg) w
                      in case (case r of Inl e \<Rightarrow> Inl e | Inr ans \<Rightarrow> ice_servers ans) of
                           Inl why \<Rightarrow>
                             (error_answer 502 ''ERR_TURN_PROVIDER''
                                ''The TURN provider did not mint credentials; the request was charged.'',
                              turn_log (''AUDIT turn.mint provider failed: '' @ why) w)
                         | Inr (servers, usernames) \<Rightarrow>
                             (let expires_at = started + tn_ttl_secs cfg * 1000
                              in case record_all identity expires_at started usernames w of
                                   (Inl e, w) \<Rightarrow>
                                     (TURN_UNRECORDED,
                                      revoke_all key_id usernames (turn_log (''AUDIT turn.record FAILED: '' @ e) w))
                                 | (Inr _, w) \<Rightarrow>
                                     ((JObj [(''status'', JStr ''success''), (''iceServers'', JArr servers),
                                             (''expiresAt'', JInt (int expires_at))], 200), w))))))"

record turn_env =
  te_parse :: "string \<Rightarrow> json option"
  te_var :: "string \<Rightarrow> string option"
  te_secret :: "string \<Rightarrow> string option"

definition handle_mint :: "turn_env \<Rightarrow> string \<Rightarrow> string \<Rightarrow> string option \<Rightarrow> turn_world \<Rightarrow> answer \<times> turn_world" where
  "handle_mint env body identity src w =
     (let cfg = config_parse (te_var env)
      in if \<not> tn_on cfg then (switched_off, w)
         else turn_mint (te_parse env) cfg (cloudflare_from_env (te_secret env) cfg) identity (source_of src) body w)"

subsection \<open>The revoke\<close>

definition MAX_USERNAME_CHARS :: nat where "MAX_USERNAME_CHARS = 256"

definition char_count :: "string \<Rightarrow> nat" where
  "char_count s = length (filter (\<lambda>c. \<not> (0x80 \<le> (of_char c :: nat) \<and> (of_char c :: nat) < 0xC0)) s)"

definition read_username :: "(string \<Rightarrow> json option) \<Rightarrow> string \<Rightarrow> string option" where
  "read_username parse body =
     (case Option.bind (Option.bind (parse body) (get_member ''username'')) as_str of
        Some u \<Rightarrow> if u \<noteq> [] \<and> char_count u \<le> MAX_USERNAME_CHARS then Some u else None
      | None \<Rightarrow> None)"

definition turn_revoke ::
  "(string \<Rightarrow> json option) \<Rightarrow> string option \<Rightarrow> string \<Rightarrow> string \<Rightarrow> turn_world \<Rightarrow> answer \<times> turn_world" where
  "turn_revoke parse provider identity body w =
     (case read_username parse body of
        None \<Rightarrow> (error_answer 400 ''ERR_USERNAME_REQUIRED''
                   ''The body must be {\"username\": <a TURN username this identity minted>}.'', w)
      | Some username \<Rightarrow>
        (case provider of
           None \<Rightarrow> (misconfigured, w)
         | Some key_id \<Rightarrow>
           (case on_turn_db (store_owner username) w of
              (Inl e, w) \<Rightarrow>
                (error_answer 503 ''ERR_TURN_UNAVAILABLE'' ''The credential's record could not be read; ask again.'',
                 turn_log (''AUDIT turn.owner FAILED: '' @ e) w)
            | (Inr who, w) \<Rightarrow>
                if who \<noteq> Some identity
                then (error_answer 404 ''ERR_TURN_CREDENTIAL_NOT_FOUND''
                        ''No TURN credential of this identity has that username.'', w)
                else case cloudflare_revoke key_id username w of
                       (Inl why, w) \<Rightarrow>
                         (error_answer 502 ''ERR_TURN_PROVIDER''
                            ''The TURN provider did not revoke the credential; ask again.'',
                          turn_log (''AUDIT turn.revoke provider failed: '' @ why) w)
                     | (Inr _, w) \<Rightarrow>
                         ((JObj [(''status'', JStr ''success''), (''revoked'', JBool True)], 200),
                          case on_turn_db (store_forget username) w of
                            (Inl e, w) \<Rightarrow> turn_log (''AUDIT turn.forget FAILED: '' @ e) w
                          | (Inr _, w) \<Rightarrow> w))))"

definition handle_revoke :: "turn_env \<Rightarrow> string \<Rightarrow> string \<Rightarrow> turn_world \<Rightarrow> answer \<times> turn_world" where
  "handle_revoke env body identity w =
     (let cfg = config_parse (te_var env)
      in if \<not> tn_on cfg then (switched_off, w)
         else turn_revoke (te_parse env) (cloudflare_from_env (te_secret env) cfg) identity body w)"

end
