(* ===== verification/Turn_Props.thy ===== *)
theory Turn_Props
  imports Turn_Credentials Machine "HOL-Library.Code_Target_Numeral"
begin

section \<open>TURN credentials: the budget bounds the mints, and a mint can be revoked\<close>

text \<open>
  The budgets of TURN credentials over any run of mints, revokes and sweeps (an interpretation of
  \<open>kept\<close> counts the requests that reached the provider against what the windows hold), the credentials
  a mint hands out, and who can revoke them.
\<close>

subsection \<open>One charge\<close>

definition turn_held :: "turn_db \<Rightarrow> string \<times> int \<Rightarrow> int" where
  "turn_held db k = (case map_of (td_budget db) k of Some n \<Rightarrow> n | None \<Rightarrow> 0)"

text \<open>A charge's key says which budget it is, so its bound.\<close>

lemma charge_key_cap:
  assumes "c \<in> set (charges cfg i s)" and "c' \<in> set (charges cfg i' s')" and "ch_key c = ch_key c'"
  shows "ch_cap c = ch_cap c'"
  using assms by (auto simp: charges_def split: option.splits)

lemma charges_nonempty [simp]: "charges cfg i s \<noteq> []"
  by (simp add: charges_def)

lemma OPEN_held [simp]: "turn_held (OPEN_SQL k w db) = turn_held db"
  by (auto simp: turn_held_def OPEN_SQL_def fun_eq_iff map_add_def split: option.splits)

lemma opens_held [simp]: "turn_held (fold (\<lambda>c. OPEN_SQL (ch_key c) w) cs db) = turn_held db"
  by (induction cs arbitrary: db) auto

lemma OPEN_some: "map_of (td_budget (OPEN_SQL k w db)) x \<noteq> None \<longleftrightarrow> x = (k, w) \<or> map_of (td_budget db) x \<noteq> None"
  by (auto simp: OPEN_SQL_def map_add_def split: option.splits)

lemma opens_some:
  assumes "x \<in> (\<lambda>c. (ch_key c, w)) ` set cs \<or> map_of (td_budget db) x \<noteq> None"
  shows "map_of (td_budget (fold (\<lambda>c. OPEN_SQL (ch_key c) w) cs db)) x \<noteq> None"
  using assms
proof (induction cs arbitrary: db)
  case (Cons a cs)
  then have "x \<in> (\<lambda>c. (ch_key c, w)) ` set cs \<or> map_of (td_budget (OPEN_SQL (ch_key a) w db)) x \<noteq> None"
    by (auto simp: OPEN_some simp del: not_None_eq)
  from Cons.IH [OF this] show ?case by simp
qed simp

lemma map_of_update_keys:
  "map_of (update_where (\<lambda>r. P (fst r)) (\<lambda>r. (fst r, f (snd r))) xs) k =
     map_option (\<lambda>v. if P k then f v else v) (map_of xs k)"
  by (induction xs) auto

lemma take_sql_cases:
  assumes "take_sql w cs db = (taken, db')"
  obtains (spent) "taken = []" and "turn_held db' = turn_held db"
  | (took) "\<And>k v. turn_held db' (k, v) = (if v = w \<and> k \<in> ch_key ` set cs \<and> map_of (td_budget db) (k, v) \<noteq> None
          then turn_held db (k, v) + 1 else turn_held db (k, v))"
      and "\<And>c n. c \<in> set cs \<Longrightarrow> ((ch_key c, w), n) \<in> set (td_budget db) \<Longrightarrow> n < bind_u64 (ch_cap c)"
proof (cases "list_ex (\<lambda>((k, s), n). s = w \<and> list_ex (\<lambda>c. k = ch_key c \<and> bind_u64 (ch_cap c) \<le> n) cs) (td_budget db)")
  case True
  then have "taken = []" "td_budget db' = td_budget db"
    using assms by (auto simp: take_sql_def Let_def update_where_none)
  then show thesis by (intro spent) (auto simp: turn_held_def)
next
  case False
  then have b: "td_budget db' =
      update_where (\<lambda>r. (\<lambda>k. snd k = w \<and> fst k \<in> ch_key ` set cs) (fst r)) (\<lambda>r. (fst r, snd r + 1)) (td_budget db)"
    using assms by (auto simp: take_sql_def Let_def)
  show thesis
  proof (rule took)
    show "turn_held db' (k, v) = (if v = w \<and> k \<in> ch_key ` set cs \<and> map_of (td_budget db) (k, v) \<noteq> None
          then turn_held db (k, v) + 1 else turn_held db (k, v))" for k v
      using map_of_update_keys [of "\<lambda>k. snd k = w \<and> fst k \<in> ch_key ` set cs" "\<lambda>n. n + 1" "td_budget db" "(k, v)"]
      by (auto simp: turn_held_def b split: option.split)
    show "n < bind_u64 (ch_cap c)" if "c \<in> set cs" "((ch_key c, w), n) \<in> set (td_budget db)" for c n
      using False that by (force simp: list_ex_iff)
  qed
qed

text \<open>A charge that answers \<open>None\<close> counted one more under each of its keys; any other counts nothing.\<close>

definition one_more :: "int \<Rightarrow> turn_charge list \<Rightarrow> turn_db \<Rightarrow> turn_db \<Rightarrow> bool" where
  "one_more w cs db db' \<longleftrightarrow>
     (\<forall>k v. turn_held db' (k, v) = (if v = w \<and> k \<in> ch_key ` set cs then turn_held db (k, v) + 1 else turn_held db (k, v))) \<and>
     (\<forall>c\<in>set cs. turn_held db (ch_key c, w) < bind_u64 (ch_cap c))"

definition same_counts :: "turn_db \<Rightarrow> turn_db \<Rightarrow> bool" where
  "same_counts db db' \<longleftrightarrow> turn_held db' = turn_held db"

lemma turn_held_script [simp]:
  "turn_held (db\<lparr>td_script := s\<rparr>) = turn_held db" "turn_held (db\<lparr>td_records := r\<rparr>) = turn_held db"
  by (simp_all add: turn_held_def fun_eq_iff)

lemma charge_batch_counts:
  assumes "charge_batch w cs db = ((taken, held), db')"
  shows "same_counts db db' \<and> taken = [] \<or> one_more (bind_u64 w) cs db db'"
proof -
  let ?o = "fold (\<lambda>c. OPEN_SQL (ch_key c) (bind_u64 w)) cs db"
  obtain t d where t: "take_sql (bind_u64 w) cs ?o = (t, d)" by fastforce
  with assms have [simp]: "taken = t" "db' = d" by (auto simp: charge_batch_def Let_def)
  from t show ?thesis
  proof (cases rule: take_sql_cases)
    case spent
    then show ?thesis by (simp add: same_counts_def)
  next
    case took
    have some: "map_of (td_budget ?o) (ch_key c, bind_u64 w) \<noteq> None" if "c \<in> set cs" for c
      using opens_some [of "(ch_key c, bind_u64 w)"] that by blast
    have "turn_held db (ch_key c, bind_u64 w) < bind_u64 (ch_cap c)" if c: "c \<in> set cs" for c
    proof -
      obtain n where n: "map_of (td_budget ?o) (ch_key c, bind_u64 w) = Some n" using some [OF c] by auto
      then have "turn_held ?o (ch_key c, bind_u64 w) = n" unfolding turn_held_def by simp
      with took(2) [OF c map_of_SomeD [OF n]] show ?thesis by simp
    qed
    moreover have "turn_held d (k, v) = (if v = bind_u64 w \<and> k \<in> ch_key ` set cs then turn_held db (k, v) + 1 else turn_held db (k, v))" for k v
      using took(1) [of k v] some by (auto simp del: not_None_eq)
    ultimately show ?thesis by (simp add: one_more_def)
  qed
qed

lemma turn_run_cases:
  obtains (failed) e where "turn_run stmt db = (Inl e, db\<lparr>td_script := tl (td_script db)\<rparr>)"
  | (landed) e where "turn_run stmt db = (Inl e, snd (stmt (db\<lparr>td_script := tl (td_script db)\<rparr>)))"
  | (ran) a db' where "stmt (db\<lparr>td_script := tl (td_script db)\<rparr>) = (a, db')" and "turn_run stmt db = (Inr a, db')"
proof -
  obtain a db' where s: "stmt (db\<lparr>td_script := tl (td_script db)\<rparr>) = (a, db')" by fastforce
  show thesis
  proof (cases "td_script db")
    case Nil
    with s show thesis by (intro ran [OF s]) (auto simp: turn_run_def)
  next
    case (Cons f fs)
    with s show thesis by (cases f) (auto simp: turn_run_def intro: failed landed ran)
  qed
qed

lemma turn_run_served:
  "turn_run stmt db = (Inr a, db') \<Longrightarrow> stmt (db\<lparr>td_script := tl (td_script db)\<rparr>) = (a, db')"
  by (cases rule: turn_run_cases [of stmt db]) auto

lemma store_charge_counts:
  assumes "store_charge w cs db = (r, db')" and "cs \<noteq> []"
  shows "r = Inr None \<Longrightarrow> one_more (bind_u64 w) cs db db'"
    and "same_counts db db' \<or> one_more (bind_u64 w) cs db db'"
proof -
  let ?d = "db\<lparr>td_script := tl (td_script db)\<rparr>"
  have same: "same_counts ?d d \<longleftrightarrow> same_counts db d" "one_more v cs ?d d \<longleftrightarrow> one_more v cs db d" for v d
    by (simp_all add: same_counts_def one_more_def)
  obtain t h d where b: "charge_batch w cs ?d = ((t, h), d)" by (metis prod.collapse)
  have bc: "same_counts db d \<and> t = [] \<or> one_more (bind_u64 w) cs db d"
    using charge_batch_counts [OF b] by (simp add: same)
  have "(r = Inr None \<longrightarrow> one_more (bind_u64 w) cs db db') \<and> (same_counts db db' \<or> one_more (bind_u64 w) cs db db')"
  proof (cases rule: turn_run_cases [of "charge_batch w cs" db])
    case (failed e)
    with assms show ?thesis by (auto simp: store_charge_def same_counts_def)
  next
    case (landed e)
    with assms b bc show ?thesis by (auto simp: store_charge_def)
  next
    case (ran a db2)
    with assms b bc show ?thesis by (auto simp: store_charge_def split: if_splits)
  qed
  then show "r = Inr None \<Longrightarrow> one_more (bind_u64 w) cs db db'"
    and "same_counts db db' \<or> one_more (bind_u64 w) cs db db'" by blast+
qed

subsection \<open>One request\<close>

lemma cloudflare_keeps_db [simp]:
  "tw_db (snd (cloudflare_post url b w)) = tw_db w"
  by (simp add: cloudflare_post_def Let_def split: list.split http_reply.split)

lemma andThen_keeps:
  assumes "f (snd r) = x" and "\<And>a s. f (snd (k a s)) = f s"
  shows "f (snd (andThen r k)) = x"
  using assms by (cases r; cases "fst r") auto

lemma generate_keeps_db [simp]: "tw_db (snd (cloudflare_generate parse key ttl w)) = tw_db w"
  unfolding cloudflare_generate_def by (rule andThen_keeps) (auto split: option.split)

lemma revoke_keeps_db [simp]: "tw_db (snd (cloudflare_revoke key u w)) = tw_db w"
  unfolding cloudflare_revoke_def by (rule andThen_keeps) auto

lemma revoke_all_keeps_db [simp]: "tw_db (revoke_all key us w) = tw_db w"
  by (induction us arbitrary: w) (simp_all add: revoke_all_def)

lemma turn_log_keeps [simp]:
  "tw_db (turn_log l w) = tw_db w" "tw_posts (turn_log l w) = tw_posts w"
  by (simp_all add: turn_log_def)

lemma read_clock_keeps [simp]:
  "tw_db (snd (read_clock w)) = tw_db w" "tw_posts (snd (read_clock w)) = tw_posts w"
  by (simp_all add: read_clock_def)

lemma on_turn_db_keeps:
  "tw_posts (snd (on_turn_db f w)) = tw_posts w" "tw_db (snd (on_turn_db f w)) = snd (f (tw_db w))"
  "fst (on_turn_db f w) = fst (f (tw_db w))"
  by (simp_all add: on_turn_db_def case_prod_beta)

declare on_turn_db_keeps(1,2) [simp]

lemma turn_run_keeps_counts:
  "(\<And>db. turn_held (snd (stmt db)) = turn_held db) \<Longrightarrow> turn_held (snd (turn_run stmt db)) = turn_held db"
  by (cases rule: turn_run_cases [of stmt db]) (simp_all, metis snd_conv turn_held_script(1))

lemma store_record_counts [simp]: "turn_held (snd (store_record u i e t db)) = turn_held db"
  unfolding store_record_def by (rule turn_run_keeps_counts) (simp add: RECORD_SQL_def)

lemma store_owner_counts [simp]: "turn_held (snd (store_owner u db)) = turn_held db"
  unfolding store_owner_def by (rule turn_run_keeps_counts) simp

lemma store_forget_counts [simp]: "turn_held (snd (store_forget u db)) = turn_held db"
  unfolding store_forget_def by (rule turn_run_keeps_counts) (simp add: FORGET_SQL_def)

lemma record_all_counts [simp]: "turn_held (tw_db (snd (record_all i e t us w))) = turn_held (tw_db w)"
proof (induction us arbitrary: w)
  case (Cons u us)
  show ?case unfolding record_all.simps by (rule andThen_keeps [where f = "\<lambda>w. turn_held (tw_db w)"]) (simp_all add: Cons)
qed simp

lemma mint_counts:
  assumes "turn_mint parse cfg provider i src body w = (a, w')"
  defines "ws \<equiv> window_of (fst (read_clock w) div 1000)"
  shows "tw_posts w' \<noteq> tw_posts w \<Longrightarrow> one_more (bind_u64 ws) (charges cfg i src) (tw_db w) (tw_db w')"
    and "same_counts (tw_db w) (tw_db w') \<or> one_more (bind_u64 ws) (charges cfg i src) (tw_db w) (tw_db w')"
proof -
  let ?cs = "charges cfg i src" and ?w1 = "snd (read_clock w)"
  have "(tw_posts w' \<noteq> tw_posts w \<longrightarrow> one_more (bind_u64 ws) ?cs (tw_db w) (tw_db w')) \<and>
    (same_counts (tw_db w) (tw_db w') \<or> one_more (bind_u64 ws) ?cs (tw_db w) (tw_db w'))"
  proof (cases "tn_on cfg \<and> (\<exists>u. caller_rule parse body i = Inr u) \<and> provider \<noteq> None")
    case False
    with assms(1) show ?thesis
      by (auto simp: turn_mint_def same_counts_def split: if_splits sum.splits option.splits)
  next
    case True
    then obtain key where go: "tn_on cfg" "caller_rule parse body i = Inr ()" "provider = Some key" by auto
    obtain r w2 where c: "on_turn_db (store_charge ws ?cs) ?w1 = (r, w2)" by fastforce
    have c': "store_charge ws ?cs (tw_db w) = (r, tw_db w2)"
      using on_turn_db_keeps(2,3) [of "store_charge ws ?cs" ?w1] by (simp add: c prod_eq_iff)
    have p2: "tw_posts w2 = tw_posts w" using on_turn_db_keeps(1) [of "store_charge ws ?cs" ?w1] by (simp add: c)
    note counts = store_charge_counts [OF c' charges_nonempty]
    show ?thesis
    proof (cases "r = Inr None")
      case False
      have "tw_db w' = tw_db w2" "tw_posts w' = tw_posts w2"
        using assms(1) go False
        by (auto simp: turn_mint_def case_prod_beta Let_def ws_def [symmetric] c c' split: sum.splits option.splits)
      with counts(2) p2 show ?thesis by simp
    next
      case True
      have "turn_held (tw_db w') = turn_held (tw_db w2)"
        using assms(1) go True
        by (auto simp: turn_mint_def case_prod_beta Let_def ws_def [symmetric] c c' split: sum.splits prod.splits
            dest!: arg_cong [where f = "\<lambda>x. turn_held (tw_db (snd x))"])
      with counts(1) [OF True] show ?thesis by (simp add: one_more_def)
    qed
  qed
  then show "tw_posts w' \<noteq> tw_posts w \<Longrightarrow> one_more (bind_u64 ws) ?cs (tw_db w) (tw_db w')"
    and "same_counts (tw_db w) (tw_db w') \<or> one_more (bind_u64 ws) ?cs (tw_db w) (tw_db w')" by blast+
qed

subsection \<open>Any requests, any faults\<close>

text \<open>
  Mints, revokes and sweeps in any order, with any fates of D1, any replies of the provider and any
  clock. Kept beside the world: the requests for credentials that went to the provider, each with
  its window and the keys of the budgets it counts against, and the times of the sweeps.
\<close>

datatype turn_call = TurnMint string string "string option" | TurnRevoke string string | TurnSweep ms
  | TurnWeather "round_trip list" "http_reply list" "ms list"

record turn_state =
  ts_world :: turn_world
  ts_asks :: "(u64 \<times> string list) list"
  ts_sweeps :: "ms list"

definition new_posts :: "turn_world \<Rightarrow> turn_world \<Rightarrow> (string \<times> string option) list" where
  "new_posts w w' = drop (length (tw_posts w)) (tw_posts w')"

definition new_ask :: "turn_env \<Rightarrow> string \<Rightarrow> string option \<Rightarrow> turn_world \<Rightarrow> turn_world \<Rightarrow> (u64 \<times> string list) list" where
  "new_ask env i src w w' =
     (let cfg = config_parse (te_var env)
      in if generate_url (tn_key_id cfg) \<in> fst ` set (new_posts w w')
         then [(window_of (fst (read_clock w) div 1000), map ch_key (charges cfg i (source_of src)))] else [])"

fun turn_do :: "turn_env \<Rightarrow> turn_call \<Rightarrow> turn_state \<Rightarrow> (unit, answer option, turn_state) outcome" where
  "turn_do env (TurnMint body i src) s =
     (let (a, w) = handle_mint env body i src (ts_world s)
      in (Inr (Some a), s\<lparr>ts_world := w, ts_asks := ts_asks s @ new_ask env i src (ts_world s) w\<rparr>))"
| "turn_do env (TurnRevoke body i) s =
     (let (a, w) = handle_revoke env body i (ts_world s) in (Inr (Some a), s\<lparr>ts_world := w\<rparr>))"
| "turn_do env (TurnSweep now) s =
     (Inr None, s\<lparr>ts_world := (ts_world s)\<lparr>tw_db := turn_forget_closed now (tw_db (ts_world s))\<rparr>,
        ts_sweeps := ts_sweeps s @ [now]\<rparr>)"
| "turn_do env (TurnWeather script replies clock) s =
     (Inr None, s\<lparr>ts_world := (ts_world s)\<lparr>tw_db := (tw_db (ts_world s))\<lparr>td_script := script\<rparr>,
        tw_replies := replies, tw_clock := clock\<rparr>\<rparr>)"

definition asks_in :: "string \<Rightarrow> int \<Rightarrow> (u64 \<times> string list) list \<Rightarrow> (u64 \<times> string list) list" where
  "asks_in k w asks = filter (\<lambda>a. bind_u64 (fst a) = w \<and> k \<in> set (snd a)) asks"

definition unswept :: "int \<Rightarrow> turn_state \<Rightarrow> bool" where
  "unswept w s \<longleftrightarrow> (\<forall>t\<in>set (ts_sweeps s). bind_u64 (window_of (t div 1000)) \<le> w)"

definition turn_inv :: "turn_env \<Rightarrow> turn_state \<Rightarrow> bool" where
  "turn_inv env s \<longleftrightarrow>
     (\<forall>k w. 0 \<le> turn_held (tw_db (ts_world s)) (k, w)) \<and>
     (\<forall>k w. unswept w s \<longrightarrow> int (length (asks_in k w (ts_asks s))) \<le> turn_held (tw_db (ts_world s)) (k, w)) \<and>
     (\<forall>i src c w. c \<in> set (charges (config_parse (te_var env)) i src) \<longrightarrow>
        turn_held (tw_db (ts_world s)) (ch_key c, w) \<le> max 0 (bind_u64 (ch_cap c)))"

text \<open>What one request may do to the counts: nothing, or one more under the keys of one mint.\<close>

lemma inv_same:
  assumes "turn_inv env s" and "turn_held (tw_db w) = turn_held (tw_db (ts_world s))"
  shows "turn_inv env (s\<lparr>ts_world := w\<rparr>)"
  using assms by (simp add: turn_inv_def unswept_def)

lemma inv_one_more:
  assumes inv: "turn_inv env s"
    and more: "one_more (bind_u64 ws) (charges (config_parse (te_var env)) i src) (tw_db (ts_world s)) (tw_db w)"
    and asks: "new = [] \<or> new = [(ws, map ch_key (charges (config_parse (te_var env)) i src))]"
  shows "turn_inv env (s\<lparr>ts_world := w, ts_asks := ts_asks s @ new\<rparr>)"
proof -
  let ?cs = "charges (config_parse (te_var env)) i src" and ?h = "turn_held (tw_db (ts_world s))"
  have h: "turn_held (tw_db w) (k, v) = (if v = bind_u64 ws \<and> k \<in> ch_key ` set ?cs then ?h (k, v) + 1 else ?h (k, v))" for k v
    using more by (simp add: one_more_def)
  have below: "?h (ch_key c, bind_u64 ws) < bind_u64 (ch_cap c)" if "c \<in> set ?cs" for c
    using more that by (simp add: one_more_def)
  have "turn_held (tw_db w) (ch_key c, v) \<le> max 0 (bind_u64 (ch_cap c))"
    if c: "c \<in> set (charges (config_parse (te_var env)) j src')" for c j src' v
  proof (cases "v = bind_u64 ws \<and> ch_key c \<in> ch_key ` set ?cs")
    case True
    then obtain c' where c': "c' \<in> set ?cs" "ch_key c = ch_key c'" by auto
    then have "ch_cap c = ch_cap c'" using charge_key_cap [OF c c'(1)] by simp
    with True c' below [OF c'(1)] show ?thesis by (simp add: h)
  next
    case False
    then have "turn_held (tw_db w) (ch_key c, v) = ?h (ch_key c, v)" by (simp add: h)
    with inv c show ?thesis by (auto simp: turn_inv_def)
  qed
  moreover have "int (length (asks_in k v (ts_asks s @ new))) \<le> turn_held (tw_db w) (k, v)" if "unswept v s" for k v
  proof -
    have "int (length (asks_in k v (ts_asks s))) \<le> ?h (k, v)" using inv that by (simp add: turn_inv_def)
    with asks show ?thesis by (auto simp: asks_in_def h)
  qed
  moreover have "0 \<le> turn_held (tw_db w) (k, v)" for k v using inv by (simp add: h turn_inv_def)
  ultimately show ?thesis using inv by (simp add: turn_inv_def unswept_def)
qed

lemma revoke_counts: "turn_held (tw_db (snd (turn_revoke parse provider i body w))) = turn_held (tw_db w)"
proof (cases "read_username parse body")
  case (Some u)
  show ?thesis
  proof (cases provider)
    case (Some key)
    obtain r w1 where o: "on_turn_db (store_owner u) w = (r, w1)" by fastforce
    obtain q w2 where q: "cloudflare_revoke key u w1 = (q, w2)" by fastforce
    obtain f w3 where f: "on_turn_db (store_forget u) w2 = (f, w3)" by fastforce
    have "turn_held (tw_db w1) = turn_held (tw_db w)" using on_turn_db_keeps(2) [of "store_owner u" w] by (simp add: o)
    moreover have "tw_db w2 = tw_db w1" using revoke_keeps_db [of key u w1] by (simp add: q)
    moreover have "turn_held (tw_db w3) = turn_held (tw_db w2)"
      using on_turn_db_keeps(2) [of "store_forget u" w2] by (simp add: f)
    ultimately show ?thesis using \<open>read_username parse body = Some u\<close> Some
      by (simp add: turn_revoke_def o q f split: sum.split)
  qed (simp add: turn_revoke_def Some)
qed (simp add: turn_revoke_def)

lemma sweep_held:
  "turn_held (turn_forget_closed now db) = turn_held db \<or>
   turn_held (turn_forget_closed now db) = (\<lambda>(k, w). if w < bind_u64 (window_of (now div 1000)) then 0 else turn_held db (k, w))"
proof -
  let ?t = "bind_u64 (window_of (now div 1000))"
  let ?f = "\<lambda>db :: turn_db. ((), TURN_FORGET_WINDOWS_SQL ?t db)" and ?g = "\<lambda>db. ((), FORGET_EXPIRED_SQL (bind_u64 now) db)"
  have g: "turn_held (snd (turn_run ?g d)) = turn_held d" for d
    by (rule turn_run_keeps_counts) (simp add: FORGET_EXPIRED_SQL_def)
  have of: "map_of (filter (\<lambda>r. \<not> snd (fst r) < t) xs) k = (if snd k < t then None else map_of xs k)"
    for xs :: "((string \<times> int) \<times> int) list" and t k by (induction xs) auto
  have f: "turn_held (TURN_FORGET_WINDOWS_SQL ?t d) = (\<lambda>(k, w). if w < ?t then 0 else turn_held d (k, w))" for d
    by (auto simp: TURN_FORGET_WINDOWS_SQL_def turn_held_def of fun_eq_iff)
  have "turn_held (snd (turn_run ?f db)) = turn_held db \<or>
      turn_held (snd (turn_run ?f db)) = (\<lambda>(k, w). if w < ?t then 0 else turn_held db (k, w))"
    by (cases rule: turn_run_cases [of ?f db]) (auto simp: f)
  then show ?thesis by (simp only: turn_forget_closed_def case_prod_beta Let_def g)
qed

interpretation turns: kept "turn_do env" "\<lambda>_. True" "turn_inv env" for env
proof
  fix s c
  assume inv: "turn_inv env s"
  let ?cfg = "config_parse (te_var env)"
  show "turn_inv env (snd (turn_do env c s))"
  proof (cases c)
    case (TurnMint body i src)
    obtain a w where m: "handle_mint env body i src (ts_world s) = (a, w)" by fastforce
    let ?new = "new_ask env i src (ts_world s) w"
    show ?thesis
    proof (cases "tn_on ?cfg")
      case False
      with m have "w = ts_world s" by (simp add: handle_mint_def Let_def)
      then show ?thesis using inv TurnMint m inv_same [OF inv refl] by (simp add: new_ask_def new_posts_def)
    next
      case True
      with m have t: "turn_mint (te_parse env) ?cfg (cloudflare_from_env (te_secret env) ?cfg) i (source_of src) body
          (ts_world s) = (a, w)" by (simp add: handle_mint_def Let_def)
      have "?new \<noteq> [] \<Longrightarrow> tw_posts w \<noteq> tw_posts (ts_world s)" by (auto simp: new_ask_def new_posts_def)
      then consider "?new = []" "turn_held (tw_db w) = turn_held (tw_db (ts_world s))"
        | "one_more (bind_u64 (window_of (fst (read_clock (ts_world s)) div 1000))) (charges ?cfg i (source_of src))
             (tw_db (ts_world s)) (tw_db w)"
        using mint_counts [OF t] by (auto simp: same_counts_def)
      then show ?thesis
      proof cases
        case 1
        with inv_same [OF inv 1(2)] TurnMint m show ?thesis by simp
      next
        case 2
        have "?new = [] \<or> ?new = [(window_of (fst (read_clock (ts_world s)) div 1000), map ch_key (charges ?cfg i (source_of src)))]"
          by (auto simp: new_ask_def Let_def)
        from inv_one_more [OF inv 2 this] TurnMint m show ?thesis by simp
      qed
    qed
  next
    case (TurnRevoke body i)
    have "turn_held (tw_db (snd (handle_revoke env body i (ts_world s)))) = turn_held (tw_db (ts_world s))"
      by (simp add: handle_revoke_def Let_def revoke_counts)
    from inv_same [OF inv this] TurnRevoke show ?thesis by (simp add: case_prod_beta)
  next
    case (TurnSweep now)
    from sweep_held [of now "tw_db (ts_world s)"] inv show ?thesis
      by (auto simp: TurnSweep turn_inv_def unswept_def)
  next
    case (TurnWeather script replies clock)
    from inv show ?thesis by (simp add: TurnWeather turn_inv_def unswept_def)
  qed
qed

subsection \<open>The budget\<close>

lemma length_filter_mono: "(\<And>x. P x \<Longrightarrow> Q x) \<Longrightarrow> length (filter P xs) \<le> length (filter Q xs)"
  by (induction xs) (auto intro: le_SucI)

definition fresh_turns :: "round_trip list \<Rightarrow> turn_state" where
  "fresh_turns script =
     \<lparr>ts_world = \<lparr>tw_db = \<lparr>td_budget = [], td_records = [], td_script = script\<rparr>, tw_replies = [], tw_posts = [],
        tw_clock = [], tw_log = []\<rparr>, ts_asks = [], ts_sweeps = []\<rparr>"

text \<open>
  C21 (turn_budget_bounds_the_bill). From an empty database, through any mints, revokes and sweeps of
  any callers with any fates of D1, any replies of the provider and any clock: the requests for
  credentials that reached the provider in one window and count against one budget (an identity's, a
  source group's, a /48's, the total) are at most that budget's bound, as long as no sweep closed the
  window. The bound fits a JavaScript number.
\<close>

theorem turn_budget_bounds_the_bill:
  assumes "reaches (turn_do env) (\<lambda>_. True) (fresh_turns script) s"
    and "c \<in> set (charges (config_parse (te_var env)) i src)" and "ch_cap c \<le> 2 ^ 53"
    and "\<And>t. t \<in> set (ts_sweeps s) \<Longrightarrow> bind_u64 (window_of (t div 1000)) \<le> bind_u64 ws"
  shows "length (filter (\<lambda>a. fst a = ws \<and> ch_key c \<in> set (snd a)) (ts_asks s)) \<le> ch_cap c"
proof -
  have "turn_inv env (fresh_turns script)"
    by (simp add: turn_inv_def fresh_turns_def turn_held_def asks_in_def)
  with turns.reaches_inv [OF assms(1)] have inv: "turn_inv env s" by blast
  have cap: "bind_u64 (ch_cap c) = int (ch_cap c)" using assms(3) by (simp add: bind_u64_def)
  have "length (filter (\<lambda>a. fst a = ws \<and> ch_key c \<in> set (snd a)) (ts_asks s)) \<le>
      length (asks_in (ch_key c) (bind_u64 ws) (ts_asks s))"
    unfolding asks_in_def by (rule length_filter_mono) auto
  moreover have "int (length (asks_in (ch_key c) (bind_u64 ws) (ts_asks s))) \<le> max 0 (bind_u64 (ch_cap c))"
    using inv assms(2,4) unfolding turn_inv_def unswept_def by (meson order_trans)
  ultimately show ?thesis by (simp add: cap)
qed

subsection \<open>The servers handed out\<close>

definition turn_entry :: "string list \<times> string \<times> string \<Rightarrow> json" where
  "turn_entry t =
     JObj [(''urls'', JArr (map JStr (fst t))), (''username'', JStr (fst (snd t))), (''credential'', JStr (snd (snd t)))]"

definition stun_entry :: "string list \<Rightarrow> json list" where
  "stun_entry us = (if us = [] then [] else [JObj [(''urls'', JArr (map JStr us))]])"

definition turn_shape :: "(string list \<times> string \<times> string) list \<Rightarrow> string list \<Rightarrow> bool" where
  "turn_shape ts us \<longleftrightarrow>
     sum_list (map (length \<circ> fst) ts) \<le> MAX_TURN_URLS \<and> distinct us \<and> set us = (fst \<circ> snd) ` set ts \<and>
     (\<forall>t\<in>set ts. fst t \<noteq> [] \<and> fst (snd t) \<noteq> [] \<and> snd (snd t) \<noteq> [] \<and>
        (\<forall>u\<in>set (fst t). \<not> on_port_53 u \<and> scheme_is u [''turn:'', ''turns:'']))"

definition stun_shape :: "string list \<Rightarrow> bool" where
  "stun_shape us \<longleftrightarrow> distinct us \<and> (\<forall>u\<in>set us. \<not> on_port_53 u \<and> scheme_is u [''stun:'', ''stuns:''])"

definition ice_inv :: "ice \<Rightarrow> bool" where
  "ice_inv i \<longleftrightarrow> stun_shape (ic_stun i) \<and>
     (\<exists>ts. ic_turn i = map turn_entry ts \<and> turn_shape ts (ic_usernames i) \<and> ic_urls i = sum_list (map (length \<circ> fst) ts))"

lemma push_new_set [simp]: "set (push_new x xs) = insert x (set xs)" "distinct (push_new x xs) = distinct xs"
  by (auto simp: push_new_def)

lemma listed_not_53: "u \<in> set (listed_urls e) \<Longrightarrow> \<not> on_port_53 u"
  by (simp add: listed_urls_def)

lemma stun_fold:
  assumes "stun_shape st" and "\<forall>u\<in>set us. \<not> on_port_53 u"
  shows "stun_shape (fold (\<lambda>u st. if scheme_is u [''stun:'', ''stuns:''] then push_new u st else st) us st)"
  using assms
proof (induction us arbitrary: st)
  case (Cons u us)
  have "stun_shape (if scheme_is u [''stun:'', ''stuns:''] then push_new u st else st)"
  proof (cases "scheme_is u [''stun:'', ''stuns:'']")
    case True
    with Cons.prems show ?thesis unfolding stun_shape_def if_P [OF True] push_new_set by (metis insert_iff list.set_intros(1))
  next
    case False
    with Cons.prems(1) show ?thesis by (simp only: if_False)
  qed
  moreover have "\<forall>u\<in>set us. \<not> on_port_53 u" using Cons.prems(2) by (metis list.set_intros(2))
  ultimately have "stun_shape (fold (\<lambda>u st. if scheme_is u [''stun:'', ''stuns:''] then push_new u st else st) us
      (if scheme_is u [''stun:'', ''stuns:''] then push_new u st else st))" by (rule Cons.IH)
  then show ?case by (simp only: fold_Cons o_apply)
qed (simp only: fold_Nil id_apply)

lemma ice_entry_inv: "ice_inv i \<Longrightarrow> ice_inv (ice_entry e i)"
proof -
  assume "ice_inv i"
  then obtain ts where ts: "stun_shape (ic_stun i)" "ic_turn i = map turn_entry ts" "turn_shape ts (ic_usernames i)"
    "ic_urls i = sum_list (map (length \<circ> fst) ts)" by (auto simp: ice_inv_def)
  let ?urls = "listed_urls e"
  let ?i = "i\<lparr>ic_stun := fold (\<lambda>u st. if scheme_is u [''stun:'', ''stuns:''] then push_new u st else st) ?urls (ic_stun i)\<rparr>"
  let ?these = "take (MAX_TURN_URLS - ic_urls i) (filter (\<lambda>u. scheme_is u [''turn:'', ''turns:'']) ?urls)"
  have st: "stun_shape (ic_stun ?i)" using stun_fold [OF ts(1), of ?urls] listed_not_53 by auto
  have base: "ice_inv ?i" unfolding ice_inv_def using st ts(2-4) by auto
  show "ice_inv (ice_entry e i)"
  proof (cases "\<exists>u cr. Option.bind (get_member ''username'' e) non_empty = Some u \<and>
      Option.bind (get_member ''credential'' e) non_empty = Some cr \<and> ?these \<noteq> []")
    case False
    then have "ice_entry e i = ?i" by (auto simp: ice_entry_def Let_def split: option.splits)
    with base show ?thesis by simp
  next
    case True
    then obtain u cr where u: "Option.bind (get_member ''username'' e) non_empty = Some u"
      "Option.bind (get_member ''credential'' e) non_empty = Some cr" "?these \<noteq> []" by auto
    have ne: "u \<noteq> []" "cr \<noteq> []"
      using u(1,2) by (auto simp: non_empty_def bind_eq_Some_conv split: option.splits if_splits)
    have room: "length ?these \<le> MAX_TURN_URLS - ic_urls i" by simp
    have these: "\<not> on_port_53 x \<and> scheme_is x [''turn:'', ''turns:'']" if "x \<in> set ?these" for x
      using in_set_takeD [OF that] listed_not_53 [of x e] by simp
    have le: "ic_urls i \<le> MAX_TURN_URLS" using ts(3,4) by (simp add: turn_shape_def)
    have "turn_shape (ts @ [(?these, u, cr)]) (push_new u (ic_usernames i))"
      unfolding turn_shape_def
    proof (intro conjI)
      show "sum_list (map (length \<circ> fst) (ts @ [(?these, u, cr)])) \<le> MAX_TURN_URLS"
        using le room ts(4) by simp
      show "distinct (push_new u (ic_usernames i))"
        "set (push_new u (ic_usernames i)) = (fst \<circ> snd) ` set (ts @ [(?these, u, cr)])"
        using ts(3) by (auto simp: turn_shape_def)
      show "\<forall>t\<in>set (ts @ [(?these, u, cr)]). fst t \<noteq> [] \<and> fst (snd t) \<noteq> [] \<and> snd (snd t) \<noteq> [] \<and>
        (\<forall>u\<in>set (fst t). \<not> on_port_53 u \<and> scheme_is u [''turn:'', ''turns:''])"
        using ts(3) ne u(3) these unfolding turn_shape_def set_append list.set
        by (metis Un_iff empty_iff fst_conv insert_iff snd_conv)
    qed
    moreover have "ice_entry e i = ?i\<lparr>ic_urls := ic_urls i + length ?these,
        ic_turn := ic_turn i @ [turn_entry (?these, u, cr)], ic_usernames := push_new u (ic_usernames i)\<rparr>"
      using u by (simp add: ice_entry_def Let_def turn_entry_def)
    ultimately show ?thesis unfolding ice_inv_def using st ts(2,4)
      by (intro conjI exI [of _ "ts @ [(?these, u, cr)]"]) simp_all
  qed
qed

lemma ice_fold: "ice_inv i \<Longrightarrow> ice_inv (fold ice_entry es i)"
  by (induction es arbitrary: i) (simp_all add: ice_entry_inv)

lemma ice_servers_shape:
  assumes "ice_servers ans = Inr (servers, us)"
  obtains st ts where "servers = stun_entry st @ map turn_entry ts" and "ts \<noteq> []" and "turn_shape ts us" and "stun_shape st"
proof -
  define i where "i = fold ice_entry (filter is_object (case get_member ''iceServers'' ans of
            Some (JArr l) \<Rightarrow> l | Some (JObj ms) \<Rightarrow> [JObj ms] | _ \<Rightarrow> []))
      \<lparr>ic_stun = [], ic_turn = [], ic_usernames = [], ic_urls = 0\<rparr>"
  have "ice_inv i" unfolding i_def by (rule ice_fold) (simp add: ice_inv_def stun_shape_def turn_shape_def)
  then obtain ts where ts: "stun_shape (ic_stun i)" "ic_turn i = map turn_entry ts" "turn_shape ts (ic_usernames i)"
    by (auto simp: ice_inv_def)
  have "servers = stun_entry (ic_stun i) @ ic_turn i \<and> us = ic_usernames i \<and> ic_turn i \<noteq> []"
    using assms by (auto simp: ice_servers_def Let_def i_def [symmetric] stun_entry_def split: if_splits)
  with ts that show thesis by auto
qed

subsection \<open>Whose credentials\<close>

lemma OWNER_RECORD:
  "OWNER_SQL u (RECORD_SQL r db) = (if u = tr_username r then Some (tr_identity r) else OWNER_SQL u db)"
proof -
  have "find (\<lambda>x. tr_username x = u) (xs @ [r]) = (case find (\<lambda>x. tr_username x = u) xs of Some x \<Rightarrow> Some x
      | None \<Rightarrow> if tr_username r = u then Some r else None)" for xs
    by (induction xs) auto
  moreover have "find (\<lambda>x. tr_username x = u) (update_where (\<lambda>x. tr_username x = tr_username r) (\<lambda>_. r) xs) =
      (if u = tr_username r then (if list_ex (\<lambda>x. tr_username x = u) xs then Some r else None)
       else find (\<lambda>x. tr_username x = u) xs)" for xs
    by (induction xs) auto
  moreover have "\<not> list_ex (\<lambda>x. tr_username x = u) (td_records db) \<Longrightarrow> find (\<lambda>x. tr_username x = u) (td_records db) = None"
    by (auto simp: find_None list_ex_iff)
  ultimately show ?thesis by (auto simp: OWNER_SQL_def RECORD_SQL_def split: option.splits)
qed

lemma OWNER_script [simp]: "OWNER_SQL u (db\<lparr>td_script := s\<rparr>) = OWNER_SQL u db"
  by (simp add: OWNER_SQL_def)

lemma record_all_owner:
  assumes "record_all i e t us w = (Inr r, w')"
  shows "OWNER_SQL u (tw_db w') = (if u \<in> set us then Some i else OWNER_SQL u (tw_db w))"
  using assms
proof (induction us arbitrary: w)
  case (Cons v us)
  then obtain q w1 where q: "on_turn_db (store_record v i e t) w = (Inr q, w1)" "record_all i e t us w1 = (Inr r, w')"
    by (auto elim: andThen_InrE)
  have r1: "store_record v i e t (tw_db w) = (Inr q, tw_db w1)"
    using on_turn_db_keeps(2,3) [of "store_record v i e t" w] q(1) by (simp add: prod_eq_iff)
  have "tw_db w1 = RECORD_SQL \<lparr>tr_username = v, tr_identity = i, tr_expires_at = bind_u64 e, tr_created_at = bind_u64 t\<rparr>
      ((tw_db w)\<lparr>td_script := tl (td_script (tw_db w))\<rparr>)"
    using turn_run_served [OF r1 [unfolded store_record_def]] by (metis snd_conv)
  then have "OWNER_SQL u (tw_db w1) = (if u = v then Some i else OWNER_SQL u (tw_db w))" by (simp add: OWNER_RECORD)
  with Cons.IH [OF q(2)] show ?case by auto
qed simp

lemma caller_rule_status: "caller_rule parse body i = Inl no \<Longrightarrow> snd no \<noteq> 200"
  by (auto simp: caller_rule_def error_answer_def split: if_splits option.splits json.splits)

lemma record_all_posts: "tw_posts (snd (record_all i e t us w)) = tw_posts w"
proof (induction us arbitrary: w)
  case (Cons u us)
  obtain q w1 where "on_turn_db (store_record u i e t) w = (q, w1)" by fastforce
  with Cons.IH [of w1] on_turn_db_keeps(1) [of "store_record u i e t" w] show ?case by (cases q) auto
qed simp

definition the_ask :: "string \<Rightarrow> turn_config \<Rightarrow> string \<times> string option" where
  "the_ask key cfg = (generate_url key, Some (''{\"ttl\":'' @ nat_text (tn_ttl_secs cfg) @ ''}''))"

lemma generate_posts:
  "tw_posts (snd (cloudflare_generate parse key (tn_ttl_secs cfg) w)) = tw_posts w @ [the_ask key cfg]"
  by (auto simp: cloudflare_generate_def cloudflare_post_def Let_def the_ask_def
      split: list.split http_reply.split option.split)

lemma on_turn_db_clock: "tw_clock (snd (on_turn_db f w)) = tw_clock w"
  by (simp add: on_turn_db_def case_prod_beta)

lemma read_clock_cong: "tw_clock w = tw_clock w' \<Longrightarrow> fst (read_clock w) = fst (read_clock w')"
  by (simp add: read_clock_def)

lemma mint_200:
  assumes m: "turn_mint parse cfg provider i src body w = ((b, 200), w')"
  obtains ans servers us e t w1 key where "ice_servers ans = Inr (servers, us)" and "record_all i e t us w1 = (Inr (), w')"
    and "e = t + tn_ttl_secs cfg * 1000" and "t = fst (read_clock (snd (read_clock w)))"
    and "provider = Some key" and "tw_posts w' = tw_posts w @ [the_ask key cfg]"
    and "b = JObj [(''status'', JStr ''success''), (''iceServers'', JArr servers), (''expiresAt'', JInt (int e))]"
proof -
  let ?ws = "window_of (fst (read_clock w) div 1000)"
  have on: "tn_on cfg" using m by (rule_tac ccontr) (simp add: turn_mint_def switched_off_def error_answer_def)
  obtain u where rule: "caller_rule parse body i = Inr u"
    using m on caller_rule_status by (cases "caller_rule parse body i") (fastforce simp: turn_mint_def)+
  obtain key where key: "provider = Some key"
    using m on rule by (cases provider) (auto simp: turn_mint_def misconfigured_def error_answer_def)
  obtain r w2 where c: "on_turn_db (store_charge ?ws (charges cfg i src)) (snd (read_clock w)) = (r, w2)" by fastforce
  have [simp]: "r = Inr None" using m on rule key
    by (cases r; cases "projr r")
      (auto simp: turn_mint_def case_prod_beta Let_def c error_answer_def budget_spent_def)
  obtain g w3 where g: "cloudflare_generate parse key (tn_ttl_secs cfg) (snd (read_clock w2)) = (g, w3)" by fastforce
  note step = m [unfolded turn_mint_def case_prod_beta Let_def] on rule key c g
  obtain ans where ans: "g = Inr ans" using step by (cases g) (auto simp: error_answer_def)
  obtain servers us where i: "ice_servers ans = Inr (servers, us)"
    using step ans by (cases "ice_servers ans") (auto simp: error_answer_def)
  let ?t = "fst (read_clock w2)"
  obtain q w4 where q: "record_all i (?t + tn_ttl_secs cfg * 1000) ?t us w3 = (q, w4)" by fastforce
  have "q = Inr ()" using step ans i q by (cases q) (auto simp: TURN_UNRECORDED_def error_answer_def)
  note all = this step ans i q
  have t: "?t = fst (read_clock (snd (read_clock w)))"
    using on_turn_db_clock [of "store_charge ?ws (charges cfg i src)" "snd (read_clock w)"] c
    by (intro read_clock_cong) simp
  have "tw_posts w2 = tw_posts w"
    using on_turn_db_keeps(1) [of "store_charge ?ws (charges cfg i src)" "snd (read_clock w)"] c by simp
  then have w3: "tw_posts w3 = tw_posts w @ [the_ask key cfg]"
    using generate_posts [of parse key cfg "snd (read_clock w2)"] g by simp
  have w': "w' = w4" using all by auto
  have "tw_posts w' = tw_posts w @ [the_ask key cfg]"
    using record_all_posts [of i "?t + tn_ttl_secs cfg * 1000" ?t us w3] q w3 w' by simp
  with all t w' show thesis by (intro that [OF i]) auto
qed

lemma store_owner_reads:
  assumes "on_turn_db (store_owner u) w = (r, w')"
  shows "r = Inr (OWNER_SQL u (tw_db w)) \<or> (\<exists>e. r = Inl e)"
    and "tw_posts w' = tw_posts w" and "td_records (tw_db w') = td_records (tw_db w)"
proof -
  have w': "tw_posts w' = tw_posts w" "store_owner u (tw_db w) = (r, tw_db w')"
    using on_turn_db_keeps [of "store_owner u" w] assms by (simp_all add: prod_eq_iff)
  have "(r = Inr (OWNER_SQL u (tw_db w)) \<or> (\<exists>e. r = Inl e)) \<and> tw_db w' = (tw_db w)\<lparr>td_script := tl (td_script (tw_db w))\<rparr>"
    using w'(2) unfolding store_owner_def
    by (cases rule: turn_run_cases [of "\<lambda>db. (OWNER_SQL u db, db)" "tw_db w"]) auto
  with w'(1) show "r = Inr (OWNER_SQL u (tw_db w)) \<or> (\<exists>e. r = Inl e)"
    and "tw_posts w' = tw_posts w" and "td_records (tw_db w') = td_records (tw_db w)" by simp_all
qed

definition left_alone :: "turn_world \<Rightarrow> answer \<times> turn_world \<Rightarrow> bool" where
  "left_alone w r \<longleftrightarrow> snd (fst r) \<in> {404, 503} \<and> tw_posts (snd r) = tw_posts w \<and>
     td_records (tw_db (snd r)) = td_records (tw_db w)"

lemma revoke_other:
  assumes "read_username parse body = Some u" and "OWNER_SQL u (tw_db w) \<noteq> Some j"
  shows "left_alone w (turn_revoke parse provider j body w)"
proof (cases provider)
  case None
  with assms show ?thesis by (simp add: turn_revoke_def left_alone_def misconfigured_def error_answer_def)
next
  case (Some key)
  obtain r w' where o: "on_turn_db (store_owner u) w = (r, w')" by fastforce
  from store_owner_reads [OF o] assms Some show ?thesis
    by (auto simp: turn_revoke_def left_alone_def o error_answer_def)
qed

text \<open>The revoke of its own credential, with D1 and the provider answering.\<close>

lemma revoke_own:
  assumes "read_username parse body = Some u" and "OWNER_SQL u (tw_db w) = Some i" and "td_script (tw_db w) = []"
    and "tw_replies w = Replied status len bytes # later" and "status \<in> {200, 204}"
  shows "snd (fst (turn_revoke parse (Some key) i body w)) = 200 \<and>
    tw_posts (snd (turn_revoke parse (Some key) i body w)) = tw_posts w @ [(revoke_url key u, None)] \<and>
    OWNER_SQL u (tw_db (snd (turn_revoke parse (Some key) i body w))) = None"
  using assms
  by (auto simp: turn_revoke_def on_turn_db_def store_owner_def store_forget_def turn_run_def cloudflare_revoke_def
      cloudflare_post_def Let_def OWNER_SQL_def FORGET_SQL_def find_None)

text \<open>Whatever fails, the revoke is answered as done or forgets a record only once the provider was asked.\<close>

definition asked_first :: "string \<Rightarrow> string \<Rightarrow> turn_world \<Rightarrow> answer \<times> turn_world \<Rightarrow> bool" where
  "asked_first key u w r \<longleftrightarrow>
     (snd (fst r) = 200 \<or> td_records (tw_db (snd r)) \<noteq> td_records (tw_db w) \<longrightarrow>
        tw_posts (snd r) = tw_posts w @ [(revoke_url key u, None)])"

lemma revoke_asks_first:
  assumes "read_username parse body = Some u"
  shows "asked_first key u w (turn_revoke parse (Some key) i body w)"
proof -
  obtain r w1 where o: "on_turn_db (store_owner u) w = (r, w1)" by fastforce
  obtain q w2 where c: "cloudflare_revoke key u w1 = (q, w2)" by fastforce
  obtain f w3 where f: "on_turn_db (store_forget u) w2 = (f, w3)" by fastforce
  note read = store_owner_reads(2,3) [OF o]
  have asked: "tw_posts w2 = tw_posts w1 @ [(revoke_url key u, None)]" "tw_db w2 = tw_db w1"
    using c by (auto simp: cloudflare_revoke_def cloudflare_post_def Let_def
        split: list.splits http_reply.splits if_splits)
  have "tw_posts w3 = tw_posts w2" using on_turn_db_keeps(1) [of "store_forget u" w2] f by simp
  with read asked show ?thesis using assms
    by (auto simp: asked_first_def turn_revoke_def o c f error_answer_def split: sum.split)
qed

definition only_minter :: "turn_env \<Rightarrow> string \<Rightarrow> string \<Rightarrow> turn_world \<Rightarrow> string \<Rightarrow> bool" where
  "only_minter env key i w u \<longleftrightarrow>
     (\<forall>again. read_username (te_parse env) again = Some u \<longrightarrow>
        (\<forall>j. j \<noteq> i \<longrightarrow> left_alone w (handle_revoke env again j w)) \<and>
        asked_first key u w (handle_revoke env again i w) \<and>
        (\<forall>status len bytes later. td_script (tw_db w) = [] \<and> tw_replies w = Replied status len bytes # later \<and>
             status \<in> {200, 204} \<longrightarrow>
           snd (fst (handle_revoke env again i w)) = 200 \<and>
           tw_posts (snd (handle_revoke env again i w)) = tw_posts w @ [(revoke_url key u, None)] \<and>
           OWNER_SQL u (tw_db (snd (handle_revoke env again i w))) = None))"

lemma only_minterD:
  assumes "only_minter env key i w u" and "read_username (te_parse env) again = Some u"
  shows "j \<noteq> i \<Longrightarrow> left_alone w (handle_revoke env again j w)"
    and "td_script (tw_db w) = [] \<Longrightarrow> tw_replies w = Replied status len bytes # later \<Longrightarrow> status \<in> {200, 204} \<Longrightarrow>
      snd (fst (handle_revoke env again i w)) = 200 \<and>
      tw_posts (snd (handle_revoke env again i w)) = tw_posts w @ [(revoke_url key u, None)]"
  using assms unfolding only_minter_def by metis+

text \<open>
  C22 (minted_is_the_minters). A mint answered 200 posted one request to the provider, for
  credentials of the configured lifetime, and hands out STUN urls and at least one TURN entry: at
  most eight TURN urls, none of any kind on port 53, every entry with urls, a username and a
  credential. The expiry it gives is that lifetime after the mint's second reading of the clock, the
  one it takes between the charge and the request. Every username in it is recorded as the minter's:
  a revoke of it by anyone else leaves the provider unasked and the records as they are, answering
  404 or 503. A revoke by the minter, whatever fails on the way, is answered 200 or changes a record
  only after the provider was sent the revoke of that username; where D1 and the provider serve it,
  it is answered 200 and the record is gone.
\<close>

theorem minted_is_the_minters:
  assumes "handle_mint env body i src w = ((b, 200), w')"
  shows "\<exists>key st ts us. cloudflare_from_env (te_secret env) (config_parse (te_var env)) = Some key \<and>
     tw_posts w' = tw_posts w @ [the_ask key (config_parse (te_var env))] \<and>
     stun_shape st \<and> ts \<noteq> [] \<and> turn_shape ts us \<and>
     b = JObj [(''status'', JStr ''success''), (''iceServers'', JArr (stun_entry st @ map turn_entry ts)),
       (''expiresAt'', JInt (int (fst (read_clock (snd (read_clock w))) + tn_ttl_secs (config_parse (te_var env)) * 1000)))] \<and>
     (\<forall>u\<in>set us. only_minter env key i w' u)"
proof -
  let ?cfg = "config_parse (te_var env)" and ?p = "cloudflare_from_env (te_secret env) (config_parse (te_var env))"
  have on: "tn_on ?cfg"
    using assms by (rule_tac ccontr) (simp add: handle_mint_def Let_def switched_off_def error_answer_def)
  then have m: "turn_mint (te_parse env) ?cfg ?p i (source_of src) body w = ((b, 200), w')"
    using assms by (simp add: handle_mint_def Let_def)
  obtain ans servers us e t w1 key where r: "ice_servers ans = Inr (servers, us)" "record_all i e t us w1 = (Inr (), w')"
    "e = t + tn_ttl_secs ?cfg * 1000" "t = fst (read_clock (snd (read_clock w)))"
    "b = JObj [(''status'', JStr ''success''), (''iceServers'', JArr servers), (''expiresAt'', JInt (int e))]"
    and key: "?p = Some key" and posts: "tw_posts w' = tw_posts w @ [the_ask key ?cfg]"
    using mint_200 [OF m] .
  obtain st ts where s: "servers = stun_entry st @ map turn_entry ts" "ts \<noteq> []" "turn_shape ts us" "stun_shape st"
    using ice_servers_shape [OF r(1)] .
  have mine: "OWNER_SQL u (tw_db w') = Some i" if "u \<in> set us" for u using record_all_owner [OF r(2)] that by simp
  have "handle_revoke env again j w' = turn_revoke (te_parse env) (Some key) j again w'" for again j
    using on key by (simp add: handle_revoke_def Let_def)
  then have "only_minter env key i w' u" if "u \<in> set us" for u
    using mine [OF that] revoke_other [of "te_parse env"] revoke_own [of "te_parse env"]
      revoke_asks_first [of "te_parse env"] by (simp add: only_minter_def)
  then show ?thesis using r(3-5) s key posts
    by (intro exI [of _ key] exI [of _ st] exI [of _ ts] exI [of _ us]) auto
qed

subsection \<open>One mint and its revoke\<close>

definition demo_turn_env :: turn_env where
  "demo_turn_env =
     \<lparr>te_parse = (\<lambda>s. if s = ''ice'' then Some (JObj [(''iceServers'', JArr [
          JObj [(''urls'', JArr [JStr ''stun:a:3478'', JStr ''stun:a:53''])],
          JObj [(''urls'', JArr [JStr ''turn:a:3478?transport=udp'', JStr ''turn:a:53?transport=udp'']),
                (''username'', JStr ''u1''), (''credential'', JStr ''c1'')]])])
        else if s = ''close'' then Some (JObj [(''username'', JStr ''u1'')]) else None),
      te_var = [''TURN_CREDENTIALS'' \<mapsto> ''on'', ''TURN_KEY_ID'' \<mapsto> ''key-1''],
      te_secret = [''TURN_KEY_API_TOKEN'' \<mapsto> ''token'']\<rparr>"

definition demo_turns :: turn_state where
  "demo_turns = snd (turn_do demo_turn_env (TurnWeather [] [Replied 200 None (Some ''ice''), Replied 204 None (Some [])]
     [7200000, 7200500]) (fresh_turns []))"

abbreviation demo_minted :: "answer \<times> turn_world" where
  "demo_minted \<equiv> handle_mint demo_turn_env [] ''alice'' (Some ''2001:db8::1'') (ts_world demo_turns)"

lemma demo_mint_answer:
  "fst demo_minted = (JObj [(''status'', JStr ''success''), (''iceServers'', JArr [
     JObj [(''urls'', JArr [JStr ''stun:a:3478''])],
     JObj [(''urls'', JArr [JStr ''turn:a:3478?transport=udp'']), (''username'', JStr ''u1''), (''credential'', JStr ''c1'')]]),
     (''expiresAt'', JInt 10800500)], 200)"
  by code_simp

theorem turn_budget_bounds_the_bill_witness:
  "length (filter (\<lambda>a. fst a = 7200 \<and> ''turn:p48:2001:db8:0::/48'' \<in> set (snd a))
     (ts_asks (snd (turn_do demo_turn_env (TurnMint [] ''alice'' (Some ''2001:db8::1'')) demo_turns)))) \<in> {1..24}"
proof -
  let ?s = "snd (turn_do demo_turn_env (TurnMint [] ''alice'' (Some ''2001:db8::1'')) demo_turns)"
  let ?c = "\<lparr>ch_name = ''prefix48'', ch_key = ''turn:p48:2001:db8:0::/48'', ch_cap = 24\<rparr>"
  have r: "reaches (turn_do demo_turn_env) (\<lambda>_. True) (fresh_turns []) ?s"
    unfolding demo_turns_def by (intro reaches_step reaches_refl) simp_all
  have c: "?c \<in> set (charges (config_parse (te_var demo_turn_env)) ''alice'' (source_of (Some ''2001:db8::1'')))"
    by code_simp
  have cap: "ch_cap ?c \<le> 2 ^ 53" by simp
  have sw: "ts_sweeps ?s = []" by code_simp
  have one: "ts_asks ?s = [(7200, [''turn:id:alice'', ''turn:src:2001:db8:0:0::/64'', ''turn:p48:2001:db8:0::/48'', ''turn:all''])]"
    by code_simp
  have "length (filter (\<lambda>a. fst a = 7200 \<and> ch_key ?c \<in> set (snd a)) (ts_asks ?s)) \<le> ch_cap ?c"
    by (rule turn_budget_bounds_the_bill [OF r c cap]) (simp add: sw del: turn_do.simps)
  then show ?thesis by (simp add: one del: turn_do.simps)
qed

theorem minted_is_the_minters_witness:
  "left_alone (snd demo_minted) (handle_revoke demo_turn_env ''close'' ''bob'' (snd demo_minted)) \<and>
   snd (fst (handle_revoke demo_turn_env ''close'' ''alice'' (snd demo_minted))) = 200 \<and>
   tw_posts (snd (handle_revoke demo_turn_env ''close'' ''alice'' (snd demo_minted))) =
     [the_ask ''key-1'' (config_parse (te_var demo_turn_env)), (revoke_url ''key-1'' ''u1'', None)]"
proof -
  let ?b = "fst (fst demo_minted)"
  have run: "demo_minted = ((?b, 200), snd demo_minted)" using demo_mint_answer by (metis prod.collapse snd_conv)
  have u: "read_username (te_parse demo_turn_env) ''close'' = Some ''u1''" by code_simp
  have q: "td_script (tw_db (snd demo_minted)) = []" "tw_replies (snd demo_minted) = [Replied 204 None (Some [])]"
    by code_simp+
  have k: "cloudflare_from_env (te_secret demo_turn_env) (config_parse (te_var demo_turn_env)) = Some ''key-1''"
    "tw_posts (ts_world demo_turns) = []" by code_simp+
  obtain key st ts us where key: "cloudflare_from_env (te_secret demo_turn_env) (config_parse (te_var demo_turn_env)) = Some key"
    and posts: "tw_posts (snd demo_minted) = tw_posts (ts_world demo_turns) @ [the_ask key (config_parse (te_var demo_turn_env))]"
    and ne: "ts \<noteq> []" and shape: "turn_shape ts us"
    and b: "?b = JObj [(''status'', JStr ''success''), (''iceServers'', JArr (stun_entry st @ map turn_entry ts)),
         (''expiresAt'', JInt (int (fst (read_clock (snd (read_clock (ts_world demo_turns)))) +
            tn_ttl_secs (config_parse (te_var demo_turn_env)) * 1000)))]"
    and all: "\<forall>u\<in>set us. only_minter demo_turn_env key ''alice'' (snd demo_minted) u"
    using minted_is_the_minters [OF run] by (elim exE conjE) (rule that)
  have "stun_entry st @ map turn_entry ts = [JObj [(''urls'', JArr [JStr ''stun:a:3478''])],
        turn_entry ([''turn:a:3478?transport=udp''], ''u1'', ''c1'')]"
    using b unfolding demo_mint_answer fst_conv snd_conv turn_entry_def json.inject list.inject prod.inject list.map
    by (elim conjE) (rule sym)
  then have "last (map turn_entry ts) = turn_entry ([''turn:a:3478?transport=udp''], ''u1'', ''c1'')"
    using ne last_appendR [of "map turn_entry ts" "stun_entry st"] by simp
  then have "fst (snd (last ts)) = ''u1''" using ne by (simp add: last_map turn_entry_def)
  then have "''u1'' \<in> set us" using ne shape unfolding turn_shape_def by (metis comp_apply image_eqI last_in_set)
  note mine = only_minterD [OF bspec [OF all this] u]
  show ?thesis using mine(1) [of "''bob''"] mine(2) [OF q] key posts k by simp
qed

end
