(* ===== verification/Presence.thy ===== *)
theory Presence
  imports Validation Send_Budget
begin

section \<open>Presence, the broadcast registry and the fan-out\<close>

text \<open>
  \<open>src/src/presence.rs\<close>, \<open>presence_counters.rs\<close>, \<open>broadcast_registry.rs\<close>, \<open>hub_forward.rs\<close>, and the
  parts of \<open>src/src/lib.rs\<close> over them: the presence route, the rooms and their bodies, the fan-out of
  a broadcast. What a hop to a Durable Object comes to is an argument; the text of a JSON value in a
  log line is the argument \<open>json_text\<close>. A future is the number of polls it stays pending and what it
  resolves to.
\<close>

subsection \<open>The read's hops\<close>

datatype presence_hop = HopNamespace | HopStub | HopFetch | HopStatus | HopBody | HopPresent

definition ALL_HOPS :: "presence_hop list" where
  "ALL_HOPS = [HopNamespace, HopStub, HopFetch, HopStatus, HopBody, HopPresent]"

fun hop_as_str :: "presence_hop \<Rightarrow> string" where
  "hop_as_str HopNamespace = ''namespace''"
| "hop_as_str HopStub = ''stub''"
| "hop_as_str HopFetch = ''fetch''"
| "hop_as_str HopStatus = ''status''"
| "hop_as_str HopBody = ''body''"
| "hop_as_str HopPresent = ''present''"

definition PRESENCE_RETRY_AFTER_SECS :: string where
  "PRESENCE_RETRY_AFTER_SECS = ''5''"

definition PRESENCE_UNAVAILABLE_CODE :: string where
  "PRESENCE_UNAVAILABLE_CODE = ''ERR_PRESENCE_UNAVAILABLE''"

definition presence_retry_after :: "json \<Rightarrow> http_status \<Rightarrow> string option" where
  "presence_retry_after body status =
     (if status = 503 \<and> get_member ''code'' body = Some (JStr PRESENCE_UNAVAILABLE_CODE)
      then Some PRESENCE_RETRY_AFTER_SECS else None)"

text \<open>The hop that failed and its text, or the hub's status and its body.\<close>

type_synonym hub_answer = "(presence_hop \<times> string) + http_status \<times> (string + json)"

datatype hub_verdict =
    Answered "bool option" "u64 option" "u64 option"
  | Fault presence_hop "http_status option" string

fun as_u64 :: "json \<Rightarrow> u64 option" where
  "as_u64 (JInt i) = (if 0 \<le> i \<and> i < 2 ^ 64 then Some (nat i) else None)"
| "as_u64 _ = None"

definition classify_hub_answer :: "(json \<Rightarrow> string) \<Rightarrow> hub_answer \<Rightarrow> hub_verdict" where
  "classify_hub_answer json_text ans =
     (case ans of
        Inl (hop, err) \<Rightarrow> Fault hop None err
      | Inr (status, body) \<Rightarrow>
          if status \<noteq> 200 then Fault HopStatus (Some status) (''hub status '' @ nat_text status)
          else case body of
            Inl err \<Rightarrow> Fault HopBody None err
          | Inr b \<Rightarrow>
              (let stamped = (\<lambda>p. Answered p (Option.bind (get_member ''lastSeenMs'' b) as_u64)
                                   (Option.bind (get_member ''rejoinDeadlineMs'' b) as_u64))
               in case get_member ''present'' b of
                    Some (JBool p) \<Rightarrow> stamped (Some p)
                  | Some JNull \<Rightarrow> stamped None
                  | Some v \<Rightarrow> Fault HopPresent None (''present is '' @ json_text v)
                  | None \<Rightarrow> Fault HopPresent None ''present missing''))"

definition presence_trace_reason :: "json \<Rightarrow> http_status \<Rightarrow> string option" where
  "presence_trace_reason body status =
     (if status = 503 \<and> get_member ''code'' body = Some (JStr PRESENCE_UNAVAILABLE_CODE)
      then Option.bind (get_member ''hop'' body) as_str
      else if status = 200 \<and> get_member ''present'' body = Some JNull then Some ''null'' else None)"

definition one_line :: "string \<Rightarrow> string" where
  "one_line s = map (\<lambda>c. if c = CHR 0x0A \<or> c = CHR 0x0D then CHR '' '' else c) s"

definition log_presence_verdict :: "hub_verdict \<Rightarrow> string \<Rightarrow> string list" where
  "log_presence_verdict verdict room =
     (case verdict of
        Fault hop _ err \<Rightarrow> [''TRACE_PRESENCE hop='' @ hop_as_str hop @ '' err='' @ one_line err @ '' room='' @ room]
      | Answered _ _ _ \<Rightarrow> [])"

subsection \<open>The counters\<close>

datatype presence_reason = ReasonHop presence_hop | ReasonNull | ReasonHubUnavailable

record presence_counters =
  pc_since :: ms
  pc_hops :: "u64 list"
  pc_null :: u64
  pc_hub_unavailable :: u64

definition new_counters :: presence_counters where
  "new_counters = \<lparr>pc_since = 0, pc_hops = replicate 6 0, pc_null = 0, pc_hub_unavailable = 0\<rparr>"

fun hop_index :: "presence_hop \<Rightarrow> nat" where
  "hop_index HopNamespace = 0"
| "hop_index HopStub = 1"
| "hop_index HopFetch = 2"
| "hop_index HopStatus = 3"
| "hop_index HopBody = 4"
| "hop_index HopPresent = 5"

definition mark_start :: "ms \<Rightarrow> presence_counters \<Rightarrow> presence_counters" where
  "mark_start now_ms c = (if pc_since c = 0 then c\<lparr>pc_since := now_ms\<rparr> else c)"

definition fetch_add_one :: "u64 \<Rightarrow> u64" where
  "fetch_add_one n = (n + 1) mod 2 ^ 64"

fun count_reason :: "presence_reason \<Rightarrow> presence_counters \<Rightarrow> presence_counters" where
  "count_reason (ReasonHop hop) c =
     c\<lparr>pc_hops := (pc_hops c)[hop_index hop := fetch_add_one (pc_hops c ! hop_index hop)]\<rparr>"
| "count_reason ReasonNull c = c\<lparr>pc_null := fetch_add_one (pc_null c)\<rparr>"
| "count_reason ReasonHubUnavailable c = c\<lparr>pc_hub_unavailable := fetch_add_one (pc_hub_unavailable c)\<rparr>"

fun get_reason :: "presence_reason \<Rightarrow> presence_counters \<Rightarrow> u64" where
  "get_reason (ReasonHop hop) c = pc_hops c ! hop_index hop"
| "get_reason ReasonNull c = pc_null c"
| "get_reason ReasonHubUnavailable c = pc_hub_unavailable c"

definition health_json :: "presence_counters \<Rightarrow> json" where
  "health_json c =
     JObj [(''scope'', JStr ''isolate''), (''sinceMs'', JInt (int (pc_since c))),
       (''counts'', JObj (map (\<lambda>hop. (hop_as_str hop, JInt (int (get_reason (ReasonHop hop) c)))) ALL_HOPS @
          [(''null'', JInt (int (get_reason ReasonNull c))),
           (''hubUnavailable'', JInt (int (get_reason ReasonHubUnavailable c)))]))]"

definition count_presence_verdict :: "hub_verdict \<Rightarrow> presence_counters \<Rightarrow> presence_counters" where
  "count_presence_verdict verdict c =
     (case verdict of
        Fault hop _ _ \<Rightarrow> count_reason (ReasonHop hop) c
      | Answered None _ _ \<Rightarrow> count_reason ReasonNull c
      | Answered (Some _) _ _ \<Rightarrow> c)"

subsection \<open>The presence route\<close>

definition PRESENCE_WIRE_VERSION :: u64 where
  "PRESENCE_WIRE_VERSION = 2"

definition presence_invalid_room_response :: answer where
  "presence_invalid_room_response =
     error_answer 400 ''ERR_INVALID_ROOM'' ''presence requires ?room=<identity>-<box>''"

definition presence_route_response :: "string \<Rightarrow> hub_verdict \<Rightarrow> answer" where
  "presence_route_response room verdict =
     (case verdict of
        Fault hop hub_status _ \<Rightarrow>
          (JObj ([(''status'', JStr ''error''), (''code'', JStr PRESENCE_UNAVAILABLE_CODE), (''hop'', JStr (hop_as_str hop)),
             (''room'', JStr room),
             (''description'', JStr (''presence could not be read (the owner hub's '' @ hop_as_str hop @
                '' hop failed); this is NOT an absence''))] @
             (case hub_status of Some s \<Rightarrow> [(''hubStatus'', JInt (int s))] | None \<Rightarrow> [])), 503)
      | Answered present last_seen deadline \<Rightarrow>
          (JObj ([(''status'', JStr ''success''), (''room'', JStr room),
             (''present'', case present of Some p \<Rightarrow> JBool p | None \<Rightarrow> JNull),
             (''presenceWire'', JInt (int PRESENCE_WIRE_VERSION))] @
             (case last_seen of Some ms \<Rightarrow> [(''lastSeenMs'', JInt (int ms))] | None \<Rightarrow> []) @
             (case deadline of Some ms \<Rightarrow> [(''rejoinDeadlineMs'', JInt (int ms))] | None \<Rightarrow> [])), 200))"

definition split_once :: "char \<Rightarrow> string \<Rightarrow> (string \<times> string) option" where
  "split_once c s = (if c \<in> set s then Some (takeWhile (\<lambda>x. x \<noteq> c) s, tl (dropWhile (\<lambda>x. x \<noteq> c) s)) else None)"

definition query_value :: "string \<Rightarrow> (string \<times> string) list \<Rightarrow> string option" where
  "query_value name params = map_option snd (find (\<lambda>p. fst p = name) params)"

definition is_owner_key :: "string \<Rightarrow> bool" where
  "is_owner_key owner \<longleftrightarrow> length owner = 66 \<and> list_all is_ascii_hexdigit owner"

text \<open>The owner's hub through the Worker's namespace: what each hop comes to.\<close>

datatype hub_leg = NoNamespace string | NoStub string | NoUrl string | FetchError string
  | HubReplied http_status "string + json"

fun worker_presence_ask :: "hub_leg \<Rightarrow> hub_answer" where
  "worker_presence_ask (NoNamespace e) = Inl (HopNamespace, e)"
| "worker_presence_ask (NoStub e) = Inl (HopStub, e)"
| "worker_presence_ask (NoUrl e) = Inl (HopFetch, e)"
| "worker_presence_ask (FetchError e) = Inl (HopFetch, e)"
| "worker_presence_ask (HubReplied status body) = Inr (status, body)"

definition handle_presence_route ::
  "(json \<Rightarrow> string) \<Rightarrow> (string \<Rightarrow> string \<Rightarrow> hub_leg) \<Rightarrow> (string \<times> string) list \<Rightarrow> presence_counters \<Rightarrow>
     answer \<times> string list \<times> presence_counters" where
  "handle_presence_route json_text ask params c =
     (let room = (case query_value ''room'' params of Some r \<Rightarrow> r | None \<Rightarrow> []);
          owner = (case split_once (CHR ''-'') room of Some (i, _) \<Rightarrow> i | None \<Rightarrow> [])
      in if \<not> is_owner_key owner then (presence_invalid_room_response, [], c)
         else let verdict = classify_hub_answer json_text (worker_presence_ask (ask owner room))
              in (presence_route_response room verdict, log_presence_verdict verdict room,
                  count_presence_verdict verdict c))"

subsection \<open>Rooms\<close>

definition LOBBY_ROOM_PREFIX :: string where "LOBBY_ROOM_PREFIX = ''low_lobby_''"
definition GAME_ROOM_PREFIX :: string where "GAME_ROOM_PREFIX = ''low_game_''"
definition EVENTS_BOX :: string where "EVENTS_BOX = ''low_events''"

definition strip_prefix :: "string \<Rightarrow> string \<Rightarrow> string option" where
  "strip_prefix p s = (if starts_with p s then Some (drop (length p) s) else None)"

definition split_owner_room :: "string \<Rightarrow> (string \<times> string) option" where
  "split_owner_room room =
     (case split_once (CHR ''-'') room of
        Some (owner, trailer) \<Rightarrow> if is_owner_key owner \<and> trailer \<noteq> [] then Some (owner, trailer) else None
      | None \<Rightarrow> None)"

definition is_game_id :: "string \<Rightarrow> bool" where
  "is_game_id gid \<longleftrightarrow> length gid = 64 \<and> list_all is_ascii_hexdigit gid"

definition is_lobby_room :: "string \<Rightarrow> bool" where
  "is_lobby_room room =
     (case split_owner_room room of
        Some (_, trailer) \<Rightarrow> (case strip_prefix LOBBY_ROOM_PREFIX trailer of Some gid \<Rightarrow> is_game_id gid | None \<Rightarrow> False)
      | None \<Rightarrow> False)"

definition lobby_departure_body :: "string \<Rightarrow> string \<Rightarrow> ms \<Rightarrow> json option" where
  "lobby_departure_body room leaver at_ms =
     (case split_owner_room room of
        None \<Rightarrow> None
      | Some (owner, trailer) \<Rightarrow>
          (case strip_prefix LOBBY_ROOM_PREFIX trailer of
             None \<Rightarrow> None
           | Some game_id \<Rightarrow>
               if game_id = [] then None
               else Some (JObj [(''kind'', JStr ''lobby''), (''at'', JInt (int at_ms)),
                 (''changes'', JArr [JObj [(''kind'', JStr ''host-left''), (''hostIdentity'', JStr owner),
                    (''leaver'', JStr leaver), (''gameId'', JStr game_id), (''room'', JStr room)]])])))"

definition eq_ignore_ascii_case :: "string \<Rightarrow> string \<Rightarrow> bool" where
  "eq_ignore_ascii_case a b \<longleftrightarrow> to_ascii_lowercase a = to_ascii_lowercase b"

definition ladder_event_push_body :: "string \<Rightarrow> string \<Rightarrow> string \<Rightarrow> ms \<Rightarrow> ms \<Rightarrow> json option" where
  "ladder_event_push_body owner peer room deadline_ms at_ms =
     (case split_owner_room room of
        None \<Rightarrow> None
      | Some (room_owner, trailer) \<Rightarrow>
          if room_owner \<noteq> owner then None
          else case strip_prefix GAME_ROOM_PREFIX trailer of
            None \<Rightarrow> None
          | Some game_id \<Rightarrow>
              if \<not> is_game_id game_id then None
              else if \<not> is_valid_pubkey peer \<or> eq_ignore_ascii_case peer owner then None
              else Some (JObj [(''sender'', JStr owner), (''recipient'', JStr peer), (''messageBox'', JStr EVENTS_BOX),
                (''body'', JObj [(''v'', JInt 1), (''kind'', JStr ''ladder''), (''gameId'', JStr game_id),
                   (''stayer'', JStr owner), (''deadlineMs'', JInt (int deadline_ms)), (''at'', JInt (int at_ms))])]))"

subsection \<open>First-party boxes and the push body\<close>

definition is_first_party_box :: "string \<Rightarrow> bool" where
  "is_first_party_box name \<longleftrightarrow> name = EVENTS_BOX \<or> starts_with ''broadcast-'' name"

definition first_party_box_reason :: "string \<Rightarrow> string option" where
  "first_party_box_reason name =
     (if is_first_party_box name
      then Some (''message box ''  @ [CHR 0x27] @ name @ [CHR 0x27] @ '' is first-party: only the service push may write it'')
      else None)"

definition first_party_box_refusal :: "json \<Rightarrow> answer option" where
  "first_party_box_refusal body =
     (let message = (case get_member ''message'' body of Some m \<Rightarrow> m | None \<Rightarrow> body)
      in case Option.bind (get_member ''messageBox'' message) as_str of
           None \<Rightarrow> None
         | Some name \<Rightarrow> map_option (error_answer 403 ''ERR_FIRST_PARTY_BOX'') (first_party_box_reason name))"

text \<open>
  The Worker's \<open>POST /sendMessage\<close> up to the handler: the body read once, the first-party boxes
  refused, then validated (\<open>None\<close> is the reader's panic).
\<close>

definition send_door :: "(string \<Rightarrow> json option) \<Rightarrow> (bytes \<Rightarrow> string) \<Rightarrow> string \<Rightarrow> validated_send val_result option" where
  "send_door parse_json hex raw =
     map_option (\<lambda>r. case r of
         Inl no \<Rightarrow> Inl no
       | Inr body \<Rightarrow> (case first_party_box_refusal body of Some no \<Rightarrow> Inl no | None \<Rightarrow> validate_send_value body))
       (read_send_body parse_json hex raw)"

definition take_member :: "string \<Rightarrow> (string \<times> json) list \<Rightarrow> json option \<times> (string \<times> json) list" where
  "take_member k ms = (map_of ms k, drop_member k ms)"

definition member_list :: "string \<Rightarrow> json option \<Rightarrow> (string \<times> json) list" where
  "member_list k v = (case v of Some x \<Rightarrow> [(k, x)] | None \<Rightarrow> [])"

definition wrap_push :: "(json \<Rightarrow> string) \<Rightarrow> (string \<Rightarrow> string) \<Rightarrow> string \<Rightarrow> ms \<Rightarrow> (string \<times> json) list \<Rightarrow> (string \<times> json) list" where
  "wrap_push json_text sha_hex sender now_ms obj =
     (if map_of obj ''message'' \<noteq> None then obj
      else let (recipient, obj) = take_member ''recipient'' obj;
               (message_box, obj) = take_member ''messageBox'' obj;
               (body, obj) = take_member ''body'' obj;
               message = member_list ''recipient'' recipient @ member_list ''messageBox'' message_box @ member_list ''body'' body;
               (mid, obj) = take_member ''messageId'' obj;
               message = message @ [(''messageId'', case mid of
                  Some v \<Rightarrow> v
                | None \<Rightarrow> JStr (sha_hex (sender @ json_text (JObj message) @ nat_text now_ms)))]
           in put_member ''message'' (JObj message) obj)"

definition split_push_body ::
  "(string \<Rightarrow> string + json) \<Rightarrow> (json \<Rightarrow> string) \<Rightarrow> (string \<Rightarrow> string) \<Rightarrow> string \<Rightarrow> ms \<Rightarrow> string + string \<times> json" where
  "split_push_body parse json_text sha_hex raw now_ms =
     (case parse raw of
        Inl e \<Rightarrow> Inl (''push body is not JSON: '' @ e)
      | Inr (JObj obj) \<Rightarrow>
          (let (s, obj) = take_member ''sender'' obj
           in case map_option to_ascii_lowercase (Option.bind s as_str) of
                None \<Rightarrow> Inl ''push body needs a `sender` identity key''
              | Some sender \<Rightarrow>
                  if \<not> is_valid_pubkey sender then Inl ''push `sender` must be a 33-byte compressed pubkey hex''
                  else Inr (sender, JObj (wrap_push json_text sha_hex sender now_ms obj)))
      | Inr _ \<Rightarrow> Inl ''push body must be a JSON object'')"

subsection \<open>The fan-out\<close>

datatype push_outcome = Delivered | NoSocket | TimedOut | Failed | Skipped

definition BROADCAST_FANOUT_CONCURRENCY :: nat where "BROADCAST_FANOUT_CONCURRENCY = 32"
definition BROADCAST_FANOUT_WALL_BUDGET_MS :: ms where "BROADCAST_FANOUT_WALL_BUDGET_MS = 15000"
definition BROADCAST_FANOUT_CAP :: nat where "BROADCAST_FANOUT_CAP = 500"

record fan_out =
  fo_subscribers :: nat
  fo_delivered :: nat
  fo_no_socket :: nat
  fo_timed_out :: nat
  fo_failed :: nat
  fo_skipped :: nat

fun tally_one :: "push_outcome \<Rightarrow> fan_out \<Rightarrow> fan_out" where
  "tally_one Delivered t = t\<lparr>fo_delivered := fo_delivered t + 1\<rparr>"
| "tally_one NoSocket t = t\<lparr>fo_no_socket := fo_no_socket t + 1\<rparr>"
| "tally_one TimedOut t = t\<lparr>fo_timed_out := fo_timed_out t + 1\<rparr>"
| "tally_one Failed t = t\<lparr>fo_failed := fo_failed t + 1\<rparr>"
| "tally_one Skipped t = t\<lparr>fo_skipped := fo_skipped t + 1\<rparr>"

definition tally :: "nat \<Rightarrow> push_outcome list \<Rightarrow> fan_out" where
  "tally subscribers outcomes =
     fold tally_one outcomes \<lparr>fo_subscribers = subscribers, fo_delivered = 0, fo_no_socket = 0, fo_timed_out = 0,
       fo_failed = 0, fo_skipped = 0\<rparr>"

text \<open>The window's polls: each poll resolves the futures that are ready, in order, and keeps the rest.\<close>

type_synonym 'o future = "nat \<times> 'o"

function join_window :: "(nat \<times> 'o future) list \<Rightarrow> 'o list \<Rightarrow> 'o list" where
  "join_window futs out =
     (if futs = [] then out
      else join_window (map (\<lambda>(i, n, o1). (i, n - 1, o1)) (filter (\<lambda>(i, n, o1). n \<noteq> 0) futs))
             (fold (\<lambda>(i, n, o1) out. out[i := o1]) (filter (\<lambda>(i, n, o1). n = 0) futs) out))"
  by pat_completeness auto
termination
proof (relation "measure (\<lambda>(futs, out). sum_list (map (\<lambda>(i, n, o1). Suc n) futs))")
  fix futs :: "(nat \<times> 'o future) list" and out :: "'o list"
  let ?step = "map (\<lambda>(i, n, o1). (i, n - 1, o1)) (filter (\<lambda>(i, n, o1). n \<noteq> 0) futs)"
  have "sum_list (map (\<lambda>(i, n, o1). Suc n) (map (\<lambda>(i, n, o1). (i, n - 1, o1)) (filter (\<lambda>(i, n, o1). n \<noteq> 0) fs)))
      \<le> sum_list (map (\<lambda>(i, n, o1). Suc n) fs)" for fs :: "(nat \<times> 'o future) list"
    by (induction fs) auto
  moreover assume "futs \<noteq> []"
  ultimately have "sum_list (map (\<lambda>(i, n, o1). Suc n) ?step) < sum_list (map (\<lambda>(i, n, o1). Suc n) futs)"
    by (cases futs) (auto intro!: le_imp_less_Suc simp: le_imp_less_Suc add_strict_increasing2 trans_le_add2)
  then show "((?step, fold (\<lambda>(i, n, o1) out. out[i := o1]) (filter (\<lambda>(i, n, o1). n = 0) futs) out), (futs, out))
      \<in> measure (\<lambda>(futs, out). sum_list (map (\<lambda>(i, n, o1). Suc n) futs))" by simp
qed simp

declare join_window.simps [simp del]

text \<open>The clock's readings to come, the pushes made (subscriber and attempt), the outcomes.\<close>

record fan =
  fn_clock :: "ms list"
  fn_pushed :: "(nat \<times> nat) list"
  fn_out :: "push_outcome list"

definition fan_now :: "fan \<Rightarrow> ms \<times> fan" where
  "fan_now s = ((case fn_clock s of t # _ \<Rightarrow> t | [] \<Rightarrow> 0), s\<lparr>fn_clock := tl (fn_clock s)\<rparr>)"

primrec drive_windows ::
  "(nat \<Rightarrow> nat \<Rightarrow> push_outcome future) \<Rightarrow> ms \<Rightarrow> nat \<Rightarrow> nat list list \<Rightarrow> fan \<Rightarrow> fan" where
  "drive_windows push deadline_ms attempt [] s = s"
| "drive_windows push deadline_ms attempt (window # windows) s =
     (let (now, s) = fan_now s
      in if deadline_ms \<le> now then s
         else drive_windows push deadline_ms attempt windows
           (s\<lparr>fn_pushed := fn_pushed s @ map (\<lambda>i. (i, attempt)) window,
              fn_out := join_window (map (\<lambda>i. (i, push i attempt)) window) (fn_out s)\<rparr>))"

definition fan_out_with :: "nat \<Rightarrow> nat \<Rightarrow> ms list \<Rightarrow> ms \<Rightarrow> (nat \<Rightarrow> nat \<Rightarrow> push_outcome future) \<Rightarrow> fan" where
  "fan_out_with count width clock deadline_ms push =
     (let s = drive_windows push deadline_ms 0 (chunks (max width 1) [0 ..< count])
                \<lparr>fn_clock = clock, fn_pushed = [], fn_out = replicate count Skipped\<rparr>;
          retry = filter (\<lambda>i. fn_out s ! i = TimedOut) [0 ..< count]
      in if retry = [] then s
         else let (now, s) = fan_now s
              in if now < deadline_ms then drive_windows push deadline_ms 1 (chunks (max width 1) retry) s else s)"

text \<open>One hub's answer to a push: no stub or request, the bound fired, the fetch failed, or a response.\<close>

datatype push_leg = PushNoStub | PushBound | PushError | PushReplied http_status "json option"

definition classify_push_answer :: "http_status \<Rightarrow> json option \<Rightarrow> push_outcome" where
  "classify_push_answer code body =
     (if \<not> (200 \<le> code \<and> code < 300) then Failed
      else case body of
        Some v \<Rightarrow>
          (let n = (\<lambda>k. case Option.bind (get_member k v) as_u64 of Some x \<Rightarrow> x | None \<Rightarrow> 0)
           in if 1 \<le> (n ''delivered'' + n ''socketioDelivered'') mod 2 ^ 64 then Delivered else NoSocket)
      | None \<Rightarrow> Delivered)"

fun push_leg_outcome :: "push_leg \<Rightarrow> push_outcome" where
  "push_leg_outcome PushNoStub = Failed"
| "push_leg_outcome PushBound = TimedOut"
| "push_leg_outcome PushError = Failed"
| "push_leg_outcome (PushReplied code body) = classify_push_answer code body"

text \<open>The shards in order: one with no stub is passed over, one that fails is a partial fan-out.\<close>

datatype shard_leg = ShardNoStub | ShardError string | ShardReplied "json option"

fun shard_identities :: "shard_leg \<Rightarrow> string list" where
  "shard_identities (ShardReplied (Some v)) =
     (case get_member ''identities'' v of
        Some (JArr xs) \<Rightarrow> if list_all (\<lambda>x. as_str x \<noteq> None) xs then List.map_filter as_str xs else []
      | _ \<Rightarrow> [])"
| "shard_identities _ = []"

definition fan_out_broadcast ::
  "bool \<Rightarrow> (char \<Rightarrow> shard_leg) \<Rightarrow> bool \<Rightarrow> ms list \<Rightarrow> (string \<Rightarrow> nat \<Rightarrow> push_leg future) \<Rightarrow> fan_out" where
  "fan_out_broadcast registry shard namespace clock leg =
     (if \<not> registry then tally 0 []
      else let identities = concat (map (\<lambda>c. shard_identities (shard c)) ''0123456789abcdef'')
           in if \<not> namespace then tally (length identities) []
              else let identities = take BROADCAST_FANOUT_CAP identities;
                       started = (case clock of _ # t # _ \<Rightarrow> t | _ \<Rightarrow> 0);
                       push = (\<lambda>i a. let (n, r) = leg (identities ! i) a in (n, push_leg_outcome r))
                   in tally (length identities)
                        (fn_out (fan_out_with (length identities) BROADCAST_FANOUT_CONCURRENCY (drop 2 clock)
                           (started + BROADCAST_FANOUT_WALL_BUDGET_MS) push)))"

subsection \<open>The forward's retry\<close>

definition FORWARD_OP_TIMEOUT_MS :: ms where "FORWARD_OP_TIMEOUT_MS = 3000"
definition FORWARD_ATTEMPTS :: nat where "FORWARD_ATTEMPTS = 2"
definition OP_TIMEOUT_MARKER :: string where "OP_TIMEOUT_MARKER = ''subrequest exceeded''"

definition is_op_timeout :: "string \<Rightarrow> bool" where
  "is_op_timeout e = contains OP_TIMEOUT_MARKER e"

definition run_forward_with_retry :: "(nat \<Rightarrow> 'a list option) \<Rightarrow> 'a list" where
  "run_forward_with_retry attempt =
     (case List.find (\<lambda>i. attempt i \<noteq> None) [0 ..< FORWARD_ATTEMPTS] of
        Some i \<Rightarrow> the (attempt i)
      | None \<Rightarrow> [])"

subsection \<open>The registry\<close>

definition FRESH_MS :: ms where "FRESH_MS = 30 * 60 * 1000"
definition REGISTRY_REFRESH_EVERY_MS :: ms where "REGISTRY_REFRESH_EVERY_MS = 175000"

definition registry_shard :: "string \<Rightarrow> string" where
  "registry_shard identity = ''v1:'' @ (case first_char identity of Some (c, _) \<Rightarrow> c | None \<Rightarrow> ''0'')"

text \<open>The entries in storage order, and whether each delete to come fails.\<close>

record registry =
  rg_entries :: "(string \<times> ms) list"
  rg_lost :: "bool list"

definition registry_put :: "string \<Rightarrow> ms \<Rightarrow> registry \<Rightarrow> registry" where
  "registry_put k t r =
     r\<lparr>rg_entries := (if map_of (rg_entries r) k = None then rg_entries r @ [(k, t)]
        else update_where (\<lambda>e. fst e = k) (\<lambda>e. (k, t)) (rg_entries r))\<rparr>"

definition registry_register :: "string option \<Rightarrow> ms \<Rightarrow> registry \<Rightarrow> http_status \<times> registry" where
  "registry_register body now r =
     (case body of
        None \<Rightarrow> (400, r)
      | Some identity \<Rightarrow> if \<not> is_owner_key identity then (400, r) else (200, registry_put identity now r))"

definition registry_delete :: "string \<Rightarrow> registry \<Rightarrow> registry" where
  "registry_delete k r =
     (let r1 = r\<lparr>rg_lost := tl (rg_lost r)\<rparr>
      in case rg_lost r of
           True # _ \<Rightarrow> r1
         | _ \<Rightarrow> r1\<lparr>rg_entries := filter (\<lambda>e. fst e \<noteq> k) (rg_entries r1)\<rparr>)"

definition registry_list :: "ms \<Rightarrow> registry \<Rightarrow> string list \<times> registry" where
  "registry_list now r =
     (let fresh = (\<lambda>e. saturating_sub now (snd e) \<le> FRESH_MS)
      in (map fst (filter fresh (rg_entries r)),
          fold registry_delete (map fst (filter (\<lambda>e. \<not> fresh e) (rg_entries r))) r))"

end
