(* ===== verification/Permission_Routes.thy ===== *)
theory Permission_Routes
  imports Presence D1_Store
begin

section \<open>The permission routes\<close>

text \<open>
  \<open>src/src/permissions.rs\<close>: \<open>/permissions/set\<close>, \<open>get\<close>, \<open>list\<close> and \<open>quote\<close> over the storage of
  \<open>D1_Store\<close>. The JSON reader is an argument, with the integer a fractional number's text stands for
  (\<open>whole\<close>, \<open>None\<close> when it is no integer); a query is the list of its decoded pairs. Sums of fees are
  \<open>i32\<close> and wrap.
\<close>

definition fee_to_status :: "int \<Rightarrow> string" where
  "fee_to_status fee = (if fee = -1 then ''blocked'' else if fee = 0 then ''always_allow'' else ''payment_required'')"

text \<open>\<open>str::chars().nth\<close>, and \<open>storage::to_iso8601\<close>.\<close>

primrec nth_char :: "nat \<Rightarrow> string \<Rightarrow> string option" where
  "nth_char 0 s = map_option fst (first_char s)"
| "nth_char (Suc n) s = (case first_char s of Some (_, r) \<Rightarrow> nth_char n r | None \<Rightarrow> None)"

definition to_iso8601 :: "string option \<Rightarrow> string" where
  "to_iso8601 sqlite_ts =
     (case sqlite_ts of
        None \<Rightarrow> []
      | Some s \<Rightarrow>
          if CHR ''T'' \<in> set s \<and> (s \<noteq> [] \<and> last s = CHR ''Z'' \<or> CHR ''+'' \<in> set s) then s
          else let t = trim s
               in if length t = 19 \<and> nth_char 10 t = Some '' ''
                  then (case split_once (CHR '' '') t of Some (a, b) \<Rightarrow> a @ ''T'' @ b | None \<Rightarrow> t) @ ''.000Z''
                  else t)"

definition row_fee :: "permission_db_row \<Rightarrow> int" where
  "row_fee row = (case pr_recipient_fee row of Some v \<Rightarrow> i32_of_f64 v | None \<Rightarrow> 0)"

definition opt_str :: "string option \<Rightarrow> json" where
  "opt_str s = (case s of Some v \<Rightarrow> JStr v | None \<Rightarrow> JNull)"

definition format_permission :: "permission_db_row \<Rightarrow> json" where
  "format_permission row =
     JObj [(''sender'', opt_str (pr_sender row)),
       (''messageBox'', JStr (case pr_message_box row of Some b \<Rightarrow> b | None \<Rightarrow> [])),
       (''recipientFee'', JInt (row_fee row)), (''status'', JStr (fee_to_status (row_fee row))),
       (''createdAt'', JStr (to_iso8601 (pr_created_at row))), (''updatedAt'', JStr (to_iso8601 (pr_updated_at row)))]"

definition set_description :: "string option \<Rightarrow> string \<Rightarrow> int \<Rightarrow> string" where
  "set_description sender message_box fee =
     (case sender of
        None \<Rightarrow>
          ''Box-wide default for all senders to '' @ message_box @
          (if fee = -1 then '' is now blocked.'' else if fee = 0 then '' is now always allowed.''
           else '' now requires '' @ int_text fee @ '' satoshis.'')
      | Some s \<Rightarrow>
          ''Messages from '' @ s @ '' to '' @ message_box @
          (if fee = -1 then '' are now blocked.'' else if fee = 0 then '' are now always allowed.''
           else '' now require '' @ int_text fee @ '' satoshis.''))"

subsection \<open>Set\<close>

fun is_number :: "json \<Rightarrow> bool" where
  "is_number (JInt _) = True"
| "is_number (JFloat _) = True"
| "is_number _ = False"

fun whole_number :: "(string \<Rightarrow> int option) \<Rightarrow> json \<Rightarrow> int option" where
  "whole_number whole (JInt i) = Some (js_number i)"
| "whole_number whole (JFloat t) = whole t"
| "whole_number whole _ = None"

definition SET_REQUIRED :: answer where
  "SET_REQUIRED = error_answer 400 ''ERR_INVALID_REQUEST''
     ''messageBox (string) and recipientFee (number) are required. sender (string) is optional for box-wide settings.''"

definition INVALID_SENDER :: answer where
  "INVALID_SENDER = error_answer 400 ''ERR_INVALID_PUBLIC_KEY'' ''Invalid sender public key format.''"

definition DATABASE_ERROR :: answer where
  "DATABASE_ERROR = error_answer 500 ''ERR_DATABASE_ERROR'' ''Failed to update message permission.''"

text \<open>The request's checks, up to the fee, the sender and the box it sets.\<close>

definition read_set :: "(string \<Rightarrow> json option) \<Rightarrow> (string \<Rightarrow> int option) \<Rightarrow> string \<Rightarrow> answer + string option \<times> string \<times> int" where
  "read_set parse whole raw =
     (case parse raw of
        None \<Rightarrow> Inl SET_REQUIRED
      | Some body \<Rightarrow>
          (case (get_member ''messageBox'' body, get_member ''recipientFee'' body) of
             (Some box_val, Some fee_val) \<Rightarrow>
               if \<not> is_number fee_val then Inl SET_REQUIRED
               else let sender = Option.bind (get_member ''sender'' body) as_str
                    in if (case sender of Some s \<Rightarrow> \<not> is_valid_pubkey s | None \<Rightarrow> False) then Inl INVALID_SENDER
                       else (case whole_number whole fee_val of
                          None \<Rightarrow> Inl (error_answer 400 ''ERR_INVALID_FEE_VALUE''
                                    ''recipientFee must be an integer (-1, 0, or positive number).'')
                        | Some n \<Rightarrow>
                            (case as_str box_val of
                               Some b \<Rightarrow>
                                 if trim b = [] then Inl (error_answer 400 ''ERR_INVALID_MESSAGE_BOX'' ''messageBox must be a non-empty string.'')
                                 else Inr (sender, b, i32_of_f64 n)
                             | None \<Rightarrow> Inl (error_answer 400 ''ERR_INVALID_MESSAGE_BOX'' ''messageBox must be a non-empty string.'')))
           | _ \<Rightarrow> Inl SET_REQUIRED))"

definition handle_set ::
  "(string \<Rightarrow> json option) \<Rightarrow> (string \<Rightarrow> int option) \<Rightarrow> string \<Rightarrow> string \<Rightarrow> d1_db \<Rightarrow> answer \<times> d1_db" where
  "handle_set parse whole raw identity_key db =
     (case read_set parse whole raw of
        Inl no \<Rightarrow> (no, db)
      | Inr (sender, message_box, fee) \<Rightarrow>
          (case set_permission identity_key sender message_box fee db of
             (Inr True, db) \<Rightarrow>
               ((JObj [(''status'', JStr ''success''), (''description'', JStr (set_description sender message_box fee))], 200), db)
           | (_, db) \<Rightarrow> (DATABASE_ERROR, db)))"

subsection \<open>Get\<close>

definition internal_error :: "d1_error \<Rightarrow> answer" where
  "internal_error e = error_answer 500 ''ERR_INTERNAL'' (''Internal error: '' @ error_text e)"

definition nonempty :: "string option \<Rightarrow> string option" where
  "nonempty s = (case s of Some v \<Rightarrow> if v = [] then None else Some v | None \<Rightarrow> None)"

definition handle_get :: "(string \<times> string) list \<Rightarrow> string \<Rightarrow> d1_db \<Rightarrow> answer \<times> d1_db" where
  "handle_get params identity_key db =
     (case nonempty (query_value ''messageBox'' params) of
        None \<Rightarrow> (error_answer 400 ''ERR_MISSING_PARAMETERS'' ''messageBox parameter is required.'', db)
      | Some message_box \<Rightarrow>
          (let sender = nonempty (query_value ''sender'' params)
           in if (case sender of Some s \<Rightarrow> \<not> is_valid_pubkey s | None \<Rightarrow> False) then (INVALID_SENDER, db)
              else case get_permission identity_key sender message_box db of
                (Inl e, db) \<Rightarrow> (internal_error e, db)
              | (Inr (Some perm), db) \<Rightarrow>
                  ((JObj [(''status'', JStr ''success''),
                     (''description'', JStr (case sender of
                        Some s \<Rightarrow> ''Permission setting found for sender '' @ s @ '' to '' @ message_box @ ''.''
                      | None \<Rightarrow> ''Box-wide permission setting found for '' @ message_box @ ''.'')),
                     (''permission'', format_permission perm)], 200), db)
              | (Inr None, db) \<Rightarrow>
                  ((JObj [(''status'', JStr ''success''),
                     (''description'', JStr (case sender of
                        Some s \<Rightarrow> ''No permission setting found for sender '' @ s @ '' to '' @ message_box @ ''.''
                      | None \<Rightarrow> ''No box-wide permission setting found for '' @ message_box @ ''.'')),
                     (''permission'', JNull)], 200), db)))"

subsection \<open>List\<close>

definition handle_list_permissions :: "(string \<times> string) list \<Rightarrow> string \<Rightarrow> d1_db \<Rightarrow> answer \<times> d1_db" where
  "handle_list_permissions params identity_key db =
     (let or_else_n = (\<lambda>v d. case Option.bind v parse_u32 of Some n \<Rightarrow> n | None \<Rightarrow> d);
          limit = or_else_n (query_value ''limit'' params) 100;
          offset = or_else_n (query_value ''offset'' params) 0
      in if \<not> (1 \<le> limit \<and> limit \<le> 1000)
         then (error_answer 400 ''ERR_INVALID_LIMIT'' ''Limit must be a number between 1 and 1000'', db)
         else if (case query_value ''offset'' params of Some s \<Rightarrow> parse_u32 s = None | None \<Rightarrow> False)
         then (error_answer 400 ''ERR_INVALID_OFFSET'' ''Offset must be a non-negative number'', db)
         else case list_permissions identity_key (nonempty (query_value ''messageBox'' params)) limit offset
                (query_value ''createdAtOrder'' params = Some ''asc'') db of
           (Inl e, db) \<Rightarrow>
             (error_answer 500 ''ERR_LIST_PERMISSIONS_FAILED'' (''Failed to list permissions: '' @ error_text e), db)
         | (Inr (rows, held), db) \<Rightarrow>
             ((JObj [(''status'', JStr ''success''),
                (''permissions'', JArr (map (\<lambda>row. JObj [(''sender'', opt_str (pr_sender row)),
                   (''messageBox'', JStr (case pr_message_box row of Some b \<Rightarrow> b | None \<Rightarrow> [])),
                   (''recipientFee'', JInt (row_fee row)), (''createdAt'', JStr (to_iso8601 (pr_created_at row))),
                   (''updatedAt'', JStr (to_iso8601 (pr_updated_at row)))]) rows)),
                (''totalCount'', JInt (int held))], 200), db))"

subsection \<open>Quote\<close>

definition i32_wrap :: "int \<Rightarrow> int" where
  "i32_wrap i = (i + 2 ^ 31) mod 2 ^ 32 - 2 ^ 31"

record quote =
  q_quotes :: "json list"
  q_blocked :: "string list"
  q_total :: int

definition quote_one :: "string \<Rightarrow> int \<Rightarrow> string \<Rightarrow> int \<Rightarrow> quote \<Rightarrow> quote" where
  "quote_one message_box delivery_fee r fee q =
     q\<lparr>q_quotes := q_quotes q @ [JObj [(''recipient'', JStr r), (''messageBox'', JStr message_box),
          (''deliveryFee'', JInt delivery_fee), (''recipientFee'', JInt fee), (''status'', JStr (fee_to_status fee))]],
       q_blocked := (if fee = -1 then q_blocked q @ [r] else q_blocked q),
       q_total := (if 0 < fee then i32_wrap (q_total q + fee) else q_total q)\<rparr>"

primrec quote_loop :: "string \<Rightarrow> int \<Rightarrow> string \<Rightarrow> string list \<Rightarrow> quote \<Rightarrow> quote d1" where
  "quote_loop message_box delivery_fee sender [] q db = (Inr q, db)"
| "quote_loop message_box delivery_fee sender (r # rs) q db =
     andThen (get_recipient_fee r sender message_box db)
       (\<lambda>fee. quote_loop message_box delivery_fee sender rs (quote_one message_box delivery_fee r fee q))"

definition QUOTE_REQUIRED :: answer where
  "QUOTE_REQUIRED = error_answer 400 ''ERR_MISSING_PARAMETERS'' ''recipient and messageBox parameters are required.''"

definition handle_quote :: "(string \<times> string) list \<Rightarrow> string \<Rightarrow> d1_db \<Rightarrow> answer \<times> d1_db" where
  "handle_quote params identity_key db =
     (case nonempty (query_value ''messageBox'' params) of
        None \<Rightarrow> (QUOTE_REQUIRED, db)
      | Some message_box \<Rightarrow>
          (let recipients = map snd (filter (\<lambda>p. fst p = ''recipient'') params);
               invalid = map fst (filter (\<lambda>(i, r). \<not> is_valid_pubkey r) (enumerate 0 recipients))
           in if recipients = [] then (QUOTE_REQUIRED, db)
              else if invalid \<noteq> []
              then (error_answer 400 ''ERR_INVALID_PUBLIC_KEY''
                      (''Invalid recipient public key at index(es): '' @ join '', '' (map nat_text invalid) @ ''.''), db)
              else case get_server_delivery_fee message_box db of
                (Inl e, db) \<Rightarrow> (internal_error e, db)
              | (Inr delivery_fee, db) \<Rightarrow>
                  (case recipients of
                     [r] \<Rightarrow>
                       (case get_recipient_fee r identity_key message_box db of
                          (Inl e, db) \<Rightarrow> (internal_error e, db)
                        | (Inr fee, db) \<Rightarrow>
                            ((JObj [(''status'', JStr ''success''), (''description'', JStr ''Message delivery quote generated.''),
                               (''quote'', JObj [(''deliveryFee'', JInt delivery_fee), (''recipientFee'', JInt fee)])], 200), db))
                   | _ \<Rightarrow>
                       (case quote_loop message_box delivery_fee identity_key recipients
                               \<lparr>q_quotes = [], q_blocked = [], q_total = 0\<rparr> db of
                          (Inl e, db) \<Rightarrow> (internal_error e, db)
                        | (Inr q, db) \<Rightarrow>
                            (let delivery = i32_wrap (delivery_fee * i32_wrap (int (length recipients)))
                             in ((JObj [(''status'', JStr ''success''),
                                  (''description'', JStr (''Message delivery quotes generated for '' @ nat_text (length recipients) @ '' recipients.'')),
                                  (''quotesByRecipient'', JArr (q_quotes q)),
                                  (''totals'', JObj [(''deliveryFees'', JInt delivery), (''recipientFees'', JInt (q_total q)),
                                     (''totalForPayableRecipients'', JInt (i32_wrap (delivery + q_total q)))]),
                                  (''blockedRecipients'', JArr (map JStr (q_blocked q)))], 200), db))))))"

end
