(* ===== verification/Presence_Props.thy ===== *)
theory Presence_Props
  imports Presence Machine "HOL-Library.Code_Target_Numeral"
begin

section \<open>Presence: what an answer says, and how far a broadcast reaches\<close>

text \<open>
  What a presence answer says of the hub's own verdict, the first-party guard against the validator,
  the broadcast registry as a machine whose recent entries stay listed (an interpretation of \<open>kept\<close>),
  and how often a fan-out pushes whom.
\<close>

subsection \<open>The presence read\<close>

text \<open>The hub's own verdict: a 200 whose JSON has a boolean or null \<open>present\<close>.\<close>

definition hub_said :: "hub_leg \<Rightarrow> json \<Rightarrow> json \<Rightarrow> bool" where
  "hub_said leg b present \<longleftrightarrow> leg = HubReplied 200 (Inr b) \<and> get_member ''present'' b = Some present \<and>
     (present = JNull \<or> (\<exists>p. present = JBool p))"

lemma get_member_append: "get_member k (JObj (xs @ ys)) = (case map_of xs k of Some v \<Rightarrow> Some v | None \<Rightarrow> map_of ys k)"
  by (simp add: map_add_def split: option.split)

lemma answered_body:
  assumes "presence_route_response room (Answered p l d) = (body, status)"
  shows "status = 200" and "get_member ''present'' body = Some (case p of Some b \<Rightarrow> JBool b | None \<Rightarrow> JNull)"
    and "get_member ''lastSeenMs'' body = map_option (\<lambda>ms. JInt (int ms)) l"
    and "get_member ''code'' body = None"
  using assms by (auto simp: presence_route_response_def split: option.splits)

lemma fault_body:
  assumes "presence_route_response room (Fault hop hs err) = (body, status)"
  shows "status = 503" and "get_member ''present'' body = None"
    and "get_member ''code'' body = Some (JStr PRESENCE_UNAVAILABLE_CODE)" and "get_member ''hop'' body = Some (JStr (hop_as_str hop))"
  using assms by (auto simp: presence_route_response_def split: option.splits)

lemma classify_answered:
  "classify_hub_answer jt (worker_presence_ask leg) = Answered p l d \<longleftrightarrow>
     (\<exists>b. hub_said leg b (case p of Some x \<Rightarrow> JBool x | None \<Rightarrow> JNull) \<and>
        l = Option.bind (get_member ''lastSeenMs'' b) as_u64 \<and> d = Option.bind (get_member ''rejoinDeadlineMs'' b) as_u64)"
  by (cases leg) (auto simp: classify_hub_answer_def hub_said_def Let_def split: sum.splits option.splits json.splits)

text \<open>
  C25 (presence_is_read_or_refused). A presence read whose room names an owner is answered 200 exactly
  when the owner's hub answered 200 with a \<open>present\<close> that is a boolean or null, and then says that very
  value and counts only a null. Every other outcome of the hops is a 503 that names its hop, carries a
  \<open>Retry-After\<close>, holds no \<open>present\<close> at all, logs one line and counts its hop: a fault never reads as an
  absence.
\<close>

theorem presence_is_read_or_refused:
  assumes "handle_presence_route jt ask params c = ((body, status), logged, c')"
    and "query_value ''room'' params = Some (owner @ CHR ''-'' # box)" and "is_owner_key owner"
  shows "(status = 200 \<longleftrightarrow> (\<exists>b present. hub_said (ask owner (owner @ CHR ''-'' # box)) b present)) \<and>
    (\<forall>b present. hub_said (ask owner (owner @ CHR ''-'' # box)) b present \<longrightarrow>
       get_member ''present'' body = Some present \<and> presence_retry_after body status = None \<and> logged = [] \<and>
       c' = (if present = JNull then count_reason ReasonNull c else c)) \<and>
    (status \<noteq> 200 \<longrightarrow> status = 503 \<and> get_member ''present'' body = None \<and> presence_retry_after body status = Some ''5'' \<and>
       (\<exists>hop. presence_trace_reason body status = Some (hop_as_str hop) \<and> c' = count_reason (ReasonHop hop) c) \<and>
       length logged = 1)"
proof -
  let ?room = "owner @ CHR ''-'' # box"
  have "CHR ''-'' \<notin> set owner"
    using assms(3) by (auto simp: is_owner_key_def list_all_iff is_ascii_hexdigit_def)
  then have parts: "split_once (CHR ''-'') ?room = Some (owner, box)"
    by (auto simp: split_once_def takeWhile_append dropWhile_append)
  define v where "v = classify_hub_answer jt (worker_presence_ask (ask owner ?room))"
  have r: "presence_route_response ?room v = (body, status)" "logged = log_presence_verdict v ?room"
    "c' = count_presence_verdict v c"
    using assms by (auto simp: handle_presence_route_def parts v_def Let_def)
  show ?thesis
  proof (cases v)
    case (Answered p l d)
    from classify_answered [of jt "ask owner ?room" p l d] Answered obtain b where
      b: "hub_said (ask owner ?room) b (case p of Some x \<Rightarrow> JBool x | None \<Rightarrow> JNull)" by (auto simp: v_def)
    have one: "present = (case p of Some x \<Rightarrow> JBool x | None \<Rightarrow> JNull)" if "hub_said (ask owner ?room) b' present" for b' present
      using that b by (auto simp: hub_said_def)
    note a = answered_body [OF r(1) [unfolded Answered]]
    have ra: "presence_retry_after body status = None" by (simp add: presence_retry_after_def a(1))
    have cnt: "c' = (if (case p of Some x \<Rightarrow> JBool x | None \<Rightarrow> JNull) = JNull then count_reason ReasonNull c else c)"
      using r(3) Answered by (cases p) (simp_all add: count_presence_verdict_def)
    from r(2) Answered have "logged = []" by (simp add: log_presence_verdict_def)
    with a(1,2) b one ra cnt show ?thesis by metis
  next
    case (Fault hop hs err)
    have none: "\<not> hub_said (ask owner ?room) b present" for b present
    proof
      assume h: "hub_said (ask owner ?room) b present"
      then obtain p where "present = (case p of Some x \<Rightarrow> JBool x | None \<Rightarrow> JNull)"
        unfolding hub_said_def by (metis option.case(1,2))
      with h Fault classify_answered [of jt "ask owner ?room" p] show False by (auto simp: v_def)
    qed
    note f = fault_body [OF r(1) [unfolded Fault]]
    have "presence_retry_after body status = Some ''5''"
      using f(1,3) by (simp add: presence_retry_after_def PRESENCE_RETRY_AFTER_SECS_def)
    moreover have "presence_trace_reason body status = Some (hop_as_str hop)"
      using f by (simp add: presence_trace_reason_def)
    moreover have "c' = count_reason (ReasonHop hop) c" "length logged = 1"
      using r(2,3) Fault by (simp_all add: count_presence_verdict_def log_presence_verdict_def)
    ultimately show ?thesis using f(1,2) none by auto
  qed
qed

subsection \<open>First-party boxes\<close>

text \<open>
  C23 (first_party_boxes_are_guarded). The sends that pass the door are exactly those whose body is read
  and validated and whose box, as the validator stores it, is no first party's: the guard and the
  validator read the same box, so no body reaches a first-party box through the door.
\<close>

theorem first_party_boxes_are_guarded:
  "send_door parse hex raw = Some (Inr vs) \<longleftrightarrow>
     (\<exists>body. read_send_body parse hex raw = Some (Inr body) \<and> validate_send_value body = Inr vs) \<and>
     \<not> is_first_party_box (vs_message_box vs)"
proof -
  have box: "first_party_box_refusal b = map_option (error_answer 403 ''ERR_FIRST_PARTY_BOX'') (first_party_box_reason (vs_message_box vs))"
    if "validate_send_value b = Inr vs" for b
    using that by (auto simp: validate_send_value_def first_party_box_refusal_def split: option.splits if_splits sum.splits)
  have "(case first_party_box_refusal b of Some no \<Rightarrow> Inl no | None \<Rightarrow> validate_send_value b) = Inr vs \<longleftrightarrow>
      validate_send_value b = Inr vs \<and> \<not> is_first_party_box (vs_message_box vs)" for b
    using box [of b] by (cases "first_party_box_refusal b") (auto simp: first_party_box_reason_def split: if_splits)
  then show ?thesis
    by (cases "read_send_body parse hex raw"; cases "the (read_send_body parse hex raw)") (simp_all add: send_door_def)
qed

subsection \<open>The fan-out\<close>

lemma set_nth_fold:
  assumes "distinct (map fst futs)" and "\<forall>i\<in>fst ` set futs. i < length out"
  shows "fold (\<lambda>(i, n, o1) out. out[i := o1]) futs out ! j = (case map_of futs j of Some (n, o1) \<Rightarrow> o1 | None \<Rightarrow> out ! j) \<and>
    length (fold (\<lambda>(i, n, o1) out. out[i := o1]) futs out) = length out"
  using assms
proof (induction futs arbitrary: out)
  case (Cons f futs)
  obtain i n o1 where f: "f = (i, n, o1)" by (cases f)
  from Cons have "fold (\<lambda>(i, n, o1) out. out[i := o1]) futs (out[i := o1]) ! j =
      (case map_of futs j of Some (n, o1) \<Rightarrow> o1 | None \<Rightarrow> out[i := o1] ! j) \<and>
      length (fold (\<lambda>(i, n, o1) out. out[i := o1]) futs (out[i := o1])) = length (out[i := o1])"
    by (intro Cons.IH) (auto simp: f)
  moreover have "map_of futs i = None" using Cons.prems(1) by (simp add: f map_of_eq_None_iff)
  ultimately show ?case using Cons.prems(2) by (cases "j = i") (auto simp: f split: option.splits)
qed simp

text \<open>However the futures interleave, every slot of the window holds its future's outcome at the end.\<close>

lemma join_window_out:
  assumes "distinct (map fst futs)" and "\<forall>i\<in>fst ` set futs. i < length out"
  shows "join_window futs out ! j = (case map_of futs j of Some (n, o1) \<Rightarrow> o1 | None \<Rightarrow> out ! j) \<and>
    length (join_window futs out) = length out"
  using assms
proof (induction futs out rule: join_window.induct)
  case (1 futs out)
  show ?case
  proof (cases "futs = []")
    case False
    define ready where "ready = filter (\<lambda>(i, n, o1). n = 0) futs"
    define rest where "rest = map (\<lambda>(i, n, o1). (i, n - 1, o1)) (filter (\<lambda>(i, n, o1). n \<noteq> 0) futs)"
    define out1 where "out1 = fold (\<lambda>(i, n, o1) out. out[i := o1]) ready out"
    have fsts: "map fst rest = map fst (filter (\<lambda>(i, n, o1). n \<noteq> 0) futs)"
      unfolding rest_def by (induction futs) auto
    have d: "distinct (map fst rest)" "distinct (map fst ready)"
      unfolding fsts ready_def using "1.prems"(1) by (simp_all add: distinct_map_filter)
    have r: "\<forall>i\<in>fst ` set ready. i < length out" using "1.prems"(2) by (auto simp: ready_def)
    have o: "out1 ! j = (case map_of ready j of Some (n, o1) \<Rightarrow> o1 | None \<Rightarrow> out ! j)" "length out1 = length out"
      using set_nth_fold [OF d(2) r] by (simp_all add: out1_def)
    have "\<forall>i\<in>fst ` set rest. i < length out1" using "1.prems"(2) unfolding o(2) rest_def by force
    from "1.IH" [OF False, folded ready_def rest_def, folded out1_def, OF d(1) this]
    have ih: "join_window rest out1 ! j = (case map_of rest j of Some (n, o1) \<Rightarrow> o1 | None \<Rightarrow> out1 ! j)"
      "length (join_window rest out1) = length out1" by simp_all
    have step: "join_window futs out = join_window rest out1"
      unfolding out1_def rest_def ready_def using join_window.simps [of futs out] False by (simp only: if_False)
    have m: "map_of rest j = (case map_of futs j of Some (n, o1) \<Rightarrow> if n = 0 then None else Some (n - 1, o1) | None \<Rightarrow> None)"
      "map_of ready j = (case map_of futs j of Some (n, o1) \<Rightarrow> if n = 0 then Some (n, o1) else None | None \<Rightarrow> None)"
      using "1.prems"(1) unfolding rest_def ready_def
      by (induction futs) (auto split: option.splits simp: map_of_eq_None_iff rev_image_eqI)
    show ?thesis unfolding step using ih o m by (auto split: option.splits if_splits)
  qed (simp add: join_window.simps)
qed

text \<open>
  What a fan-out has done: who was pushed in which attempt, and what each outcome is. A subscriber is
  pushed again only when its first push timed out; an outcome is that of the last push, and \<open>Skipped\<close>
  without one.
\<close>

definition fanned :: "nat \<Rightarrow> (nat \<Rightarrow> nat \<Rightarrow> push_outcome future) \<Rightarrow> fan \<Rightarrow> bool" where
  "fanned count push s \<longleftrightarrow>
     length (fn_out s) = count \<and> distinct (fn_pushed s) \<and>
     (\<forall>(i, a)\<in>set (fn_pushed s). i < count \<and> a \<le> 1) \<and>
     (\<forall>i. (i, 1) \<in> set (fn_pushed s) \<longrightarrow> (i, 0) \<in> set (fn_pushed s) \<and> snd (push i 0) = TimedOut) \<and>
     (\<forall>i<count. fn_out s ! i =
        (if (i, 1) \<in> set (fn_pushed s) then snd (push i 1) else if (i, 0) \<in> set (fn_pushed s) then snd (push i 0) else Skipped))"

lemma fan_now_simps [simp]:
  "fn_pushed (snd (fan_now s)) = fn_pushed s" "fn_out (snd (fan_now s)) = fn_out s"
  by (simp_all add: fan_now_def)

lemma fanned_now [simp]: "fanned count push (snd (fan_now s)) = fanned count push s"
  by (simp add: fanned_def)

text \<open>One window of one attempt, over subscribers not pushed in it yet.\<close>

lemma fanned_window:
  assumes "fanned count push s" and "distinct win" and "\<forall>i\<in>set win. i < count \<and> (i, attempt) \<notin> set (fn_pushed s)"
    and "attempt \<le> 1" and "attempt = 0 \<Longrightarrow> \<forall>i\<in>set win. (i, 1) \<notin> set (fn_pushed s)"
    and "attempt = 1 \<Longrightarrow> \<forall>i\<in>set win. (i, 0) \<in> set (fn_pushed s) \<and> snd (push i 0) = TimedOut"
  shows "fanned count push (s\<lparr>fn_pushed := fn_pushed s @ map (\<lambda>i. (i, attempt)) win,
      fn_out := join_window (map (\<lambda>i. (i, push i attempt)) win) (fn_out s)\<rparr>)"
proof -
  let ?futs = "map (\<lambda>i. (i, push i attempt)) win"
  have len: "length (fn_out s) = count" using assms(1) by (simp add: fanned_def)
  have f: "distinct (map fst ?futs)" "\<forall>i\<in>fst ` set ?futs. i < length (fn_out s)"
    using assms(2,3) len by (simp_all add: comp_def image_image)
  have mo: "map_of ?futs j = (if j \<in> set win then Some (push j attempt) else None)" for j
    by (induction win) auto
  have out: "join_window ?futs (fn_out s) ! j = (if j \<in> set win then snd (push j attempt) else fn_out s ! j)"
    "length (join_window ?futs (fn_out s)) = count" for j
    using join_window_out [OF f, of j] len by (auto simp: mo split: prod.splits)
  have dis: "distinct (fn_pushed s @ map (\<lambda>i. (i, attempt)) win)"
    using assms(1-3) by (auto simp: fanned_def distinct_map inj_on_def)
  consider "attempt = 0" | "attempt = 1" using assms(4) by linarith
  then show ?thesis
  proof cases
    case 1
    with assms(1,3,5) dis out show ?thesis unfolding fanned_def by (auto simp: split_beta)
  next
    case 2
    with assms(1,3,6) dis out show ?thesis unfolding fanned_def by (auto simp: split_beta)
  qed
qed

lemma fanned_windows:
  assumes "fanned count push s" and "distinct (concat wins)"
    and "\<forall>i\<in>set (concat wins). i < count \<and> (i, attempt) \<notin> set (fn_pushed s)" and "attempt \<le> 1"
    and "attempt = 0 \<Longrightarrow> \<forall>i\<in>set (concat wins). (i, 1) \<notin> set (fn_pushed s)"
    and "attempt = 1 \<Longrightarrow> \<forall>i\<in>set (concat wins). (i, 0) \<in> set (fn_pushed s) \<and> snd (push i 0) = TimedOut"
  shows "fanned count push (drive_windows push deadline attempt wins s)"
  using assms
proof (induction wins arbitrary: s)
  case (Cons win wins)
  let ?s = "snd (fan_now s)"
  let ?t = "?s\<lparr>fn_pushed := fn_pushed ?s @ map (\<lambda>i. (i, attempt)) win,
      fn_out := join_window (map (\<lambda>i. (i, push i attempt)) win) (fn_out ?s)\<rparr>"
  have "fanned count push ?t"
    using Cons.prems by (intro fanned_window) auto
  moreover have "distinct (concat wins)" "set win \<inter> set (concat wins) = {}" using Cons.prems(2) by auto
  ultimately have "fanned count push (drive_windows push deadline attempt wins ?t)"
    using Cons.prems(3-6) by (intro Cons.IH) auto
  with Cons.prems(1) show ?case by (simp add: case_prod_beta)
qed simp

lemma drive_zero_pushes: "set (fn_pushed (drive_windows push deadline a wins s)) \<subseteq> set (fn_pushed s) \<union> UNIV \<times> {a}"
proof (induction wins arbitrary: s)
  case (Cons win wins)
  show ?case
    using Cons.IH [of "(snd (fan_now s))\<lparr>fn_pushed := fn_pushed s @ map (\<lambda>i. (i, a)) win,
      fn_out := join_window (map (\<lambda>i. (i, push i a)) win) (fn_out s)\<rparr>"]
    by (auto simp: case_prod_beta)
qed simp

text \<open>
  C24 (fan_out_retries_once). Whatever the hubs answer, in whatever order their answers arrive and
  whatever the clock reads: a fan-out pushes each subscriber at most once and once more only when its
  first push timed out, and each outcome reported is that of the subscriber's last push, or \<open>Skipped\<close>
  when it was never pushed.
\<close>

theorem fan_out_retries_once: "fanned count push (fan_out_with count width clock deadline push)"
proof -
  define s0 where "s0 = \<lparr>fn_clock = clock, fn_pushed = [], fn_out = replicate count Skipped\<rparr>"
  define s where "s = drive_windows push deadline 0 (chunks (max width 1) [0 ..< count]) s0"
  define retry where "retry = filter (\<lambda>i. fn_out s ! i = TimedOut) [0 ..< count]"
  have c: "concat (chunks (max width 1) xs) = xs" for xs :: "nat list" by simp
  have "fanned count push s0" by (simp add: fanned_def s0_def)
  then have s: "fanned count push s"
    unfolding s_def by (rule fanned_windows) (simp_all only: c, simp_all add: s0_def)
  have zero: "(i, 1) \<notin> set (fn_pushed s)" for i
    using drive_zero_pushes [of push deadline 0 "chunks (max width 1) [0 ..< count]" s0] by (auto simp: s0_def s_def)
  have "i < count \<and> (i, 0) \<in> set (fn_pushed s) \<and> snd (push i 0) = TimedOut" if "i \<in> set retry" for i
  proof -
    from that have i: "i < count" "fn_out s ! i = TimedOut" by (simp_all add: retry_def)
    with s zero [of i] have "TimedOut = (if (i, 0) \<in> set (fn_pushed s) then snd (push i 0) else Skipped)"
      unfolding fanned_def by metis
    with i(1) show ?thesis by (simp split: if_splits)
  qed
  moreover have "distinct retry" by (simp add: retry_def)
  ultimately have "fanned count push (drive_windows push deadline 1 (chunks (max width 1) retry) (snd (fan_now s)))"
    using s zero by (intro fanned_windows) (simp_all only: c fanned_now fan_now_simps, simp_all)
  with s show ?thesis
    unfolding fan_out_with_def Let_def s0_def [symmetric] s_def [symmetric] retry_def [symmetric] case_prod_beta by simp
qed

subsection \<open>The registry\<close>

datatype registry_call = RegRegister "string option" ms | RegList ms | RegLose "bool list"

fun registry_do :: "registry_call \<Rightarrow> registry \<Rightarrow> (unit, string list, registry) outcome" where
  "registry_do (RegRegister body now) r = (Inr [], snd (registry_register body now r))"
| "registry_do (RegList now) r = (let (fresh, r) = registry_list now r in (Inr fresh, r))"
| "registry_do (RegLose lost) r = (Inr [], r\<lparr>rg_lost := lost\<rparr>)"

text \<open>The calls within the window of a registration at \<open>t0\<close>: none reads the clock past its end or before its start.\<close>

fun within_fresh :: "ms \<Rightarrow> registry_call \<Rightarrow> bool" where
  "within_fresh t0 (RegRegister body now) = (t0 \<le> now)"
| "within_fresh t0 (RegList now) = (now \<le> t0 + FRESH_MS)"
| "within_fresh t0 (RegLose lost) = True"

definition listed_since :: "string \<Rightarrow> ms \<Rightarrow> registry \<Rightarrow> bool" where
  "listed_since k t0 r \<longleftrightarrow> k \<in> fst ` set (rg_entries r) \<and> (\<forall>t. (k, t) \<in> set (rg_entries r) \<longrightarrow> t0 \<le> t)"

lemma delete_other: "listed_since k t0 r \<Longrightarrow> j \<noteq> k \<Longrightarrow> listed_since k t0 (registry_delete j r)"
  by (auto simp: registry_delete_def listed_since_def Let_def split: list.split bool.split)

lemma deletes_other: "listed_since k t0 r \<Longrightarrow> k \<notin> set js \<Longrightarrow> listed_since k t0 (fold registry_delete js r)"
proof (induction js arbitrary: r)
  case (Cons j js)
  then have "listed_since k t0 (registry_delete j r)" by (intro delete_other) auto
  with Cons.IH Cons.prems(2) show ?case by simp
qed simp

lemma put_entries:
  "(x, u) \<in> set (rg_entries (registry_put j t r)) \<longleftrightarrow> (if x = j then u = t else (x, u) \<in> set (rg_entries r))"
proof (cases "map_of (rg_entries r) j")
  case None
  then have "(j, u) \<notin> set (rg_entries r)" by (force simp: map_of_eq_None_iff)
  with None show ?thesis by (auto simp: registry_put_def)
next
  case (Some v)
  then have "(j, v) \<in> set (rg_entries r)" by (rule map_of_SomeD)
  with Some show ?thesis by (auto simp: registry_put_def set_update_where image_iff)
qed

lemma listed_since_alt: "listed_since k t0 r \<longleftrightarrow> (\<exists>t. (k, t) \<in> set (rg_entries r)) \<and> (\<forall>t. (k, t) \<in> set (rg_entries r) \<longrightarrow> t0 \<le> t)"
  by (force simp: listed_since_def)

lemma put_listed: "listed_since k t0 r \<Longrightarrow> t0 \<le> t \<Longrightarrow> listed_since k t0 (registry_put j t r)"
  by (cases "j = k") (auto simp: listed_since_alt put_entries)

lemma put_listed_now: "listed_since k t (registry_put k t r)"
  by (simp add: listed_since_alt put_entries)

interpretation regs: kept registry_do "within_fresh t0" "listed_since k t0" for k t0
proof
  fix r c
  assume l: "listed_since k t0 r" and ok: "within_fresh t0 c"
  show "listed_since k t0 (snd (registry_do c r))"
  proof (cases c)
    case (RegRegister body now)
    with l ok put_listed show ?thesis by (auto simp: registry_register_def split: option.split)
  next
    case (RegList now)
    have "k \<notin> set (map fst (filter (\<lambda>e. \<not> saturating_sub now (snd e) \<le> FRESH_MS) (rg_entries r)))"
      using l ok RegList by (force simp: listed_since_def saturating_sub_def)
    then show ?thesis using deletes_other [OF l] RegList by (simp add: registry_list_def Let_def)
  next
    case (RegLose lost)
    with l show ?thesis by (simp add: listed_since_def)
  qed
qed

text \<open>
  An identity that registered at \<open>t0\<close> is in every list read up to the end of its window, through any
  registrations and lists of anyone in between and any deletes the storage loses.
\<close>

lemma registered_is_listed:
  assumes "is_owner_key k" and "reaches registry_do (within_fresh t0) (snd (registry_register (Some k) t0 r0)) r"
    and "now \<le> t0 + FRESH_MS"
  shows "k \<in> set (fst (registry_list now r))"
proof -
  have "listed_since k t0 r"
    using regs.reaches_inv [OF assms(2)] put_listed_now assms(1) by (simp add: registry_register_def)
  with assms(3) show ?thesis by (force simp: listed_since_def registry_list_def saturating_sub_def Let_def)
qed

lemma refresh_keeps_fresh: "3 * REGISTRY_REFRESH_EVERY_MS < FRESH_MS"
  by (simp add: REGISTRY_REFRESH_EVERY_MS_def FRESH_MS_def)

subsection \<open>Reads of an owner's room\<close>

definition demo_owner :: string where
  "demo_owner = replicate 66 (CHR ''a'')"

definition demo_ask :: "string \<Rightarrow> string \<Rightarrow> hub_leg" where
  "demo_ask owner room = (if length room = 69 then HubReplied 200 (Inr (JObj [(''present'', JNull), (''lastSeenMs'', JInt 7)]))
     else HubReplied 500 (Inl ''not JSON''))"

theorem presence_is_read_or_refused_witness:
  "get_member ''present'' (fst (fst (handle_presence_route (\<lambda>_. []) demo_ask
      [(''room'', demo_owner @ CHR ''-'' # ''in'')] new_counters))) = Some JNull \<and>
   presence_retry_after (fst (fst (handle_presence_route (\<lambda>_. []) demo_ask
      [(''room'', demo_owner @ CHR ''-'' # ''inbox'')] new_counters))) 503 = Some ''5''"
proof -
  let ?r = "\<lambda>box. handle_presence_route (\<lambda>_. []) demo_ask [(''room'', demo_owner @ CHR ''-'' # box)] new_counters"
  have key: "is_owner_key demo_owner" by code_simp
  have q: "query_value ''room'' [(''room'', demo_owner @ CHR ''-'' # box)] = Some (demo_owner @ CHR ''-'' # box)" for box
    by (simp add: query_value_def)
  have run: "?r box = ((fst (fst (?r box)), snd (fst (?r box))), fst (snd (?r box)), snd (snd (?r box)))" for box by simp
  have said: "hub_said (demo_ask demo_owner (demo_owner @ CHR ''-'' # ''in'')) (JObj [(''present'', JNull), (''lastSeenMs'', JInt 7)]) JNull"
    by (simp add: hub_said_def demo_ask_def demo_owner_def)
  have no: "\<not> hub_said (demo_ask demo_owner (demo_owner @ CHR ''-'' # ''inbox'')) b p" for b p
    by (simp add: hub_said_def demo_ask_def demo_owner_def)
  from presence_is_read_or_refused [OF run q key] said
  have one: "get_member ''present'' (fst (fst (?r ''in''))) = Some JNull" by blast
  from presence_is_read_or_refused [OF run q key] no
  have "snd (fst (?r ''inbox'')) \<noteq> 200" by blast
  with presence_is_read_or_refused [OF run q key]
  have "snd (fst (?r ''inbox'')) = 503 \<and> presence_retry_after (fst (fst (?r ''inbox''))) (snd (fst (?r ''inbox''))) = Some ''5''" by blast
  with one show ?thesis by metis
qed

end
