(* ===== verification/Permission_Props.thy ===== *)
theory Permission_Props
  imports Permission_Routes D1_Theorems Presence_Props
begin

section \<open>The permission routes: what is set is got and quoted\<close>

text \<open>
  The routes of \<open>Permission_Routes\<close> over D1's retries: what a set stores is what the next quote and
  the next get answer, and the sums of a quote in 32 bits, exact below \<open>2 ^ 31\<close> and wrapping above.
\<close>

lemma i32_of_f64_range: "- (2 ^ 31) \<le> i32_of_f64 v" "i32_of_f64 v < 2 ^ 31"
  by (simp_all add: i32_of_f64_def)

lemma i32_of_f64_id: "- (2 ^ 31) \<le> fee \<Longrightarrow> fee < 2 ^ 31 \<Longrightarrow> i32_of_f64 (js_number fee) = fee \<and> i32_of_f64 fee = fee"
proof -
  assume r: "- (2 ^ 31) \<le> fee" "fee < 2 ^ 31"
  then have "\<bar>fee\<bar> \<le> 2 ^ 53" by simp
  with r show ?thesis by (simp add: i32_of_f64_def)
qed

lemma read_set_shape:
  assumes "read_set parse whole raw = Inr (sender, mbox, fee)"
  shows "mbox \<noteq> []" and "sender = Some s \<Longrightarrow> is_valid_pubkey s" and "- (2 ^ 31) \<le> fee" and "fee < 2 ^ 31"
proof -
  have "trim [] = []" by code_simp
  then show "mbox \<noteq> []" and "sender = Some s \<Longrightarrow> is_valid_pubkey s" and "- (2 ^ 31) \<le> fee" and "fee < 2 ^ 31"
    using assms i32_of_f64_range
    by (auto simp: read_set_def Let_def split: option.splits if_splits)
qed

lemma handle_set_200:
  assumes "handle_set parse whole raw i db = ((ans, 200), db')"
  obtains sender mbox fee where "read_set parse whole raw = Inr (sender, mbox, fee)"
    and "set_permission i sender mbox fee db = (Inr True, db')"
proof (cases "read_set parse whole raw")
  case (Inl no)
  then have "snd no \<noteq> 200"
    by (auto simp: read_set_def Let_def SET_REQUIRED_def INVALID_SENDER_def error_answer_def
        split: option.splits if_splits)
  with assms Inl show thesis by (auto simp: handle_set_def)
next
  case (Inr r)
  then obtain sender mbox fee where r: "read_set parse whole raw = Inr (sender, mbox, fee)" by (cases r) auto
  obtain q d where q: "set_permission i sender mbox fee db = (q, d)" by fastforce
  with assms r have "q = Inr True \<and> d = db'"
    by (cases q; cases "projr q") (auto simp: handle_set_def DATABASE_ERROR_def error_answer_def)
  with that r q show thesis by simp
qed

lemma fee_of_tables: "tables db = tables db' \<Longrightarrow> fee_of r s mb db = fee_of r s mb db'"
  unfolding fee_of_def using perm_rows_tables [of db db' r "Some s" mb] perm_rows_tables [of db db' r None mb]
  by (simp only:)

lemma quote_one_recipient:
  assumes "handle_quote [(''messageBox'', mbox), (''recipient'', r)] sender db = ((q, 200), db')"
  shows "\<exists>d. get_member ''quote'' q = Some (JObj [(''deliveryFee'', JInt d), (''recipientFee'', JInt (fee_of r sender mbox db))])"
proof -
  have box: "mbox \<noteq> []" and key: "is_valid_pubkey r"
    using assms by (auto simp: handle_quote_def nonempty_def query_value_def QUOTE_REQUIRED_def error_answer_def Let_def
        split: if_splits)
  obtain d db1 where s: "get_server_delivery_fee mbox db = (Inr d, db1)"
    using assms box key
    by (cases "get_server_delivery_fee mbox db"; cases "fst (get_server_delivery_fee mbox db)")
      (auto simp: handle_quote_def nonempty_def query_value_def internal_error_def error_answer_def Let_def)
  then have t: "tables db1 = tables db"
    unfolding get_server_delivery_fee_def by (auto elim!: andThen_InrE dest: d1_read_Inr(2))
  obtain f db2 where f: "get_recipient_fee r sender mbox db1 = (Inr f, db2)"
    using assms box key s
    by (cases "get_recipient_fee r sender mbox db1"; cases "fst (get_recipient_fee r sender mbox db1)")
      (auto simp: handle_quote_def nonempty_def query_value_def internal_error_def error_answer_def Let_def)
  from get_recipient_fee_reads [OF f] fee_of_tables [OF t] have "f = fee_of r sender mbox db" by simp
  with assms box key s f show ?thesis
    by (auto simp: handle_quote_def nonempty_def query_value_def Let_def)
qed

lemma get_of_sender:
  assumes "handle_get [(''messageBox'', mbox), (''sender'', sender)] r db = ((g, 200), db')" and "sender \<noteq> []"
    and "first_row (perm_rows r (Some sender) mbox db) = Some p"
  shows "get_member ''permission'' g = Some (format_permission (permission_row p))"
proof -
  have box: "mbox \<noteq> []" and key: "is_valid_pubkey sender"
    using assms(1,2) by (auto simp: handle_get_def nonempty_def query_value_def INVALID_SENDER_def error_answer_def Let_def
        split: if_splits)
  obtain x db1 where x: "get_permission r (Some sender) mbox db = (Inr x, db1)"
    using assms(1,2) box key
    by (cases "get_permission r (Some sender) mbox db"; cases "fst (get_permission r (Some sender) mbox db)")
      (auto simp: handle_get_def nonempty_def query_value_def internal_error_def error_answer_def Let_def)
  have "x = Some (permission_row p)"
    using d1_read_Inr [OF x [unfolded get_permission_def]] perm_rows_tables [of db1 db] assms(3) by simp
  with assms(1,2) box key x show ?thesis
    by (auto simp: handle_get_def nonempty_def query_value_def Let_def)
qed

text \<open>
  C32 (permission_set_is_quoted). A permission a recipient set for a sender, answered 200 whatever its
  writes met, is what the routes say afterwards: a quote asked by that sender names that fee, the
  recipient reads back that fee with its status, and no other permission changed. The fee is the
  request's number, held to 32 bits.
\<close>

theorem permission_set_is_quoted:
  assumes "handle_set parse whole raw r db = ((ans, 200), db')"
    and "read_set parse whole raw = Inr (Some sender, mbox, fee)"
    and "handle_quote [(''messageBox'', mbox), (''recipient'', r)] sender db' = ((q, 200), db1)"
    and "handle_get [(''messageBox'', mbox), (''sender'', sender)] r db' = ((g, 200), db2)"
  shows "(\<exists>d. get_member ''quote'' q = Some (JObj [(''deliveryFee'', JInt d), (''recipientFee'', JInt fee)])) \<and>
    (\<exists>p. get_member ''permission'' g = Some p \<and> get_member ''recipientFee'' p = Some (JInt fee) \<and>
       get_member ''status'' p = Some (JStr (fee_to_status fee)) \<and> get_member ''sender'' p = Some (JStr sender)) \<and>
    others_kept r (Some sender) mbox db db'"
proof -
  from handle_set_200 [OF assms(1)] assms(2) have set: "set_permission r (Some sender) mbox fee db = (Inr True, db')" by auto
  note kept = set_sender_permission [OF set]
  note shape = read_set_shape [OF assms(2)]
  obtain p where p: "first_row (perm_rows r (Some sender) mbox db') = Some p" "pm_fee p = fee" using kept(3) by auto
  then have ps: "pm_sender p = Some sender"
    by (auto simp: first_row_def perm_rows_def filter_eq_Cons_iff split: list.splits)
  have fee: "i32_of_f64 (js_number fee) = fee" "i32_of_f64 fee = fee" using i32_of_f64_id [OF shape(3,4)] by simp_all
  have "fee_of r sender mbox db' = fee" using p fee by (simp add: fee_of_def)
  with quote_one_recipient [OF assms(3)] have "\<exists>d. get_member ''quote'' q = Some (JObj [(''deliveryFee'', JInt d), (''recipientFee'', JInt fee)])"
    by simp
  moreover have "sender \<noteq> []" using shape(2) by (auto simp: is_valid_pubkey_def)
  from get_of_sender [OF assms(4) this p(1)] have "get_member ''permission'' g = Some (format_permission (permission_row p))" .
  ultimately show ?thesis using kept(2) p(2) ps fee
    by (simp add: format_permission_def permission_row_def row_fee_def opt_str_def)
qed

text \<open>The totals of a quote: the positive fees summed and the blocked recipients, in the request's order.\<close>

lemma quote_loop_totals:
  assumes "quote_loop mbox d sender rs q db = (Inr q', db')"
  obtains fees where "length fees = length rs"
    and "q_total q' = fold (\<lambda>f t. if 0 < f then i32_wrap (t + f) else t) fees (q_total q)"
    and "q_blocked q' = q_blocked q @ map fst (filter (\<lambda>(r, f). f = -1) (zip rs fees))"
  using assms
proof (induction rs arbitrary: q db thesis)
  case (Cons r rs)
  then obtain f db1 where f: "get_recipient_fee r sender mbox db = (Inr f, db1)"
    "quote_loop mbox d sender rs (quote_one mbox d r f q) db1 = (Inr q', db')"
    by (auto elim: andThen_InrE)
  obtain fees where fees: "length fees = length rs"
    "q_total q' = fold (\<lambda>f t. if 0 < f then i32_wrap (t + f) else t) fees (q_total (quote_one mbox d r f q))"
    "q_blocked q' = q_blocked (quote_one mbox d r f q) @ map fst (filter (\<lambda>(r, f). f = -1) (zip rs fees))"
    using Cons.IH [OF _ f(2)] by blast
  then show ?case by (intro Cons.prems(1) [of "f # fees"]) (auto simp: quote_one_def)
qed simp

lemma i32_wrap_id: "- (2 ^ 31) \<le> i \<Longrightarrow> i < 2 ^ 31 \<Longrightarrow> i32_wrap i = i"
  by (simp add: i32_wrap_def)

lemma totals_exact:
  assumes "t + sum_list (filter (\<lambda>f. 0 < f) fees) < 2 ^ 31" and "0 \<le> t"
  shows "fold (\<lambda>f t. if 0 < f then i32_wrap (t + f) else t) fees t = t + sum_list (filter (\<lambda>f. 0 < f) fees)"
  using assms
proof (induction fees arbitrary: t)
  case (Cons f fees)
  have "0 \<le> sum_list (filter (\<lambda>f. 0 < f) fees)" by (rule sum_list_nonneg) auto
  with Cons show ?case by (cases "0 < f") (auto simp: i32_wrap_id)
qed simp

text \<open>Two recipients who each ask the largest fee: the total a quote names is negative.\<close>

definition dear_key :: "char \<Rightarrow> string" where
  "dear_key c = ''02'' @ replicate 64 c"

definition dear_db :: d1_db where
  "dear_db = (box_db [] [])\<lparr>d_perms := map (\<lambda>c. new_perm (dear_key c) None ''inbox'' (2 ^ 31 - 1) ''t0'') ''ab''\<rparr>"

lemma quote_total_wraps:
  "Option.bind (get_member ''totals'' (fst (fst (handle_quote
     [(''messageBox'', ''inbox''), (''recipient'', dear_key (CHR ''a'')), (''recipient'', dear_key (CHR ''b''))] ''carol'' dear_db))))
     (get_member ''recipientFees'') = Some (JInt (- 2))"
  by code_simp

definition demo_set :: "string \<Rightarrow> json option" where
  "demo_set raw = Some (JObj [(''messageBox'', JStr ''inbox''), (''recipientFee'', JInt 25), (''sender'', JStr (dear_key (CHR ''a'')))])"

theorem permission_set_is_quoted_witness:
  "\<exists>d. get_member ''quote'' (fst (fst (handle_quote [(''messageBox'', ''inbox''), (''recipient'', dear_key (CHR ''b''))] (dear_key (CHR ''a''))
     (snd (handle_set demo_set (\<lambda>_. None) [] (dear_key (CHR ''b'')) (box_db [landed, Served] [])))))) =
   Some (JObj [(''deliveryFee'', JInt d), (''recipientFee'', JInt 25)])"
proof -
  let ?s = "handle_set demo_set (\<lambda>_. None) [] (dear_key (CHR ''b'')) (box_db [landed, Served] [])"
  let ?q = "handle_quote [(''messageBox'', ''inbox''), (''recipient'', dear_key (CHR ''b''))] (dear_key (CHR ''a'')) (snd ?s)"
  let ?g = "handle_get [(''messageBox'', ''inbox''), (''sender'', dear_key (CHR ''a''))] (dear_key (CHR ''b'')) (snd ?s)"
  have st: "snd (fst ?s) = 200" "snd (fst ?q) = 200" "snd (fst ?g) = 200" by code_simp+
  then have s: "?s = ((fst (fst ?s), 200), snd ?s)" and q: "?q = ((fst (fst ?q), 200), snd ?q)" and g: "?g = ((fst (fst ?g), 200), snd ?g)"
    by (metis prod.collapse)+
  have r: "read_set demo_set (\<lambda>_. None) [] = Inr (Some (dear_key (CHR ''a'')), ''inbox'', 25)" by code_simp
  from permission_set_is_quoted [OF s r q g] show ?thesis by blast
qed

end
