(* ===== verification/Spec2Isabelle.thy ===== *)
theory Spec2Isabelle
  imports Mailbox_Theorems Archive_Theorems D1_Theorems Relay_Correct Session_Theorems
    Send_Budget_Props Codec_Props Validation_Props Door_Props Turn_Props Permission_Props
begin

text \<open>
  A verification of the message relay \<open>bsv-messagebox-cloudflare\<close>: a Cloudflare Worker in Rust
  that takes messages for a recipient's boxes, keeps them in the recipient's hub (a Durable
  Object with SQLite) and in D1, lists them, and drops them once acknowledged.

  \<^bold>\<open>The program's parts and their theories.\<close>

  \<^item> \<^bold>\<open>The mailbox\<close> (\<open>src/src/mailbox/mod.rs\<close>, \<open>schema.rs\<close>): the rows a recipient's hub holds, under
    a bound of rows and bytes, each owed to the archive until it confirms. \<open>Mailbox\<close> holds the
    model, statement by statement on the record \<open>mailbox_db\<close>; \<open>Mailbox_Props\<close>, \<open>Mailbox_Events\<close> and
    \<open>Mailbox_Reads\<close> the lemmas per operation; \<open>Mailbox_Correct\<close> the machine of all calls with its
    invariant, its counters and its refinement of an abstract inbox; \<open>Mailbox_Theorems\<close> the
    properties.
  \<^item> \<^bold>\<open>D1\<close> (\<open>src/src/storage.rs\<close>, \<open>retention.rs\<close>, \<open>d1.rs\<close>): \<open>D1_Tables\<close> is the database, one round
    trip to it and the bounded retries; \<open>D1_Store\<close> the statements and operations on boxes,
    messages, fees and permissions, and the retention predicate; \<open>D1_Store_Props\<close> and
    \<open>D1_Theorems\<close> show what each does under every script of lost and refused answers.
  \<^item> \<^bold>\<open>The archive\<close> (\<open>src/src/archive.rs\<close>): the queue consumer that copies the hub's changes to D1
    and confirms them to the hub. \<open>Archive\<close>, \<open>Archive_Props\<close>, \<open>Archive_Consume\<close>,
    \<open>Archive_Theorems\<close>. The message it reads is the one \<open>Mailbox.archive_message\<close> writes and the
    confirmations it sends are those \<open>Mailbox.archive_done\<close> takes.
  \<^item> \<^bold>\<open>The mailbox hub\<close> (\<open>src/src/message_hub_sql.rs\<close>): the Durable Object's handlers over the mailbox,
    D1 and the archive queue, and the Worker's side of each hop with its one retry. \<open>Mailbox_Hub\<close>
    is the model over the record \<open>relay\<close> (every hub, D1, the queue, and the fate of each hop to come:
    served, lost, served but unanswered, or landing late); \<open>Relay_System\<close> puts the calls, the queue
    consumer with its hops, redelivery, late requests and evictions into one machine and states its
    invariant. \<open>Mailbox_Changes\<close> reads every mailbox call as a sequence of row changes,
    \<open>Mailbox_Hub_Props\<close> carries an invariant through the handlers in the locale \<open>hub_parts\<close>,
    \<open>Relay_D1\<close>, \<open>Relay_Keeps\<close>, \<open>Relay_Theorems\<close> and \<open>Relay_Insert\<close> interpret it, and
    \<open>Relay_Correct\<close> holds the end-to-end properties.
  \<^item> \<^bold>\<open>The session lane\<close> (\<open>src/src/session_lane.rs\<close> and the mirrors of \<open>message_hub.rs\<close>): a keyed
    session negotiated on a socket, whose mirror at the hub checks HTTP calls. \<open>Session_Lane\<close>,
    \<open>Session_Mirrors\<close>, \<open>Session_Lane_Props\<close>, \<open>Session_Theorems\<close>.
  \<^item> \<^bold>\<open>The send budget and the router\<close> (\<open>src/src/send_budget.rs\<close>, \<open>hub_store.rs\<close>): \<open>Send_Budget\<close>,
    \<open>Send_Budget_Props\<close>.
  \<^item> \<^bold>\<open>The wire\<close> (\<open>src/src/engineio/codec.rs\<close>, \<open>validation.rs\<close>): \<open>Codec\<close>, \<open>Codec_Props\<close>;
    \<open>Validation\<close>, \<open>Validation_Props\<close>.
  \<^item> \<^bold>\<open>The payment of a send\<close> (\<open>src/src/beef_door.rs\<close>, \<open>handoff.rs\<close>, \<open>payments.rs\<close>, the ledger of
    \<open>storage.rs\<close> and the bucket of \<open>beef_upload.rs\<close>): \<open>Payment_Store\<close> is the state, the record
    \<open>vault\<close> with its D1 tables, its objects and the scripted fates of the bucket, the wallet and the
    broadcaster; \<open>Beef_Door\<close> the reading of a payment in phases that may be put to sleep between
    requests; \<open>Handoff\<close> what becomes of a verified payment (kept, spooled, its fee recorded or
    deferred), the reclaims, the drain and the re-asks; \<open>Payments\<close> the processing of a send's payment
    from its fee to the answer. \<open>Payment_Props\<close> states the interfaces, \<open>Handoff_Props\<close> and
    \<open>Payment_Custody\<close> carry them through the hand-off and the door, \<open>Door_Props\<close> shows what a
    verified word means, \<open>Fee_Props\<close> and \<open>Fee_Bytes\<close> what a deferred fee leaves in the ledger and
    in the bucket.
  \<^item> \<^bold>\<open>The send\<close> (\<open>src/src/routes/send_message.rs\<close>, the store of \<open>message_hub_sql.rs\<close>): \<open>Send_Route\<close>
    is the write path both transports share, over either store. \<open>Send_Rows\<close> shows which rows a send
    stores, \<open>Send_Custody\<close> that it deletes no object something names, \<open>Send_Theorems\<close> holds the
    properties of sends and payments.
  \<^item> \<^bold>\<open>TURN credentials\<close> (\<open>src/src/turn_credentials/mod.rs\<close>, \<open>revoke.rs\<close>): \<open>Turn_Credentials\<close>,
    \<open>Turn_Props\<close>.
  \<^item> \<^bold>\<open>Presence and broadcast\<close> (\<open>src/src/presence.rs\<close>, \<open>presence_counters.rs\<close>,
    \<open>broadcast_registry.rs\<close>, \<open>hub_forward.rs\<close>, the guards of \<open>lib.rs\<close>): \<open>Presence\<close>, \<open>Presence_Props\<close>.
  \<^item> \<^bold>\<open>The permission routes\<close> (\<open>src/src/permissions.rs\<close>): \<open>Permission_Routes\<close>, \<open>Permission_Props\<close>.

  \<open>Relay_Prelude\<close> holds what all share (machine integers and their casts, results, byte strings,
  decimal text, JSON values, list and table lemmas); \<open>Machine\<close> the runs of a machine and the
  interfaces \<open>kept\<close>, \<open>kept_if_served\<close> and \<open>refined\<close>, which the mailbox, the mirrors, the lane, the
  budget's windows, the archive, the door, the vault, the TURN budgets, the registry and the whole
  relay interpret on their own definitions.

  \<^bold>\<open>Interfaces between parts.\<close> \<open>hub_seat\<close> and \<open>hub_parts\<close> (\<open>Mailbox_Hub_Props\<close>) are what a property
  must keep of a hub's row changes and D1 statements for every handler to keep it; the relay's
  invariant, the fate of one insert, the holding of one message and the rows of a send interpret
  them. \<open>outward_steps\<close>, \<open>book_steps\<close>, \<open>vault_steps\<close>, \<open>reclaiming\<close> and \<open>custodial\<close> (\<open>Payment_Props\<close>)
  do the same for the steps of a payment, each extending the one before; custody of named objects,
  the rows a payment leaves alone and the fees interpret them. \<open>send_rows\<close> and \<open>custody_store\<close> are
  the trait \<open>SendStore\<close>, interpreted on the D1 store and on the hubs' store. \<open>windows\<close> is the trait of
  the budget's windows, interpreted on D1's.

  \<^bold>\<open>How code becomes definitions.\<close> A struct is a record, an enum a datatype, an \<open>async fn\<close> a
  function from the storage to its result and the storage it left. A Rust \<open>String\<close> is its UTF-8
  bytes. An SQL statement is a function on the tables with the values it binds; a statement that
  fails is a fault of the storage's script, so every early return by \<open>?\<close> is a branch. A loop of the
  source is a recursion with its termination proved: the retries by the attempts left, the byte
  scanners by the text left. No fuel is used.

  \<^bold>\<open>One call at a time.\<close> In the relay's machine a call runs to its answer before the next one starts:
  a hub serves its SQL without awaiting, and the only awaits inside a handler are D1's. Two handlers
  of one hub interleaved at such an await, and two routes of one Worker, are not covered. The
  archive queue delivers at least once: a message once handed to it may be delivered at any later
  time, any number of times, in any company.

  Sends, payments, drains and reclaims follow one another in the same way in the vault's machine; a
  payment's reading may be suspended between requests, with anything happening to the bucket and the
  clock in between.

  \<^bold>\<open>Parameters.\<close> Code outside the repository is an argument: SHA-256, HMAC and hex (\<open>primitives\<close>),
  the reading and writing of JSON text, the date text of a time, the answer of another Durable
  Object, the wallet, the broadcaster, the header service and the TURN provider (scripts of answers).
  The stream verifier of \<open>bsv-rs\<close> is an argument together with the loop of \<open>beef_door.rs\<close> that feeds
  it slices within one reading, since the loop's state is the verifier's; the phases, the stamps and
  the saved state around the loop are definitions. Numbers that cross JavaScript are rounded to
  doubles where the source lets them cross (\<open>js_number\<close>); a property that needs them exact says so.

  \<^bold>\<open>What is shown.\<close>

  \<^item> The mailbox: its rows are well-formed after every call, even one that fails part way; its
    counters are exact and its bound holds after every answered run; it implements an inbox; each
    operation does what its event says and a retry repeats nothing.
  \<^item> D1: an insert's answer is true exactly of the row, an acknowledgment is one reference update
    however it is cut and retried, fees agree between their two readers.
  \<^item> The archive: rows only advance, an acknowledgment is final in every order of delivery, a
    confirmation is true where each id has one recipient, every queue message is settled once.
  \<^item> The relay as a whole, under every fault and every order of delivery: an insert that is retried
    through lost answers stores its message exactly once; an unpaid message stored stays until its
    recipient acknowledges it; the hubs, D1, the queue and the requests in flight stay consistent.
    These three hold whatever ids are sent to whom. An acknowledged message is never listed again
    where its own id is only ever sent to that one recipient and not sent again; other ids may go
    to anybody. The code checks neither, and \<open>cross_recipient_superseded\<close> shows what a shared id does.
    The environment asked for, \<open>env_ok\<close>, is a serialiser that reads back what it wrote and at most
    98 retention prefixes, so that one id fits a statement of 100 parameters.
  \<^item> The sessions: no counter is accepted twice by a mirror; spent counters stay spent while the
    mirror stays stored and the look-ups that decide on registering it again are served.
  \<^item> The budget: a window's sends and bytes are bounded, whatever charges fail before or after they
    landed.
  \<^item> Payments and sends: no object that a live row, an owed fee or an owed announcement names is
    deleted; a verified word means structure, scripts, roots and the paying output were checked
    over one object; a send stores its rows in order and a refused one stores nothing; a deferred
    fee leaves the payment's bytes at the key answered, and the ledger owes it unless an ended row
    is there; a fee is tried a bounded number of times.
  \<^item> TURN: the requests that reach the provider are bounded by each budget, what is minted lives for
    the configured time and only its minter's revoke reaches the provider.
  \<^item> Presence and broadcast: a fault never reads as an absence, a first-party box cannot be reached
    through the public door, a fan-out retries a timeout once.
  \<^item> Permissions: what is set is what is quoted.
  \<^item> The wire: round trips of packets, the shape of a validated send, and exactly which bodies make
    the reader panic.

  Five properties state what the code does against its comments: an id shared by two recipients in
  one archive batch (\<open>cross_recipient_superseded\<close>), the bodies that make the reader panic
  (\<open>send_body_panics_exactly\<close>), a session mirror registered again after it expired
  (\<open>reregistered_mirror_replays\<close>; the lemma \<open>unread_mirror_replays\<close> shows the same of a mirror whose
  look-up failed), a box-wide permission set twice (\<open>box_wide_permission_frozen\<close>), and a fee answered
  as deferred at a key whose fee has ended (\<open>deferred_fee_is_owed\<close>).

  \<^bold>\<open>Not modelled.\<close> The platform glue of \<open>lib.rs\<close> and \<open>socketio_worker.rs\<close>; the sockets of a hub, its
  side of presence, its key-value mailboxes and the session object of \<open>engineio/session.rs\<close>; the
  BRC-103 handshake of \<open>engineio/auth.rs\<close>, which rests on a cryptographic library; presigned URLs;
  devices and push notifications; the transcript read and its purge; the API document.
\<close>

end
